(* ===== verification/Prelude.thy ===== *)
theory Prelude
  imports Complex_Main "HOL-Library.Word" "HOL-Library.AList" "HOL-Library.Multiset"
begin

text \<open>
  What the component theories share: the error values a TypeScript \<open>throw\<close> or a rejected promise
  carries, the JavaScript string, array, \<open>Set\<close> and \<open>Map\<close> operations the source calls, and the
  generic theory of action machines (states, actions, runs, invariants) behind every component
  that keeps state between events.

  Strings are lists of characters below code point 128 as far as case mapping and white space go;
  a typographic character of a message (an ellipsis, a middle dot, a quotation mark) is written
  as its UTF-8 bytes.
\<close>

named_theorems js_defs \<open>definitions of the JavaScript operations, for evaluation\<close>
named_theorems js_simps \<open>rewrite rules for the JavaScript operations\<close>

section \<open>Errors\<close>

text \<open>The status codes of Connect RPC (the \<open>Code\<close> enumeration the source switches on).\<close>

datatype rpc_code =
    Canceled | Unknown | InvalidArgument | DeadlineExceeded | NotFound | AlreadyExists
  | PermissionDenied | ResourceExhausted | FailedPrecondition | Aborted | OutOfRange
  | Unimplemented | Internal | Unavailable | DataLoss | Unauthenticated

record connect_error =
  ce_code :: rpc_code
  ce_rawMessage :: string
  ce_message :: string

text \<open>
  What can be thrown: a \<open>ConnectError\<close>, the source's own \<open>EditSaveAbortedError\<close>, another
  \<open>Error\<close> with its message, a value that is no \<open>Error\<close>, and \<open>null\<close> or \<open>undefined\<close>.
\<close>

datatype js_error =
    ConnectErr connect_error
  | EditSaveAbortedError
  | JsError string
  | NonError
  | Nullish

text \<open>
  \<open>ConnectError.from\<close> belongs to the Connect library and is a parameter wherever the source
  calls it. Its documented behaviour: a \<open>ConnectError\<close> is returned as it is.
\<close>

type_synonym connect_from = "js_error \<Rightarrow> connect_error"

definition connect_from_ok :: "connect_from \<Rightarrow> bool" where
  "connect_from_ok from \<longleftrightarrow> (\<forall>c. from (ConnectErr c) = c)"

text \<open>An instance for concrete inputs: everything that is no \<open>ConnectError\<close> is \<open>Unknown\<close>.\<close>

fun connect_from_plain :: connect_from where
  "connect_from_plain (ConnectErr c) = c"
| "connect_from_plain e = \<lparr>ce_code = Unknown, ce_rawMessage = [], ce_message = []\<rparr>"

lemma connect_from_plain_ok: "connect_from_ok connect_from_plain"
  by (simp add: connect_from_ok_def)

text \<open>\<open>error instanceof Error ? error.message : fallback\<close>.\<close>

fun error_message :: "string \<Rightarrow> js_error \<Rightarrow> string" where
  "error_message _ (ConnectErr c) = ce_message c"
| "error_message _ EditSaveAbortedError = ''Save cancelled''"
| "error_message _ (JsError m) = m"
| "error_message fallback NonError = fallback"
| "error_message fallback Nullish = fallback"

section \<open>Strings\<close>

definition is_ws :: "char \<Rightarrow> bool" where
  "is_ws c \<longleftrightarrow> c \<in> {CHR '' '', CHR 0x09, CHR 0x0A, CHR 0x0B, CHR 0x0C, CHR 0x0D, CHR 0xA0}"

definition js_trim :: "string \<Rightarrow> string" where
  "js_trim s = rev (dropWhile is_ws (rev (dropWhile is_ws s)))"

definition starts_with :: "string \<Rightarrow> string \<Rightarrow> bool" where
  "starts_with s p \<longleftrightarrow> take (length p) s = p"

definition ends_with :: "string \<Rightarrow> string \<Rightarrow> bool" where
  "ends_with s p \<longleftrightarrow> length p \<le> length s \<and> drop (length s - length p) s = p"

fun js_includes :: "string \<Rightarrow> string \<Rightarrow> bool" where
  "js_includes [] p = (p = [])"
| "js_includes (c # s) p = (starts_with (c # s) p \<or> js_includes s p)"

definition lower_char :: "char \<Rightarrow> char" where
  "lower_char c = (let n = of_char c :: nat in if 65 \<le> n \<and> n \<le> 90 then char_of (n + 32) else c)"

definition upper_char :: "char \<Rightarrow> char" where
  "upper_char c = (let n = of_char c :: nat in if 97 \<le> n \<and> n \<le> 122 then char_of (n - 32) else c)"

definition to_lower :: "string \<Rightarrow> string" where
  "to_lower s = map lower_char s"

definition to_upper :: "string \<Rightarrow> string" where
  "to_upper s = map upper_char s"

text \<open>\<open>s.split(sep)\<close> for a one-character separator: always at least one piece.\<close>

fun split_char :: "char \<Rightarrow> string \<Rightarrow> string list" where
  "split_char sep [] = [[]]"
| "split_char sep (c # s) =
     (if c = sep then [] # split_char sep s
      else (case split_char sep s of [] \<Rightarrow> [[c]] | p # ps \<Rightarrow> (c # p) # ps))"

text \<open>\<open>parts.join(sep)\<close>.\<close>

fun js_join :: "string \<Rightarrow> string list \<Rightarrow> string" where
  "js_join sep [] = []"
| "js_join sep [x] = x"
| "js_join sep (x # y # zs) = x @ sep @ js_join sep (y # zs)"

text \<open>\<open>s.lastIndexOf(c)\<close>, on strings and on arrays, as an option (\<open>None\<close> is \<open>-1\<close>).\<close>

fun last_index_of :: "'a \<Rightarrow> 'a list \<Rightarrow> nat option" where
  "last_index_of c [] = None"
| "last_index_of c (x # s) =
     (case last_index_of c s of Some i \<Rightarrow> Some (Suc i) | None \<Rightarrow> if x = c then Some 0 else None)"

text \<open>Decimal representation of a natural number, as a template string prints it.\<close>

definition digit_char :: "nat \<Rightarrow> char" where
  "digit_char d = (if d < 10 then char_of (48 + d :: nat) else char_of (87 + d :: nat))"

fun show_nat :: "nat \<Rightarrow> string" where
  "show_nat n = (if n < 10 then [digit_char n] else show_nat (n div 10) @ [digit_char (n mod 10)])"

declare show_nat.simps [simp del]

definition hex_digit :: "nat \<Rightarrow> char" where
  "hex_digit d = digit_char d"

text \<open>\<open>n.toString(16)\<close> and \<open>padStart(2, "0")\<close>.\<close>

fun to_string16 :: "nat \<Rightarrow> string" where
  "to_string16 n = (if n < 16 then [hex_digit n] else to_string16 (n div 16) @ [hex_digit (n mod 16)])"

declare to_string16.simps [simp del]

definition pad_start :: "nat \<Rightarrow> char \<Rightarrow> string \<Rightarrow> string" where
  "pad_start n c s = replicate (n - length s) c @ s"

definition show_int :: "int \<Rightarrow> string" where
  "show_int n = (if n < 0 then ''-'' @ show_nat (nat (- n)) else show_nat (nat n))"

text \<open>\<open>xs.filter(Boolean)\<close> on strings keeps the nonempty ones.\<close>

definition truthy_strings :: "string list \<Rightarrow> string list" where
  "truthy_strings xs = filter (\<lambda>s. s \<noteq> []) xs"

text \<open>Whether an optional string counts as false.\<close>

definition falsy :: "string option \<Rightarrow> bool" where
  "falsy s \<longleftrightarrow> s = None \<or> s = Some []"

section \<open>Arrays, sets and maps\<close>

text \<open>\<open>Array.from(new Set(xs))\<close>: the first occurrence of each element, in order.\<close>

definition js_set_add :: "'a list \<Rightarrow> 'a \<Rightarrow> 'a list" where
  "js_set_add s x = (if x \<in> set s then s else s @ [x])"

definition js_set :: "'a list \<Rightarrow> 'a list" where
  "js_set xs = foldl js_set_add [] xs"

text \<open>
  A JavaScript \<open>Map\<close> is an association list in insertion order: \<open>set\<close> on a present key keeps
  the key's place (\<open>AList.update\<close>), \<open>delete\<close> removes it, \<open>get\<close> is \<open>map_of\<close>.
  \<open>new Map(entries)\<close> sets the entries one after the other.
\<close>

definition js_map_of :: "('k \<times> 'v) list \<Rightarrow> ('k \<times> 'v) list" where
  "js_map_of es = foldl (\<lambda>m (k, v). AList.update k v m) [] es"

text \<open>
  \<open>xs.slice(from, to)\<close> and \<open>subarray\<close>: a negative index counts from the end, both are clamped to the length.
\<close>

definition js_index :: "nat \<Rightarrow> int \<Rightarrow> nat" where
  "js_index len i = (if i < 0 then nat (max 0 (int len + i)) else min (nat i) len)"

definition js_slice :: "int \<Rightarrow> int \<Rightarrow> 'a list \<Rightarrow> 'a list" where
  "js_slice from to xs =
     take (js_index (length xs) to - js_index (length xs) from) (drop (js_index (length xs) from) xs)"

lemma js_slice_nat [js_simps]:
  "js_slice (int a) (int b) xs = take (b - a) (drop a xs)"
  by (auto simp: js_slice_def js_index_def min_def)

lemma js_trim_Nil [simp]: "js_trim [] = []"
  by (simp add: js_trim_def)

declare is_ws_def [js_defs] js_trim_def [js_defs] starts_with_def [js_defs] ends_with_def [js_defs]
  to_lower_def [js_defs] to_upper_def [js_defs] lower_char_def [js_defs] upper_char_def [js_defs]
  digit_char_def [js_defs] truthy_strings_def [js_defs]

lemma set_foldl_js_set_add [js_simps]: "set (foldl js_set_add s xs) = set s \<union> set xs"
  by (induction xs arbitrary: s) (auto simp: js_set_add_def)

lemma distinct_foldl_js_set_add [js_simps]: "distinct s \<Longrightarrow> distinct (foldl js_set_add s xs)"
  by (induction xs arbitrary: s) (auto simp: js_set_add_def)

lemma set_js_set [simp, js_simps]: "set (js_set xs) = set xs"
  by (simp add: js_set_def js_simps)

lemma distinct_js_set [simp, js_simps]: "distinct (js_set xs)"
  by (simp add: js_set_def js_simps)

lemma js_set_distinct: "distinct xs \<Longrightarrow> js_set xs = xs"
proof -
  have "distinct (s @ xs) \<Longrightarrow> foldl js_set_add s xs = s @ xs" for s
    by (induction xs arbitrary: s) (auto simp: js_set_add_def)
  from this [of "[]"] show "distinct xs \<Longrightarrow> js_set xs = xs"
    by (simp add: js_set_def)
qed

lemma js_trim_idem [simp]: "js_trim (js_trim s) = js_trim s"
proof -
  have fix_hd: "dropWhile P xs = xs" if "xs = [] \<or> \<not> P (hd xs)" for P and xs :: string
    using that by (cases xs) auto
  have hd_ok: "dropWhile P xs = [] \<or> \<not> P (hd (dropWhile P xs))" for P and xs :: string
    by (cases "dropWhile P xs = []") (auto simp: hd_dropWhile)
  define t where "t = dropWhile is_ws s"
  define u where "u = dropWhile is_ws (rev t)"
  have "rev u = [] \<or> \<not> is_ws (hd (rev u))"
  proof (cases "u = []")
    case False
    then have "t \<noteq> []" using u_def by auto
    obtain v where v: "rev t = v @ u"
      unfolding u_def by (metis takeWhile_dropWhile_id)
    then have "t = rev u @ rev v" by (metis rev_append rev_rev_ident)
    with False have "hd t = hd (rev u)" by simp
    moreover have "\<not> is_ws (hd t)"
      using hd_dropWhile [of is_ws s] \<open>t \<noteq> []\<close> by (simp add: t_def)
    ultimately show ?thesis by simp
  qed simp
  then have 1: "dropWhile is_ws (rev u) = rev u" by (rule fix_hd)
  have "dropWhile is_ws u = u" using hd_ok [of is_ws "rev t"] by (intro fix_hd) (simp add: u_def)
  with 1 show ?thesis by (simp add: js_trim_def flip: t_def u_def)
qed

section \<open>Maps in insertion order\<close>

lemma map_of_foldl_update:
  "map_of (foldl (\<lambda>m (k, v). AList.update k v m) m es) = map_of m ++ map_of (rev es)"
  by (induction es arbitrary: m) (auto simp: update_conv' map_add_upd_left fun_eq_iff map_add_def split: option.splits)

lemma keys_foldl_update:
  "distinct (map fst m) \<Longrightarrow> distinct (map fst (foldl (\<lambda>m (k, v). AList.update k v m) m es))"
  by (induction es arbitrary: m) (auto simp: distinct_update)

text \<open>The values of a map made of items under a key each: every item has a stand-in with its key, and no key occurs twice.\<close>

lemma js_map_of_keyed:
  "set (js_map_of (map (\<lambda>x. (f x, g x)) xs)) = {(f x, g x) |x. x \<in> set xs}"
  if "\<And>x y. x \<in> set xs \<Longrightarrow> y \<in> set xs \<Longrightarrow> f x = f y \<Longrightarrow> g x = g y"
proof -
  let ?es = "map (\<lambda>x. (f x, g x)) xs"
  let ?m = "js_map_of ?es"
  have keys: "distinct (map fst ?m)" unfolding js_map_of_def by (rule keys_foldl_update) simp
  have lookup: "map_of ?m = map_of (rev ?es)" by (simp add: js_map_of_def map_of_foldl_update)
  have one: "map_of (rev ?es) k = Some v \<longleftrightarrow> (k, v) \<in> set ?es" for k v
  proof
    assume "map_of (rev ?es) k = Some v"
    then show "(k, v) \<in> set ?es" by (auto dest: map_of_SomeD)
  next
    assume kv: "(k, v) \<in> set ?es"
    then have "k \<in> fst ` set (rev ?es)" by force
    then obtain w where w: "map_of (rev ?es) k = Some w" by (cases "map_of (rev ?es) k") (auto simp: map_of_eq_None_iff)
    then have "(k, w) \<in> set ?es" by (auto dest: map_of_SomeD)
    then obtain x where x: "x \<in> set xs" "k = f x" "w = g x" by auto
    obtain y where y: "y \<in> set xs" "k = f y" "v = g y" using kv by auto
    have "w = v" using that [OF x(1) y(1)] x y by simp
    then show "map_of (rev ?es) k = Some v" using w by simp
  qed
  have "(k, v) \<in> set ?m \<longleftrightarrow> (k, v) \<in> set ?es" for k v
    using one lookup keys by (metis map_of_eq_Some_iff)
  then show ?thesis by (auto simp: image_iff)
qed

lemma js_map_of_keys: "distinct (map fst (js_map_of es))"
  unfolding js_map_of_def by (rule keys_foldl_update) simp

section \<open>Hexadecimal\<close>

lemma char_zero: "char_of (48 :: nat) = CHR ''0''"
  by code_simp

lemma to_string16_byte:
  "n < 256 \<Longrightarrow> pad_start 2 (CHR ''0'') (to_string16 n) = [hex_digit (n div 16), hex_digit (n mod 16)]"
  by (cases "n < 16")
    (auto simp: to_string16.simps [of n] to_string16.simps [of "n div 16"] pad_start_def
      hex_digit_def digit_char_def numeral_2_eq_2 char_zero)

section \<open>Splitting\<close>

lemma split_char_not_Nil [simp]: "split_char sep s \<noteq> []"
  by (induction s) (auto split: list.splits)

lemma split_char_Cons: "c \<noteq> sep \<Longrightarrow> split_char sep (c # s) = (c # hd (split_char sep s)) # tl (split_char sep s)"
  by (cases "split_char sep s") simp_all

lemma hd_tl_eq: "xs \<noteq> [] \<Longrightarrow> hd xs = y \<and> tl xs = ys \<longleftrightarrow> xs = y # ys"
  by (cases xs) auto

lemma split_char_one: "split_char sep s = [p] \<longleftrightarrow> p = s \<and> sep \<notin> set s"
proof (induction s arbitrary: p)
  case (Cons c s)
  show ?case
  proof (cases "c = sep")
    case False
    have "split_char sep (c # s) = [p] \<longleftrightarrow> (\<exists>q. p = c # q \<and> split_char sep s = [q])"
      unfolding split_char_Cons [OF False] by (cases "split_char sep s") auto
    then show ?thesis using False by (auto simp: Cons.IH)
  qed simp
qed auto

lemma split_char_two: "split_char sep s = [l, d] \<longleftrightarrow> s = l @ sep # d \<and> sep \<notin> set l \<and> sep \<notin> set d"
proof (induction s arbitrary: l)
  case (Cons c s)
  show ?case
  proof (cases "c = sep")
    case True
    then show ?thesis by (cases l) (auto simp: split_char_one)
  next
    case False
    have "split_char sep (c # s) = [l, d] \<longleftrightarrow> (\<exists>q. l = c # q \<and> split_char sep s = [q, d])"
      unfolding split_char_Cons [OF False] by (cases "split_char sep s") auto
    then show ?thesis using False by (cases l) (auto simp: Cons.IH)
  qed
qed simp

section \<open>Chunks\<close>

text \<open>
  The reference function behind every \<open>slice\<close> loop of the source: cut a list into pieces of
  \<open>n\<close> elements, the last one possibly shorter.
\<close>

function chunks :: "nat \<Rightarrow> 'a list \<Rightarrow> 'a list list" where
  "chunks n xs = (if n = 0 \<or> xs = [] then [] else take n xs # chunks n (drop n xs))"
  by pat_completeness auto
termination
  by (relation "measure (\<lambda>(n, xs). length xs)") auto

declare chunks.simps [simp del]

lemma chunks_Nil [simp]: "chunks n [] = []"
  by (simp add: chunks.simps)

lemma chunks_Cons: "0 < n \<Longrightarrow> xs \<noteq> [] \<Longrightarrow> chunks n xs = take n xs # chunks n (drop n xs)"
  by (subst chunks.simps) simp

lemma chunks_induct [consumes 1, case_names Nil step]:
  assumes "0 < n" and "P []"
    and "\<And>xs. 0 < n \<Longrightarrow> xs \<noteq> [] \<Longrightarrow> P (drop n xs) \<Longrightarrow> P xs"
  shows "P xs"
proof (induction "length xs" arbitrary: xs rule: less_induct)
  case less
  show ?case
  proof (cases "xs = []")
    case True
    with assms(2) show ?thesis by simp
  next
    case False
    with assms(1) have "P (drop n xs)" by (intro less.hyps) auto
    then show ?thesis by (rule assms(3) [OF assms(1) False])
  qed
qed

lemma concat_chunks [simp]: "0 < n \<Longrightarrow> concat (chunks n xs) = xs"
  by (induction xs rule: chunks_induct) (auto simp: chunks_Cons)

lemma chunks_sizes: "0 < n \<Longrightarrow> c \<in> set (chunks n xs) \<Longrightarrow> c \<noteq> [] \<and> length c \<le> n"
  by (induction xs rule: chunks_induct) (auto simp: chunks_Cons)

lemma chunks_full: "0 < n \<Longrightarrow> c \<in> set (butlast (chunks n xs)) \<Longrightarrow> length c = n"
proof (induction xs rule: chunks_induct)
  case (step xs)
  show ?case
  proof (cases "chunks n (drop n xs) = []")
    case True
    with step show ?thesis by (simp add: chunks_Cons)
  next
    case False
    then have "drop n xs \<noteq> []" by auto
    then have "n < length xs" by simp
    with step False show ?thesis by (auto simp: chunks_Cons)
  qed
qed simp

lemma length_chunks: "0 < n \<Longrightarrow> length (chunks n xs) = (length xs + n - 1) div n"
proof (induction xs rule: chunks_induct)
  case (step xs)
  show ?case
  proof (cases "length xs \<le> n")
    case True
    with step.hyps have eq: "length xs + n - 1 = (length xs - 1) + 1 * n" and "length xs - 1 < n"
      by (cases xs; simp)+
    then have "(length xs + n - 1) div n = 1"
      unfolding eq by (subst div_mult_self1) auto
    with True step show ?thesis by (simp add: chunks_Cons)
  next
    case False
    then have eq: "length xs + n - 1 = (length (drop n xs) + n - 1) + 1 * n" by simp
    have "(length xs + n - 1) div n = Suc ((length (drop n xs) + n - 1) div n)"
      unfolding eq using step.hyps by (subst div_mult_self1) auto
    with step show ?thesis by (simp add: chunks_Cons)
  qed
next
  case Nil
  then show ?case by (cases n) auto
qed

lemma chunks_nth: "0 < n \<Longrightarrow> i < length (chunks n xs) \<Longrightarrow> chunks n xs ! i = take n (drop (i * n) xs)"
proof (induction xs arbitrary: i rule: chunks_induct)
  case (step xs)
  then show ?case
    by (cases i) (auto simp: chunks_Cons add.commute)
qed simp

section \<open>Action machines\<close>

text \<open>
  A component with state is a partial step function: \<open>None\<close> when the action is not enabled.
  A run is a list of actions; a schedule of concurrent activities is such a list.
\<close>

primrec exec :: "('s \<Rightarrow> 'a \<Rightarrow> 's option) \<Rightarrow> 's \<Rightarrow> 'a list \<Rightarrow> 's option" where
  "exec step s [] = Some s"
| "exec step s (a # as) = (case step s a of None \<Rightarrow> None | Some s' \<Rightarrow> exec step s' as)"

lemma exec_append [js_simps]:
  "exec step s (as @ bs) = (case exec step s as of None \<Rightarrow> None | Some s' \<Rightarrow> exec step s' bs)"
  by (induction as arbitrary: s) (auto split: option.splits)

text \<open>
  The contract a machine offers: an invariant its start state has and every enabled action keeps,
  and a rank every enabled action lowers, so that every run is finite.
\<close>

locale machine =
  fixes step :: "'s \<Rightarrow> 'a \<Rightarrow> 's option" and start :: 's and inv :: "'s \<Rightarrow> bool"
  assumes inv_start: "inv start"
    and inv_step: "inv s \<Longrightarrow> step s a = Some s' \<Longrightarrow> inv s'"
begin

lemma inv_exec_from: "inv s \<Longrightarrow> exec step s as = Some s' \<Longrightarrow> inv s'"
proof (induction as arbitrary: s)
  case (Cons a as)
  then show ?case by (auto split: option.splits dest: inv_step)
qed simp

lemma inv_exec: "exec step start as = Some s' \<Longrightarrow> inv s'"
  by (rule inv_exec_from [OF inv_start])

end

locale ranked_machine = machine step start inv
  for step :: "'s \<Rightarrow> 'a \<Rightarrow> 's option" and start :: 's and inv :: "'s \<Rightarrow> bool" +
  fixes rank :: "'s \<Rightarrow> nat" and final :: "'s \<Rightarrow> bool"
  assumes rank_step: "inv s \<Longrightarrow> step s a = Some s' \<Longrightarrow> rank s' < rank s"
    and progress: "inv s \<Longrightarrow> \<not> final s \<Longrightarrow> \<exists>a s'. step s a = Some s'"
begin

lemma exec_bounded: "inv s \<Longrightarrow> exec step s as = Some s' \<Longrightarrow> length as + rank s' \<le> rank s"
proof (induction as arbitrary: s)
  case (Cons a as)
  then obtain t where t: "step s a = Some t" "exec step t as = Some s'"
    by (auto split: option.splits)
  with Cons have "length as + rank s' \<le> rank t" "rank t < rank s"
    by (auto dest: inv_step rank_step)
  then show ?case by simp
qed simp

lemma exec_final_from: "inv s \<Longrightarrow> \<exists>as s'. exec step s as = Some s' \<and> final s'"
proof (induction "rank s" arbitrary: s rule: less_induct)
  case less
  show ?case
  proof (cases "final s")
    case True
    then have "exec step s [] = Some s \<and> final s" by simp
    then show ?thesis by blast
  next
    case False
    with less.prems obtain a t where t: "step s a = Some t" using progress by blast
    with less.prems obtain as s' where "exec step t as = Some s'" "final s'"
      using less.hyps [of t] rank_step inv_step by blast
    with t have "exec step s (a # as) = Some s' \<and> final s'" by simp
    then show ?thesis by blast
  qed
qed

lemma exec_final: "\<exists>as s'. exec step start as = Some s' \<and> final s'"
  by (rule exec_final_from [OF inv_start])

end

text \<open>
  Some actions are not the user's but awaited ones: timers and answers. When each of them uses up some of the work that is
  left, a component that is left alone comes to rest.
\<close>

locale resting_machine = machine step start inv
  for step :: "'s \<Rightarrow> 'a \<Rightarrow> 's option" and start :: 's and inv :: "'s \<Rightarrow> bool" +
  fixes awaited :: "'a \<Rightarrow> bool" and work :: "'s \<Rightarrow> nat"
  assumes work_step: "inv s \<Longrightarrow> awaited a \<Longrightarrow> step s a = Some s' \<Longrightarrow> work s' < work s"
    and work_left: "inv s \<Longrightarrow> work s \<noteq> 0 \<Longrightarrow> \<exists>a s'. awaited a \<and> step s a = Some s'"
begin

lemma awaited_bounded:
  "inv s \<Longrightarrow> list_all awaited as \<Longrightarrow> exec step s as = Some s' \<Longrightarrow> length as + work s' \<le> work s"
proof (induction as arbitrary: s)
  case (Cons a as)
  then obtain t where t: "step s a = Some t" "exec step t as = Some s'"
    by (auto split: option.splits)
  with Cons have "length as + work s' \<le> work t" "work t < work s"
    by (auto dest: inv_step work_step)
  then show ?case by simp
qed simp

lemma rests:
  assumes "exec step start as = Some s" "list_all awaited waits" "exec step s waits = Some s'"
  shows "length waits + work s' \<le> work s" "\<nexists>a s''. awaited a \<and> step s' a = Some s'' \<Longrightarrow> inv s' \<and> work s' = 0"
proof -
  note inv = inv_exec [OF assms(1)] inv_exec_from [OF inv_exec [OF assms(1)] assms(3)]
  show "length waits + work s' \<le> work s" using awaited_bounded [OF inv(1) assms(2,3)] .
  show "inv s' \<and> work s' = 0" if "\<nexists>a s''. awaited a \<and> step s' a = Some s''"
    using work_left [OF inv(2)] inv(2) that by blast
qed

end

text \<open>
  An abstract specification says how the view of a component may change. A component refines it when each of its steps
  leaves the view as it is or is a step of the specification.
\<close>

locale refinement = machine step start inv
  for step :: "'s \<Rightarrow> 'a \<Rightarrow> 's option" and start :: 's and inv :: "'s \<Rightarrow> bool" +
  fixes view :: "'s \<Rightarrow> 't" and spec :: "'t \<Rightarrow> 't \<Rightarrow> bool"
  assumes simulates: "inv s \<Longrightarrow> step s a = Some s' \<Longrightarrow> view s' = view s \<or> spec (view s) (view s')"
begin

lemma refines:
  assumes "exec step start as = Some s" "step s a = Some s'"
  shows "view s' = view s \<or> spec (view s) (view s')"
  using simulates [OF inv_exec [OF assms(1)] assms(2)] .

lemma spec_reachable: "exec step start as = Some s \<Longrightarrow> spec\<^sup>*\<^sup>* (view start) (view s)"
proof (induction as arbitrary: s rule: rev_induct)
  case (snoc a as)
  then obtain t where t: "exec step start as = Some t" "step t a = Some s"
    by (auto simp: exec_append split: option.splits)
  with snoc.IH [OF t(1)] refines [OF t] show ?case by (auto intro: rtranclp.rtrancl_into_rtrancl)
qed simp

end

section \<open>Single flight\<close>

text \<open>
  The contract of a refresh that concurrent callers share: \<open>join s k\<close> hands out the number of the request in flight for
  the key \<open>k\<close>, sending a new one only when there is none; \<open>settle s k\<close> is the end of that request. \<open>sent\<close>
  lists the keys of all requests sent so far, a request's number being its position.
\<close>

datatype 'k flight_action = Join 'k | SettleFlight 'k

fun flight_run ::
  "('s \<Rightarrow> 'k \<Rightarrow> 's \<times> nat) \<Rightarrow> ('s \<Rightarrow> 'k \<Rightarrow> 's) \<Rightarrow> 's \<Rightarrow> 'k flight_action list \<Rightarrow> 's" where
  "flight_run join settle s [] = s"
| "flight_run join settle s (Join k # as) = flight_run join settle (fst (join s k)) as"
| "flight_run join settle s (SettleFlight k # as) = flight_run join settle (settle s k) as"

locale single_flight =
  fixes inflight :: "'s \<Rightarrow> 'k \<Rightarrow> nat option" and join :: "'s \<Rightarrow> 'k \<Rightarrow> 's \<times> nat"
    and settle :: "'s \<Rightarrow> 'k \<Rightarrow> 's" and sent :: "'s \<Rightarrow> 'k list"
  assumes join_shared: "inflight s k = Some r \<Longrightarrow> join s k = (s, r)"
    and join_new: "inflight s k = None \<Longrightarrow>
      snd (join s k) = length (sent s) \<and> sent (fst (join s k)) = sent s @ [k] \<and>
      inflight (fst (join s k)) = (inflight s)(k := Some (length (sent s)))"
    and settle_flight: "inflight (settle s k) = (inflight s)(k := None) \<and> sent (settle s k) = sent s"
begin

lemma sent_bound:
  "count_list (sent (flight_run join settle s as)) k \<le>
   count_list (sent s) k + (if inflight s k = None then 1 else 0) + count_list as (SettleFlight k)"
proof (induction as arbitrary: s)
  case (Cons a as)
  show ?case
  proof (cases a)
    case (Join j)
    show ?thesis
    proof (cases "inflight s j")
      case None
      from Cons.IH [of "fst (join s j)"] join_new [OF None] Join None show ?thesis
        by (cases "j = k") (auto split: if_splits)
    next
      case (Some r)
      from Cons.IH [of s] join_shared [OF Some] Join show ?thesis by simp
    qed
  next
    case (SettleFlight j)
    from Cons.IH [of "settle s j"] settle_flight [of s j] SettleFlight show ?thesis
      by (cases "j = k") (auto split: if_splits)
  qed
qed simp

lemma shared_until_settled:
  "inflight s k = Some r \<Longrightarrow> SettleFlight k \<notin> set as \<Longrightarrow> inflight (flight_run join settle s as) k = Some r"
proof (induction as arbitrary: s)
  case (Cons a as)
  show ?case
  proof (cases a)
    case (Join j)
    show ?thesis
    proof (cases "inflight s j")
      case None
      with Cons.prems have "j \<noteq> k" by auto
      with Cons join_new [OF None] Join show ?thesis by simp
    next
      case (Some r)
      with Cons join_shared [OF Some] Join show ?thesis by simp
    qed
  next
    case (SettleFlight j)
    with Cons settle_flight [of s j] show ?thesis by simp
  qed
qed simp

lemma joins_share:
  "SettleFlight k \<notin> set as \<Longrightarrow>
   snd (join (flight_run join settle (fst (join s k)) as) k) = snd (join s k) \<and>
   inflight (fst (join s k)) k = Some (snd (join s k))"
proof -
  assume as: "SettleFlight k \<notin> set as"
  have 1: "inflight (fst (join s k)) k = Some (snd (join s k))"
    using join_shared [of s k] join_new [of s k] by (cases "inflight s k") auto
  from join_shared [OF shared_until_settled [OF 1 as]] 1 show ?thesis by simp
qed

end

section \<open>The nearest of a list\<close>

text \<open>A running minimum, as \<open>reduce\<close> or a loop with a strict comparison keeps it: the first of the nearest.\<close>

definition closest_by :: "('a \<Rightarrow> 'd::linorder) \<Rightarrow> 'a \<Rightarrow> 'a list \<Rightarrow> 'a" where
  "closest_by d x xs = foldl (\<lambda>c y. if d y < d c then y else c) x xs"

lemma closest_by_minimal: "closest_by d x xs \<in> set (x # xs) \<and> (\<forall>y\<in>set (x # xs). d (closest_by d x xs) \<le> d y)"
proof (induction xs arbitrary: x)
  case (Cons y ys)
  from Cons.IH [of "if d y < d x then y else x"] show ?case
    by (auto simp: closest_by_def split: if_splits)
qed (simp add: closest_by_def)

end
