(* ===== verification/WorkerPool.thy ===== *)
theory WorkerPool
  imports Prelude
begin

text \<open>
  \<open>runWithWorkers\<close> of web/src/modules/files/lib/edit-commit.ts: \<open>min(limit, items.length)\<close>
  concurrent workers share the variables \<open>next\<close> and \<open>failure\<close> and take items in order.

  JavaScript runs one worker at a time between two awaits, so an execution is a sequence of turns.
  \<open>Turn w\<close> is worker \<open>w\<close> from its loop test to the start of a task (or its return);
  \<open>Settle w\<close> is the settling of the task worker \<open>w\<close> awaits. The scheduler picks the next
  action; \<open>task\<close> gives the outcome of the task of an index (\<open>Some e\<close>: it throws \<open>e\<close>).
  Every index is started at most once (proved below), so an outcome per index loses nothing.
\<close>

datatype worker = Looping | Running nat | Returned

datatype pool_action = Turn nat | Settle nat

text \<open>
  \<open>next\<close>, \<open>failure\<close> and the workers are the code's variables; \<open>started\<close>, \<open>settled\<close> and
  \<open>failed\<close> are the history of the run (indices in the order they were taken, completed and
  rejected), \<open>history\<close> the order in which tasks settled either way.
\<close>

record pool =
  nextIx :: nat
  failure :: "js_error option"
  workers :: "worker list"
  started :: "nat list"
  settled :: "nat list"
  failed :: "nat list"
  history :: "nat list"

definition pool_start :: "nat \<Rightarrow> nat \<Rightarrow> pool" where
  "pool_start limit n =
     \<lparr>nextIx = 0, failure = None, workers = replicate (min limit n) Looping,
      started = [], settled = [], failed = [], history = []\<rparr>"

text \<open>\<open>failure = error ?? new Error("worker failed")\<close>\<close>

definition worker_failure :: "js_error \<Rightarrow> js_error" where
  "worker_failure e = (if e = Nullish then JsError ''worker failed'' else e)"

definition pool_turn :: "nat \<Rightarrow> pool \<Rightarrow> nat \<Rightarrow> pool" where
  "pool_turn n p w =
     (if failure p \<noteq> None then p\<lparr>workers := (workers p)[w := Returned]\<rparr>
      else let index = nextIx p; p' = p\<lparr>nextIx := nextIx p + 1\<rparr>
           in if index \<ge> n then p'\<lparr>workers := (workers p)[w := Returned]\<rparr>
              else p'\<lparr>workers := (workers p)[w := Running index], started := started p @ [index]\<rparr>)"

definition pool_settle :: "(nat \<Rightarrow> js_error option) \<Rightarrow> pool \<Rightarrow> nat \<Rightarrow> nat \<Rightarrow> pool" where
  "pool_settle task p w index =
     (case task index of
        None \<Rightarrow> p\<lparr>workers := (workers p)[w := Looping], settled := settled p @ [index],
                 history := history p @ [index]\<rparr>
      | Some e \<Rightarrow> p\<lparr>workers := (workers p)[w := Returned], failure := Some (worker_failure e),
                    failed := failed p @ [index],
                    history := history p @ [index]\<rparr>)"

fun pool_step :: "nat \<Rightarrow> (nat \<Rightarrow> js_error option) \<Rightarrow> pool \<Rightarrow> pool_action \<Rightarrow> pool option" where
  "pool_step n task p (Turn w) =
     (if w < length (workers p) \<and> workers p ! w = Looping then Some (pool_turn n p w) else None)"
| "pool_step n task p (Settle w) =
     (if w < length (workers p)
      then (case workers p ! w of Running i \<Rightarrow> Some (pool_settle task p w i) | _ \<Rightarrow> None)
      else None)"

text \<open>\<open>await Promise.all(workers)\<close> passes once every worker has returned; then the recorded failure is thrown.\<close>

definition pool_done :: "pool \<Rightarrow> bool" where
  "pool_done p \<longleftrightarrow> (\<forall>w \<in> set (workers p). w = Returned)"

definition run_with_workers ::
  "nat \<Rightarrow> (nat \<Rightarrow> js_error option) \<Rightarrow> nat \<Rightarrow> pool_action list \<Rightarrow> pool option" where
  "run_with_workers n task limit schedule =
     (case exec (pool_step n task) (pool_start limit n) schedule of
        None \<Rightarrow> None
      | Some p \<Rightarrow> if pool_done p then Some p else None)"

section \<open>Invariant\<close>

fun running_ix :: "worker \<Rightarrow> nat list" where
  "running_ix (Running i) = [i]"
| "running_ix _ = []"

definition running :: "pool \<Rightarrow> nat list" where
  "running p = concat (map running_ix (workers p))"

text \<open>
  Every index below \<open>next\<close> was started once, in order, and is now completed, rejected or
  running; the recorded failure is the last rejection; without one, a worker has returned only when the
  items had run out.
\<close>

definition pool_inv :: "nat \<Rightarrow> (nat \<Rightarrow> js_error option) \<Rightarrow> nat \<Rightarrow> pool \<Rightarrow> bool" where
  "pool_inv n task k p \<longleftrightarrow>
     length (workers p) = k \<and>
     started p = [0..<min (nextIx p) n] \<and>
     mset (started p) = mset (settled p) + mset (failed p) + mset (running p) \<and>
     (\<forall>i \<in> set (settled p). task i = None) \<and>
     (\<forall>i \<in> set (failed p). task i \<noteq> None) \<and>
     failure p = (if failed p = [] then None else map_option worker_failure (task (last (failed p)))) \<and>
     (failure p = None \<longrightarrow> Returned \<in> set (workers p) \<longrightarrow> n \<le> nextIx p) \<and>
     filter (\<lambda>i. task i = None) (history p) = settled p \<and>
     filter (\<lambda>i. task i \<noteq> None) (history p) = failed p"

lemma pool_invD:
  assumes "pool_inv n task k p"
  shows "length (workers p) = k" and "started p = [0..<min (nextIx p) n]"
    and "mset (started p) = mset (settled p) + mset (failed p) + mset (running p)"
    and "i \<in> set (settled p) \<Longrightarrow> task i = None"
    and "failure p = None \<Longrightarrow> Returned \<in> set (workers p) \<Longrightarrow> n \<le> nextIx p"
    and "filter (\<lambda>i. task i = None) (history p) = settled p"
    and "filter (\<lambda>i. task i \<noteq> None) (history p) = failed p"
  using assms unfolding pool_inv_def by blast+

lemma pool_inv_failure_None:
  assumes "pool_inv n task k p"
  shows "failure p = None \<longleftrightarrow> failed p = []"
proof (cases "failed p = []")
  case False
  then have "last (failed p) \<in> set (failed p)" by simp
  with assms have "task (last (failed p)) \<noteq> None" unfolding pool_inv_def by blast
  with assms False show ?thesis by (auto simp: pool_inv_def)
qed (use assms in \<open>simp add: pool_inv_def\<close>)

lemma mset_running_update:
  assumes "w < length (workers p)"
  shows "mset (concat (map running_ix ((workers p)[w := x]))) + mset (running_ix (workers p ! w)) =
         mset (running p) + mset (running_ix x)"
proof -
  have *: "mset (concat (map running_ix ws)) = sum_list (map (\<lambda>v. mset (running_ix v)) ws)" for ws
    by (induction ws) auto
  let ?pre = "take w (workers p)" and ?post = "drop (Suc w) (workers p)"
  have "workers p = ?pre @ workers p ! w # ?post"
    using assms by (rule id_take_nth_drop)
  then have 1: "mset (running p) = mset (concat (map running_ix ?pre)) + mset (running_ix (workers p ! w)) +
      mset (concat (map running_ix ?post))"
    unfolding running_def by (metis (no_types, lifting) concat.simps(2) concat_append list.simps(9)
        map_append mset_append union_assoc)
  have 2: "(workers p)[w := x] = ?pre @ x # ?post"
    using assms by (simp add: upd_conv_take_nth_drop)
  show ?thesis unfolding 2 1 by (simp add: ac_simps)
qed

lemma mem_update: "x \<in> set (xs[w := y]) \<Longrightarrow> x = y \<or> x \<in> set xs"
  by (metis insert_iff set_update_subset_insert subsetD)

lemma pool_turn_inv:
  assumes "pool_inv n task k p" and "w < length (workers p)" and "workers p ! w = Looping"
  shows "pool_inv n task k (pool_turn n p w)"
proof -
  have eq: "mset (concat (map running_ix ((workers p)[w := x]))) = mset (running p) + mset (running_ix x)" for x
    using mset_running_update [OF assms(2), of x] assms(3) by simp
  show ?thesis
  proof (cases "failure p = None")
    case True
    with pool_inv_failure_None [OF assms(1)] have "failed p = []" by simp
    with True assms show ?thesis
      by (auto simp: pool_inv_def pool_turn_def Let_def eq running_def dest!: mem_update)
  next
    case False
    with assms show ?thesis
      by (auto simp: pool_inv_def pool_turn_def eq running_def)
  qed
qed

lemma pool_settle_inv:
  assumes "pool_inv n task k p" and "w < length (workers p)" and "workers p ! w = Running i"
  shows "pool_inv n task k (pool_settle task p w i)"
proof -
  have eq: "add_mset i (mset (concat (map running_ix ((workers p)[w := x])))) =
      mset (running p) + mset (running_ix x)" for x
    using mset_running_update [OF assms(2), of x] assms(3) by simp
  have eqs: "add_mset i (mset (concat (map running_ix ((workers p)[w := Looping])))) = mset (running p)"
    "add_mset i (mset (concat (map running_ix ((workers p)[w := Returned])))) = mset (running p)"
    using eq [of Looping] eq [of Returned] by simp_all
  show ?thesis
    using assms eqs
    by (auto simp: pool_inv_def pool_settle_def running_def worker_failure_def
             dest!: mem_update split: option.splits if_splits)
qed

lemma pool_start_inv: "pool_inv n task (min limit n) (pool_start limit n)"
proof -
  have "concat (map running_ix (replicate m Looping)) = []" for m
    by (induction m) auto
  then show ?thesis by (auto simp: pool_inv_def pool_start_def running_def)
qed

lemma pool_step_inv:
  "pool_inv n task k p \<Longrightarrow> pool_step n task p a = Some p' \<Longrightarrow> pool_inv n task k p'"
  by (cases a) (auto split: if_splits worker.splits intro: pool_turn_inv pool_settle_inv)

section \<open>Every run ends\<close>

fun worker_rank :: "worker \<Rightarrow> nat" where
  "worker_rank (Running _) = 2"
| "worker_rank Looping = 1"
| "worker_rank Returned = 0"

definition pool_rank :: "nat \<Rightarrow> pool \<Rightarrow> nat" where
  "pool_rank n p = 2 * (n - nextIx p) + sum_list (map worker_rank (workers p))"

lemma sum_rank_update:
  assumes "w < length ws"
  shows "sum_list (map worker_rank (ws[w := x])) + worker_rank (ws ! w) =
         sum_list (map worker_rank ws) + worker_rank x"
  using assms
proof (induction ws arbitrary: w)
  case (Cons v ws)
  then show ?case by (cases w) (auto simp: add.assoc)
qed simp

lemma pool_step_rank:
  assumes "pool_step n task p a = Some p'"
  shows "pool_rank n p' < pool_rank n p"
proof (cases a)
  case (Turn w)
  with assms have "w < length (workers p)" "workers p ! w = Looping" "p' = pool_turn n p w"
    by (auto split: if_splits)
  moreover from this(1,2) have "sum_list (map worker_rank ((workers p)[w := x])) + 1 =
      sum_list (map worker_rank (workers p)) + worker_rank x" for x
    using sum_rank_update [of w "workers p" x] by simp
  from this [of Returned] this [of "Running (nextIx p)"] calculation show ?thesis
    by (auto simp: pool_turn_def pool_rank_def Let_def)
next
  case (Settle w)
  with assms obtain i where "w < length (workers p)" "workers p ! w = Running i" "p' = pool_settle task p w i"
    by (auto split: if_splits worker.splits)
  moreover from this(1,2) have "sum_list (map worker_rank ((workers p)[w := x])) + 2 =
      sum_list (map worker_rank (workers p)) + worker_rank x" for x
    using sum_rank_update [of w "workers p" x] by simp
  from this [of Returned] this [of Looping] calculation show ?thesis
    by (auto simp: pool_settle_def pool_rank_def split: option.splits)
qed

lemma pool_progress:
  assumes "\<not> pool_done p"
  shows "\<exists>a p'. pool_step n task p a = Some p'"
proof -
  from assms obtain w where w: "w < length (workers p)" "workers p ! w \<noteq> Returned"
    by (auto simp: pool_done_def in_set_conv_nth)
  show ?thesis
  proof (cases "workers p ! w")
    case Looping
    with w have "pool_step n task p (Turn w) = Some (pool_turn n p w)" by simp
    then show ?thesis by blast
  next
    case (Running i)
    with w have "pool_step n task p (Settle w) = Some (pool_settle task p w i)" by simp
    then show ?thesis by blast
  qed (use w in simp)
qed

interpretation pool: ranked_machine "pool_step n task" "pool_start limit n"
    "pool_inv n task (min limit n)" "pool_rank n" pool_done
  for n task limit
  by unfold_locales (auto intro: pool_start_inv pool_step_inv pool_step_rank pool_progress)

section \<open>What a finished pool has done\<close>

lemma run_with_workersD:
  assumes "run_with_workers n task limit schedule = Some p"
  shows "pool_inv n task (min limit n) p" and "pool_done p"
  using assms by (auto simp: run_with_workers_def split: option.splits if_splits dest: pool.inv_exec)

lemma pool_done_running: "pool_done p \<Longrightarrow> running p = []"
  by (force simp: pool_done_def running_def)

lemma run_with_workers_total: "\<exists>schedule p. run_with_workers n task limit schedule = Some p"
proof -
  obtain as p where "exec (pool_step n task) (pool_start limit n) as = Some p" "pool_done p"
    using pool.exec_final by blast
  then have "run_with_workers n task limit as = Some p" by (simp add: run_with_workers_def)
  then show ?thesis by blast
qed

text \<open>Resolving: every item's task was completed, exactly once, and none was rejected.\<close>

lemma run_with_workers_success:
  assumes "run_with_workers n task limit schedule = Some p" and "failure p = None" and "0 < limit"
  shows "mset (settled p) = mset [0..<n]" and "\<forall>i < n. task i = None"
proof -
  note inv = run_with_workersD [OF assms(1)]
  have "failed p = []"
    using pool_inv_failure_None [OF inv(1)] assms(2) by simp
  moreover have "min (nextIx p) n = n"
  proof (cases "n = 0")
    case False
    with assms(3) inv(1) have "workers p \<noteq> []" by (auto simp: pool_inv_def)
    with inv(2) have "Returned \<in> set (workers p)" by (cases "workers p") (auto simp: pool_done_def)
    with inv(1) assms(2) show ?thesis by (simp add: pool_inv_def)
  qed simp
  ultimately show 1: "mset (settled p) = mset [0..<n]"
    using pool_invD(2,3) [OF inv(1)] pool_done_running [OF inv(2)] by simp
  have "set (settled p) = {0..<n}" using mset_eq_setD [OF 1] by simp
  with inv(1) show "\<forall>i < n. task i = None" by (auto simp: pool_inv_def)
qed

text \<open>Rejecting: the thrown value is the outcome of a task that was started.\<close>

lemma run_with_workers_failure:
  assumes "run_with_workers n task limit schedule = Some p" and "failure p = Some e"
  shows "\<exists>i < n. \<exists>e'. task i = Some e' \<and> e = worker_failure e' \<and> i = last (failed p)"
proof -
  note inv = run_with_workersD(1) [OF assms(1)]
  with assms(2) have ne: "failed p \<noteq> []" by (auto simp: pool_inv_def)
  with inv assms(2) obtain e' where e': "task (last (failed p)) = Some e'" "e = worker_failure e'"
    unfolding pool_inv_def by (cases "task (last (failed p))") auto
  have "set (started p) = set (settled p @ failed p @ running p)"
    using pool_invD(3) [OF inv] by (intro mset_eq_setD) simp
  with ne last_in_set [OF ne] have "last (failed p) \<in> set (started p)" by auto
  with inv have "last (failed p) < n" by (auto simp: pool_inv_def)
  with e' show ?thesis by blast
qed

lemma history_settled:
  assumes "run_with_workers n task limit schedule = Some p"
  shows "set (settled p) \<subseteq> set (history p)"
  using pool_invD(6) [OF run_with_workersD(1) [OF assms]] by (metis filter_is_subset)

lemma history_bound:
  assumes "run_with_workers n task limit schedule = Some p" and "k \<in> set (history p)"
  shows "k < n"
proof -
  note inv = run_with_workersD(1) [OF assms(1)]
  have "k \<in> set (filter (\<lambda>i. task i = None) (history p)) \<union> set (filter (\<lambda>i. task i \<noteq> None) (history p))"
    using assms(2) by auto
  then have "k \<in> set (settled p) \<union> set (failed p)"
    by (simp only: pool_invD(6,7) [OF inv])
  moreover have "set (started p) = set (settled p @ failed p @ running p)"
    using pool_invD(3) [OF inv] by (intro mset_eq_setD) simp
  ultimately have "k \<in> set (started p)" by auto
  then show ?thesis using pool_invD(2) [OF inv] by simp
qed

section \<open>Properties\<close>

lemma length_running_le: "length (running p) \<le> length (workers p)"
proof -
  have "length (concat (map running_ix ws)) \<le> length ws" for ws
  proof (induction ws)
    case (Cons w ws)
    then show ?case by (cases w) auto
  qed simp
  then show ?thesis by (simp add: running_def)
qed

lemma pool_step_after_failure:
  assumes "pool_step n task p a = Some p'" and "failure p \<noteq> None"
  shows "started p' = started p \<and> failure p' \<noteq> None"
  using assms
  by (cases a) (auto simp: pool_turn_def pool_settle_def split: if_splits worker.splits option.splits)

text \<open>
  C9: In every state a run of the pool can reach, at most \<open>limit\<close> tasks are in flight, and the
  tasks started so far are those of the indices 0, 1, 2, ... in order, each started once.
\<close>
theorem pool_bounded_concurrency:
  assumes "exec (pool_step n task) (pool_start limit n) schedule = Some p"
  shows "length (running p) \<le> limit \<and> started p = [0..<min (nextIx p) n]"
proof -
  have inv: "pool_inv n task (min limit n) p" using assms by (rule pool.inv_exec)
  with length_running_le [of p] show ?thesis by (simp add: pool_invD)
qed

theorem pool_bounded_concurrency_witness:
  "\<exists>p. exec (pool_step 3 (\<lambda>_. None)) (pool_start 2 3) [Turn 1, Turn 0] = Some p \<and>
     workers p = [Running 1, Running 0] \<and>
     length (running p) \<le> 2 \<and> started p = [0..<min (nextIx p) 3]"
proof -
  define p where "p = the (exec (pool_step 3 (\<lambda>_. None)) (pool_start 2 3) [Turn 1, Turn 0])"
  have run: "exec (pool_step 3 (\<lambda>_. None)) (pool_start 2 3) [Turn 1, Turn 0] = Some p"
    and ws: "workers p = [Running 1, Running 0]"
    by (simp_all add: p_def pool_start_def pool_turn_def Let_def numeral_2_eq_2 numeral_3_eq_3)
  show ?thesis using run ws pool_bounded_concurrency [OF run] by blast
qed

text \<open>
  C8: When the promise of \<open>runWithWorkers\<close> resolves (with at least one worker allowed), the task
  of every item has been completed exactly once and none was rejected.
\<close>
theorem pool_resolves_complete:
  assumes "run_with_workers n task limit schedule = Some p" and "failure p = None" and "0 < limit"
  shows "mset (settled p) = mset [0..<n] \<and> (\<forall>i < n. task i = None)"
  using run_with_workers_success [OF assms] by blast

theorem pool_resolves_complete_witness:
  "\<exists>p. run_with_workers 2 (\<lambda>_. None) 4 [Turn 1, Turn 0, Settle 0, Settle 1, Turn 1, Turn 0] = Some p \<and>
     settled p = [1, 0] \<and> mset (settled p) = mset [0..<2]"
proof -
  define p where "p = the (run_with_workers 2 (\<lambda>_. None) 4 [Turn 1, Turn 0, Settle 0, Settle 1, Turn 1, Turn 0])"
  have run: "run_with_workers 2 (\<lambda>_. None) 4 [Turn 1, Turn 0, Settle 0, Settle 1, Turn 1, Turn 0] = Some p"
    and ok: "failure p = None" "settled p = [1, 0]"
    by (simp_all add: p_def run_with_workers_def pool_start_def pool_turn_def pool_settle_def
        pool_done_def Let_def numeral_2_eq_2)
  show ?thesis using run ok pool_resolves_complete [OF run ok(1)] by auto
qed

text \<open>
  C11: Every run of the pool ends: no schedule is longer than two turns per item and one per worker,
  and for every outcome of the tasks some schedule brings all workers to their return.
\<close>
theorem pool_terminates:
  "(\<forall>schedule p. exec (pool_step n task) (pool_start limit n) schedule = Some p \<longrightarrow>
      length schedule \<le> 2 * n + min limit n) \<and>
   (\<exists>schedule p. run_with_workers n task limit schedule = Some p)"
proof -
  have "pool_rank n (pool_start limit n) = 2 * n + min limit n"
    by (simp add: pool_rank_def pool_start_def sum_list_replicate)
  with pool.exec_bounded [OF pool_start_inv] run_with_workers_total show ?thesis by fastforce
qed

theorem pool_terminates_witness:
  "length [Turn 0, Settle 0, Turn 0 :: pool_action] \<le> 2 * 1 + min 4 1"
proof -
  have "exec (pool_step 1 (\<lambda>_. None)) (pool_start 4 1) [Turn 0, Settle 0, Turn 0] \<noteq> None"
    by (simp add: pool_start_def pool_turn_def pool_settle_def Let_def)
  then obtain p where "exec (pool_step 1 (\<lambda>_. None)) (pool_start 4 1) [Turn 0, Settle 0, Turn 0] = Some p"
    by blast
  then show ?thesis using pool_terminates [of 1 "\<lambda>_. None" 4] by blast
qed

text \<open>
  C10: Once a failure is recorded no further task is started, whatever the scheduler does; tasks
  already in flight are left to settle.
\<close>
theorem pool_stops_after_failure:
  assumes "exec (pool_step n task) p schedule = Some p'" and "failure p \<noteq> None"
  shows "started p' = started p \<and> failure p' \<noteq> None"
  using assms
proof (induction schedule arbitrary: p)
  case (Cons a as)
  then show ?case by (fastforce split: option.splits dest: pool_step_after_failure)
qed simp

theorem pool_stops_after_failure_witness:
  "\<exists>p p'. failure p \<noteq> None \<and> started p = [0] \<and>
     exec (pool_step 3 (\<lambda>_. Some NonError)) p [Turn 1] = Some p' \<and> started p' = [0]"
proof -
  define p where "p = the (exec (pool_step 3 (\<lambda>_. Some NonError)) (pool_start 2 3) [Turn 0, Settle 0])"
  define p' where "p' = the (exec (pool_step 3 (\<lambda>_. Some NonError)) p [Turn 1])"
  have p: "failure p \<noteq> None" "started p = [0]"
    and run: "exec (pool_step 3 (\<lambda>_. Some NonError)) p [Turn 1] = Some p'"
    by (simp_all add: p_def p'_def pool_start_def pool_turn_def pool_settle_def Let_def
        numeral_2_eq_2 numeral_3_eq_3)
  show ?thesis using p run pool_stops_after_failure [OF run p(1)] by metis
qed

text \<open>
  The rejection of \<open>runWithWorkers\<close> is the outcome of the task that failed last, not first: with two
  tasks in flight that both fail, the second failure replaces the first one.
\<close>
theorem pool_rejects_with_last_failure:
  "\<exists>p. run_with_workers 2 (\<lambda>i. Some (JsError (if i = 0 then ''first'' else ''second''))) 4
        [Turn 0, Turn 1, Settle 0, Settle 1] = Some p \<and>
      failed p = [0, 1] \<and> failure p = Some (JsError ''second'')"
  by (simp add: run_with_workers_def pool_start_def pool_turn_def pool_settle_def pool_done_def
      worker_failure_def Let_def numeral_2_eq_2)

end
