(* ===== verification/EditCommit.thy ===== *)
theory EditCommit
  imports WorkerPool
begin

text \<open>
  The save path of an in-browser edit, web/src/modules/files/lib/edit-commit.ts: split the edited
  bytes into blocks, hash every block, ask the file which blocks it already holds, upload the rest
  and commit the new version.

  The RPC clients, the digest, the abort signal and \<open>Math.random\<close> are fields of a \<open>save_env\<close>; the
  order in which concurrent hashes and uploads settle is a schedule of the worker pool. The value
  of the model is the list of observable effects of the call (progress reports, requests, pauses)
  and its outcome: a thrown error or a result.
\<close>

section \<open>Types\<close>

type_synonym byte = "8 word"

datatype edit_save_phase = Hashing | Uploading | Committing

text \<open>The phases in the order of the save: progress reports compare them.\<close>

instantiation edit_save_phase :: linorder
begin

definition phase_rank :: "edit_save_phase \<Rightarrow> nat" where
  "phase_rank p = (case p of Hashing \<Rightarrow> 0 | Uploading \<Rightarrow> 1 | Committing \<Rightarrow> 2)"

definition less_eq_edit_save_phase :: "edit_save_phase \<Rightarrow> edit_save_phase \<Rightarrow> bool" where
  "p \<le> q \<longleftrightarrow> phase_rank p \<le> phase_rank q"

definition less_edit_save_phase :: "edit_save_phase \<Rightarrow> edit_save_phase \<Rightarrow> bool" where
  "p < q \<longleftrightarrow> phase_rank p < phase_rank q"

instance
  by standard
    (auto simp: less_eq_edit_save_phase_def less_edit_save_phase_def phase_rank_def
      split: edit_save_phase.splits)

end

record edit_save_progress =
  phase :: edit_save_phase
  completed :: nat
  total :: nat
  progressUploaded :: nat
  bytesToUpload :: nat

record save_edited_file_input =
  fileId :: string
  baseVersion :: int
  blockSize :: int
  filename :: string
  editor :: string
  bytes :: "byte list"

datatype save_edited_file_result =
    SaveCommitted (sr_version: int) (sr_contentHash: string) (sr_blocksReused: int)
      (sr_blocksTotal: nat) (sr_bytesUploaded: nat)
  | SaveConflict (sr_headVersion: int) (sr_headContentHash: string)

text \<open>The messages of the three calls, with the fields the save fills in or reads.\<close>

record prepare_commit_request =
  pc_fileId :: string
  pc_baseVersion :: int
  pc_sizeBytes :: nat
  pc_blockSize :: int
  pc_blockHashes :: "string list"

record write_edit_block_request =
  we_fileId :: string
  we_index :: nat
  we_sha256 :: string
  we_data :: "byte list"

record commit_edit_request =
  cm_fileId :: string
  cm_baseVersion :: int
  cm_commitId :: string
  cm_sizeBytes :: nat
  cm_blockSize :: int
  cm_blockHashes :: "string list"
  cm_blockSizes :: "nat list"
  cm_editor :: string
  cm_filename :: string

record commit_verdict =
  vd_conflict :: bool
  vd_committed :: bool
  vd_version :: int
  vd_contentHash :: string
  vd_blocksReused :: int
  vd_headVersion :: int
  vd_headContentHash :: string

text \<open>The places where the abort signal is looked at (index of the block, attempt).\<close>

datatype abort_point =
    AfterSplit | InHashTask nat | AfterHash | BeforeAttempt nat nat | DuringSleep nat nat | BeforeCommit

record save_env =
  digest :: "byte list \<Rightarrow> byte list"
  aborted :: "abort_point \<Rightarrow> bool"
  prepareCommit :: "prepare_commit_request \<Rightarrow> js_error + string list"
  writeEditBlock :: "write_edit_block_request \<Rightarrow> nat \<Rightarrow> js_error option"
  commitEdit :: "commit_edit_request \<Rightarrow> js_error + commit_verdict"
  randomUUID :: string
  jitter :: "nat \<Rightarrow> nat \<Rightarrow> rat"
  connectFrom :: connect_from

datatype save_event =
    Progress edit_save_progress
  | PrepareCommit prepare_commit_request
  | WriteEditBlock write_edit_block_request
  | Sleep rat
  | CommitEdit commit_edit_request

section \<open>Splitting\<close>

text \<open>The \<open>for\<close> loop over offsets; \<open>None\<close> is a loop that never ends.\<close>

partial_function (option) split_blocks_loop ::
  "'a list \<Rightarrow> int \<Rightarrow> int \<Rightarrow> 'a list list \<Rightarrow> 'a list list option" where
  "split_blocks_loop bs sz offset blocks =
     (if offset < int (length bs)
      then split_blocks_loop bs sz (offset + sz)
             (blocks @ [js_slice offset (min (offset + sz) (int (length bs))) bs])
      else Some blocks)"

declare split_blocks_loop.simps [code]

definition split_blocks :: "'a list \<Rightarrow> int \<Rightarrow> 'a list list option" where
  "split_blocks bs sz = split_blocks_loop bs sz 0 []"

section \<open>Hashing\<close>

definition to_hex :: "byte list \<Rightarrow> string" where
  "to_hex bs = foldl (\<lambda>hex b. hex @ pad_start 2 (CHR ''0'') (to_string16 (unat b))) [] bs"

definition parallel_workers :: nat where "parallel_workers = 4"
definition upload_attempts :: nat where "upload_attempts = 3"
definition retry_base_delay_ms :: nat where "retry_base_delay_ms = 250"

text \<open>
  \<open>hashes[index] = toHex(digest)\<close> for each completed task; a slot no task filled stays empty.
  The first component is the sequence of values \<open>onProgress\<close> is called with.
\<close>

definition hash_blocks ::
  "save_env \<Rightarrow> byte list list \<Rightarrow> pool_action list \<Rightarrow> (nat list \<times> (js_error + string list)) option" where
  "hash_blocks env blocks schedule =
     (let n = length blocks;
          task = (\<lambda>i. if aborted env (InHashTask i) then Some EditSaveAbortedError else None)
      in case run_with_workers n task parallel_workers schedule of
           None \<Rightarrow> None
         | Some p \<Rightarrow>
             Some (map Suc [0..<length (settled p)],
                   case failure p of
                     Some e \<Rightarrow> Inl e
                   | None \<Rightarrow> Inr (foldl (\<lambda>h i. h[i := to_hex (digest env (blocks ! i))])
                                      (replicate n []) (settled p))))"

section \<open>Uploading one block\<close>

definition is_retryable :: "connect_from \<Rightarrow> js_error \<Rightarrow> bool" where
  "is_retryable from error =
     (if error = EditSaveAbortedError then False
      else ce_code (from error) \<in> {Unavailable, Internal, DeadlineExceeded, ResourceExhausted, Unknown})"

definition retry_delay :: "nat \<Rightarrow> rat \<Rightarrow> rat" where
  "retry_delay attempt random = of_nat (retry_base_delay_ms * 2 ^ attempt) * (1 / 2 + random)"

function upload_block_with_retry ::
  "save_env \<Rightarrow> write_edit_block_request \<Rightarrow> nat \<Rightarrow> save_event list \<times> js_error option" where
  "upload_block_with_retry env req attempt =
     (if aborted env (BeforeAttempt (we_index req) attempt) then ([], Some EditSaveAbortedError)
      else case writeEditBlock env req attempt of
        None \<Rightarrow> ([WriteEditBlock req], None)
      | Some error \<Rightarrow>
          if attempt + 1 \<ge> upload_attempts \<or> \<not> is_retryable (connectFrom env) error
          then ([WriteEditBlock req], Some error)
          else let delay = Sleep (retry_delay attempt (jitter env (we_index req) attempt))
               in if aborted env (DuringSleep (we_index req) attempt)
                  then ([WriteEditBlock req, delay], Some EditSaveAbortedError)
                  else let (evs, r) = upload_block_with_retry env req (attempt + 1)
                       in (WriteEditBlock req # delay # evs, r))"
  by pat_completeness auto
termination
  by (relation "measure (\<lambda>(env, req, attempt). upload_attempts - attempt)") auto

declare upload_block_with_retry.simps [simp del]

section \<open>The save\<close>

text \<open>An async computation with effects: a log, and a thrown error or a value; \<open>None\<close> when the schedule
  given does not finish it.\<close>

type_synonym 'a saving = "(save_event list \<times> (js_error + 'a)) option"

definition bind_saving :: "'a saving \<Rightarrow> ('a \<Rightarrow> 'b saving) \<Rightarrow> 'b saving" where
  "bind_saving m f =
     (case m of
        None \<Rightarrow> None
      | Some (evs, Inl e) \<Rightarrow> Some (evs, Inl e)
      | Some (evs, Inr x) \<Rightarrow>
          (case f x of None \<Rightarrow> None | Some (evs', r) \<Rightarrow> Some (evs @ evs', r)))"

definition throw_if_aborted :: "save_env \<Rightarrow> abort_point \<Rightarrow> unit saving" where
  "throw_if_aborted env pt = Some ([], if aborted env pt then Inl EditSaveAbortedError else Inr ())"

definition emit :: "save_event list \<Rightarrow> (js_error + 'a) \<Rightarrow> 'a saving" where
  "emit evs r = Some (evs, r)"

definition hashing_progress :: "nat \<Rightarrow> nat \<Rightarrow> save_event" where
  "hashing_progress n done =
     Progress \<lparr>phase = Hashing, completed = done, total = n, progressUploaded = 0, bytesToUpload = 0\<rparr>"

definition hash_stage :: "save_env \<Rightarrow> byte list list \<Rightarrow> pool_action list \<Rightarrow> string list saving" where
  "hash_stage env blocks schedule =
     (case hash_blocks env blocks schedule of
        None \<Rightarrow> None
      | Some (done, r) \<Rightarrow>
          Some (hashing_progress (length blocks) 0 # map (hashing_progress (length blocks)) done, r))"

text \<open>\<open>missing\<close>: the indices whose hash the file does not hold yet, in order.\<close>

definition missing_blocks :: "string list \<Rightarrow> string list \<Rightarrow> nat list" where
  "missing_blocks hashes known = filter (\<lambda>index. hashes ! index \<notin> set known) [0..<length hashes]"

definition write_request ::
  "save_edited_file_input \<Rightarrow> byte list list \<Rightarrow> string list \<Rightarrow> nat \<Rightarrow> write_edit_block_request" where
  "write_request inp blocks hashes index =
     \<lparr>we_fileId = fileId inp, we_index = index, we_sha256 = hashes ! index, we_data = blocks ! index\<rparr>"

text \<open>
  The effects of the upload tasks in the order they settled: the requests and pauses of a task, then
  the progress report its completion makes with the counters \<open>uploaded\<close> and \<open>bytesUploaded\<close>.
\<close>

fun upload_log ::
  "(nat \<Rightarrow> save_event list \<times> js_error option) \<Rightarrow> (nat \<Rightarrow> nat) \<Rightarrow> nat \<Rightarrow> nat \<Rightarrow>
   nat list \<Rightarrow> nat \<Rightarrow> nat \<Rightarrow> save_event list" where
  "upload_log task sz n toUpload [] uploaded bytesUp = []"
| "upload_log task sz n toUpload (k # ks) uploaded bytesUp =
     (case task k of
        (evs, Some e) \<Rightarrow> evs @ upload_log task sz n toUpload ks uploaded bytesUp
      | (evs, None) \<Rightarrow>
          evs @ Progress \<lparr>phase = Uploading, completed = uploaded + 1, total = n,
                         progressUploaded = bytesUp + sz k, bytesToUpload = toUpload\<rparr>
          # upload_log task sz n toUpload ks (uploaded + 1) (bytesUp + sz k))"

definition upload_stage ::
  "save_env \<Rightarrow> save_edited_file_input \<Rightarrow> byte list list \<Rightarrow> string list \<Rightarrow> nat list \<Rightarrow>
   pool_action list \<Rightarrow> nat saving" where
  "upload_stage env inp blocks hashes missing schedule =
     (let n = length missing;
          toUpload = sum_list (map (\<lambda>index. length (blocks ! index)) missing);
          task = (\<lambda>k. upload_block_with_retry env (write_request inp blocks hashes (missing ! k)) 0);
          sz = (\<lambda>k. length (blocks ! (missing ! k)));
          first = Progress \<lparr>phase = Uploading, completed = 0, total = n,
                            progressUploaded = 0, bytesToUpload = toUpload\<rparr>
      in case run_with_workers n (\<lambda>k. snd (task k)) parallel_workers schedule of
           None \<Rightarrow> None
         | Some p \<Rightarrow>
             Some (first # upload_log task sz n toUpload (history p) 0 0,
                   case failure p of
                     Some e \<Rightarrow> Inl e
                   | None \<Rightarrow> Inr (sum_list (map sz (settled p)))))"

definition commit_stage ::
  "save_env \<Rightarrow> save_edited_file_input \<Rightarrow> byte list list \<Rightarrow> string list \<Rightarrow> nat list \<Rightarrow> nat \<Rightarrow>
   save_edited_file_result saving" where
  "commit_stage env inp blocks hashes missing bytesUploaded =
     (let n = length missing;
          toUpload = sum_list (map (\<lambda>index. length (blocks ! index)) missing);
          req = \<lparr>cm_fileId = fileId inp, cm_baseVersion = baseVersion inp, cm_commitId = randomUUID env,
                 cm_sizeBytes = length (bytes inp), cm_blockSize = blockSize inp,
                 cm_blockHashes = hashes, cm_blockSizes = map length blocks,
                 cm_editor = editor inp, cm_filename = filename inp\<rparr>
      in emit [Progress \<lparr>phase = Committing, completed = n, total = n,
                        progressUploaded = bytesUploaded, bytesToUpload = toUpload\<rparr>,
               CommitEdit req]
           (case commitEdit env req of
              Inl e \<Rightarrow> Inl e
            | Inr verdict \<Rightarrow>
                Inr (if vd_conflict verdict \<or> \<not> vd_committed verdict
                     then SaveConflict (vd_headVersion verdict) (vd_headContentHash verdict)
                     else SaveCommitted (vd_version verdict) (vd_contentHash verdict)
                            (vd_blocksReused verdict) (length blocks) bytesUploaded)))"

definition save_edited_file ::
  "save_env \<Rightarrow> pool_action list \<Rightarrow> pool_action list \<Rightarrow> save_edited_file_input \<Rightarrow>
   save_edited_file_result saving" where
  "save_edited_file env hashSchedule uploadSchedule inp =
     (if blockSize inp \<le> 0 then emit [] (Inl (JsError ''The file has no block size to split at.''))
      else if length (bytes inp) = 0 then emit [] (Inl (JsError ''There is nothing to save.''))
      else case split_blocks (bytes inp) (blockSize inp) of
        None \<Rightarrow> None
      | Some blocks \<Rightarrow>
          bind_saving (throw_if_aborted env AfterSplit) (\<lambda>_.
          bind_saving (hash_stage env blocks hashSchedule) (\<lambda>hashes.
          bind_saving (throw_if_aborted env AfterHash) (\<lambda>_.
          let req = \<lparr>pc_fileId = fileId inp, pc_baseVersion = baseVersion inp,
                     pc_sizeBytes = length (bytes inp), pc_blockSize = blockSize inp,
                     pc_blockHashes = hashes\<rparr>
          in bind_saving (emit [PrepareCommit req] (prepareCommit env req)) (\<lambda>known.
          let missing = missing_blocks hashes known
          in bind_saving (upload_stage env inp blocks hashes missing uploadSchedule) (\<lambda>bytesUploaded.
          bind_saving (throw_if_aborted env BeforeCommit) (\<lambda>_.
          commit_stage env inp blocks hashes missing bytesUploaded)))))))"

section \<open>Splitting and hashing: lemmas\<close>

lemma split_blocks_loop_chunks:
  assumes "0 < n"
  shows "split_blocks_loop bs (int n) (int k) blocks = Some (blocks @ chunks n (drop k bs))"
proof (induction "length bs - k" arbitrary: k blocks rule: less_induct)
  case less
  show ?case
  proof (cases "k < length bs")
    case True
    let ?b = "js_slice (int k) (min (int k + int n) (int (length bs))) bs"
    have "min (int k + int n) (int (length bs)) = int (min (k + n) (length bs))"
      by (metis of_nat_add of_nat_min)
    then have b: "?b = take n (drop k bs)"
      by (simp only: js_slice_nat) (auto simp: min_def)
    have "split_blocks_loop bs (int n) (int k) blocks = split_blocks_loop bs (int n) (int (k + n)) (blocks @ [?b])"
      using True by (subst split_blocks_loop.simps) simp
    also have "\<dots> = Some ((blocks @ [?b]) @ chunks n (drop (k + n) bs))"
      using True assms by (intro less.hyps) simp
    finally show ?thesis using True assms b by (simp add: chunks_Cons add.commute)
  next
    case False
    then show ?thesis by (subst split_blocks_loop.simps) simp
  qed
qed

lemma split_blocks_chunks: "0 < sz \<Longrightarrow> split_blocks bs sz = Some (chunks (nat sz) bs)"
  using split_blocks_loop_chunks [of "nat sz" bs 0 "[]"] by (simp add: split_blocks_def)

lemma split_blocks_loop_diverges:
  assumes "split_blocks_loop bs sz offset blocks = Some r"
  shows "sz \<le> 0 \<longrightarrow> \<not> offset < int (length bs)"
proof (rule split_blocks_loop.raw_induct
    [where P = "\<lambda>bs sz offset blocks r. sz \<le> 0 \<longrightarrow> \<not> offset < int (length bs)", OF _ assms])
  fix f :: "'a list \<Rightarrow> int \<Rightarrow> int \<Rightarrow> 'a list list \<Rightarrow> 'a list list option"
  fix bs sz offset blocks r
  assume "\<And>bs sz offset blocks r. f bs sz offset blocks = Some r \<Longrightarrow> sz \<le> 0 \<longrightarrow> \<not> offset < int (length bs)"
    and "(if offset < int (length bs)
          then f bs sz (offset + sz) (blocks @ [js_slice offset (min (offset + sz) (int (length bs))) bs])
          else Some blocks) = Some r"
  then show "sz \<le> 0 \<longrightarrow> \<not> offset < int (length bs)"
    by (fastforce split: if_splits)
qed

lemma split_blocks_diverges: "sz \<le> 0 \<Longrightarrow> bs \<noteq> [] \<Longrightarrow> split_blocks bs sz = None"
  using split_blocks_loop_diverges [of bs sz 0 "[]"]
  by (cases "split_blocks_loop bs sz 0 []") (auto simp: split_blocks_def)

lemma unat_byte: "unat (b :: byte) < 256"
proof -
  have "unat b < 2 ^ LENGTH(8)" by (rule unsigned_less)
  then show ?thesis by simp
qed

lemma hex_digit_inj: "a < 16 \<Longrightarrow> b < 16 \<Longrightarrow> hex_digit a = hex_digit b \<longleftrightarrow> a = b"
proof -
  have "inj_on hex_digit {0..<16}"
    by (simp add: hex_digit_def digit_char_def inj_on_def atLeastLessThan_nat_numeral)
  then show "a < 16 \<Longrightarrow> b < 16 \<Longrightarrow> hex_digit a = hex_digit b \<longleftrightarrow> a = b"
    by (auto simp: inj_on_def)
qed

lemma to_hex_concat: "to_hex bs = concat (map (\<lambda>b. [hex_digit (unat b div 16), hex_digit (unat b mod 16)]) bs)"
proof -
  have "foldl (\<lambda>hex b. hex @ pad_start 2 (CHR ''0'') (to_string16 (unat b))) acc bs =
      acc @ concat (map (\<lambda>b. [hex_digit (unat b div 16), hex_digit (unat b mod 16)]) bs)" for acc
  proof (induction bs arbitrary: acc)
    case (Cons b bs)
    from Cons unat_byte [of b] show ?case by (simp add: to_string16_byte)
  qed simp
  from this [of "[]"] show ?thesis by (simp add: to_hex_def)
qed

lemma to_hex_eq_iff: "to_hex xs = to_hex ys \<longleftrightarrow> xs = ys"
proof (induction xs arbitrary: ys)
  case Nil
  then show ?case by (cases ys) (auto simp: to_hex_concat)
next
  case (Cons x xs)
  show ?case
  proof (cases ys)
    case Nil
    then show ?thesis by (simp add: to_hex_concat)
  next
    case (Cons y ys')
    have "unat x < 256" "unat y < 256" by (rule unat_byte)+
    then have "hex_digit (unat x div 16) = hex_digit (unat y div 16) \<longleftrightarrow> unat x div 16 = unat y div 16"
      and "hex_digit (unat x mod 16) = hex_digit (unat y mod 16) \<longleftrightarrow> unat x mod 16 = unat y mod 16"
      by (auto intro!: hex_digit_inj)
    moreover have "unat x div 16 = unat y div 16 \<and> unat x mod 16 = unat y mod 16 \<longleftrightarrow> x = y"
      by (metis div_mult_mod_eq word_unat_eq_iff)
    moreover have "to_hex xs = to_hex ys' \<longleftrightarrow> xs = ys'" by (rule Cons.IH)
    ultimately show ?thesis unfolding Cons by (auto simp: to_hex_concat)
  qed
qed

lemma nth_foldl_update:
  "i < length h \<Longrightarrow> foldl (\<lambda>h j. h[j := f j]) h js ! i = (if i \<in> set js then f i else h ! i)"
  by (induction js arbitrary: h) (auto simp: nth_list_update)

lemma length_foldl_update: "length (foldl (\<lambda>h j. h[j := f j]) h js) = length h"
  by (induction js arbitrary: h) auto

section \<open>The stages: lemmas\<close>

text \<open>The requests in a list of effects.\<close>

definition writes :: "save_event list \<Rightarrow> write_edit_block_request list" where
  "writes evl = concat (map (\<lambda>ev. case ev of WriteEditBlock q \<Rightarrow> [q] | _ \<Rightarrow> []) evl)"

definition progresses :: "save_event list \<Rightarrow> edit_save_progress list" where
  "progresses evl = concat (map (\<lambda>ev. case ev of Progress p \<Rightarrow> [p] | _ \<Rightarrow> []) evl)"

definition commits :: "save_event list \<Rightarrow> commit_edit_request list" where
  "commits evl = concat (map (\<lambda>ev. case ev of CommitEdit q \<Rightarrow> [q] | _ \<Rightarrow> []) evl)"

lemma writes_simps [simp]:
  "writes [] = []" "writes (xs @ ys) = writes xs @ writes ys"
  "writes (Progress p # xs) = writes xs" "writes (PrepareCommit pc # xs) = writes xs"
  "writes (Sleep ms # xs) = writes xs" "writes (CommitEdit cm # xs) = writes xs"
  "writes (WriteEditBlock q # xs) = q # writes xs"
  by (simp_all add: writes_def)

lemma progresses_simps [simp]:
  "progresses [] = []" "progresses (xs @ ys) = progresses xs @ progresses ys"
  "progresses (Progress p # xs) = p # progresses xs" "progresses (PrepareCommit pc # xs) = progresses xs"
  "progresses (Sleep ms # xs) = progresses xs" "progresses (CommitEdit cm # xs) = progresses xs"
  "progresses (WriteEditBlock q # xs) = progresses xs"
  by (simp_all add: progresses_def)

lemma commits_simps [simp]:
  "commits [] = []" "commits (xs @ ys) = commits xs @ commits ys"
  "commits (Progress p # xs) = commits xs" "commits (PrepareCommit pc # xs) = commits xs"
  "commits (Sleep ms # xs) = commits xs" "commits (CommitEdit cm # xs) = cm # commits xs"
  "commits (WriteEditBlock q # xs) = commits xs"
  by (simp_all add: commits_def)

lemma upload_block_cases:
  obtains (aborted) "aborted env (BeforeAttempt (we_index req) attempt)"
      "upload_block_with_retry env req attempt = ([], Some EditSaveAbortedError)"
  | (written) "\<not> aborted env (BeforeAttempt (we_index req) attempt)" "writeEditBlock env req attempt = None"
      "upload_block_with_retry env req attempt = ([WriteEditBlock req], None)"
  | (failed) e where "\<not> aborted env (BeforeAttempt (we_index req) attempt)"
      "writeEditBlock env req attempt = Some e"
      "attempt + 1 \<ge> upload_attempts \<or> \<not> is_retryable (connectFrom env) e"
      "upload_block_with_retry env req attempt = ([WriteEditBlock req], Some e)"
  | (cancelled) e ms where "writeEditBlock env req attempt = Some e" "is_retryable (connectFrom env) e"
      "aborted env (DuringSleep (we_index req) attempt)"
      "upload_block_with_retry env req attempt = ([WriteEditBlock req, Sleep ms], Some EditSaveAbortedError)"
  | (again) e ms where "\<not> aborted env (BeforeAttempt (we_index req) attempt)"
      "writeEditBlock env req attempt = Some e" "is_retryable (connectFrom env) e"
      "attempt + 1 < upload_attempts" "\<not> aborted env (DuringSleep (we_index req) attempt)"
      "upload_block_with_retry env req attempt =
         (WriteEditBlock req # Sleep ms # fst (upload_block_with_retry env req (attempt + 1)),
          snd (upload_block_with_retry env req (attempt + 1)))"
  using upload_block_with_retry.simps [of env req attempt]
  by (auto simp: Let_def case_prod_beta not_le split: if_splits option.splits)

lemma upload_block_induct [case_names step]:
  assumes "\<And>attempt. (attempt + 1 < upload_attempts \<Longrightarrow> P (attempt + 1)) \<Longrightarrow> P (attempt :: nat)"
  shows "P attempt"
  by (induction "upload_attempts - attempt" arbitrary: attempt rule: less_induct) (simp add: assms)

lemma upload_block_log:
  "progresses (fst (upload_block_with_retry env req attempt)) = [] \<and>
   commits (fst (upload_block_with_retry env req attempt)) = [] \<and>
   set (writes (fst (upload_block_with_retry env req attempt))) \<subseteq> {req} \<and>
   length (writes (fst (upload_block_with_retry env req attempt))) \<le> max 1 (upload_attempts - attempt)"
proof (induction attempt rule: upload_block_induct)
  case (step attempt)
  then show ?case by (cases rule: upload_block_cases [of env req attempt]) auto
qed

lemma upload_block_success_writes:
  "snd (upload_block_with_retry env req attempt) = None \<Longrightarrow>
   req \<in> set (writes (fst (upload_block_with_retry env req attempt)))"
  by (cases rule: upload_block_cases [of env req attempt]) auto

lemma hash_stage_log:
  assumes "hash_stage env blocks schedule = Some (evl, r)"
  shows "writes evl = []" and "commits evl = []" and "\<forall>p \<in> set (progresses evl). phase p = Hashing"
proof -
  have w: "writes (map (hashing_progress n) ks) = []" and c: "commits (map (hashing_progress n) ks) = []"
    and p: "\<forall>p \<in> set (progresses (map (hashing_progress n) ks)). phase p = Hashing" for n ks
    by (induction ks) (auto simp: hashing_progress_def)
  from assms show "writes evl = []" "commits evl = []" "\<forall>p \<in> set (progresses evl). phase p = Hashing"
    using w c p by (auto simp: hash_stage_def hashing_progress_def split: option.splits)
qed

lemma hash_stage_result:
  assumes "hash_stage env blocks schedule = Some (evl, Inr hashes)"
  shows "hashes = map (\<lambda>b. to_hex (digest env b)) blocks"
proof -
  let ?n = "length blocks"
    and ?task = "\<lambda>i. if aborted env (InHashTask i) then Some EditSaveAbortedError else None"
  from assms obtain p where p: "run_with_workers ?n ?task parallel_workers schedule = Some p"
    and ok: "failure p = None"
    and h: "hashes = foldl (\<lambda>h i. h[i := to_hex (digest env (blocks ! i))]) (replicate ?n []) (settled p)"
    by (auto simp: hash_stage_def hash_blocks_def Let_def split: option.splits)
  have "mset (settled p) = mset [0..<?n]"
    using run_with_workers_success [OF p ok] by (simp add: parallel_workers_def)
  then have "set (settled p) = {0..<?n}" by (metis atLeastLessThan_upt mset_eq_setD)
  then show ?thesis
    unfolding h by (intro nth_equalityI) (auto simp: nth_foldl_update length_foldl_update)
qed

lemma upload_log_writes:
  "writes (upload_log task sz n toUpload ks up bu) = concat (map (\<lambda>k. writes (fst (task k))) ks)"
  by (induction ks arbitrary: up bu) (auto split: prod.splits option.splits)

lemma upload_log_commits:
  "\<forall>k. commits (fst (task k)) = [] \<Longrightarrow> commits (upload_log task sz n toUpload ks up bu) = []"
  by (induction ks arbitrary: up bu) (auto split: prod.splits option.splits simp: prod_eq_iff)

lemma upload_log_progress:
  "\<forall>k. progresses (fst (task k)) = [] \<Longrightarrow>
   \<forall>p \<in> set (progresses (upload_log task sz n toUpload ks up bu)). phase p = Uploading"
  by (induction ks arbitrary: up bu) (auto split: prod.splits option.splits simp: prod_eq_iff)

definition attempt_retried :: "save_env \<Rightarrow> write_edit_block_request \<Rightarrow> nat \<Rightarrow> bool" where
  "attempt_retried env req j \<longleftrightarrow>
     \<not> aborted env (BeforeAttempt (we_index req) j) \<and> \<not> aborted env (DuringSleep (we_index req) j) \<and>
     (case writeEditBlock env req j of None \<Rightarrow> False | Some e \<Rightarrow> is_retryable (connectFrom env) e)"

lemma upload_block_success_iff:
  "attempt < upload_attempts \<Longrightarrow>
   snd (upload_block_with_retry env req attempt) = None \<longleftrightarrow>
   (\<exists>k. attempt \<le> k \<and> k < upload_attempts \<and> \<not> aborted env (BeforeAttempt (we_index req) k) \<and>
        writeEditBlock env req k = None \<and> (\<forall>j. attempt \<le> j \<and> j < k \<longrightarrow> attempt_retried env req j))"
  (is "_ \<Longrightarrow> _ \<longleftrightarrow> (\<exists>k. ?ok attempt k)")
proof (induction attempt rule: upload_block_induct)
  case (step a)
  have stuck: "\<not> ?ok a k" if "writeEditBlock env req a \<noteq> None \<or> aborted env (BeforeAttempt (we_index req) a)"
      "\<not> (attempt_retried env req a \<and> a + 1 < upload_attempts)" for k
  proof
    assume ok: "?ok a k"
    with that(1) have "k \<noteq> a" by auto
    with ok have "a < k" by simp
    with ok that(2) show False by auto
  qed
  show ?case
  proof (cases rule: upload_block_cases [of env req a])
    case aborted
    with stuck have "\<not> ?ok a k" for k by (simp add: attempt_retried_def)
    with aborted show ?thesis by auto
  next
    case written
    then have "?ok a a" using step.prems by auto
    with written show ?thesis by auto
  next
    case (failed e)
    then have "writeEditBlock env req a \<noteq> None" "\<not> (attempt_retried env req a \<and> a + 1 < upload_attempts)"
      by (auto simp: attempt_retried_def)
    with stuck have "\<not> ?ok a k" for k by simp
    with failed show ?thesis by auto
  next
    case (cancelled e ms)
    then have "writeEditBlock env req a \<noteq> None" "\<not> (attempt_retried env req a \<and> a + 1 < upload_attempts)"
      by (auto simp: attempt_retried_def)
    with stuck have "\<not> ?ok a k" for k by simp
    with cancelled show ?thesis by auto
  next
    case (again e ms)
    then have r: "attempt_retried env req a" by (simp add: attempt_retried_def)
    have "?ok a k \<longleftrightarrow> ?ok (a + 1) k" for k
    proof
      assume ok: "?ok a k"
      with again have "k \<noteq> a" by auto
      with ok show "?ok (a + 1) k" by auto
    next
      assume ok: "?ok (a + 1) k"
      have "attempt_retried env req j" if "a \<le> j \<and> j < k" for j
        using ok r that by (cases "j = a") auto
      with ok show "?ok a k" by auto
    qed
    with again step.IH show ?thesis by simp
  qed
qed

section \<open>The save: lemmas\<close>

lemma bind_saving_eq [simp]:
  "bind_saving m f = Some (evl, r) \<longleftrightarrow>
     (\<exists>e. m = Some (evl, Inl e) \<and> r = Inl e) \<or>
     (\<exists>l1 x l2. m = Some (l1, Inr x) \<and> f x = Some (l2, r) \<and> evl = l1 @ l2)"
  by (auto simp: bind_saving_def split: option.splits sum.splits prod.splits)

lemma throw_if_aborted_eq [simp]:
  "throw_if_aborted env pt = Some (evl, r) \<longleftrightarrow>
     evl = [] \<and> r = (if aborted env pt then Inl EditSaveAbortedError else Inr ())"
  by (auto simp: throw_if_aborted_def)

lemma emit_eq [simp]: "emit evs r = Some (evl, r') \<longleftrightarrow> evl = evs \<and> r' = r"
  by (auto simp: emit_def)

text \<open>What the file's content means, apart from how the save computes it.\<close>

definition file_blocks :: "save_edited_file_input \<Rightarrow> byte list list" where
  "file_blocks inp = chunks (nat (blockSize inp)) (bytes inp)"

definition file_hashes :: "save_env \<Rightarrow> save_edited_file_input \<Rightarrow> string list" where
  "file_hashes env inp = map (\<lambda>b. to_hex (digest env b)) (file_blocks inp)"

definition valid_input :: "save_edited_file_input \<Rightarrow> bool" where
  "valid_input inp \<longleftrightarrow> 0 < blockSize inp \<and> bytes inp \<noteq> []"

definition save_prepare_request :: "save_env \<Rightarrow> save_edited_file_input \<Rightarrow> prepare_commit_request" where
  "save_prepare_request env inp =
     \<lparr>pc_fileId = fileId inp, pc_baseVersion = baseVersion inp, pc_sizeBytes = length (bytes inp),
      pc_blockSize = blockSize inp, pc_blockHashes = file_hashes env inp\<rparr>"

lemma save_edited_file_cases:
  assumes "save_edited_file env hs us inp = Some (evl, r)"
  obtains (invalid) e where "\<not> valid_input inp" "evl = []" "r = Inl e"
  | (unprepared) e where "valid_input inp" "r = Inl e" "writes evl = []" "commits evl = []"
      "\<forall>p \<in> set (progresses evl). phase p = Hashing"
  | (uploading) l1 l2 known e where "valid_input inp" "r = Inl e"
      "writes l1 = []" "commits l1 = []" "\<forall>p \<in> set (progresses l1). phase p = Hashing"
      "prepareCommit env (save_prepare_request env inp) = Inr known"
      "upload_stage env inp (file_blocks inp) (file_hashes env inp)
         (missing_blocks (file_hashes env inp) known) us = Some (l2, Inl e) \<or>
       (\<exists>u. upload_stage env inp (file_blocks inp) (file_hashes env inp)
         (missing_blocks (file_hashes env inp) known) us = Some (l2, Inr u))"
      "evl = l1 @ l2"
  | (committing) l1 l2 l3 known u where "valid_input inp"
      "writes l1 = []" "commits l1 = []" "\<forall>p \<in> set (progresses l1). phase p = Hashing"
      "prepareCommit env (save_prepare_request env inp) = Inr known"
      "upload_stage env inp (file_blocks inp) (file_hashes env inp)
         (missing_blocks (file_hashes env inp) known) us = Some (l2, Inr u)"
      "commit_stage env inp (file_blocks inp) (file_hashes env inp)
         (missing_blocks (file_hashes env inp) known) u = Some (l3, r)"
      "evl = l1 @ l2 @ l3"
proof (cases "valid_input inp")
  case False
  then have "blockSize inp \<le> 0 \<or> length (bytes inp) = 0" by (auto simp: valid_input_def)
  with assms have "evl = []" "\<exists>e. r = Inl e"
    by (auto simp: save_edited_file_def split: if_splits)
  with False invalid show thesis by blast
next
  case True
  then have ok: "\<not> blockSize inp \<le> 0" "length (bytes inp) \<noteq> 0"
    and sp: "split_blocks (bytes inp) (blockSize inp) = Some (file_blocks inp)"
    by (auto simp: valid_input_def split_blocks_chunks file_blocks_def)
  note run = assms [unfolded save_edited_file_def Let_def]
  have hashes: "h = file_hashes env inp" if "hash_stage env (file_blocks inp) hs = Some (l, Inr h)" for l h
    using hash_stage_result [OF that] by (simp add: file_hashes_def)
  have req: "\<lparr>pc_fileId = fileId inp, pc_baseVersion = baseVersion inp, pc_sizeBytes = length (bytes inp),
      pc_blockSize = blockSize inp, pc_blockHashes = file_hashes env inp\<rparr> = save_prepare_request env inp"
    by (simp add: save_prepare_request_def)
  show thesis
  proof (cases "hash_stage env (file_blocks inp) hs")
    case None
    with run ok sp have "evl = [] \<and> r = Inl EditSaveAbortedError"
      by (auto split: if_splits)
    with True unprepared show thesis by auto
  next
    case (Some lr)
    obtain l0 r0 where lr: "hash_stage env (file_blocks inp) hs = Some (l0, r0)"
      using Some by (cases lr) auto
    note l0 = hash_stage_log [OF lr]
    show thesis
    proof (cases r0)
      case (Inl e)
      with run ok sp lr have "(evl = [] \<or> evl = l0) \<and> (\<exists>e. r = Inl e)"
        by (auto split: if_splits)
      with True l0 unprepared show thesis by auto
    next
      case (Inr h)
      with lr hashes have h: "h = file_hashes env inp" by blast
      let ?known = "prepareCommit env (save_prepare_request env inp)"
      let ?up = "\<lambda>known. upload_stage env inp (file_blocks inp) (file_hashes env inp)
          (missing_blocks (file_hashes env inp) known) us"
      let ?l1 = "l0 @ [PrepareCommit (save_prepare_request env inp)]"
      note run' = run ok sp lr Inr h req
      show thesis
      proof (cases ?known)
        case (Inl e)
        with run' have "(evl = [] \<or> evl = l0 \<or> evl = ?l1) \<and> (\<exists>e. r = Inl e)"
          by (auto split: if_splits)
        with True l0 unprepared show thesis by auto
      next
        case known: (Inr known)
        show thesis
        proof (cases "?up known")
          case None
          with run' known have "(evl = [] \<or> evl = l0) \<and> (\<exists>e. r = Inl e)"
            by (auto split: if_splits)
          with True l0 unprepared show thesis by auto
        next
          case (Some lr2)
          obtain l2 r2 where up: "?up known = Some (l2, r2)" using Some by (cases lr2) auto
          let ?commit = "\<lambda>u. commit_stage env inp (file_blocks inp) (file_hashes env inp)
              (missing_blocks (file_hashes env inp) known) u"
          from run' known up have
            "(evl = [] \<or> evl = l0) \<and> (\<exists>e. r = Inl e) \<or>
             (\<exists>e. evl = ?l1 @ l2 \<and> r = Inl e \<and> (r2 = Inl e \<or> (\<exists>u. r2 = Inr u))) \<or>
             (\<exists>u l3. r2 = Inr u \<and> ?commit u = Some (l3, r) \<and> evl = ?l1 @ l2 @ l3)"
            by (auto split: if_splits)
          then consider "(evl = [] \<or> evl = l0) \<and> (\<exists>e. r = Inl e)"
            | e where "evl = ?l1 @ l2" "r = Inl e" "r2 = Inl e \<or> (\<exists>u. r2 = Inr u)"
            | u l3 where "r2 = Inr u" "?commit u = Some (l3, r)" "evl = ?l1 @ l2 @ l3"
            by blast
          then show thesis
          proof cases
            case 1
            with True l0 unprepared show thesis by auto
          next
            case (2 e)
            with True l0 known up show thesis by (intro uploading [of e ?l1 known l2]) auto
          next
            case (3 u l3)
            with True l0 known up show thesis by (intro committing [of ?l1 known l2 u l3]) auto
          qed
        qed
      qed
    qed
  qed
qed

lemma upload_stage_log:
  assumes "upload_stage env inp blocks hashes missing us = Some (evl, res)"
  shows "commits evl = []" and "\<forall>p \<in> set (progresses evl). phase p = Uploading"
    and "q \<in> set (writes evl) \<Longrightarrow> \<exists>i \<in> set missing. q = write_request inp blocks hashes i"
proof -
  define task where
    "task = (\<lambda>k. upload_block_with_retry env (write_request inp blocks hashes (missing ! k)) 0)"
  define sz where "sz = (\<lambda>k. length (blocks ! (missing ! k)))"
  let ?n = "length missing" and ?up = "sum_list (map (\<lambda>index. length (blocks ! index)) missing)"
  from assms obtain p where p: "run_with_workers ?n (\<lambda>k. snd (task k)) parallel_workers us = Some p"
    and evl: "evl = Progress \<lparr>phase = Uploading, completed = 0, total = ?n,
        progressUploaded = 0, bytesToUpload = ?up\<rparr> # upload_log task sz ?n ?up (history p) 0 0"
    by (auto simp: upload_stage_def Let_def task_def sz_def split: option.splits)
  have none: "\<forall>k. commits (fst (task k)) = []" "\<forall>k. progresses (fst (task k)) = []"
    using upload_block_log by (auto simp: task_def)
  show "commits evl = []" unfolding evl using none by (simp add: upload_log_commits)
  show "\<forall>p \<in> set (progresses evl). phase p = Uploading"
    unfolding evl using upload_log_progress [OF none(2)] by auto
  assume "q \<in> set (writes evl)"
  then obtain k where k: "k \<in> set (history p)" "q \<in> set (writes (fst (task k)))"
    by (auto simp: evl upload_log_writes)
  have "k < ?n" using history_bound [OF p k(1)] .
  moreover have "q = write_request inp blocks hashes (missing ! k)"
    using k(2) upload_block_log [of env "write_request inp blocks hashes (missing ! k)" 0]
    by (auto simp: task_def)
  ultimately show "\<exists>i \<in> set missing. q = write_request inp blocks hashes i" by auto
qed

lemma upload_stage_success:
  assumes "upload_stage env inp blocks hashes missing us = Some (evl, Inr u)"
  shows "u = sum_list (map (\<lambda>i. length (blocks ! i)) missing)"
    and "i \<in> set missing \<Longrightarrow> snd (upload_block_with_retry env (write_request inp blocks hashes i) 0) = None"
    and "i \<in> set missing \<Longrightarrow> write_request inp blocks hashes i \<in> set (writes evl)"
proof -
  define task where
    "task = (\<lambda>k. upload_block_with_retry env (write_request inp blocks hashes (missing ! k)) 0)"
  define sz where "sz = (\<lambda>k. length (blocks ! (missing ! k)))"
  let ?n = "length missing" and ?up = "sum_list (map (\<lambda>index. length (blocks ! index)) missing)"
  from assms obtain p where p: "run_with_workers ?n (\<lambda>k. snd (task k)) parallel_workers us = Some p"
    and ok: "failure p = None" and u: "u = sum_list (map sz (settled p))"
    and evl: "evl = Progress \<lparr>phase = Uploading, completed = 0, total = ?n,
        progressUploaded = 0, bytesToUpload = ?up\<rparr> # upload_log task sz ?n ?up (history p) 0 0"
    by (auto simp: upload_stage_def Let_def task_def sz_def split: option.splits)
  have all_ok: "mset (settled p) = mset [0..<?n]" "\<forall>k < ?n. snd (task k) = None"
    using run_with_workers_success [OF p ok] by (simp_all add: parallel_workers_def)
  have "mset (map sz (settled p)) = mset (map sz [0..<?n])"
    using all_ok(1) by (metis mset_map)
  then have "u = sum_list (map sz [0..<?n])"
    unfolding u by (metis sum_mset_sum_list)
  also have "map sz [0..<?n] = map (\<lambda>i. length (blocks ! i)) missing"
    by (intro nth_equalityI) (auto simp: sz_def)
  finally show "u = sum_list (map (\<lambda>i. length (blocks ! i)) missing)" .
  assume "i \<in> set missing"
  then obtain k where k: "k < ?n" "missing ! k = i" by (auto simp: in_set_conv_nth)
  with all_ok(2) show succ: "snd (upload_block_with_retry env (write_request inp blocks hashes i) 0) = None"
    by (auto simp: task_def)
  have "set (settled p) = {0..<?n}" using all_ok(1) by (metis atLeastLessThan_upt mset_eq_setD)
  with k have "k \<in> set (settled p)" by simp
  then have "k \<in> set (history p)" using history_settled [OF p] by auto
  with k upload_block_success_writes [OF succ] show "write_request inp blocks hashes i \<in> set (writes evl)"
    by (auto simp: evl upload_log_writes task_def)
qed

lemma upload_stage_total:
  "\<exists>us evl res. upload_stage env inp blocks hashes missing us = Some (evl, res)"
proof -
  obtain us p where "run_with_workers (length missing)
      (\<lambda>k. snd (upload_block_with_retry env (write_request inp blocks hashes (missing ! k)) 0))
      parallel_workers us = Some p"
    using run_with_workers_total by blast
  then show ?thesis unfolding upload_stage_def Let_def by (intro exI [of _ us]) auto
qed

lemma hash_stage_total: "\<exists>hs evl res. hash_stage env blocks hs = Some (evl, res)"
proof -
  obtain hs p where "run_with_workers (length blocks)
      (\<lambda>i. if aborted env (InHashTask i) then Some EditSaveAbortedError else None) parallel_workers hs = Some p"
    using run_with_workers_total by blast
  then show ?thesis unfolding hash_stage_def hash_blocks_def Let_def by (intro exI [of _ hs]) auto
qed

lemma bind_saving_total:
  "m \<noteq> None \<Longrightarrow> (\<And>l x. m = Some (l, Inr x) \<Longrightarrow> f x \<noteq> None) \<Longrightarrow> bind_saving m f \<noteq> None"
  by (cases m) (auto simp: bind_saving_def split: sum.splits option.splits)

lemma emit_not_None [simp]: "emit evs r \<noteq> None"
  by (simp add: emit_def)

lemma throw_if_aborted_not_None [simp]: "throw_if_aborted env pt \<noteq> None"
  by (simp add: throw_if_aborted_def)

lemma commit_stage_not_None [simp]: "commit_stage env inp blocks hashes missing u \<noteq> None"
  by (simp add: commit_stage_def Let_def)

lemma commit_stage_eq:
  "commit_stage env inp (file_blocks inp) (file_hashes env inp) missing u = Some (l3, r) \<Longrightarrow>
   \<exists>q p. l3 = [Progress p, CommitEdit q] \<and> phase p = Committing \<and> progressUploaded p = u \<and>
     cm_fileId q = fileId inp \<and> cm_baseVersion q = baseVersion inp \<and>
     cm_sizeBytes q = length (bytes inp) \<and> cm_blockSize q = blockSize inp \<and>
     cm_blockHashes q = file_hashes env inp \<and> cm_blockSizes q = map length (file_blocks inp) \<and>
     r = (case commitEdit env q of
            Inl e \<Rightarrow> Inl e
          | Inr v \<Rightarrow> Inr (if vd_conflict v \<or> \<not> vd_committed v
                          then SaveConflict (vd_headVersion v) (vd_headContentHash v)
                          else SaveCommitted (vd_version v) (vd_contentHash v) (vd_blocksReused v)
                                 (length (file_blocks inp)) u))"
  by (auto simp: commit_stage_def Let_def)

section \<open>A concrete save\<close>

text \<open>
  Three bytes in blocks of two, the first block already held by the file, the first attempt of every
  upload refused as unavailable. The identity stands for the digest.
\<close>

definition example_env :: save_env where
  "example_env =
     \<lparr>digest = (\<lambda>b. b), aborted = (\<lambda>_. False), prepareCommit = (\<lambda>_. Inr [''0102'']),
      writeEditBlock = (\<lambda>q k. if k = 0
        then Some (ConnectErr \<lparr>ce_code = Unavailable, ce_rawMessage = [], ce_message = []\<rparr>) else None),
      commitEdit = (\<lambda>q. Inr \<lparr>vd_conflict = False, vd_committed = True, vd_version = cm_baseVersion q + 1,
        vd_contentHash = ''c'', vd_blocksReused = 1, vd_headVersion = 0, vd_headContentHash = []\<rparr>),
      randomUUID = ''id'', jitter = (\<lambda>_ _. 0), connectFrom = connect_from_plain\<rparr>"

definition example_input :: save_edited_file_input where
  "example_input =
     \<lparr>fileId = ''f'', baseVersion = 4, blockSize = 2, filename = ''n'', editor = ''e'', bytes = [1, 2, 3]\<rparr>"

definition example_hash_schedule :: "pool_action list" where
  "example_hash_schedule = [Turn 0, Turn 1, Settle 1, Settle 0, Turn 0, Turn 1]"

definition example_upload_schedule :: "pool_action list" where
  "example_upload_schedule = [Turn 0, Settle 0, Turn 0]"

definition example_commit :: commit_edit_request where
  "example_commit =
     \<lparr>cm_fileId = ''f'', cm_baseVersion = 4, cm_commitId = ''id'', cm_sizeBytes = 3, cm_blockSize = 2,
      cm_blockHashes = [''0102'', ''03''], cm_blockSizes = [2, 1], cm_editor = ''e'', cm_filename = ''n''\<rparr>"

definition example_write :: write_edit_block_request where
  "example_write = \<lparr>we_fileId = ''f'', we_index = 1, we_sha256 = ''03'', we_data = [3]\<rparr>"

lemma example_save:
  obtains evl where
    "save_edited_file example_env example_hash_schedule example_upload_schedule example_input =
       Some (evl, Inr (SaveCommitted 5 ''c'' 1 2 1))"
    and "commits evl = [example_commit]" and "writes evl = [example_write, example_write]"
proof -
  let ?run = "save_edited_file example_env example_hash_schedule example_upload_schedule example_input"
  have "map_option (\<lambda>(evl, r). (commits evl, writes evl, r)) ?run =
      Some ([example_commit], [example_write, example_write], Inr (SaveCommitted 5 ''c'' 1 2 1))"
    by code_simp
  then obtain evl where "?run = Some (evl, Inr (SaveCommitted 5 ''c'' 1 2 1))"
    "commits evl = [example_commit]" "writes evl = [example_write, example_write]"
    by (auto simp: map_option_case split: option.splits)
  then show thesis by (rule that)
qed

section \<open>Properties\<close>

text \<open>
  C22: \<open>splitBlocks\<close> returns for every positive block size; the blocks concatenate to the input, all but
  the last have exactly the block size, and none is empty or larger. For a block size that is not
  positive the loop would never end on a nonempty input.
\<close>
theorem split_blocks_correct:
  "(if 0 < sz
    then \<exists>blocks. split_blocks bs sz = Some blocks \<and> concat blocks = bs \<and>
           length blocks = (length bs + nat sz - 1) div nat sz \<and>
           list_all (\<lambda>b. length b = nat sz) (butlast blocks) \<and>
           list_all (\<lambda>b. b \<noteq> [] \<and> length b \<le> nat sz) blocks
    else split_blocks bs sz = (if bs = [] then Some [] else None))"
proof (cases "0 < sz")
  case True
  then have n: "0 < nat sz" by simp
  with True show ?thesis
    by (auto simp: split_blocks_chunks length_chunks list_all_iff
        dest: chunks_full [OF n] chunks_sizes [OF n])
next
  case False
  have "split_blocks [] sz = Some []"
    by (simp add: split_blocks_def split_blocks_loop.simps)
  with False show ?thesis by (auto simp: split_blocks_diverges)
qed

text \<open>
  The hex encoding of a digest has two digits per byte and is injective: two digests with the
  same text are the same bytes.
\<close>
theorem to_hex_faithful:
  "length (to_hex xs) = 2 * length xs \<and> (to_hex xs = to_hex ys \<longleftrightarrow> xs = ys)"
proof -
  have "length (to_hex xs) = 2 * length xs"
    by (induction xs) (simp_all add: to_hex_concat)
  then show ?thesis by (simp add: to_hex_eq_iff)
qed

text \<open>
  \<open>uploadBlockWithRetry\<close> sends at most three requests, all for the same block, and resolves exactly when
  one of the three attempts is answered, every earlier one having failed with a retryable code and
  without an abort in between.
\<close>
theorem upload_block_outcome:
  "length (writes (fst (upload_block_with_retry env req 0))) \<le> 3 \<and>
   set (writes (fst (upload_block_with_retry env req 0))) \<subseteq> {req} \<and>
   (snd (upload_block_with_retry env req 0) = None \<longleftrightarrow>
      list_ex (\<lambda>k. \<not> aborted env (BeforeAttempt (we_index req) k) \<and> writeEditBlock env req k = None \<and>
                   list_all (attempt_retried env req) [0..<k]) [0..<3])"
proof -
  have "snd (upload_block_with_retry env req 0) = None \<longleftrightarrow>
      (\<exists>k. k < 3 \<and> \<not> aborted env (BeforeAttempt (we_index req) k) \<and>
        writeEditBlock env req k = None \<and> (\<forall>j. j < k \<longrightarrow> attempt_retried env req j))"
    using upload_block_success_iff [of 0 env req] by (simp add: upload_attempts_def)
  then show ?thesis
    using upload_block_log [of env req 0]
    by (auto simp: list_ex_iff list_all_iff upload_attempts_def)
qed

text \<open>
  C1: A save sends \<open>CommitEdit\<close> at most once, and only when every block that the file does not already hold
  has been accepted by the upload service in this save. The request lists the hash and the size of
  every block of the edited bytes, in order, against the version the editor loaded.
\<close>
theorem save_commits_only_uploaded:
  assumes "save_edited_file env hs us inp = Some (evl, r)" and "q \<in> set (commits evl)"
  shows "commits evl = [q] \<and> concat (file_blocks inp) = bytes inp \<and>
    cm_blockHashes q = file_hashes env inp \<and> cm_blockSizes q = map length (file_blocks inp) \<and>
    cm_baseVersion q = baseVersion inp \<and>
    (\<exists>known. prepareCommit env (save_prepare_request env inp) = Inr known \<and>
      (\<forall>i < length (file_blocks inp). file_hashes env inp ! i \<notin> set known \<longrightarrow>
         (let w = write_request inp (file_blocks inp) (file_hashes env inp) i
          in w \<in> set (writes evl) \<and> (\<exists>k < 3. writeEditBlock env w k = None))))"
  using assms(1)
proof (cases rule: save_edited_file_cases)
  case (uploading l1 l2 known e)
  with assms(2) show ?thesis by (auto dest: upload_stage_log)
next
  case (committing l1 l2 l3 known u)
  have l2: "commits l2 = []" using upload_stage_log(1) committing(6) by blast
  have up: "w \<in> set (writes l2) \<and> (\<exists>k < 3. writeEditBlock env w k = None)"
    if "i \<in> set (missing_blocks (file_hashes env inp) known)"
      and w: "w = write_request inp (file_blocks inp) (file_hashes env inp) i" for i w
  proof -
    have "snd (upload_block_with_retry env w 0) = None" "w \<in> set (writes l2)"
      using upload_stage_success(2,3) [OF committing(6) that(1)] w by simp_all
    then show ?thesis using upload_block_success_iff [of 0 env w] by (auto simp: upload_attempts_def)
  qed
  have "0 < nat (blockSize inp)" using committing(1) by (simp add: valid_input_def)
  then have "concat (file_blocks inp) = bytes inp" by (simp add: file_blocks_def)
  moreover have "i \<in> set (missing_blocks (file_hashes env inp) known)"
    if "i < length (file_blocks inp)" "file_hashes env inp ! i \<notin> set known" for i
    using that by (auto simp: missing_blocks_def file_hashes_def)
  ultimately show ?thesis
    using committing l2 up commit_stage_eq [OF committing(7)] assms(2) by (auto simp: Let_def)
qed (use assms(2) in auto)

theorem save_commits_only_uploaded_witness:
  "\<exists>evl r. save_edited_file example_env example_hash_schedule example_upload_schedule example_input =
      Some (evl, r) \<and> example_commit \<in> set (commits evl) \<and> commits evl = [example_commit] \<and>
      cm_blockHashes example_commit = file_hashes example_env example_input"
proof -
  obtain evl where run: "save_edited_file example_env example_hash_schedule example_upload_schedule
      example_input = Some (evl, Inr (SaveCommitted 5 ''c'' 1 2 1))"
    and q: "commits evl = [example_commit]"
    by (rule example_save)
  from q have mem: "example_commit \<in> set (commits evl)" by simp
  show ?thesis using run mem save_commits_only_uploaded [OF run mem] by blast
qed

text \<open>
  C3: No block the file already holds is ever sent, whatever the outcome of the save: every
  \<open>WriteEditBlock\<close> is for a block of the edited bytes whose hash the prepare call did not report, and
  carries that block's bytes under that block's hash.
\<close>
theorem save_sends_only_missing:
  assumes "save_edited_file env hs us inp = Some (evl, r)" and "w \<in> set (writes evl)"
  shows "we_index w < length (file_blocks inp) \<and>
    we_data w = file_blocks inp ! we_index w \<and> we_sha256 w = to_hex (digest env (we_data w)) \<and>
    (\<exists>known. prepareCommit env (save_prepare_request env inp) = Inr known \<and> we_sha256 w \<notin> set known)"
proof -
  have main: ?thesis if "prepareCommit env (save_prepare_request env inp) = Inr known"
    "\<exists>i \<in> set (missing_blocks (file_hashes env inp) known).
       w = write_request inp (file_blocks inp) (file_hashes env inp) i" for known
    using that by (auto simp: missing_blocks_def write_request_def file_hashes_def)
  from assms(1) show ?thesis
  proof (cases rule: save_edited_file_cases)
    case (uploading l1 l2 known e)
    with assms(2) show ?thesis by (intro main [of known]) (auto dest: upload_stage_log(3))
  next
    case (committing l1 l2 l3 known u)
    have "writes l3 = []" using commit_stage_eq [OF committing(7)] by auto
    with committing assms(2) show ?thesis by (intro main [of known]) (auto dest: upload_stage_log(3))
  qed (use assms(2) in auto)
qed

theorem save_sends_only_missing_witness:
  "\<exists>evl r. save_edited_file example_env example_hash_schedule example_upload_schedule example_input =
      Some (evl, r) \<and> example_write \<in> set (writes evl) \<and>
      we_sha256 example_write = to_hex (digest example_env (we_data example_write))"
proof -
  obtain evl where run: "save_edited_file example_env example_hash_schedule example_upload_schedule
      example_input = Some (evl, Inr (SaveCommitted 5 ''c'' 1 2 1))"
    and w: "writes evl = [example_write, example_write]"
    by (rule example_save)
  from w have mem: "example_write \<in> set (writes evl)" by simp
  show ?thesis using run mem save_sends_only_missing [OF run mem] by blast
qed

text \<open>
  C2: The result of a save that ends without an error is the server's verdict: \<open>committed\<close> exactly when
  the commit was accepted without a conflict, with the version and hash of the verdict, the number
  of blocks of the file and the number of bytes of the blocks that had to be sent; otherwise a
  conflict that names the head version. A lost race is never reported as a commit.
\<close>
theorem save_result_is_verdict:
  assumes "save_edited_file env hs us inp = Some (evl, Inr res)"
  shows "\<exists>q v known. commits evl = [q] \<and> commitEdit env q = Inr v \<and>
    prepareCommit env (save_prepare_request env inp) = Inr known \<and>
    res = (if vd_committed v \<and> \<not> vd_conflict v
           then SaveCommitted (vd_version v) (vd_contentHash v) (vd_blocksReused v) (length (file_blocks inp))
                  (sum_list (map (\<lambda>i. length (file_blocks inp ! i)) (missing_blocks (file_hashes env inp) known)))
           else SaveConflict (vd_headVersion v) (vd_headContentHash v))"
  using assms
proof (cases rule: save_edited_file_cases)
  case (committing l1 l2 l3 known u)
  have "commits l2 = []" using upload_stage_log(1) committing(6) by blast
  moreover have "u = sum_list (map (\<lambda>i. length (file_blocks inp ! i)) (missing_blocks (file_hashes env inp) known))"
    using upload_stage_success(1) committing(6) by blast
  ultimately show ?thesis
    using committing commit_stage_eq [OF committing(7)] by (fastforce split: sum.splits)
qed auto

theorem save_result_is_verdict_witness:
  "\<exists>evl q v. save_edited_file example_env example_hash_schedule example_upload_schedule example_input =
      Some (evl, Inr (SaveCommitted 5 ''c'' 1 2 1)) \<and> commits evl = [q] \<and>
      commitEdit example_env q = Inr v \<and> vd_committed v \<and> \<not> vd_conflict v"
proof -
  obtain evl where run: "save_edited_file example_env example_hash_schedule example_upload_schedule
      example_input = Some (evl, Inr (SaveCommitted 5 ''c'' 1 2 1))"
    by (rule example_save)
  from save_result_is_verdict [OF run] run show ?thesis by (fastforce split: if_splits)
qed

text \<open>
  The progress reports of a save come in the order hashing, uploading, committing, whatever the order
  in which hashes and uploads settle and whatever its outcome.
\<close>
theorem save_phases_in_order:
  assumes "save_edited_file env hs us inp = Some (evl, r)"
  shows "sorted (map phase (progresses evl))"
proof -
  have const: "sorted (map f xs) " if "\<forall>x \<in> set xs. f x = (c :: edit_save_phase)" for f c and xs :: "edit_save_progress list"
    using that by (auto simp: sorted_iff_nth_mono)
  have le: "Hashing \<le> p" "Hashing \<le> Uploading" "p \<le> Committing" for p
    by (auto simp: less_eq_edit_save_phase_def phase_rank_def split: edit_save_phase.splits)
  from assms show ?thesis
  proof (cases rule: save_edited_file_cases)
    case (unprepared e)
    then show ?thesis by (intro const) auto
  next
    case (uploading l1 l2 known e)
    then have "\<forall>p \<in> set (progresses l2). phase p = Uploading" by (auto dest: upload_stage_log(2))
    with uploading le const show ?thesis by (auto simp: sorted_append)
  next
    case (committing l1 l2 l3 known u)
    then have "\<forall>p \<in> set (progresses l2). phase p = Uploading" by (auto dest: upload_stage_log(2))
    with committing commit_stage_eq [OF committing(7)] le const show ?thesis
      by (auto simp: sorted_append)
  qed simp
qed

theorem save_phases_in_order_witness:
  "\<exists>evl r. save_edited_file example_env example_hash_schedule example_upload_schedule example_input =
      Some (evl, r) \<and> sorted (map phase (progresses evl))"
proof -
  obtain evl where run: "save_edited_file example_env example_hash_schedule example_upload_schedule
      example_input = Some (evl, Inr (SaveCommitted 5 ''c'' 1 2 1))"
    by (rule example_save)
  with save_phases_in_order [OF run] show ?thesis by blast
qed

text \<open>
  C38: A save can always run to its end: for every input and every behaviour of the services there are
  orders of settling for which it returns or throws. An input without a positive block size or
  without bytes is refused before any effect.
\<close>
theorem save_terminates:
  "(\<exists>hs us evl r. save_edited_file env hs us inp = Some (evl, r)) \<and>
   (valid_input inp \<or> (\<exists>m. save_edited_file env hs0 us0 inp = Some ([], Inl (JsError m))))"
proof (cases "valid_input inp")
  case False
  then have "\<exists>m. save_edited_file env hs us inp = Some ([], Inl (JsError m))" for hs us
    by (auto simp: valid_input_def save_edited_file_def)
  then show ?thesis by blast
next
  case True
  then have ok: "\<not> blockSize inp \<le> 0" "length (bytes inp) \<noteq> 0"
    and sp: "split_blocks (bytes inp) (blockSize inp) = Some (file_blocks inp)"
    by (auto simp: valid_input_def split_blocks_chunks file_blocks_def)
  obtain hs l0 r0 where h: "hash_stage env (file_blocks inp) hs = Some (l0, r0)"
    using hash_stage_total by blast
  let ?missing = "\<lambda>known. missing_blocks (file_hashes env inp) known"
  obtain us l2 r2 where u: "upload_stage env inp (file_blocks inp) (file_hashes env inp)
      (?missing (case prepareCommit env (save_prepare_request env inp) of Inr known \<Rightarrow> known | Inl _ \<Rightarrow> [])) us =
      Some (l2, r2)"
    using upload_stage_total by blast
  have hashes: "\<And>hh. r0 = Inr hh \<Longrightarrow> hh = file_hashes env inp"
    using h hash_stage_result by (auto simp: file_hashes_def)
  have "save_edited_file env hs us inp \<noteq> None"
    unfolding save_edited_file_def if_not_P [OF ok(1)] if_not_P [OF ok(2)] sp option.case Let_def
  proof (intro bind_saving_total)
    fix l l' hh known
    assume "hash_stage env (file_blocks inp) hs = Some (l, Inr hh)"
    with h hashes have hh: "hh = file_hashes env inp" by simp
    moreover assume "emit [PrepareCommit \<lparr>pc_fileId = fileId inp, pc_baseVersion = baseVersion inp,
        pc_sizeBytes = length (bytes inp), pc_blockSize = blockSize inp, pc_blockHashes = hh\<rparr>]
        (prepareCommit env \<lparr>pc_fileId = fileId inp, pc_baseVersion = baseVersion inp,
        pc_sizeBytes = length (bytes inp), pc_blockSize = blockSize inp, pc_blockHashes = hh\<rparr>) =
        Some (l', Inr known)"
    ultimately have "prepareCommit env (save_prepare_request env inp) = Inr known"
      by (simp add: emit_def save_prepare_request_def)
    with u hh show "upload_stage env inp (file_blocks inp) hh (missing_blocks hh known) us \<noteq> None" by simp
  qed (use h in simp_all)
  with True show ?thesis by auto
qed

end
