(* ===== verification/Uploader.thy ===== *)
theory Uploader
  imports EditCommit
begin

text \<open>
  Uploading new files: the Uppy plugin of web/src/lib/uppy-connectrpc-uploader.ts, the hook of
  web/src/modules/files/hooks/use-uppy-file-upload.ts and the state of the drawer of
  web/src/modules/files/components/upload-drawer.tsx.

  The upload service is a parameter: a function of the request. Within one call of \<open>uploadFile\<close> no request is
  sent twice (proved below), so this loses nothing. Uppy itself is a library: its
  store appears as the files it hands out, its own operations as parameters. Sizes and offsets are
  integers; the percentage of a progress report is the exact rounding of the quotient; of the time
  stamp \<open>uploadStarted\<close> the model keeps whether it is set.
\<close>

section \<open>Files and requests\<close>

record upload_progress =
  uploadStarted :: bool
  uploadComplete :: bool
  bytesUploaded :: int
  bytesTotal :: int
  percentage :: int

text \<open>\<open>data\<close> is \<open>None\<close> when the stored value is no \<open>Blob\<close>.\<close>

record upload_file =
  uf_id :: string
  uf_name :: string
  uf_type :: "string option"
  uf_data :: "byte list option"
  uf_error :: "string option"
  uf_progress :: upload_progress

record init_upload_request =
  iu_filename :: string
  iu_totalSizeBytes :: int
  iu_contentType :: string

record init_upload_response =
  ir_alreadyComplete :: bool
  ir_objectId :: string
  ir_uploadId :: string
  ir_chunkSizeBytes :: int
  ir_alreadyReceivedChunkIndices :: "int list"

record upload_chunk_request =
  uc_uploadId :: string
  uc_offset :: int
  uc_data :: "byte list"
  uc_sha256OfChunk :: string
  uc_chunkIndex :: int

record upload_env =
  ue_digest :: "byte list \<Rightarrow> byte list"
  ue_initUpload :: "init_upload_request \<Rightarrow> js_error + init_upload_response"
  ue_uploadChunk :: "upload_chunk_request \<Rightarrow> js_error + int"

datatype upload_event =
    InitUpload init_upload_request
  | UploadChunk upload_chunk_request
  | EmitProgress string upload_progress
  | SetComplete string upload_progress string
  | EmitSuccess string string
  | SetError string string
  | EmitError string string

section \<open>The plugin\<close>

definition uploader_to_hex :: "byte list \<Rightarrow> string" where
  "uploader_to_hex bs = js_join [] (map (\<lambda>b. pad_start 2 (CHR ''0'') (to_string16 (unat b))) bs)"

definition chunk_sha256 :: "upload_env \<Rightarrow> byte list \<Rightarrow> string" where
  "chunk_sha256 env bs = uploader_to_hex (ue_digest env bs)"

text \<open>\<open>Number.isSafeInteger\<close>\<close>

definition is_safe_integer :: "int \<Rightarrow> bool" where
  "is_safe_integer n \<longleftrightarrow> \<bar>n\<bar> \<le> 2 ^ 53 - 1"

text \<open>\<open>Math.min(100, Math.round((uploaded / size) * 100))\<close>; \<open>Math.round x\<close> is the floor of \<open>x + 1/2\<close>.\<close>

definition upload_percentage :: "int \<Rightarrow> int \<Rightarrow> int" where
  "upload_percentage uploaded sz = min 100 ((200 * uploaded + sz) div (2 * sz))"

definition mark_complete :: "upload_file \<Rightarrow> int \<Rightarrow> string \<Rightarrow> upload_event list" where
  "mark_complete file sz uploadId =
     [SetComplete (uf_id file)
        ((uf_progress file)\<lparr>uploadStarted := True, uploadComplete := True,
                            bytesUploaded := sz, bytesTotal := sz, percentage := 100\<rparr>) uploadId,
      EmitSuccess (uf_id file) uploadId]"

definition chunk_request ::
  "upload_env \<Rightarrow> string \<Rightarrow> byte list \<Rightarrow> int \<Rightarrow> int \<Rightarrow> upload_chunk_request" where
  "chunk_request env uploadId content chunkSize offset =
     (let bs = js_slice offset (offset + chunkSize) content
      in \<lparr>uc_uploadId = uploadId, uc_offset = offset, uc_data = bs,
          uc_sha256OfChunk = chunk_sha256 env bs, uc_chunkIndex = offset div chunkSize\<rparr>)"

definition progress_event :: "upload_file \<Rightarrow> int \<Rightarrow> int \<Rightarrow> upload_event" where
  "progress_event file uploaded sz =
     EmitProgress (uf_id file)
       \<lparr>uploadStarted = True, uploadComplete = uploadComplete (uf_progress file),
        bytesUploaded = uploaded, bytesTotal = sz, percentage = upload_percentage uploaded sz\<rparr>"

text \<open>
  The loop over offsets: the effects so far and the counter \<open>uploaded\<close> are arguments; the value is the
  effects together with a thrown error or the final counter.
\<close>

partial_function (option) chunk_loop ::
  "upload_env \<Rightarrow> upload_file \<Rightarrow> string \<Rightarrow> byte list \<Rightarrow> int \<Rightarrow> int list \<Rightarrow> int \<Rightarrow> int \<Rightarrow>
   upload_event list \<Rightarrow> (upload_event list \<times> (js_error + int)) option" where
  "chunk_loop env file uploadId content chunkSize received offset uploaded evs =
     (if offset < int (length content)
      then (if offset div chunkSize \<in> set received
            then chunk_loop env file uploadId content chunkSize received (offset + chunkSize)
                   (max uploaded (min (offset + chunkSize) (int (length content)))) evs
            else (case ue_uploadChunk env (chunk_request env uploadId content chunkSize offset) of
                    Inl e \<Rightarrow>
                      Some (evs @ [UploadChunk (chunk_request env uploadId content chunkSize offset)], Inl e)
                  | Inr persisted \<Rightarrow>
                      chunk_loop env file uploadId content chunkSize received (offset + chunkSize) persisted
                        (evs @ [UploadChunk (chunk_request env uploadId content chunkSize offset),
                                progress_event file persisted (int (length content))])))
      else Some (evs, Inr uploaded))"

declare chunk_loop.simps [code]

definition init_request :: "upload_file \<Rightarrow> byte list \<Rightarrow> init_upload_request" where
  "init_request file content =
     \<lparr>iu_filename = uf_name file, iu_totalSizeBytes = int (length content),
      iu_contentType = (case uf_type file of Some t \<Rightarrow> t | None \<Rightarrow> ''application/octet-stream'')\<rparr>"

text \<open>The body of the \<open>try\<close>.\<close>

definition try_upload :: "upload_env \<Rightarrow> upload_file \<Rightarrow> (upload_event list \<times> (js_error + unit)) option" where
  "try_upload env file =
     (case uf_data file of
        None \<Rightarrow> Some ([], Inl (JsError (''File data is unavailable for '' @ uf_name file)))
      | Some content \<Rightarrow>
          (let sz = int (length content); req = init_request file content
           in case ue_initUpload env req of
                Inl e \<Rightarrow> Some ([InitUpload req], Inl e)
              | Inr initialized \<Rightarrow>
                  if ir_alreadyComplete initialized
                  then Some (InitUpload req # mark_complete file sz (ir_objectId initialized), Inr ())
                  else let chunkSize = ir_chunkSizeBytes initialized
                       in if \<not> is_safe_integer chunkSize \<or> chunkSize \<le> 0
                          then Some ([InitUpload req],
                                     Inl (JsError ''Upload service returned an invalid chunk size''))
                          else (case chunk_loop env file (ir_uploadId initialized) content chunkSize
                                       (ir_alreadyReceivedChunkIndices initialized) 0 0 [InitUpload req] of
                                  None \<Rightarrow> None
                                | Some (evs, Inl e) \<Rightarrow> Some (evs, Inl e)
                                | Some (evs, Inr uploaded) \<Rightarrow>
                                    if uploaded < sz
                                    then Some (evs, Inl (JsError
                                           ''Upload stream ended before the file was complete''))
                                    else Some (evs @ mark_complete file sz (ir_uploadId initialized), Inr ()))))"

definition upload_file_error :: "upload_file \<Rightarrow> js_error \<Rightarrow> upload_event list" where
  "upload_file_error file e =
     (let message = error_message ''Upload failed'' e
      in [SetError (uf_id file) message, EmitError (uf_id file) message])"

text \<open>\<open>uploadFile\<close>: \<open>file\<close> is what \<open>uppy.getFile\<close> returns.\<close>

definition upload_file_run ::
  "upload_env \<Rightarrow> upload_file option \<Rightarrow> (upload_event list \<times> (js_error + unit)) option" where
  "upload_file_run env file =
     (case file of
        None \<Rightarrow> Some ([], Inr ())
      | Some f \<Rightarrow>
          (case try_upload env f of
             None \<Rightarrow> None
           | Some (evs, Inr _) \<Rightarrow> Some (evs, Inr ())
           | Some (evs, Inl e) \<Rightarrow> Some (evs @ upload_file_error f e, Inl e)))"

section \<open>The loop: lemmas\<close>

text \<open>What the loop means: the chunks with the indices \<open>ks\<close>, one after the other, those received left out.\<close>

fun send_chunks ::
  "upload_env \<Rightarrow> upload_file \<Rightarrow> string \<Rightarrow> byte list \<Rightarrow> nat \<Rightarrow> int list \<Rightarrow> nat list \<Rightarrow> int \<Rightarrow>
   upload_event list \<times> (js_error + int)" where
  "send_chunks env file u content c received [] uploaded = ([], Inr uploaded)"
| "send_chunks env file u content c received (k # ks) uploaded =
     (if int k \<in> set received
      then send_chunks env file u content c received ks
             (max uploaded (int (min (k * c + c) (length content))))
      else let q = chunk_request env u content (int c) (int (k * c))
           in case ue_uploadChunk env q of
                Inl e \<Rightarrow> ([UploadChunk q], Inl e)
              | Inr persisted \<Rightarrow>
                  let (evs, r) = send_chunks env file u content c received ks persisted
                  in (UploadChunk q # progress_event file persisted (int (length content)) # evs, r))"

definition chunk_requests :: "upload_event list \<Rightarrow> upload_chunk_request list" where
  "chunk_requests evs = concat (map (\<lambda>ev. case ev of UploadChunk q \<Rightarrow> [q] | _ \<Rightarrow> []) evs)"

lemma chunk_requests_simps [simp]:
  "chunk_requests [] = []" "chunk_requests (xs @ ys) = chunk_requests xs @ chunk_requests ys"
  "chunk_requests (InitUpload iq # xs) = chunk_requests xs"
  "chunk_requests (UploadChunk q # xs) = q # chunk_requests xs"
  "chunk_requests (EmitProgress i p # xs) = chunk_requests xs"
  "chunk_requests (SetComplete i p u # xs) = chunk_requests xs"
  "chunk_requests (EmitSuccess i u # xs) = chunk_requests xs"
  "chunk_requests (SetError i m # xs) = chunk_requests xs"
  "chunk_requests (EmitError i m # xs) = chunk_requests xs"
  by (simp_all add: chunk_requests_def)

lemma chunk_count_iff:
  assumes "0 < c"
  shows "k < length (chunks c content) \<longleftrightarrow> k * c < length content"
proof -
  have "k < (length content + c - 1) div c \<longleftrightarrow> (k + 1) * c \<le> length content + c - 1"
    using assms by (simp add: Suc_le_eq [symmetric] less_eq_div_iff_mult_less_eq)
  also have "\<dots> \<longleftrightarrow> k * c < length content" using assms by auto
  finally show ?thesis using assms by (simp add: length_chunks)
qed

lemma chunk_loop_eq:
  assumes "0 < c"
  shows "chunk_loop env file u content (int c) received (int (k * c)) uploaded evs =
    (let (evs', r) = send_chunks env file u content c received [k..<length (chunks c content)] uploaded
     in Some (evs @ evs', r))"
proof (induction "length (chunks c content) - k" arbitrary: k uploaded evs rule: less_induct)
  case less
  let ?n = "length (chunks c content)"
  have step: "int (k * c) + int c = int (Suc k * c)" by simp
  have ix: "int (k * c) div int c = int k" using assms by (simp flip: of_nat_div)
  have mn: "min (int (Suc k * c)) (int (length content)) = int (min (k * c + c) (length content))"
    by (simp only: of_nat_min mult_Suc add.commute)
  show ?case
  proof (cases "k < ?n")
    case True
    then have lt: "int (k * c) < int (length content)"
      using chunk_count_iff [OF assms, of k content] by (simp flip: of_nat_mult)
    have IH: "chunk_loop env file u content (int c) received (int (Suc k * c)) up e =
        (let (evs', r) = send_chunks env file u content c received [Suc k..<?n] up in Some (e @ evs', r))" for up e
      using True by (intro less.hyps) simp
    have ks: "[k..<?n] = k # [Suc k..<?n]" using True by (rule upt_conv_Cons)
    show ?thesis
      unfolding ks
      apply (subst chunk_loop.simps)
      unfolding step ix mn IH send_chunks.simps if_P [OF lt]
      by (auto simp: Let_def case_prod_beta split: sum.splits)
  next
    case False
    then have "\<not> int (k * c) < int (length content)"
      using chunk_count_iff [OF assms, of k content] by (simp flip: of_nat_mult)
    with False show ?thesis by (subst chunk_loop.simps) simp
  qed
qed

definition plan_request ::
  "upload_env \<Rightarrow> init_upload_response \<Rightarrow> byte list \<Rightarrow> nat \<Rightarrow> upload_chunk_request" where
  "plan_request env i content k =
     (let c = nat (ir_chunkSizeBytes i); bs = chunks c content ! k
      in \<lparr>uc_uploadId = ir_uploadId i, uc_offset = int (k * c), uc_data = bs,
          uc_sha256OfChunk = to_hex (ue_digest env bs), uc_chunkIndex = int k\<rparr>)"

definition chunk_count :: "init_upload_response \<Rightarrow> byte list \<Rightarrow> nat" where
  "chunk_count i content = length (chunks (nat (ir_chunkSizeBytes i)) content)"

definition plan :: "init_upload_response \<Rightarrow> byte list \<Rightarrow> nat list" where
  "plan i content = filter (\<lambda>k. int k \<notin> set (ir_alreadyReceivedChunkIndices i)) [0..<chunk_count i content]"

lemma js_join_Nil: "js_join [] xs = concat xs"
  by (induction "[] :: string" xs rule: js_join.induct) auto

lemma uploader_to_hex_eq: "uploader_to_hex bs = to_hex bs"
proof -
  have "foldl (\<lambda>hex b. hex @ pad_start 2 (CHR ''0'') (to_string16 (unat b))) acc bs =
      acc @ concat (map (\<lambda>b. pad_start 2 (CHR ''0'') (to_string16 (unat b))) bs)" for acc
    by (induction bs arbitrary: acc) auto
  from this [of "[]"] show ?thesis by (simp add: uploader_to_hex_def to_hex_def js_join_Nil)
qed

lemma chunk_request_eq:
  assumes "0 < ir_chunkSizeBytes i" and "k < chunk_count i content"
  shows "chunk_request env (ir_uploadId i) content (ir_chunkSizeBytes i)
           (int (k * nat (ir_chunkSizeBytes i))) = plan_request env i content k"
proof -
  let ?c = "nat (ir_chunkSizeBytes i)"
  have c: "ir_chunkSizeBytes i = int ?c" "0 < ?c" using assms(1) by simp_all
  have "js_slice (int (k * ?c)) (int (k * ?c) + int ?c) content = take ?c (drop (k * ?c) content)"
    using js_slice_nat [of "k * ?c" "k * ?c + ?c" content] by simp
  also have "\<dots> = chunks ?c content ! k"
    using assms(2) c(2) by (simp add: chunks_nth chunk_count_def)
  finally have sl: "js_slice (int (k * ?c)) (int (k * ?c) + ir_chunkSizeBytes i) content = chunks ?c content ! k"
    using c(1) by simp
  have "int (k * ?c) div ir_chunkSizeBytes i = int k"
    by (subst c(1)) (use c(2) in \<open>simp flip: of_nat_div\<close>)
  with sl show ?thesis
    unfolding chunk_request_def plan_request_def Let_def chunk_sha256_def uploader_to_hex_eq by simp
qed

lemma send_chunks_requests:
  "\<exists>m. chunk_requests (fst (send_chunks env file u content c received ks up)) =
       take m (map (\<lambda>k. chunk_request env u content (int c) (int (k * c)))
                (filter (\<lambda>k. int k \<notin> set received) ks)) \<and>
     (isl (snd (send_chunks env file u content c received ks up)) \<or>
      length (filter (\<lambda>k. int k \<notin> set received) ks) \<le> m)"
proof (induction ks arbitrary: up)
  case (Cons k ks)
  show ?case
  proof (cases "int k \<in> set received")
    case True
    with Cons show ?thesis by simp
  next
    case False
    let ?q = "chunk_request env u content (int c) (int (k * c))"
    show ?thesis
    proof (cases "ue_uploadChunk env ?q")
      case (Inl e)
      with False show ?thesis by (intro exI [of _ 1]) (simp add: Let_def)
    next
      case (Inr persisted)
      obtain m where "chunk_requests (fst (send_chunks env file u content c received ks persisted)) =
          take m (map (\<lambda>k. chunk_request env u content (int c) (int (k * c))) (filter (\<lambda>k. int k \<notin> set received) ks))"
        "isl (snd (send_chunks env file u content c received ks persisted)) \<or>
         length (filter (\<lambda>k. int k \<notin> set received) ks) \<le> m"
        using Cons.IH by blast
      with False Inr show ?thesis
        by (intro exI [of _ "Suc m"]) (simp add: Let_def case_prod_beta progress_event_def)
    qed
  qed
qed (simp add: exI [of _ 0])

definition acknowledged :: "upload_env \<Rightarrow> string \<Rightarrow> byte list \<Rightarrow> nat \<Rightarrow> int list \<Rightarrow> nat \<Rightarrow> bool" where
  "acknowledged env u content c received k \<longleftrightarrow>
     int k \<in> set received \<or> \<not> isl (ue_uploadChunk env (chunk_request env u content (int c) (int (k * c))))"

lemma send_chunks_isl:
  "isl (snd (send_chunks env file u content c received ks up)) \<longleftrightarrow>
     \<not> list_all (acknowledged env u content c received) ks"
  by (induction ks arbitrary: up)
    (auto simp: acknowledged_def Let_def case_prod_beta split: sum.splits)

lemma send_chunks_uploaded:
  "snd (send_chunks env file u content c received ks up) = Inr x \<Longrightarrow> ks \<noteq> [] \<Longrightarrow>
   (if int (last ks) \<in> set received then int (min (last ks * c + c) (length content)) \<le> x
    else ue_uploadChunk env (chunk_request env u content (int c) (int (last ks * c))) = Inr x)"
proof (induction ks arbitrary: up)
  case (Cons k ks)
  show ?case
  proof (cases "ks = []")
    case True
    with Cons.prems show ?thesis by (auto simp: Let_def split: sum.splits if_splits)
  next
    case False
    with Cons show ?thesis
      by (auto simp: Let_def case_prod_beta split: sum.splits if_splits)
  qed
qed simp

lemma send_chunks_events:
  "ev \<in> set (fst (send_chunks env file u content c received ks up)) \<Longrightarrow>
   (\<exists>q. ev = UploadChunk q) \<or> (\<exists>p. ev = EmitProgress (uf_id file) p)"
  by (induction ks arbitrary: up)
    (auto simp: Let_def case_prod_beta progress_event_def split: sum.splits if_splits)

section \<open>One file: lemmas\<close>

definition chunked :: "upload_env \<Rightarrow> upload_file \<Rightarrow> byte list \<Rightarrow> init_upload_response \<Rightarrow> bool" where
  "chunked env f content i \<longleftrightarrow>
     uf_data f = Some content \<and> ue_initUpload env (init_request f content) = Inr i \<and>
     \<not> ir_alreadyComplete i \<and> is_safe_integer (ir_chunkSizeBytes i) \<and> 0 < ir_chunkSizeBytes i"

definition sent_chunks ::
  "upload_env \<Rightarrow> upload_file \<Rightarrow> byte list \<Rightarrow> init_upload_response \<Rightarrow> upload_event list \<times> (js_error + int)" where
  "sent_chunks env f content i =
     send_chunks env f (ir_uploadId i) content (nat (ir_chunkSizeBytes i))
       (ir_alreadyReceivedChunkIndices i) [0..<chunk_count i content] 0"

lemma chunk_loop_sent:
  "0 < ir_chunkSizeBytes i \<Longrightarrow>
   chunk_loop env f (ir_uploadId i) content (ir_chunkSizeBytes i) (ir_alreadyReceivedChunkIndices i) 0 0 evs =
     Some (evs @ fst (sent_chunks env f content i), snd (sent_chunks env f content i))"
  using chunk_loop_eq [of "nat (ir_chunkSizeBytes i)" env f "ir_uploadId i" content
      "ir_alreadyReceivedChunkIndices i" 0 0 evs]
  by (simp add: sent_chunks_def chunk_count_def case_prod_beta)

lemma try_upload_chunked:
  assumes "chunked env f content i"
  shows "try_upload env f =
    (let start = InitUpload (init_request f content) # fst (sent_chunks env f content i)
     in Some (case snd (sent_chunks env f content i) of
          Inl e \<Rightarrow> (start, Inl e)
        | Inr uploaded \<Rightarrow>
            if uploaded < int (length content)
            then (start, Inl (JsError ''Upload stream ended before the file was complete''))
            else (start @ mark_complete f (int (length content)) (ir_uploadId i), Inr ())))"
  using assms by (simp add: chunked_def try_upload_def chunk_loop_sent Let_def split: sum.splits)

lemma try_upload_cases:
  obtains (refused) evs e where "try_upload env f = Some (evs, Inl e)"
      "evs = [] \<or> (\<exists>q. evs = [InitUpload q])"
  | (already) content and i :: init_upload_response where "uf_data f = Some content"
      "try_upload env f = Some (InitUpload (init_request f content) #
         mark_complete f (int (length content)) (ir_objectId i), Inr ())"
  | (chunked) content i where "chunked env f content i"
proof (cases "uf_data f")
  case None
  then show thesis using refused by (simp add: try_upload_def)
next
  case content: (Some content)
  show thesis
  proof (cases "ue_initUpload env (init_request f content)")
    case (Inl e)
    with content show thesis using refused by (simp add: try_upload_def Let_def)
  next
    case i: (Inr i)
    show thesis
    proof (cases "ir_alreadyComplete i \<or> \<not> is_safe_integer (ir_chunkSizeBytes i) \<or> ir_chunkSizeBytes i \<le> 0")
      case True
      show thesis
      proof (cases "ir_alreadyComplete i")
        case True
        with content i show thesis by (intro already [of content i]) (simp_all add: try_upload_def Let_def)
      next
        case False
        with content i \<open>ir_alreadyComplete i \<or> _ \<or> _\<close> show thesis
          by (intro refused) (auto simp: try_upload_def Let_def)
      qed
    next
      case False
      with content i show thesis by (intro chunked [of content i]) (simp add: chunked_def)
    qed
  qed
qed

text \<open>The effects that end an upload for Uppy.\<close>

fun ending :: "upload_event \<Rightarrow> bool" where
  "ending (SetComplete _ _ _) = True"
| "ending (EmitSuccess _ _) = True"
| "ending (SetError _ _) = True"
| "ending (EmitError _ _) = True"
| "ending _ = False"

lemma ending_sent [simp]: "filter ending (fst (sent_chunks env f content i)) = []"
  using send_chunks_events by (fastforce simp: sent_chunks_def filter_empty_conv)

lemma requests_sent:
  assumes "chunked env f content i"
  obtains m where "chunk_requests (fst (sent_chunks env f content i)) =
      take m (map (plan_request env i content) (plan i content))"
    and "isl (snd (sent_chunks env f content i)) \<or> length (plan i content) \<le> m"
proof -
  let ?c = "nat (ir_chunkSizeBytes i)"
  have c: "int ?c = ir_chunkSizeBytes i" "0 < ir_chunkSizeBytes i" using assms by (simp_all add: chunked_def)
  have eq: "map (\<lambda>k. chunk_request env (ir_uploadId i) content (int ?c) (int (k * ?c))) (plan i content) =
      map (plan_request env i content) (plan i content)"
    unfolding c(1) using c(2) by (intro map_cong refl chunk_request_eq) (auto simp: plan_def)
  obtain m where m: "chunk_requests (fst (sent_chunks env f content i)) =
      take m (map (\<lambda>k. chunk_request env (ir_uploadId i) content (int ?c) (int (k * ?c))) (plan i content))"
    "isl (snd (sent_chunks env f content i)) \<or> length (plan i content) \<le> m"
    unfolding sent_chunks_def plan_def using send_chunks_requests by blast
  show thesis by (rule that [OF m(1) [unfolded eq] m(2)])
qed

section \<open>The hook\<close>

text \<open>
  \<open>upload\<close> awaits \<open>uploadFile\<close> of every file id: it rejects as soon as one of them rejects. \<open>order\<close> is the
  order in which the files settle.
\<close>

definition upload_all :: "upload_env \<Rightarrow> upload_file option list \<Rightarrow> nat list \<Rightarrow> (js_error + unit) option" where
  "upload_all env files order =
     (if list_all (\<lambda>f. upload_file_run env f \<noteq> None) files
      then (case [e. k \<leftarrow> order, Some (_, Inl e) \<leftarrow> [upload_file_run env (files ! k)]] of
              e # _ \<Rightarrow> Some (Inl e)
            | [] \<Rightarrow> Some (Inr ()))
      else None)"

text \<open>
  The state of \<open>useUppyFileUpload\<close>: the files in Uppy's store, the React states, and \<open>uh_runs\<close>, the number of calls of
  \<open>uppy.upload\<close> in flight. A callback sees the state of the last render; renders follow each action.
\<close>

record upload_hook =
  uh_files :: "upload_file list"
  uh_errors :: "string list"
  uh_isUploading :: bool
  uh_isDragging :: bool
  uh_runs :: nat

definition hook_start :: upload_hook where
  "hook_start = \<lparr>uh_files = [], uh_errors = [], uh_isUploading = False, uh_isDragging = False, uh_runs = 0\<rparr>"

datatype 'c hook_action =
    StoreChanged "upload_file list"
  | RestrictionFailed string
  | UploadErrorEvent string
  | UploadSuccessEvent
  | UploadFiles
  | UploadSettled "js_error option"
  | RemoveFile string
  | ClearAll
  | DragEnter
  | DragOver
  | DragLeave
  | DropFiles "'c list"
  | InputChange "'c list option"

definition push_error :: "string \<Rightarrow> upload_hook \<Rightarrow> upload_hook" where
  "push_error message h = h\<lparr>uh_errors := js_slice 0 1 (message # uh_errors h)\<rparr>"

text \<open>\<open>addFile\<close> is Uppy's: it throws on a restriction, and the hook ignores the exception.\<close>

type_synonym 'c add_file = "upload_file list \<Rightarrow> 'c \<Rightarrow> js_error + upload_file list"

definition add_files :: "'c add_file \<Rightarrow> 'c list option \<Rightarrow> upload_hook \<Rightarrow> upload_hook" where
  "add_files addFile fileList h =
     (case fileList of
        None \<Rightarrow> h
      | Some cs \<Rightarrow> h\<lparr>uh_files := foldl (\<lambda>fs c. case addFile fs c of Inl _ \<Rightarrow> fs | Inr fs' \<Rightarrow> fs') (uh_files h) cs\<rparr>)"

definition upload_files :: "upload_hook \<Rightarrow> upload_hook" where
  "upload_files h =
     (if uh_isUploading h then h
      else if length (uh_files h) = 0 then push_error ''Select at least one file before uploading'' h
      else h\<lparr>uh_errors := [], uh_isUploading := True, uh_runs := uh_runs h + 1\<rparr>)"

definition upload_settled :: "js_error option \<Rightarrow> upload_hook \<Rightarrow> upload_hook" where
  "upload_settled outcome h =
     (let h' = (case outcome of None \<Rightarrow> h | Some e \<Rightarrow> push_error (error_message ''Upload failed'' e) h)
      in h'\<lparr>uh_isUploading := False, uh_runs := uh_runs h - 1\<rparr>)"

fun hook_step :: "'c add_file \<Rightarrow> bool \<Rightarrow> upload_hook \<Rightarrow> 'c hook_action \<Rightarrow> upload_hook option" where
  "hook_step addFile autoProceed h (StoreChanged fs) = Some (h\<lparr>uh_files := fs\<rparr>)"
| "hook_step addFile autoProceed h (RestrictionFailed m) = Some (push_error m h)"
| "hook_step addFile autoProceed h (UploadErrorEvent m) = Some (push_error m h)"
| "hook_step addFile autoProceed h UploadSuccessEvent = Some (h\<lparr>uh_errors := []\<rparr>)"
| "hook_step addFile autoProceed h UploadFiles = Some (upload_files h)"
| "hook_step addFile autoProceed h (UploadSettled e) =
     (if uh_runs h = 0 then None else Some (upload_settled e h))"
| "hook_step addFile autoProceed h (RemoveFile i) =
     Some (h\<lparr>uh_files := filter (\<lambda>f. uf_id f \<noteq> i) (uh_files h)\<rparr>)"
| "hook_step addFile autoProceed h ClearAll = Some (h\<lparr>uh_files := [], uh_errors := []\<rparr>)"
| "hook_step addFile autoProceed h DragEnter = Some (h\<lparr>uh_isDragging := True\<rparr>)"
| "hook_step addFile autoProceed h DragOver = Some h"
| "hook_step addFile autoProceed h DragLeave = Some (h\<lparr>uh_isDragging := False\<rparr>)"
| "hook_step addFile autoProceed h (DropFiles cs) = Some (add_files addFile (Some cs) (h\<lparr>uh_isDragging := False\<rparr>))"
| "hook_step addFile autoProceed h (InputChange cs) =
     Some (let h' = add_files addFile cs h in if autoProceed then upload_files h' else h')"

definition hook_inv :: "upload_hook \<Rightarrow> bool" where
  "hook_inv h \<longleftrightarrow> length (uh_errors h) \<le> 1 \<and> uh_runs h = (if uh_isUploading h then 1 else 0)"

lemma hook_op_simps [simp]:
  "uh_runs (push_error m h) = uh_runs h" "uh_isUploading (push_error m h) = uh_isUploading h"
  "uh_errors (push_error m h) = [m]" "uh_files (push_error m h) = uh_files h"
  "uh_runs (add_files addFile cs h) = uh_runs h" "uh_isUploading (add_files addFile cs h) = uh_isUploading h"
  "uh_errors (add_files addFile cs h) = uh_errors h"
  by (simp_all add: push_error_def js_slice_def js_index_def add_files_def split: option.splits)

lemma hook_step_inv: "hook_inv h \<Longrightarrow> hook_step addFile autoProceed h a = Some h' \<Longrightarrow> hook_inv h'"
  by (cases a)
    (auto simp: hook_inv_def upload_files_def upload_settled_def Let_def split: if_splits option.splits)

lemma hook_start_inv: "hook_inv hook_start"
  by (simp add: hook_start_def hook_inv_def)

interpretation upload_hook: machine "hook_step addFile autoProceed" hook_start hook_inv
  for addFile autoProceed
  by unfold_locales (rule hook_start_inv, rule hook_step_inv)

section \<open>The drawer\<close>

datatype upload_tab = AllTab | CompletedTab | FailedTab

record upload_drawer =
  dr_open :: bool
  dr_minimized :: bool
  dr_tab :: upload_tab
  dr_hook :: upload_hook

definition drawer_start :: upload_drawer where
  "drawer_start = \<lparr>dr_open = False, dr_minimized = False, dr_tab = AllTab, dr_hook = hook_start\<rparr>"

definition is_complete :: "upload_file \<Rightarrow> bool" where
  "is_complete file = uploadComplete (uf_progress file)"

text \<open>\<open>Boolean(file.error)\<close>: an empty message counts as no error.\<close>

definition is_failed :: "upload_file \<Rightarrow> bool" where
  "is_failed file = (case uf_error file of None \<Rightarrow> False | Some m \<Rightarrow> m \<noteq> [])"

definition upload_file_type :: "upload_file \<Rightarrow> string" where
  "upload_file_type file =
     (if CHR ''.'' \<in> set (uf_name file) then to_upper (last (split_char (CHR ''.'') (uf_name file))) else ''FILE'')"

definition row_status :: "upload_file \<Rightarrow> string" where
  "row_status file =
     (if is_failed file then ''Failed to upload''
      else if is_complete file then ''Uploaded to Files'' else ''Uploading to Files'')"

definition row_has_progress_bar :: "upload_file \<Rightarrow> bool" where
  "row_has_progress_bar file \<longleftrightarrow> \<not> is_complete file \<and> \<not> is_failed file"

fun tab_files :: "upload_tab \<Rightarrow> upload_file list \<Rightarrow> upload_file list" where
  "tab_files AllTab files = files"
| "tab_files CompletedTab files = filter is_complete files"
| "tab_files FailedTab files = filter is_failed files"

definition tab_count :: "upload_file list \<Rightarrow> upload_tab \<Rightarrow> nat" where
  "tab_count files t =
     (case t of AllTab \<Rightarrow> length files | CompletedTab \<Rightarrow> length (filter is_complete files)
      | FailedTab \<Rightarrow> length (filter is_failed files))"

definition tab_label :: "upload_file list \<Rightarrow> upload_tab \<Rightarrow> string" where
  "tab_label files t =
     (case t of AllTab \<Rightarrow> ''All uploads'' | CompletedTab \<Rightarrow> ''Completed'' | FailedTab \<Rightarrow> ''Failed'') @
     (if t \<noteq> AllTab \<and> 0 < tab_count files t then '' ('' @ show_nat (tab_count files t) @ '')'' else [])"

definition in_progress :: "upload_hook \<Rightarrow> bool" where
  "in_progress h \<longleftrightarrow> uh_isUploading h \<or> list_ex (\<lambda>f. \<not> is_complete f \<and> \<not> is_failed f) (uh_files h)"

definition plural :: "nat \<Rightarrow> string" where
  "plural n = (if n = 1 then [] else ''s'')"

definition ellipsis :: string where
  "ellipsis = [CHR 0xE2, CHR 0x80, CHR 0xA6]"

definition drawer_title :: "upload_hook \<Rightarrow> string" where
  "drawer_title h =
     (let n = tab_count (uh_files h) AllTab
      in if in_progress h then ''Uploading '' @ show_nat n @ '' item'' @ plural n @ ellipsis else ''Uploads'')"

text \<open>The banner below the list: the headline and the line under it, when it is shown.\<close>

definition drawer_banner :: "upload_hook \<Rightarrow> (string \<times> string) option" where
  "drawer_banner h =
     (if 0 < length (uh_files h) \<and> \<not> in_progress h
      then let n = tab_count (uh_files h) CompletedTab
           in Some (''Upload successful!'', show_nat n @ '' upload'' @ plural n @ '' complete'')
      else None)"

datatype 'c drawer_action =
    HookAction "'c hook_action" | ToggleMinimized | CloseDrawer | SelectTab upload_tab

text \<open>The effect runs when \<open>files.length\<close> or \<open>isUploading\<close> has changed.\<close>

definition drawer_effect :: "upload_hook \<Rightarrow> upload_drawer \<Rightarrow> upload_drawer" where
  "drawer_effect before d =
     (let h = dr_hook d
      in if (length (uh_files h), uh_isUploading h) \<noteq> (length (uh_files before), uh_isUploading before) \<and>
            uh_isUploading h \<and> 0 < length (uh_files h)
         then d\<lparr>dr_open := True, dr_minimized := False, dr_tab := AllTab\<rparr> else d)"

fun drawer_step :: "'c add_file \<Rightarrow> upload_drawer \<Rightarrow> 'c drawer_action \<Rightarrow> upload_drawer option" where
  "drawer_step addFile d (HookAction a) =
     (case hook_step addFile True (dr_hook d) a of
        None \<Rightarrow> None
      | Some h \<Rightarrow> Some (drawer_effect (dr_hook d) (d\<lparr>dr_hook := h\<rparr>)))"
| "drawer_step addFile d ToggleMinimized = Some (d\<lparr>dr_minimized := \<not> dr_minimized d\<rparr>)"
| "drawer_step addFile d CloseDrawer = Some (d\<lparr>dr_open := False\<rparr>)"
| "drawer_step addFile d (SelectTab t) = Some (d\<lparr>dr_tab := t\<rparr>)"

definition drawer_inv :: "upload_drawer \<Rightarrow> bool" where
  "drawer_inv d \<longleftrightarrow> hook_inv (dr_hook d)"

lemma drawer_effect_hook [simp]: "dr_hook (drawer_effect h d) = dr_hook d"
  by (simp add: drawer_effect_def Let_def)

lemma drawer_step_inv: "drawer_inv d \<Longrightarrow> drawer_step addFile d a = Some d' \<Longrightarrow> drawer_inv d'"
  by (cases a) (auto simp: drawer_inv_def split: option.splits intro: hook_step_inv)

interpretation upload_drawer: machine "drawer_step addFile" drawer_start drawer_inv for addFile
  by unfold_locales
    (simp add: drawer_inv_def drawer_start_def hook_start_inv, rule drawer_step_inv)

section \<open>A concrete upload\<close>

text \<open>Five bytes in chunks of two; the service already holds the chunk in the middle.\<close>

definition example_progress :: upload_progress where
  "example_progress =
     \<lparr>uploadStarted = False, uploadComplete = False, bytesUploaded = 0, bytesTotal = 5, percentage = 0\<rparr>"

definition example_file :: upload_file where
  "example_file =
     \<lparr>uf_id = ''u1'', uf_name = ''a.txt'', uf_type = None, uf_data = Some [1, 2, 3, 4, 5], uf_error = None,
      uf_progress = example_progress\<rparr>"

definition example_init :: init_upload_response where
  "example_init =
     \<lparr>ir_alreadyComplete = False, ir_objectId = [], ir_uploadId = ''up'', ir_chunkSizeBytes = 2,
      ir_alreadyReceivedChunkIndices = [1]\<rparr>"

definition example_upload_env :: upload_env where
  "example_upload_env =
     \<lparr>ue_digest = (\<lambda>b. take 1 b), ue_initUpload = (\<lambda>_. Inr example_init),
      ue_uploadChunk = (\<lambda>q. Inr (uc_offset q + int (length (uc_data q))))\<rparr>"

lemma example_chunked: "chunked example_upload_env example_file [1, 2, 3, 4, 5] example_init"
  by (simp add: chunked_def example_file_def example_upload_env_def example_init_def is_safe_integer_def)

lemma example_upload:
  obtains evs where "upload_file_run example_upload_env (Some example_file) = Some (evs, Inr ())"
    and "map uc_offset (chunk_requests evs) = [0, 4]"
proof -
  let ?run = "upload_file_run example_upload_env (Some example_file)"
  have "map_option (\<lambda>(evs, r). (map uc_offset (chunk_requests evs), r)) ?run = Some ([0, 4], Inr ())"
    by code_simp
  then obtain evs where "?run = Some (evs, Inr ())" "map uc_offset (chunk_requests evs) = [0, 4]"
    by (auto simp: map_option_case split: option.splits)
  then show thesis by (rule that)
qed

section \<open>Properties\<close>

text \<open>
  C12: A chunked upload sends, in order and each at most once, exactly the chunks of the file that the
  service does not hold yet: the requests are a prefix of that plan, and all of it when the
  upload succeeds. Each carries the bytes of its chunk, its offset, its index and its hash.
\<close>
theorem upload_sends_missing_chunks:
  assumes "upload_file_run env (Some f) = Some (evs, r)" and "chunked env f content i"
  shows "\<exists>m. chunk_requests evs = take m (map (plan_request env i content) (plan i content)) \<and>
    (r = Inr () \<longrightarrow> chunk_requests evs = map (plan_request env i content) (plan i content))"
proof -
  obtain m where m: "chunk_requests (fst (sent_chunks env f content i)) =
      take m (map (plan_request env i content) (plan i content))"
    and all: "isl (snd (sent_chunks env f content i)) \<or> length (plan i content) \<le> m"
    by (rule requests_sent [OF assms(2)])
  have "chunk_requests evs = chunk_requests (fst (sent_chunks env f content i))"
    using assms(1) try_upload_chunked [OF assms(2)]
    by (auto simp: upload_file_run_def Let_def upload_file_error_def mark_complete_def
        split: sum.splits if_splits)
  moreover have "\<not> isl (snd (sent_chunks env f content i))" if "r = Inr ()"
    using that assms(1) try_upload_chunked [OF assms(2)]
    by (auto simp: upload_file_run_def Let_def split: sum.splits if_splits)
  ultimately show ?thesis using m all by (intro exI [of _ m]) auto
qed

theorem upload_sends_missing_chunks_witness:
  "\<exists>evs. upload_file_run example_upload_env (Some example_file) = Some (evs, Inr ()) \<and>
     chunk_requests evs = map (plan_request example_upload_env example_init [1, 2, 3, 4, 5])
       (plan example_init [1, 2, 3, 4, 5]) \<and> map uc_offset (chunk_requests evs) = [0, 4]"
proof -
  obtain evs where run: "upload_file_run example_upload_env (Some example_file) = Some (evs, Inr ())"
    and offsets: "map uc_offset (chunk_requests evs) = [0, 4]" by (rule example_upload)
  show ?thesis
    using upload_sends_missing_chunks [OF run example_chunked] run offsets by (intro exI [of _ evs]) simp
qed

text \<open>
  C13: A chunked upload succeeds exactly when every chunk the service does not hold is acknowledged and, for a
  file that is not empty, the last chunk is already held or its acknowledgement reports at least
  the size of the file as persisted.
\<close>
theorem upload_succeeds_iff:
  assumes "chunked env f content i"
  shows "(\<exists>evs. upload_file_run env (Some f) = Some (evs, Inr ())) \<longleftrightarrow>
    list_all (\<lambda>k. \<not> isl (ue_uploadChunk env (plan_request env i content k))) (plan i content) \<and>
    (content = [] \<or> int (chunk_count i content - 1) \<in> set (ir_alreadyReceivedChunkIndices i) \<or>
     (\<exists>p \<ge> int (length content).
        ue_uploadChunk env (plan_request env i content (chunk_count i content - 1)) = Inr p))"
    (is "?success \<longleftrightarrow> ?acks \<and> ?end")
proof -
  let ?c = "nat (ir_chunkSizeBytes i)" and ?n = "chunk_count i content" and ?size = "int (length content)"
  let ?recv = "ir_alreadyReceivedChunkIndices i"
  let ?r = "snd (sent_chunks env f content i)"
  have c: "int ?c = ir_chunkSizeBytes i" "0 < ir_chunkSizeBytes i" "0 < ?c"
    using assms by (simp_all add: chunked_def)
  have req: "chunk_request env (ir_uploadId i) content (int ?c) (int (k * ?c)) = plan_request env i content k"
    if "k < ?n" for k using chunk_request_eq [OF c(2) that] c(1) by simp
  have ack: "acknowledged env (ir_uploadId i) content ?c ?recv k \<longleftrightarrow>
      int k \<in> set ?recv \<or> \<not> isl (ue_uploadChunk env (plan_request env i content k))" if "k < ?n" for k
    unfolding acknowledged_def req [OF that] ..
  have acks: "?acks \<longleftrightarrow> \<not> isl ?r"
    unfolding sent_chunks_def send_chunks_isl by (auto simp: list_all_iff plan_def ack)
  have success: "?success \<longleftrightarrow> (\<exists>u \<ge> ?size. ?r = Inr u)"
    using try_upload_chunked [OF assms] by (auto simp: upload_file_run_def Let_def split: sum.splits if_splits)
  have empty: "?n = 0 \<longleftrightarrow> content = []"
    using chunk_count_iff [OF c(3), of 0 content] by (auto simp: chunk_count_def)
  have final: "?size \<le> u \<longleftrightarrow> ?end" if u: "?r = Inr u" for u
  proof (cases "content = []")
    case True
    with u empty show ?thesis by (simp add: sent_chunks_def)
  next
    case False
    with empty have n: "[0..<?n] \<noteq> []" "last [0..<?n] = ?n - 1" "?n - 1 < ?n" by simp_all
    have "\<not> ?n * ?c < length content"
      using chunk_count_iff [OF c(3), of ?n content] by (simp add: chunk_count_def)
    moreover have "(?n - 1) * ?c + ?c = ?n * ?c" using n(3) by (metis Suc_diff_1 add.commute gr_implies_not0 mult_Suc neq0_conv)
    ultimately have full: "min ((?n - 1) * ?c + ?c) (length content) = length content" by simp
    show ?thesis
      using send_chunks_uploaded [OF u [unfolded sent_chunks_def] n(1)] False
      unfolding n(2) full req [OF n(3)] by (auto split: if_splits)
  qed
  show ?thesis unfolding success acks by (cases ?r) (use final in auto)
qed

theorem upload_succeeds_iff_witness:
  "(\<exists>evs. upload_file_run example_upload_env (Some example_file) = Some (evs, Inr ())) \<and>
   ue_uploadChunk example_upload_env (plan_request example_upload_env example_init [1, 2, 3, 4, 5]
     (chunk_count example_init [1, 2, 3, 4, 5] - 1)) = Inr 5"
proof -
  have last: "ue_uploadChunk example_upload_env (plan_request example_upload_env example_init [1, 2, 3, 4, 5]
     (chunk_count example_init [1, 2, 3, 4, 5] - 1)) = Inr 5"
    by code_simp
  have "list_all (\<lambda>k. \<not> isl (ue_uploadChunk example_upload_env
      (plan_request example_upload_env example_init [1, 2, 3, 4, 5] k))) (plan example_init [1, 2, 3, 4, 5])"
    by (simp add: example_upload_env_def list_all_iff)
  with last show ?thesis using upload_succeeds_iff [OF example_chunked] by auto
qed

text \<open>
  \<open>uploadFile\<close> always ends, and Uppy hears of the end exactly once: a success marks the file complete at 100
  percent and emits \<open>upload-success\<close> with the same id; a failure stores and emits the same message and
  rethrows the error, and no file is marked complete.
\<close>
theorem upload_ends_once:
  "\<exists>evs r. upload_file_run env (Some f) = Some (evs, r) \<and>
     (case r of
        Inr _ \<Rightarrow> (\<exists>p u. filter ending evs = [SetComplete (uf_id f) p u, EmitSuccess (uf_id f) u] \<and>
                        uploadComplete p \<and> percentage p = 100 \<and> bytesUploaded p = bytesTotal p)
      | Inl e \<Rightarrow> filter ending evs = [SetError (uf_id f) (error_message ''Upload failed'' e),
                                    EmitError (uf_id f) (error_message ''Upload failed'' e)])"
proof (cases rule: try_upload_cases [of env f])
  case (refused evs e)
  then show ?thesis by (auto simp: upload_file_run_def upload_file_error_def Let_def)
next
  case (already content i)
  then show ?thesis by (simp add: upload_file_run_def mark_complete_def)
next
  case (chunked content i)
  from try_upload_chunked [OF this] show ?thesis
    by (auto simp: upload_file_run_def upload_file_error_def mark_complete_def Let_def
        split: sum.splits)
qed

text \<open>
  C35: Whatever the user and Uppy do, at most one \<open>uppy.upload\<close> is in flight, \<open>isUploading\<close> tells exactly when, and
  at most one error is shown.
\<close>
theorem upload_single_flight:
  assumes "exec (hook_step addFile autoProceed) hook_start as = Some h"
  shows "uh_runs h \<le> 1 \<and> (uh_isUploading h \<longleftrightarrow> uh_runs h = 1) \<and> length (uh_errors h) \<le> 1"
  using upload_hook.inv_exec [OF assms] by (simp add: hook_inv_def)

definition example_add_file :: "upload_file add_file" where
  "example_add_file fs f = Inr (fs @ [f])"

theorem upload_single_flight_witness:
  "\<exists>h. exec (hook_step example_add_file False) hook_start
         [DropFiles [example_file], UploadFiles, UploadFiles, UploadErrorEvent ''a'', UploadErrorEvent ''b''] = Some h \<and>
       uh_isUploading h \<and> uh_errors h = [''b''] \<and> uh_runs h = 1"
proof -
  let ?as = "[DropFiles [example_file], UploadFiles, UploadFiles, UploadErrorEvent ''a'', UploadErrorEvent ''b'']"
  define h where "h = the (exec (hook_step example_add_file False) hook_start ?as)"
  have run: "exec (hook_step example_add_file False) hook_start ?as = Some h"
    and h: "uh_isUploading h" "uh_errors h = [''b'']"
    by (simp_all add: h_def hook_start_def add_files_def example_add_file_def upload_files_def
        push_error_def js_slice_def js_index_def)
  show ?thesis using run h upload_single_flight [OF run] by blast
qed

text \<open>
  A file picked while an upload runs is added to the list, but no upload is started for it: neither by the
  pick, nor when the running upload settles. In the drawer, which offers no other way to start one,
  it stays "uploading".
\<close>
theorem pick_during_upload_not_started:
  assumes "hook_inv h" and "uh_isUploading h"
    and "exec (hook_step addFile True) h [InputChange cs, UploadSettled outcome] = Some h'"
  shows "uh_runs h' = 0 \<and> uh_files h' = uh_files (add_files addFile cs h) \<and>
    (list_ex row_has_progress_bar (uh_files h') \<longrightarrow> in_progress h')"
  using assms
  by (auto simp: hook_inv_def upload_files_def upload_settled_def Let_def in_progress_def row_has_progress_bar_def
      list_ex_iff split: if_splits option.splits)

theorem pick_during_upload_not_started_witness:
  "\<exists>h h'. exec (hook_step example_add_file True) hook_start [InputChange (Some [example_file])] = Some h \<and>
     exec (hook_step example_add_file True) h [InputChange (Some [example_file]), UploadSettled None] = Some h' \<and>
     uh_runs h' = 0 \<and> in_progress h' \<and> length (uh_files h') = 2"
proof -
  define h where "h = the (exec (hook_step example_add_file True) hook_start [InputChange (Some [example_file])])"
  define h' where
    "h' = the (exec (hook_step example_add_file True) h [InputChange (Some [example_file]), UploadSettled None])"
  note defs = h_def h'_def hook_start_def add_files_def example_add_file_def upload_files_def upload_settled_def
    example_file_def example_progress_def row_has_progress_bar_def is_complete_def is_failed_def hook_inv_def
  have h: "exec (hook_step example_add_file True) hook_start [InputChange (Some [example_file])] = Some h"
    and inv: "hook_inv h" "uh_isUploading h"
    and run: "exec (hook_step example_add_file True) h [InputChange (Some [example_file]), UploadSettled None] = Some h'"
    and fs: "length (uh_files h') = 2" "list_ex row_has_progress_bar (uh_files h')"
    by (simp_all add: defs)
  show ?thesis using h run fs pick_during_upload_not_started [OF inv run] by blast
qed

text \<open>
  The banner of the drawer appears exactly when no upload runs and every file is complete or failed. It reads
  "Upload successful!" also when every file has failed.
\<close>
theorem drawer_banner_shown:
  "(drawer_banner h \<noteq> None \<longleftrightarrow>
      uh_files h \<noteq> [] \<and> \<not> uh_isUploading h \<and> list_all (\<lambda>f. is_complete f \<or> is_failed f) (uh_files h)) \<and>
   drawer_banner (hook_start\<lparr>uh_files := [example_file\<lparr>uf_error := Some ''x''\<rparr>]\<rparr>) =
     Some (''Upload successful!'', ''0 uploads complete'')"
proof
  show "drawer_banner h \<noteq> None \<longleftrightarrow>
      uh_files h \<noteq> [] \<and> \<not> uh_isUploading h \<and> list_all (\<lambda>f. is_complete f \<or> is_failed f) (uh_files h)"
    by (auto simp: drawer_banner_def in_progress_def list_all_iff list_ex_iff Let_def)
  show "drawer_banner (hook_start\<lparr>uh_files := [example_file\<lparr>uf_error := Some ''x''\<rparr>]\<rparr>) =
     Some (''Upload successful!'', ''0 uploads complete'')"
    by code_simp
qed

text \<open>
  The two upload paths, for new files and for edits, write a digest in the same way, so a block
  uploaded by one is recognised by the other.
\<close>
theorem hex_encodings_agree: "uploader_to_hex bs = to_hex bs"
  by (rule uploader_to_hex_eq)

end
