(* ===== verification/ServerJwt.thy ===== *)
theory ServerJwt
  imports Prelude
begin

text \<open>
  The server's view of the two tokens: validation of the refresh token with its cache of signing
  keys (web/src/lib/server-jwt.ts), the expiry test of the access token
  (web/src/lib/jwt-utils.ts) and the cookie names (web/src/lib/auth-cookie.ts).

  The jose library (\<open>decodeProtectedHeader\<close>, \<open>importJWK\<close>, \<open>jwtVerify\<close>) and \<open>fetch\<close> are parameters, fields of
  \<open>jwt_env\<close>; times are in milliseconds. Calls are taken one after the other.
\<close>

section \<open>Keys and tokens\<close>

text \<open>A field of a JSON object whose type the code tests.\<close>

datatype claim = AbsentClaim | StringClaim string | NumberClaim rat | OtherClaim

record 'm jwk =
  jwk_kid :: claim
  jwk_alg :: claim
  jwk_kty :: claim
  jwk_crv :: claim
  jwk_material :: 'm

datatype jws_algorithm = EdDSA

record 'm cached_jwk_entry =
  ck_key :: "'m jwk"
  ck_alg :: jws_algorithm
  ck_observedAt :: int

record 'm jwks_state =
  jwksCache :: "(string \<times> 'm cached_jwk_entry) list"
  lastJwksFetchAt :: int

definition jwks_start :: "'m jwks_state" where
  "jwks_start = \<lparr>jwksCache = [], lastJwksFetchAt = 0\<rparr>"

definition jwks_refresh_interval_ms :: int where "jwks_refresh_interval_ms = 60 * 60 * 1000"
definition jwks_retention_ms :: int where "jwks_retention_ms = 8 * 24 * 60 * 60 * 1000"

record jwt_payload =
  jp_token_type :: claim
  jp_sid :: claim
  jp_gen :: claim
  jp_sub :: claim

record jwt_header =
  jh_alg :: "string option"
  jh_kid :: "string option"

text \<open>
  \<open>fetch\<close> throws, or answers with \<open>ok\<close> and a body; reading the body as JSON throws or gives \<open>jwks.keys\<close>:
  \<open>None\<close> when that is no array, and an entry \<open>None\<close> for a falsy element.
\<close>

datatype 'm jwks_response =
    FetchThrew js_error
  | Response bool "js_error + 'm jwk option list option"

record ('m, 'p) jwt_env =
  je_now :: int
  je_auth_service_jwks_url :: "string option"
  je_next_public_auth_jwks_url :: "string option"
  je_fetch :: "string \<Rightarrow> 'm jwks_response"
  je_decode_header :: "string \<Rightarrow> js_error + jwt_header"
  je_import_jwk :: "'m jwk \<Rightarrow> string \<Rightarrow> js_error + 'p"
  je_jwt_verify :: "string \<Rightarrow> 'p \<Rightarrow> string \<Rightarrow> js_error + jwt_payload"

datatype invalid_reason =
    MissingToken | InvalidToken | InvalidTokenType | InvalidAlgorithm | JwksFetchFailed

datatype validation_result = Valid jwt_payload | Invalid invalid_reason

section \<open>The key cache\<close>

definition is_supported_algorithm :: "string \<Rightarrow> bool" where
  "is_supported_algorithm algorithm \<longleftrightarrow> algorithm = ''EdDSA''"

definition alg_name :: "jws_algorithm \<Rightarrow> string" where
  "alg_name a = (case a of EdDSA \<Rightarrow> ''EdDSA'')"

definition normalize_jwk_algorithm :: "'m jwk \<Rightarrow> jws_algorithm option" where
  "normalize_jwk_algorithm key =
     (if jwk_alg key = StringClaim ''EdDSA'' \<or>
         jwk_kty key = StringClaim ''OKP'' \<and> jwk_crv key = StringClaim ''Ed25519''
      then Some EdDSA else None)"

definition prune_expired_jwks_entries :: "int \<Rightarrow> 'm jwks_state \<Rightarrow> 'm jwks_state" where
  "prune_expired_jwks_entries now st =
     st\<lparr>jwksCache := filter (\<lambda>(kid, entry). \<not> now - ck_observedAt entry > jwks_retention_ms) (jwksCache st)\<rparr>"

text \<open>The body of the loop over \<open>keys\<close>.\<close>

definition observe_key :: "int \<Rightarrow> 'm jwk option \<Rightarrow> 'm jwks_state \<Rightarrow> 'm jwks_state" where
  "observe_key now key st =
     (case key of
        None \<Rightarrow> st
      | Some k \<Rightarrow>
          (case jwk_kid k of
             StringClaim kid \<Rightarrow>
               (case normalize_jwk_algorithm k of
                  None \<Rightarrow> st
                | Some keyAlg \<Rightarrow>
                    st\<lparr>jwksCache := AList.update kid \<lparr>ck_key = k, ck_alg = keyAlg, ck_observedAt = now\<rparr>
                         (jwksCache st)\<rparr>)
           | _ \<Rightarrow> st))"

definition refresh_jwks_cache :: "'m jwks_response \<Rightarrow> int \<Rightarrow> 'm jwks_state \<Rightarrow> 'm jwks_state \<times> bool" where
  "refresh_jwks_cache response now st =
     (case response of
        FetchThrew _ \<Rightarrow> (st, False)
      | Response isOk body \<Rightarrow>
          if \<not> isOk then (st, False)
          else (case body of
                  Inl _ \<Rightarrow> (st, False)
                | Inr keys \<Rightarrow>
                    let st' = foldl (\<lambda>s k. observe_key now k s) st (case keys of Some ks \<Rightarrow> ks | None \<Rightarrow> [])
                    in (prune_expired_jwks_entries now (st'\<lparr>lastJwksFetchAt := now\<rparr>), True)))"

text \<open>The resolved entry, or the reason why there is none; the flag tells whether the keys were fetched.\<close>

definition resolve_refresh_token_jwk ::
  "('m, 'p) jwt_env \<Rightarrow> string \<Rightarrow> string \<Rightarrow> 'm jwks_state \<Rightarrow>
   'm jwks_state \<times> bool \<times> (invalid_reason + 'm cached_jwk_entry)" where
  "resolve_refresh_token_jwk env jwksUrl kid st =
     (let now = je_now env;
          st1 = prune_expired_jwks_entries now st;
          cachedEntry = map_of (jwksCache st1) kid
      in if cachedEntry \<noteq> None \<and> now - lastJwksFetchAt st1 < jwks_refresh_interval_ms
         then (st1, False, Inr (the cachedEntry))
         else let (st2, ok) = refresh_jwks_cache (je_fetch env jwksUrl) now st1
              in (st2, True,
                  case map_of (jwksCache st2) kid of
                    Some refreshedEntry \<Rightarrow> Inr refreshedEntry
                  | None \<Rightarrow>
                      (case cachedEntry of
                         Some entry \<Rightarrow> Inr entry
                       | None \<Rightarrow> if \<not> ok then Inl JwksFetchFailed else Inl InvalidToken)))"

section \<open>Validation\<close>

definition or_default :: "string option \<Rightarrow> string \<Rightarrow> string" where
  "or_default v d = (case v of Some s \<Rightarrow> if s = [] then d else s | None \<Rightarrow> d)"

definition jwks_url :: "('m, 'p) jwt_env \<Rightarrow> string" where
  "jwks_url env =
     or_default (je_auth_service_jwks_url env)
       (or_default (je_next_public_auth_jwks_url env) ''http://localhost:50051/.well-known/jwks.json'')"

text \<open>The inner \<open>try\<close>: whatever it throws becomes \<open>invalid-token\<close>.\<close>

definition verify_with_key ::
  "('m, 'p) jwt_env \<Rightarrow> string \<Rightarrow> string \<Rightarrow> 'm cached_jwk_entry \<Rightarrow> validation_result" where
  "verify_with_key env token algorithm jwkKey =
     (if alg_name (ck_alg jwkKey) \<noteq> algorithm then Invalid InvalidToken
      else case je_import_jwk env (ck_key jwkKey) algorithm of
        Inl _ \<Rightarrow> Invalid InvalidToken
      | Inr publicKey \<Rightarrow>
          (case je_jwt_verify env token publicKey algorithm of
             Inl _ \<Rightarrow> Invalid InvalidToken
           | Inr payload \<Rightarrow>
               if jp_token_type payload \<noteq> StringClaim ''refresh'' then Invalid InvalidTokenType
               else (case (jp_sid payload, jp_gen payload) of
                       (StringClaim _, NumberClaim _) \<Rightarrow> Valid payload
                     | _ \<Rightarrow> Invalid InvalidToken)))"

definition validate_refresh_token ::
  "('m, 'p) jwt_env \<Rightarrow> string option \<Rightarrow> 'm jwks_state \<Rightarrow> 'm jwks_state \<times> validation_result" where
  "validate_refresh_token env token st =
     (if falsy token then (st, Invalid MissingToken)
      else case je_decode_header env (the token) of
        Inl _ \<Rightarrow> (st, Invalid InvalidToken)
      | Inr header \<Rightarrow>
          if falsy (jh_alg header) then (st, Invalid InvalidToken)
          else if \<not> is_supported_algorithm (the (jh_alg header)) then (st, Invalid InvalidAlgorithm)
          else if falsy (jh_kid header) then (st, Invalid InvalidToken)
          else case resolve_refresh_token_jwk env (jwks_url env) (the (jh_kid header)) st of
            (st', _, Inl reason) \<Rightarrow> (st', Invalid reason)
          | (st', _, Inr jwkKey) \<Rightarrow> (st', verify_with_key env (the token) (the (jh_alg header)) jwkKey))"

section \<open>The access token\<close>

text \<open>
  What \<open>JSON.parse(...).exp\<close> of a payload segment can be: the parse throws (or the payload is \<open>null\<close>), \<open>exp\<close> is falsy, is
  a number (or a value that converts to one), or converts to \<open>NaN\<close>.
\<close>

datatype exp_value = ExpThrows | ExpFalsy | ExpNumber rat | ExpNaN

definition is_access_token_expired_or_missing ::
  "(string \<Rightarrow> exp_value) \<Rightarrow> rat \<Rightarrow> string option \<Rightarrow> rat \<Rightarrow> bool" where
  "is_access_token_expired_or_missing payload_exp nowMs token skewSeconds =
     (if falsy token then True
      else case split_char (CHR ''.'') (the token) of
        _ # payloadB64 # _ \<Rightarrow>
          if payloadB64 = [] then True
          else (case payload_exp payloadB64 of
                  ExpThrows \<Rightarrow> True
                | ExpFalsy \<Rightarrow> True
                | ExpNumber e \<Rightarrow> nowMs / 1000 \<ge> e - skewSeconds
                | ExpNaN \<Rightarrow> False)
      | _ \<Rightarrow> True)"

definition default_skew_seconds :: rat where "default_skew_seconds = 15"

definition access_token_cookie_name :: "bool \<Rightarrow> string" where
  "access_token_cookie_name isProduction = (if isProduction then ''__Host-access_token'' else ''access_token'')"

definition refresh_token_cookie_name :: "bool \<Rightarrow> string" where
  "refresh_token_cookie_name isProduction = (if isProduction then ''__Host-refresh_token'' else ''refresh_token'')"

section \<open>Invariant of the cache\<close>

text \<open>
  One entry per key id, each for a key published under that id for the supported algorithm.
\<close>

definition jwks_inv :: "'m jwks_state \<Rightarrow> bool" where
  "jwks_inv st \<longleftrightarrow>
     distinct (map fst (jwksCache st)) \<and>
     (\<forall>(kid, e) \<in> set (jwksCache st).
        jwk_kid (ck_key e) = StringClaim kid \<and> normalize_jwk_algorithm (ck_key e) = Some (ck_alg e))"

lemma prune_inv: "jwks_inv st \<Longrightarrow> jwks_inv (prune_expired_jwks_entries now st)"
  by (auto simp: jwks_inv_def prune_expired_jwks_entries_def distinct_map inj_on_def)

lemma set_update_subset: "set (AList.update k v xs) \<subseteq> insert (k, v) (set xs)"
  by (induction xs) auto

lemma observe_key_inv: "jwks_inv st \<Longrightarrow> jwks_inv (observe_key now key st)"
  using set_update_subset
  by (fastforce simp: jwks_inv_def observe_key_def distinct_update split: option.splits claim.splits)

lemma foldl_inv: "(\<And>s x. I s \<Longrightarrow> I (f s x)) \<Longrightarrow> I s \<Longrightarrow> I (foldl f s xs)"
  by (induction xs arbitrary: s) auto

lemma refresh_inv: "jwks_inv st \<Longrightarrow> jwks_inv (fst (refresh_jwks_cache response now st))"
proof -
  assume inv: "jwks_inv st"
  have "jwks_inv (foldl (\<lambda>s k. observe_key now k s) st ks)" for ks
    by (rule foldl_inv [of jwks_inv]) (auto intro: observe_key_inv inv)
  then have "jwks_inv (prune_expired_jwks_entries now
      ((foldl (\<lambda>s k. observe_key now k s) st ks)\<lparr>lastJwksFetchAt := now\<rparr>))" for ks
    by (intro prune_inv) (simp add: jwks_inv_def)
  with inv show ?thesis
    by (auto simp: refresh_jwks_cache_def Let_def split: jwks_response.splits sum.splits)
qed

lemma resolve_inv: "jwks_inv st \<Longrightarrow> jwks_inv (fst (resolve_refresh_token_jwk env url kid st))"
  using prune_inv [of st "je_now env"] refresh_inv [of "prune_expired_jwks_entries (je_now env) st"]
  by (auto simp: resolve_refresh_token_jwk_def Let_def case_prod_beta)

lemma validate_inv: "jwks_inv st \<Longrightarrow> jwks_inv (fst (validate_refresh_token env token st))"
  using resolve_inv [of st env "jwks_url env"]
  by (auto simp: validate_refresh_token_def case_prod_beta split: sum.splits)

text \<open>The cache over any sequence of validations, each with its own time, network and token.\<close>

definition validate_step ::
  "'m jwks_state \<Rightarrow> ('m, 'p) jwt_env \<times> string option \<Rightarrow> 'm jwks_state option" where
  "validate_step st call = Some (fst (validate_refresh_token (fst call) (snd call) st))"

interpretation jwks: machine validate_step jwks_start jwks_inv
  by unfold_locales (auto simp: validate_step_def jwks_start_def jwks_inv_def [of jwks_start]
      jwks_inv_def [of "\<lparr>jwksCache = [], lastJwksFetchAt = 0\<rparr>"] intro: validate_inv)

section \<open>Resolution: lemmas\<close>

lemma map_of_prune:
  assumes "jwks_inv st"
  shows "map_of (jwksCache (prune_expired_jwks_entries now st)) kid =
    (case map_of (jwksCache st) kid of
       Some e \<Rightarrow> if now - ck_observedAt e > jwks_retention_ms then None else Some e
     | None \<Rightarrow> None)"
proof -
  have "distinct (map fst xs) \<Longrightarrow> map_of (filter (\<lambda>(k, e). P e) xs) kid =
      (case map_of xs kid of Some e \<Rightarrow> if P e then Some e else None | None \<Rightarrow> None)" for P and xs :: "(string \<times> 'b) list"
    by (induction xs) (auto split: option.splits simp: map_of_eq_None_iff image_iff)
  from this [of "jwksCache st" "\<lambda>e. \<not> now - ck_observedAt e > jwks_retention_ms"] assms show ?thesis
    by (auto simp: prune_expired_jwks_entries_def jwks_inv_def split: option.splits)
qed

definition within_retention :: "int \<Rightarrow> 'm jwks_state \<Rightarrow> bool" where
  "within_retention now st \<longleftrightarrow>
     (\<forall>(kid, e) \<in> set (jwksCache st). now - ck_observedAt e \<le> jwks_retention_ms)"

lemma prune_within: "within_retention now (prune_expired_jwks_entries now st)"
  by (auto simp: within_retention_def prune_expired_jwks_entries_def)

lemma refresh_within:
  "within_retention now st \<Longrightarrow> within_retention now (fst (refresh_jwks_cache response now st))"
  by (auto simp: refresh_jwks_cache_def Let_def prune_within split: jwks_response.splits sum.splits)

text \<open>
  A key the service published in the answer of one validation: the response was read, its list holds the key, under a key id
  and for the supported algorithm.
\<close>

definition publishes :: "('m, 'p) jwt_env \<Rightarrow> string \<Rightarrow> 'm jwk \<Rightarrow> bool" where
  "publishes env kid k \<longleftrightarrow>
     (\<exists>ks. je_fetch env (jwks_url env) = Response True (Inr (Some ks)) \<and> Some k \<in> set ks) \<and>
     jwk_kid k = StringClaim kid \<and> normalize_jwk_algorithm k = Some EdDSA"

lemma observed_entries:
  "(kid, e) \<in> set (jwksCache (foldl (\<lambda>s k. observe_key now k s) st ks)) \<Longrightarrow>
   (kid, e) \<in> set (jwksCache st) \<or>
   ck_observedAt e = now \<and> Some (ck_key e) \<in> set ks \<and> jwk_kid (ck_key e) = StringClaim kid \<and> normalize_jwk_algorithm (ck_key e) = Some EdDSA"
proof (induction ks arbitrary: st)
  case (Cons k ks)
  have one: "(kid, e) \<in> set (jwksCache (observe_key now k st)) \<Longrightarrow>
      (kid, e) \<in> set (jwksCache st) \<or>
      ck_observedAt e = now \<and> Some (ck_key e) = k \<and> jwk_kid (ck_key e) = StringClaim kid \<and> normalize_jwk_algorithm (ck_key e) = Some EdDSA"
    using set_update_subset
    by (cases "ck_alg e") (fastforce simp: observe_key_def normalize_jwk_algorithm_def split: option.splits claim.splits if_splits)
  from Cons.IH [of "observe_key now k st"] Cons.prems one show ?case by auto
qed simp

lemma refreshed_entries:
  assumes "(kid, e) \<in> set (jwksCache (fst (refresh_jwks_cache (je_fetch env (jwks_url env)) (je_now env) st)))"
  shows "(kid, e) \<in> set (jwksCache st) \<or> ck_observedAt e = je_now env \<and> publishes env kid (ck_key e)"
proof (cases "je_fetch env (jwks_url env)")
  case (Response isOk body)
  show ?thesis
  proof (cases "isOk \<and> \<not> isl body")
    case True
    then obtain keys where body: "body = Inr keys" by (cases body) auto
    with True Response assms have "(kid, e) \<in> set (jwksCache (foldl (\<lambda>s k. observe_key (je_now env) k s) st
        (case keys of Some ks \<Rightarrow> ks | None \<Rightarrow> [])))"
      by (auto simp: refresh_jwks_cache_def prune_expired_jwks_entries_def Let_def)
    with observed_entries [OF this] Response True body show ?thesis by (cases keys) (auto simp: publishes_def)
  next
    case False
    then show ?thesis using assms Response by (auto simp: refresh_jwks_cache_def split: if_splits sum.splits)
  qed
qed (use assms in \<open>simp add: refresh_jwks_cache_def\<close>)

lemma resolved_entry:
  assumes "resolve_refresh_token_jwk env (jwks_url env) kid st = (st', fetched, Inr e)"
  shows "((kid, e) \<in> set (jwksCache st) \<or> ck_observedAt e = je_now env \<and> publishes env kid (ck_key e)) \<and>
    je_now env - ck_observedAt e \<le> jwks_retention_ms"
proof -
  let ?st1 = "prune_expired_jwks_entries (je_now env) st"
  let ?st2 = "fst (refresh_jwks_cache (je_fetch env (jwks_url env)) (je_now env) ?st1)"
  have ok: "within_retention (je_now env) ?st1" "within_retention (je_now env) ?st2"
    using prune_within refresh_within by blast+
  have "map_of (jwksCache ?st1) kid = Some e \<or> map_of (jwksCache ?st2) kid = Some e"
    using assms by (auto simp: resolve_refresh_token_jwk_def Let_def case_prod_beta split: if_splits option.splits)
  then have e: "(kid, e) \<in> set (jwksCache ?st1) \<or> (kid, e) \<in> set (jwksCache ?st2)"
    by (auto dest: map_of_SomeD)
  moreover have "(kid, e) \<in> set (jwksCache ?st1) \<Longrightarrow> (kid, e) \<in> set (jwksCache st)"
    by (simp add: prune_expired_jwks_entries_def)
  ultimately show ?thesis using ok refreshed_entries [of kid e env ?st1] by (auto simp: within_retention_def)
qed

lemma validated_entries:
  assumes "(kid, e) \<in> set (jwksCache (fst (validate_refresh_token env token st)))"
  shows "(kid, e) \<in> set (jwksCache st) \<or> ck_observedAt e = je_now env \<and> publishes env kid (ck_key e)"
proof -
  have prune: "x \<in> set (jwksCache (prune_expired_jwks_entries (je_now env) st)) \<Longrightarrow> x \<in> set (jwksCache st)" for x
    by (simp add: prune_expired_jwks_entries_def)
  have "(kid, e) \<in> set (jwksCache (fst (resolve_refresh_token_jwk env (jwks_url env) k st))) \<Longrightarrow> ?thesis" for k
    using prune refreshed_entries [of kid e env "prune_expired_jwks_entries (je_now env) st"]
    by (auto simp: resolve_refresh_token_jwk_def Let_def case_prod_beta split: if_splits)
  with assms show ?thesis by (auto simp: validate_refresh_token_def case_prod_beta split: if_splits sum.splits)
qed

text \<open>Every key in the cache was published to one of the calls so far, at the time it is noted with.\<close>

lemma cached_were_published:
  "exec validate_step jwks_start calls = Some st \<Longrightarrow> (kid, e) \<in> set (jwksCache st) \<Longrightarrow>
    \<exists>call\<in>set calls. ck_observedAt e = je_now (fst call) \<and> publishes (fst call) kid (ck_key e)"
proof (induction calls arbitrary: st rule: rev_induct)
  case Nil
  then show ?case by (auto simp: jwks_start_def)
next
  case (snoc call calls)
  then obtain st0 where st0: "exec validate_step jwks_start calls = Some st0" "validate_step st0 call = Some st"
    by (auto simp: exec_append split: option.splits)
  then have "st = fst (validate_refresh_token (fst call) (snd call) st0)" by (simp add: validate_step_def)
  with snoc.prems(2) validated_entries snoc.IH [OF st0(1)] show ?case by fastforce
qed

section \<open>Properties\<close>

text \<open>
  C5: After any sequence of validations, each with its own time, network and token, a refresh token is accepted only when its
  header names EdDSA and a key id, and jose verified it with a key that the key service published under that very id for that
  algorithm in the answer to one of these validations, at most eight days ago; its type is \<open>refresh\<close>, its session id a
  string and its generation a number.
\<close>
theorem refresh_token_valid_sound:
  assumes "exec validate_step jwks_start calls = Some st" and "validate_refresh_token env token st = (st', Valid payload)"
  shows "\<exists>t header kid k publisher publicKey. token = Some t \<and> t \<noteq> [] \<and>
    je_decode_header env t = Inr header \<and> jh_alg header = Some ''EdDSA'' \<and> jh_kid header = Some kid \<and>
    publisher \<in> insert env (fst ` set calls) \<and> publishes publisher kid k \<and> je_now env - je_now publisher \<le> jwks_retention_ms \<and>
    je_import_jwk env k ''EdDSA'' = Inr publicKey \<and>
    je_jwt_verify env t publicKey ''EdDSA'' = Inr payload \<and>
    jp_token_type payload = StringClaim ''refresh'' \<and>
    (\<exists>s. jp_sid payload = StringClaim s) \<and> (\<exists>g. jp_gen payload = NumberClaim g)"
proof -
  from assms(2) obtain t header where t: "token = Some t" "t \<noteq> []" "je_decode_header env t = Inr header"
    by (auto simp: validate_refresh_token_def falsy_def split: if_splits sum.splits)
  with assms(2) obtain kid where h: "jh_alg header = Some ''EdDSA''" "jh_kid header = Some kid"
    by (cases "jh_alg header"; cases "jh_kid header")
      (auto simp: validate_refresh_token_def falsy_def is_supported_algorithm_def split: if_splits)
  with assms(2) t obtain f e where
    r: "resolve_refresh_token_jwk env (jwks_url env) kid st = (st', f, Inr e)"
    and v: "verify_with_key env t ''EdDSA'' e = Valid payload"
    by (auto simp: validate_refresh_token_def falsy_def is_supported_algorithm_def
        split: if_splits prod.splits sum.splits)
  from v obtain publicKey where verified:
    "je_import_jwk env (ck_key e) ''EdDSA'' = Inr publicKey" "je_jwt_verify env t publicKey ''EdDSA'' = Inr payload"
    "jp_token_type payload = StringClaim ''refresh''"
    "\<exists>s. jp_sid payload = StringClaim s" "\<exists>g. jp_gen payload = NumberClaim g"
    by (auto simp: verify_with_key_def split: if_splits sum.splits claim.splits)
  note found = resolved_entry [OF r]
  obtain publisher where
    "publisher \<in> insert env (fst ` set calls)" "publishes publisher kid (ck_key e)" "je_now env - je_now publisher \<le> jwks_retention_ms"
  proof (cases "(kid, e) \<in> set (jwksCache st)")
    case True
    with cached_were_published [OF assms(1)] found that show ?thesis by (metis imageI insertI2)
  next
    case False
    with found that [of env] show ?thesis by simp
  qed
  then show ?thesis using t h verified
    by - (rule exI [of _ t], rule exI [of _ header], rule exI [of _ kid], rule exI [of _ "ck_key e"],
        rule exI [of _ publisher], rule exI [of _ publicKey], simp)
qed

text \<open>A network that answers with one key, and tokens whose header is the key id.\<close>

definition example_jwk :: "unit jwk" where
  "example_jwk = \<lparr>jwk_kid = StringClaim ''k1'', jwk_alg = AbsentClaim, jwk_kty = StringClaim ''OKP'',
                  jwk_crv = StringClaim ''Ed25519'', jwk_material = ()\<rparr>"

definition example_payload :: jwt_payload where
  "example_payload = \<lparr>jp_token_type = StringClaim ''refresh'', jp_sid = StringClaim ''s'', jp_gen = NumberClaim 1,
                      jp_sub = StringClaim ''u''\<rparr>"

definition example_jwt_env :: "int \<Rightarrow> unit jwks_response \<Rightarrow> (unit, unit) jwt_env" where
  "example_jwt_env now response =
     \<lparr>je_now = now, je_auth_service_jwks_url = None, je_next_public_auth_jwks_url = None, je_fetch = (\<lambda>_. response),
      je_decode_header = (\<lambda>t. Inr \<lparr>jh_alg = Some ''EdDSA'', jh_kid = Some t\<rparr>),
      je_import_jwk = (\<lambda>_ _. Inr ()), je_jwt_verify = (\<lambda>_ _ _. Inr example_payload)\<rparr>"

definition example_jwks :: "unit jwks_response" where
  "example_jwks = Response True (Inr (Some [None, Some example_jwk]))"

text \<open>The key is published at the first validation and still accepted two hours later, when the service does not answer.\<close>

definition example_outage :: "unit jwks_response" where
  "example_outage = Response False (Inl NonError)"

theorem refresh_token_valid_sound_witness:
  "\<exists>st st'. exec validate_step jwks_start [(example_jwt_env (10 ^ 12) example_jwks, Some ''k1'')] = Some st \<and>
     validate_refresh_token (example_jwt_env (10 ^ 12 + 7200000) example_outage) (Some ''k1'') st = (st', Valid example_payload) \<and>
     jp_token_type example_payload = StringClaim ''refresh''"
proof -
  let ?call = "(example_jwt_env (10 ^ 12) example_jwks, Some ''k1'')" and ?env = "example_jwt_env (10 ^ 12 + 7200000) example_outage"
  define st where "st = fst (validate_refresh_token (fst ?call) (snd ?call) jwks_start)"
  have run: "exec validate_step jwks_start [?call] = Some st" by (simp add: validate_step_def st_def)
  have "snd (validate_refresh_token ?env (Some ''k1'') st) = Valid example_payload" unfolding st_def by code_simp
  then obtain st' where valid: "validate_refresh_token ?env (Some ''k1'') st = (st', Valid example_payload)" by (metis prod.collapse)
  from refresh_token_valid_sound [OF run valid] run valid show ?thesis by blast
qed

text \<open>What a fetch comes to: its list of keys, or nothing when it throws, is refused or its body cannot be read.\<close>

definition fetched_keys :: "'m jwks_response \<Rightarrow> 'm jwk option list option" where
  "fetched_keys response =
     (case response of
        FetchThrew _ \<Rightarrow> None
      | Response isOk body \<Rightarrow> (case body of Inl _ \<Rightarrow> None
          | Inr keys \<Rightarrow> if isOk then Some (case keys of Some ks \<Rightarrow> ks | None \<Rightarrow> []) else None))"

text \<open>The key of a list that counts for a key id: the last one under it with the supported algorithm.\<close>

definition usable_key :: "string \<Rightarrow> 'm jwk \<Rightarrow> bool" where
  "usable_key kid k \<longleftrightarrow> jwk_kid k = StringClaim kid \<and> normalize_jwk_algorithm k = Some EdDSA"

definition published_key :: "string \<Rightarrow> 'm jwk option list \<Rightarrow> 'm jwk option" where
  "published_key kid ks =
     (let usable = filter (usable_key kid) (concat (map (case_option [] (\<lambda>k. [k])) ks))
      in if usable = [] then None else Some (last usable))"

lemma normalize_EdDSA: "normalize_jwk_algorithm k = Some a \<longleftrightarrow> normalize_jwk_algorithm k = Some EdDSA"
  by (cases a) simp

lemma observed_key:
  "map_of (jwksCache (foldl (\<lambda>s k. observe_key now k s) st ks)) kid =
    (case published_key kid ks of
       Some k \<Rightarrow> Some \<lparr>ck_key = k, ck_alg = EdDSA, ck_observedAt = now\<rparr>
     | None \<Rightarrow> map_of (jwksCache st) kid)"
proof (induction ks rule: rev_induct)
  case (snoc x xs)
  show ?case
  proof (cases "\<exists>k. x = Some k \<and> usable_key kid k")
    case True
    then show ?thesis by (auto simp: observe_key_def usable_key_def published_key_def update_conv' Let_def split: if_splits)
  next
    case False
    then have "map_of (jwksCache (observe_key now x st)) kid = map_of (jwksCache st) kid" for st :: "'a jwks_state"
      using normalize_EdDSA by (fastforce simp: observe_key_def usable_key_def update_conv' split: option.splits claim.splits)
    moreover have "published_key kid (xs @ [x]) = published_key kid xs"
      using False by (cases x) (auto simp: published_key_def)
    ultimately show ?thesis using snoc by simp
  qed
qed (simp add: published_key_def)

lemma map_of_recent:
  "within_retention now st \<Longrightarrow> map_of (jwksCache (prune_expired_jwks_entries now (st\<lparr>lastJwksFetchAt := t\<rparr>))) kid = map_of (jwksCache st) kid"
  by (auto simp: within_retention_def prune_expired_jwks_entries_def intro!: arg_cong [of _ _ "\<lambda>xs. map_of xs kid"] filter_True)

lemma observed_within:
  "within_retention now st \<Longrightarrow> within_retention now (foldl (\<lambda>s k. observe_key now k s) st ks)"
proof (rule foldl_inv [of "within_retention now"])
  fix s :: "'a jwks_state" and k assume "within_retention now s"
  then show "within_retention now (observe_key now k s)"
    using set_update_subset
    by (fastforce simp: within_retention_def observe_key_def jwks_retention_ms_def split: option.splits claim.splits)
qed

lemma refreshed_lookup:
  assumes "within_retention now st"
  shows "refresh_jwks_cache response now st = (st2, ok) \<Longrightarrow>
    (case fetched_keys response of
       None \<Rightarrow> st2 = st \<and> \<not> ok
     | Some ks \<Rightarrow> ok \<and> lastJwksFetchAt st2 = now \<and> (\<forall>kid. map_of (jwksCache st2) kid =
         (case published_key kid ks of
            Some k \<Rightarrow> Some \<lparr>ck_key = k, ck_alg = EdDSA, ck_observedAt = now\<rparr>
          | None \<Rightarrow> map_of (jwksCache st) kid)))"
  using map_of_recent [OF observed_within [OF assms]] observed_key [of now st]
  by (auto simp: refresh_jwks_cache_def fetched_keys_def prune_expired_jwks_entries_def [of _ "lastJwksFetchAt_update _ _"]
      Let_def split: jwks_response.splits sum.splits if_splits)

text \<open>The entry of the cache that is not too old.\<close>

definition recent_entry :: "int \<Rightarrow> 'm jwks_state \<Rightarrow> string \<Rightarrow> 'm cached_jwk_entry option" where
  "recent_entry now st kid =
     (case map_of (jwksCache st) kid of
        Some e \<Rightarrow> if now - ck_observedAt e \<le> jwks_retention_ms then Some e else None | None \<Rightarrow> None)"

text \<open>
  C24: The keys are fetched exactly for a key id that is not cached from the last eight days or when the last successful fetch is
  at least an hour old; otherwise the cached key is the answer. A fetch that succeeds gives the last usable key listed under the id,
  or else the cached one, and counts as the last fetch; without either the token is invalid. A fetch that throws, is refused or has
  a body that cannot be read leaves every recent key in the cache and does not count: the cached key is still used, and without one
  the reason is \<open>jwks-fetch-failed\<close>.
\<close>
theorem jwks_cache_use:
  assumes "exec validate_step jwks_start calls = Some st" and "resolve_refresh_token_jwk env url kid st = (st', fetched, r)"
  shows "(\<not> fetched \<longleftrightarrow> recent_entry (je_now env) st kid \<noteq> None \<and> je_now env - lastJwksFetchAt st < jwks_refresh_interval_ms) \<and>
    (if \<not> fetched then r = Inr (the (recent_entry (je_now env) st kid))
     else case fetched_keys (je_fetch env url) of
       Some ks \<Rightarrow>
         lastJwksFetchAt st' = je_now env \<and>
         r = (case published_key kid ks of
                Some k \<Rightarrow> Inr \<lparr>ck_key = k, ck_alg = EdDSA, ck_observedAt = je_now env\<rparr>
              | None \<Rightarrow> (case recent_entry (je_now env) st kid of Some e \<Rightarrow> Inr e | None \<Rightarrow> Inl InvalidToken))
     | None \<Rightarrow>
         lastJwksFetchAt st' = lastJwksFetchAt st \<and>
         (\<forall>k. map_of (jwksCache st') k = recent_entry (je_now env) st k) \<and>
         r = (case recent_entry (je_now env) st kid of Some e \<Rightarrow> Inr e | None \<Rightarrow> Inl JwksFetchFailed))"
proof -
  let ?st1 = "prune_expired_jwks_entries (je_now env) st"
  have inv: "jwks_inv st" by (rule jwks.inv_exec [OF assms(1)])
  have c: "map_of (jwksCache ?st1) k = recent_entry (je_now env) st k" for k
    using map_of_prune [OF inv, of "je_now env" k] by (auto simp: recent_entry_def split: option.splits)
  have l: "lastJwksFetchAt ?st1 = lastJwksFetchAt st" by (simp add: prune_expired_jwks_entries_def)
  obtain st2 ok where f: "refresh_jwks_cache (je_fetch env url) (je_now env) ?st1 = (st2, ok)" by fastforce
  note refreshed = refreshed_lookup [OF prune_within f, unfolded c]
  show ?thesis
  proof (cases "fetched_keys (je_fetch env url)")
    case None
    with refreshed have same: "st2 = ?st1" "\<not> ok" by simp_all
    from assms(2) None show ?thesis unfolding resolve_refresh_token_jwk_def Let_def f same(1)
      by (auto simp: c l same(2) split: if_splits option.splits)
  next
    case (Some ks)
    with refreshed have lookup: "ok" "lastJwksFetchAt st2 = je_now env" "map_of (jwksCache st2) kid =
        (case published_key kid ks of
            Some k \<Rightarrow> Some \<lparr>ck_key = k, ck_alg = EdDSA, ck_observedAt = je_now env\<rparr>
          | None \<Rightarrow> recent_entry (je_now env) st kid)" by simp_all
    from assms(2) Some lookup show ?thesis unfolding resolve_refresh_token_jwk_def Let_def f c l
      by (auto split: if_splits option.splits)
  qed
qed

theorem jwks_cache_use_witness:
  "\<exists>st st' e. exec validate_step jwks_start [(example_jwt_env (10 ^ 12) example_jwks, Some ''k1'')] = Some st \<and>
     resolve_refresh_token_jwk (example_jwt_env (10 ^ 12 + 7200000) (FetchThrew NonError)) [] ''k1'' st = (st', True, Inr e) \<and>
     map_of (jwksCache st) ''k1'' = Some e \<and> map_of (jwksCache st') ''k1'' = Some e"
proof -
  let ?call = "(example_jwt_env (10 ^ 12) example_jwks, Some ''k1'')" and ?env = "example_jwt_env (10 ^ 12 + 7200000) (FetchThrew NonError)"
  define st where "st = fst (validate_refresh_token (fst ?call) (snd ?call) jwks_start)"
  define e :: "unit cached_jwk_entry" where "e = \<lparr>ck_key = example_jwk, ck_alg = EdDSA, ck_observedAt = 10 ^ 12\<rparr>"
  have run: "exec validate_step jwks_start [?call] = Some st" by (simp add: validate_step_def st_def)
  have cached: "map_of (jwksCache st) ''k1'' = Some e" and last: "lastJwksFetchAt st = 10 ^ 12"
    unfolding st_def e_def by code_simp+
  obtain st' fetched r where res: "resolve_refresh_token_jwk ?env [] ''k1'' st = (st', fetched, r)"
    by (metis prod.exhaust)
  have now: "je_now ?env = 10 ^ 12 + 7200000" "fetched_keys (je_fetch ?env []) = None"
    by (simp_all add: example_jwt_env_def fetched_keys_def)
  have recent: "recent_entry (je_now ?env) st ''k1'' = Some e"
    unfolding now by (simp add: recent_entry_def cached jwks_retention_ms_def) (simp add: e_def)
  have "fetched \<and> r = Inr e \<and> map_of (jwksCache st') ''k1'' = Some e"
    using jwks_cache_use [OF run res] recent [unfolded now]
    unfolding last now by (auto simp: jwks_refresh_interval_ms_def)
  with res have "resolve_refresh_token_jwk ?env [] ''k1'' st = (st', True, Inr e) \<and> map_of (jwksCache st') ''k1'' = Some e" by simp
  with run cached show ?thesis by blast
qed

text \<open>
  The access token counts as fresh exactly when it has a payload segment whose \<open>exp\<close> lies more than the skew in the
  future. An \<open>exp\<close> that is no number but truthy also counts as fresh, since every comparison with \<open>NaN\<close>
  is false.
\<close>
theorem access_token_fresh_iff:
  "\<not> is_access_token_expired_or_missing payload_exp nowMs token skew \<longleftrightarrow>
     (\<exists>header payload rest. \<not> falsy token \<and> split_char (CHR ''.'') (the token) = header # payload # rest \<and>
        payload \<noteq> [] \<and>
        (payload_exp payload = ExpNaN \<or> (\<exists>e. payload_exp payload = ExpNumber e \<and> nowMs / 1000 + skew < e)))"
  by (auto simp: is_access_token_expired_or_missing_def not_le algebra_simps
      split: list.splits exp_value.splits)

end
