(* ===== verification/AuthProxy.thy ===== *)
theory AuthProxy
  imports ServerJwt
begin

text \<open>
  The web server in front of the services: the middleware that guards every page
  (web/src/proxy.ts), the sign-in, sign-up and sign-out actions (web/src/actions/auth.ts), the
  cross-site check (web/src/lib/csrf.ts), the RPC proxy (web/src/lib/create-rpc-proxy.ts), the
  thumbnail route (web/src/app/api/thumbnails) and what the client derives from them
  (web/src/lib/auth-context.tsx).

  The outcomes of RPCs and of \<open>fetch\<close> are arguments. Headers and cookies are the maps of the
  platform: a header name is kept in lower case.
\<close>

section \<open>Cookies\<close>

record auth_tokens =
  at_accessToken :: string
  at_refreshToken :: string

record cookie =
  co_name :: string
  co_value :: string
  co_httpOnly :: bool
  co_secure :: bool
  co_sameSite :: string
  co_path :: string
  co_maxAge :: int

datatype cookie_op = SetCookie cookie | DeleteCookie string

definition refresh_cookie :: "bool \<Rightarrow> string \<Rightarrow> cookie" where
  "refresh_cookie production value =
     \<lparr>co_name = refresh_token_cookie_name production, co_value = value, co_httpOnly = True,
      co_secure = production, co_sameSite = ''strict'', co_path = ''/'', co_maxAge = 7 * 24 * 60 * 60\<rparr>"

definition access_cookie :: "bool \<Rightarrow> string \<Rightarrow> cookie" where
  "access_cookie production value =
     \<lparr>co_name = access_token_cookie_name production, co_value = value, co_httpOnly = True,
      co_secure = production, co_sameSite = ''strict'', co_path = ''/'', co_maxAge = 15 * 60\<rparr>"

section \<open>The middleware\<close>

text \<open>\<open>refreshRequests\<close>: the token of each request in flight and the request's number; \<open>rf_sent\<close> is the history.\<close>

record refresh_state =
  rf_requests :: "(string \<times> nat) list"
  rf_sent :: "string list"

definition refresh_start :: refresh_state where
  "refresh_start = \<lparr>rf_requests = [], rf_sent = []\<rparr>"

definition refresh_tokens :: "refresh_state \<Rightarrow> string \<Rightarrow> refresh_state \<times> nat" where
  "refresh_tokens st refreshToken =
     (case map_of (rf_requests st) refreshToken of
        Some existing \<Rightarrow> (st, existing)
      | None \<Rightarrow>
          let request = length (rf_sent st)
          in (st\<lparr>rf_sent := rf_sent st @ [refreshToken],
                 rf_requests := AList.update refreshToken request (rf_requests st)\<rparr>, request))"

definition refresh_settled :: "refresh_state \<Rightarrow> string \<Rightarrow> refresh_state" where
  "refresh_settled st refreshToken = st\<lparr>rf_requests := AList.delete refreshToken (rf_requests st)\<rparr>"

interpretation web_refresh: single_flight "\<lambda>st. map_of (rf_requests st)" refresh_tokens refresh_settled rf_sent
  by unfold_locales
    (auto simp: refresh_tokens_def refresh_settled_def Let_def update_conv' delete_conv')

datatype middleware_response =
    NextResponse "cookie_op list"
  | RedirectResponse string "cookie_op list"

definition redirect_to_login :: "bool \<Rightarrow> middleware_response" where
  "redirect_to_login production =
     RedirectResponse ''/sign-in''
       [DeleteCookie (refresh_token_cookie_name production), DeleteCookie (access_token_cookie_name production)]"

definition proxy_set_auth_cookies :: "bool \<Rightarrow> auth_tokens \<Rightarrow> cookie_op list" where
  "proxy_set_auth_cookies production t =
     [SetCookie (refresh_cookie production (at_refreshToken t)),
      SetCookie (access_cookie production (at_accessToken t))]"

text \<open>
  One request: its cookies, the outcome of the shared refresh and of the retry. The middle component lists
  the refresh tokens the middleware presented, in order.
\<close>

definition proxy ::
  "bool \<Rightarrow> ('m, 'p) jwt_env \<Rightarrow> (string \<Rightarrow> exp_value) \<Rightarrow> (string \<Rightarrow> js_error + auth_tokens) \<Rightarrow>
   (string \<Rightarrow> js_error + auth_tokens) \<Rightarrow> (string \<Rightarrow> string option) \<Rightarrow> 'm jwks_state \<Rightarrow>
   'm jwks_state \<times> string list \<times> middleware_response" where
  "proxy production env payload_exp refresh retry cookies st =
     (let refreshToken = cookies (refresh_token_cookie_name production);
          (st', validation) = validate_refresh_token env refreshToken st
      in if falsy refreshToken \<or> (case validation of Valid _ \<Rightarrow> False | Invalid _ \<Rightarrow> True)
         then (st', [], redirect_to_login production)
         else let accessToken = cookies (access_token_cookie_name production); rt = the refreshToken
              in if \<not> is_access_token_expired_or_missing payload_exp (of_int (je_now env)) accessToken
                        default_skew_seconds
                 then (st', [], NextResponse [])
                 else case refresh rt of
                   Inr t \<Rightarrow> (st', [rt], NextResponse (proxy_set_auth_cookies production t))
                 | Inl _ \<Rightarrow>
                     (case retry rt of
                        Inr t \<Rightarrow> (st', [rt, rt], NextResponse (proxy_set_auth_cookies production t))
                      | Inl _ \<Rightarrow> (st', [rt, rt], redirect_to_login production)))"

text \<open>The paths the middleware runs on: a slash not followed by one of the public prefixes.\<close>

definition proxy_matcher :: "string \<Rightarrow> bool" where
  "proxy_matcher path \<longleftrightarrow>
     (case path of
        [] \<Rightarrow> False
      | c # rest \<Rightarrow> c = CHR ''/'' \<and>
          list_all (\<lambda>p. \<not> starts_with rest p)
            [''api/auth'', ''_next/static'', ''_next/image'', ''favicon.ico'', ''sign-in'', ''sign-up''])"

section \<open>Actions\<close>

text \<open>\<open>urlHost\<close> is \<open>new URL(origin).host\<close>, which throws on a malformed URL.\<close>

definition csrf_error :: js_error where
  "csrf_error = JsError ''CSRF validation failed''"

definition assert_same_origin_request ::
  "(string \<Rightarrow> js_error + string) \<Rightarrow> (string \<Rightarrow> string option) \<Rightarrow> js_error option" where
  "assert_same_origin_request urlHost headers =
     (let origin = headers ''origin''; host = headers ''host''
      in if falsy origin \<or> falsy host then Some csrf_error
         else case urlHost (the origin) of
           Inl e \<Rightarrow> Some e
         | Inr originHost \<Rightarrow>
             if originHost \<noteq> the host then Some csrf_error
             else let fetchSite = headers ''sec-fetch-site''
                  in if \<not> falsy fetchSite \<and> fetchSite \<noteq> Some ''same-origin'' \<and> fetchSite \<noteq> Some ''same-site''
                     then Some csrf_error else None)"

record auth_profile =
  ap_userId :: string
  ap_name :: string
  ap_email :: string

datatype auth_event =
    LoginRpc string string
  | RegisterRpc string string string
  | LogoutRpc string
  | CookieOp cookie_op

definition set_auth_cookies :: "bool \<Rightarrow> auth_tokens \<Rightarrow> auth_event list" where
  "set_auth_cookies production t =
     [CookieOp (SetCookie (access_cookie production (at_accessToken t))),
      CookieOp (SetCookie (refresh_cookie production (at_refreshToken t)))]"

definition clear_auth_cookies :: "bool \<Rightarrow> auth_event list" where
  "clear_auth_cookies production =
     [CookieOp (DeleteCookie (access_token_cookie_name production)),
      CookieOp (DeleteCookie (refresh_token_cookie_name production))]"

definition login_action ::
  "bool \<Rightarrow> js_error option \<Rightarrow> (string \<Rightarrow> string \<Rightarrow> js_error + auth_tokens \<times> auth_profile) \<Rightarrow>
   string \<Rightarrow> string \<Rightarrow> auth_event list \<times> (js_error + auth_profile)" where
  "login_action production csrf login email password =
     (case csrf of
        Some e \<Rightarrow> ([], Inl e)
      | None \<Rightarrow>
          (case login email password of
             Inl e \<Rightarrow> ([LoginRpc email password], Inl e)
           | Inr (t, profile) \<Rightarrow> (LoginRpc email password # set_auth_cookies production t, Inr profile)))"

definition register_action ::
  "bool \<Rightarrow> js_error option \<Rightarrow> (string \<Rightarrow> string \<Rightarrow> string \<Rightarrow> js_error + auth_tokens \<times> auth_profile) \<Rightarrow>
   string \<Rightarrow> string \<Rightarrow> string \<Rightarrow> auth_event list \<times> (js_error + auth_profile)" where
  "register_action production csrf register name email password =
     (case csrf of
        Some e \<Rightarrow> ([], Inl e)
      | None \<Rightarrow>
          (case register name email password of
             Inl e \<Rightarrow> ([RegisterRpc name email password], Inl e)
           | Inr (t, profile) \<Rightarrow> (RegisterRpc name email password # set_auth_cookies production t, Inr profile)))"

definition get_current_user_action :: "js_error + auth_profile \<Rightarrow> auth_profile option" where
  "get_current_user_action response = (case response of Inl _ \<Rightarrow> None | Inr profile \<Rightarrow> Some profile)"

definition logout_action ::
  "bool \<Rightarrow> js_error option \<Rightarrow> (string \<Rightarrow> js_error option) \<Rightarrow> (string \<Rightarrow> string option) \<Rightarrow>
   auth_event list \<times> js_error option" where
  "logout_action production csrf logout cookies =
     (case csrf of
        Some e \<Rightarrow> ([], Some e)
      | None \<Rightarrow>
          let refreshToken = cookies (refresh_token_cookie_name production);
              rpc = (if falsy refreshToken then []
                     else case logout (the refreshToken) of
                       None \<Rightarrow> [LogoutRpc (the refreshToken)]
                     | Some error \<Rightarrow> [LogoutRpc (the refreshToken)])
          in (rpc @ clear_auth_cookies production, None))"

section \<open>The RPC proxy\<close>

type_synonym header_map = "(string \<times> string) list"

definition headers_set :: "string \<Rightarrow> string \<Rightarrow> header_map \<Rightarrow> header_map" where
  "headers_set name value hs = AList.update (to_lower name) value hs"

definition headers_delete :: "string \<Rightarrow> header_map \<Rightarrow> header_map" where
  "headers_delete name hs = filter (\<lambda>(n, v). n \<noteq> to_lower name) hs"

record 'b rpc_request =
  rq_method :: string
  rq_pathname :: string
  rq_search :: string
  rq_headers :: header_map
  rq_body :: "'b option"

record 'b upstream_request =
  us_url :: string
  us_method :: string
  us_headers :: header_map
  us_body :: "'b option"

record 'b upstream_response =
  ur_status :: int
  ur_headers :: header_map
  ur_body :: 'b

definition bearer :: "string \<Rightarrow> string" where
  "bearer token = ''Bearer '' @ token"

definition upstream_path :: "string \<Rightarrow> string \<Rightarrow> string" where
  "upstream_path mountPath pathname =
     (let rest = drop (length mountPath) pathname in if rest = [] then ''/'' else rest)"

definition send_headers :: "string option \<Rightarrow> header_map \<Rightarrow> header_map" where
  "send_headers accessToken headers =
     (if falsy accessToken then headers_delete ''Authorization'' headers
      else headers_set ''Authorization'' (bearer (the accessToken)) headers)"

definition rpc_proxy_request ::
  "string \<Rightarrow> string \<Rightarrow> string option \<Rightarrow> 'b rpc_request \<Rightarrow> 'b upstream_request" where
  "rpc_proxy_request upstreamBaseUrl mountPath token request =
     (let headers = headers_delete ''cookie'' (headers_delete ''host'' (rq_headers request));
          headers' = (if falsy token then headers else headers_set ''Authorization'' (bearer (the token)) headers)
      in \<lparr>us_url = upstreamBaseUrl @ upstream_path mountPath (rq_pathname request) @ rq_search request,
          us_method = rq_method request, us_headers = send_headers token headers',
          us_body = (if rq_method request = ''GET'' \<or> rq_method request = ''HEAD'' then None
                     else rq_body request)\<rparr>)"

definition rpc_proxy_response :: "'b upstream_response \<Rightarrow> 'b upstream_response" where
  "rpc_proxy_response r =
     r\<lparr>ur_headers := headers_delete ''connection'' (headers_delete ''transfer-encoding''
        (headers_delete ''content-length'' (headers_delete ''content-encoding'' (ur_headers r))))\<rparr>"

definition rpc_proxy ::
  "string \<Rightarrow> string \<Rightarrow> ('b upstream_request \<Rightarrow> js_error + 'b upstream_response) \<Rightarrow> string option \<Rightarrow>
   'b rpc_request \<Rightarrow> js_error + 'b upstream_response" where
  "rpc_proxy upstreamBaseUrl mountPath fetch token request =
     (case fetch (rpc_proxy_request upstreamBaseUrl mountPath token request) of
        Inl e \<Rightarrow> Inl e
      | Inr r \<Rightarrow> Inr (rpc_proxy_response r))"

text \<open>\<open>bearerInterceptor\<close> of web/src/lib/rpc-server.ts.\<close>

definition bearer_interceptor :: "string option \<Rightarrow> header_map \<Rightarrow> header_map" where
  "bearer_interceptor token hs =
     (if falsy token then hs else headers_set ''Authorization'' (bearer (the token)) hs)"

section \<open>The thumbnail route\<close>

record thumbnail_response =
  th_status :: int
  th_body :: string
  th_headers :: header_map

record thumbnail_upstream =
  tu_ok :: bool
  tu_body :: "string option"
  tu_contentType :: "string option"
  tu_contentLength :: "string option"

datatype thumbnail_call = GetThumbnailURL string string | FetchObject string

definition cache_control :: string where
  "cache_control = ''private, max-age=31536000, immutable''"

definition plain_response :: "int \<Rightarrow> string \<Rightarrow> thumbnail_response" where
  "plain_response status body = \<lparr>th_status = status, th_body = body, th_headers = []\<rparr>"

text \<open>\<open>getThumbnailURL\<close> takes the bearer token and the file id. The value pairs the calls made with the response, or with
  the exception \<open>fetch\<close> throws.\<close>

definition thumbnail_get ::
  "(string \<Rightarrow> string \<Rightarrow> js_error + string) \<Rightarrow> (string \<Rightarrow> js_error + thumbnail_upstream) \<Rightarrow>
   string option \<Rightarrow> string option \<Rightarrow> string option \<Rightarrow> string \<Rightarrow>
   thumbnail_call list \<times> (js_error + thumbnail_response)" where
  "thumbnail_get getThumbnailURL fetch token v ifNoneMatch fileId =
     (if fileId = [] then ([], Inr (plain_response 400 ''missing file id''))
      else if falsy token then ([], Inr (plain_response 401 ''unauthenticated''))
      else let version = (case v of Some s \<Rightarrow> s | None \<Rightarrow> []);
               etag = [CHR 0x22] @ (if version = [] then fileId else version) @ [CHR 0x22];
               rpc = GetThumbnailURL (the token) fileId
           in if version \<noteq> [] \<and> ifNoneMatch = Some etag
              then ([], Inr \<lparr>th_status = 304, th_body = [],
                             th_headers = [(''ETag'', etag), (''Cache-Control'', cache_control)]\<rparr>)
              else case getThumbnailURL (the token) fileId of
                Inl _ \<Rightarrow> ([rpc], Inr (plain_response 404 ''thumbnail unavailable''))
              | Inr objectUrl \<Rightarrow>
                  if objectUrl = [] then ([rpc], Inr (plain_response 404 ''thumbnail not ready''))
                  else case fetch objectUrl of
                    Inl e \<Rightarrow> ([rpc, FetchObject objectUrl], Inl e)
                  | Inr upstream \<Rightarrow>
                      ([rpc, FetchObject objectUrl],
                       Inr (if \<not> tu_ok upstream \<or> tu_body upstream = None
                            then plain_response 502 ''thumbnail fetch failed''
                            else \<lparr>th_status = 200, th_body = the (tu_body upstream),
                                  th_headers =
                                    [(''Content-Type'',
                                      case tu_contentType upstream of Some t \<Rightarrow> t | None \<Rightarrow> ''image/jpeg''),
                                     (''Cache-Control'', cache_control), (''ETag'', etag)] @
                                    (if falsy (tu_contentLength upstream) then []
                                     else [(''Content-Length'', the (tu_contentLength upstream))])\<rparr>)))"

section \<open>The client's view\<close>

text \<open>A query result: \<open>None\<close> is \<open>undefined\<close>, \<open>Some None\<close> is \<open>null\<close>.\<close>

record auth_state =
  as_isAuthenticated :: bool
  as_isLoadingAuth :: bool
  as_currentUser :: "auth_profile option"
  as_isLoadingUser :: bool

definition use_auth :: "auth_profile option option \<Rightarrow> bool \<Rightarrow> bool \<Rightarrow> auth_state" where
  "use_auth data isLoading isFetching =
     \<lparr>as_isAuthenticated = (data \<noteq> Some None \<and> data \<noteq> None), as_isLoadingAuth = isLoading,
      as_currentUser = (case data of Some d \<Rightarrow> d | None \<Rightarrow> None), as_isLoadingUser = isFetching\<rparr>"

section \<open>Lemmas\<close>

lemma map_of_headers_delete:
  "map_of (headers_delete name hs) n = (if n = to_lower name then None else map_of hs n)"
  by (induction hs) (auto simp: headers_delete_def)

lemma map_of_headers_set:
  "map_of (headers_set name value hs) n = (if n = to_lower name then Some value else map_of hs n)"
  by (simp add: headers_set_def update_conv')

lemma to_lower_names [simp]:
  "to_lower ''Authorization'' = ''authorization''" "to_lower ''cookie'' = ''cookie''" "to_lower ''host'' = ''host''"
  "to_lower ''connection'' = ''connection''" "to_lower ''transfer-encoding'' = ''transfer-encoding''"
  "to_lower ''content-length'' = ''content-length''" "to_lower ''content-encoding'' = ''content-encoding''"
  by code_simp+

lemmas map_of_headers = map_of_headers_delete map_of_headers_set

text \<open>The cookies a response or an action writes.\<close>

fun written_cookies :: "middleware_response \<Rightarrow> cookie list" where
  "written_cookies (NextResponse ops) = [c. SetCookie c \<leftarrow> ops]"
| "written_cookies (RedirectResponse _ ops) = [c. SetCookie c \<leftarrow> ops]"

definition action_cookies :: "auth_event list \<Rightarrow> cookie list" where
  "action_cookies evs = [c. CookieOp (SetCookie c) \<leftarrow> evs]"

definition protected :: "bool \<Rightarrow> cookie \<Rightarrow> bool" where
  "protected production c \<longleftrightarrow>
     co_httpOnly c \<and> co_secure c = production \<and> co_sameSite c = ''strict'' \<and> co_path c = ''/'' \<and>
     (starts_with (co_name c) ''__Host-'' \<longleftrightarrow> production)"

lemma protected_cookies [simp]:
  "protected production (refresh_cookie production v)" "protected production (access_cookie production v)"
  by (simp_all add: protected_def refresh_cookie_def access_cookie_def refresh_token_cookie_name_def
      access_token_cookie_name_def starts_with_def)

section \<open>Properties\<close>

text \<open>
  C6: A page is served only with a refresh token that validates: with the cookies untouched while the access token
  is fresh, otherwise with a rotated pair from the shared refresh or from one retry. Everything else
  is a redirect to the sign-in page that deletes both cookies. The refresh token is presented at
  most twice.
\<close>
theorem proxy_outcome:
  assumes "proxy production env payload_exp refresh retry cookies st = (st', presented, resp)"
  shows "case resp of
      NextResponse ops \<Rightarrow>
        (\<exists>rt payload. cookies (refresh_token_cookie_name production) = Some rt \<and> rt \<noteq> [] \<and>
           validate_refresh_token env (Some rt) st = (st', Valid payload) \<and>
           (if is_access_token_expired_or_missing payload_exp (of_int (je_now env))
                 (cookies (access_token_cookie_name production)) default_skew_seconds
            then \<exists>t. ops = proxy_set_auth_cookies production t \<and>
                   (refresh rt = Inr t \<and> presented = [rt] \<or>
                    isl (refresh rt) \<and> retry rt = Inr t \<and> presented = [rt, rt])
            else ops = [] \<and> presented = []))
    | RedirectResponse url ops \<Rightarrow>
        url = ''/sign-in'' \<and>
        ops = [DeleteCookie (refresh_token_cookie_name production),
               DeleteCookie (access_token_cookie_name production)] \<and>
        (presented = [] \<and> (\<nexists>payload. validate_refresh_token env (cookies (refresh_token_cookie_name production)) st =
                                      (st', Valid payload)) \<or>
         (\<exists>rt. presented = [rt, rt] \<and> isl (refresh rt) \<and> isl (retry rt)))"
proof -
  have missing: "\<not> falsy token" if "validate_refresh_token env token st = (st', Valid payload)" for token payload
    using that by (auto simp: validate_refresh_token_def split: if_splits)
  show ?thesis
    using assms missing
    by (auto simp: proxy_def Let_def redirect_to_login_def falsy_def
        split: prod.splits validation_result.splits if_splits sum.splits middleware_response.splits)
qed

definition example_cookies :: "string \<Rightarrow> string option" where
  "example_cookies n = (if n = ''refresh_token'' then Some ''k1'' else None)"

definition example_tokens :: auth_tokens where
  "example_tokens = \<lparr>at_accessToken = ''a2'', at_refreshToken = ''k2''\<rparr>"

theorem proxy_outcome_witness:
  "\<exists>st'. proxy False (example_jwt_env (10 ^ 12) example_jwks) (\<lambda>_. ExpFalsy) (\<lambda>_. Inl NonError)
      (\<lambda>_. Inr example_tokens) example_cookies jwks_start =
     (st', [''k1'', ''k1''], NextResponse (proxy_set_auth_cookies False example_tokens))"
proof -
  let ?run = "proxy False (example_jwt_env (10 ^ 12) example_jwks) (\<lambda>_. ExpFalsy) (\<lambda>_. Inl NonError)
      (\<lambda>_. Inr example_tokens) example_cookies jwks_start"
  obtain st' presented resp where run: "?run = (st', presented, resp)" by (metis prod.exhaust)
  have next_: "(case snd (snd ?run) of NextResponse ops \<Rightarrow> ops \<noteq> [] | _ \<Rightarrow> False)" by code_simp
  have expired: "is_access_token_expired_or_missing (\<lambda>_. ExpFalsy) now None skew" for now skew
    by (simp add: is_access_token_expired_or_missing_def falsy_def)
  have c: "example_cookies (access_token_cookie_name False) = None"
    "example_cookies (refresh_token_cookie_name False) = Some ''k1''"
    by (simp_all add: example_cookies_def access_token_cookie_name_def refresh_token_cookie_name_def)
  from proxy_outcome [OF run] next_ run expired c
  have "resp = NextResponse (proxy_set_auth_cookies False example_tokens) \<and> presented = [''k1'', ''k1'']"
    by (cases resp) auto
  with run show ?thesis by auto
qed

text \<open>
  C17: Concurrent middleware calls share a refresh: between the start of a request for a token and its end every
  further call gets that same request, and a token is sent at most once more often than requests
  for it have ended.
\<close>
theorem web_refresh_single_flight:
  assumes "SettleFlight k \<notin> set as"
  shows "snd (refresh_tokens (flight_run refresh_tokens refresh_settled (fst (refresh_tokens st k)) as) k) =
      snd (refresh_tokens st k) \<and>
    count_list (rf_sent (flight_run refresh_tokens refresh_settled refresh_start bs)) k \<le>
      1 + count_list bs (SettleFlight k)"
  using web_refresh.joins_share [OF assms, of st] web_refresh.sent_bound [of refresh_start bs k]
  by (simp add: refresh_start_def)

theorem web_refresh_single_flight_witness:
  "snd (refresh_tokens (flight_run refresh_tokens refresh_settled (fst (refresh_tokens refresh_start ''r''))
     [Join ''q'', Join ''r'', SettleFlight ''q'']) ''r'') = snd (refresh_tokens refresh_start ''r'')"
proof -
  have no: "SettleFlight ''r'' \<notin> set [Join ''q'', Join ''r'', SettleFlight ''q'']" by simp
  show ?thesis using web_refresh_single_flight [OF no, of refresh_start "[]"] by blast
qed

text \<open>
  C23: Every cookie the middleware, a sign-in or a sign-up writes is HttpOnly, strictly same-site, valid for the whole
  site, secure in production, and carries the \<open>__Host-\<close> prefix exactly in production, where the
  attributes the prefix demands hold.
\<close>
theorem auth_cookies_protected:
  "list_all (protected production)
     (written_cookies (snd (snd (proxy production env payload_exp refresh retry cookies st))) @
      action_cookies (fst (login_action production csrf login email password)) @
      action_cookies (fst (register_action production csrf register name email password)))"
  by (auto simp: proxy_def redirect_to_login_def proxy_set_auth_cookies_def Let_def action_cookies_def
      login_action_def register_action_def set_auth_cookies_def
      split: prod.splits sum.splits option.splits)

text \<open>
  A request passes the cross-site check exactly when it names an origin and a host, the origin's host is that host,
  and \<open>sec-fetch-site\<close>, if sent, says same-origin or same-site. Otherwise neither sign-in, sign-up nor sign-out has any effect.
\<close>
theorem csrf_guard:
  "(assert_same_origin_request urlHost headers = None \<longleftrightarrow>
      (\<exists>origin host. headers ''origin'' = Some origin \<and> origin \<noteq> [] \<and> headers ''host'' = Some host \<and> host \<noteq> [] \<and>
         urlHost origin = Inr host \<and>
         headers ''sec-fetch-site'' \<in> {None, Some [], Some ''same-origin'', Some ''same-site''})) \<and>
   login_action production (Some e) login email password = ([], Inl e) \<and>
   register_action production (Some e) register name email password = ([], Inl e) \<and>
   logout_action production (Some e) logout cookies = ([], Some e)"
proof -
  have "assert_same_origin_request urlHost headers = None \<longleftrightarrow>
      (\<exists>origin host. headers ''origin'' = Some origin \<and> origin \<noteq> [] \<and> headers ''host'' = Some host \<and> host \<noteq> [] \<and>
         urlHost origin = Inr host \<and>
         headers ''sec-fetch-site'' \<in> {None, Some [], Some ''same-origin'', Some ''same-site''})"
    by (cases "headers ''origin''"; cases "headers ''host''")
      (auto simp: assert_same_origin_request_def falsy_def Let_def split: sum.splits)
  then show ?thesis by (simp add: login_action_def register_action_def logout_action_def)
qed

text \<open>
  Signing out always ends with both cookies deleted, whether the service accepts the call, fails or was not asked
  because there is no refresh token; the token is revoked before the cookies go.
\<close>
theorem logout_always_clears:
  "logout_action production None logout cookies =
     ((case cookies (refresh_token_cookie_name production) of
         Some t \<Rightarrow> if t = [] then [] else [LogoutRpc t] | None \<Rightarrow> []) @
      [CookieOp (DeleteCookie (access_token_cookie_name production)),
       CookieOp (DeleteCookie (refresh_token_cookie_name production))], None)"
  by (auto simp: logout_action_def clear_auth_cookies_def Let_def falsy_def split: option.splits)

text \<open>
  C18: What reaches a service through the RPC proxy: never a cookie or the browser's host, as authorization exactly the
  bearer token of the access cookie or none at all - never what the client sent - and every other
  header as it was. The response loses its transport headers and nothing else.
\<close>
theorem rpc_proxy_headers:
  "map_of (us_headers (rpc_proxy_request base mount token request)) n =
     (if n = ''cookie'' \<or> n = ''host'' then None
      else if n = ''authorization'' then (if falsy token then None else Some (bearer (the token)))
      else map_of (rq_headers request) n) \<and>
   map_of (ur_headers (rpc_proxy_response r)) m =
     (if m \<in> {''content-encoding'', ''content-length'', ''transfer-encoding'', ''connection''} then None
      else map_of (ur_headers r) m)"
  by (auto simp: rpc_proxy_request_def rpc_proxy_response_def send_headers_def map_of_headers Let_def)

text \<open>
  Thumbnail bytes are served only for a nonempty file id and a nonempty access token, after the metadata service
  has been asked with that token for that file, from the address it gave; they are marked private.
  No request is made at all without a token.
\<close>
theorem thumbnail_authorized:
  assumes "thumbnail_get getThumbnailURL fetch token v ifNoneMatch fileId = (calls, r)"
  shows "(calls \<noteq> [] \<longrightarrow> \<not> falsy token \<and> fileId \<noteq> [] \<and> hd calls = GetThumbnailURL (the token) fileId) \<and>
    (\<forall>resp. r = Inr resp \<and> th_status resp = 200 \<longrightarrow>
       (\<exists>url up. getThumbnailURL (the token) fileId = Inr url \<and>
          calls = [GetThumbnailURL (the token) fileId, FetchObject url] \<and>
          fetch url = Inr up \<and> tu_ok up \<and> tu_body up = Some (th_body resp) \<and>
          map_of (th_headers resp) ''Cache-Control'' = Some cache_control))"
  using assms
  by (auto simp: thumbnail_get_def plain_response_def Let_def split: if_splits sum.splits option.splits)

definition example_thumbnail :: thumbnail_upstream where
  "example_thumbnail = \<lparr>tu_ok = True, tu_body = Some ''b'', tu_contentType = None, tu_contentLength = None\<rparr>"

theorem thumbnail_authorized_witness:
  "\<exists>calls resp. thumbnail_get (\<lambda>_ _. Inr ''url'') (\<lambda>_. Inr example_thumbnail) (Some ''t'') None None ''f'' =
      (calls, Inr resp) \<and> th_status resp = 200 \<and>
     calls = [GetThumbnailURL ''t'' ''f'', FetchObject ''url'']"
proof -
  let ?run = "thumbnail_get (\<lambda>_ _. Inr ''url'') (\<lambda>_. Inr example_thumbnail) (Some ''t'') None None ''f''"
  obtain calls resp where run: "?run = (calls, Inr resp)" and ok: "th_status resp = 200"
    by (simp add: thumbnail_get_def falsy_def example_thumbnail_def)
  from thumbnail_authorized [OF run] ok run show ?thesis by auto
qed

end
