(* ===== verification/TokenManager.thy ===== *)
theory TokenManager
  imports ServerJwt
begin

text \<open>
  The session of the mobile app: the token manager (native/src/auth/tokenManager.ts), the session
  store (native/src/auth/session.ts), sign-in, sign-up and sign-out (native/src/modules/auth/api),
  the transport interceptor (native/src/lib/rpc.ts) and the guards of the root layout
  (native/src/app/_layout.tsx, index.tsx).

  Every await is a point where other activities run, so an activity is a sequence of actions on
  the shared module variables; outcomes of RPCs and of the keychain come with the action. Times
  are milliseconds. The decoding of a payload segment to its \<open>exp\<close> claim is a parameter.
\<close>

section \<open>State\<close>

datatype session_status = SessionLoading | SignedIn | SignedOut

text \<open>Where the rotation in flight is waiting: for the keychain, the service, or a keychain write.\<close>

datatype rotation = RotReading | RotCalling string | RotStoring string string | RotClearing js_error

datatype logout_phase = LogoutReading | LogoutCalling | LogoutClearing

datatype bootstrap_phase = BootReading | BootRefreshing nat

record token_manager =
  tm_accessToken :: "string option"
  tm_accessTokenExpiresAt :: rat
  tm_inFlightRefresh :: "nat option"
  tm_status :: session_status
  tm_keychain :: "string option"
  tm_rotation :: "rotation option"
  tm_started :: nat
  tm_results :: "(nat \<times> (js_error + string)) list"
  tm_sent :: "string list"
  tm_login :: "string option"
  tm_logout :: "logout_phase option"
  tm_bootstrap :: "bootstrap_phase option"

text \<open>A cold start with what the keychain holds.\<close>

definition tm_start :: "string option \<Rightarrow> token_manager" where
  "tm_start stored =
     \<lparr>tm_accessToken = None, tm_accessTokenExpiresAt = 0, tm_inFlightRefresh = None,
      tm_status = SessionLoading, tm_keychain = stored, tm_rotation = None, tm_started = 0,
      tm_results = [], tm_sent = [], tm_login = None, tm_logout = None, tm_bootstrap = None\<rparr>"

definition expiry_skew_ms :: rat where "expiry_skew_ms = 60000"
definition unknown_expiry_ms :: rat where "unknown_expiry_ms = 0"

definition session_set :: "session_status \<Rightarrow> token_manager \<Rightarrow> token_manager" where
  "session_set next_status s = (if next_status = tm_status s then s else s\<lparr>tm_status := next_status\<rparr>)"

section \<open>Reading a token\<close>

definition to_base64 :: "string \<Rightarrow> string" where
  "to_base64 payload =
     (let base64 = map (\<lambda>c. if c = CHR ''-'' then CHR ''+'' else if c = CHR ''_'' then CHR ''/'' else c) payload
      in base64 @ replicate ((4 - length base64 mod 4) mod 4) (CHR ''=''))"

text \<open>\<open>json_exp\<close> decodes padded base64 and reads \<open>exp\<close>; a decoding that throws leaves no claim.\<close>

definition expiry_from_token :: "(string \<Rightarrow> claim) \<Rightarrow> rat \<Rightarrow> string \<Rightarrow> rat" where
  "expiry_from_token json_exp now token =
     (case split_char (CHR ''.'') token of
        _ # payload # _ \<Rightarrow>
          if payload = [] then now + unknown_expiry_ms
          else (case json_exp (to_base64 payload) of NumberClaim e \<Rightarrow> e * 1000 | _ \<Rightarrow> now + unknown_expiry_ms)
      | _ \<Rightarrow> now + unknown_expiry_ms)"

section \<open>The operations\<close>

text \<open>\<open>setTokens\<close> up to its await: the memory part.\<close>

definition remember_access :: "(string \<Rightarrow> claim) \<Rightarrow> rat \<Rightarrow> string \<Rightarrow> token_manager \<Rightarrow> token_manager" where
  "remember_access json_exp now token s =
     s\<lparr>tm_accessToken := Some token, tm_accessTokenExpiresAt := expiry_from_token json_exp now token\<rparr>"

text \<open>\<open>clearTokens\<close> up to its await.\<close>

definition forget_access :: "token_manager \<Rightarrow> token_manager" where
  "forget_access s = s\<lparr>tm_accessToken := None, tm_accessTokenExpiresAt := 0\<rparr>"

definition is_network_error :: "connect_from \<Rightarrow> js_error \<Rightarrow> bool" where
  "is_network_error from e \<longleftrightarrow> ce_code (from e) \<in> {Unavailable, DeadlineExceeded, Unknown}"

definition is_rejection :: "connect_from \<Rightarrow> js_error \<Rightarrow> bool" where
  "is_rejection from e \<longleftrightarrow> ce_code (from e) \<in> {Unauthenticated, PermissionDenied}"

definition refresh_access_token :: "token_manager \<Rightarrow> token_manager \<times> nat" where
  "refresh_access_token s =
     (case tm_inFlightRefresh s of
        Some r \<Rightarrow> (s, r)
      | None \<Rightarrow>
          (s\<lparr>tm_inFlightRefresh := Some (tm_started s), tm_rotation := Some RotReading,
             tm_started := tm_started s + 1\<rparr>, tm_started s))"

text \<open>The rotation settles, and \<open>finally\<close> forgets the promise.\<close>

definition rotation_settled :: "(js_error + string) \<Rightarrow> token_manager \<Rightarrow> token_manager" where
  "rotation_settled r s =
     s\<lparr>tm_inFlightRefresh := None, tm_rotation := None,
       tm_results := (case tm_inFlightRefresh s of Some i \<Rightarrow> tm_results s @ [(i, r)] | None \<Rightarrow> tm_results s)\<rparr>"

definition rotation_read :: "js_error option \<Rightarrow> token_manager \<Rightarrow> token_manager" where
  "rotation_read failure s =
     (case failure of
        Some e \<Rightarrow> rotation_settled (Inl e) s
      | None \<Rightarrow>
          if falsy (tm_keychain s)
          then rotation_settled (Inl (JsError ''No refresh token is stored.'')) (session_set SignedOut s)
          else s\<lparr>tm_rotation := Some (RotCalling (the (tm_keychain s))), tm_sent := tm_sent s @ [the (tm_keychain s)]\<rparr>)"

text \<open>The \<open>catch\<close> of the rotation.\<close>

definition rotation_caught :: "connect_from \<Rightarrow> js_error \<Rightarrow> token_manager \<Rightarrow> token_manager" where
  "rotation_caught from e s =
     (if is_rejection from e then (forget_access s)\<lparr>tm_rotation := Some (RotClearing e)\<rparr>
      else rotation_settled (Inl e) s)"

definition rotation_answered ::
  "connect_from \<Rightarrow> (string \<Rightarrow> claim) \<Rightarrow> rat \<Rightarrow> (js_error + string \<times> string) \<Rightarrow> token_manager \<Rightarrow> token_manager" where
  "rotation_answered from json_exp now response s =
     (case response of
        Inr (a, r) \<Rightarrow> (remember_access json_exp now a s)\<lparr>tm_rotation := Some (RotStoring a r)\<rparr>
      | Inl e \<Rightarrow> rotation_caught from e s)"

definition rotation_stored ::
  "connect_from \<Rightarrow> string \<Rightarrow> string \<Rightarrow> js_error option \<Rightarrow> token_manager \<Rightarrow> token_manager" where
  "rotation_stored from a r failure s =
     (case failure of
        None \<Rightarrow> rotation_settled (Inr a) (s\<lparr>tm_keychain := Some r\<rparr>)
      | Some e \<Rightarrow> rotation_caught from e s)"

definition rotation_cleared :: "js_error \<Rightarrow> js_error option \<Rightarrow> token_manager \<Rightarrow> token_manager" where
  "rotation_cleared e failure s =
     (case failure of
        None \<Rightarrow> rotation_settled (Inl e) (session_set SignedOut (s\<lparr>tm_keychain := None\<rparr>))
      | Some e' \<Rightarrow> rotation_settled (Inl e') s)"

datatype token_answer = TokenNow string | NoToken | AwaitRefresh nat

definition get_valid_access_token :: "rat \<Rightarrow> token_manager \<Rightarrow> token_manager \<times> token_answer" where
  "get_valid_access_token now s =
     (if \<not> falsy (tm_accessToken s) \<and> now < tm_accessTokenExpiresAt s - expiry_skew_ms
      then (s, TokenNow (the (tm_accessToken s)))
      else if tm_status s \<noteq> SignedIn then (s, NoToken)
      else let (s', r) = refresh_access_token s in (s', AwaitRefresh r))"

text \<open>Sign-in and sign-up once the service has answered.\<close>

definition login_issued :: "(string \<Rightarrow> claim) \<Rightarrow> rat \<Rightarrow> string \<Rightarrow> string \<Rightarrow> token_manager \<Rightarrow> token_manager" where
  "login_issued json_exp now a r s = (remember_access json_exp now a s)\<lparr>tm_login := Some r\<rparr>"

definition login_stored :: "string \<Rightarrow> js_error option \<Rightarrow> token_manager \<Rightarrow> token_manager" where
  "login_stored r failure s =
     (case failure of
        None \<Rightarrow> session_set SignedIn (s\<lparr>tm_keychain := Some r, tm_login := None\<rparr>)
      | Some _ \<Rightarrow> s\<lparr>tm_login := None\<rparr>)"

definition logout_read :: "js_error option \<Rightarrow> token_manager \<Rightarrow> token_manager" where
  "logout_read failure s =
     (case failure of
        Some _ \<Rightarrow> s\<lparr>tm_logout := None\<rparr>
      | None \<Rightarrow> if falsy (tm_keychain s) then (forget_access s)\<lparr>tm_logout := Some LogoutClearing\<rparr>
                else s\<lparr>tm_logout := Some LogoutCalling\<rparr>)"

definition logout_answered :: "token_manager \<Rightarrow> token_manager" where
  "logout_answered s = (forget_access s)\<lparr>tm_logout := Some LogoutClearing\<rparr>"

definition logout_cleared :: "js_error option \<Rightarrow> token_manager \<Rightarrow> token_manager" where
  "logout_cleared failure s =
     (case failure of
        None \<Rightarrow> session_set SignedOut (s\<lparr>tm_keychain := None, tm_logout := None\<rparr>)
      | Some _ \<Rightarrow> s\<lparr>tm_logout := None\<rparr>)"

text \<open>\<open>bootstrapSession\<close>: an error while reading the keychain leaves \<open>storedRefreshToken\<close> null.\<close>

definition bootstrap_read :: "js_error option \<Rightarrow> token_manager \<Rightarrow> token_manager" where
  "bootstrap_read failure s =
     (if failure \<noteq> None \<or> falsy (tm_keychain s) then session_set SignedOut (s\<lparr>tm_bootstrap := None\<rparr>)
      else let (s', r) = refresh_access_token s in s'\<lparr>tm_bootstrap := Some (BootRefreshing r)\<rparr>)"

definition bootstrap_settled :: "connect_from \<Rightarrow> (js_error + string) \<Rightarrow> token_manager \<Rightarrow> token_manager" where
  "bootstrap_settled from r s =
     session_set (case r of Inr _ \<Rightarrow> SignedIn | Inl e \<Rightarrow> if is_network_error from e then SignedIn else SignedOut)
       (s\<lparr>tm_bootstrap := None\<rparr>)"

section \<open>The machine\<close>

datatype tm_action =
    Refresh
  | GetValid rat
  | RotationRead "js_error option"
  | RotationAnswered rat "js_error + string \<times> string"
  | RotationStored "js_error option"
  | RotationCleared "js_error option"
  | LoginIssued rat string string
  | LoginStored "js_error option"
  | LogoutStart
  | LogoutRead "js_error option"
  | LogoutAnswered
  | LogoutCleared "js_error option"
  | BootstrapStart
  | BootstrapRead "js_error option"
  | BootstrapSettled

fun tm_step :: "connect_from \<Rightarrow> (string \<Rightarrow> claim) \<Rightarrow> token_manager \<Rightarrow> tm_action \<Rightarrow> token_manager option" where
  "tm_step from json_exp s Refresh = Some (fst (refresh_access_token s))"
| "tm_step from json_exp s (GetValid now) = Some (fst (get_valid_access_token now s))"
| "tm_step from json_exp s (RotationRead failure) =
     (if tm_rotation s = Some RotReading then Some (rotation_read failure s) else None)"
| "tm_step from json_exp s (RotationAnswered now response) =
     (case tm_rotation s of
        Some (RotCalling _) \<Rightarrow> Some (rotation_answered from json_exp now response s) | _ \<Rightarrow> None)"
| "tm_step from json_exp s (RotationStored failure) =
     (case tm_rotation s of Some (RotStoring a r) \<Rightarrow> Some (rotation_stored from a r failure s) | _ \<Rightarrow> None)"
| "tm_step from json_exp s (RotationCleared failure) =
     (case tm_rotation s of Some (RotClearing e) \<Rightarrow> Some (rotation_cleared e failure s) | _ \<Rightarrow> None)"
| "tm_step from json_exp s (LoginIssued now a r) =
     (if tm_login s = None then Some (login_issued json_exp now a r s) else None)"
| "tm_step from json_exp s (LoginStored failure) =
     (case tm_login s of Some r \<Rightarrow> Some (login_stored r failure s) | None \<Rightarrow> None)"
| "tm_step from json_exp s LogoutStart =
     (if tm_logout s = None then Some (s\<lparr>tm_logout := Some LogoutReading\<rparr>) else None)"
| "tm_step from json_exp s (LogoutRead failure) =
     (if tm_logout s = Some LogoutReading then Some (logout_read failure s) else None)"
| "tm_step from json_exp s LogoutAnswered =
     (if tm_logout s = Some LogoutCalling then Some (logout_answered s) else None)"
| "tm_step from json_exp s (LogoutCleared failure) =
     (if tm_logout s = Some LogoutClearing then Some (logout_cleared failure s) else None)"
| "tm_step from json_exp s BootstrapStart =
     (if tm_bootstrap s = None then Some (s\<lparr>tm_bootstrap := Some BootReading\<rparr>) else None)"
| "tm_step from json_exp s (BootstrapRead failure) =
     (if tm_bootstrap s = Some BootReading then Some (bootstrap_read failure s) else None)"
| "tm_step from json_exp s BootstrapSettled =
     (case tm_bootstrap s of
        Some (BootRefreshing i) \<Rightarrow>
          (case map_of (tm_results s) i of Some r \<Rightarrow> Some (bootstrap_settled from r s) | None \<Rightarrow> None)
      | _ \<Rightarrow> None)"

section \<open>The transport interceptor\<close>

text \<open>
  \<open>token\<close> is the outcome of \<open>getValidAccessToken\<close>, \<open>refreshed\<close> that of \<open>refreshAccessToken\<close>; \<open>next_call k h\<close> is the
  k-th call of \<open>next\<close> with authorization header \<open>h\<close>. The log lists the headers the request was sent with.
\<close>

definition attach :: "string option \<Rightarrow> string option \<Rightarrow> string option" where
  "attach token header = (if falsy token then header else Some (''Bearer '' @ the token))"

definition auth_interceptor ::
  "connect_from \<Rightarrow> bool \<Rightarrow> (js_error + string option) \<Rightarrow> (js_error + string) \<Rightarrow>
   (nat \<Rightarrow> string option \<Rightarrow> js_error + 'r) \<Rightarrow> string option list \<times> (js_error + 'r)" where
  "auth_interceptor from isStream token refreshed next_call =
     (case token of
        Inl e \<Rightarrow> ([], Inl e)
      | Inr t \<Rightarrow>
          let h = attach t None
          in case next_call 0 h of
               Inr r \<Rightarrow> ([h], Inr r)
             | Inl e \<Rightarrow>
                 if isStream \<or> ce_code (from e) \<noteq> Unauthenticated then ([h], Inl e)
                 else (case refreshed of
                         Inl e' \<Rightarrow> ([h], Inl e')
                       | Inr t' \<Rightarrow> let h' = attach (Some t') h in ([h, h'], next_call 1 h')))"

section \<open>Guards\<close>

definition visible_stacks :: "session_status \<Rightarrow> string list" where
  "visible_stacks status =
     (if status = SessionLoading then []
      else (if status = SignedIn then [''(tabs)''] else []) @
           (if status = SignedOut then [''(auth)''] else []) @ [''index''])"

definition index_redirect :: "session_status \<Rightarrow> string" where
  "index_redirect status = (if status = SignedIn then ''/home'' else ''/login'')"

definition hides_splash :: "session_status \<Rightarrow> bool" where
  "hides_splash status \<longleftrightarrow> status \<noteq> SessionLoading"

definition clears_queries :: "session_status \<Rightarrow> bool" where
  "clears_queries status \<longleftrightarrow> status = SignedOut"

section \<open>Invariant\<close>

text \<open>
  A promise is kept exactly while its rotation runs, and it is the one started last; the rotations settle one
  after the other, each once, and each presents at most one token to the service.
\<close>

definition tm_inv :: "token_manager \<Rightarrow> bool" where
  "tm_inv s \<longleftrightarrow>
     (tm_inFlightRefresh s = None \<longleftrightarrow> tm_rotation s = None) \<and>
     (case tm_inFlightRefresh s of
        None \<Rightarrow> map fst (tm_results s) = [0..<tm_started s]
      | Some i \<Rightarrow> Suc i = tm_started s \<and> map fst (tm_results s) = [0..<i]) \<and>
     length (tm_sent s) + (if tm_rotation s = Some RotReading then 1 else 0) \<le> tm_started s"

lemma session_set_simps [simp]:
  "tm_accessToken (session_set st s) = tm_accessToken s" "tm_keychain (session_set st s) = tm_keychain s"
  "tm_inFlightRefresh (session_set st s) = tm_inFlightRefresh s" "tm_rotation (session_set st s) = tm_rotation s"
  "tm_results (session_set st s) = tm_results s" "tm_sent (session_set st s) = tm_sent s"
  "tm_started (session_set st s) = tm_started s" "tm_login (session_set st s) = tm_login s"
  "tm_status (session_set st s) = st" "tm_logout (session_set st s) = tm_logout s"
  by (simp_all add: session_set_def)

lemma tm_inv_session_set [simp]: "tm_inv (session_set st s) = tm_inv s"
  by (simp add: tm_inv_def cong: option.case_cong)

lemma refresh_inv_tm: "tm_inv s \<Longrightarrow> tm_inv (fst (refresh_access_token s))"
  by (auto simp: tm_inv_def refresh_access_token_def split: option.splits)

lemma upt_snoc: "Suc i = n \<Longrightarrow> [0..<i] @ [i] = [0..<n]"
  by auto

lemma settled_inv: "tm_inv s \<Longrightarrow> tm_inv (rotation_settled r s)"
  by (auto simp: tm_inv_def rotation_settled_def split: option.splits if_splits) (metis upt_snoc)+

lemma tm_inv_frame [simp]:
  "tm_inv (s\<lparr>tm_keychain := k\<rparr>) = tm_inv s" "tm_inv (s\<lparr>tm_login := l\<rparr>) = tm_inv s"
  "tm_inv (s\<lparr>tm_logout := p\<rparr>) = tm_inv s" "tm_inv (s\<lparr>tm_bootstrap := b\<rparr>) = tm_inv s"
  "tm_inv (forget_access s) = tm_inv s" "tm_inv (remember_access json_exp now a s) = tm_inv s"
  by (simp_all add: tm_inv_def forget_access_def remember_access_def cong: option.case_cong)

lemma tm_inv_phase:
  "tm_inv s \<Longrightarrow> tm_rotation s \<noteq> None \<Longrightarrow> ph \<noteq> RotReading \<Longrightarrow> tm_inv (s\<lparr>tm_rotation := Some ph\<rparr>)"
  by (auto simp: tm_inv_def split: option.splits if_splits)

lemma caught_inv: "tm_inv s \<Longrightarrow> tm_rotation s \<noteq> None \<Longrightarrow> tm_inv (rotation_caught from e s)"
  by (auto simp: rotation_caught_def forget_access_def intro: settled_inv)
     (auto simp: tm_inv_def split: option.splits if_splits)

lemma rotation_ops_inv:
  assumes "tm_inv s"
  shows "tm_rotation s = Some RotReading \<Longrightarrow> tm_inv (rotation_read failure s)"
    and "tm_rotation s \<noteq> None \<Longrightarrow> tm_inv (rotation_answered from json_exp now response s)"
    and "tm_rotation s \<noteq> None \<Longrightarrow> tm_inv (rotation_stored from a r failure s)"
    and "tm_inv (rotation_cleared e failure s)"
proof -
  show "tm_inv (rotation_read failure s)" if "tm_rotation s = Some RotReading"
    using assms that
    by (auto simp: rotation_read_def settled_inv split: option.splits)
       (auto simp: tm_inv_def split: option.splits)
  show "tm_inv (rotation_answered from json_exp now response s)" if "tm_rotation s \<noteq> None"
    using assms that
    by (auto simp: rotation_answered_def caught_inv remember_access_def split: sum.splits)
       (auto simp: tm_inv_def split: option.splits if_splits)
  show "tm_inv (rotation_stored from a r failure s)" if "tm_rotation s \<noteq> None"
    using assms that by (auto simp: rotation_stored_def caught_inv settled_inv split: option.splits)
  show "tm_inv (rotation_cleared e failure s)"
    using assms by (auto simp: rotation_cleared_def settled_inv split: option.splits)
qed

lemma get_valid_inv: "tm_inv s \<Longrightarrow> tm_inv (fst (get_valid_access_token now s))"
  using refresh_inv_tm [of s] by (auto simp: get_valid_access_token_def Let_def case_prod_beta)

lemma bootstrap_read_inv: "tm_inv s \<Longrightarrow> tm_inv (bootstrap_read failure s)"
  using refresh_inv_tm [of s] by (auto simp: bootstrap_read_def Let_def case_prod_beta)

lemma tm_step_inv: "tm_inv s \<Longrightarrow> tm_step from json_exp s a = Some s' \<Longrightarrow> tm_inv s'"
  by (cases a)
    (auto simp: refresh_inv_tm get_valid_inv rotation_ops_inv bootstrap_read_inv login_issued_def login_stored_def
      logout_read_def logout_answered_def logout_cleared_def bootstrap_settled_def
      split: if_splits option.splits rotation.splits bootstrap_phase.splits)

lemma tm_start_inv: "tm_inv (tm_start stored)"
  by (simp add: tm_inv_def tm_start_def)

interpretation tm: machine "tm_step from json_exp" "tm_start stored" tm_inv
  for "from" json_exp stored
  by unfold_locales (rule tm_start_inv, rule tm_step_inv)

interpretation native_refresh: single_flight "\<lambda>s (_ :: unit). tm_inFlightRefresh s"
    "\<lambda>s _. refresh_access_token s" "\<lambda>s _. rotation_settled r s" "\<lambda>s. replicate (tm_started s) ()"
  for r
  by unfold_locales
    (auto simp: refresh_access_token_def rotation_settled_def replicate_append_same fun_eq_iff split: option.splits)

text \<open>
  What the module promises of its rotations, without keychain, calls and interleavings: a rotation begins only when none is
  running, it presents at most one token to the service, and it is the running one that adds the next outcome. The abstract
  state holds the outcomes so far, the number of rotations that were begun and have not settled, and the tokens presented.
\<close>

type_synonym rotation_lock = "(js_error + string) list \<times> nat \<times> string list"

inductive rotation_spec :: "rotation_lock \<Rightarrow> rotation_lock \<Rightarrow> bool" where
  began: "rotation_spec (outcomes, 0, presented) (outcomes, 1, presented)"
| asked: "length presented \<le> length outcomes \<Longrightarrow> rotation_spec (outcomes, 1, presented) (outcomes, 1, presented @ [t])"
| settled: "rotation_spec (outcomes, 1, presented) (outcomes @ [r], 0, presented)"

definition rotation_view :: "token_manager \<Rightarrow> rotation_lock" where
  "rotation_view s = (map snd (tm_results s), tm_started s - length (tm_results s), tm_sent s)"

lemma rotation_view_frame [simp]:
  "rotation_view (s\<lparr>tm_keychain := k\<rparr>) = rotation_view s" "rotation_view (s\<lparr>tm_login := l\<rparr>) = rotation_view s"
  "rotation_view (s\<lparr>tm_logout := p\<rparr>) = rotation_view s" "rotation_view (s\<lparr>tm_bootstrap := b\<rparr>) = rotation_view s"
  "rotation_view (s\<lparr>tm_rotation := ph\<rparr>) = rotation_view s"
  "rotation_view (forget_access s) = rotation_view s" "rotation_view (remember_access json_exp now a s) = rotation_view s"
  "rotation_view (session_set st s) = rotation_view s"
  by (simp_all add: rotation_view_def forget_access_def remember_access_def)

definition rotation_follows :: "token_manager \<Rightarrow> token_manager \<Rightarrow> bool" where
  "rotation_follows s s' \<longleftrightarrow> rotation_view s' = rotation_view s \<or> rotation_spec (rotation_view s) (rotation_view s')"

lemma rotation_follows_refl: "rotation_view s' = rotation_view s \<Longrightarrow> rotation_follows s s'"
  by (simp add: rotation_follows_def)

lemma rotation_running:
  assumes "tm_inv s"
  shows "tm_started s - length (tm_results s) = (if tm_inFlightRefresh s = None then 0 else 1)"
    and "length (tm_results s) \<le> tm_started s"
proof -
  have "length (tm_results s) = (case tm_inFlightRefresh s of None \<Rightarrow> tm_started s | Some i \<Rightarrow> i)"
    using assms length_map [of fst "tm_results s"] by (auto simp: tm_inv_def simp del: length_map split: option.splits)
  then show "tm_started s - length (tm_results s) = (if tm_inFlightRefresh s = None then 0 else 1)"
    and "length (tm_results s) \<le> tm_started s"
    using assms by (auto simp: tm_inv_def split: option.splits)
qed

lemma rotation_follows_refresh: "tm_inv s \<Longrightarrow> rotation_follows s (fst (refresh_access_token s))"
  using rotation_running [of s] rotation_spec.began
  by (auto simp: rotation_follows_def rotation_view_def refresh_access_token_def Suc_diff_le split: option.splits)

lemma rotation_follows_settled:
  assumes "tm_inv s" "tm_inFlightRefresh t \<noteq> None" "rotation_view t = rotation_view s" "tm_inFlightRefresh s \<noteq> None"
    "length (tm_results t) = length (tm_results s)"
  shows "rotation_follows s (rotation_settled r t)"
  using assms rotation_running [OF assms(1)] rotation_spec.settled [of "map snd (tm_results s)" "tm_sent s" r]
  by (auto simp: rotation_follows_def rotation_view_def rotation_settled_def)

lemma rotation_follows_asked:
  assumes "tm_inv s" "tm_rotation s = Some RotReading" "tm_inFlightRefresh s \<noteq> None"
  shows "rotation_follows s (s\<lparr>tm_rotation := ph, tm_sent := tm_sent s @ [t]\<rparr>)"
proof -
  have "length (tm_sent s) \<le> length (map snd (tm_results s))"
    using assms rotation_running [OF assms(1)] by (auto simp: tm_inv_def)
  from rotation_spec.asked [OF this, of t] show ?thesis
    using assms rotation_running [OF assms(1)] by (auto simp: rotation_follows_def rotation_view_def)
qed

lemma tm_step_follows:
  assumes "tm_inv s" "tm_step from json_exp s a = Some s'"
  shows "rotation_follows s s'"
proof -
  have flying: "tm_inFlightRefresh s \<noteq> None" if "tm_rotation s \<noteq> None" using assms(1) that by (auto simp: tm_inv_def)
  have caught: "rotation_follows s (rotation_caught from e t)"
    if "rotation_view t = rotation_view s" "tm_inFlightRefresh t \<noteq> None" "tm_rotation s \<noteq> None" "length (tm_results t) = length (tm_results s)" for t e
    using that flying assms(1) by (auto simp: rotation_caught_def intro: rotation_follows_refl rotation_follows_settled)
  have set: "rotation_follows s (t\<lparr>tm_bootstrap := b\<rparr>) = rotation_follows s t" for t b by (simp add: rotation_follows_def)
  show ?thesis
  proof (cases a)
    case Refresh
    with assms rotation_follows_refresh [of s] show ?thesis by simp
  next
    case (GetValid now)
    with assms(2) show ?thesis using rotation_follows_refresh [OF assms(1)]
      by (auto simp: get_valid_access_token_def Let_def case_prod_beta intro: rotation_follows_refl split: if_splits)
  next
    case (BootstrapRead failure)
    with assms(2) show ?thesis using rotation_follows_refresh [OF assms(1)]
      by (auto simp: bootstrap_read_def Let_def case_prod_beta set intro: rotation_follows_refl split: if_splits)
  next
    case (RotationRead failure)
    with assms flying show ?thesis
      by (auto simp: rotation_read_def intro!: rotation_follows_settled rotation_follows_asked split: if_splits option.splits)
  next
    case (RotationAnswered now response)
    with assms flying show ?thesis
      by (auto simp: rotation_answered_def intro!: caught split: option.splits rotation.splits sum.splits)
         (auto intro: rotation_follows_refl)
  next
    case (RotationStored failure)
    with assms flying show ?thesis
      by (auto simp: rotation_stored_def intro!: caught rotation_follows_settled split: option.splits rotation.splits)
  next
    case (RotationCleared failure)
    with assms flying show ?thesis
      by (auto simp: rotation_cleared_def intro!: rotation_follows_settled split: option.splits rotation.splits)
  qed (use assms(2) in
      \<open>auto simp: login_issued_def login_stored_def logout_read_def logout_answered_def logout_cleared_def bootstrap_settled_def
        intro!: rotation_follows_refl split: if_splits option.splits bootstrap_phase.splits\<close>)
qed

interpretation rotations: refinement "tm_step from json_exp" "tm_start stored" tm_inv rotation_view rotation_spec
  for "from" json_exp stored
  by unfold_locales (use tm_step_follows in \<open>unfold rotation_follows_def, blast\<close>)

section \<open>Properties\<close>

definition plain_error :: "rpc_code \<Rightarrow> js_error" where
  "plain_error c = ConnectErr \<lparr>ce_code = c, ce_rawMessage = [], ce_message = []\<rparr>"

definition hour_claims :: "string \<Rightarrow> claim" where
  "hour_claims _ = NumberClaim 3600"

text \<open>
  C15: Whatever sign-ins, sign-outs, starts and refreshes interleave with the awaits of a rotation, the token manager refines
  a lock: every step leaves the rotations alone, begins one when all that were begun have settled, presents the one token of the
  rotation that runs, or ends it with one outcome. Two rotations never run at once, so no promise is overwritten.
\<close>
theorem rotations_refine_lock:
  assumes "exec (tm_step from json_exp) (tm_start stored) as = Some s" "tm_step from json_exp s a = Some s'"
  shows "rotation_view s' = rotation_view s \<or> rotation_spec (rotation_view s) (rotation_view s')"
  using rotations.refines [OF assms] .

theorem rotations_refine_lock_witness:
  "\<exists>s s'. exec (tm_step connect_from_plain hour_claims) (tm_start (Some ''r0'')) [Refresh] = Some s \<and>
    tm_step connect_from_plain hour_claims s (RotationRead None) = Some s' \<and>
    (rotation_view s' = rotation_view s \<or> rotation_spec (rotation_view s) (rotation_view s'))"
proof -
  have "\<exists>s s'. exec (tm_step connect_from_plain hour_claims) (tm_start (Some ''r0'')) [Refresh] = Some s \<and>
      tm_step connect_from_plain hour_claims s (RotationRead None) = Some s'"
    by (simp add: tm_start_def refresh_access_token_def)
  with rotations_refine_lock show ?thesis by blast
qed

text \<open>
  C14: Whatever sign-ins, sign-outs and refreshes interleave, rotations run one at a time: a call during a rotation
  joins it, the rotations settle in the order they started, each once, and each presents at most
  one refresh token to the service.
\<close>
theorem native_rotations_serialised:
  assumes "exec (tm_step from json_exp) (tm_start stored) as = Some s"
  shows "length (tm_sent s) \<le> tm_started s \<and>
    map fst (tm_results s) = [0..<length (tm_results s)] \<and>
    tm_started s \<le> length (tm_results s) + 1 \<and>
    (\<forall>i. tm_inFlightRefresh s = Some i \<longrightarrow>
       refresh_access_token s = (s, i) \<and> i = length (tm_results s) \<and> tm_rotation s \<noteq> None)"
proof -
  have inv: "tm_inv s" by (rule tm.inv_exec [OF assms])
  have len: "length (tm_results s) = length (map fst (tm_results s))" by simp
  show ?thesis
  proof (cases "tm_inFlightRefresh s")
    case None
    with inv have r: "map fst (tm_results s) = [0..<tm_started s]" by (simp add: tm_inv_def)
    with len have "length (tm_results s) = tm_started s" by simp
    with r None inv show ?thesis by (simp add: tm_inv_def)
  next
    case (Some i)
    with inv have r: "map fst (tm_results s) = [0..<i]" "Suc i = tm_started s" by (simp_all add: tm_inv_def)
    with len have "length (tm_results s) = i" by simp
    with r Some inv show ?thesis by (auto simp: tm_inv_def refresh_access_token_def)
  qed
qed

theorem native_rotations_serialised_witness:
  "\<exists>s. exec (tm_step connect_from_plain hour_claims) (tm_start (Some ''r0''))
        [BootstrapStart, BootstrapRead None, Refresh, RotationRead None, Refresh] = Some s \<and>
     tm_sent s = [''r0''] \<and> tm_started s = 1 \<and> refresh_access_token s = (s, 0)"
proof -
  define s where "s = the (exec (tm_step connect_from_plain hour_claims) (tm_start (Some ''r0''))
        [BootstrapStart, BootstrapRead None, Refresh, RotationRead None, Refresh])"
  have run: "exec (tm_step connect_from_plain hour_claims) (tm_start (Some ''r0''))
        [BootstrapStart, BootstrapRead None, Refresh, RotationRead None, Refresh] = Some s"
    and s: "tm_sent s = [''r0'']" "tm_started s = 1" "tm_inFlightRefresh s = Some 0"
    by (simp_all add: s_def tm_start_def bootstrap_read_def falsy_def refresh_access_token_def rotation_read_def)
  show ?thesis using run s native_rotations_serialised [OF run] by blast
qed

text \<open>While a rejected rotation waits for the keychain, no other action touches it.\<close>

fun settles_clearing :: "tm_action \<Rightarrow> bool" where
  "settles_clearing (RotationCleared _) = True"
| "settles_clearing _ = False"

lemma clearing_step:
  assumes "tm_step from json_exp s a = Some s'" "\<not> settles_clearing a"
    "tm_rotation s = Some (RotClearing e)" "tm_inFlightRefresh s = Some i"
  shows "tm_rotation s' = Some (RotClearing e) \<and> tm_inFlightRefresh s' = Some i \<and> tm_results s' = tm_results s"
  using assms
  by (cases a)
    (auto simp: refresh_access_token_def get_valid_access_token_def login_issued_def login_stored_def logout_read_def
      logout_answered_def logout_cleared_def bootstrap_read_def bootstrap_settled_def remember_access_def forget_access_def Let_def
      split: if_splits option.splits bootstrap_phase.splits)

lemma clearing_run:
  assumes "exec (tm_step from json_exp) s as = Some s'" "list_all (\<lambda>a. \<not> settles_clearing a) as"
    "tm_rotation s = Some (RotClearing e)" "tm_inFlightRefresh s = Some i"
  shows "tm_rotation s' = Some (RotClearing e) \<and> tm_inFlightRefresh s' = Some i \<and> tm_results s' = tm_results s"
  using assms
proof (induction as arbitrary: s)
  case (Cons a as)
  then obtain t where "tm_step from json_exp s a = Some t" "exec (tm_step from json_exp) t as = Some s'"
    by (auto split: option.splits)
  with clearing_step [of "from" json_exp s a t e i] Cons show ?case by auto
qed simp

text \<open>
  C16: When the service refuses the refresh token with the code unauthenticated or permission denied, the access token is dropped
  at once. Whatever other actions come before the keychain answers, the rotation then ends in one of two ways: the refresh token is
  deleted, the app is signed out and the callers get the service's error; or the deletion fails, and then keychain and session
  stay as they are and the callers get the error of the keychain. A failure with any other code, one of the network among them,
  changes nothing but that the rotation ends with the service's error.
\<close>
theorem rotation_failure_outcome:
  assumes "tm_rotation s = Some (RotCalling rt)" and "tm_inFlightRefresh s = Some i"
    and "tm_step from json_exp s (RotationAnswered now (Inl e)) = Some s0"
    and "exec (tm_step from json_exp) s0 others = Some s1" and "list_all (\<lambda>a. \<not> settles_clearing a) others"
  shows "if ce_code (from e) = Unauthenticated \<or> ce_code (from e) = PermissionDenied
    then tm_accessToken s0 = None \<and> tm_keychain s0 = tm_keychain s \<and> tm_status s0 = tm_status s \<and>
      (\<exists>s2. tm_step from json_exp s1 (RotationCleared None) = Some s2 \<and>
         tm_keychain s2 = None \<and> tm_status s2 = SignedOut \<and>
         tm_results s2 = tm_results s @ [(i, Inl e)] \<and> tm_inFlightRefresh s2 = None) \<and>
      (\<forall>e'. \<exists>s2. tm_step from json_exp s1 (RotationCleared (Some e')) = Some s2 \<and>
         tm_keychain s2 = tm_keychain s1 \<and> tm_status s2 = tm_status s1 \<and>
         tm_results s2 = tm_results s @ [(i, Inl e')] \<and> tm_inFlightRefresh s2 = None)
    else s0 = s\<lparr>tm_rotation := None, tm_inFlightRefresh := None, tm_results := tm_results s @ [(i, Inl e)]\<rparr>"
proof (cases "ce_code (from e) = Unauthenticated \<or> ce_code (from e) = PermissionDenied")
  case True
  then have s0: "s0 = (forget_access s)\<lparr>tm_rotation := Some (RotClearing e)\<rparr>"
    using assms(1,3) by (auto simp: rotation_answered_def rotation_caught_def is_rejection_def)
  with assms(2) have "tm_rotation s1 = Some (RotClearing e)" "tm_inFlightRefresh s1 = Some i" "tm_results s1 = tm_results s"
    using clearing_run [OF assms(4,5), of e i] by (simp_all add: forget_access_def)
  with True s0 show ?thesis
    by (simp add: rotation_cleared_def rotation_settled_def forget_access_def)
next
  case False
  with assms(1-3) show ?thesis
    by (auto simp: rotation_answered_def rotation_caught_def is_rejection_def rotation_settled_def)
qed

theorem rotation_failure_outcome_witness:
  "\<exists>s s0 s1 s2. tm_rotation s = Some (RotCalling ''r0'') \<and>
     exec (tm_step connect_from_plain hour_claims) (tm_start (Some ''r0'')) [Refresh, RotationRead None] = Some s \<and>
     tm_step connect_from_plain hour_claims s (RotationAnswered 0 (Inl (plain_error Unauthenticated))) = Some s0 \<and>
     exec (tm_step connect_from_plain hour_claims) s0 [Refresh] = Some s1 \<and>
     tm_step connect_from_plain hour_claims s1 (RotationCleared None) = Some s2 \<and>
     tm_keychain s2 = None \<and> tm_status s2 = SignedOut"
proof -
  define s where "s = the (exec (tm_step connect_from_plain hour_claims) (tm_start (Some ''r0'')) [Refresh, RotationRead None])"
  have run: "exec (tm_step connect_from_plain hour_claims) (tm_start (Some ''r0'')) [Refresh, RotationRead None] = Some s"
    and s: "tm_rotation s = Some (RotCalling ''r0'')" "tm_inFlightRefresh s = Some 0"
    by (simp_all add: s_def tm_start_def falsy_def refresh_access_token_def rotation_read_def)
  obtain s0 where s0: "tm_step connect_from_plain hour_claims s (RotationAnswered 0 (Inl (plain_error Unauthenticated))) = Some s0"
    using s by simp
  obtain s1 where s1: "exec (tm_step connect_from_plain hour_claims) s0 [Refresh] = Some s1" by simp
  have code: "ce_code (connect_from_plain (plain_error Unauthenticated)) = Unauthenticated" by (simp add: plain_error_def)
  have "\<exists>s2. tm_step connect_from_plain hour_claims s1 (RotationCleared None) = Some s2 \<and> tm_keychain s2 = None \<and> tm_status s2 = SignedOut"
    using rotation_failure_outcome [OF s s0 s1] unfolding code by auto
  with run s s0 s1 show ?thesis by blast
qed

text \<open>
  A launch without network keeps the session: with a stored refresh token and a refresh that fails as a network
  error, the app starts signed in and the token stays in the keychain.
\<close>
theorem bootstrap_offline_keeps_session:
  assumes "rt \<noteq> []" and "is_network_error from e"
  shows "\<exists>s. exec (tm_step from json_exp) (tm_start (Some rt))
      [BootstrapStart, BootstrapRead None, RotationRead None, RotationAnswered now (Inl e), BootstrapSettled] = Some s \<and>
    tm_status s = SignedIn \<and> tm_keychain s = Some rt \<and> tm_sent s = [rt]"
proof -
  have "\<not> is_rejection from e" using assms(2) by (auto simp: is_network_error_def is_rejection_def)
  with assms show ?thesis
    by (simp add: tm_start_def bootstrap_read_def falsy_def refresh_access_token_def rotation_read_def
        rotation_answered_def rotation_caught_def rotation_settled_def bootstrap_settled_def)
qed

theorem bootstrap_offline_keeps_session_witness:
  "\<exists>s. exec (tm_step connect_from_plain hour_claims) (tm_start (Some ''r0''))
      [BootstrapStart, BootstrapRead None, RotationRead None,
       RotationAnswered 0 (Inl (plain_error Unavailable)), BootstrapSettled] = Some s \<and> tm_status s = SignedIn"
proof -
  have "is_network_error connect_from_plain (plain_error Unavailable)"
    by (simp add: is_network_error_def plain_error_def)
  from bootstrap_offline_keeps_session [OF _ this, of "''r0''" hour_claims 0] show ?thesis by blast
qed

text \<open>No token is held, and none is on its way into the memory or the keychain.\<close>

definition signed_out_clean :: "token_manager \<Rightarrow> bool" where
  "signed_out_clean s \<longleftrightarrow>
     tm_accessToken s = None \<and> tm_keychain s = None \<and> tm_login s = None \<and>
     tm_rotation s \<in> {None, Some RotReading}"

fun is_login :: "tm_action \<Rightarrow> bool" where
  "is_login (LoginIssued _ _ _) = True"
| "is_login _ = False"

lemma signed_out_ops:
  assumes "signed_out_clean s"
  shows "signed_out_clean (fst (refresh_access_token s)) \<and> tm_sent (fst (refresh_access_token s)) = tm_sent s"
    and "signed_out_clean (fst (get_valid_access_token now s)) \<and> tm_sent (fst (get_valid_access_token now s)) = tm_sent s"
    and "signed_out_clean (rotation_read failure s) \<and> tm_sent (rotation_read failure s) = tm_sent s"
    and "signed_out_clean (logout_read failure s) \<and> tm_sent (logout_read failure s) = tm_sent s"
    and "signed_out_clean (logout_answered s) \<and> tm_sent (logout_answered s) = tm_sent s"
    and "signed_out_clean (logout_cleared failure s) \<and> tm_sent (logout_cleared failure s) = tm_sent s"
    and "signed_out_clean (bootstrap_read failure s) \<and> tm_sent (bootstrap_read failure s) = tm_sent s"
    and "signed_out_clean (bootstrap_settled from r s) \<and> tm_sent (bootstrap_settled from r s) = tm_sent s"
proof -
  note defs = signed_out_clean_def falsy_def
  show refresh: "signed_out_clean (fst (refresh_access_token s)) \<and> tm_sent (fst (refresh_access_token s)) = tm_sent s"
    using assms by (auto simp: defs refresh_access_token_def split: option.splits)
  show "signed_out_clean (fst (get_valid_access_token now s)) \<and> tm_sent (fst (get_valid_access_token now s)) = tm_sent s"
    using assms refresh by (simp add: get_valid_access_token_def Let_def case_prod_beta)
  show "signed_out_clean (rotation_read failure s) \<and> tm_sent (rotation_read failure s) = tm_sent s"
    using assms by (cases failure) (auto simp: defs rotation_read_def rotation_settled_def)
  show "signed_out_clean (logout_read failure s) \<and> tm_sent (logout_read failure s) = tm_sent s"
    using assms by (cases failure) (auto simp: defs logout_read_def forget_access_def)
  show "signed_out_clean (logout_answered s) \<and> tm_sent (logout_answered s) = tm_sent s"
    using assms by (auto simp: defs logout_answered_def forget_access_def)
  show "signed_out_clean (logout_cleared failure s) \<and> tm_sent (logout_cleared failure s) = tm_sent s"
    using assms by (cases failure) (auto simp: defs logout_cleared_def)
  show "signed_out_clean (bootstrap_read failure s) \<and> tm_sent (bootstrap_read failure s) = tm_sent s"
    using assms by (cases failure) (auto simp: defs bootstrap_read_def)
  show "signed_out_clean (bootstrap_settled from r s) \<and> tm_sent (bootstrap_settled from r s) = tm_sent s"
    using assms by (simp add: defs bootstrap_settled_def)
qed

lemma signed_out_not_waiting:
  "signed_out_clean s \<Longrightarrow> tm_login s = None \<and> tm_rotation s \<in> {None, Some RotReading}"
  by (simp add: signed_out_clean_def)

lemma signed_out_step:
  assumes "signed_out_clean s" and "\<not> is_login a" and "tm_step from json_exp s a = Some s'"
  shows "signed_out_clean s' \<and> tm_sent s' = tm_sent s"
  using assms(2,3) signed_out_ops [OF assms(1)] signed_out_not_waiting [OF assms(1)]
proof (cases a)
  case LogoutStart
  with assms show ?thesis by (auto simp: signed_out_clean_def split: if_splits)
next
  case BootstrapStart
  with assms show ?thesis by (auto simp: signed_out_clean_def split: if_splits)
qed (auto split: if_splits option.splits bootstrap_phase.splits)

text \<open>What puts an access token into the memory: the answer to a sign-in, and the answer to a rotation that succeeds.\<close>

fun issues_token :: "tm_action \<Rightarrow> bool" where
  "issues_token (LoginIssued _ _ _) = True"
| "issues_token (RotationAnswered _ (Inr _)) = True"
| "issues_token _ = False"

text \<open>A sign-out that is about to delete the refresh token has dropped the access token.\<close>

lemma logout_forgets:
  assumes "exec (tm_step from json_exp) s as = Some s'" "list_all (\<lambda>a. \<not> issues_token a) as"
    "tm_logout s = Some LogoutClearing \<longrightarrow> tm_accessToken s = None"
  shows "tm_logout s' = Some LogoutClearing \<longrightarrow> tm_accessToken s' = None"
  using assms
proof (induction as arbitrary: s)
  case (Cons a as)
  then obtain t where t: "tm_step from json_exp s a = Some t" "exec (tm_step from json_exp) t as = Some s'"
    by (auto split: option.splits)
  have caught: "tm_logout (rotation_caught from e u) = tm_logout u" "tm_accessToken u = None \<Longrightarrow> tm_accessToken (rotation_caught from e u) = None"
    for e u by (simp_all add: rotation_caught_def rotation_settled_def forget_access_def)
  have "\<not> issues_token a" using Cons.prems(2) by simp
  then have "tm_logout t = Some LogoutClearing \<longrightarrow> tm_accessToken t = None"
    using t(1) Cons.prems(3)
    by (cases a)
      (auto simp: caught refresh_access_token_def get_valid_access_token_def rotation_read_def rotation_settled_def rotation_answered_def
        rotation_stored_def rotation_cleared_def login_issued_def login_stored_def logout_read_def logout_answered_def logout_cleared_def
        bootstrap_read_def bootstrap_settled_def forget_access_def Let_def
        split: if_splits option.splits rotation.splits bootstrap_phase.splits sum.splits)
  with Cons.IH [OF t(2)] Cons.prems(2) show ?case by simp
qed simp

text \<open>The app stays signed out, unless a launch still waits for a refresh.\<close>

definition session_over :: "token_manager \<Rightarrow> bool" where
  "session_over s \<longleftrightarrow> tm_status s = SignedOut \<and> (\<forall>i. tm_bootstrap s \<noteq> Some (BootRefreshing i))"

lemma session_over_step:
  assumes "signed_out_clean s" "\<not> is_login a" "tm_step from json_exp s a = Some s'" "session_over s"
  shows "session_over s'"
proof -
  have set: "session_over (session_set SignedOut t) \<longleftrightarrow> (\<forall>i. tm_bootstrap t \<noteq> Some (BootRefreshing i))" for t
    by (simp add: session_over_def session_set_def)
  from assms show ?thesis
    by (cases a)
      (auto simp: signed_out_clean_def falsy_def set session_over_def [of "_ :: token_manager"] refresh_access_token_def
        get_valid_access_token_def rotation_read_def rotation_settled_def logout_read_def logout_answered_def logout_cleared_def
        bootstrap_read_def forget_access_def session_set_def Let_def split: if_splits option.splits bootstrap_phase.splits)
qed

lemma signed_out_run:
  "exec (tm_step from json_exp) s as = Some s' \<Longrightarrow> signed_out_clean s \<Longrightarrow> list_all (\<lambda>a. \<not> is_login a) as \<Longrightarrow>
    signed_out_clean s' \<and> tm_sent s' = tm_sent s \<and> (session_over s \<longrightarrow> session_over s')"
proof (induction as arbitrary: s)
  case (Cons a as)
  then obtain s1 where s1: "tm_step from json_exp s a = Some s1" "exec (tm_step from json_exp) s1 as = Some s'"
    by (cases "tm_step from json_exp s a") simp_all
  from Cons.prems(3) have "\<not> is_login a" "list_all (\<lambda>a. \<not> is_login a) as" by simp_all
  with Cons.IH [OF s1(2)] signed_out_step [OF Cons.prems(2) _ s1(1)] session_over_step [OF Cons.prems(2) _ s1(1)]
  show ?case by simp
qed simp

text \<open>
  C4: A sign-out that runs to its end leaves no token, for good. Let it begin in any state and let other actions come between its
  awaits, as long as nobody is issued an access token meanwhile; and let no sign-in and no rotation be waiting for the
  service or the keychain when the refresh token is deleted. Then the memory and the keychain are empty, and until somebody signs
  in, no action puts a token there, hands one out or sends one to the service. The app is signed out and stays so, unless a launch
  was still waiting for its refresh.
\<close>
theorem signed_out_stays_clean:
  assumes "exec (tm_step from json_exp) s (LogoutStart # during) = Some s1" and "list_all (\<lambda>a. \<not> issues_token a) during"
    and "tm_login s1 = None" and "tm_rotation s1 = None \<or> tm_rotation s1 = Some RotReading"
    and "exec (tm_step from json_exp) s1 (LogoutCleared None # after) = Some s2" and "list_all (\<lambda>a. \<not> is_login a) after"
  shows "tm_accessToken s2 = None \<and> tm_keychain s2 = None \<and> tm_sent s2 = tm_sent s1 \<and>
    (\<forall>t. snd (get_valid_access_token now s2) \<noteq> TokenNow t) \<and>
    ((\<forall>i. tm_bootstrap s1 \<noteq> Some (BootRefreshing i)) \<longrightarrow> tm_status s2 = SignedOut)"
proof -
  from assms(1) have "exec (tm_step from json_exp) (s\<lparr>tm_logout := Some LogoutReading\<rparr>) during = Some s1" by (auto split: if_splits)
  then have forgot: "tm_logout s1 = Some LogoutClearing \<longrightarrow> tm_accessToken s1 = None" using logout_forgets assms(2) by fastforce
  from assms(5) have clearing: "tm_logout s1 = Some LogoutClearing"
    and rest: "exec (tm_step from json_exp) (logout_cleared None s1) after = Some s2" by (auto split: if_splits)
  have "signed_out_clean (logout_cleared None s1)"
    using assms(3,4) forgot clearing by (auto simp: signed_out_clean_def logout_cleared_def)
  from signed_out_run [OF rest this assms(6)] show ?thesis
    by (auto simp: session_over_def signed_out_clean_def get_valid_access_token_def falsy_def logout_cleared_def session_set_def Let_def case_prod_beta)
qed

theorem signed_out_stays_clean_witness:
  "\<exists>s s1 s2. tm_keychain s = Some ''r1'' \<and> tm_accessToken s = Some ''h.p.s'' \<and>
     exec (tm_step connect_from_plain hour_claims) (tm_start None) [LoginIssued 0 ''h.p.s'' ''r1'', LoginStored None] = Some s \<and>
     exec (tm_step connect_from_plain hour_claims) s [LogoutStart, LogoutRead None, LogoutAnswered] = Some s1 \<and>
     exec (tm_step connect_from_plain hour_claims) s1 [LogoutCleared None, Refresh, RotationRead None, GetValid 0] = Some s2 \<and>
     tm_accessToken s2 = None \<and> tm_keychain s2 = None \<and> tm_sent s2 = [] \<and> tm_status s2 = SignedOut"
proof -
  let ?step = "tm_step connect_from_plain hour_claims"
  define s where "s = the (exec ?step (tm_start None) [LoginIssued 0 ''h.p.s'' ''r1'', LoginStored None])"
  define s1 where "s1 = the (exec ?step s [LogoutStart, LogoutRead None, LogoutAnswered])"
  note defs = tm_start_def login_issued_def remember_access_def login_stored_def session_set_def logout_read_def logout_answered_def
    forget_access_def falsy_def
  have login: "exec ?step (tm_start None) [LoginIssued 0 ''h.p.s'' ''r1'', LoginStored None] = Some s"
    "tm_keychain s = Some ''r1''" "tm_accessToken s = Some ''h.p.s''"
    by (simp_all add: s_def defs)
  have during: "exec ?step s [LogoutStart, LogoutRead None, LogoutAnswered] = Some s1"
    and s1: "tm_login s1 = None" "tm_rotation s1 = None" "tm_sent s1 = []" "tm_bootstrap s1 = None"
    by (simp_all add: s1_def s_def defs)
  have "exec ?step s1 [LogoutCleared None, Refresh, RotationRead None, GetValid 0] \<noteq> None"
    by (simp add: s1_def s_def defs logout_cleared_def refresh_access_token_def)
  then obtain s2 where s2: "exec ?step s1 [LogoutCleared None, Refresh, RotationRead None, GetValid 0] = Some s2" by blast
  have "tm_accessToken s2 = None \<and> tm_keychain s2 = None \<and> tm_sent s2 = [] \<and> tm_status s2 = SignedOut"
    using signed_out_stays_clean [OF during _ s1(1) _ s2] s1 by simp
  with login during s2 show ?thesis by blast
qed

text \<open>
  A sign-out does not stop a rotation in flight: when the service has answered the rotation, the new pair is stored
  although the sign-out is complete. The signed-out app then hands out an access token and the next
  launch finds a refresh token.
\<close>
theorem logout_rotation_race:
  "\<exists>s. exec (tm_step connect_from_plain hour_claims) (tm_start (Some ''r0''))
        [BootstrapStart, BootstrapRead None, RotationRead None, LogoutStart, LogoutRead None, LogoutAnswered,
         LogoutCleared None, RotationAnswered 0 (Inr (''h.p.s'', ''r1'')), RotationStored None] = Some s \<and>
      tm_status s = SignedOut \<and> tm_keychain s = Some ''r1'' \<and>
      snd (get_valid_access_token 0 s) = TokenNow ''h.p.s''"
proof -
  have "map_option (\<lambda>s. (tm_status s, tm_keychain s, snd (get_valid_access_token 0 s)))
      (exec (tm_step connect_from_plain hour_claims) (tm_start (Some ''r0''))
        [BootstrapStart, BootstrapRead None, RotationRead None, LogoutStart, LogoutRead None, LogoutAnswered,
         LogoutCleared None, RotationAnswered 0 (Inr (''h.p.s'', ''r1'')), RotationStored None]) =
      Some (SignedOut, Some ''r1'', TokenNow ''h.p.s'')"
    by code_simp
  then show ?thesis by (simp only: map_option_eq_Some) auto
qed

text \<open>
  A rotated access token can be handed out before the rotated refresh token is stored: it is in memory while the
  keychain still holds the token the service has just replaced.
\<close>
theorem access_token_before_persist:
  "\<exists>s. exec (tm_step connect_from_plain hour_claims) (tm_start (Some ''r0''))
        [BootstrapStart, BootstrapRead None, RotationRead None, RotationAnswered 0 (Inr (''h.p.s'', ''r1''))] = Some s \<and>
      snd (get_valid_access_token 0 s) = TokenNow ''h.p.s'' \<and> tm_keychain s = Some ''r0''"
proof -
  have "map_option (\<lambda>s. (snd (get_valid_access_token 0 s), tm_keychain s))
      (exec (tm_step connect_from_plain hour_claims) (tm_start (Some ''r0''))
        [BootstrapStart, BootstrapRead None, RotationRead None, RotationAnswered 0 (Inr (''h.p.s'', ''r1''))]) =
      Some (TokenNow ''h.p.s'', Some ''r0'')"
    by code_simp
  then show ?thesis by (simp only: map_option_eq_Some) auto
qed

text \<open>
  C25: The interceptor sends a request at most twice: again only for a call that is no stream and was refused as
  unauthenticated, and then with the refreshed token. The outcome is that of the last attempt, or
  the error of the refresh.
\<close>
theorem interceptor_retries_once:
  assumes "auth_interceptor from isStream token refreshed next_call = (sent, r)"
  shows "length sent \<le> 2 \<and>
    (length sent = 2 \<longleftrightarrow>
       \<not> isStream \<and> \<not> isl token \<and> \<not> isl refreshed \<and>
       (\<exists>e. next_call 0 (attach (projr token) None) = Inl e \<and> ce_code (from e) = Unauthenticated)) \<and>
    (length sent = 2 \<longrightarrow> r = next_call 1 (last sent) \<and>
       last sent = attach (Some (projr refreshed)) (attach (projr token) None))"
  using assms
  by (auto simp: auth_interceptor_def Let_def split: sum.splits if_splits)

theorem interceptor_retries_once_witness:
  "auth_interceptor connect_from_plain False (Inr (Some ''t1'')) (Inr ''t2'')
      (\<lambda>k h. if k = 0 then Inl (plain_error Unauthenticated) else Inr ''ok'') =
     ([Some ''Bearer t1'', Some ''Bearer t2''], Inr ''ok'') \<and> length [Some ''Bearer t1'', Some ''Bearer t2''] \<le> 2"
proof -
  have run: "auth_interceptor connect_from_plain False (Inr (Some ''t1'')) (Inr ''t2'')
      (\<lambda>k h. if k = 0 then Inl (plain_error Unauthenticated) else Inr ''ok'') =
     ([Some ''Bearer t1'', Some ''Bearer t2''], Inr ''ok'')"
    by (simp add: auth_interceptor_def attach_def falsy_def plain_error_def)
  with interceptor_retries_once [OF run] show ?thesis by blast
qed

end
