(* ===== verification/FilesApi.thy ===== *)
theory FilesApi
  imports Prelude "HOL-Library.Char_ord" "HOL-Library.List_Lexorder"
begin

text \<open>
  The data hooks of the file surfaces: web/src/modules/files/api/use-files.ts with its query keys,
  pages, thumbnail batches and mutations, use-download.ts and use-content-url.ts beside it, and
  the parts of native/src/modules/files/api/use-files.ts that differ.

  TanStack Query is a library: a query is its key, its page parameter and its function; a
  mutation is the RPC it sends and the key filters it invalidates on success. Which cached keys a
  filter matches is the library's partial matching, a parameter with its documented behaviour.
\<close>

section \<open>Items and pages\<close>

datatype item_details = FileDetails string | FolderDetails string | NoDetails

record item =
  it_itemType :: string
  it_itemId :: string
  it_folderId :: string
  it_details :: item_details

record items_page =
  pg_items :: "item list"
  pg_nextPageToken :: string

definition page_size :: nat where "page_size = 50"

text \<open>\<open>lastPage.nextPageToken || undefined\<close>\<close>

definition get_next_page_param :: "items_page \<Rightarrow> string option" where
  "get_next_page_param lastPage = (if pg_nextPageToken lastPage = [] then None else Some (pg_nextPageToken lastPage))"

text \<open>The pages a view has after loading as far as it can: \<open>None\<close> when the tokens never end.\<close>

partial_function (option) load_pages ::
  "(string \<Rightarrow> items_page) \<Rightarrow> string \<Rightarrow> items_page list \<Rightarrow> items_page list option" where
  "load_pages list_items pageParam pages =
     (case get_next_page_param (list_items pageParam) of
        None \<Rightarrow> Some (pages @ [list_items pageParam])
      | Some t \<Rightarrow> load_pages list_items t (pages @ [list_items pageParam]))"

declare load_pages.simps [code]

section \<open>Query keys\<close>

datatype file_sort = UPDATED_AT | SORT_NAME | SORT_SIZE

datatype key_value = StringValue string | SortValue file_sort

datatype key_part =
    KeyString string
  | KeyObject "(string \<times> key_value) list"
  | KeyStrings "string list"

type_synonym query_key = "key_part list"

definition all_key :: query_key where
  "all_key = [KeyString ''files'']"

definition trash_key :: query_key where
  "trash_key = all_key @ [KeyString ''trash'']"

definition folders_key :: query_key where
  "folders_key = all_key @ [KeyString ''folders'']"

definition folders_by_parent_key :: "string \<Rightarrow> query_key" where
  "folders_by_parent_key parentId = folders_key @ [KeyObject [(''parentId'', StringValue parentId)]]"

definition folder_items_key :: "string \<Rightarrow> file_sort \<Rightarrow> query_key" where
  "folder_items_key folderId srt =
     all_key @ [KeyString ''folder-items'', KeyObject [(''folderId'', StringValue folderId), (''sort'', SortValue srt)]]"

definition breadcrumbs_key :: "string \<Rightarrow> query_key" where
  "breadcrumbs_key folderId = all_key @ [KeyString ''breadcrumbs'', KeyObject [(''folderId'', StringValue folderId)]]"

definition recent_items_key :: query_key where
  "recent_items_key = all_key @ [KeyString ''recent-items'']"

definition thumbnail_urls_key :: "string list \<Rightarrow> query_key" where
  "thumbnail_urls_key ids = [KeyString ''thumbnail-urls'', KeyStrings ids]"

text \<open>
  Partial matching as documented: a filter matches a key it is a prefix of, where an object of the filter
  matches an object that has at least its fields.
\<close>

fun part_matches :: "key_part \<Rightarrow> key_part \<Rightarrow> bool" where
  "part_matches (KeyObject f) (KeyObject k) = (set f \<subseteq> set k)"
| "part_matches f k = (f = k)"

definition documented_matching :: "(query_key \<Rightarrow> query_key \<Rightarrow> bool) \<Rightarrow> bool" where
  "documented_matching matches \<longleftrightarrow>
     (\<forall>f k. matches f k \<longleftrightarrow> length f \<le> length k \<and> list_all2 part_matches f (take (length f) k))"

text \<open>An instance for concrete caches.\<close>

definition prefix_matching :: "query_key \<Rightarrow> query_key \<Rightarrow> bool" where
  "prefix_matching f k \<longleftrightarrow> length f \<le> length k \<and> list_all2 part_matches f (take (length f) k)"

section \<open>Thumbnails\<close>

definition thumbnail_url_batch_size :: nat where "thumbnail_url_batch_size = 100"

text \<open>\<open>Array.from(new Set(ids.filter(Boolean))).sort()\<close>\<close>

definition thumbnail_ids :: "string list \<Rightarrow> string list" where
  "thumbnail_ids fileIds = sort (js_set (truthy_strings fileIds))"

function thumbnail_batches_from :: "string list \<Rightarrow> nat \<Rightarrow> string list list" where
  "thumbnail_batches_from ids i =
     (if i < length ids
      then js_slice (int i) (int (i + thumbnail_url_batch_size)) ids #
             thumbnail_batches_from ids (i + thumbnail_url_batch_size)
      else [])"
  by pat_completeness auto
termination
  by (relation "measure (\<lambda>(ids, i). length ids - i)") (auto simp: thumbnail_url_batch_size_def)

declare thumbnail_batches_from.simps [simp del]

definition thumbnail_batches :: "string list \<Rightarrow> string list list" where
  "thumbnail_batches ids = thumbnail_batches_from ids 0"

text \<open>A response lists a file id and its URL, empty when there is none; the URLs are set one after the other.\<close>

definition thumbnail_url_map :: "(string \<times> string) list list \<Rightarrow> (string \<times> string) list" where
  "thumbnail_url_map responses =
     foldl (\<lambda>urls (fileId, url). if url \<noteq> [] then AList.update fileId url urls else urls) [] (concat responses)"

text \<open>\<open>Promise.all\<close> rejects when a batch does.\<close>

definition thumbnail_urls ::
  "(string list \<Rightarrow> js_error + (string \<times> string) list) \<Rightarrow> string list \<Rightarrow>
   string list list \<times> (js_error + (string \<times> string) list)" where
  "thumbnail_urls getThumbnailURLs fileIds =
     (let batches = thumbnail_batches (thumbnail_ids fileIds); responses = map getThumbnailURLs batches
      in (batches,
          case filter isl responses of
            Inl e # _ \<Rightarrow> Inl e
          | _ \<Rightarrow> Inr (thumbnail_url_map (map projr responses))))"

definition thumbnails_enabled :: "string list \<Rightarrow> bool" where
  "thumbnails_enabled fileIds \<longleftrightarrow> 0 < length (thumbnail_ids fileIds)"

section \<open>Mutations\<close>

datatype metadata_rpc =
    RenameFolder string string | RenameFile string string | DeleteFolder string | DeleteFile string
  | RestoreFile string | RestoreFolder string | MoveFolder string string | MoveFile string string
  | PermanentlyDeleteFile string | PermanentlyDeleteFolder string | CreateFolder string string

datatype file_mutation =
    UseRenameFolder string string | UseRenameFile string string | UseDeleteFolder string | UseDeleteFile string
  | UseRestoreFile string | UseRestoreFolder string | UseMoveFile string string | UseMoveFolder string string
  | UsePermanentlyDeleteFile string | UsePermanentlyDeleteFolder string
  | UseCreateFolder string "string option"

fun mutation_rpc :: "file_mutation \<Rightarrow> metadata_rpc" where
  "mutation_rpc (UseRenameFolder folderId newName) = RenameFolder folderId (js_trim newName)"
| "mutation_rpc (UseRenameFile fileId newName) = RenameFile fileId (js_trim newName)"
| "mutation_rpc (UseDeleteFolder folderId) = DeleteFolder folderId"
| "mutation_rpc (UseDeleteFile fileId) = DeleteFile fileId"
| "mutation_rpc (UseRestoreFile fileId) = RestoreFile fileId"
| "mutation_rpc (UseRestoreFolder folderId) = RestoreFolder folderId"
| "mutation_rpc (UseMoveFile itemId target) = MoveFile itemId target"
| "mutation_rpc (UseMoveFolder itemId target) = MoveFolder itemId target"
| "mutation_rpc (UsePermanentlyDeleteFile fileId) = PermanentlyDeleteFile fileId"
| "mutation_rpc (UsePermanentlyDeleteFolder folderId) = PermanentlyDeleteFolder folderId"
| "mutation_rpc (UseCreateFolder name parentId) =
     CreateFolder (case parentId of Some p \<Rightarrow> p | None \<Rightarrow> []) (js_trim name)"

text \<open>The filters a successful mutation invalidates, in order.\<close>

fun mutation_invalidates :: "file_mutation \<Rightarrow> query_key list" where
  "mutation_invalidates (UseCreateFolder name parentId) =
     (let p = (case parentId of Some p \<Rightarrow> p | None \<Rightarrow> [])
      in [folders_by_parent_key p, folder_items_key p UPDATED_AT, recent_items_key])"
| "mutation_invalidates _ = [all_key]"

definition invalidated :: "(query_key \<Rightarrow> query_key \<Rightarrow> bool) \<Rightarrow> query_key list \<Rightarrow> query_key \<Rightarrow> bool" where
  "invalidated matches filters key \<longleftrightarrow> list_ex (\<lambda>f. matches f key) filters"

subsection \<open>Moving\<close>

record move_item =
  mi_itemId :: string
  mi_isFolder :: bool
  mi_name :: "string option"

datatype move_item_result = MoveOk string | MoveFailed string "string option"

definition move_rpc :: "string \<Rightarrow> move_item \<Rightarrow> metadata_rpc" where
  "move_rpc target it = (if mi_isFolder it then MoveFolder (mi_itemId it) target else MoveFile (mi_itemId it) target)"

text \<open>\<open>Promise.allSettled\<close> over the moves; \<open>send\<close> is the outcome of an RPC.\<close>

definition move_items ::
  "(metadata_rpc \<Rightarrow> js_error option) \<Rightarrow> move_item list \<Rightarrow> string \<Rightarrow> metadata_rpc list \<times> move_item_result list" where
  "move_items send its target =
     (let rpcs = map (move_rpc target) its; results = map send rpcs
      in (rpcs, map (\<lambda>(it, result). if result = None then MoveOk (mi_itemId it)
                                    else MoveFailed (mi_itemId it) (mi_name it))
                  (zip its results)))"

section \<open>Downloads\<close>

text \<open>\<open>pendingIds\<close> and the downloads handed to the browser (URL, file name); \<open>dl_running\<close> is the history of calls
  in flight.\<close>

record download_state =
  dl_pendingIds :: "string list"
  dl_started :: "(string \<times> string) list"
  dl_running :: "string list"

definition download_start :: "string \<Rightarrow> download_state \<Rightarrow> download_state" where
  "download_start fileId s =
     s\<lparr>dl_pendingIds := js_set_add (dl_pendingIds s) fileId, dl_running := fileId # dl_running s\<rparr>"

text \<open>The ticket arrives or the call fails; the error goes to the caller.\<close>

definition download_finish ::
  "string \<Rightarrow> string \<Rightarrow> (js_error + string) \<Rightarrow> download_state \<Rightarrow> download_state \<times> js_error option" where
  "download_finish fileId filename ticket s =
     (let s' = s\<lparr>dl_pendingIds := filter (\<lambda>i. i \<noteq> fileId) (dl_pendingIds s),
                dl_running := remove1 fileId (dl_running s)\<rparr>
      in case ticket of
           Inl e \<Rightarrow> (s', Some e)
         | Inr url \<Rightarrow>
             if url = [] then (s', Some (JsError ''Download URL unavailable''))
             else (s'\<lparr>dl_started := dl_started s @ [(url, if filename = [] then ''download'' else filename)]\<rparr>, None))"

record content_url =
  cu_url :: string
  cu_filename :: string
  cu_contentType :: string
  cu_sizeBytes :: int

definition fetch_content_url :: "js_error + content_url \<Rightarrow> js_error + content_url" where
  "fetch_content_url response =
     (case response of
        Inl e \<Rightarrow> Inl e
      | Inr r \<Rightarrow> if cu_url r = [] then Inl (JsError ''Content URL unavailable'')
                 else Inr \<lparr>cu_url = cu_url r, cu_filename = cu_filename r, cu_contentType = cu_contentType r,
                           cu_sizeBytes = cu_sizeBytes r\<rparr>)"

definition content_url_enabled :: "string \<Rightarrow> bool option \<Rightarrow> bool" where
  "content_url_enabled fileId enabled \<longleftrightarrow> fileId \<noteq> [] \<and> (case enabled of Some b \<Rightarrow> b | None \<Rightarrow> True)"

section \<open>The mobile app's labels\<close>

definition root_label :: string where "root_label = ''Dropbox''"

definition label_separator :: string where
  "label_separator = [CHR '' '', CHR 0xE2, CHR 0x80, CHR 0xBA, CHR '' '']"

definition folder_label :: "string list \<Rightarrow> string" where
  "folder_label names = js_join label_separator (root_label # truthy_strings names)"

text \<open>One \<open>GetBreadcrumbs\<close> per distinct folder; a folder that fails to resolve gets no entry.\<close>

definition folder_labels :: "(string \<Rightarrow> js_error + string list) \<Rightarrow> string list \<Rightarrow> (string \<times> string) list" where
  "folder_labels getBreadcrumbs parentIds =
     foldl (\<lambda>labels folderId.
              case getBreadcrumbs folderId of
                Inl _ \<Rightarrow> labels
              | Inr names \<Rightarrow> AList.update folderId (folder_label names) labels)
       [] (thumbnail_ids parentIds)"

text \<open>\<open>useDeleteItem\<close>.\<close>

definition delete_item_rpc :: "string \<Rightarrow> bool \<Rightarrow> metadata_rpc" where
  "delete_item_rpc i isFolder = (if isFolder then DeleteFolder i else DeleteFile i)"

section \<open>Lemmas\<close>

lemma thumbnail_batches_chunks: "thumbnail_batches ids = chunks thumbnail_url_batch_size ids"
proof -
  have "thumbnail_batches_from ids i = chunks thumbnail_url_batch_size (drop i ids)" for i
  proof (induction ids i rule: thumbnail_batches_from.induct)
    case (1 ids i)
    show ?case
    proof (cases "i < length ids")
      case True
      have "0 < thumbnail_url_batch_size" by (simp add: thumbnail_url_batch_size_def)
      with True 1 [OF True] show ?thesis
        by (subst thumbnail_batches_from.simps) (simp only: js_slice_nat, simp add: chunks_Cons add.commute)
    next
      case False
      then show ?thesis by (subst thumbnail_batches_from.simps) simp
    qed
  qed
  from this [of 0] show ?thesis by (simp add: thumbnail_batches_def)
qed

lemma thumbnail_ids_facts:
  "distinct (thumbnail_ids fileIds)" "set (thumbnail_ids fileIds) = set fileIds - {[]}"
  "sorted (thumbnail_ids fileIds)"
  by (auto simp: thumbnail_ids_def truthy_strings_def)

lemma prefix_matching_documented: "documented_matching prefix_matching"
  by (simp add: documented_matching_def prefix_matching_def)

lemma all_key_matches:
  "documented_matching matches \<Longrightarrow> matches all_key k \<longleftrightarrow> (\<exists>rest. k = all_key @ rest)"
proof -
  have "list_all2 part_matches [KeyString ''files''] (take (Suc 0) k) \<and> Suc 0 \<le> length k \<longleftrightarrow> (\<exists>rest. k = KeyString ''files'' # rest)"
    by (cases k) (auto elim: part_matches.elims)
  moreover assume "documented_matching matches"
  ultimately show ?thesis by (auto simp: documented_matching_def all_key_def)
qed

section \<open>Properties\<close>

text \<open>
  One round of thumbnail requests asks for every nonempty file id exactly once, in batches of one to
  a hundred ids that only the last may leave unfilled, and the query key depends on the set of ids alone,
  not on their order or repetition.
\<close>
theorem thumbnail_batches_cover:
  "concat (fst (thumbnail_urls getThumbnailURLs fileIds)) = thumbnail_ids fileIds \<and>
   distinct (concat (fst (thumbnail_urls getThumbnailURLs fileIds))) \<and>
   set (concat (fst (thumbnail_urls getThumbnailURLs fileIds))) = set fileIds - {[]} \<and>
   list_all (\<lambda>b. b \<noteq> [] \<and> length b \<le> 100) (fst (thumbnail_urls getThumbnailURLs fileIds)) \<and>
   list_all (\<lambda>b. length b = 100) (butlast (fst (thumbnail_urls getThumbnailURLs fileIds))) \<and>
   thumbnail_ids fileIds = sorted_list_of_set (set fileIds - {[]})"
proof -
  have pos: "0 < thumbnail_url_batch_size" by (simp add: thumbnail_url_batch_size_def)
  have b: "fst (thumbnail_urls getThumbnailURLs fileIds) = chunks thumbnail_url_batch_size (thumbnail_ids fileIds)"
    by (simp add: thumbnail_urls_def thumbnail_batches_chunks Let_def)
  have s: "thumbnail_ids fileIds = sorted_list_of_set (set fileIds - {[]})"
    using thumbnail_ids_facts [of fileIds]
    by (metis sorted_list_of_set.idem_if_sorted_distinct)
  have "list_all (\<lambda>b. b \<noteq> [] \<and> length b \<le> 100) (chunks thumbnail_url_batch_size (thumbnail_ids fileIds))"
    using chunks_sizes [OF pos, of _ "thumbnail_ids fileIds"]
    by (auto simp: list_all_iff thumbnail_url_batch_size_def)
  moreover have "list_all (\<lambda>b. length b = 100) (butlast (chunks thumbnail_url_batch_size (thumbnail_ids fileIds)))"
    using chunks_full [OF pos, of _ "thumbnail_ids fileIds"]
    by (auto simp: list_all_iff thumbnail_url_batch_size_def)
  ultimately show ?thesis
    unfolding b concat_chunks [OF pos] using thumbnail_ids_facts [of fileIds] s by blast
qed

text \<open>
  Every mutation except the creation of a folder marks stale exactly the cached queries of the file tree.
  Creating a folder marks stale the folder lists and the item list of the parent as the caller named it, the
  latter only in the default sort, and the recent items.
\<close>
theorem mutations_invalidate:
  assumes "documented_matching matches"
  shows "((\<nexists>name p. m = UseCreateFolder name p) \<longrightarrow>
      (invalidated matches (mutation_invalidates m) k \<longleftrightarrow> (\<exists>rest. k = all_key @ rest))) \<and>
    (invalidated matches (mutation_invalidates (UseCreateFolder name (Some p))) (folder_items_key f s) \<longleftrightarrow>
       f = p \<and> s = UPDATED_AT)"
proof -
  have other: "mutation_invalidates m = [all_key]" if "\<nexists>name p. m = UseCreateFolder name p"
    using that by (cases m) auto
  have create: "invalidated matches (mutation_invalidates (UseCreateFolder name (Some p))) (folder_items_key f s) \<longleftrightarrow>
       f = p \<and> s = UPDATED_AT"
    using assms
    by (auto simp: invalidated_def documented_matching_def Let_def all_key_def folders_by_parent_key_def folders_key_def
        folder_items_key_def recent_items_key_def)
  show ?thesis using all_key_matches [OF assms, of k] create other by (simp add: invalidated_def)
qed

theorem mutations_invalidate_witness:
  "invalidated prefix_matching (mutation_invalidates (UseDeleteFile ''f'')) (folder_items_key ''d'' SORT_NAME) \<and>
   \<not> invalidated prefix_matching (mutation_invalidates (UseCreateFolder ''n'' (Some []))) (folder_items_key ''root-id'' UPDATED_AT)"
proof -
  have "\<exists>rest. folder_items_key ''d'' SORT_NAME = all_key @ rest" by (simp add: folder_items_key_def)
  with mutations_invalidate [OF prefix_matching_documented, of "UseDeleteFile ''f''" "folder_items_key ''d'' SORT_NAME"]
    mutations_invalidate [OF prefix_matching_documented, of _ _ "''n''" "[]" "''root-id''" UPDATED_AT]
  show ?thesis by simp
qed

text \<open>
  A batch move sends one request per item, to the folder or the file service by the item's type, and reports one
  result per item in the same order: failed exactly when its own request failed, and then with the item's name.
\<close>
theorem move_items_reports:
  "length (fst (move_items send its target)) = length its \<and>
   length (snd (move_items send its target)) = length its \<and>
   list_all2 (\<lambda>it r. r = (if send (move_rpc target it) = None then MoveOk (mi_itemId it)
                          else MoveFailed (mi_itemId it) (mi_name it))) its (snd (move_items send its target))"
  by (simp add: move_items_def Let_def list_all2_conv_all_nth)

end
