(* ===== verification/FileView.thy ===== *)
theory FileView
  imports FilesApi
begin

text \<open>
  The folder grid of the web app: items, selection, bulk actions, drag and drop and breadcrumbs of
  web/src/modules/files/views/file-view.tsx with web/src/modules/files/dnd, and the trash of
  web/src/modules/files/components/deleted-files-view.tsx.

  A user's answers (\<open>confirm\<close>, \<open>prompt\<close>) and the outcomes of RPCs are arguments; what a handler does is its
  list of RPCs, its alert and the new selection.
\<close>

section \<open>Lists without repetition\<close>

text \<open>
  The contract of a view's items: one per key, every key that was delivered, no item made up. Two
  views implement it, with different winners.
\<close>

locale unique_items =
  fixes dedupe :: "'i list \<Rightarrow> 'i list" and key :: "'i \<Rightarrow> 'k"
  assumes keys_distinct: "distinct (map key (dedupe xs))"
    and keys_kept: "set (map key (dedupe xs)) = set (map key xs)"
    and items_kept: "set (dedupe xs) \<subseteq> set xs"
begin

lemma dedupe_item_unique: "x \<in> set (dedupe xs) \<Longrightarrow> y \<in> set (dedupe xs) \<Longrightarrow> key x = key y \<Longrightarrow> x = y"
  using keys_distinct [of xs] by (auto simp: distinct_map inj_on_def)

lemma length_dedupe: "length (dedupe xs) = card (key ` set xs)"
proof -
  have "length (dedupe xs) = length (map key (dedupe xs))" by simp
  also have "\<dots> = card (set (map key (dedupe xs)))" by (rule distinct_card [OF keys_distinct, symmetric])
  also have "\<dots> = card (key ` set xs)" using keys_kept [of xs] by simp
  finally show ?thesis .
qed

end

definition item_key :: "item \<Rightarrow> string" where
  "item_key it = it_itemType it @ '':'' @ it_itemId it"

text \<open>\<open>Array.from(new Map(items.map((item) => [key, item])).values())\<close>\<close>

definition unique_view_items :: "item list \<Rightarrow> item list" where
  "unique_view_items xs = map snd (js_map_of (map (\<lambda>it. (item_key it, it)) xs))"

definition view_items :: "items_page list \<Rightarrow> item list" where
  "view_items pages = unique_view_items (concat (map pg_items pages))"

lemma js_map_of_snoc: "js_map_of (es @ [(k, v)]) = AList.update k v (js_map_of es)"
  by (simp add: js_map_of_def)

lemma js_map_of_facts:
  "distinct (map fst (js_map_of es))" "fst ` set (js_map_of es) = fst ` set es"
  "set (js_map_of es) \<subseteq> set es" "map_of (js_map_of es) k = map_of (rev es) k"
proof (induction es rule: rev_induct)
  case (snoc e es)
  obtain k' v where e: "e = (k', v)" by (cases e)
  { case 1 from snoc(1) show ?case unfolding e js_map_of_snoc by (rule distinct_update) }
  { case 2 from snoc(2) show ?case unfolding e js_map_of_snoc by (auto simp: dom_update [unfolded dom_map_of_conv_image_fst]) }
  { case 3
    have "set (AList.update k' v xs) \<subseteq> insert (k', v) (set xs)" for xs :: "('a \<times> 'b) list"
      by (induction xs) auto
    with snoc(3) show ?case unfolding e js_map_of_snoc by fastforce }
  { case 4 from snoc(4) show ?case unfolding e js_map_of_snoc by (simp add: update_conv') }
qed (simp_all add: js_map_of_def)

lemma item_keys_image: "(\<lambda>it. (item_key it, it)) ` set xs = {(item_key it, it) |it. it \<in> set xs}"
  by auto

lemma unique_view_items_assoc:
  "(k, it) \<in> set (js_map_of (map (\<lambda>it. (item_key it, it)) xs)) \<Longrightarrow> k = item_key it \<and> it \<in> set xs"
  using js_map_of_facts(3) [of "map (\<lambda>it. (item_key it, it)) xs"] by auto

lemma unique_view_items_keys:
  "map item_key (unique_view_items xs) = map fst (js_map_of (map (\<lambda>it. (item_key it, it)) xs))"
  by (auto simp: unique_view_items_def dest: unique_view_items_assoc)

interpretation web_items: unique_items unique_view_items item_key
proof
  fix xs
  let ?es = "map (\<lambda>it. (item_key it, it)) xs"
  show "distinct (map item_key (unique_view_items xs))"
    unfolding unique_view_items_keys by (rule js_map_of_facts(1))
  show "set (map item_key (unique_view_items xs)) = set (map item_key xs)"
    unfolding unique_view_items_keys using js_map_of_facts(2) [of ?es] by (simp add: image_image)
  show "set (unique_view_items xs) \<subseteq> set xs"
    by (auto simp: unique_view_items_def dest: unique_view_items_assoc)
qed

section \<open>Selections\<close>

text \<open>
  The contract of a selection: \<open>put s x b\<close> decides for the key of \<open>x\<close> and nothing else, \<open>empty\<close> selects nothing.
\<close>

locale selection =
  fixes member :: "'s \<Rightarrow> 'k \<Rightarrow> bool" and put :: "'s \<Rightarrow> 'x \<Rightarrow> bool \<Rightarrow> 's" and empty :: 's and key :: "'x \<Rightarrow> 'k"
  assumes member_put: "member (put s x b) k \<longleftrightarrow> (if k = key x then b else member s k)"
    and member_empty: "\<not> member empty k"
begin

lemma put_twice: "member (put (put s x b) x c) k = member (put s x c) k"
  by (simp add: member_put)

lemma put_commute: "key x \<noteq> key y \<Longrightarrow> member (put (put s x b) y c) k = member (put (put s y c) x b) k"
  by (simp add: member_put)

lemma member_puts: "member (foldl (\<lambda>s x. put s x True) s xs) k \<longleftrightarrow> member s k \<or> k \<in> key ` set xs"
  by (induction xs arbitrary: s) (auto simp: member_put)

lemma puts_exactly: "member (foldl (\<lambda>s x. put s x True) empty xs) k \<longleftrightarrow> k \<in> key ` set xs"
  by (simp add: member_puts member_empty)

end

type_synonym id_set = "string list"

definition set_item_selected :: "id_set \<Rightarrow> string \<Rightarrow> bool \<Rightarrow> id_set" where
  "set_item_selected current itemId selected =
     (if selected then js_set_add current itemId else filter (\<lambda>i. i \<noteq> itemId) current)"

definition toggle_all :: "item list \<Rightarrow> bool \<Rightarrow> id_set" where
  "toggle_all items selected = (if selected then js_set (map it_itemId items) else [])"

definition selected_items :: "item list \<Rightarrow> id_set \<Rightarrow> item list" where
  "selected_items items selectedIds = filter (\<lambda>it. it_itemId it \<in> set selectedIds) items"

definition all_selected :: "item list \<Rightarrow> id_set \<Rightarrow> bool" where
  "all_selected items selectedIds \<longleftrightarrow>
     0 < length items \<and> length (selected_items items selectedIds) = length items"

interpretation view_selection: selection "\<lambda>s k. k \<in> set s" set_item_selected "[]" "\<lambda>i. i"
  by unfold_locales (auto simp: set_item_selected_def js_set_add_def)

lemma all_selected_iff: "all_selected items s \<longleftrightarrow> items \<noteq> [] \<and> list_all (\<lambda>it. it_itemId it \<in> set s) items"
proof -
  have "length (filter P xs) = length xs \<longleftrightarrow> list_all P xs" for P and xs :: "item list"
    by (induction xs) (auto simp: le_imp_less_Suc less_imp_neq)
  then show ?thesis by (simp add: all_selected_def selected_items_def)
qed

section \<open>Bulk actions\<close>

definition is_folder :: "item \<Rightarrow> bool" where
  "is_folder it = (case it_details it of FolderDetails _ \<Rightarrow> True | _ \<Rightarrow> False)"

definition is_file :: "item \<Rightarrow> bool" where
  "is_file it = (case it_details it of FileDetails _ \<Rightarrow> True | _ \<Rightarrow> False)"

definition ldquo :: string where "ldquo = [CHR 0xE2, CHR 0x80, CHR 0x9C]"
definition rdquo :: string where "rdquo = [CHR 0xE2, CHR 0x80, CHR 0x9D]"
definition em_dash :: string where "em_dash = [CHR 0xE2, CHR 0x80, CHR 0x94]"
definition hellip :: string where "hellip = [CHR 0xE2, CHR 0x80, CHR 0xA6]"

text \<open>The files whose download is started, and the alert that ends the loop.\<close>

fun download_files :: "(string \<Rightarrow> js_error option) \<Rightarrow> item list \<Rightarrow> string list \<times> string option" where
  "download_files download [] = ([], None)"
| "download_files download (it # its) =
     (case download (it_itemId it) of
        Some e \<Rightarrow>
          ([it_itemId it],
           Some (''Could not start the download for '' @ ldquo @
                 (case it_details it of FileDetails filename \<Rightarrow> filename | _ \<Rightarrow> it_itemId it) @ rdquo @ '': '' @
                 error_message ''unknown error'' e))
      | None \<Rightarrow> let (started, alert) = download_files download its in (it_itemId it # started, alert))"

definition download_selected ::
  "(string \<Rightarrow> js_error option) \<Rightarrow> item list \<Rightarrow> id_set \<Rightarrow> string list \<times> string option" where
  "download_selected download items selectedIds =
     (let files = filter is_file (selected_items items selectedIds)
      in if length files = 0 then ([], Some ''Select at least one file to download.'')
         else download_files download files)"

definition delete_rpc :: "item \<Rightarrow> metadata_rpc" where
  "delete_rpc it = (if is_folder it then DeleteFolder (it_itemId it) else DeleteFile (it_itemId it))"

text \<open>\<open>Promise.all\<close>: a failure rejects the handler before it clears the selection.\<close>

definition delete_selected ::
  "bool \<Rightarrow> (metadata_rpc \<Rightarrow> js_error option) \<Rightarrow> item list \<Rightarrow> id_set \<Rightarrow> metadata_rpc list \<times> id_set" where
  "delete_selected confirmed send items selectedIds =
     (if \<not> confirmed then ([], selectedIds)
      else let rpcs = map delete_rpc (selected_items items selectedIds)
           in (rpcs, if list_all (\<lambda>q. send q = None) rpcs then [] else selectedIds))"

text \<open>The folder menu: \<open>answer\<close> is what \<open>window.prompt\<close> returns.\<close>

definition rename_folder_prompt :: "string \<Rightarrow> string \<Rightarrow> string option \<Rightarrow> file_mutation option" where
  "rename_folder_prompt folderId name answer =
     (case answer of
        None \<Rightarrow> None
      | Some a \<Rightarrow> let nextName = js_trim a
                  in if nextName = [] \<or> nextName = name then None else Some (UseRenameFolder folderId nextName))"

definition remove_folder :: "string \<Rightarrow> bool \<Rightarrow> file_mutation option" where
  "remove_folder folderId confirmed = (if confirmed then Some (UseDeleteFolder folderId) else None)"

section \<open>Drag and drop\<close>

record item_drag_data =
  dd_isFolder :: bool
  dd_itemId :: string
  dd_name :: string
  dd_dragCount :: int
  dd_fromFolderId :: string

text \<open>A payload of this view, or one of another source.\<close>

datatype drag_payload = ItemDrag item_drag_data | OtherDrag

datatype drop_data = FolderDrop string | RootDrop | OtherDrop

fun is_item_drag_data :: "drag_payload \<Rightarrow> bool" where
  "is_item_drag_data (ItemDrag d) = (0 < dd_dragCount d)"
| "is_item_drag_data OtherDrag = False"

fun is_file_view_drop_data :: "drop_data \<Rightarrow> bool" where
  "is_file_view_drop_data OtherDrop = False"
| "is_file_view_drop_data _ = True"

text \<open>The payload of a card.\<close>

definition card_drag_data :: "string \<Rightarrow> item list \<Rightarrow> id_set \<Rightarrow> item \<Rightarrow> item_drag_data" where
  "card_drag_data currentFolderId items selectedIds it =
     \<lparr>dd_isFolder = is_folder it, dd_itemId = it_itemId it,
      dd_name = (case it_details it of FolderDetails n \<Rightarrow> n | FileDetails n \<Rightarrow> n | NoDetails \<Rightarrow> ''Unnamed file''),
      dd_dragCount = (if it_itemId it \<in> set selectedIds then int (length (selected_items items selectedIds)) else 1),
      dd_fromFolderId = currentFolderId\<rparr>"

record move_payload =
  mp_itemId :: string
  mp_isFolder :: bool

definition get_selected_items :: "item list \<Rightarrow> id_set \<Rightarrow> move_payload list" where
  "get_selected_items items selectedIds =
     map (\<lambda>it. \<lparr>mp_itemId = it_itemId it, mp_isFolder = is_folder it\<rparr>) (selected_items items selectedIds)"

text \<open>\<open>onDrop\<close>: the drop targets come innermost first. The value is the call of \<open>onMoveItems\<close>, if any.\<close>

definition item_move_monitor ::
  "drag_payload \<Rightarrow> drop_data list \<Rightarrow> move_payload list \<Rightarrow> (move_payload list \<times> string) option" where
  "item_move_monitor source dropTargets selected =
     (case source of
        OtherDrag \<Rightarrow> None
      | ItemDrag d \<Rightarrow>
          if \<not> is_item_drag_data source then None
          else (case List.find is_file_view_drop_data dropTargets of
                  None \<Rightarrow> None
                | Some target \<Rightarrow>
                    let targetFolderId = (case target of FolderDrop f \<Rightarrow> f | _ \<Rightarrow> []);
                        isSelectedDrag = list_ex (\<lambda>s. mp_itemId s = dd_itemId d) selected
                    in if dd_isFolder d \<and> dd_itemId d = targetFolderId then None
                       else if \<not> isSelectedDrag \<and> dd_fromFolderId d = targetFolderId then None
                       else Some (if isSelectedDrag then selected
                                  else [\<lparr>mp_itemId = dd_itemId d, mp_isFolder = dd_isFolder d\<rparr>], targetFolderId)))"

text \<open>\<open>byId\<close> is \<open>new Map(items.map((item) => [item.itemId, item]))\<close>.\<close>

definition items_by_id :: "item list \<Rightarrow> (string \<times> item) list" where
  "items_by_id items = js_map_of (map (\<lambda>it. (it_itemId it, it)) items)"

definition move_skipped :: "item list \<Rightarrow> string \<Rightarrow> move_payload \<Rightarrow> bool" where
  "move_skipped items targetFolderId m =
     (case map_of (items_by_id items) (mp_itemId m) of
        None \<Rightarrow> True
      | Some it \<Rightarrow> it_folderId it = targetFolderId)"

definition name_of :: "item list \<Rightarrow> string \<Rightarrow> string option" where
  "name_of items itemId =
     (case map_of (items_by_id items) itemId of
        None \<Rightarrow> None
      | Some it \<Rightarrow> (case it_details it of FileDetails n \<Rightarrow> Some n | FolderDetails n \<Rightarrow> Some n | NoDetails \<Rightarrow> None))"

definition move_failure_alert :: "move_item_result list \<Rightarrow> string option" where
  "move_failure_alert results =
     (let failed = filter (\<lambda>r. case r of MoveFailed _ _ \<Rightarrow> True | MoveOk _ \<Rightarrow> False) results;
          names = js_join '', '' (take 5 (map (\<lambda>r. case r of MoveFailed i n \<Rightarrow> (case n of Some s \<Rightarrow> s | None \<Rightarrow> i)
                                                            | MoveOk i \<Rightarrow> i) failed))
      in if length failed = 0 then None
         else Some (if length failed = 1
                    then ''Unable to move '' @ [CHR 0x22] @ names @ [CHR 0x22] @ '' '' @ em_dash @
                         '' it may have been deleted or the move would create a cycle.''
                    else ''Unable to move '' @ show_nat (length failed) @ '' item(s): '' @ names @
                         (if 5 < length failed then hellip else [])))"

text \<open>\<open>moveSelection\<close>: the batch handed to \<open>useMoveItems\<close> and the alert after it; no batch when every move is skipped.\<close>

definition move_selection ::
  "(metadata_rpc \<Rightarrow> js_error option) \<Rightarrow> item list \<Rightarrow> move_payload list \<Rightarrow> string \<Rightarrow>
   metadata_rpc list \<times> string option" where
  "move_selection send items moves targetFolderId =
     (let actionable = filter (\<lambda>m. \<not> move_skipped items targetFolderId m) moves
      in if length actionable = 0 then ([], None)
         else let (rpcs, results) =
                    move_items send
                      (map (\<lambda>m. \<lparr>mi_itemId = mp_itemId m, mi_isFolder = mp_isFolder m,
                                 mi_name = name_of items (mp_itemId m)\<rparr>) actionable) targetFolderId
              in (rpcs, move_failure_alert results))"

definition drop_items ::
  "(metadata_rpc \<Rightarrow> js_error option) \<Rightarrow> item list \<Rightarrow> id_set \<Rightarrow> drag_payload \<Rightarrow> drop_data list \<Rightarrow>
   metadata_rpc list \<times> string option" where
  "drop_items send items selectedIds source dropTargets =
     (case item_move_monitor source dropTargets (get_selected_items items selectedIds) of
        None \<Rightarrow> ([], None)
      | Some (moves, targetFolderId) \<Rightarrow> move_selection send items moves targetFolderId)"

section \<open>Breadcrumbs\<close>

datatype crumb_entry = CrumbText string | CrumbLink string string

definition crumbs_is_root :: "(string \<times> string) list option \<Rightarrow> bool" where
  "crumbs_is_root crumbs = (case crumbs of None \<Rightarrow> True | Some cs \<Rightarrow> length cs \<le> 1)"

text \<open>The entries after the home link; a crumb is a folder id and a name.\<close>

definition crumb_entries :: "(string \<times> string) list \<Rightarrow> crumb_entry list" where
  "crumb_entries crumbs =
     concat (map (\<lambda>(index, folderId, name).
                    if index = 0 \<and> name = [] then []
                    else let label = (if name = [] then ''My files'' else name)
                         in [if index = length crumbs - 1 then CrumbText label
                             else CrumbLink label (''/files/'' @ folderId)])
              (zip [0..<length crumbs] crumbs))"

text \<open>\<open>FolderTitle\<close> of the header.\<close>

definition folder_title :: "(string \<times> string) list option \<Rightarrow> string" where
  "folder_title crumbs =
     (case crumbs of
        Some (c # cs) \<Rightarrow> let name = snd (last (c # cs)) in if name = [] then ''My Files'' else name
      | _ \<Rightarrow> ''My Files'')"

section \<open>The trash\<close>

record trashed =
  tr_id :: string
  tr_name :: string
  tr_deletedAt :: string

record trash_page =
  tp_files :: "trashed list"
  tp_folders :: "trashed list"

record deleted_item =
  di_id :: string
  di_name :: string
  di_deletedAt :: string
  di_isFolder :: bool

definition deleted_items :: "trash_page list \<Rightarrow> deleted_item list" where
  "deleted_items pages =
     concat (map (\<lambda>page.
       map (\<lambda>f. \<lparr>di_id = tr_id f, di_name = (if tr_name f = [] then ''Unnamed file'' else tr_name f),
                  di_deletedAt = tr_deletedAt f, di_isFolder = False\<rparr>) (tp_files page) @
       map (\<lambda>f. \<lparr>di_id = tr_id f, di_name = (if tr_name f = [] then ''Unnamed folder'' else tr_name f),
                  di_deletedAt = tr_deletedAt f, di_isFolder = True\<rparr>) (tp_folders page)) pages)"

definition deleted_key :: "deleted_item \<Rightarrow> string" where
  "deleted_key it = (if di_isFolder it then ''folder'' else ''file'') @ '':'' @ di_id it"

definition set_deleted_selected :: "id_set \<Rightarrow> deleted_item \<Rightarrow> bool \<Rightarrow> id_set" where
  "set_deleted_selected current it selected =
     (if selected then js_set_add current (deleted_key it) else filter (\<lambda>k. k \<noteq> deleted_key it) current)"

definition toggle_all_deleted :: "deleted_item list \<Rightarrow> bool \<Rightarrow> id_set" where
  "toggle_all_deleted items selected = (if selected then js_set (map deleted_key items) else [])"

definition selected_deleted :: "deleted_item list \<Rightarrow> id_set \<Rightarrow> deleted_item list" where
  "selected_deleted items selectedKeys = filter (\<lambda>it. deleted_key it \<in> set selectedKeys) items"

interpretation trash_selection: selection "\<lambda>s k. k \<in> set s" set_deleted_selected "[]" deleted_key
  by unfold_locales (auto simp: set_deleted_selected_def js_set_add_def)

definition restore_rpc :: "deleted_item \<Rightarrow> metadata_rpc" where
  "restore_rpc it = (if di_isFolder it then RestoreFolder (di_id it) else RestoreFile (di_id it))"

definition restore_selected ::
  "(metadata_rpc \<Rightarrow> js_error option) \<Rightarrow> deleted_item list \<Rightarrow> id_set \<Rightarrow> metadata_rpc list \<times> id_set" where
  "restore_selected send items selectedKeys =
     (let rpcs = map restore_rpc (selected_deleted items selectedKeys)
      in (rpcs, if list_all (\<lambda>q. send q = None) rpcs then [] else selectedKeys))"

definition plural_s :: "nat \<Rightarrow> string" where
  "plural_s n = (if n = 1 then [] else ''s'')"

definition described :: "nat \<Rightarrow> nat \<Rightarrow> string" where
  "described files folders =
     js_join '' and ''
       (truthy_strings
         [if 0 < files then show_nat files @ '' file'' @ plural_s files else [],
          if 0 < folders then show_nat folders @ '' folder'' @ plural_s folders @ '' and everything inside'' else []])"

text \<open>A target fails when its RPC does, or when a folder reports files it could not delete.\<close>

definition permanent_rpc :: "deleted_item \<Rightarrow> metadata_rpc" where
  "permanent_rpc it = (if di_isFolder it then PermanentlyDeleteFolder (di_id it) else PermanentlyDeleteFile (di_id it))"

definition target_failed :: "(metadata_rpc \<Rightarrow> js_error + int) \<Rightarrow> deleted_item \<Rightarrow> bool" where
  "target_failed send it =
     (case send (permanent_rpc it) of Inl _ \<Rightarrow> True | Inr failedCount \<Rightarrow> di_isFolder it \<and> 0 < failedCount)"

record permanent_outcome =
  po_confirm :: "string option"
  po_rpcs :: "metadata_rpc list"
  po_selected :: id_set
  po_alert :: "string option"

definition permanently_delete_selected ::
  "(string \<Rightarrow> bool) \<Rightarrow> (metadata_rpc \<Rightarrow> js_error + int) \<Rightarrow> deleted_item list \<Rightarrow> id_set \<Rightarrow> permanent_outcome" where
  "permanently_delete_selected confirm send items selectedKeys =
     (let selected = selected_deleted items selectedKeys;
          files = filter (\<lambda>it. \<not> di_isFolder it) selected;
          folders = filter di_isFolder selected
      in if length files = 0 \<and> length folders = 0
         then \<lparr>po_confirm = None, po_rpcs = [], po_selected = selectedKeys, po_alert = None\<rparr>
         else let question = ''Permanently delete '' @ described (length files) (length folders) @
                             ''? This cannot be undone.''
              in if \<not> confirm question
                 then \<lparr>po_confirm = Some question, po_rpcs = [], po_selected = selectedKeys, po_alert = None\<rparr>
                 else let targets = files @ folders; failed = filter (target_failed send) targets
                      in \<lparr>po_confirm = Some question, po_rpcs = map permanent_rpc targets, po_selected = [],
                          po_alert =
                            (if 0 < length failed
                             then Some (''Could not delete '' @
                                    js_join '', '' (map (\<lambda>it. [CHR 0x22] @ di_name it @ [CHR 0x22]) failed) @
                                    ''. Some content may remain.'')
                             else None)\<rparr>)"

text \<open>\<open>locale_string\<close> is the formatting of a date, \<open>None\<close> for a text that is no date.\<close>

definition format_deleted_at :: "(string \<Rightarrow> string option) \<Rightarrow> string \<Rightarrow> string" where
  "format_deleted_at locale_string v =
     (if v = [] then em_dash else case locale_string v of None \<Rightarrow> v | Some t \<Rightarrow> t)"

section \<open>Lemmas\<close>

lemma items_by_id_distinct:
  assumes "distinct (map it_itemId items)" and "it \<in> set items"
  shows "map_of (items_by_id items) (it_itemId it) = Some it"
proof -
  have "map_of (items_by_id items) (it_itemId it) = map_of (rev (map (\<lambda>it. (it_itemId it, it)) items)) (it_itemId it)"
    unfolding items_by_id_def by (rule js_map_of_facts(4))
  also have "\<dots> = map_of (map (\<lambda>it. (it_itemId it, it)) (rev items)) (it_itemId it)" by (simp add: rev_map)
  also have "\<dots> = Some it"
    using assms by (intro map_of_is_SomeI) (auto simp: o_def rev_map [symmetric])
  finally show ?thesis .
qed

text \<open>What a drop takes along: the items to move, before those already in place are left out.\<close>

definition dragged_items :: "string \<Rightarrow> item list \<Rightarrow> id_set \<Rightarrow> item \<Rightarrow> string \<Rightarrow> item list" where
  "dragged_items cur items sel x target =
     (if is_folder x \<and> it_itemId x = target then []
      else if it_itemId x \<in> set sel then selected_items items sel
      else if cur = target then [] else [x])"

definition item_move_rpc :: "string \<Rightarrow> item \<Rightarrow> metadata_rpc" where
  "item_move_rpc target it = (if is_folder it then MoveFolder (it_itemId it) target else MoveFile (it_itemId it) target)"

lemma move_selection_items:
  assumes "distinct (map it_itemId items)" and "set its \<subseteq> set items"
  shows "fst (move_selection send items (map (\<lambda>it. \<lparr>mp_itemId = it_itemId it, mp_isFolder = is_folder it\<rparr>) its) target) =
    map (item_move_rpc target) (filter (\<lambda>it. it_folderId it \<noteq> target) its)"
proof -
  let ?p = "\<lambda>it. \<lparr>mp_itemId = it_itemId it, mp_isFolder = is_folder it\<rparr>"
  have "move_skipped items target (?p it) \<longleftrightarrow> it_folderId it = target" if "it \<in> set its" for it
    using items_by_id_distinct [OF assms(1), of it] that assms(2) by (auto simp: move_skipped_def)
  then have "filter (\<lambda>m. \<not> move_skipped items target m) (map ?p its) = map ?p (filter (\<lambda>it. it_folderId it \<noteq> target) its)"
    unfolding filter_map o_def by (intro arg_cong [of _ _ "map ?p"] filter_cong) auto
  then show ?thesis
    by (auto simp: move_selection_def Let_def move_items_def case_prod_beta o_def move_rpc_def item_move_rpc_def)
qed

section \<open>Properties\<close>

text \<open>
  The requests of a drop: the innermost target decides where, the selection goes along with a selected card, and what is in the
  target folder already is left out.
\<close>

lemma drop_requests:
  assumes "distinct (map it_itemId items)" and "x \<in> set items"
  shows "fst (drop_items send items sel (ItemDrag (card_drag_data cur items sel x)) dropTargets) =
    (case List.find is_file_view_drop_data dropTargets of
       None \<Rightarrow> []
     | Some t \<Rightarrow>
         let target = (case t of FolderDrop f \<Rightarrow> f | _ \<Rightarrow> [])
         in map (item_move_rpc target) (filter (\<lambda>it. it_folderId it \<noteq> target) (dragged_items cur items sel x target)))"
proof (cases "List.find is_file_view_drop_data dropTargets")
  case None
  then show ?thesis by (simp add: drop_items_def item_move_monitor_def)
next
  case (Some t)
  let ?target = "case t of FolderDrop f \<Rightarrow> f | _ \<Rightarrow> []"
  have "x \<in> set (selected_items items sel)" if "it_itemId x \<in> set sel"
    using that assms(2) by (simp add: selected_items_def)
  then have count: "is_item_drag_data (ItemDrag (card_drag_data cur items sel x))"
    by (auto simp: card_drag_data_def dest: length_pos_if_in_set)
  have sel_iff: "list_ex (\<lambda>s. mp_itemId s = it_itemId x) (get_selected_items items sel) \<longleftrightarrow> it_itemId x \<in> set sel"
    using assms(2) by (auto simp: get_selected_items_def list_ex_iff selected_items_def)
  have moves: "fst (move_selection send items (map (\<lambda>it. \<lparr>mp_itemId = it_itemId it, mp_isFolder = is_folder it\<rparr>) its) target) =
      map (item_move_rpc target) (filter (\<lambda>it. it_folderId it \<noteq> target) its)" if "set its \<subseteq> set items" for its target
    by (rule move_selection_items [OF assms(1) that])
  have selected: "set (selected_items items sel) \<subseteq> set items" by (auto simp: selected_items_def)
  have "drop_items send items sel (ItemDrag (card_drag_data cur items sel x)) dropTargets =
    (if is_folder x \<and> it_itemId x = ?target then ([], None)
     else if it_itemId x \<in> set sel then move_selection send items (get_selected_items items sel) ?target
     else if cur = ?target then ([], None)
     else move_selection send items [\<lparr>mp_itemId = it_itemId x, mp_isFolder = is_folder x\<rparr>] ?target)"
    using count Some sel_iff
    by (simp add: drop_items_def item_move_monitor_def Let_def card_drag_data_def)
  with Some moves [OF selected, of ?target] moves [of "[x]" ?target] assms(2) show ?thesis
    by (auto simp: dragged_items_def get_selected_items_def Let_def)
qed



definition example_folder :: item where
  "example_folder = \<lparr>it_itemType = ''folder'', it_itemId = ''f'', it_folderId = ''root'', it_details = FolderDetails ''Work''\<rparr>"

definition example_note :: item where
  "example_note = \<lparr>it_itemType = ''file'', it_itemId = ''n'', it_folderId = ''root'', it_details = FileDetails ''n.txt''\<rparr>"



text \<open>
  The case the guards miss: the monitor asks only whether the dragged card is the target. When another card of the selection is
  dragged onto a selected folder, that folder is asked to move into itself.
\<close>

lemma folder_moved_into_itself:
  "fst (drop_items (\<lambda>_. None) [example_folder, example_note] [''f'', ''n'']
      (ItemDrag (card_drag_data ''root'' [example_folder, example_note] [''f'', ''n''] example_note))
      [FolderDrop ''f'', RootDrop]) = [MoveFolder ''f'' ''f'', MoveFile ''n'' ''f'']"
proof -
  have d: "distinct (map it_itemId [example_folder, example_note])" "example_note \<in> set [example_folder, example_note]"
    by (simp_all add: example_folder_def example_note_def)
  show ?thesis
    unfolding drop_requests [OF d]
    by (simp add: dragged_items_def selected_items_def item_move_rpc_def example_folder_def example_note_def
        is_folder_def Let_def)
qed

text \<open>
  The grid shows every delivered item once, in its latest version: keys are distinct, none is lost, and the item
  shown for a key is the last one the pages list under it.
\<close>
theorem view_items_unique:
  "distinct (map item_key (view_items pages)) \<and>
   set (map item_key (view_items pages)) = item_key ` set (concat (map pg_items pages)) \<and>
   list_all (\<lambda>it. it = last (filter (\<lambda>j. item_key j = item_key it) (concat (map pg_items pages)))) (view_items pages)"
proof -
  let ?xs = "concat (map pg_items pages)"
  let ?es = "map (\<lambda>it. (item_key it, it)) ?xs"
  have last: "map_of (map (\<lambda>it. (item_key it, it)) (rev xs)) k = Some it \<Longrightarrow>
      it = last (filter (\<lambda>j. item_key j = k) xs)" for xs k and it :: item
    by (induction xs rule: rev_induct) (auto split: if_splits)
  have "it = last (filter (\<lambda>j. item_key j = item_key it) ?xs)" if "it \<in> set (view_items pages)" for it
  proof -
    from that obtain k where k: "(k, it) \<in> set (js_map_of ?es)"
      by (auto simp: view_items_def unique_view_items_def)
    with unique_view_items_assoc [OF k] have "(item_key it, it) \<in> set (js_map_of ?es)" by simp
    then have "map_of (js_map_of ?es) (item_key it) = Some it"
      using js_map_of_facts(1) [of ?es] by (metis map_of_is_SomeI)
    then have "map_of (map (\<lambda>it. (item_key it, it)) (rev ?xs)) (item_key it) = Some it"
      by (simp add: js_map_of_facts(4) rev_map)
    then show ?thesis by (rule last)
  qed
  then show ?thesis
    using web_items.keys_distinct [of ?xs] web_items.keys_kept [of ?xs]
    by (simp add: view_items_def list_all_iff)
qed

text \<open>
  Selecting everything selects every shown item and nothing else; taking one item away afterwards leaves exactly
  the items with another id.
\<close>
theorem select_all_then_deselect:
  "selected_items items (toggle_all items True) = items \<and>
   (all_selected items (toggle_all items True) \<longleftrightarrow> items \<noteq> []) \<and>
   selected_items items (set_item_selected (toggle_all items True) i False) = filter (\<lambda>it. it_itemId it \<noteq> i) items"
proof -
  have all: "it_itemId it \<in> set (toggle_all items True)" if "it \<in> set items" for it
    using that by (simp add: toggle_all_def)
  have "it_itemId it \<in> set (set_item_selected (toggle_all items True) i False) \<longleftrightarrow> it_itemId it \<noteq> i"
    if "it \<in> set items" for it
    using all [OF that] view_selection.member_put [of "it_itemId it" "toggle_all items True" i False] by auto
  with all show ?thesis
    by (auto simp: selected_items_def all_selected_iff list_all_iff intro: filter_cong)
qed

text \<open>
  A confirmed permanent deletion asks for every selected item once, files before folders, clears the selection, and
  its alert is there exactly when some item failed - a folder also when it reports files left over.
  Without confirmation nothing happens.
\<close>
theorem permanent_delete_reports:
  "(let selected = selected_deleted items keys;
        r = permanently_delete_selected confirm send items keys
    in if selected \<noteq> [] \<and> (\<exists>q. po_confirm r = Some q \<and> confirm q)
       then mset (po_rpcs r) = mset (map permanent_rpc selected) \<and> po_selected r = [] \<and>
            (po_alert r = None \<longleftrightarrow> list_all (\<lambda>it. \<not> target_failed send it) selected)
       else po_rpcs r = [] \<and> po_selected r = keys \<and> po_alert r = None)"
proof -
  let ?s = "selected_deleted items keys"
  have nonempty: "filter (\<lambda>it. \<not> di_isFolder it) ?s = [] \<and> filter di_isFolder ?s = [] \<longleftrightarrow> ?s = []"
    by (auto simp: filter_empty_conv)
  have "mset (map permanent_rpc (filter (\<lambda>it. \<not> di_isFolder it) xs)) +
      mset (map permanent_rpc (filter di_isFolder xs)) = mset (map permanent_rpc xs)" for xs
    by (induction xs) auto
  note parts = this [of ?s]
  have failed: "filter (target_failed send) (filter (\<lambda>it. \<not> di_isFolder it) ?s) = [] \<and>
      filter (target_failed send) (filter di_isFolder ?s) = [] \<longleftrightarrow> list_all (\<lambda>it. \<not> target_failed send it) ?s"
    by (auto simp: filter_empty_conv list_all_iff)
  show ?thesis
    using nonempty parts failed
    by (auto simp: permanently_delete_selected_def Let_def)
qed

end
