(* ===== verification/FileDisplay.thy ===== *)
theory FileDisplay
  imports Prelude "HOL-Library.Log_Nat"
begin

text \<open>
  How files are described: sizes, ages, kinds and icons. \<open>formatBytes\<close> and \<open>formatRelativeTime\<close> of
  web/src/lib/utils.ts, the helpers of native/src/modules/files/lib/file-display.ts, and \<open>formatBytes\<close>
  and \<open>getFileIcon\<close> of web/src/modules/files/components/file-uploader.tsx.

  Sizes are whole numbers below \<open>2 ^ 53\<close>, which doubles hold exactly; dividing one by a power of 1024 is
  exact too, so \<open>toFixed\<close> rounds the exact quotient and the arithmetic here is that of the code. The
  logarithms are taken as exact. \<open>Date.parse\<close>, the clock and \<open>Intl.RelativeTimeFormat\<close> are arguments.
\<close>

section \<open>Numbers\<close>

text \<open>\<open>Math.round (a / b)\<close> for a positive \<open>b\<close>: halves go up.\<close>

definition round_quotient :: "int \<Rightarrow> int \<Rightarrow> int" where
  "round_quotient a b = (2 * a + b) div (2 * b)"

text \<open>The decimal text of \<open>n / 10 ^ d\<close> with \<open>d\<close> digits after the point.\<close>

definition show_fixed :: "nat \<Rightarrow> nat \<Rightarrow> string" where
  "show_fixed n d =
     (if d = 0 then show_nat n
      else let frac = show_nat (n mod 10 ^ d)
           in show_nat (n div 10 ^ d) @ ''.'' @ replicate (d - length frac) (CHR ''0'') @ frac)"

text \<open>\<open>(a / b).toFixed(d)\<close> as the digits of \<open>n / 10 ^ d\<close>: the nearest such number, the larger on a tie.\<close>

definition fixed_digits :: "nat \<Rightarrow> nat \<Rightarrow> nat \<Rightarrow> nat" where
  "fixed_digits a b d = nat (round_quotient (int (a * 10 ^ d)) (int b))"

definition to_fixed :: "nat \<Rightarrow> nat \<Rightarrow> nat \<Rightarrow> string" where
  "to_fixed a b d = show_fixed (fixed_digits a b d) d"

text \<open>\<open>Math.floor(Math.log2(value) / 10)\<close>, and \<open>Math.floor(Math.log(bytes) / Math.log(1024))\<close>.\<close>

definition log1024 :: "nat \<Rightarrow> nat" where
  "log1024 v = (floorlog 2 v - 1) div 10"

section \<open>Sizes\<close>

datatype byte_count = NoBytes | WholeBytes int | NotFinite

definition size_units :: "string list" where
  "size_units = [''B'', ''KB'', ''MB'', ''GB'', ''TB'']"

definition format_bytes :: "byte_count \<Rightarrow> string" where
  "format_bytes bytes =
     (case (case bytes of NoBytes \<Rightarrow> Some 0 | WholeBytes n \<Rightarrow> Some n | NotFinite \<Rightarrow> None) of
        None \<Rightarrow> ''0 B''
      | Some size_value \<Rightarrow>
          if size_value \<le> 0 then ''0 B''
          else let v = nat size_value;
                   exponent = min (log1024 v) (length size_units - 1);
                   digits = (if 100 * 1024 ^ exponent \<le> v \<or> exponent = 0 then 0 else 1)
               in to_fixed v (1024 ^ exponent) digits @ '' '' @ size_units ! exponent)"

text \<open>\<open>formatBytes\<close> of the upload list: decimals trimmed by \<open>parseFloat\<close>, and only four units.\<close>

definition uploader_sizes :: "string list" where
  "uploader_sizes = [''Bytes'', ''KB'', ''MB'', ''GB'']"

definition trimmed_tenths :: "nat \<Rightarrow> string" where
  "trimmed_tenths n = show_nat (n div 10) @ (if n mod 10 = 0 then [] else ''.'' @ show_nat (n mod 10))"

definition uploader_format_bytes :: "nat \<Rightarrow> string" where
  "uploader_format_bytes bytes =
     (if bytes = 0 then ''0 Bytes''
      else let i = log1024 bytes
           in trimmed_tenths (fixed_digits bytes (1024 ^ i) 1) @ '' '' @
              (if i < length uploader_sizes then uploader_sizes ! i else ''undefined''))"

section \<open>Ages\<close>

datatype time_unit = Minute | Hour | Day | Month | Year

fun unit_seconds :: "time_unit \<Rightarrow> int" where
  "unit_seconds Minute = 60"
| "unit_seconds Hour = 3600"
| "unit_seconds Day = 86400"
| "unit_seconds Month = 86400 * 30"
| "unit_seconds Year = 86400 * 365"

fun unit_name :: "time_unit \<Rightarrow> string" where
  "unit_name Minute = ''minute''"
| "unit_name Hour = ''hour''"
| "unit_name Day = ''day''"
| "unit_name Month = ''month''"
| "unit_name Year = ''year''"

definition age_unit :: "int \<Rightarrow> time_unit" where
  "age_unit secs =
     (if secs < 3600 then Minute
      else if secs < 86400 then Hour
      else if secs < 86400 * 30 then Day
      else if secs < 86400 * 365 then Month
      else Year)"

text \<open>The web app hands the signed, rounded number to \<open>Intl.RelativeTimeFormat\<close>.\<close>

definition format_relative_time ::
  "(int \<Rightarrow> time_unit \<Rightarrow> string) \<Rightarrow> (string \<Rightarrow> int option) \<Rightarrow> int \<Rightarrow> string option \<Rightarrow> string" where
  "format_relative_time rtf parse now stamp =
     (case stamp of
        None \<Rightarrow> []
      | Some text \<Rightarrow>
          if text = [] then []
          else case parse text of
                 None \<Rightarrow> []
               | Some ms \<Rightarrow>
                   let seconds = round_quotient (ms - now) 1000
                   in if \<bar>seconds\<bar> < 60 then ''just now''
                      else let u = age_unit \<bar>seconds\<bar> in rtf (round_quotient seconds (unit_seconds u)) u)"

text \<open>The mobile app writes the sentence itself.\<close>

definition ago :: "int \<Rightarrow> string \<Rightarrow> string" where
  "ago n unit = show_nat (nat n) @ '' '' @ unit @ (if n = 1 then [] else ''s'') @ '' ago''"

definition native_format_relative_time :: "(string \<Rightarrow> int option) \<Rightarrow> int \<Rightarrow> string option \<Rightarrow> string" where
  "native_format_relative_time parse now stamp =
     (case stamp of
        None \<Rightarrow> []
      | Some text \<Rightarrow>
          if text = [] then []
          else case parse text of
                 None \<Rightarrow> []
               | Some ms \<Rightarrow>
                   let seconds = round_quotient (ms - now) 1000; secs = \<bar>seconds\<bar>
                   in if secs < 45 then ''just now''
                      else if secs < 3600 then ago (max 1 (round_quotient secs 60)) ''minute''
                      else if secs < 86400 then ago (round_quotient secs 3600) ''hour''
                      else if secs < 86400 * 30 then ago (round_quotient secs 86400) ''day''
                      else if secs < 86400 * 365 then ago (round_quotient secs (86400 * 30)) ''month''
                      else ago (round_quotient secs (86400 * 365)) ''year'')"

section \<open>Kinds and icons\<close>

datatype file_kind_name = ImageKind | VideoKind | PdfKind | DocumentKind | SheetKind | ArchiveKind | OtherKind

definition file_kind :: "string option \<Rightarrow> string option \<Rightarrow> file_kind_name" where
  "file_kind contentType filename =
     (let type = to_lower (case contentType of Some t \<Rightarrow> t | None \<Rightarrow> []);
          name = to_lower (case filename of Some n \<Rightarrow> n | None \<Rightarrow> [])
      in if starts_with type ''image/'' then ImageKind
         else if starts_with type ''video/'' then VideoKind
         else if type = ''application/pdf'' \<or> ends_with name ''.pdf'' then PdfKind
         else if ends_with name ''.doc'' \<or> ends_with name ''.docx'' then DocumentKind
         else if ends_with name ''.xls'' \<or> ends_with name ''.xlsx'' \<or> ends_with name ''.csv'' then SheetKind
         else if ends_with name ''.zip'' \<or> ends_with name ''.tar'' \<or> ends_with name ''.gz'' then ArchiveKind
         else OtherKind)"

fun file_kind_icon :: "file_kind_name \<Rightarrow> string \<times> string" where
  "file_kind_icon ImageKind = (''image-outline'', ''#6B7280'')"
| "file_kind_icon VideoKind = (''play-circle-outline'', ''#6B7280'')"
| "file_kind_icon PdfKind = (''file-pdf-box'', ''#DC2626'')"
| "file_kind_icon DocumentKind = (''file-word-outline'', ''#2563EB'')"
| "file_kind_icon SheetKind = (''file-excel-outline'', ''#15803D'')"
| "file_kind_icon ArchiveKind = (''folder-zip-outline'', ''#6B7280'')"
| "file_kind_icon OtherKind = (''file-document-outline'', ''#6B7280'')"

text \<open>\<open>describeFile\<close>: an invalid date leaves the size alone.\<close>

definition describe_file ::
  "(string \<Rightarrow> int option) \<Rightarrow> int \<Rightarrow> (byte_count \<times> string option) option \<Rightarrow> string \<Rightarrow> string" where
  "describe_file parse now file separator =
     (case file of
        None \<Rightarrow> []
      | Some (sizeBytes, createdAt) \<Rightarrow>
          js_join separator
            (truthy_strings [format_bytes sizeBytes, native_format_relative_time parse now createdAt]))"

datatype upload_icon = TextIcon | ArchiveIcon | SpreadsheetIcon | VideoIcon | AudioIcon | ImageIcon | PlainFileIcon

text \<open>The tests of \<open>iconMap\<close> in order; the regular expressions ignore case, \<open>endsWith(".pdf")\<close> does not.\<close>

definition icon_map :: "(upload_icon \<times> (string \<Rightarrow> string \<Rightarrow> bool)) list" where
  "icon_map =
     [(TextIcon, \<lambda>type name. js_includes type ''pdf'' \<or> ends_with name ''.pdf'' \<or> js_includes type ''word'' \<or>
                   ends_with (to_lower name) ''.doc'' \<or> ends_with (to_lower name) ''.docx''),
      (ArchiveIcon, \<lambda>type name. js_includes type ''zip'' \<or> js_includes type ''archive'' \<or>
                   ends_with (to_lower name) ''.zip'' \<or> ends_with (to_lower name) ''.rar''),
      (SpreadsheetIcon, \<lambda>type name. js_includes type ''excel'' \<or>
                   ends_with (to_lower name) ''.xls'' \<or> ends_with (to_lower name) ''.xlsx''),
      (VideoIcon, \<lambda>type name. starts_with type ''video/''),
      (AudioIcon, \<lambda>type name. starts_with type ''audio/''),
      (ImageIcon, \<lambda>type name. starts_with type ''image/'')]"

definition get_file_icon :: "string option \<Rightarrow> string option \<Rightarrow> upload_icon" where
  "get_file_icon file_type file_name =
     (let type = (case file_type of Some t \<Rightarrow> t | None \<Rightarrow> []); name = (case file_name of Some n \<Rightarrow> n | None \<Rightarrow> [])
      in case List.find (\<lambda>m. snd m type name) icon_map of Some m \<Rightarrow> fst m | None \<Rightarrow> PlainFileIcon)"

section \<open>Lemmas\<close>

lemma round_quotient_close:
  assumes "0 < b" shows "\<bar>2 * round_quotient a b * b - 2 * a\<bar> \<le> b"
proof -
  let ?q = "(2 * a + b) div (2 * b)" and ?r = "(2 * a + b) mod (2 * b)"
  have "2 * b * ?q + ?r = 2 * a + b" by (rule mult_div_mod_eq)
  moreover have "0 \<le> ?r" "?r < 2 * b" using assms by auto
  ultimately show ?thesis by (simp add: round_quotient_def algebra_simps)
qed

lemma round_quotient_mono: "0 < b \<Longrightarrow> a \<le> c \<Longrightarrow> round_quotient a b \<le> round_quotient c b"
  by (simp add: round_quotient_def zdiv_mono1)

lemma round_quotient_multiple: "0 < b \<Longrightarrow> round_quotient (k * b) b = k"
proof -
  assume b: "0 < b"
  have "round_quotient (k * b) b = (b + k * (2 * b)) div (2 * b)" by (simp add: round_quotient_def algebra_simps)
  also have "\<dots> = k + b div (2 * b)" using b by (intro div_mult_self1) simp
  also have "b div (2 * b) = 0" using b by simp
  finally show ?thesis by simp
qed

lemma round_quotient_bounds:
  "0 < b \<Longrightarrow> k * b \<le> a \<Longrightarrow> k \<le> round_quotient a b"
  "0 < b \<Longrightarrow> a \<le> k * b \<Longrightarrow> round_quotient a b \<le> k"
  using round_quotient_mono [of b "k * b" a] round_quotient_mono [of b a "k * b"] round_quotient_multiple [of b k]
  by simp_all

lemma log1024_bounds:
  assumes "0 < v" shows "1024 ^ log1024 v \<le> v" "v < 1024 ^ (log1024 v + 1)"
proof -
  let ?f = "floorlog 2 v"
  have f: "2 ^ (?f - 1) \<le> v \<and> v < 2 ^ ?f" using assms by (intro floorlog_bounds) auto
  have "(2::nat) ^ (10 * log1024 v) \<le> 2 ^ (?f - 1)" by (rule power_increasing) (simp_all add: log1024_def)
  then show "1024 ^ log1024 v \<le> v" using f by (simp add: power_mult)
  have "f \<le> 10 * ((f - 1) div 10 + 1)" for f :: nat by presburger
  then have "?f \<le> 10 * (log1024 v + 1)" unfolding log1024_def by blast
  then have "(2::nat) ^ ?f \<le> 2 ^ (10 * (log1024 v + 1))" by (rule power_increasing) simp
  then have "v < 2 ^ (10 * (log1024 v + 1))" using f by linarith
  then show "v < 1024 ^ (log1024 v + 1)" unfolding power_mult by simp
qed

lemma fixed_digits_close:
  assumes "0 < b" shows "\<bar>2 * int (fixed_digits a b d) * int b - 2 * int a * 10 ^ d\<bar> \<le> int b"
proof -
  have "0 \<le> round_quotient (int (a * 10 ^ d)) (int b)" using assms by (intro round_quotient_bounds(1)) auto
  then have "int (fixed_digits a b d) = round_quotient (int (a * 10 ^ d)) (int b)"
    by (simp add: fixed_digits_def)
  then show ?thesis using round_quotient_close [of "int b" "int (a * 10 ^ d)"] assms by simp
qed

lemma last_size_unit: "length size_units - 1 = 4"
  by (simp add: size_units_def)

lemma age_unit_bounds:
  assumes "60 \<le> s" shows "unit_seconds (age_unit s) \<le> s \<and> 0 < unit_seconds (age_unit s)"
  using assms by (auto simp: age_unit_def)

section \<open>Properties\<close>

text \<open>
  A size is shown in the largest unit it fills - at most terabytes - rounded to the nearest whole number,
  or to the nearest tenth from one kilobyte to a hundred of the unit; bytes are shown exactly.
\<close>
theorem format_bytes_rounds:
  "if 0 < n
   then \<exists>m e d. format_bytes (WholeBytes n) = show_fixed m d @ '' '' @ size_units ! e \<and> e \<le> 4 \<and>
          1024 ^ e \<le> n \<and> (n < 1024 ^ (e + 1) \<or> e = 4) \<and> d = (if e = 0 \<or> 100 * 1024 ^ e \<le> n then 0 else 1) \<and>
          \<bar>2 * int m * 1024 ^ e - 2 * n * 10 ^ d\<bar> \<le> 1024 ^ e
   else format_bytes (WholeBytes n) = ''0 B''"
proof (cases "0 < n")
  case True
  define v where "v = nat n"
  have n: "n = int v" and v: "0 < v" using True by (simp_all add: v_def)
  define e where "e = min (log1024 v) 4"
  define d :: nat where "d = (if 100 * 1024 ^ e \<le> v \<or> e = 0 then 0 else 1)"
  define m where "m = fixed_digits v (1024 ^ e) d"
  have "format_bytes (WholeBytes n) = show_fixed m d @ '' '' @ size_units ! e"
    using True by (simp only: format_bytes_def byte_count.case option.case last_size_unit Let_def to_fixed_def m_def d_def e_def v_def not_le [symmetric] if_False)
  moreover have e4: "e \<le> 4" by (simp add: e_def)
  moreover have "1024 ^ e \<le> n"
  proof -
    have "(1024::nat) ^ e \<le> 1024 ^ log1024 v" by (rule power_increasing) (simp_all add: e_def)
    then have "1024 ^ e \<le> v" using log1024_bounds(1) [OF v] by linarith
    then show ?thesis unfolding n by (metis of_nat_le_iff of_nat_numeral of_nat_power)
  qed
  moreover have "n < 1024 ^ (e + 1) \<or> e = 4"
  proof (cases "log1024 v \<le> 4")
    case True
    then have "v < 1024 ^ (e + 1)" using log1024_bounds(2) [OF v] by (simp add: e_def)
    then show ?thesis unfolding n by (metis of_nat_less_iff of_nat_numeral of_nat_power)
  qed (simp add: e_def)
  moreover have "d = (if e = 0 \<or> 100 * 1024 ^ e \<le> n then 0 else 1)"
    unfolding d_def n by (metis of_nat_le_iff of_nat_numeral of_nat_power of_nat_mult)
  moreover have "\<bar>2 * int m * 1024 ^ e - 2 * n * 10 ^ d\<bar> \<le> 1024 ^ e"
    using fixed_digits_close [of "1024 ^ e" v d] by (simp add: m_def n)
  ultimately show ?thesis using True by (simp only: if_True) blast
qed (simp add: format_bytes_def)

text \<open>
  An age is shown in the unit it fills, rounded to the nearest number, which is never 0; under a minute
  (on the mobile app 45 seconds) it is just now. The web app keeps the direction; the mobile app words
  every moment as past, so one in the future reads as its distance ago.
\<close>
theorem relative_times_close:
  fixes now :: int
  assumes "text \<noteq> []" and "parse text = Some ms"
  defines "s \<equiv> round_quotient (ms - now) 1000"
  shows "(if \<bar>s\<bar> < 60 then format_relative_time rtf parse now (Some text) = ''just now''
          else \<exists>n u. format_relative_time rtf parse now (Some text) = rtf n u \<and> sgn n = sgn s \<and>
                 unit_seconds u \<le> \<bar>s\<bar> \<and> \<bar>2 * n * unit_seconds u - 2 * s\<bar> \<le> unit_seconds u) \<and>
         (if \<bar>s\<bar> < 45 then native_format_relative_time parse now (Some text) = ''just now''
          else \<exists>n u. native_format_relative_time parse now (Some text) = ago n (unit_name u) \<and> 1 \<le> n \<and>
                 (unit_seconds u \<le> \<bar>s\<bar> \<or> u = Minute) \<and> \<bar>2 * n * unit_seconds u - 2 * \<bar>s\<bar>\<bar> \<le> unit_seconds u)"
proof -
  have web: "\<exists>n u. format_relative_time rtf parse now (Some text) = rtf n u \<and> sgn n = sgn s \<and>
      unit_seconds u \<le> \<bar>s\<bar> \<and> \<bar>2 * n * unit_seconds u - 2 * s\<bar> \<le> unit_seconds u" if "60 \<le> \<bar>s\<bar>"
  proof (intro exI conjI)
    let ?u = "age_unit \<bar>s\<bar>" and ?n = "round_quotient s (unit_seconds (age_unit \<bar>s\<bar>))"
    have u: "unit_seconds ?u \<le> \<bar>s\<bar>" "0 < unit_seconds ?u" using age_unit_bounds [OF that] by simp_all
    show "format_relative_time rtf parse now (Some text) = rtf ?n ?u"
      using assms that by (simp add: format_relative_time_def Let_def)
    show "unit_seconds ?u \<le> \<bar>s\<bar>" by (rule u)
    show "\<bar>2 * ?n * unit_seconds ?u - 2 * s\<bar> \<le> unit_seconds ?u" by (rule round_quotient_close [OF u(2)])
    show "sgn ?n = sgn s"
    proof (cases "0 < s")
      case True
      then have "1 \<le> ?n" using u by (intro round_quotient_bounds(1)) auto
      with True show ?thesis by (simp add: sgn_if)
    next
      case False
      then have "?n \<le> - 1" using u by (intro round_quotient_bounds(2)) auto
      with False that show ?thesis by (simp add: sgn_if)
    qed
  qed
  have native: "\<exists>n u. native_format_relative_time parse now (Some text) = ago n (unit_name u) \<and> 1 \<le> n \<and>
      (unit_seconds u \<le> \<bar>s\<bar> \<or> u = Minute) \<and> \<bar>2 * n * unit_seconds u - 2 * \<bar>s\<bar>\<bar> \<le> unit_seconds u"
    if s: "45 \<le> \<bar>s\<bar>"
  proof (intro exI conjI)
    let ?u = "age_unit \<bar>s\<bar>" and ?n = "max 1 (round_quotient \<bar>s\<bar> (unit_seconds (age_unit \<bar>s\<bar>)))"
    have pos: "0 < unit_seconds ?u" by (auto simp: age_unit_def)
    have big: "1 \<le> round_quotient \<bar>s\<bar> (unit_seconds ?u)" if "60 \<le> \<bar>s\<bar>"
      using age_unit_bounds [OF that] by (intro round_quotient_bounds(1)) auto
    have "1 \<le> round_quotient \<bar>s\<bar> 60"
      using s by (simp add: round_quotient_def pos_imp_zdiv_pos_iff)
    then have one: "1 \<le> round_quotient \<bar>s\<bar> (unit_seconds ?u)"
      by (cases "60 \<le> \<bar>s\<bar>") (rule big, simp, simp add: age_unit_def)
    show "native_format_relative_time parse now (Some text) = ago ?n (unit_name ?u)"
      using assms(1, 2) s one unfolding native_format_relative_time_def
      by (auto simp: Let_def age_unit_def s_def [symmetric] max_def)
    show "1 \<le> ?n" by simp
    show "unit_seconds ?u \<le> \<bar>s\<bar> \<or> ?u = Minute" using age_unit_bounds [of "\<bar>s\<bar>"] by (cases "60 \<le> \<bar>s\<bar>") (auto simp: age_unit_def)
    show "\<bar>2 * ?n * unit_seconds ?u - 2 * \<bar>s\<bar>\<bar> \<le> unit_seconds ?u"
      using round_quotient_close [OF pos, of "\<bar>s\<bar>"] one by (simp add: max_def)
  qed
  have "\<bar>s\<bar> < 60 \<Longrightarrow> format_relative_time rtf parse now (Some text) = ''just now''"
    and "\<bar>s\<bar> < 45 \<Longrightarrow> native_format_relative_time parse now (Some text) = ''just now''"
    using assms by (simp_all add: format_relative_time_def native_format_relative_time_def Let_def)
  with web native show ?thesis by (auto simp: not_less)
qed

text \<open>Ten minutes from now is ''10 minutes ago'' on the mobile app, and ''in 10 minutes'' for the web app.\<close>
theorem relative_times_close_witness:
  "native_format_relative_time (\<lambda>_. Some 600000) 0 (Some ''2026'') = ago 10 ''minute'' \<and>
   (\<exists>n u. format_relative_time (\<lambda>n u. show_nat (nat n)) (\<lambda>_. Some 600000) 0 (Some ''2026'') = show_nat (nat n) \<and>
      sgn n = 1 \<and> unit_seconds u \<le> 600)"
proof -
  have s: "round_quotient (600000 - 0) 1000 = 600" by (simp add: round_quotient_def)
  note close = relative_times_close [of "''2026''" "\<lambda>_. Some 600000" 600000 0 "\<lambda>n u. show_nat (nat n)", unfolded s]
  have "\<exists>n u. format_relative_time (\<lambda>n u. show_nat (nat n)) (\<lambda>_. Some 600000) 0 (Some ''2026'') = show_nat (nat n) \<and>
      sgn n = 1 \<and> unit_seconds u \<le> 600"
    using close by auto
  moreover have "native_format_relative_time (\<lambda>_. Some 600000) 0 (Some ''2026'') = ago 10 ''minute''"
    by (simp add: native_format_relative_time_def s round_quotient_def)
  ultimately show ?thesis by simp
qed

end
