(* ===== verification/NativeFiles.thy ===== *)
theory NativeFiles
  imports FileView FileDisplay
begin

text \<open>
  The file screens of the mobile app: the folder browser of
  native/src/modules/files/views/files-view.tsx with its rows and cards
  (native/src/modules/files/components/file-row.tsx, native/src/modules/home/components/item-card.tsx) and the recent
  feed of native/src/modules/home/views/home-view.tsx.

  The browser is a machine over the state its hooks keep: every press the screen offers and every
  settlement of a deletion is an action, refused where the code does not offer it. An open alert is
  modal: only deletions already sent can settle under it.
\<close>

section \<open>Items\<close>

record native_file =
  nf_fileId :: string
  nf_filename :: string
  nf_sizeBytes :: byte_count
  nf_contentType :: string
  nf_createdAt :: string

record native_folder =
  nd_folderId :: string
  nd_name :: string

datatype native_details = NativeFile native_file | NativeFolder native_folder | NativeNone

record native_item =
  ni_itemId :: string
  ni_itemType :: string
  ni_folderId :: string
  ni_details :: native_details

definition native_item_key :: "native_item \<Rightarrow> string" where
  "native_item_key it = ni_itemType it @ ''-'' @ ni_itemId it"

text \<open>The loop over the pages: an item whose key was seen is dropped, so the first one wins.\<close>

fun unseen_items :: "string list \<Rightarrow> native_item list \<Rightarrow> native_item list" where
  "unseen_items seen [] = []"
| "unseen_items seen (it # its) =
     (let key = native_item_key it
      in if key \<in> set seen then unseen_items seen its
         else it # unseen_items (js_set_add seen key) its)"

definition native_items :: "native_item list list \<Rightarrow> native_item list" where
  "native_items pages = unseen_items [] (concat pages)"

lemma unseen_items_facts:
  "distinct (map native_item_key (unseen_items seen its))"
  "set (map native_item_key (unseen_items seen its)) = set (map native_item_key its) - set seen"
  "set (unseen_items seen its) \<subseteq> set its"
proof (induction its arbitrary: seen)
  case (Cons it its)
  have seen: "set (js_set_add seen k) = insert k (set seen)" for seen and k :: string by (auto simp: js_set_add_def)
  { case (1 seen)
    show ?case using Cons(1) [of seen] Cons(1) [of "js_set_add seen (native_item_key it)"]
        Cons(2) [of "js_set_add seen (native_item_key it)"] by (auto simp: Let_def seen) }
  { case (2 seen)
    show ?case using Cons(2) [of seen] Cons(2) [of "js_set_add seen (native_item_key it)"] by (auto simp: Let_def seen) }
  { case (3 seen)
    show ?case using Cons(3) [of seen] Cons(3) [of "js_set_add seen (native_item_key it)"] by (auto simp: Let_def) }
qed simp_all

interpretation native_list: unique_items "unseen_items []" native_item_key
  by unfold_locales (use unseen_items_facts [of "[]"] in auto)

definition native_file_of :: "native_item \<Rightarrow> native_file option" where
  "native_file_of it = (case ni_details it of NativeFile f \<Rightarrow> Some f | _ \<Rightarrow> None)"

definition native_folder_of :: "native_item \<Rightarrow> native_folder option" where
  "native_folder_of it = (case ni_details it of NativeFolder d \<Rightarrow> Some d | _ \<Rightarrow> None)"

section \<open>The folder browser\<close>

record path_crumb =
  pc_id :: string
  pc_name :: string

text \<open>
  \<open>fs_confirm\<close> is the open question of \<open>runDelete\<close> with its targets, \<open>fs_deleting\<close> the deletions sent and not
  settled, \<open>fs_requests\<close> the history of what was asked of the service.
\<close>

record files_screen =
  fs_path :: "path_crumb list"
  fs_sort :: file_sort
  fs_grid :: bool
  fs_selecting :: bool
  fs_selected :: "(string \<times> native_item) list"
  fs_confirm :: "native_item list option"
  fs_deleting :: "native_item list list"
  fs_requests :: "metadata_rpc list"

definition files_start :: files_screen where
  "files_start =
     \<lparr>fs_path = [], fs_sort = SORT_NAME, fs_grid = False, fs_selecting = False, fs_selected = [],
      fs_confirm = None, fs_deleting = [], fs_requests = []\<rparr>"

definition current_folder_id :: "string option \<Rightarrow> files_screen \<Rightarrow> string" where
  "current_folder_id rootFolder s =
     (if fs_path s = [] then (case rootFolder of Some r \<Rightarrow> r | None \<Rightarrow> []) else pc_id (last (fs_path s)))"

definition screen_title :: "files_screen \<Rightarrow> string" where
  "screen_title s =
     (if fs_selecting s then show_nat (length (fs_selected s)) @ '' selected''
      else if fs_path s \<noteq> [] \<and> pc_name (last (fs_path s)) \<noteq> [] then pc_name (last (fs_path s))
      else ''Dropbox'')"

definition toggle_selected :: "native_item \<Rightarrow> files_screen \<Rightarrow> files_screen" where
  "toggle_selected it s =
     s\<lparr>fs_selected :=
         (if map_of (fs_selected s) (ni_itemId it) \<noteq> None
          then filter (\<lambda>e. fst e \<noteq> ni_itemId it) (fs_selected s)
          else fs_selected s @ [(ni_itemId it, it)])\<rparr>"

definition folder_crumb :: "string \<Rightarrow> native_folder \<Rightarrow> path_crumb" where
  "folder_crumb folderId folder =
     \<lparr>pc_id = folderId, pc_name = (if nd_name folder = [] then ''Folder'' else nd_name folder)\<rparr>"

text \<open>A press on an item; for a file the alert it raises is \<open>file_alert\<close> below and the state stays.\<close>

definition open_item :: "native_item \<Rightarrow> files_screen \<Rightarrow> files_screen" where
  "open_item it s =
     (if fs_selecting s then toggle_selected it s
      else case native_folder_of it of
             Some folder \<Rightarrow>
               s\<lparr>fs_path := fs_path s @
                   [folder_crumb (if nd_folderId folder = [] then ni_itemId it else nd_folderId folder) folder]\<rparr>
           | None \<Rightarrow> s)"

definition cycle_sort :: "file_sort \<Rightarrow> file_sort" where
  "cycle_sort previous = (if previous = SORT_NAME then UPDATED_AT else SORT_NAME)"

definition item_name :: "native_item \<Rightarrow> string" where
  "item_name it =
     (case ni_details it of
        NativeFile f \<Rightarrow> if nf_filename f = [] then ''item'' else nf_filename f
      | NativeFolder d \<Rightarrow> if nd_name d = [] then ''folder'' else nd_name d
      | NativeNone \<Rightarrow> ''item'')"

definition delete_question :: "native_item list \<Rightarrow> string" where
  "delete_question targets =
     (if length targets = 1 then ''Delete '' @ ldquo @ item_name (hd targets) @ rdquo @ ''?''
      else ''Delete '' @ show_nat (length targets) @ '' items?'')"

definition native_delete_rpc :: "native_item \<Rightarrow> metadata_rpc" where
  "native_delete_rpc it = delete_item_rpc (ni_itemId it) (ni_itemType it = ''folder'')"

datatype files_action =
    PressItem native_item | OpenFromMenu native_item | GoUp | CycleSort | ToggleGrid
  | StartSelecting | DoneSelecting | PressDelete | AnswerDelete bool | DeletesSettled nat

text \<open>The row's menu exists only outside the selection and the grid, the trash only with a selection.\<close>

fun files_press :: "files_screen \<Rightarrow> files_action \<Rightarrow> files_screen option" where
  "files_press s (PressItem it) = Some (open_item it s)"
| "files_press s (OpenFromMenu it) =
     (if fs_selecting s \<or> fs_grid s then None
      else case native_folder_of it of
             Some folder \<Rightarrow> Some (s\<lparr>fs_path := fs_path s @ [folder_crumb (ni_itemId it) folder]\<rparr>)
           | None \<Rightarrow> None)"
| "files_press s GoUp = (if fs_path s = [] then None else Some (s\<lparr>fs_path := butlast (fs_path s)\<rparr>))"
| "files_press s CycleSort = Some (s\<lparr>fs_sort := cycle_sort (fs_sort s)\<rparr>)"
| "files_press s ToggleGrid = Some (s\<lparr>fs_grid := \<not> fs_grid s\<rparr>)"
| "files_press s StartSelecting =
     (if fs_selecting s then None else Some (s\<lparr>fs_selected := [], fs_selecting := True\<rparr>))"
| "files_press s DoneSelecting =
     (if fs_selecting s then Some (s\<lparr>fs_selected := [], fs_selecting := False\<rparr>) else None)"
| "files_press s PressDelete =
     (if fs_selecting s \<and> fs_selected s \<noteq> [] then Some (s\<lparr>fs_confirm := Some (map snd (fs_selected s))\<rparr>) else None)"
| "files_press s _ = None"

fun files_step :: "files_screen \<Rightarrow> files_action \<Rightarrow> files_screen option" where
  "files_step s (DeletesSettled i) =
     (if i < length (fs_deleting s)
      then Some (s\<lparr>fs_deleting := take i (fs_deleting s) @ drop (Suc i) (fs_deleting s),
                   fs_selected := [], fs_selecting := False\<rparr>)
      else None)"
| "files_step s (AnswerDelete yes) =
     (case fs_confirm s of
        None \<Rightarrow> None
      | Some targets \<Rightarrow>
          Some (if yes
                then s\<lparr>fs_confirm := None, fs_deleting := fs_deleting s @ [targets],
                       fs_requests := fs_requests s @ map native_delete_rpc targets\<rparr>
                else s\<lparr>fs_confirm := None\<rparr>))"
| "files_step s a = (if fs_confirm s = None then files_press s a else None)"

section \<open>Alerts and downloads\<close>

datatype alert_effect = Dismiss | DownloadFile string string | OpenFolder string | GoToFiles

record native_alert =
  na_title :: string
  na_message :: "string option"
  na_buttons :: "(string \<times> alert_effect) list"

definition middle_dot :: string where
  "middle_dot = [CHR '' '', CHR 0xC2, CHR 0xB7, CHR '' '']"

definition describe_native_file :: "(string \<Rightarrow> int option) \<Rightarrow> int \<Rightarrow> native_file \<Rightarrow> string \<Rightarrow> string" where
  "describe_native_file parse now f separator =
     describe_file parse now (Some (nf_sizeBytes f, Some (nf_createdAt f))) separator"

text \<open>The alert of a file pressed outside the selection, and the row menu's alert.\<close>

definition file_alert :: "(string \<Rightarrow> int option) \<Rightarrow> int \<Rightarrow> string \<Rightarrow> native_file \<Rightarrow> native_alert" where
  "file_alert parse now cancel f =
     \<lparr>na_title = nf_filename f, na_message = Some (describe_native_file parse now f middle_dot),
      na_buttons = [(cancel, Dismiss), (''Download'', DownloadFile (nf_fileId f) (nf_filename f))]\<rparr>"

definition open_item_alert :: "(string \<Rightarrow> int option) \<Rightarrow> int \<Rightarrow> native_item \<Rightarrow> files_screen \<Rightarrow> native_alert option" where
  "open_item_alert parse now it s =
     (if fs_selecting s then None else map_option (file_alert parse now ''Close'') (native_file_of it))"

definition more_alert :: "(string \<Rightarrow> int option) \<Rightarrow> int \<Rightarrow> native_item \<Rightarrow> native_alert option" where
  "more_alert parse now it =
     (case native_folder_of it of
        Some folder \<Rightarrow>
          Some \<lparr>na_title = (if nd_name folder = [] then ''Folder'' else nd_name folder), na_message = None,
                na_buttons = [(''Cancel'', Dismiss), (''Open'', OpenFolder (ni_itemId it))]\<rparr>
      | None \<Rightarrow> map_option (file_alert parse now ''Cancel'') (native_file_of it))"

text \<open>The ticket's URL is handed to the system; the alert of a failure.\<close>

definition show_download ::
  "(js_error + string) \<Rightarrow> (string \<Rightarrow> js_error option) \<Rightarrow> string \<Rightarrow> string option \<times> native_alert option" where
  "show_download ticket openURL filename =
     (let failed = (\<lambda>e. Some \<lparr>na_title = ''Could not download'',
                              na_message = Some (error_message (''Could not open '' @ filename @ ''.'') e),
                              na_buttons = []\<rparr>)
      in case ticket of
           Inl e \<Rightarrow> (None, failed e)
         | Inr url \<Rightarrow> (case openURL url of Some e \<Rightarrow> (Some url, failed e) | None \<Rightarrow> (Some url, None)))"

section \<open>Rows and cards\<close>

datatype item_preview = ThumbnailPreview string | FolderPreview | GlyphPreview "string \<times> string" | NoPreview

record item_face =
  fc_name :: string
  fc_preview :: item_preview
  fc_metadata :: string

definition face_name :: "native_item \<Rightarrow> string" where
  "face_name it =
     (case native_file_of it of
        Some f \<Rightarrow> if nf_filename f = [] then ''Unnamed item'' else nf_filename f
      | None \<Rightarrow> (case native_folder_of it of
                    Some d \<Rightarrow> if nd_name d = [] then ''Unnamed item'' else nd_name d
                  | None \<Rightarrow> ''Unnamed item''))"

definition glyph_preview :: "native_item \<Rightarrow> item_preview" where
  "glyph_preview it =
     (case native_file_of it of
        Some f \<Rightarrow> GlyphPreview (file_kind_icon (file_kind (Some (nf_contentType f)) (Some (nf_filename f))))
      | None \<Rightarrow> NoPreview)"

definition thumbnail_or :: "string option \<Rightarrow> item_preview \<Rightarrow> item_preview" where
  "thumbnail_or thumbnailUrl other =
     (case thumbnailUrl of Some url \<Rightarrow> if url = [] then other else ThumbnailPreview url | None \<Rightarrow> other)"

text \<open>A row shows folders without a tile; grid and carousel cards let a thumbnail win.\<close>

definition file_row :: "(string \<Rightarrow> int option) \<Rightarrow> int \<Rightarrow> native_item \<Rightarrow> string option \<Rightarrow> item_face" where
  "file_row parse now it thumbnailUrl =
     \<lparr>fc_name = face_name it,
      fc_preview = (if native_folder_of it \<noteq> None then FolderPreview else thumbnail_or thumbnailUrl (glyph_preview it)),
      fc_metadata = (case native_file_of it of Some f \<Rightarrow> describe_native_file parse now f '', '' | None \<Rightarrow> [])\<rparr>"

definition grid_card :: "(string \<Rightarrow> int option) \<Rightarrow> int \<Rightarrow> native_item \<Rightarrow> string option \<Rightarrow> item_face" where
  "grid_card parse now it thumbnailUrl =
     \<lparr>fc_name = face_name it,
      fc_preview = thumbnail_or thumbnailUrl (if native_folder_of it \<noteq> None then FolderPreview else glyph_preview it),
      fc_metadata = (case native_file_of it of Some f \<Rightarrow> describe_native_file parse now f '', '' | None \<Rightarrow> ''Folder'')\<rparr>"

definition item_card :: "(string \<Rightarrow> int option) \<Rightarrow> int \<Rightarrow> native_item \<Rightarrow> string option \<Rightarrow> item_face" where
  "item_card parse now it thumbnailUrl =
     \<lparr>fc_name = face_name it,
      fc_preview = thumbnail_or thumbnailUrl (if native_folder_of it \<noteq> None then FolderPreview else glyph_preview it),
      fc_metadata = (case native_file_of it of Some f \<Rightarrow> describe_native_file parse now f middle_dot | None \<Rightarrow> ''Folder'')\<rparr>"

section \<open>The recent feed\<close>

definition split_at :: "native_item list \<Rightarrow> nat" where
  "split_at items = max 1 ((length items + 1) div 2)"

definition lead_items :: "native_item list \<Rightarrow> native_item list" where
  "lead_items items = js_slice 0 (int (split_at items)) items"

definition trail_items :: "native_item list \<Rightarrow> native_item list" where
  "trail_items items = js_slice (int (split_at items)) (int (length items)) items"

definition home_item_alert ::
  "(string \<Rightarrow> int option) \<Rightarrow> int \<Rightarrow> (string \<times> string) list \<Rightarrow> native_item \<Rightarrow> native_alert option" where
  "home_item_alert parse now labels it =
     (case native_folder_of it of
        Some folder \<Rightarrow>
          Some \<lparr>na_title = (if nd_name folder = [] then ''Folder'' else nd_name folder),
                na_message = Some (case map_of labels (ni_folderId it) of Some l \<Rightarrow> l | None \<Rightarrow> ''Dropbox''),
                na_buttons = [(''Cancel'', Dismiss), (''Open Files'', GoToFiles)]\<rparr>
      | None \<Rightarrow> map_option (file_alert parse now ''Cancel'') (native_file_of it))"

section \<open>Lemmas\<close>

definition selection_ok :: "files_screen \<Rightarrow> bool" where
  "selection_ok s \<longleftrightarrow>
     (fs_selecting s \<or> fs_selected s = []) \<and> distinct (map fst (fs_selected s)) \<and>
     list_all (\<lambda>e. fst e = ni_itemId (snd e)) (fs_selected s)"

lemmas files_press_cases = toggle_selected_def open_item_def

lemma toggle_selected_ok: "selection_ok s \<Longrightarrow> fs_selecting s \<Longrightarrow> selection_ok (toggle_selected it s)"
  by (auto simp: selection_ok_def toggle_selected_def list_all_iff distinct_map_filter map_of_eq_None_iff)

lemma files_press_ok: "selection_ok s \<Longrightarrow> files_press s a = Some s' \<Longrightarrow> selection_ok s'"
proof (induction s a rule: files_press.induct)
  case (1 s it)
  then show ?case
    by (cases "fs_selecting s")
      (use toggle_selected_ok [of s it] in \<open>simp add: open_item_def\<close>,
       auto simp: open_item_def selection_ok_def split: option.splits)
qed (auto simp: selection_ok_def split: if_splits option.splits)

lemma files_step_press:
  "files_step s a = Some s' \<Longrightarrow>
     (\<exists>i. a = DeletesSettled i) \<or> (\<exists>yes. a = AnswerDelete yes) \<or> files_press s a = Some s'"
  by (cases a) (auto split: if_splits)

interpretation files_browser: machine files_step files_start selection_ok
proof
  show "selection_ok files_start" by (simp add: selection_ok_def files_start_def)
next
  fix s a s' assume "selection_ok s" "files_step s a = Some s'"
  then show "selection_ok s'"
    using files_step_press [of s a s'] files_press_ok [of s a s']
    by (auto simp: selection_ok_def split: option.splits if_splits)
qed

text \<open>Nothing is marked but by a press, and a press changes nothing else that a deletion uses.\<close>

lemma files_press_selected:
  "files_press s a = Some s' \<Longrightarrow>
     set (fs_selected s') \<subseteq> set (fs_selected s) \<union> {(ni_itemId it, it) |it. a = PressItem it}"
  by (cases a) (auto simp: files_press_cases split: if_splits option.splits)

lemma files_step_selected:
  "files_step s a = Some s' \<Longrightarrow>
     set (fs_selected s') \<subseteq> set (fs_selected s) \<union> {(ni_itemId it, it) |it. a = PressItem it}"
  using files_step_press [of s a s'] files_press_selected [of s a s']
  by (auto split: option.splits if_splits)

lemma files_run_selected:
  "exec files_step s as = Some s' \<Longrightarrow>
     set (fs_selected s') \<subseteq> set (fs_selected s) \<union> {(ni_itemId it, it) |it. PressItem it \<in> set as}"
proof (induction as arbitrary: s)
  case (Cons a as)
  then obtain t where t: "files_step s a = Some t" "exec files_step t as = Some s'" by (auto split: option.splits)
  from Cons.IH [OF t(2)] files_step_selected [OF t(1)] show ?case by (auto 4 3)
qed simp

lemma settles_keep_question:
  "exec files_step s (map DeletesSettled is) = Some s' \<Longrightarrow>
     fs_confirm s' = fs_confirm s \<and> fs_requests s' = fs_requests s"
proof (induction "is" arbitrary: s)
  case (Cons i "is")
  then obtain t where t: "files_step s (DeletesSettled i) = Some t" "exec files_step t (map DeletesSettled is) = Some s'"
    by (auto split: option.splits)
  with Cons.IH [OF t(2)] show ?case by (auto split: if_splits)
qed simp

section \<open>Properties\<close>

text \<open>
  C20: Confirming a deletion asks the service once for every item that was marked when the trash was
  pressed - each of them pressed by the user, none twice - whatever older deletions settled while the
  question was open.
\<close>
theorem native_delete_exact:
  assumes run: "exec files_step files_start as = Some s" and press: "files_step s PressDelete = Some t"
    and settle: "exec files_step t (map DeletesSettled is) = Some u" and confirm: "files_step u (AnswerDelete True) = Some w"
  shows "fs_requests w = fs_requests s @ map native_delete_rpc (map snd (fs_selected s)) \<and>
         distinct (map ni_itemId (map snd (fs_selected s))) \<and>
         set (map PressItem (map snd (fs_selected s))) \<subseteq> set as"
proof (intro conjI)
  have t: "fs_confirm t = Some (map snd (fs_selected s))" "fs_requests t = fs_requests s"
    using press by (auto split: if_splits)
  then show "fs_requests w = fs_requests s @ map native_delete_rpc (map snd (fs_selected s))"
    using settles_keep_question [OF settle] confirm by auto
  have ok: "selection_ok s" by (rule files_browser.inv_exec [OF run])
  then have ids: "map ni_itemId (map snd (fs_selected s)) = map fst (fs_selected s)"
    by (auto simp: selection_ok_def list_all_iff)
  show "distinct (map ni_itemId (map snd (fs_selected s)))"
    using ok unfolding ids by (simp add: selection_ok_def)
  show "set (map PressItem (map snd (fs_selected s))) \<subseteq> set as"
    using files_run_selected [OF run] by (auto simp: files_start_def)
qed

definition sample_item :: "string \<Rightarrow> native_item" where
  "sample_item i = \<lparr>ni_itemId = i, ni_itemType = ''file'', ni_folderId = [], ni_details = NativeNone\<rparr>"

theorem native_delete_exact_witness:
  "map_option fs_requests
     (exec files_step files_start
        [StartSelecting, PressItem (sample_item ''a''), PressItem (sample_item ''b''), PressItem (sample_item ''a''),
         PressDelete, AnswerDelete True]) = Some [DeleteFile ''b'']"
proof -
  let ?as = "[StartSelecting, PressItem (sample_item ''a''), PressItem (sample_item ''b''), PressItem (sample_item ''a'')]"
  define s where "s = the (exec files_step files_start ?as)"
  define t where "t = the (files_step s PressDelete)"
  define w where "w = the (files_step t (AnswerDelete True))"
  note eval = files_start_def sample_item_def open_item_def toggle_selected_def
  have run: "exec files_step files_start ?as = Some s" by (simp add: s_def eval)
  have sel: "fs_selected s = [(''b'', sample_item ''b'')]" "fs_requests s = []" "fs_selecting s" "fs_confirm s = None"
    by (simp_all add: s_def eval)
  have t: "files_step s PressDelete = Some t" by (simp add: t_def sel)
  then have u: "exec files_step t (map DeletesSettled []) = Some t" and w: "files_step t (AnswerDelete True) = Some w"
    by (auto simp: w_def sel split: if_splits)
  from native_delete_exact [OF run t u w] have "fs_requests w = [DeleteFile ''b'']"
    by (simp add: sel native_delete_rpc_def delete_item_rpc_def sample_item_def)
  moreover have "exec files_step files_start (?as @ [PressDelete, AnswerDelete True]) = Some w"
    unfolding exec_append run by (simp only: option.case exec.simps t w)
  ultimately show ?thesis by simp
qed

text \<open>
  The end of a deletion closes the selection of its moment, not the one it came from: an item marked
  in a selection begun after the deletion was sent is unmarked when the deletion settles.
\<close>
theorem settled_delete_drops_selection:
  "\<exists>as s t. exec files_step files_start as = Some s \<and> files_step s (DeletesSettled 0) = Some t \<and>
     map fst (fs_selected s) = [''b''] \<and> fs_requests s = [DeleteFile ''a''] \<and> fs_selected t = [] \<and> \<not> fs_selecting t"
proof -
  let ?as = "[StartSelecting, PressItem (sample_item ''a''), PressDelete, AnswerDelete True, DoneSelecting,
              StartSelecting, PressItem (sample_item ''b'')]"
  define s where "s = the (exec files_step files_start ?as)"
  define t where "t = the (files_step s (DeletesSettled 0))"
  note eval = files_start_def sample_item_def open_item_def toggle_selected_def native_delete_rpc_def delete_item_rpc_def
  have "exec files_step files_start ?as = Some s" by (simp add: s_def eval)
  moreover have "map fst (fs_selected s) = [''b'']" "fs_requests s = [DeleteFile ''a'']" "length (fs_deleting s) = 1"
    by (simp_all add: s_def eval)
  moreover from this have "files_step s (DeletesSettled 0) = Some t" "fs_selected t = [] \<and> \<not> fs_selecting t"
    by (simp_all add: t_def)
  ultimately show ?thesis by (intro exI [of _ ?as] exI [of _ s] exI [of _ t]) simp
qed

text \<open>The two decks of the home screen split the feed in order, the first one holding the larger half.\<close>
theorem home_decks_split:
  "lead_items items @ trail_items items = items \<and>
   length (lead_items items) = (length items + 1) div 2 \<and> length (trail_items items) = length items div 2"
proof (cases items)
  case Nil
  then show ?thesis by (simp add: lead_items_def trail_items_def js_slice_def)
next
  case (Cons a as)
  then have k: "split_at items = (length items + 1) div 2" by (simp add: split_at_def)
  have "lead_items items = take (split_at items) items" "trail_items items = drop (split_at items) items"
    using js_slice_nat [of 0 "split_at items" items] js_slice_nat [of "split_at items" "length items" items]
    by (simp_all add: lead_items_def trail_items_def)
  then show ?thesis by (simp add: k min_def) presburger
qed

end
