(* ===== verification/EditView.thy ===== *)
theory EditView
  imports EditCommit FileDisplay
begin

text \<open>
  The pages around one file: the edit view of web/src/modules/files/views/file-edit-view.tsx with
  web/src/modules/files/api/use-edit-session.ts, the preview drawer of
  web/src/modules/files/components/file-preview-drawer.tsx and the preview that follows the address
  of web/src/modules/files/components/url-preview.tsx.

  The edit view is a machine over its hooks' state. A call of \<open>handleSave\<close> is listed from the press
  to its \<open>finally\<close>, so that the calls that only wait for refetches overlap with the next save. The
  editors are components keyed by their address (\<open>key={src}\<close>): another ticket address mounts a fresh
  one. Edits are numbered, so that the history can tell which of them a commit stored.
\<close>

section \<open>The session\<close>

record edit_session =
  es_canEdit :: bool
  es_unavailableReason :: string
  es_version :: int
  es_contentHash :: string
  es_ticketUrl :: string
  es_expiresInSeconds :: int
  es_blockSize :: int
  es_maxEditBytes :: int
  es_sniffedType :: string
  es_filename :: string
  es_sizeBytes :: int
  es_contentType :: string
  es_blockHashes :: "string list"

definition editor_names :: "string \<Rightarrow> string option" where
  "editor_names = map_of [(''pdf'', ''extend-pdf-editor''), (''docx'', ''extend-docx-editor''), (''xlsx'', ''extend-xlsx-editor'')]"

text \<open>The answer of a query, kept when a later fetch fails.\<close>

record 'd query_result =
  q_data :: "'d option"
  q_isError :: bool

definition query_answered :: "'d option \<Rightarrow> 'd query_result \<Rightarrow> 'd query_result" where
  "query_answered answer q =
     (case answer of
        Some d \<Rightarrow> \<lparr>q_data = Some d, q_isError = False\<rparr>
      | None \<Rightarrow> q\<lparr>q_isError := True\<rparr>)"

section \<open>The edit view\<close>

datatype save_state =
    SaveIdle | SaveRunning edit_save_progress | SaveDone int nat | SaveConflicted int | SaveFailed string

fun is_saving :: "save_state \<Rightarrow> bool" where
  "is_saving (SaveRunning _) = True"
| "is_saving _ = False"

text \<open>A running \<open>handleSave\<close>: reading the editor, in \<open>saveEditedFile\<close>, or waiting for the refetches.\<close>

datatype save_stage = Collecting | InSave | Refreshing

record save_call =
  sc_id :: nat
  sc_session :: edit_session
  sc_stage :: save_stage
  sc_edits :: "nat list"

record edit_view =
  ev_fileId :: string
  ev_session :: "edit_session query_result"
  ev_file :: "(string \<times> int) query_result"
  ev_state :: save_state
  ev_dirty :: bool
  ev_abort :: "nat option"
  ev_aborted :: "nat list"
  ev_calls :: "save_call list"
  ev_nextCall :: nat
  ev_editor :: "string option"
  ev_edits :: "nat list"
  ev_nextEdit :: nat
  ev_stored :: "nat list"
  ev_requests :: "save_edited_file_input list"
  ev_left :: bool

definition edit_start :: "string \<Rightarrow> edit_view" where
  "edit_start file =
     \<lparr>ev_fileId = file, ev_session = \<lparr>q_data = None, q_isError = False\<rparr>, ev_file = \<lparr>q_data = None, q_isError = False\<rparr>,
      ev_state = SaveIdle, ev_dirty = False, ev_abort = None, ev_aborted = [], ev_calls = [], ev_nextCall = 0,
      ev_editor = None, ev_edits = [], ev_nextEdit = 0, ev_stored = [], ev_requests = [], ev_left = False\<rparr>"

text \<open>What the page shows: an error, the loading state, or the toolbar with an editor or none.\<close>

datatype edit_body = Unavailable_body | Opening_body | Toolbar_body "string option"

definition shown_body :: "edit_view \<Rightarrow> edit_body" where
  "shown_body s =
     (if q_isError (ev_file s) \<or> q_isError (ev_session s) then Unavailable_body
      else case (q_data (ev_session s), q_data (ev_file s)) of
             (Some session, Some file) \<Rightarrow> Toolbar_body (if es_canEdit session then Some (es_ticketUrl session) else None)
           | _ \<Rightarrow> Opening_body)"

definition shown_editor :: "edit_view \<Rightarrow> string option" where
  "shown_editor s = (case shown_body s of Toolbar_body e \<Rightarrow> e | _ \<Rightarrow> None)"

text \<open>A render: an editor under another address is another editor, without the edits of the old one.\<close>

definition render_editor :: "edit_view \<Rightarrow> edit_view" where
  "render_editor s = (if shown_editor s = ev_editor s then s else s\<lparr>ev_editor := shown_editor s, ev_edits := []\<rparr>)"

definition edit_save_input :: "string \<Rightarrow> edit_session \<Rightarrow> byte list \<Rightarrow> save_edited_file_input" where
  "edit_save_input file session edited =
     \<lparr>fileId = file, baseVersion = es_version session, blockSize = es_blockSize session,
      filename = es_filename session,
      editor = (case editor_names (es_sniffedType session) of Some n \<Rightarrow> n | None \<Rightarrow> ''extend-editor''),
      bytes = edited\<rparr>"

definition editor_loading :: "edit_session \<Rightarrow> js_error" where
  "editor_loading session =
     JsError (if es_sniffedType session = ''pdf'' then ''The PDF editor is still loading.''
              else ''The editor is still loading.'')"

definition hashing_start :: edit_save_progress where
  "hashing_start = \<lparr>phase = Hashing, completed = 0, total = 0, progressUploaded = 0, bytesToUpload = 0\<rparr>"

definition start_save :: "edit_session \<Rightarrow> edit_view \<Rightarrow> edit_view" where
  "start_save session s =
     s\<lparr>ev_abort := Some (ev_nextCall s), ev_nextCall := Suc (ev_nextCall s), ev_state := SaveRunning hashing_start,
       ev_calls := ev_calls s @ [\<lparr>sc_id = ev_nextCall s, sc_session = session, sc_stage = Collecting, sc_edits = []\<rparr>]\<rparr>"

definition set_call :: "save_call \<Rightarrow> edit_view \<Rightarrow> edit_view" where
  "set_call c s = s\<lparr>ev_calls := map (\<lambda>c'. if sc_id c' = sc_id c then c else c') (ev_calls s)\<rparr>"

text \<open>The \<open>finally\<close> of a call clears the shared reference, whoever's controller it holds.\<close>

definition finish_call :: "save_call \<Rightarrow> edit_view \<Rightarrow> edit_view" where
  "finish_call c s = s\<lparr>ev_calls := filter (\<lambda>c'. sc_id c' \<noteq> sc_id c) (ev_calls s), ev_abort := None\<rparr>"

definition save_threw :: "save_call \<Rightarrow> js_error \<Rightarrow> edit_view \<Rightarrow> edit_view" where
  "save_threw c e s =
     finish_call c
       (s\<lparr>ev_state := (if e = EditSaveAbortedError then SaveIdle else SaveFailed (error_message ''The save failed.'' e))\<rparr>)"

definition collected :: "save_call \<Rightarrow> (js_error + byte list) \<Rightarrow> edit_view \<Rightarrow> edit_view" where
  "collected c result s =
     (if ev_editor s = None then save_threw c (editor_loading (sc_session c)) s
      else case result of
             Inl e \<Rightarrow> save_threw c e s
           | Inr edited \<Rightarrow>
               (set_call (c\<lparr>sc_stage := InSave, sc_edits := ev_edits s\<rparr>) s)
                 \<lparr>ev_requests := ev_requests s @ [edit_save_input (ev_fileId s) (sc_session c) edited]\<rparr>)"

definition save_settled :: "save_call \<Rightarrow> (js_error + save_edited_file_result) \<Rightarrow> edit_view \<Rightarrow> edit_view" where
  "save_settled c result s =
     (case result of
        Inl e \<Rightarrow> save_threw c e s
      | Inr (SaveConflict headVersion _) \<Rightarrow>
          (set_call (c\<lparr>sc_stage := Refreshing\<rparr>) s)\<lparr>ev_state := SaveConflicted headVersion\<rparr>
      | Inr (SaveCommitted version _ _ _ bytesUploaded) \<Rightarrow>
          (set_call (c\<lparr>sc_stage := Refreshing\<rparr>) s)
            \<lparr>ev_dirty := False, ev_state := SaveDone version bytesUploaded, ev_stored := ev_stored s @ sc_edits c\<rparr>)"

datatype edit_action =
    SessionAnswered "edit_session option" | FileAnswered "(string \<times> int) option" | Edit
  | PressSave | PressCancel | PressLeave bool
  | Collected nat "js_error + byte list" | Progressed nat edit_save_progress
  | SaveSettled nat "js_error + save_edited_file_result" | Refreshed nat

definition the_call :: "nat \<Rightarrow> save_stage \<Rightarrow> edit_view \<Rightarrow> save_call option" where
  "the_call i st s = List.find (\<lambda>c. sc_id c = i \<and> sc_stage c = st) (ev_calls s)"

definition press_save :: "edit_view \<Rightarrow> edit_view option" where
  "press_save s =
     (case (shown_body s, q_data (ev_session s)) of
        (Toolbar_body _, Some session) \<Rightarrow>
          if es_canEdit session \<and> \<not> is_saving (ev_state s) then Some (start_save session s) else None
      | _ \<Rightarrow> None)"

definition press_cancel :: "edit_view \<Rightarrow> edit_view option" where
  "press_cancel s =
     (case shown_body s of
        Toolbar_body _ \<Rightarrow>
          if is_saving (ev_state s)
          then Some (case ev_abort s of None \<Rightarrow> s | Some i \<Rightarrow> s\<lparr>ev_aborted := i # ev_aborted s\<rparr>)
          else None
      | _ \<Rightarrow> None)"

definition press_leave :: "bool \<Rightarrow> edit_view \<Rightarrow> edit_view option" where
  "press_leave discard s =
     (case shown_body s of
        Toolbar_body _ \<Rightarrow> Some (if ev_dirty s \<and> \<not> discard then s else s\<lparr>ev_left := True\<rparr>)
      | _ \<Rightarrow> None)"

fun edit_act :: "edit_view \<Rightarrow> edit_action \<Rightarrow> edit_view option" where
  "edit_act s (SessionAnswered r) = Some (render_editor (s\<lparr>ev_session := query_answered r (ev_session s)\<rparr>))"
| "edit_act s (FileAnswered r) = Some (render_editor (s\<lparr>ev_file := query_answered r (ev_file s)\<rparr>))"
| "edit_act s Edit =
     (if ev_editor s = None then None
      else Some (s\<lparr>ev_edits := ev_edits s @ [ev_nextEdit s], ev_nextEdit := Suc (ev_nextEdit s), ev_dirty := True\<rparr>))"
| "edit_act s PressSave = press_save s"
| "edit_act s PressCancel = press_cancel s"
| "edit_act s (PressLeave discard) = press_leave discard s"
| "edit_act s (Collected i r) = map_option (\<lambda>c. collected c r s) (the_call i Collecting s)"
| "edit_act s (Progressed i p) = map_option (\<lambda>_. s\<lparr>ev_state := SaveRunning p\<rparr>) (the_call i InSave s)"
| "edit_act s (SaveSettled i r) = map_option (\<lambda>c. save_settled c r s) (the_call i InSave s)"
| "edit_act s (Refreshed i) = map_option (\<lambda>c. finish_call c s) (the_call i Refreshing s)"

definition edit_step :: "edit_view \<Rightarrow> edit_action \<Rightarrow> edit_view option" where
  "edit_step s a = (if ev_left s then None else edit_act s a)"

section \<open>What the edit view says\<close>

definition unavailable_message :: "edit_session \<Rightarrow> string" where
  "unavailable_message session =
     (if es_unavailableReason session = ''too_large''
      then ''This file is '' @ format_bytes (WholeBytes (es_sizeBytes session)) @ ''; editing is limited to '' @
           format_bytes (WholeBytes (es_maxEditBytes session)) @ ''. Open it in a desktop app instead.''
      else if es_unavailableReason session = ''disabled''
      then ''Editing is temporarily switched off for this file type.''
      else ''This file type cannot be edited in the browser yet. PDF, DOCX and XLSX are supported.'')"

fun save_indicator :: "save_state \<Rightarrow> string option" where
  "save_indicator (SaveRunning p) =
     Some (if phase p = Hashing then ''Preparing changes''
           else if phase p = Uploading
           then ''Uploading '' @ show_nat (completed p) @ ''/'' @ show_nat (total p) @ '' blocks''
           else ''Committing version'')"
| "save_indicator (SaveDone version _) = Some (''Saved as version '' @ show_int version)"
| "save_indicator _ = None"

datatype notice_tone = SuccessTone | WarningTone | ErrorTone

fun save_notice :: "save_state \<Rightarrow> (notice_tone \<times> string) option" where
  "save_notice (SaveConflicted headVersion) =
     Some (WarningTone, ''A newer version of this file exists (version '' @ show_int headVersion @
       ''). Your changes were not saved. Save your edited copy with the editor's own download, then reopen the file to edit its latest version.'')"
| "save_notice (SaveFailed message) = Some (ErrorTone, message)"
| "save_notice (SaveDone version bytesUploaded) =
     Some (SuccessTone, ''Saved as version '' @ show_int version @ '' ('' @
       format_bytes (WholeBytes (int bytesUploaded)) @ '' uploaded). The previous version is kept.'')"
| "save_notice _ = None"

definition edit_notices :: "edit_view \<Rightarrow> (notice_tone \<times> string) list" where
  "edit_notices s =
     (case (shown_body s, q_data (ev_session s)) of
        (Toolbar_body _, Some session) \<Rightarrow>
          (case save_notice (ev_state s) of Some n \<Rightarrow> [n] | None \<Rightarrow> []) @
          (if es_canEdit session then [] else [(WarningTone, unavailable_message session)])
      | _ \<Rightarrow> [])"

section \<open>Saving, one at a time\<close>

text \<open>The calls whose save is not decided yet.\<close>

definition undecided :: "edit_view \<Rightarrow> save_call list" where
  "undecided s = filter (\<lambda>c. sc_stage c \<noteq> Refreshing) (ev_calls s)"

definition calls_ok :: "edit_view \<Rightarrow> bool" where
  "calls_ok s \<longleftrightarrow>
     distinct (map sc_id (ev_calls s)) \<and> list_all (\<lambda>c. sc_id c < ev_nextCall s) (ev_calls s) \<and>
     length (undecided s) = (if is_saving (ev_state s) then 1 else 0) \<and>
     set_option (ev_abort s) \<subseteq> sc_id ` set (ev_calls s)"

lemma the_call_SomeD: "the_call i st s = Some c \<Longrightarrow> c \<in> set (ev_calls s) \<and> sc_id c = i \<and> sc_stage c = st"
  by (auto simp: the_call_def find_Some_iff)

lemma render_editor_simps [simp]:
  "ev_calls (render_editor s) = ev_calls s" "ev_nextCall (render_editor s) = ev_nextCall s"
  "ev_state (render_editor s) = ev_state s" "ev_abort (render_editor s) = ev_abort s"
  "ev_dirty (render_editor s) = ev_dirty s" "ev_stored (render_editor s) = ev_stored s"
  "ev_requests (render_editor s) = ev_requests s" "ev_fileId (render_editor s) = ev_fileId s"
  "ev_session (render_editor s) = ev_session s" "ev_file (render_editor s) = ev_file s"
  by (simp_all add: render_editor_def)


lemma undecided_render [simp]: "undecided (render_editor s) = undecided s"
  by (simp add: undecided_def)

lemma unique_call:
  "distinct (map sc_id cs) \<Longrightarrow> c \<in> set cs \<Longrightarrow> c' \<in> set cs \<Longrightarrow> sc_id c' = sc_id c \<longleftrightarrow> c' = c"
  by (auto simp: distinct_map inj_on_def)

lemma drop_call_length:
  assumes "distinct (map sc_id cs)" and "c \<in> set cs"
  shows "length (filter P (filter (\<lambda>c'. sc_id c' \<noteq> sc_id c) cs)) = length (filter P cs) - (if P c then 1 else 0)"
proof -
  have "distinct cs" using assms(1) by (simp add: distinct_map)
  have "filter (\<lambda>c'. sc_id c' \<noteq> sc_id c) cs = remove1 c cs"
    using assms by (simp add: distinct_remove1_removeAll [OF \<open>distinct cs\<close>] removeAll_filter_not_eq unique_call [OF assms] eq_commute [of c] cong: filter_cong)
  then show ?thesis using assms(2) by (simp add: filter_remove1 length_remove1)
qed

lemma replace_call_length:
  assumes "distinct (map sc_id cs)" and "c \<in> set cs" and "sc_id d = sc_id c"
  shows "length (filter P (map (\<lambda>c'. if sc_id c' = sc_id d then d else c') cs)) =
         length (filter P cs) - (if P c then 1 else 0) + (if P d then 1 else 0)"
  using assms
proof (induction cs)
  case (Cons a cs)
  show ?case
  proof (cases "a = c")
    case True
    then have "map (\<lambda>c'. if sc_id c' = sc_id d then d else c') cs = cs"
      using Cons.prems by (intro map_idI) (auto simp: image_iff)
    with True Cons.prems show ?thesis by auto
  next
    case False
    with Cons.prems have a: "sc_id a \<noteq> sc_id d" "c \<in> set cs" by (auto simp: image_iff)
    moreover have "P c \<Longrightarrow> 1 \<le> length (filter P cs)"
      using a(2) by (cases "filter P cs") (auto simp: filter_empty_conv)
    ultimately show ?thesis using Cons by auto
  qed
qed simp

lemma undecided_pos: "c \<in> set (ev_calls s) \<Longrightarrow> sc_stage c \<noteq> Refreshing \<Longrightarrow> 1 \<le> length (undecided s)"
  by (cases "undecided s") (auto simp: undecided_def filter_empty_conv)

lemma finish_call_ok:
  assumes "calls_ok s" and c: "c \<in> set (ev_calls s)"
    and "is_saving (ev_state s') \<longleftrightarrow> is_saving (ev_state s) \<and> sc_stage c = Refreshing"
    and same: "ev_calls s' = ev_calls s" "ev_nextCall s' = ev_nextCall s"
  shows "calls_ok (finish_call c s')"
proof -
  have d: "distinct (map sc_id (ev_calls s))" using assms(1) by (simp add: calls_ok_def)
  have "length (undecided (finish_call c s')) = length (undecided s) - (if sc_stage c \<noteq> Refreshing then 1 else 0)"
    using drop_call_length [OF d c, of "\<lambda>c. sc_stage c \<noteq> Refreshing"] by (simp add: undecided_def finish_call_def same)
  then show ?thesis using assms undecided_pos [OF c]
    by (auto simp: calls_ok_def finish_call_def list_all_iff distinct_map_filter)
qed

lemma save_threw_ok:
  assumes "calls_ok s" and "c \<in> set (ev_calls s)" and "sc_stage c \<noteq> Refreshing"
  shows "calls_ok (save_threw c e s)"
  unfolding save_threw_def by (rule finish_call_ok [OF assms(1, 2)]) (use assms(3) in auto)

lemma set_call_ok:
  assumes "calls_ok s" and c: "c \<in> set (ev_calls s)" and d: "sc_id d = sc_id c" and "sc_stage c \<noteq> Refreshing"
    and saving: "is_saving (ev_state s') \<longleftrightarrow> sc_stage d \<noteq> Refreshing"
    and same: "ev_calls s' = ev_calls (set_call d s)" "ev_nextCall s' = ev_nextCall s" "ev_abort s' = ev_abort s"
  shows "calls_ok s'"
proof -
  have dist: "distinct (map sc_id (ev_calls s))" using assms(1) by (simp add: calls_ok_def)
  have ids: "map sc_id (ev_calls s') = map sc_id (ev_calls s)"
    by (simp add: same set_call_def o_def d if_distrib cong: if_cong)
  have "length (undecided s') = length (undecided s) - 1 + (if sc_stage d \<noteq> Refreshing then 1 else 0)"
    using replace_call_length [OF dist c d, of "\<lambda>c. sc_stage c \<noteq> Refreshing"] assms(4)
    by (simp add: undecided_def same set_call_def)
  moreover have "length (undecided s) = 1" "is_saving (ev_state s)"
    using assms(1) undecided_pos [OF c assms(4)] by (auto simp: calls_ok_def split: if_splits)
  moreover have "list_all (\<lambda>c. sc_id c < n) xs \<longleftrightarrow> list_all (\<lambda>i. i < n) (map sc_id xs)" for n and xs :: "save_call list"
    by (simp add: list_all_iff)
  moreover have "sc_id ` set (ev_calls s') = sc_id ` set (ev_calls s)" by (metis ids list.set_map)
  ultimately show ?thesis using assms(1) saving by (simp add: calls_ok_def ids same(2, 3))
qed

lemma start_save_ok:
  assumes "calls_ok s" and "\<not> is_saving (ev_state s)" shows "calls_ok (start_save session s)"
proof -
  have "ev_nextCall s \<notin> sc_id ` set (ev_calls s)" using assms(1) by (auto simp: calls_ok_def list_all_iff)
  with assms show ?thesis by (auto simp: calls_ok_def start_save_def undecided_def list_all_iff)
qed

lemma save_settled_ok:
  assumes "calls_ok s" and "c \<in> set (ev_calls s)" and "sc_stage c \<noteq> Refreshing"
  shows "calls_ok (save_settled c r s)"
  unfolding save_settled_def
  by (auto simp: save_threw_ok [OF assms] set_call_def split: sum.splits save_edited_file_result.splits
      intro!: set_call_ok [OF assms(1, 2), of "c\<lparr>sc_stage := Refreshing\<rparr>"] assms(3))

lemma collected_ok:
  assumes "calls_ok s" and "c \<in> set (ev_calls s)" and "sc_stage c = Collecting"
  shows "calls_ok (collected c r s)"
proof -
  have saving: "is_saving (ev_state s)"
    using assms undecided_pos [OF assms(2)] by (auto simp: calls_ok_def split: if_splits)
  show ?thesis
    unfolding collected_def
    using assms(3) saving save_threw_ok [OF assms(1, 2)]
    by (auto simp: set_call_def split: sum.splits
        intro!: set_call_ok [OF assms(1, 2), of "c\<lparr>sc_stage := InSave, sc_edits := ev_edits s\<rparr>"])
qed

lemma calls_ok_same:
  "ev_calls s' = ev_calls s \<Longrightarrow> ev_nextCall s' = ev_nextCall s \<Longrightarrow> ev_state s' = ev_state s \<Longrightarrow>
   ev_abort s' = ev_abort s \<Longrightarrow> calls_ok s' = calls_ok s"
  by (simp add: calls_ok_def undecided_def)

lemma edit_act_ok: "calls_ok s \<Longrightarrow> edit_act s a = Some s' \<Longrightarrow> calls_ok s'"
proof (induction s a rule: edit_act.induct)
  case (1 s r)
  then show ?case by (subst calls_ok_same [of _ s]) auto
next
  case (2 s r)
  then show ?case by (subst calls_ok_same [of _ s]) auto
next
  case (3 s)
  then show ?case by (subst calls_ok_same [of _ s]) (auto split: if_splits)
next
  case (4 s) then show ?case by (auto simp: press_save_def start_save_ok split: edit_body.splits option.splits if_splits)
next
  case (5 s)
  then show ?case
    by (subst calls_ok_same [of _ s]) (auto simp: press_cancel_def split: edit_body.splits option.splits if_splits)
next
  case (6 s discard)
  then show ?case by (subst calls_ok_same [of _ s]) (auto simp: press_leave_def split: edit_body.splits if_splits)
next
  case (7 s i r) then show ?case by (auto dest!: the_call_SomeD simp: collected_ok)
next
  case (8 s i p)
  then obtain c where c: "the_call i InSave s = Some c" "s' = s\<lparr>ev_state := SaveRunning p\<rparr>" by auto
  then have "c \<in> set (ev_calls s)" "sc_stage c \<noteq> Refreshing" using the_call_SomeD [OF c(1)] by auto
  then have "is_saving (ev_state s)"
    using 8(1) undecided_pos [of c s] by (auto simp: calls_ok_def split: if_splits)
  with 8(1) c(2) show ?case by (simp add: calls_ok_def undecided_def)
next
  case (9 s i r) then show ?case by (auto dest!: the_call_SomeD simp: save_settled_ok)
next
  case (10 s i) then show ?case by (auto dest!: the_call_SomeD intro!: finish_call_ok)
qed

interpretation edit_saving: machine edit_step "edit_start f" calls_ok for f
proof
  show "calls_ok (edit_start f)" by (simp add: calls_ok_def edit_start_def undecided_def)
  show "calls_ok s'" if "calls_ok s" "edit_step s a = Some s'" for s a s'
    using that edit_act_ok by (auto simp: edit_step_def split: if_splits)
qed

section \<open>Unsaved edits\<close>











section \<open>Properties of the edit view\<close>

text \<open>Everything the view sends comes from sessions it was answered with, here those in \<open>given\<close>.\<close>

definition from_sessions :: "edit_session set \<Rightarrow> string \<Rightarrow> edit_view \<Rightarrow> bool" where
  "from_sessions given file s \<longleftrightarrow>
     ev_fileId s = file \<and> set_option (q_data (ev_session s)) \<subseteq> given \<and> list_all (\<lambda>c. sc_session c \<in> given) (ev_calls s) \<and>
     list_all (\<lambda>q. \<exists>session edited. session \<in> given \<and> q = edit_save_input file session edited) (ev_requests s)"

lemma from_sessions_same:
  "ev_calls s' = ev_calls s \<Longrightarrow> ev_fileId s' = ev_fileId s \<Longrightarrow> ev_session s' = ev_session s \<Longrightarrow>
   ev_requests s' = ev_requests s \<Longrightarrow> from_sessions given file s' = from_sessions given file s"
  by (simp add: from_sessions_def)

lemma from_sessions_render [simp]: "from_sessions given file (render_editor s) = from_sessions given file s"
  by (rule from_sessions_same) (simp_all add: render_editor_def)

lemma from_sessions_threw: "from_sessions given file s \<Longrightarrow> from_sessions given file (save_threw c e s)"
  by (auto simp: from_sessions_def save_threw_def finish_call_def list_all_iff)

lemma from_sessions_call:
  "from_sessions given file s \<Longrightarrow> c \<in> set (ev_calls s) \<Longrightarrow> sc_session d = sc_session c \<Longrightarrow>
   from_sessions given file (set_call d s)"
  by (auto simp: from_sessions_def set_call_def list_all_iff)

lemma from_sessions_collected:
  assumes "from_sessions given file s" and "c \<in> set (ev_calls s)"
  shows "from_sessions given file (collected c r s)"
proof (cases "\<exists>edited. r = Inr edited \<and> ev_editor s \<noteq> None")
  case True
  then obtain edited where r: "r = Inr edited" "ev_editor s \<noteq> None" by blast
  let ?d = "c\<lparr>sc_stage := InSave, sc_edits := ev_edits s\<rparr>"
  have "sc_session c \<in> given" using assms by (auto simp: from_sessions_def list_all_iff)
  moreover have "from_sessions given file (set_call ?d s)" by (rule from_sessions_call [OF assms]) simp
  moreover have "ev_requests (set_call ?d s) = ev_requests s" by (simp add: set_call_def)
  ultimately show ?thesis using r assms(1) by (auto simp: collected_def from_sessions_def)
next
  case False
  then show ?thesis using from_sessions_threw [OF assms(1)] by (cases r) (auto simp: collected_def)
qed

lemma from_sessions_settled:
  assumes "from_sessions given file s" and "c \<in> set (ev_calls s)"
  shows "from_sessions given file (save_settled c r s)"
  using assms from_sessions_call [OF assms, of "c\<lparr>sc_stage := Refreshing\<rparr>"]
  by (auto simp: save_settled_def from_sessions_threw split: sum.splits save_edited_file_result.splits)
    (auto simp: from_sessions_def)

lemma from_sessions_act:
  assumes "from_sessions given file s" and "edit_act s a = Some s'"
    and "\<And>session. a = SessionAnswered (Some session) \<Longrightarrow> session \<in> given"
  shows "from_sessions given file s'"
proof (cases a)
  case (SessionAnswered r)
  then show ?thesis using assms by (cases r) (auto simp: from_sessions_def query_answered_def)
next
  case (FileAnswered r)
  then show ?thesis using assms by (auto simp: from_sessions_def)
next
  case PressSave
  then show ?thesis using assms
    by (auto simp: press_save_def start_save_def from_sessions_def split: edit_body.splits option.splits if_splits)
next
  case (Collected i r)
  then show ?thesis using assms by (auto dest!: the_call_SomeD simp: from_sessions_collected)
next
  case (SaveSettled i r)
  then show ?thesis using assms by (auto dest!: the_call_SomeD simp: from_sessions_settled)
next
  case (Refreshed i)
  then show ?thesis using assms by (auto simp: from_sessions_def finish_call_def list_all_iff)
qed (use assms in \<open>auto simp: from_sessions_def press_cancel_def press_leave_def
       split: edit_body.splits option.splits if_splits\<close>)

lemma from_sessions_run:
  "exec edit_step s as = Some s' \<Longrightarrow> from_sessions given file s \<Longrightarrow>
   (\<And>session. SessionAnswered (Some session) \<in> set as \<Longrightarrow> session \<in> given) \<Longrightarrow> from_sessions given file s'"
proof (induction as arbitrary: s)
  case (Cons a as)
  obtain t where t: "edit_step s a = Some t" "exec edit_step t as = Some s'"
    using Cons.prems(1) by (auto split: option.splits)
  then have "edit_act s a = Some t" by (simp add: edit_step_def split: if_splits)
  moreover have "session \<in> given" if "a = SessionAnswered (Some session)" for session
    using Cons.prems(3) that by simp
  ultimately have "from_sessions given file t" by (rule from_sessions_act [OF Cons.prems(2)])
  then show ?case using Cons.IH [OF t(2)] Cons.prems(3) by simp
qed simp

text \<open>
  C7: However its events interleave, the edit view has at most one save under way and shows it as saving
  exactly while it has one; and every save it asks for carries the version, block size and name of one
  session the service answered with.
\<close>
theorem edit_view_one_save:
  assumes "exec edit_step (edit_start file) as = Some s"
  shows "length (undecided s) = (if is_saving (ev_state s) then 1 else 0) \<and>
    list_all (\<lambda>q. \<exists>session edited. SessionAnswered (Some session) \<in> set as \<and> q = edit_save_input file session edited)
      (ev_requests s)"
proof -
  have "from_sessions {session. SessionAnswered (Some session) \<in> set as} file s"
    by (rule from_sessions_run [OF assms]) (simp_all add: from_sessions_def edit_start_def)
  then show ?thesis using edit_saving.inv_exec [OF assms] by (simp add: calls_ok_def from_sessions_def)
qed

definition sample_session :: "int \<Rightarrow> string \<Rightarrow> edit_session" where
  "sample_session version url =
     \<lparr>es_canEdit = True, es_unavailableReason = [], es_version = version, es_contentHash = ''h'', es_ticketUrl = url,
      es_expiresInSeconds = 120, es_blockSize = 4, es_maxEditBytes = 100, es_sniffedType = ''docx'',
      es_filename = ''n'', es_sizeBytes = 3, es_contentType = [], es_blockHashes = []\<rparr>"

definition opened :: "edit_action list" where
  "opened = [SessionAnswered (Some (sample_session 4 ''a'')), FileAnswered (Some (''n'', 3)), Edit, PressSave]"

definition sample_run :: "edit_action list \<Rightarrow> edit_view" where
  "sample_run as = the (exec edit_step (edit_start ''f'') as)"

lemmas run_edit_view = sample_run_def opened_def sample_session_def edit_step_def edit_start_def query_answered_def
  render_editor_def shown_editor_def shown_body_def press_save_def press_cancel_def press_leave_def start_save_def
  the_call_def collected_def save_settled_def save_threw_def finish_call_def set_call_def hashing_start_def

theorem edit_view_one_save_witness:
  "map_option (\<lambda>s. (length (undecided s), map baseVersion (ev_requests s)))
     (exec edit_step (edit_start ''f'') (opened @ [Collected 0 (Inr [1])])) = Some (1, [4])"
proof -
  let ?as = "opened @ [Collected 0 (Inr [1])]"
  have run: "exec edit_step (edit_start ''f'') ?as = Some (sample_run ?as)" and "is_saving (ev_state (sample_run ?as))"
    and "map baseVersion (ev_requests (sample_run ?as)) = [4]"
    by (simp_all add: run_edit_view edit_save_input_def)
  with edit_view_one_save [OF run] show ?thesis by simp
qed



text \<open>
  An edit made while a save is under way is not in the committed bytes, yet the save takes the unsaved
  mark away: the user leaves without being asked, and the edit is lost.
\<close>
theorem edit_during_save_lost:
  "\<exists>as s. exec edit_step (edit_start ''f'') as = Some s \<and> ev_left s \<and> PressLeave False \<in> set as \<and>
     ev_edits s = [0, 1] \<and> ev_stored s = [0]"
proof -
  let ?as = "opened @ [Collected 0 (Inr [1]), Edit, SaveSettled 0 (Inr (SaveCommitted 5 ''h'' 0 1 1)), PressLeave False]"
  have "exec edit_step (edit_start ''f'') ?as = Some (sample_run ?as)" "ev_left (sample_run ?as)"
    "ev_edits (sample_run ?as) = [0, 1]" "ev_stored (sample_run ?as) = [0]"
    by (simp_all add: run_edit_view)
  then show ?thesis by (intro exI [of _ ?as] exI [of _ "sample_run ?as"]) simp
qed

text \<open>
  A conflict asks the user to download the edited copy, but the refetch that follows answers with
  another ticket address, under which a fresh editor opens: the edits are gone.
\<close>
theorem conflict_discards_edits:
  assumes run: "exec edit_step (edit_start file) as = Some s" and "ev_state s = SaveConflicted head"
    and refetched: "edit_step s (SessionAnswered (Some session)) = Some t"
    and "ev_editor s = Some url" and "es_ticketUrl session \<noteq> url"
  shows "ev_state t = SaveConflicted head \<and> ev_edits t = [] \<and> ev_editor t \<noteq> Some url \<and> ev_stored t = ev_stored s"
  using assms
  by (auto simp: edit_step_def render_editor_def shown_editor_def shown_body_def query_answered_def
      split: if_splits option.splits edit_body.splits)

theorem conflict_discards_edits_witness:
  "\<exists>s t. exec edit_step (edit_start ''f'')
      (opened @ [Collected 0 (Inr [1]), SaveSettled 0 (Inr (SaveConflict 7 ''g''))]) = Some s \<and> ev_edits s = [0] \<and>
     edit_step s (SessionAnswered (Some (sample_session 7 ''b''))) = Some t \<and> ev_edits t = []"
proof -
  let ?as = "opened @ [Collected 0 (Inr [1]), SaveSettled 0 (Inr (SaveConflict 7 ''g''))]"
  define t where "t = the (edit_step (sample_run ?as) (SessionAnswered (Some (sample_session 7 ''b''))))"
  have run: "exec edit_step (edit_start ''f'') ?as = Some (sample_run ?as)"
    and s: "ev_edits (sample_run ?as) = [0]" "ev_state (sample_run ?as) = SaveConflicted 7" "ev_editor (sample_run ?as) = Some ''a''"
    and t: "edit_step (sample_run ?as) (SessionAnswered (Some (sample_session 7 ''b''))) = Some t"
    by (simp_all add: t_def run_edit_view)
  have "ev_edits t = []" using conflict_discards_edits [OF run s(2) t s(3)] by (simp add: sample_session_def)
  with run s t show ?thesis by blast
qed

text \<open>
  While a call waits for its refetches the next save can start; the end of the first call clears the
  abort reference, and cancelling the second save does nothing.
\<close>
theorem cancel_can_be_lost:
  "\<exists>as s t. exec edit_step (edit_start ''f'') as = Some s \<and> is_saving (ev_state s) \<and>
     edit_step s PressCancel = Some t \<and> ev_aborted t = []"
proof -
  let ?as = "opened @ [Collected 0 (Inr [1]), SaveSettled 0 (Inr (SaveCommitted 5 ''h'' 0 1 1)), PressSave, Refreshed 0]"
  define t where "t = the (edit_step (sample_run ?as) PressCancel)"
  have "exec edit_step (edit_start ''f'') ?as = Some (sample_run ?as)" "is_saving (ev_state (sample_run ?as))"
    "edit_step (sample_run ?as) PressCancel = Some t" "ev_aborted t = []"
    by (simp_all add: t_def run_edit_view)
  then show ?thesis by (intro exI [of _ ?as] exI [of _ "sample_run ?as"] exI [of _ t]) simp
qed

section \<open>The preview drawer\<close>

definition file_extension :: "string \<Rightarrow> string" where
  "file_extension name =
     (case last_index_of (CHR ''.'') name of
        Some dot \<Rightarrow> if 0 < dot \<and> int dot < int (length name) - 1 then to_upper (drop (dot + 1) name) else ''FILE''
      | None \<Rightarrow> ''FILE'')"

datatype preview_kind_name = KindImage | KindVideo | KindAudio | KindPdf | KindDocx | KindXlsx | KindDoc | KindOther

definition docx_content_type :: string where
  "docx_content_type = ''application/vnd.openxmlformats-officedocument.wordprocessingml.document''"

definition xlsx_content_type :: string where
  "xlsx_content_type = ''application/vnd.openxmlformats-officedocument.spreadsheetml.sheet''"

definition preview_kind :: "string option \<Rightarrow> string option \<Rightarrow> preview_kind_name" where
  "preview_kind contentType name =
     (let lowerName = (case name of Some n \<Rightarrow> to_lower n | None \<Rightarrow> []);
          type_is = (\<lambda>t. contentType = Some t);
          type_starts = (\<lambda>t. case contentType of Some c \<Rightarrow> starts_with c t | None \<Rightarrow> False)
      in if ends_with lowerName ''.xlsx'' then KindXlsx
         else if type_is xlsx_content_type then KindXlsx
         else if ends_with lowerName ''.docx'' then KindDocx
         else if type_is docx_content_type then KindDocx
         else if type_starts ''image/'' then KindImage
         else if type_starts ''video/'' then KindVideo
         else if type_starts ''audio/'' then KindAudio
         else if type_is ''application/pdf'' then KindPdf
         else if type_starts ''text/'' then KindDoc
         else KindOther)"

definition is_document :: "preview_kind_name \<Rightarrow> bool" where
  "is_document kind \<longleftrightarrow> kind = KindPdf \<or> kind = KindDocx"

definition is_editable :: "preview_kind_name \<Rightarrow> bool" where
  "is_editable kind \<longleftrightarrow> kind = KindPdf \<or> kind = KindDocx \<or> kind = KindXlsx"

datatype preview_surface = LoadingSurface | NoThumbnailSurface | PictureSurface string int | NoPreviewSurface

definition preview_surface_of :: "preview_kind_name \<Rightarrow> string option \<Rightarrow> bool \<Rightarrow> bool \<Rightarrow> int \<Rightarrow> preview_surface" where
  "preview_surface_of kind url urlError urlLoading zoom =
     (if kind = KindImage \<or> kind = KindVideo
      then if urlLoading then LoadingSurface
           else case url of
                  Some u \<Rightarrow> if urlError \<or> u = [] then NoThumbnailSurface else PictureSurface u zoom
                | None \<Rightarrow> NoThumbnailSurface
      else NoPreviewSurface)"

text \<open>The file of the drawer: content type, name, size and creation time.\<close>

record preview_file =
  pf_itemId :: string
  pf_contentType :: string
  pf_filename :: string
  pf_sizeBytes :: byte_count
  pf_createdAt :: string

datatype preview_area = PdfArea "string option" | DocxArea "string option" | SurfaceArea preview_surface

record preview_panel =
  pp_name :: string
  pp_details :: string
  pp_editable :: bool
  pp_openUrl :: "string option"
  pp_area :: preview_area
  pp_zoomShown :: bool

text \<open>
  What the open drawer shows for a file: \<open>thumbnail\<close> is the state of the thumbnail query (its address, error and
  loading flags), \<open>content\<close> the address of the content query, \<open>ago\<close> the formatted creation time.
\<close>

definition preview_panel_of ::
  "string \<Rightarrow> string option \<times> bool \<times> bool \<Rightarrow> string option \<Rightarrow> int \<Rightarrow> preview_file \<Rightarrow> preview_panel" where
  "preview_panel_of when_text thumbnail content zoom file =
     (let kind = preview_kind (Some (pf_contentType file)) (Some (pf_filename file));
          (thumbnailUrl, failed, loading) = thumbnail;
          showUrl = (kind = KindImage \<or> kind = KindVideo);
          non_empty = (\<lambda>u. case u of Some (_ # _) \<Rightarrow> True | _ \<Rightarrow> False);
          url = (if showUrl then thumbnailUrl else content)
      in \<lparr>pp_name = pf_filename file,
          pp_details = js_join [CHR '' '', CHR 0xC2, CHR 0xB7, CHR '' '']
            (truthy_strings [file_extension (pf_filename file), format_bytes (pf_sizeBytes file), when_text]),
          pp_editable = is_editable kind,
          pp_openUrl = (if non_empty url then url else None),
          pp_area =
            (if kind = KindPdf then PdfArea content
             else if kind = KindDocx then DocxArea content
             else SurfaceArea
                    (preview_surface_of kind (if showUrl then thumbnailUrl else None) (showUrl \<and> failed)
                      (showUrl \<and> loading) zoom)),
          pp_zoomShown = (showUrl \<and> \<not> loading \<and> non_empty thumbnailUrl)\<rparr>)"

text \<open>The content ticket is only minted for an open document.\<close>

definition mints_ticket :: "bool \<Rightarrow> preview_file \<Rightarrow> bool" where
  "mints_ticket open_drawer file \<longleftrightarrow>
     open_drawer \<and> is_document (preview_kind (Some (pf_contentType file)) (Some (pf_filename file)))"

datatype zoom_action = ZoomOut | ZoomIn | DrawerOpened

fun zoom_step :: "int \<Rightarrow> zoom_action \<Rightarrow> int option" where
  "zoom_step zoom ZoomOut = (if zoom \<le> 25 then None else Some (max 25 (zoom - 25)))"
| "zoom_step zoom ZoomIn = (if 200 \<le> zoom then None else Some (min 200 (zoom + 25)))"
| "zoom_step zoom DrawerOpened = Some 100"

interpretation zoom_pill: machine zoom_step 100 "\<lambda>z. 25 \<le> z \<and> z \<le> 200 \<and> 25 dvd z"
proof
  fix z a z' assume "25 \<le> z \<and> z \<le> 200 \<and> 25 dvd z" "zoom_step z a = Some z'"
  then show "25 \<le> z' \<and> z' \<le> 200 \<and> 25 dvd z'"
    by (cases a) (auto simp: max_def min_def split: if_splits)
qed simp

section \<open>The preview that follows the address\<close>

text \<open>
  The browser's history, current address first; the component stays mounted while the address names
  other routes, and its drawer is open exactly when the file is loaded and the address names it.
\<close>

record url_preview =
  up_folderId :: string
  up_fileId :: string
  up_history :: "string list"
  up_loaded :: bool
  up_leaving :: bool

definition preview_path :: "url_preview \<Rightarrow> string" where
  "preview_path s = ''/files/'' @ up_folderId s @ ''/preview/'' @ up_fileId s"

definition edit_path :: "url_preview \<Rightarrow> string" where
  "edit_path s = ''/files/'' @ up_folderId s @ ''/edit/'' @ up_fileId s"

definition drawer_open :: "url_preview \<Rightarrow> bool" where
  "drawer_open s \<longleftrightarrow> up_loaded s \<and> up_history s \<noteq> [] \<and> hd (up_history s) = preview_path s"

datatype url_action = FileLoaded | FileGone | PressEdit | OpenChange bool | BrowserBack | BrowserTo string

fun url_step :: "url_preview \<Rightarrow> url_action \<Rightarrow> url_preview option" where
  "url_step s FileLoaded = Some (s\<lparr>up_loaded := True\<rparr>)"
| "url_step s FileGone = Some (s\<lparr>up_history := (''/files/'' @ up_folderId s) # tl (up_history s)\<rparr>)"
| "url_step s PressEdit =
     (if drawer_open s then Some (s\<lparr>up_leaving := True, up_history := edit_path s # up_history s\<rparr>) else None)"
| "url_step s (OpenChange opening) =
     Some (if opening \<or> up_leaving s then s else s\<lparr>up_history := tl (up_history s)\<rparr>)"
| "url_step s BrowserBack = Some (s\<lparr>up_history := tl (up_history s)\<rparr>)"
| "url_step s (BrowserTo path) = Some (s\<lparr>up_history := path # up_history s\<rparr>)"

lemma leaving_stays: "url_step s a = Some s' \<Longrightarrow> up_leaving s \<Longrightarrow> up_leaving s'"
  by (cases a) (auto split: if_splits)

lemma leaving_after_edit:
  "exec url_step s as = Some s' \<Longrightarrow> up_leaving s \<or> PressEdit \<in> set as \<Longrightarrow> up_leaving s'"
proof (induction as arbitrary: s)
  case (Cons a as)
  then obtain t where t: "url_step s a = Some t" "exec url_step t as = Some s'" by (auto split: option.splits)
  have "up_leaving t \<or> PressEdit \<in> set as"
    using Cons.prems(2) leaving_stays [OF t(1)] t(1) by (cases "a = PressEdit") (auto split: if_splits)
  with Cons.IH [OF t(2)] show ?case .
qed simp

text \<open>
  Dismissing the drawer goes back to the grid - unless the file was opened in the editor before: the
  mark of that departure is never taken back, so after the return from the editor the open drawer
  cannot be dismissed.
\<close>
theorem preview_dismissal:
  assumes "exec url_step s as = Some t" and "\<not> up_leaving s"
  shows "url_step t (OpenChange False) =
    Some (if PressEdit \<in> set as then t else t\<lparr>up_history := tl (up_history t)\<rparr>)"
proof -
  have "\<not> up_leaving t" if "PressEdit \<notin> set as"
    using assms that
  proof (induction as arbitrary: s)
    case (Cons a as)
    then obtain r where r: "url_step s a = Some r" "exec url_step r as = Some t" by (auto split: option.splits)
    moreover have "\<not> up_leaving r" using Cons.prems r(1) by (cases a) (auto split: if_splits)
    ultimately show ?case using Cons by auto
  qed simp
  then show ?thesis using leaving_after_edit [OF assms(1)] by auto
qed

theorem preview_dismissal_witness:
  "\<exists>s t. \<not> up_leaving s \<and> exec url_step s [FileLoaded, PressEdit, BrowserBack] = Some t \<and> drawer_open t \<and>
     url_step t (OpenChange False) = Some t"
proof -
  define s where "s = \<lparr>up_folderId = ''d'', up_fileId = ''f'', up_history = [''/files/d/preview/f'', ''/files/d''],
    up_loaded = False, up_leaving = False\<rparr>"
  define t where "t = the (exec url_step s [FileLoaded, PressEdit, BrowserBack])"
  have run: "exec url_step s [FileLoaded, PressEdit, BrowserBack] = Some t" and "drawer_open t" and s: "\<not> up_leaving s"
    by (simp_all add: s_def t_def drawer_open_def preview_path_def edit_path_def)
  moreover have "url_step t (OpenChange False) = Some t" using preview_dismissal [OF run s] by simp
  ultimately show ?thesis by blast
qed

text \<open>
  The zoom of the picture stays a multiple of 25 per cent between 25 and 200, and an edit button that leads to
  the editor belongs to a PDF, DOCX or XLSX by name or type; only PDF and DOCX mint a content ticket.
\<close>
theorem preview_drawer_bounds:
  assumes "exec zoom_step 100 as = Some zoom"
  shows "zoom \<in> {25, 50, 75, 100, 125, 150, 175, 200} \<and>
    (if mints_ticket opened_drawer file then opened_drawer \<and> pp_editable (preview_panel_of w thumbnail content zoom file) \<and>
       pp_zoomShown (preview_panel_of w thumbnail content zoom file) = False
     else True)"
proof -
  have "25 \<le> zoom" "zoom \<le> 200" "25 dvd zoom" using zoom_pill.inv_exec [OF assms] by simp_all
  then obtain k where k: "zoom = 25 * k" "1 \<le> k" "k \<le> 8" by (auto elim!: dvdE)
  then have "k \<in> {1, 2, 3, 4, 5, 6, 7, 8}" by auto
  then show ?thesis using k(1)
    by (auto simp: mints_ticket_def is_document_def preview_panel_of_def is_editable_def Let_def split: prod.splits)
qed

end
