(* ===== verification/Forms.thy ===== *)
theory Forms
  imports FileView
begin

text \<open>
  The forms: sign-in and sign-up on the mobile app (native/src/app/(auth)/login.tsx and register.tsx with
  native/src/modules/auth/lib/auth-errors.ts) and on the web (web/src/modules/auth/components), renaming a
  file and creating a folder on the web, and the create sheet of the mobile app
  (native/src/modules/upload/components/create-sheet.tsx); also the service addresses of
  native/src/lib/env.ts and the initials of web/src/modules/files/components/file-header.tsx.

  Lengths are counted in characters of the model's strings. The email check of the schema library is an
  argument.
\<close>

section \<open>Mobile sign-in and sign-up\<close>

definition message_for_auth_error :: "connect_from \<Rightarrow> js_error \<Rightarrow> string" where
  "message_for_auth_error from e =
     (let c = from e; raw = ce_rawMessage c
      in case ce_code c of
           Unauthenticated \<Rightarrow> ''That email and password do not match. Check them and try again.''
         | AlreadyExists \<Rightarrow> ''An account with this email already exists. Try logging in instead.''
         | InvalidArgument \<Rightarrow> if raw = [] then ''Please check the details you entered.'' else raw
         | Unavailable \<Rightarrow> ''Cannot reach the server. Check your connection and try again.''
         | DeadlineExceeded \<Rightarrow> ''Cannot reach the server. Check your connection and try again.''
         | ResourceExhausted \<Rightarrow> ''Too many attempts. Wait a moment and try again.''
         | _ \<Rightarrow> if raw = [] then ''Something went wrong. Please try again.'' else raw)"

text \<open>
  \<open>/^[^\s@]+@[^\s@]+\.[^\s@]+$/\<close>: the text cut at its at signs is two parts without white space, the first not empty,
  the second with a dot that is neither its first nor its last character.
\<close>

definition email_pattern :: "string \<Rightarrow> bool" where
  "email_pattern s =
     (list_all (\<lambda>c. \<not> is_ws c) s \<and>
      (case split_char (CHR ''@'') s of
         [local_part, domain] \<Rightarrow>
           local_part \<noteq> [] \<and> list_ex (\<lambda>i. domain ! i = CHR ''.'') [1..<length domain - 1]
       | _ \<Rightarrow> False))"

definition validate_email :: "string \<Rightarrow> string option" where
  "validate_email email =
     (let trimmed = js_trim email
      in if trimmed = [] then Some ''Enter your email address.''
         else if \<not> email_pattern trimmed then Some ''Enter a valid email address.''
         else None)"

definition validate_password :: "string \<Rightarrow> string option" where
  "validate_password password =
     (if password = [] then Some ''Enter your password.''
      else if length password < 8 then Some ''Passwords are at least 8 characters.''
      else None)"

definition validate_name :: "string \<Rightarrow> string option" where
  "validate_name name = (if js_trim name = [] then Some ''Enter your name.'' else None)"

text \<open>The requests the mutations send for what the screens hand them.\<close>

datatype auth_request = LoginRequest string string | RegisterRequest string string string

definition use_login :: "string \<Rightarrow> string \<Rightarrow> auth_request" where
  "use_login email password = LoginRequest (js_trim email) password"

definition use_register :: "string \<Rightarrow> string \<Rightarrow> string \<Rightarrow> auth_request" where
  "use_register name email password = RegisterRequest (js_trim name) (js_trim email) password"

record login_form =
  lf_email :: string
  lf_password :: string
  lf_emailError :: "string option"
  lf_passwordError :: "string option"

definition login_submit :: "login_form \<Rightarrow> login_form \<times> auth_request option" where
  "login_submit f =
     (let emailError = validate_email (lf_email f); passwordError = validate_password (lf_password f);
          f' = f\<lparr>lf_emailError := emailError, lf_passwordError := passwordError\<rparr>
      in (f', if emailError \<noteq> None \<or> passwordError \<noteq> None then None
              else Some (use_login (lf_email f) (lf_password f))))"

definition login_type_email :: "string \<Rightarrow> login_form \<Rightarrow> login_form" where
  "login_type_email next f = f\<lparr>lf_email := next, lf_emailError := None\<rparr>"

definition login_type_password :: "string \<Rightarrow> login_form \<Rightarrow> login_form" where
  "login_type_password next f = f\<lparr>lf_password := next, lf_passwordError := None\<rparr>"

datatype register_field = NameField | EmailField | PasswordField

record register_form =
  rf_value :: "register_field \<Rightarrow> string"
  rf_error :: "register_field \<Rightarrow> string option"

fun validate_field :: "register_field \<Rightarrow> string \<Rightarrow> string option" where
  "validate_field NameField = validate_name"
| "validate_field EmailField = validate_email"
| "validate_field PasswordField = validate_password"

definition register_submit :: "register_form \<Rightarrow> register_form \<times> auth_request option" where
  "register_submit f =
     (let errors = (\<lambda>field. validate_field field (rf_value f field))
      in (f\<lparr>rf_error := errors\<rparr>,
          if errors NameField \<noteq> None \<or> errors EmailField \<noteq> None \<or> errors PasswordField \<noteq> None then None
          else Some (use_register (rf_value f NameField) (rf_value f EmailField) (rf_value f PasswordField))))"

definition register_type :: "register_field \<Rightarrow> string \<Rightarrow> register_form \<Rightarrow> register_form" where
  "register_type field next f =
     f\<lparr>rf_value := (rf_value f)(field := next), rf_error := (rf_error f)(field := None)\<rparr>"

section \<open>Service addresses\<close>

definition service_url :: "string \<Rightarrow> string option \<Rightarrow> nat \<Rightarrow> string" where
  "service_url devHost explicit port =
     (case map_option js_trim explicit of
        Some (c # t) \<Rightarrow> rev (dropWhile (\<lambda>d. d = CHR ''/'') (rev (c # t)))
      | _ \<Rightarrow> ''http://'' @ devHost @ '':'' @ show_nat port)"

definition dev_host :: "bool \<Rightarrow> string" where
  "dev_host android = (if android then ''10.0.2.2'' else ''localhost'')"

section \<open>Web sign-in and sign-up\<close>

text \<open>The first failing rule of each field, in the order of the schema.\<close>

definition password_rule :: "string \<Rightarrow> string option" where
  "password_rule password =
     (if length password < 8 then Some ''Password must be at least 8 characters''
      else if 100 < length password then Some ''Password must be less than 100 characters''
      else None)"

definition email_rule :: "(string \<Rightarrow> bool) \<Rightarrow> string \<Rightarrow> string option" where
  "email_rule zod_email email = (if zod_email email then None else Some ''Please enter a valid email address'')"

definition signin_ok :: "(string \<Rightarrow> bool) \<Rightarrow> string \<Rightarrow> string \<Rightarrow> bool" where
  "signin_ok zod_email email password \<longleftrightarrow> email_rule zod_email email = None \<and> password_rule password = None"

definition signup_ok :: "(string \<Rightarrow> bool) \<Rightarrow> string \<Rightarrow> string \<Rightarrow> string \<Rightarrow> string \<Rightarrow> bool" where
  "signup_ok zod_email name email password confirmPassword \<longleftrightarrow>
     2 \<le> length name \<and> length name \<le> 100 \<and> email_rule zod_email email = None \<and> password_rule password = None \<and>
     8 \<le> length confirmPassword \<and> password = confirmPassword"

datatype web_form_event = CallLogin string string | CallRegister string string string | GoTo string | FormThrows js_error

text \<open>\<open>login\<close> and \<open>register\<close> are the outcomes of the server actions; sign-up does not wait for its one.\<close>

definition signin_submit :: "(string \<Rightarrow> bool) \<Rightarrow> js_error option \<Rightarrow> string \<Rightarrow> string \<Rightarrow> web_form_event list" where
  "signin_submit zod_email login email password =
     (if signin_ok zod_email email password
      then CallLogin email password # (case login of None \<Rightarrow> [GoTo ''/files''] | Some e \<Rightarrow> [FormThrows e])
      else [])"

definition signup_submit ::
  "(string \<Rightarrow> bool) \<Rightarrow> js_error option \<Rightarrow> string \<Rightarrow> string \<Rightarrow> string \<Rightarrow> string \<Rightarrow> web_form_event list" where
  "signup_submit zod_email register name email password confirmPassword =
     (if signup_ok zod_email name email password confirmPassword
      then [CallRegister name email password, GoTo ''/''] @ (case register of None \<Rightarrow> [] | Some e \<Rightarrow> [FormThrows e])
      else [])"

section \<open>Renaming a file\<close>

definition rename_schema :: "string \<Rightarrow> string + string" where
  "rename_schema typed =
     (let v = js_trim typed
      in if length v < 1 then Inl ''File name is required''
         else if 100 < length v then Inl ''File name must be 100 characters or less''
         else if CHR ''/'' \<in> set v \<or> CHR 0x5C \<in> set v
         then Inl (''A file name cannot contain '' @ ldquo @ ''/'' @ rdquo @ '' or '' @ ldquo @ [CHR 0x5C] @ rdquo)
         else if v = ''.'' \<or> v = ''..'' then Inl ''That name is reserved''
         else Inr v)"

text \<open>The part of the name the dialog preselects, as the end of the range that starts at 0.\<close>

definition rename_selection :: "string \<Rightarrow> nat" where
  "rename_selection currentName =
     (case last_index_of (CHR ''.'') currentName of
        Some dot \<Rightarrow> if 0 < dot then dot else length currentName
      | None \<Rightarrow> length currentName)"

record rename_dialog =
  rn_fileId :: string
  rn_currentName :: string
  rn_open :: bool
  rn_field :: string
  rn_nameError :: "string option"
  rn_rootError :: "string option"
  rn_pending :: bool
  rn_requests :: "file_mutation list"

datatype rename_action =
    RenameOpen string string | RenameType string | RenameSubmit | RenameSettled "js_error option"
  | RenameCancel | RenameDismiss

definition rename_submit :: "rename_dialog \<Rightarrow> rename_dialog" where
  "rename_submit s =
     (case rename_schema (rn_field s) of
        Inl message \<Rightarrow> s\<lparr>rn_nameError := Some message, rn_rootError := None\<rparr>
      | Inr name \<Rightarrow>
          let nextName = js_trim name
          in if nextName = rn_currentName s then s\<lparr>rn_nameError := None, rn_rootError := None, rn_open := False\<rparr>
             else s\<lparr>rn_nameError := None, rn_rootError := None, rn_pending := True,
                    rn_requests := rn_requests s @ [UseRenameFile (rn_fileId s) nextName]\<rparr>)"

text \<open>
  The Rename button needs a changed name and no request in flight; the cancel button closes at any
  time, the frame of the dialog only without a request in flight.
\<close>

fun rename_step :: "rename_dialog \<Rightarrow> rename_action \<Rightarrow> rename_dialog option" where
  "rename_step s (RenameOpen file name) =
     (if rn_open s then None
      else Some (s\<lparr>rn_fileId := file, rn_currentName := name, rn_open := True, rn_field := name,
                   rn_nameError := None, rn_rootError := None\<rparr>))"
| "rename_step s (RenameType text) = (if rn_open s then Some (s\<lparr>rn_field := text\<rparr>) else None)"
| "rename_step s RenameSubmit =
     (if rn_open s \<and> \<not> rn_pending s \<and> rn_field s \<noteq> rn_currentName s then Some (rename_submit s) else None)"
| "rename_step s (RenameSettled outcome) =
     (if rn_pending s
      then Some (case outcome of
                   None \<Rightarrow> s\<lparr>rn_pending := False, rn_open := False\<rparr>
                 | Some e \<Rightarrow> s\<lparr>rn_pending := False, rn_rootError := Some (error_message ''Unable to rename file'' e)\<rparr>)
      else None)"
| "rename_step s RenameCancel = (if rn_open s then Some (s\<lparr>rn_open := False\<rparr>) else None)"
| "rename_step s RenameDismiss = (if rn_open s then Some (if rn_pending s then s else s\<lparr>rn_open := False\<rparr>) else None)"

definition rename_start :: rename_dialog where
  "rename_start =
     \<lparr>rn_fileId = [], rn_currentName = [], rn_open = False, rn_field = [], rn_nameError = None, rn_rootError = None,
      rn_pending = False, rn_requests = []\<rparr>"

section \<open>Creating a folder\<close>

definition create_folder_schema :: "string \<Rightarrow> string + string" where
  "create_folder_schema typed =
     (let v = js_trim typed
      in if length v < 1 then Inl ''Folder name is required''
         else if 100 < length v then Inl ''Folder name must be 100 characters or less''
         else Inr v)"

text \<open>The submit of the web dialog: the mutation, and whether the dialog closes or shows a message.\<close>

definition create_folder_submit ::
  "js_error option \<Rightarrow> string \<Rightarrow> file_mutation option \<times> bool \<times> string option" where
  "create_folder_submit outcome typed =
     (case create_folder_schema typed of
        Inl message \<Rightarrow> (None, False, Some message)
      | Inr name \<Rightarrow>
          (Some (UseCreateFolder name (Some [])),
           case outcome of
             None \<Rightarrow> (True, None)
           | Some e \<Rightarrow> (False, Some (error_message ''Unable to create folder'' e))))"

section \<open>The create sheet of the mobile app\<close>

datatype sheet_mode = MenuMode | FolderMode

text \<open>
  \<open>sh_mutation\<close> is what the sheet observes of its mutation, \<open>sh_inflight\<close> the requests on their way. \<open>reset()\<close> lets go of
  the request, which still runs and still ends in the mutation's \<open>onSuccess\<close>.
\<close>

datatype sheet_mutation = MutationIdle | MutationPending nat | MutationError string

record create_sheet =
  sh_open :: bool
  sh_mode :: sheet_mode
  sh_creating :: bool
  sh_name :: string
  sh_notice :: "string option"
  sh_mutation :: sheet_mutation
  sh_inflight :: "(nat \<times> string) list"
  sh_next :: nat

definition sheet_start :: create_sheet where
  "sheet_start =
     \<lparr>sh_open = False, sh_mode = MenuMode, sh_creating = False, sh_name = [], sh_notice = None,
      sh_mutation = MutationIdle, sh_inflight = [], sh_next = 0\<rparr>"

definition close_sheet :: "create_sheet \<Rightarrow> create_sheet" where
  "close_sheet s =
     s\<lparr>sh_open := False, sh_creating := False, sh_name := [], sh_notice := None, sh_mutation := MutationIdle\<rparr>"

definition is_pending :: "sheet_mutation \<Rightarrow> bool" where
  "is_pending m = (case m of MutationPending _ \<Rightarrow> True | _ \<Rightarrow> False)"

definition submit_folder :: "create_sheet \<Rightarrow> create_sheet" where
  "submit_folder s =
     (let name = js_trim (sh_name s)
      in if name = [] \<or> is_pending (sh_mutation s) then s
         else s\<lparr>sh_mutation := MutationPending (sh_next s), sh_inflight := sh_inflight s @ [(sh_next s, name)],
                sh_next := Suc (sh_next s)\<rparr>)"

definition folder_pane :: "create_sheet \<Rightarrow> bool" where
  "folder_pane s \<longleftrightarrow> sh_creating s \<or> sh_mode s = FolderMode"

datatype sheet_action =
    OpenSheet "sheet_mode option" | DismissSheet | TapCreateFolder | TapNote string | NoticeTimeout
  | TypeFolder string | SubmitFolder | CancelFolder | FolderSettled nat "js_error option"

text \<open>The create mutation: the root folder is resolved first, and a missing one is an error.\<close>

definition create_folder_mutation ::
  "(js_error + string option) \<Rightarrow> (string \<Rightarrow> string \<Rightarrow> js_error option) \<Rightarrow> string \<Rightarrow>
   (string \<times> string) option \<times> js_error option" where
  "create_folder_mutation rootFolder send name =
     (case rootFolder of
        Inl e \<Rightarrow> (None, Some e)
      | Inr None \<Rightarrow> (None, Some (JsError ''Could not resolve your root folder.''))
      | Inr (Some rootId) \<Rightarrow>
          if rootId = [] then (None, Some (JsError ''Could not resolve your root folder.''))
          else (Some (rootId, js_trim name), send rootId (js_trim name)))"

fun sheet_step :: "create_sheet \<Rightarrow> sheet_action \<Rightarrow> create_sheet option" where
  "sheet_step s (OpenSheet mode) =
     Some (s\<lparr>sh_open := True, sh_mode := (case mode of Some m \<Rightarrow> m | None \<Rightarrow> MenuMode)\<rparr>)"
| "sheet_step s DismissSheet = (if sh_open s then Some (close_sheet s) else None)"
| "sheet_step s TapCreateFolder =
     (if sh_open s \<and> \<not> folder_pane s then Some (s\<lparr>sh_creating := True\<rparr>) else None)"
| "sheet_step s (TapNote note) =
     (if sh_open s \<and> \<not> folder_pane s then Some (s\<lparr>sh_notice := Some note\<rparr>) else None)"
| "sheet_step s NoticeTimeout = Some (s\<lparr>sh_notice := None\<rparr>)"
| "sheet_step s (TypeFolder text) =
     (if sh_open s \<and> folder_pane s \<and> length text \<le> 255 then Some (s\<lparr>sh_name := text\<rparr>) else None)"
| "sheet_step s SubmitFolder = (if sh_open s \<and> folder_pane s then Some (submit_folder s) else None)"
| "sheet_step s CancelFolder =
     (if sh_open s \<and> folder_pane s
      then let s' = s\<lparr>sh_name := [], sh_mutation := MutationIdle\<rparr>
           in Some (if sh_mode s = FolderMode then close_sheet s' else s'\<lparr>sh_creating := False\<rparr>)
      else None)"
| "sheet_step s (FolderSettled i outcome) =
     (if i \<in> fst ` set (sh_inflight s)
      then let s' = s\<lparr>sh_inflight := filter (\<lambda>e. fst e \<noteq> i) (sh_inflight s)\<rparr>
           in Some (case outcome of
                      None \<Rightarrow> close_sheet s'
                    | Some e \<Rightarrow>
                        if sh_mutation s = MutationPending i
                        then s'\<lparr>sh_mutation := MutationError (error_message ''Could not create the folder.'' e)\<rparr>
                        else s')
      else None)"

section \<open>Initials\<close>

text \<open>\<open>s.split(/\s+/)\<close> of a trimmed text: its runs without white space, one empty piece for the empty text.\<close>

fun words_of :: "string \<Rightarrow> string list" where
  "words_of [] = [[]]"
| "words_of (c # s) =
     (if is_ws c then (case s of d # _ \<Rightarrow> if is_ws d then words_of s else [] # words_of s | [] \<Rightarrow> [[], []])
      else (case words_of s of w # ws \<Rightarrow> (c # w) # ws | [] \<Rightarrow> [[c]]))"

definition get_initials :: "string option \<Rightarrow> string" where
  "get_initials name =
     (case name of
        None \<Rightarrow> ''AS''
      | Some n \<Rightarrow>
          if n = [] then ''AS''
          else let initials = concat (map (\<lambda>part. case part of c # _ \<Rightarrow> [upper_char c] | [] \<Rightarrow> [])
                                        (take 2 (words_of (js_trim n))))
               in if initials = [] then ''AS'' else initials)"

section \<open>Lemmas\<close>

lemma inner_dot:
  "list_ex (\<lambda>i. d ! i = CHR ''.'') [1..<length d - 1] \<longleftrightarrow> (\<exists>a t. d = a @ CHR ''.'' # t \<and> a \<noteq> [] \<and> t \<noteq> [])"
proof
  assume "list_ex (\<lambda>i. d ! i = CHR ''.'') [1..<length d - 1]"
  then obtain i where i: "1 \<le> i" "i < length d - 1" "d ! i = CHR ''.''" by (auto simp: list_ex_iff)
  then have "d = take i d @ d ! i # drop (Suc i) d" by (intro id_take_nth_drop) simp
  with i show "\<exists>a t. d = a @ CHR ''.'' # t \<and> a \<noteq> [] \<and> t \<noteq> []"
    by (intro exI [of _ "take i d"] exI [of _ "drop (Suc i) d"]) auto
next
  assume "\<exists>a t. d = a @ CHR ''.'' # t \<and> a \<noteq> [] \<and> t \<noteq> []"
  then obtain a t where d: "d = a @ CHR ''.'' # t" "a \<noteq> []" "t \<noteq> []" by blast
  then have "length a \<in> set [1..<length d - 1]" by (auto simp: Suc_le_eq)
  moreover have "d ! length a = CHR ''.''" by (simp add: d)
  ultimately show "list_ex (\<lambda>i. d ! i = CHR ''.'') [1..<length d - 1]" unfolding list_ex_iff by blast
qed

lemma case_two: "(case xs of [l, d] \<Rightarrow> P l d | _ \<Rightarrow> False) \<longleftrightarrow> (\<exists>l d. xs = [l, d] \<and> P l d)"
  by (auto split: list.splits)

definition email_char :: "char \<Rightarrow> bool" where
  "email_char c \<longleftrightarrow> \<not> is_ws c \<and> c \<noteq> CHR ''@''"

lemma email_pattern_iff:
  "email_pattern s \<longleftrightarrow> (\<exists>l a t. s = l @ CHR ''@'' # a @ CHR ''.'' # t \<and> l \<noteq> [] \<and> a \<noteq> [] \<and> t \<noteq> [] \<and>
     list_all email_char (l @ a @ t))"
proof -
  have ws: "\<not> is_ws (CHR ''@'')" "\<not> is_ws (CHR ''.'')" by (simp_all add: is_ws_def)
  have "email_pattern s \<longleftrightarrow> list_all (\<lambda>c. \<not> is_ws c) s \<and>
      (\<exists>l d. split_char (CHR ''@'') s = [l, d] \<and> l \<noteq> [] \<and> (\<exists>a t. d = a @ CHR ''.'' # t \<and> a \<noteq> [] \<and> t \<noteq> []))"
    unfolding email_pattern_def case_two inner_dot ..
  also have "\<dots> \<longleftrightarrow> (\<exists>l a t. s = l @ CHR ''@'' # a @ CHR ''.'' # t \<and> l \<noteq> [] \<and> a \<noteq> [] \<and> t \<noteq> [] \<and>
     list_all email_char (l @ a @ t))"
    (is "?A \<longleftrightarrow> ?B")
  proof
    assume ?A
    then obtain l d a t where s: "s = l @ CHR ''@'' # d" "CHR ''@'' \<notin> set l" "CHR ''@'' \<notin> set d"
      and d: "d = a @ CHR ''.'' # t" "l \<noteq> []" "a \<noteq> []" "t \<noteq> []" and "list_all (\<lambda>c. \<not> is_ws c) s"
      unfolding split_char_two by blast
    then have "list_all email_char (l @ a @ t)" unfolding list_all_iff email_char_def by auto
    with s d show ?B by blast
  next
    assume ?B
    then obtain l a t where s: "s = l @ CHR ''@'' # a @ CHR ''.'' # t" "l \<noteq> []" "a \<noteq> []" "t \<noteq> []"
      and all: "list_all email_char (l @ a @ t)" by blast
    have "list_all (\<lambda>c. \<not> is_ws c) s" using all ws unfolding s(1) list_all_iff email_char_def by auto
    moreover have "split_char (CHR ''@'') s = [l, a @ CHR ''.'' # t]"
      unfolding split_char_two using all s(1) unfolding list_all_iff email_char_def by auto
    ultimately show ?A using s(2-4) by blast
  qed
  finally show ?thesis .
qed

definition valid_name :: "string \<Rightarrow> bool" where
  "valid_name n \<longleftrightarrow>
     n \<noteq> [] \<and> length n \<le> 100 \<and> js_trim n = n \<and> CHR ''/'' \<notin> set n \<and> CHR 0x5C \<notin> set n \<and> n \<noteq> ''.'' \<and> n \<noteq> ''..''"

lemma rename_schema_valid: "rename_schema typed = Inr n \<longleftrightarrow> n = js_trim typed \<and> valid_name n"
  by (auto simp: rename_schema_def valid_name_def Let_def)

definition rename_ok :: "rename_dialog \<Rightarrow> bool" where
  "rename_ok s \<longleftrightarrow> list_all (\<lambda>q. \<exists>file n. q = UseRenameFile file n \<and> valid_name n) (rn_requests s)"

lemma rename_submit_ok: "rename_ok s \<Longrightarrow> rename_ok (rename_submit s)"
  using rename_schema_valid [of "rn_field s"]
  by (auto simp: rename_ok_def rename_submit_def Let_def valid_name_def split: sum.splits)

interpretation renaming: machine rename_step rename_start rename_ok
proof
  fix s a s' assume "rename_ok s" "rename_step s a = Some s'"
  then show "rename_ok s'"
    using rename_submit_ok [of s] by (cases a) (auto simp: rename_ok_def split: if_splits option.splits)
qed (simp add: rename_ok_def rename_start_def)

definition sheet_ok :: "create_sheet \<Rightarrow> bool" where
  "sheet_ok s \<longleftrightarrow>
     (sh_open s \<or> \<not> sh_creating s \<and> sh_name s = [] \<and> sh_notice s = None \<and> sh_mutation s = MutationIdle) \<and>
     length (sh_name s) \<le> 255 \<and> list_all (\<lambda>e. js_trim (snd e) = snd e \<and> snd e \<noteq> []) (sh_inflight s)"

lemma close_sheet_ok: "sheet_ok s \<Longrightarrow> sheet_ok (close_sheet s)"
  by (simp add: sheet_ok_def close_sheet_def)

lemma submit_folder_ok: "sheet_ok s \<Longrightarrow> sh_open s \<Longrightarrow> sheet_ok (submit_folder s)"
  by (auto simp: sheet_ok_def submit_folder_def Let_def)

interpretation creating: machine sheet_step sheet_start sheet_ok
proof
  fix s a s' assume s: "sheet_ok s" "sheet_step s a = Some s'"
  show "sheet_ok s'"
  proof (cases a)
    case SubmitFolder
    then show ?thesis using s submit_folder_ok [of s] by (auto split: if_splits)
  next
    case CancelFolder
    then show ?thesis using s by (auto simp: sheet_ok_def close_sheet_def Let_def split: if_splits)
  next
    case (FolderSettled i outcome)
    then show ?thesis using s
      by (auto simp: sheet_ok_def close_sheet_def Let_def list_all_iff split: if_splits option.splits)
  qed (use s in \<open>auto simp: sheet_ok_def close_sheet_def split: if_splits\<close>)
qed (simp add: sheet_ok_def sheet_start_def)

section \<open>Properties\<close>

text \<open>
  The mobile app accepts an email address exactly when, without the white space around it, it is three
  non-empty parts joined by an at sign and a dot, with no other at sign and no white space.
\<close>
theorem validate_email_equiv:
  "validate_email email = None \<longleftrightarrow>
     (\<exists>l a t. js_trim email = l @ CHR ''@'' # a @ CHR ''.'' # t \<and> l \<noteq> [] \<and> a \<noteq> [] \<and> t \<noteq> [] \<and>
        list_all email_char (l @ a @ t))"
  unfolding validate_email_def Let_def email_pattern_iff by auto

text \<open>
  A mobile sign-in or sign-up is requested exactly when every field validates, for the trimmed
  address and name and the password as typed; otherwise the form shows the message of every field.
\<close>
theorem auth_forms_submit:
  "(let (f', request) = login_submit f
    in lf_emailError f' = validate_email (lf_email f) \<and> lf_passwordError f' = validate_password (lf_password f) \<and>
       request = (if lf_emailError f' = None \<and> lf_passwordError f' = None
                  then Some (LoginRequest (js_trim (lf_email f)) (lf_password f)) else None)) \<and>
   (let (g', request) = register_submit g; v = rf_value g
    in rf_error g' NameField = validate_name (v NameField) \<and> rf_error g' EmailField = validate_email (v EmailField) \<and>
       rf_error g' PasswordField = validate_password (v PasswordField) \<and>
       request = (if rf_error g' NameField = None \<and> rf_error g' EmailField = None \<and> rf_error g' PasswordField = None
                  then Some (RegisterRequest (js_trim (v NameField)) (js_trim (v EmailField)) (v PasswordField)) else None))"
  by (auto simp: login_submit_def register_submit_def use_login_def use_register_def Let_def)

text \<open>
  Every rename the dialog asks for has a name the metadata service accepts by its rules: not empty, at
  most 100 characters, no separators, no white space around it, no reserved name; and it is sent as it is.
\<close>
theorem rename_requests_valid:
  assumes "exec rename_step rename_start as = Some s" and "q \<in> set (rn_requests s)"
  shows "\<exists>file n. q = UseRenameFile file n \<and> valid_name n \<and> mutation_rpc q = RenameFile file n"
  using renaming.inv_exec [OF assms(1)] assms(2)
  by (auto simp: rename_ok_def list_all_iff valid_name_def)

theorem rename_requests_valid_witness:
  "\<exists>s. exec rename_step rename_start [RenameOpen ''f'' ''a.txt'', RenameType '' b.txt'', RenameSubmit] = Some s \<and>
     rn_requests s = [UseRenameFile ''f'' ''b.txt''] \<and> valid_name ''b.txt''"
proof -
  let ?as = "[RenameOpen ''f'' ''a.txt'', RenameType '' b.txt'', RenameSubmit]"
  define s where "s = the (exec rename_step rename_start ?as)"
  have run: "exec rename_step rename_start ?as = Some s" and q: "rn_requests s = [UseRenameFile ''f'' ''b.txt'']"
    by (simp_all add: s_def rename_start_def rename_submit_def rename_schema_def js_trim_def is_ws_def Let_def)
  have "UseRenameFile ''f'' ''b.txt'' \<in> set (rn_requests s)" by (simp add: q)
  from rename_requests_valid [OF run this] have "valid_name ''b.txt''" by auto
  with run q show ?thesis by blast
qed

text \<open>
  The frame of the rename dialog refuses to close over a request in flight, the cancel button does not:
  the request then settles over the dialog of the file chosen next, and closes that one.
\<close>
theorem cancelled_rename_closes_next:
  "\<exists>as s t. exec rename_step rename_start as = Some s \<and> rn_open s \<and> rn_fileId s = ''g'' \<and>
     rn_requests s = [UseRenameFile ''f'' ''b''] \<and> rename_step s RenameDismiss = Some s \<and>
     rename_step s (RenameSettled None) = Some t \<and> \<not> rn_open t"
proof -
  let ?as = "[RenameOpen ''f'' ''a'', RenameType ''b'', RenameSubmit, RenameCancel, RenameOpen ''g'' ''c'']"
  define s where "s = the (exec rename_step rename_start ?as)"
  define t where "t = the (rename_step s (RenameSettled None))"
  note eval = rename_start_def rename_submit_def rename_schema_def js_trim_def is_ws_def Let_def
  have "exec rename_step rename_start ?as = Some s" "rn_open s" "rn_fileId s = ''g''" "rn_pending s"
    "rn_requests s = [UseRenameFile ''f'' ''b'']"
    by (simp_all add: s_def eval)
  then have "rename_step s RenameDismiss = Some s" "rename_step s (RenameSettled None) = Some t" "\<not> rn_open t"
    by (simp_all add: t_def)
  with \<open>exec rename_step rename_start ?as = Some s\<close> \<open>rn_open s\<close> \<open>rn_fileId s = ''g''\<close>
    \<open>rn_requests s = [UseRenameFile ''f'' ''b'']\<close>
  show ?thesis by (intro exI [of _ ?as] exI [of _ s] exI [of _ t] conjI)
qed

text \<open>A closed create sheet remembers no name, no pane, no note and no error for its next visit.\<close>
theorem create_sheet_forgets:
  assumes "exec sheet_step sheet_start as = Some s" and "\<not> sh_open s" and "sheet_step s (OpenSheet mode) = Some t"
  shows "sh_name t = [] \<and> \<not> sh_creating t \<and> sh_notice t = None \<and> sh_mutation t = MutationIdle \<and>
    folder_pane t = (mode = Some FolderMode)"
  using creating.inv_exec [OF assms(1)] assms(2, 3)
  by (auto simp: sheet_ok_def folder_pane_def split: option.splits)

theorem create_sheet_forgets_witness:
  "\<exists>s t. exec sheet_step sheet_start [OpenSheet None, TapNote ''n'', TapCreateFolder, TypeFolder ''x'', DismissSheet] = Some s \<and>
     sheet_step s (OpenSheet None) = Some t \<and> sh_name t = []"
proof -
  let ?as = "[OpenSheet None, TapNote ''n'', TapCreateFolder, TypeFolder ''x'', DismissSheet]"
  define s where "s = the (exec sheet_step sheet_start ?as)"
  define t where "t = the (sheet_step s (OpenSheet None))"
  have run: "exec sheet_step sheet_start ?as = Some s" and "\<not> sh_open s"
    by (simp_all add: s_def sheet_start_def folder_pane_def close_sheet_def)
  moreover have "sheet_step s (OpenSheet None) = Some t" by (simp add: t_def)
  ultimately have "sh_name t = []" using create_sheet_forgets [OF run] by blast
  with run \<open>sheet_step s (OpenSheet None) = Some t\<close> show ?thesis by blast
qed

text \<open>
  A creation still on its way when the sheet is dismissed closes whatever visit its success finds: the
  reopened sheet shuts under the user and the name typed there is dropped.
\<close>
theorem late_create_closes_sheet:
  "\<exists>as s t. exec sheet_step sheet_start as = Some s \<and> sh_open s \<and> sh_name s = ''b'' \<and>
     sheet_step s (FolderSettled 0 None) = Some t \<and> \<not> sh_open t \<and> sh_name t = []"
proof -
  let ?as = "[OpenSheet (Some FolderMode), TypeFolder ''a'', SubmitFolder, DismissSheet, OpenSheet (Some FolderMode),
              TypeFolder ''b'']"
  define s where "s = the (exec sheet_step sheet_start ?as)"
  define t where "t = the (sheet_step s (FolderSettled 0 None))"
  have "exec sheet_step sheet_start ?as = Some s" "sh_open s" "sh_name s = ''b''" "sh_inflight s = [(0, ''a'')]"
    by (simp_all add: s_def sheet_start_def folder_pane_def close_sheet_def submit_folder_def is_pending_def js_trim_def is_ws_def Let_def)
  moreover from this have "sheet_step s (FolderSettled 0 None) = Some t" "\<not> sh_open t" "sh_name t = []"
    by (simp_all add: t_def close_sheet_def Let_def)
  ultimately show ?thesis by (intro exI [of _ ?as] exI [of _ s] exI [of _ t] conjI)
qed

end
