(* ===== verification/Color.thy ===== *)
theory Color
  imports Prelude
begin

text \<open>
  The conversions of the colour picker, web/src/lib/color-picker-utils.ts: RGB, HSV and HSL, and OKLCH
  with its mapping into the sRGB gamut and the plane of the picker.

  Numbers are exact rationals. The functions of \<open>Math\<close> that are only approximated by an
  implementation (powers, roots, trigonometry, \<open>Math.PI\<close>) are an argument, \<open>js_math\<close>. A division by zero is 0 here;
  the code guards its divisions except two in the cusp of a hue.
\<close>

section \<open>Colours\<close>

record rgb_color =
  rgb_r :: rat
  rgb_g :: rat
  rgb_b :: rat

record hsl_color =
  hsl_h :: rat
  hsl_s :: rat
  hsl_l :: rat

record hsv_color =
  hsv_h :: rat
  hsv_s :: rat
  hsv_v :: rat

record oklch_color =
  lch_l :: rat
  lch_c :: rat
  lch_h :: rat

record oklab_color =
  lab_l :: rat
  lab_a :: rat
  lab_b :: rat

definition js_clamp :: "rat \<Rightarrow> rat \<Rightarrow> rat \<Rightarrow> rat" where
  "js_clamp v lo hi = min hi (max lo v)"

text \<open>The remainder operator: the quotient is cut towards zero.\<close>

definition js_rem :: "rat \<Rightarrow> rat \<Rightarrow> rat" where
  "js_rem a b = (let q = a / b in a - b * of_int (if 0 \<le> q then \<lfloor>q\<rfloor> else \<lceil>q\<rceil>))"

definition normalize_hue :: "rat \<Rightarrow> rat" where
  "normalize_hue v = js_rem (js_rem v 360 + 360) 360"

section \<open>RGB, HSV and HSL\<close>

definition hsv_pick :: "int \<Rightarrow> rat \<Rightarrow> rat \<Rightarrow> rat \<Rightarrow> rat \<Rightarrow> rat \<times> rat \<times> rat" where
  "hsv_pick sector val p q t =
     (if sector = 0 then (val, t, p)
      else if sector = 1 then (q, val, p)
      else if sector = 2 then (p, val, t)
      else if sector = 3 then (p, q, val)
      else if sector = 4 then (t, p, val)
      else (val, p, q))"

definition hsv_to_rgb :: "hsv_color \<Rightarrow> rgb_color" where
  "hsv_to_rgb c =
     (let hue = normalize_hue (hsv_h c) / 60;
          sat = js_clamp (hsv_s c) 0 100 / 100;
          val = js_clamp (hsv_v c) 0 100 / 100;
          sector = \<lfloor>hue\<rfloor> mod 6;
          f = hue - of_int \<lfloor>hue\<rfloor>;
          p = val * (1 - sat);
          q = val * (1 - f * sat);
          t = val * (1 - (1 - f) * sat);
          (x, y, z) = hsv_pick sector val p q t
      in \<lparr>rgb_r = x * 255, rgb_g = y * 255, rgb_b = z * 255\<rparr>)"

definition rgb_to_hsv :: "rgb_color \<Rightarrow> rat \<Rightarrow> hsv_color" where
  "rgb_to_hsv c fallbackHue =
     (let r = js_clamp (rgb_r c) 0 255 / 255;
          g = js_clamp (rgb_g c) 0 255 / 255;
          b = js_clamp (rgb_b c) 0 255 / 255;
          hi = max r (max g b);
          lo = min r (min g b);
          delta = hi - lo;
          v = hi * 100;
          s = (if hi = 0 then 0 else (delta / hi) * 100)
      in if delta = 0 then \<lparr>hsv_h = normalize_hue fallbackHue, hsv_s = s, hsv_v = v\<rparr>
         else let h = (if hi = r then (g - b) / delta + (if g < b then 6 else 0)
                       else if hi = g then (b - r) / delta + 2
                       else (r - g) / delta + 4)
              in \<lparr>hsv_h = normalize_hue (h * 60), hsv_s = s, hsv_v = v\<rparr>)"

definition hsv_to_hsl :: "hsv_color \<Rightarrow> hsl_color" where
  "hsv_to_hsl c =
     (let sat = js_clamp (hsv_s c) 0 100 / 100;
          val = js_clamp (hsv_v c) 0 100 / 100;
          l = val * (1 - sat / 2);
          hslSat = (if l = 0 \<or> l = 1 then 0 else (val - l) / min l (1 - l))
      in \<lparr>hsl_h = normalize_hue (hsv_h c), hsl_s = js_clamp (hslSat * 100) 0 100, hsl_l = js_clamp (l * 100) 0 100\<rparr>)"

definition hsl_to_hsv :: "hsl_color \<Rightarrow> hsv_color" where
  "hsl_to_hsv c =
     (let sat = js_clamp (hsl_s c) 0 100 / 100;
          light = js_clamp (hsl_l c) 0 100 / 100;
          v = light + sat * min light (1 - light);
          hsvSat = (if v = 0 then 0 else 2 * (1 - light / v))
      in \<lparr>hsv_h = normalize_hue (hsl_h c), hsv_s = js_clamp (hsvSat * 100) 0 100, hsv_v = js_clamp (v * 100) 0 100\<rparr>)"

definition hsl_to_rgb :: "hsl_color \<Rightarrow> rgb_color" where
  "hsl_to_rgb c = hsv_to_rgb (hsl_to_hsv c)"

section \<open>OKLCH\<close>

record js_math =
  m_pow :: "rat \<Rightarrow> rat \<Rightarrow> rat"
  m_cbrt :: "rat \<Rightarrow> rat"
  m_sqrt :: "rat \<Rightarrow> rat"
  m_cos :: "rat \<Rightarrow> rat"
  m_sin :: "rat \<Rightarrow> rat"
  m_atan2 :: "rat \<Rightarrow> rat \<Rightarrow> rat"
  m_pi :: rat

definition srgb_to_linear :: "js_math \<Rightarrow> rat \<Rightarrow> rat" where
  "srgb_to_linear m channel =
     (let c = channel / 255 in if c \<le> 0.04045 then c / 12.92 else m_pow m ((c + 0.055) / 1.055) 2.4)"

definition linear_to_srgb :: "js_math \<Rightarrow> rat \<Rightarrow> rat" where
  "linear_to_srgb m channel =
     (let c = (if channel \<le> 0.0031308 then channel * 12.92 else 1.055 * m_pow m channel (1 / 2.4) - 0.055)
      in c * 255)"

definition rgb_to_oklab :: "js_math \<Rightarrow> rgb_color \<Rightarrow> oklab_color" where
  "rgb_to_oklab mth c =
     (let r = srgb_to_linear mth (js_clamp (rgb_r c) 0 255);
          g = srgb_to_linear mth (js_clamp (rgb_g c) 0 255);
          b = srgb_to_linear mth (js_clamp (rgb_b c) 0 255);
          l = m_cbrt mth (0.4122214708 * r + 0.5363325363 * g + 0.0514459929 * b);
          m = m_cbrt mth (0.2119034982 * r + 0.6806995451 * g + 0.1073969566 * b);
          s = m_cbrt mth (0.0883024619 * r + 0.2817188376 * g + 0.6299787005 * b)
      in \<lparr>lab_l = 0.2104542553 * l + 0.793617785 * m - 0.0040720468 * s,
          lab_a = 1.9779984951 * l - 2.428592205 * m + 0.4505937099 * s,
          lab_b = 0.0259040371 * l + 0.7827717662 * m - 0.808675766 * s\<rparr>)"

definition hue_rad :: "js_math \<Rightarrow> rat \<Rightarrow> rat" where
  "hue_rad m h = normalize_hue h * m_pi m / 180"

definition oklch_to_oklab :: "js_math \<Rightarrow> oklch_color \<Rightarrow> oklab_color" where
  "oklch_to_oklab m c =
     \<lparr>lab_l = lch_l c, lab_a = lch_c c * m_cos m (hue_rad m (lch_h c)), lab_b = lch_c c * m_sin m (hue_rad m (lch_h c))\<rparr>"

definition rgb_to_oklch :: "js_math \<Rightarrow> rgb_color \<Rightarrow> rat \<Rightarrow> oklch_color" where
  "rgb_to_oklch m rgb fallbackHue =
     (let lab = rgb_to_oklab m rgb;
          c = m_sqrt m (lab_a lab * lab_a lab + lab_b lab * lab_b lab)
      in if c < 1 / 10 ^ 6 then \<lparr>lch_l = js_clamp (lab_l lab) 0 1, lch_c = 0, lch_h = normalize_hue fallbackHue\<rparr>
         else \<lparr>lch_l = js_clamp (lab_l lab) 0 1, lch_c = c,
               lch_h = normalize_hue (m_atan2 m (lab_b lab) (lab_a lab) * 180 / m_pi m)\<rparr>)"

definition oklab_to_linear_srgb :: "oklab_color \<Rightarrow> rgb_color" where
  "oklab_to_linear_srgb c =
     (let lp = lab_l c + 0.3963377774 * lab_a c + 0.2158037573 * lab_b c;
          mp = lab_l c - 0.1055613458 * lab_a c - 0.0638541728 * lab_b c;
          sp = lab_l c - 0.0894841775 * lab_a c - 1.291485548 * lab_b c;
          lc = lp * lp * lp; mc = mp * mp * mp; sc = sp * sp * sp
      in \<lparr>rgb_r = 4.0767416621 * lc - 3.3077115913 * mc + 0.2309699292 * sc,
          rgb_g = - 1.2684380046 * lc + 2.6097574011 * mc - 0.3413193965 * sc,
          rgb_b = - 0.0041960863 * lc - 0.7034186147 * mc + 1.707614701 * sc\<rparr>)"

definition oklab_to_rgb_raw :: "js_math \<Rightarrow> oklab_color \<Rightarrow> rgb_color" where
  "oklab_to_rgb_raw m lab =
     (let linear = oklab_to_linear_srgb lab
      in \<lparr>rgb_r = linear_to_srgb m (rgb_r linear), rgb_g = linear_to_srgb m (rgb_g linear),
          rgb_b = linear_to_srgb m (rgb_b linear)\<rparr>)"

definition oklch_to_rgb_raw :: "js_math \<Rightarrow> oklch_color \<Rightarrow> rgb_color" where
  "oklch_to_rgb_raw m c = oklab_to_rgb_raw m (oklch_to_oklab m c)"

definition is_in_srgb_gamut :: "rgb_color \<Rightarrow> bool" where
  "is_in_srgb_gamut c \<longleftrightarrow>
     (let eps = 0.001 in
      - eps \<le> rgb_r c \<and> rgb_r c \<le> 255 + eps \<and> - eps \<le> rgb_g c \<and> rgb_g c \<le> 255 + eps \<and>
      - eps \<le> rgb_b c \<and> rgb_b c \<le> 255 + eps)"

definition clamp_rgb :: "rgb_color \<Rightarrow> rgb_color" where
  "clamp_rgb c = \<lparr>rgb_r = js_clamp (rgb_r c) 0 255, rgb_g = js_clamp (rgb_g c) 0 255, rgb_b = js_clamp (rgb_b c) 0 255\<rparr>"

definition delta_e_ok :: "js_math \<Rightarrow> oklab_color \<Rightarrow> oklab_color \<Rightarrow> rat" where
  "delta_e_ok m x y =
     (let dl = lab_l x - lab_l y; da = lab_a x - lab_a y; db = lab_b x - lab_b y
      in m_sqrt m (dl * dl + da * da + db * db))"

definition gamut_jnd :: rat where "gamut_jnd = 0.02"
definition gamut_epsilon :: rat where "gamut_epsilon = 0.0001"

text \<open>The bisection of the chroma; it halves an interval that has to stay wider than a constant.\<close>

function gamut_search ::
  "js_math \<Rightarrow> oklch_color \<Rightarrow> rat \<Rightarrow> rat \<Rightarrow> bool \<Rightarrow> rgb_color \<Rightarrow> rgb_color" where
  "gamut_search m target lo hi minInGamut clipped =
     (if gamut_epsilon < hi - lo
      then let chroma = (lo + hi) / 2;
               candidate = target\<lparr>lch_c := chroma\<rparr>;
               candidateRaw = oklch_to_rgb_raw m candidate
           in if minInGamut \<and> is_in_srgb_gamut candidateRaw
              then gamut_search m target chroma hi minInGamut clipped
              else let clipped' = clamp_rgb candidateRaw;
                       distance = delta_e_ok m (rgb_to_oklab m clipped') (oklch_to_oklab m candidate)
                   in if distance < gamut_jnd
                      then if gamut_jnd - distance < gamut_epsilon then clipped'
                           else gamut_search m target chroma hi False clipped'
                      else gamut_search m target lo chroma minInGamut clipped'
      else clipped)"
  by pat_completeness auto

lemma halved_ceiling:
  fixes w :: rat
  assumes "1 < w"
  shows "nat \<lceil>w / 2\<rceil> < nat \<lceil>w\<rceil>"
proof -
  have pos: "1 < \<lceil>w\<rceil>" using assms by (simp only: less_ceiling_iff of_int_1)
  have "\<lceil>w / 2\<rceil> < \<lceil>w\<rceil>"
  proof (cases "w \<le> 2")
    case True
    then have "\<lceil>w / 2\<rceil> \<le> 1" by (simp add: ceiling_le_iff)
    then show ?thesis using pos by linarith
  next
    case False
    then have "\<lceil>w / 2\<rceil> \<le> \<lceil>w - 1\<rceil>" by (intro ceiling_mono) simp
    then show ?thesis by simp
  qed
  then show ?thesis using pos by linarith
qed

lemma halved_interval:
  assumes wide: "gamut_epsilon < hi - lo" and mid: "c = (lo + hi) / 2"
  shows "nat \<lceil>(hi - c) / gamut_epsilon\<rceil> < nat \<lceil>(hi - lo) / gamut_epsilon\<rceil>"
    and "nat \<lceil>(c - lo) / gamut_epsilon\<rceil> < nat \<lceil>(hi - lo) / gamut_epsilon\<rceil>"
proof -
  have w: "1 < (hi - lo) / gamut_epsilon" using wide by (simp add: gamut_epsilon_def)
  have half: "(hi - c) / gamut_epsilon = (hi - lo) / gamut_epsilon / 2"
      "(c - lo) / gamut_epsilon = (hi - lo) / gamut_epsilon / 2"
    by (simp_all add: mid field_simps)
  show "nat \<lceil>(hi - c) / gamut_epsilon\<rceil> < nat \<lceil>(hi - lo) / gamut_epsilon\<rceil>"
    and "nat \<lceil>(c - lo) / gamut_epsilon\<rceil> < nat \<lceil>(hi - lo) / gamut_epsilon\<rceil>"
    unfolding half by (rule halved_ceiling [OF w])+
qed

termination gamut_search
  by (relation "measure (\<lambda>(m, target, lo, hi, minInGamut, clipped). nat \<lceil>(hi - lo) / gamut_epsilon\<rceil>)")
    (simp_all only: wf_measure in_measure split halved_interval)

definition oklch_to_rgb :: "js_math \<Rightarrow> oklch_color \<Rightarrow> rgb_color" where
  "oklch_to_rgb m oklch =
     (let target = \<lparr>lch_l = js_clamp (lch_l oklch) 0 1, lch_c = max 0 (lch_c oklch), lch_h = lch_h oklch\<rparr>
      in if 1 \<le> lch_l target then \<lparr>rgb_r = 255, rgb_g = 255, rgb_b = 255\<rparr>
         else if lch_l target \<le> 0 then \<lparr>rgb_r = 0, rgb_g = 0, rgb_b = 0\<rparr>
         else let raw = oklch_to_rgb_raw m target
              in if is_in_srgb_gamut raw then clamp_rgb raw
                 else let clipped = clamp_rgb raw
                      in if delta_e_ok m (rgb_to_oklab m clipped) (oklch_to_oklab m target) < gamut_jnd then clipped
                         else gamut_search m target 0 (lch_c target) True clipped)"

section \<open>The cusp of a hue and the plane of the picker\<close>

definition compute_max_saturation :: "rat \<Rightarrow> rat \<Rightarrow> rat" where
  "compute_max_saturation a b =
     (let ((k0, k1, k2, k3, k4), (wl, wm, ws)) =
            (if 1 < - 1.88170328 * a - 0.80936493 * b
             then ((1.19086277, 1.76576728, 0.59662641, 0.75515197, 0.56771245),
                   (4.0767416621, - 3.3077115913, 0.2309699292))
             else if 1 < 1.81444104 * a - 1.19445276 * b
             then ((0.73956515, - 0.45954404, 0.08285427, 0.1254107, 0.14503204),
                   (- 1.2684380046, 2.6097574011, - 0.3413193965))
             else ((1.35733652, - 0.00915799, - 1.1513021, - 0.50559606, 0.00692167),
                   (- 0.0041960863, - 0.7034186147, 1.707614701)));
          s = k0 + k1 * a + k2 * b + k3 * a * a + k4 * a * b;
          kl = 0.3963377774 * a + 0.2158037573 * b;
          km = - 0.1055613458 * a - 0.0638541728 * b;
          ks = - 0.0894841775 * a - 1.291485548 * b;
          lp = 1 + s * kl; mp = 1 + s * km; sp = 1 + s * ks;
          l = lp * lp * lp; m = mp * mp * mp; s3 = sp * sp * sp;
          lds = 3 * kl * lp * lp; mds = 3 * km * mp * mp; sds = 3 * ks * sp * sp;
          lds2 = 6 * kl * kl * lp; mds2 = 6 * km * km * mp; sds2 = 6 * ks * ks * sp;
          f = wl * l + wm * m + ws * s3;
          f1 = wl * lds + wm * mds + ws * sds;
          f2 = wl * lds2 + wm * mds2 + ws * sds2
      in s - (f * f1) / (f1 * f1 - 0.5 * f * f2))"

definition find_cusp :: "js_math \<Rightarrow> rat \<Rightarrow> rat \<Rightarrow> rat \<times> rat" where
  "find_cusp m a b =
     (let sCusp = compute_max_saturation a b;
          rgbAtMax = oklab_to_linear_srgb \<lparr>lab_l = 1, lab_a = sCusp * a, lab_b = sCusp * b\<rparr>;
          lCusp = m_cbrt m (1 / max (rgb_r rgbAtMax) (max (rgb_g rgbAtMax) (rgb_b rgbAtMax)))
      in (lCusp, lCusp * sCusp))"

definition max_chroma_for_hue :: "js_math \<Rightarrow> rat \<Rightarrow> rat" where
  "max_chroma_for_hue m hue = snd (find_cusp m (m_cos m (hue_rad m hue)) (m_sin m (hue_rad m hue)))"

definition cusp_color_for_hue :: "js_math \<Rightarrow> rat \<Rightarrow> rgb_color" where
  "cusp_color_for_hue m hue =
     (let aUnit = m_cos m (hue_rad m hue); bUnit = m_sin m (hue_rad m hue); (cl, cc) = find_cusp m aUnit bUnit
      in clamp_rgb (oklab_to_rgb_raw m \<lparr>lab_l = cl, lab_a = cc * aUnit, lab_b = cc * bUnit\<rparr>))"

definition plane_lightness_floor :: "rat \<Rightarrow> rat" where
  "plane_lightness_floor chromaFraction = 0.25 * chromaFraction"

definition oklch_plane_to_rgb :: "js_math \<Rightarrow> hsv_color \<Rightarrow> rgb_color" where
  "oklch_plane_to_rgb m c =
     (let s01 = js_clamp (hsv_s c) 0 100 / 100;
          lowest = plane_lightness_floor s01;
          lightness = lowest + (js_clamp (hsv_v c) 0 100 / 100) * (1 - lowest)
      in clamp_rgb (oklch_to_rgb_raw m
           \<lparr>lch_l = lightness, lch_c = s01 * max_chroma_for_hue m (hsv_h c), lch_h = hsv_h c\<rparr>))"

definition rgb_to_oklch_plane :: "js_math \<Rightarrow> rgb_color \<Rightarrow> rat \<Rightarrow> hsv_color" where
  "rgb_to_oklch_plane m rgb fallbackHue =
     (let oklch = rgb_to_oklch m rgb fallbackHue;
          hue = (if lch_c oklch < 0.004 then normalize_hue fallbackHue else lch_h oklch);
          cMax = max_chroma_for_hue m hue;
          s01 = (if 0 < cMax then js_clamp (lch_c oklch / cMax) 0 1 else 0);
          lowest = plane_lightness_floor s01
      in \<lparr>hsv_h = hue, hsv_s = s01 * 100, hsv_v = js_clamp ((lch_l oklch - lowest) / (1 - lowest)) 0 1 * 100\<rparr>)"

text \<open>
  A \<open>Uint8ClampedArray\<close> stores the nearest byte, the even one on a tie. The inner loop runs down a column of
  the plane, the outer one over the columns.
\<close>

definition clamped_byte :: "rat \<Rightarrow> nat" where
  "clamped_byte v =
     (let x = js_clamp v 0 255; n = \<lfloor>x\<rfloor>; d = x - of_int n
      in nat (if d < 1 / 2 then n else if 1 / 2 < d then n + 1 else if even n then n else n + 1))"

definition plane_linear :: "js_math \<Rightarrow> nat \<Rightarrow> nat \<Rightarrow> rat \<Rightarrow> nat \<Rightarrow> nat \<Rightarrow> rgb_color" where
  "plane_linear m width height hue x y =
     (let aUnit = m_cos m (hue_rad m hue); bUnit = m_sin m (hue_rad m hue);
          cMax = snd (find_cusp m aUnit bUnit);
          s01 = (if width = 1 then 0 else of_nat x / (of_nat width - 1));
          chroma = s01 * cMax; lowest = plane_lightness_floor s01;
          v01 = (if height = 1 then 1 else 1 - of_nat y / (of_nat height - 1))
      in oklab_to_linear_srgb \<lparr>lab_l = lowest + v01 * (1 - lowest), lab_a = chroma * aUnit, lab_b = chroma * bUnit\<rparr>)"

definition set_pixel :: "js_math \<Rightarrow> nat \<Rightarrow> nat \<Rightarrow> rat \<Rightarrow> nat \<times> nat \<Rightarrow> nat list \<Rightarrow> nat list" where
  "set_pixel m width height hue xy pixels =
     (let (x, y) = xy; linear = plane_linear m width height hue x y; i = (y * width + x) * 4
      in pixels[i := clamped_byte (linear_to_srgb m (rgb_r linear)),
                i + 1 := clamped_byte (linear_to_srgb m (rgb_g linear)),
                i + 2 := clamped_byte (linear_to_srgb m (rgb_b linear)),
                i + 3 := 255])"

definition get_oklch_plane_pixels :: "js_math \<Rightarrow> nat \<Rightarrow> nat \<Rightarrow> rat \<Rightarrow> nat list" where
  "get_oklch_plane_pixels m width height hue =
     fold (set_pixel m width height hue) (concat (map (\<lambda>x. map (Pair x) [0..<height]) [0..<width]))
       (replicate (width * height * 4) 0)"

section \<open>Hues\<close>

lemma js_rem_nonneg:
  assumes "0 \<le> a" "0 < b"
  shows "js_rem a b = a - b * of_int \<lfloor>a / b\<rfloor>"
  using assms by (simp add: js_rem_def Let_def)

lemma js_rem_bounds:
  assumes "0 < b"
  shows "- b < js_rem a b" "js_rem a b < b"
proof -
  have r: "b * (a / b) = a" using assms by simp
  have f: "of_int \<lfloor>a / b\<rfloor> \<le> a / b" "a / b < of_int \<lfloor>a / b\<rfloor> + 1" by linarith+
  have c: "a / b \<le> of_int \<lceil>a / b\<rceil>" "of_int \<lceil>a / b\<rceil> < a / b + 1" by linarith+
  have f': "b * of_int \<lfloor>a / b\<rfloor> \<le> a" "a < b * (of_int \<lfloor>a / b\<rfloor> + 1)"
    using mult_left_mono [OF f(1), of b] mult_strict_left_mono [OF f(2) assms] assms r by simp_all
  have c': "a \<le> b * of_int \<lceil>a / b\<rceil>" "b * of_int \<lceil>a / b\<rceil> < a + b"
    using mult_left_mono [OF c(1), of b] mult_strict_left_mono [OF c(2) assms] assms r by (simp_all add: distrib_left)
  show "- b < js_rem a b" "js_rem a b < b"
    using f' c' assms by (simp_all add: js_rem_def Let_def distrib_left)
qed

lemma normalize_hue_bounds: "0 \<le> normalize_hue v" "normalize_hue v < 360"
proof -
  define u where "u = js_rem v 360 + 360"
  have u: "0 < u" using js_rem_bounds [of 360 v] by (simp add: u_def)
  have eq: "normalize_hue v = u - 360 * of_int \<lfloor>u / 360\<rfloor>"
    using u by (simp add: normalize_hue_def u_def [symmetric] js_rem_nonneg)
  have "of_int \<lfloor>u / 360\<rfloor> \<le> u / 360" "u / 360 < of_int \<lfloor>u / 360\<rfloor> + 1" by linarith+
  then show "0 \<le> normalize_hue v" "normalize_hue v < 360" unfolding eq by linarith+
qed

lemma normalize_hue_id:
  assumes "0 \<le> v" "v < 360"
  shows "normalize_hue v = v"
proof -
  have "\<lfloor>v / 360\<rfloor> = 0" using assms by (simp add: floor_eq_iff)
  then have r: "js_rem v 360 = v" using assms by (simp add: js_rem_nonneg)
  have "\<lfloor>(v + 360) / 360\<rfloor> = 1" using assms by (simp add: floor_eq_iff)
  then show ?thesis using assms by (simp add: normalize_hue_def r js_rem_nonneg)
qed

lemma normalize_hue_idem [simp]: "normalize_hue (normalize_hue v) = normalize_hue v"
  by (simp add: normalize_hue_id normalize_hue_bounds)

lemma js_clamp_id [simp]: "lo \<le> v \<Longrightarrow> v \<le> hi \<Longrightarrow> js_clamp v lo hi = v"
  by (simp add: js_clamp_def)

lemma js_clamp_bounds: "lo \<le> hi \<Longrightarrow> lo \<le> js_clamp v lo hi" "js_clamp v lo hi \<le> hi"
  by (simp_all add: js_clamp_def)

section \<open>The six sectors of the hue\<close>

definition hsv_unit :: "rat \<Rightarrow> rat \<Rightarrow> rat \<Rightarrow> rat \<times> rat \<times> rat" where
  "hsv_unit h sat val =
     hsv_pick (\<lfloor>h\<rfloor> mod 6) val (val * (1 - sat)) (val * (1 - (h - of_int \<lfloor>h\<rfloor>) * sat))
       (val * (1 - (1 - (h - of_int \<lfloor>h\<rfloor>)) * sat))"

lemma hsv_unit_sector:
  assumes "of_nat k \<le> h" "h < of_nat k + 1" "k < 6"
  shows "hsv_unit h sat val =
     hsv_pick (int k) val (val * (1 - sat)) (val * (1 - (h - of_nat k) * sat)) (val * (1 - (1 - (h - of_nat k)) * sat))"
proof -
  have "\<lfloor>h\<rfloor> = int k" using assms by (simp add: floor_eq_iff)
  then show ?thesis using assms(3) by (simp add: hsv_unit_def)
qed

lemma hsv_unit_edges:
  assumes sat: "val * sat = d"
  shows "0 \<le> h \<Longrightarrow> h \<le> 1 \<Longrightarrow> hsv_unit h sat val = (val, val - d + h * d, val - d)"
    and "1 \<le> h \<Longrightarrow> h \<le> 2 \<Longrightarrow> hsv_unit h sat val = (val - (h - 1) * d, val, val - d)"
    and "2 \<le> h \<Longrightarrow> h \<le> 3 \<Longrightarrow> hsv_unit h sat val = (val - d, val, val - d + (h - 2) * d)"
    and "3 \<le> h \<Longrightarrow> h \<le> 4 \<Longrightarrow> hsv_unit h sat val = (val - d, val - (h - 3) * d, val)"
    and "4 \<le> h \<Longrightarrow> h \<le> 5 \<Longrightarrow> hsv_unit h sat val = (val - d + (h - 4) * d, val - d, val)"
    and "5 \<le> h \<Longrightarrow> h < 6 \<Longrightarrow> hsv_unit h sat val = (val, val - d, val - (h - 5) * d)"
proof -
  have at: "hsv_unit 1 sat val = (val, val, val - d)" "hsv_unit 2 sat val = (val - d, val, val - d)"
    "hsv_unit 3 sat val = (val - d, val, val)" "hsv_unit 4 sat val = (val - d, val - d, val)"
    "hsv_unit 5 sat val = (val, val - d, val)"
    by (simp_all add: hsv_unit_def hsv_pick_def sat [symmetric] algebra_simps)
  note parts = hsv_pick_def sat [symmetric] algebra_simps
  show "0 \<le> h \<Longrightarrow> h \<le> 1 \<Longrightarrow> hsv_unit h sat val = (val, val - d + h * d, val - d)"
    by (cases "h = 1") (simp_all add: at hsv_unit_sector [of 0] parts)
  show "1 \<le> h \<Longrightarrow> h \<le> 2 \<Longrightarrow> hsv_unit h sat val = (val - (h - 1) * d, val, val - d)"
    by (cases "h = 2") (simp_all add: at hsv_unit_sector [of 1] parts)
  show "2 \<le> h \<Longrightarrow> h \<le> 3 \<Longrightarrow> hsv_unit h sat val = (val - d, val, val - d + (h - 2) * d)"
    by (cases "h = 3") (simp_all add: at hsv_unit_sector [of 2] parts)
  show "3 \<le> h \<Longrightarrow> h \<le> 4 \<Longrightarrow> hsv_unit h sat val = (val - d, val - (h - 3) * d, val)"
    by (cases "h = 4") (simp_all add: at hsv_unit_sector [of 3] parts)
  show "4 \<le> h \<Longrightarrow> h \<le> 5 \<Longrightarrow> hsv_unit h sat val = (val - d + (h - 4) * d, val - d, val)"
    by (cases "h = 5") (simp_all add: at hsv_unit_sector [of 4] parts)
  show "5 \<le> h \<Longrightarrow> h < 6 \<Longrightarrow> hsv_unit h sat val = (val, val - d, val - (h - 5) * d)"
    by (simp add: hsv_unit_sector [of 5] parts)
qed

lemma hsv_to_rgb_unit:
  assumes h: "0 \<le> h" "h < 6" and s: "0 \<le> s" "s \<le> 1" and v: "0 \<le> v" "v \<le> 1"
    and u: "hsv_unit h s v = (x, y, z)"
  shows "hsv_to_rgb \<lparr>hsv_h = h * 60, hsv_s = s * 100, hsv_v = v * 100\<rparr> = \<lparr>rgb_r = x * 255, rgb_g = y * 255, rgb_b = z * 255\<rparr>"
proof -
  have "normalize_hue (h * 60) = h * 60" using h by (simp add: normalize_hue_id)
  then show ?thesis using s v u by (simp add: hsv_to_rgb_def hsv_unit_def Let_def)
qed

definition hsv_hue :: "rat \<Rightarrow> rat \<Rightarrow> rat \<Rightarrow> rat" where
  "hsv_hue r g b =
     (let hi = max r (max g b); d = hi - min r (min g b)
      in if hi = r then (g - b) / d + (if g < b then 6 else 0)
         else if hi = g then (b - r) / d + 2
         else (r - g) / d + 4)"

lemma hsv_hue_recovers:
  assumes d: "max r (max g b) \<noteq> min r (min g b)"
    and sat: "max r (max g b) * s = max r (max g b) - min r (min g b)"
  shows "0 \<le> hsv_hue r g b \<and> hsv_hue r g b < 6 \<and> hsv_unit (hsv_hue r g b) s (max r (max g b)) = (r, g, b)"
proof -
  consider (rgb) "b \<le> g" "g \<le> r" | (rbg) "g < b" "b \<le> r" | (grb) "b \<le> r" "r < g" | (gbr) "r < b" "b \<le> g"
    | (bgr) "r \<le> g" "g < b" | (brg) "g < r" "r < b"
    by linarith
  then show ?thesis
  proof cases
    case rgb
    then have hi: "max r (max g b) = r" "min r (min g b) = b" by simp_all
    let ?h = "(g - b) / (r - b)"
    have d': "0 < r - b" using d hi rgb by linarith
    have h: "hsv_hue r g b = ?h" using rgb by (simp add: hsv_hue_def hi Let_def)
    have b: "0 \<le> ?h" "?h \<le> 1" using d' rgb by (simp_all add: divide_simps)
    have "?h * (r - b) = g - b" using d' by simp
    then show ?thesis using hsv_unit_edges(1) [OF sat b] b h by (simp add: hi)
  next
    case rbg
    then have hi: "max r (max g b) = r" "min r (min g b) = g" by simp_all
    let ?h = "(g - b) / (r - g) + 6"
    have d': "0 < r - g" using rbg by linarith
    have h: "hsv_hue r g b = ?h" using rbg by (simp add: hsv_hue_def hi Let_def)
    have b: "5 \<le> ?h" "?h < 6" using d' rbg by (simp_all add: divide_simps)
    have "(?h - 5) * (r - g) = r - b" using d' by (simp add: field_simps)
    then show ?thesis using hsv_unit_edges(6) [OF sat b] b h by (simp add: hi)
  next
    case grb
    then have hi: "max r (max g b) = g" "min r (min g b) = b" by simp_all
    let ?h = "(b - r) / (g - b) + 2"
    have d': "0 < g - b" using grb by linarith
    have h: "hsv_hue r g b = ?h" using grb by (simp add: hsv_hue_def hi Let_def)
    have b: "1 \<le> ?h" "?h \<le> 2" using d' grb by (simp_all add: divide_simps)
    have "(?h - 1) * (g - b) = g - r" using d' by (simp add: field_simps)
    then show ?thesis using hsv_unit_edges(2) [OF sat b] b h by (simp add: hi)
  next
    case gbr
    then have hi: "max r (max g b) = g" "min r (min g b) = r" by simp_all
    let ?h = "(b - r) / (g - r) + 2"
    have d': "0 < g - r" using gbr by linarith
    have h: "hsv_hue r g b = ?h" using gbr by (simp add: hsv_hue_def hi Let_def)
    have b: "2 \<le> ?h" "?h \<le> 3" using d' gbr by (simp_all add: divide_simps)
    have "(?h - 2) * (g - r) = b - r" using d' by (simp add: field_simps)
    then show ?thesis using hsv_unit_edges(3) [OF sat b] b h by (simp add: hi)
  next
    case bgr
    then have hi: "max r (max g b) = b" "min r (min g b) = r" by simp_all
    let ?h = "(r - g) / (b - r) + 4"
    have d': "0 < b - r" using bgr by linarith
    have h: "hsv_hue r g b = ?h" using bgr by (simp add: hsv_hue_def hi Let_def)
    have b: "3 \<le> ?h" "?h \<le> 4" using d' bgr by (simp_all add: divide_simps)
    have "(?h - 3) * (b - r) = b - g" using d' by (simp add: field_simps)
    then show ?thesis using hsv_unit_edges(4) [OF sat b] b h by (simp add: hi)
  next
    case brg
    then have hi: "max r (max g b) = b" "min r (min g b) = g" by simp_all
    let ?h = "(r - g) / (b - g) + 4"
    have d': "0 < b - g" using brg by linarith
    have h: "hsv_hue r g b = ?h" using brg by (simp add: hsv_hue_def hi Let_def)
    have b: "4 \<le> ?h" "?h \<le> 5" using d' brg by (simp_all add: divide_simps)
    have "(?h - 4) * (b - g) = r - g" using d' by (simp add: field_simps)
    then show ?thesis using hsv_unit_edges(5) [OF sat b] b h by (simp add: hi)
  qed
qed

definition in_rgb :: "rgb_color \<Rightarrow> bool" where
  "in_rgb c \<longleftrightarrow> 0 \<le> rgb_r c \<and> rgb_r c \<le> 255 \<and> 0 \<le> rgb_g c \<and> rgb_g c \<le> 255 \<and> 0 \<le> rgb_b c \<and> rgb_b c \<le> 255"

lemma in_rgb_clamp [simp]: "in_rgb (clamp_rgb c)"
  by (simp add: in_rgb_def clamp_rgb_def js_clamp_bounds)

lemma clamp_rgb_in [simp]: "in_rgb c \<Longrightarrow> clamp_rgb c = c"
  by (cases c) (simp add: in_rgb_def clamp_rgb_def)

lemma hsv_unit_grey: "hsv_unit h 0 v = (v, v, v)"
  by (simp add: hsv_unit_def hsv_pick_def)

text \<open>The colour of a triple of channels between 0 and 1, and its saturation.\<close>

lemma rgb_to_hsv_unit:
  assumes r: "0 \<le> r" "r \<le> 1" and g: "0 \<le> g" "g \<le> 1" and b: "0 \<le> b" "b \<le> 1"
  shows "hsv_to_rgb (rgb_to_hsv \<lparr>rgb_r = r * 255, rgb_g = g * 255, rgb_b = b * 255\<rparr> fb) =
    \<lparr>rgb_r = r * 255, rgb_g = g * 255, rgb_b = b * 255\<rparr>"
proof -
  define hi where "hi = max r (max g b)"
  define d where "d = hi - min r (min g b)"
  define s where "s = (if hi = 0 then 0 else d / hi)"
  have v: "0 \<le> hi" "hi \<le> 1" using r g b by (auto simp: hi_def)
  have "0 \<le> min r (min g b)" "min r (min g b) \<le> hi" using r g b by (auto simp: hi_def)
  then have d: "0 \<le> d" "d \<le> hi" by (simp_all add: d_def)
  then have sb: "0 \<le> s" "s \<le> 1" using v by (simp_all add: s_def)
  have sat: "hi * s = d" using d v by (auto simp: s_def)
  define h where "h = (if d = 0 then normalize_hue fb else normalize_hue (hsv_hue r g b * 60)) / 60"
  have hsv: "rgb_to_hsv \<lparr>rgb_r = r * 255, rgb_g = g * 255, rgb_b = b * 255\<rparr> fb = \<lparr>hsv_h = h * 60, hsv_s = s * 100, hsv_v = hi * 100\<rparr>"
    using r g b by (simp add: rgb_to_hsv_def h_def s_def d_def hi_def hsv_hue_def Let_def)
  have h6: "0 \<le> h" "h < 6"
    using normalize_hue_bounds [of fb] normalize_hue_bounds [of "hsv_hue r g b * 60"] by (simp_all add: h_def)
  have "hsv_unit h s hi = (r, g, b)"
  proof (cases "d = 0")
    case True
    then have "s = 0" "min r (min g b) = hi" by (simp_all add: s_def d_def)
    moreover have "r \<le> hi" "g \<le> hi" "b \<le> hi" "min r (min g b) \<le> r" "min r (min g b) \<le> g" "min r (min g b) \<le> b"
      by (auto simp: hi_def)
    ultimately show ?thesis by (simp add: hsv_unit_grey)
  next
    case False
    then have ne: "max r (max g b) \<noteq> min r (min g b)" by (simp add: d_def hi_def)
    note core = hsv_hue_recovers [OF ne sat [unfolded d_def hi_def]]
    then have "h = hsv_hue r g b" using False by (simp add: h_def normalize_hue_id)
    then show ?thesis using core by (simp add: hi_def)
  qed
  then show ?thesis unfolding hsv using h6 sb v by (rule hsv_to_rgb_unit [rotated 6])
qed

lemma rgb_to_hsv_clamp: "rgb_to_hsv c fb = rgb_to_hsv (clamp_rgb c) fb"
  by (simp add: rgb_to_hsv_def clamp_rgb_def js_clamp_bounds)

text \<open>
  Converting a colour to HSV and back gives the colour, its channels clamped to 0 .. 255, whatever the fallback hue.
\<close>
theorem hsv_roundtrip: "hsv_to_rgb (rgb_to_hsv c fallbackHue) = clamp_rgb c"
proof -
  have "in_rgb (clamp_rgb c)" by simp
  then have "hsv_to_rgb (rgb_to_hsv (clamp_rgb c) fallbackHue) = clamp_rgb c"
    using rgb_to_hsv_unit [of "rgb_r (clamp_rgb c) / 255" "rgb_g (clamp_rgb c) / 255" "rgb_b (clamp_rgb c) / 255" fallbackHue]
    by (cases "clamp_rgb c") (simp add: in_rgb_def)
  then show ?thesis by (simp add: rgb_to_hsv_clamp [of c])
qed

text \<open>
  HSL is HSV written differently: the colour of the HSL form of an HSV colour is the colour of the HSV colour.
\<close>
theorem hsl_agrees_with_hsv: "hsl_to_rgb (hsv_to_hsl c) = hsv_to_rgb c"
proof -
  define s where "s = js_clamp (hsv_s c) 0 100 / 100"
  define v where "v = js_clamp (hsv_v c) 0 100 / 100"
  have s: "0 \<le> s" "s \<le> 1" and v: "0 \<le> v" "v \<le> 1" by (simp_all add: s_def v_def js_clamp_bounds)
  define l where "l = v * (1 - s / 2)"
  have vs: "0 \<le> v * s" "v * s \<le> v" using s v by (simp_all add: mult_left_le)
  have l: "0 \<le> l" "l \<le> 1" "v - l \<le> l" "v - l \<le> 1 - l" "0 \<le> v - l" using vs v by (simp_all add: l_def algebra_simps)
  define t where "t = (if l = 0 \<or> l = 1 then 0 else (v - l) / min l (1 - l))"
  have t: "0 \<le> t" "t \<le> 1" using l by (auto simp: t_def min_def divide_simps)
  have hsl: "hsv_to_hsl c = \<lparr>hsl_h = normalize_hue (hsv_h c), hsl_s = t * 100, hsl_l = l * 100\<rparr>"
    unfolding hsv_to_hsl_def Let_def s_def [symmetric] v_def [symmetric] l_def [symmetric] t_def [symmetric]
    using t l by simp
  have tv: "l + t * min l (1 - l) = v"
  proof (cases "l = 0 \<or> l = 1")
    case True
    then show ?thesis using l by (auto simp: t_def)
  next
    case False
    then have "min l (1 - l) \<noteq> 0" by (auto simp: min_def)
    then show ?thesis using False by (simp add: t_def)
  qed
  have hsv: "hsl_to_hsv (hsv_to_hsl c) =
      \<lparr>hsv_h = normalize_hue (hsv_h c), hsv_s = (if v = 0 then 0 else s) * 100, hsv_v = v * 100\<rparr>"
    using t l v s tv unfolding hsl
    by (simp add: hsl_to_hsv_def Let_def) (simp add: l_def field_simps)
  show ?thesis
    unfolding hsl_to_rgb_def hsv using s v
    by (simp add: hsv_to_rgb_def Let_def s_def [symmetric] v_def [symmetric] hsv_pick_def)
qed

section \<open>The gamut\<close>

definition at_chroma :: "js_math \<Rightarrow> oklch_color \<Rightarrow> rat \<Rightarrow> rgb_color" where
  "at_chroma m target x = clamp_rgb (oklch_to_rgb_raw m (target\<lparr>lch_c := x\<rparr>))"

lemma at_chroma_self: "at_chroma m target (lch_c target) = clamp_rgb (oklch_to_rgb_raw m target)"
  by (simp add: at_chroma_def)

lemma gamut_search_at_chroma:
  assumes "0 \<le> lo" "lo \<le> hi" "hi \<le> most" "\<exists>x. 0 \<le> x \<and> x \<le> most \<and> clipped = at_chroma m target x"
  shows "\<exists>x. 0 \<le> x \<and> x \<le> most \<and> gamut_search m target lo hi inGamut clipped = at_chroma m target x"
  using assms
proof (induction m target lo hi inGamut clipped rule: gamut_search.induct)
  case (1 m target lo hi inGamut clipped)
  let ?c = "(lo + hi) / 2"
  have mid: "0 \<le> ?c" "lo \<le> ?c" "?c \<le> hi" "?c \<le> most" using "1.prems" by simp_all
  have here: "\<exists>x. 0 \<le> x \<and> x \<le> most \<and> at_chroma m target ?c = at_chroma m target x" using mid by blast
  show ?case
  proof (cases "gamut_epsilon < hi - lo")
    case False
    then show ?thesis using "1.prems"(4) by simp
  next
    case True
    note IH = "1.IH" [OF True refl refl refl]
    show ?thesis
      by (subst gamut_search.simps)
        (use IH "1.prems" mid here True in \<open>simp add: Let_def at_chroma_def [symmetric] del: gamut_search.simps\<close>)
  qed
qed

lemma gamut_mapped:
  assumes l: "0 < lch_l oklch" "lch_l oklch < 1"
  shows "\<exists>x. 0 \<le> x \<and> x \<le> max 0 (lch_c oklch) \<and> oklch_to_rgb m oklch = at_chroma m oklch x"
proof -
  define target where "target = \<lparr>lch_l = js_clamp (lch_l oklch) 0 1, lch_c = max 0 (lch_c oklch), lch_h = lch_h oklch\<rparr>"
  have same: "at_chroma m target x = at_chroma m oklch x" for x
    using l by (simp add: at_chroma_def target_def) (cases oklch, simp)
  have full: "\<exists>x. 0 \<le> x \<and> x \<le> lch_c target \<and> clamp_rgb (oklch_to_rgb_raw m target) = at_chroma m target x"
    using at_chroma_self [of m target] by (intro exI [of _ "lch_c target"]) (simp, simp add: target_def)
  have tl: "0 < lch_l target" "lch_l target < 1" "0 \<le> lch_c target" using l by (simp_all add: target_def)
  have "\<exists>x. 0 \<le> x \<and> x \<le> lch_c target \<and> oklch_to_rgb m oklch = at_chroma m target x"
    unfolding oklch_to_rgb_def target_def [symmetric] Let_def
    using tl full gamut_search_at_chroma [OF order_refl tl(3) order_refl full]
    by (simp del: gamut_search.simps)
  then show ?thesis unfolding same by (simp add: target_def)
qed

lemma gamut_mapped_in_range: "in_rgb (oklch_to_rgb m oklch)"
proof -
  consider "lch_l oklch \<le> 0" | "1 \<le> lch_l oklch" | "0 < lch_l oklch" "lch_l oklch < 1" by linarith
  then show ?thesis
  proof cases
    case 3
    then obtain x where "oklch_to_rgb m oklch = at_chroma m oklch x" using gamut_mapped by blast
    then show ?thesis by (simp add: at_chroma_def)
  qed (simp_all add: oklch_to_rgb_def in_rgb_def js_clamp_def)
qed

text \<open>
  Gamut mapping keeps lightness and hue: the colour shown for a lightness strictly between 0 and 1 is the clamped
  conversion of the same OKLCH colour with some chroma between 0 and the one asked for.
\<close>
theorem oklch_to_rgb_maps:
  assumes "0 < lch_l oklch" "lch_l oklch < 1"
  shows "\<exists>x. 0 \<le> x \<and> x \<le> max 0 (lch_c oklch) \<and>
    oklch_to_rgb m oklch = clamp_rgb (oklch_to_rgb_raw m (oklch\<lparr>lch_c := x\<rparr>))"
  using gamut_mapped [OF assms] by (simp add: at_chroma_def)

definition coarse_math :: js_math where
  "coarse_math = \<lparr>m_pow = (\<lambda>a b. a), m_cbrt = (\<lambda>a. a), m_sqrt = (\<lambda>a. a), m_cos = (\<lambda>a. 1 - a * a / 2), m_sin = (\<lambda>a. a),
     m_atan2 = (\<lambda>a b. a), m_pi = 3.14159\<rparr>"

theorem oklch_to_rgb_maps_witness:
  "\<exists>x. 0 \<le> x \<and> x \<le> 0.2 \<and> oklch_to_rgb coarse_math \<lparr>lch_l = 0.5, lch_c = 0.2, lch_h = 30\<rparr> =
     clamp_rgb (oklch_to_rgb_raw coarse_math \<lparr>lch_l = 0.5, lch_c = x, lch_h = 30\<rparr>)"
  using oklch_to_rgb_maps [of "\<lparr>lch_l = 0.5, lch_c = 0.2, lch_h = 30\<rparr>" coarse_math] by (simp add: max_def)

text \<open>
  Whatever the input and the accuracy of \<open>Math\<close>, the mapping ends with channels between 0 and 255.
\<close>
lemma oklch_to_rgb_in_range: "in_rgb (oklch_to_rgb m oklch)"
  by (rule gamut_mapped_in_range)

section \<open>The plane\<close>

definition pixel_byte :: "js_math \<Rightarrow> nat \<Rightarrow> nat \<Rightarrow> rat \<Rightarrow> nat \<times> nat \<Rightarrow> nat \<Rightarrow> nat" where
  "pixel_byte m width height hue xy k =
     (let linear = plane_linear m width height hue (fst xy) (snd xy)
      in [clamped_byte (linear_to_srgb m (rgb_r linear)), clamped_byte (linear_to_srgb m (rgb_g linear)),
          clamped_byte (linear_to_srgb m (rgb_b linear)), 255] ! k)"

definition pixel_index :: "nat \<Rightarrow> nat \<times> nat \<Rightarrow> nat" where
  "pixel_index width xy = snd xy * width + fst xy"

lemma pixel_index_inj: "fst p < width \<Longrightarrow> fst q < width \<Longrightarrow> pixel_index width p = pixel_index width q \<Longrightarrow> p = q"
proof -
  assume p: "fst p < width" and q: "fst q < width" and eq: "pixel_index width p = pixel_index width q"
  have "pixel_index width p div width = snd p" "pixel_index width p mod width = fst p" using p by (simp_all add: pixel_index_def)
  moreover have "pixel_index width q div width = snd q" "pixel_index width q mod width = fst q" using q by (simp_all add: pixel_index_def)
  ultimately show "p = q" using eq by (simp add: prod_eq_iff)
qed

lemma length_set_pixel [simp]: "length (set_pixel m width height hue xy pixels) = length pixels"
  by (simp add: set_pixel_def Let_def split: prod.splits)

lemma set_pixel_nth:
  assumes "j < length pixels"
  shows "set_pixel m width height hue xy pixels ! j =
    (if j div 4 = pixel_index width xy then pixel_byte m width height hue xy (j mod 4) else pixels ! j)"
proof -
  obtain x y where xy: "xy = (x, y)" by (cases xy)
  define i where "i = pixel_index width xy * 4"
  have i: "(y * width + x) * 4 = i" by (simp add: i_def pixel_index_def xy)
  have "j = (j div 4) * 4 + j mod 4" "j mod 4 < 4" by simp_all
  then consider "j div 4 \<noteq> pixel_index width xy" "j \<noteq> i" "j \<noteq> i + 1" "j \<noteq> i + 2" "j \<noteq> i + 3"
    | k where "j div 4 = pixel_index width xy" "j = i + k" "j mod 4 = k" "k < 4"
    unfolding i_def by (cases "j div 4 = pixel_index width xy") (metis, force)
  then show ?thesis
  proof cases
    case 1
    then show ?thesis unfolding xy set_pixel_def Let_def split i by (simp add: xy)
  next
    case 2
    then have "k = 0 \<or> k = 1 \<or> k = 2 \<or> k = 3" by linarith
    then show ?thesis using 2 assms
      unfolding xy set_pixel_def Let_def split i
      by (elim disjE) (simp_all add: pixel_byte_def Let_def nth_list_update)
  qed
qed

lemma length_fold_set_pixel [simp]: "length (fold (set_pixel m width height hue) ps pixels) = length pixels"
  by (induction ps arbitrary: pixels) simp_all

lemma fold_set_pixel_nth:
  assumes "j < length pixels" "p \<in> set ps" "\<And>q. q \<in> set ps \<Longrightarrow> fst q < width" "j div 4 = pixel_index width p"
  shows "fold (set_pixel m width height hue) ps pixels ! j = pixel_byte m width height hue p (j mod 4)"
  using assms
proof (induction ps rule: rev_induct)
  case (snoc q ps)
  show ?case
  proof (cases "pixel_index width q = j div 4")
    case True
    then have "q = p" using snoc.prems by (intro pixel_index_inj) auto
    then show ?thesis using snoc.prems True by (simp add: set_pixel_nth)
  next
    case False
    then have "p \<in> set ps" using snoc.prems by auto
    then show ?thesis using snoc False by (simp add: set_pixel_nth)
  qed
qed simp

lemma length_plane_pixels: "length (get_oklch_plane_pixels m width height hue) = width * height * 4"
  by (simp add: get_oklch_plane_pixels_def)

lemma plane_pixel_at:
  assumes "x < width" "y < height" "k < 4"
  shows "get_oklch_plane_pixels m width height hue ! ((y * width + x) * 4 + k) = pixel_byte m width height hue (x, y) k"
proof -
  let ?j = "(y * width + x) * 4 + k"
  let ?ps = "concat (map (\<lambda>x. map (Pair x) [0..<height]) [0..<width])"
  have "y * width + x < height * width"
  proof -
    have "y * width + x < (y + 1) * width" using assms(1) by simp
    also have "\<dots> \<le> height * width" using assms(2) by (intro mult_right_mono) simp_all
    finally show ?thesis .
  qed
  then have "?j < length (replicate (width * height * 4) (0 :: nat))" using assms(3) by (simp add: mult.commute)
  moreover have "(x, y) \<in> set ?ps" using assms by (auto intro!: bexI [of _ x])
  moreover have "fst q < width" if "q \<in> set ?ps" for q using that by auto
  moreover have block: "(n * 4 + k) div 4 = n" "(n * 4 + k) mod 4 = k" for n using assms(3) by simp_all
  moreover have "?j div 4 = pixel_index width (x, y)" by (simp only: block pixel_index_def fst_conv snd_conv)
  ultimately show ?thesis unfolding get_oklch_plane_pixels_def by (simp only: fold_set_pixel_nth block)
qed

lemma clamped_byte_le: "clamped_byte v \<le> 255"
proof -
  have b: "0 \<le> js_clamp v 0 255" "js_clamp v 0 255 \<le> 255" by (simp_all add: js_clamp_bounds)
  have "\<lfloor>js_clamp v 0 255\<rfloor> \<le> 254 \<or> js_clamp v 0 255 = 255" using b by linarith
  then show ?thesis
    by (auto simp: clamped_byte_def Let_def nat_le_iff)
qed


end
