(* ===== verification/Numbers.thy ===== *)
theory Numbers
  imports Prelude
begin

text \<open>
  Numbers as JavaScript reads and rounds them: \<open>Math.round\<close>, digits, \<open>Number.parseFloat\<close> and
  \<open>Number\<close> of a string. A double is a rational number; a literal beyond the largest double is no finite number.
\<close>

section \<open>Rounding and digits\<close>

text \<open>\<open>Math.round\<close>: the nearest integer, the larger one on a tie.\<close>

definition js_round :: "rat \<Rightarrow> int" where
  "js_round v = \<lfloor>v + 1 / 2\<rfloor>"

definition is_digit :: "char \<Rightarrow> bool" where
  "is_digit c \<longleftrightarrow> c \<in> set ''0123456789''"

definition digit_value :: "char \<Rightarrow> nat" where
  "digit_value c = (let n = of_char c :: nat in if n < 65 then n - 48 else if n < 97 then n - 55 else n - 87)"

definition digits_value :: "nat \<Rightarrow> string \<Rightarrow> nat" where
  "digits_value base s = foldl (\<lambda>n c. n * base + digit_value c) 0 s"

definition is_hex :: "char \<Rightarrow> bool" where
  "is_hex c \<longleftrightarrow> c \<in> set ''0123456789abcdefABCDEF''"

definition js_finite :: "rat \<Rightarrow> bool" where
  "js_finite v \<longleftrightarrow> \<bar>v\<bar> < 2 ^ 1024 - 2 ^ 970"

section \<open>Reading numbers\<close>

text \<open>\<open>Number.parseFloat\<close> of a trimmed text: the longest decimal literal at its start.\<close>

definition exponent_prefix :: "string \<Rightarrow> int" where
  "exponent_prefix s =
     (case s of
        e # rest \<Rightarrow>
          (let negative = (rest \<noteq> [] \<and> hd rest = CHR ''-'');
               unsigned = (if rest \<noteq> [] \<and> (hd rest = CHR ''-'' \<or> hd rest = CHR ''+'') then tl rest else rest);
               n = int (digits_value 10 (takeWhile is_digit unsigned))
           in if e = CHR ''e'' \<or> e = CHR ''E'' then (if negative then - n else n) else 0)
      | [] \<Rightarrow> 0)"

definition scaled :: "rat \<Rightarrow> int \<Rightarrow> rat" where
  "scaled v e = (if 0 \<le> e then v * 10 ^ nat e else v / 10 ^ nat (- e))"

definition parse_unsigned :: "string \<Rightarrow> rat option" where
  "parse_unsigned s =
     (let whole = takeWhile is_digit s; rest = dropWhile is_digit s;
          point = (rest \<noteq> [] \<and> hd rest = CHR ''.'');
          frac = (if point then takeWhile is_digit (tl rest) else []);
          tail = (if point then dropWhile is_digit (tl rest) else rest)
      in if whole = [] \<and> frac = [] then None
         else Some (scaled (of_nat (digits_value 10 (whole @ frac)) / 10 ^ length frac) (exponent_prefix tail)))"

definition parse_float :: "string \<Rightarrow> rat option" where
  "parse_float s =
     (if s \<noteq> [] \<and> hd s = CHR ''-'' then map_option uminus (parse_unsigned (tl s))
      else if s \<noteq> [] \<and> hd s = CHR ''+'' then parse_unsigned (tl s)
      else parse_unsigned s)"

text \<open>\<open>Number\<close> of a string, where it is finite: a literal with nothing but white space around it; no text at all is zero.\<close>

definition exponent_part :: "string \<Rightarrow> int option" where
  "exponent_part s =
     (case s of
        [] \<Rightarrow> Some 0
      | e # rest \<Rightarrow>
          (let negative = (rest \<noteq> [] \<and> hd rest = CHR ''-'');
               unsigned = (if rest \<noteq> [] \<and> (hd rest = CHR ''-'' \<or> hd rest = CHR ''+'') then tl rest else rest);
               n = int (digits_value 10 unsigned)
           in if (e = CHR ''e'' \<or> e = CHR ''E'') \<and> unsigned \<noteq> [] \<and> list_all is_digit unsigned
              then Some (if negative then - n else n) else None))"

definition unsigned_literal :: "string \<Rightarrow> rat option" where
  "unsigned_literal s =
     (let whole = takeWhile is_digit s; rest = dropWhile is_digit s;
          point = (rest \<noteq> [] \<and> hd rest = CHR ''.'');
          frac = (if point then takeWhile is_digit (tl rest) else []);
          tail = (if point then dropWhile is_digit (tl rest) else rest)
      in if whole = [] \<and> frac = [] then None
         else map_option (scaled (of_nat (digits_value 10 (whole @ frac)) / 10 ^ length frac)) (exponent_part tail))"

definition radix_literal :: "string \<Rightarrow> rat option" where
  "radix_literal s =
     (let base = (case to_lower (take 2 s) of [_, c] \<Rightarrow> if c = CHR ''x'' then 16 else if c = CHR ''o'' then 8 else 2 | _ \<Rightarrow> 2);
          body = drop 2 s
      in if body \<noteq> [] \<and> list_all (\<lambda>c. is_hex c \<and> digit_value c < base) body then Some (of_nat (digits_value base body)) else None)"

definition js_number :: "string \<Rightarrow> rat option" where
  "js_number s =
     (let t = js_trim s;
          v = (if t = [] then Some 0
               else if to_lower (take 2 t) \<in> {''0x'', ''0o'', ''0b''} then radix_literal t
               else if hd t = CHR ''-'' then map_option uminus (unsigned_literal (tl t))
               else if hd t = CHR ''+'' then unsigned_literal (tl t)
               else unsigned_literal t)
      in case v of None \<Rightarrow> None | Some n \<Rightarrow> if js_finite n then Some n else None)"

section \<open>What a written number is made of\<close>

lemma hex_digits: "map (\<lambda>d. upper_char (digit_char d)) [0..<16] = ''0123456789ABCDEF''"
  by (simp add: upt_rec digit_char_def upper_char_def char_of_def bit_0 Let_def)

lemma hex_values: "map digit_value ''0123456789ABCDEF'' = [0..<16]"
  by (simp add: upt_rec digit_value_def Let_def)

lemma decimal_digits: "map digit_char [0..<10] = ''0123456789''"
  by (simp add: upt_rec digit_char_def char_of_def bit_0)

lemma decimal_values: "map digit_value ''0123456789'' = [0..<10]"
  by (simp add: upt_rec digit_value_def Let_def)

lemma hex_digit_char:
  assumes "d < 16"
  shows "is_hex (upper_char (digit_char d))" "digit_value (upper_char (digit_char d)) = d"
proof -
  have nth: "upper_char (digit_char d) = ''0123456789ABCDEF'' ! d"
    using arg_cong [OF hex_digits, of "\<lambda>l. l ! d"] assms by simp
  have "''0123456789ABCDEF'' ! d \<in> set ''0123456789ABCDEF''" using assms by (intro nth_mem) simp
  then show "is_hex (upper_char (digit_char d))" unfolding nth by (auto simp: is_hex_def)
  have "map digit_value ''0123456789ABCDEF'' ! d = digit_value (''0123456789ABCDEF'' ! d)" using assms by (intro nth_map) simp
  then show "digit_value (upper_char (digit_char d)) = d" unfolding nth hex_values using assms by simp
qed

lemma decimal_digit:
  assumes "d < 10"
  shows "is_digit (digit_char d)" "digit_value (digit_char d) = d"
proof -
  have nth: "digit_char d = ''0123456789'' ! d"
    using arg_cong [OF decimal_digits, of "\<lambda>l. l ! d"] assms by simp
  have "''0123456789'' ! d \<in> set ''0123456789''" using assms by (intro nth_mem) simp
  then show "is_digit (digit_char d)" unfolding nth by (simp add: is_digit_def)
  have "map digit_value ''0123456789'' ! d = digit_value (''0123456789'' ! d)" using assms by (intro nth_map) simp
  then show "digit_value (digit_char d) = d" unfolding nth decimal_values using assms by simp
qed

lemma show_nat_parses: "show_nat n \<noteq> [] \<and> list_all is_digit (show_nat n) \<and> digits_value 10 (show_nat n) = n"
proof (induction n rule: show_nat.induct)
  case (1 n)
  show ?case
  proof (cases "n < 10")
    case True
    then show ?thesis by (simp add: show_nat.simps [of n] decimal_digit digits_value_def)
  next
    case False
    then have "digits_value 10 (show_nat (n div 10)) = n div 10" "list_all is_digit (show_nat (n div 10))" using 1 by simp_all
    then show ?thesis using False by (simp add: show_nat.simps [of n] decimal_digit digits_value_def)
  qed
qed

lemma js_trim_id:
  assumes "s \<noteq> []" "\<not> is_ws (hd s)" "\<not> is_ws (last s)"
  shows "js_trim s = s"
proof -
  have "dropWhile is_ws s = s" using assms by (cases s) simp_all
  moreover have "dropWhile is_ws (rev s) = rev s" using assms by (cases s rule: rev_cases) simp_all
  ultimately show ?thesis by (simp add: js_trim_def)
qed

lemma takeWhile_digits: "list_all is_digit s \<Longrightarrow> takeWhile is_digit s = s" "list_all is_digit s \<Longrightarrow> dropWhile is_digit s = []"
  by (simp_all add: list_all_iff)

lemma digit_no_ws: "is_digit c \<Longrightarrow> \<not> is_ws c \<and> c \<noteq> CHR ''-'' \<and> c \<noteq> CHR ''+'' \<and> c \<noteq> CHR ''.''"
  by (auto simp: is_digit_def is_ws_def)

lemma lower_digit: "is_digit c \<Longrightarrow> lower_char c = c"
  by (auto simp: is_digit_def lower_char_def)

lemma not_digits: "\<not> is_digit CHR ''x''" "\<not> is_digit CHR ''o''" "\<not> is_digit CHR ''b''"
  by (simp_all add: is_digit_def)

lemma show_nat_hd_last: "is_digit (hd (show_nat n))" "is_digit (last (show_nat n))"
  using show_nat_parses [of n] by (simp_all add: list_all_iff)

lemma js_trim_show_nat: "js_trim (show_nat n) = show_nat n"
  using show_nat_parses [of n] show_nat_hd_last [of n] digit_no_ws by (intro js_trim_id) auto

lemma unsigned_literal_show_nat: "unsigned_literal (show_nat n) = Some (of_nat n)"
proof -
  have d: "takeWhile is_digit (show_nat n) = show_nat n" "dropWhile is_digit (show_nat n) = []"
    using show_nat_parses [of n] by (simp_all add: takeWhile_digits)
  show ?thesis using show_nat_parses [of n] by (simp add: unsigned_literal_def d exponent_part_def scaled_def)
qed

lemma js_number_show_nat:
  assumes "n < 2 ^ 53"
  shows "js_number (show_nat n) = Some (of_nat n)"
proof -
  have "(of_nat n :: rat) < of_nat (2 ^ 53)" using assms by (simp only: of_nat_less_iff)
  also have "(of_nat (2 ^ 53) :: rat) < 2 ^ 1024 - 2 ^ 970" by simp
  finally have fin: "js_finite (of_nat n)" by (simp add: js_finite_def)
  have "\<forall>c\<in>set (take 2 (show_nat n)). is_digit c"
    using show_nat_parses [of n] set_take_subset [of 2 "show_nat n"] by (auto simp: list_all_iff)
  then have "\<forall>c\<in>set (to_lower (take 2 (show_nat n))). is_digit c" by (auto simp: to_lower_def lower_digit)
  then have "to_lower (take 2 (show_nat n)) \<notin> {''0x'', ''0o'', ''0b''}" using not_digits by auto
  then show ?thesis
    using fin digit_no_ws [OF show_nat_hd_last(1), of n] show_nat_parses [of n]
    by (simp add: js_number_def js_trim_show_nat unsigned_literal_show_nat)
qed

lemma show_nat_inj: "show_nat m = show_nat n \<Longrightarrow> m = n"
  using show_nat_parses by metis

end
