(* ===== verification/ColorText.thy ===== *)
theory ColorText
  imports Color FileDisplay Numbers
begin

text \<open>
  Colours as text, the second half of web/src/lib/color-picker-utils.ts: how a colour is written in the
  four notations of the picker, and how typed text is read back, with the browser's own parser as the last resort.

  A browser's parser is an argument: \<open>None\<close> where there is no document or no canvas, otherwise what the
  canvas reports as fill style after being given a sentinel and then the text (\<open>None\<close> for a value that is not a string).
\<close>

section \<open>Formats\<close>

datatype color_format = Oklch | Hsl | Rgb | Hex

record parsed_color =
  pc_rgb :: rgb_color
  pc_alpha :: "rat option"
  pc_format :: "color_format option"

record color_parts =
  cp_rgb :: rgb_color
  cp_hsl :: hsl_color
  cp_oklch :: oklch_color
  cp_alpha :: rat

text \<open>\<open>value.toFixed(d)\<close> below \<open>10 ^ 21\<close>: the sign is that of the value, also for a value that rounds to zero.\<close>

definition num_to_fixed :: "rat \<Rightarrow> nat \<Rightarrow> string" where
  "num_to_fixed v d =
     (let digits = nat (js_round (\<bar>v\<bar> * 10 ^ d)) in (if v < 0 then ''-'' else []) @ show_fixed digits d)"

definition trim_end :: "char \<Rightarrow> string \<Rightarrow> string" where
  "trim_end c s = rev (dropWhile (\<lambda>x. x = c) (rev s))"

definition drop_point :: "string \<Rightarrow> string" where
  "drop_point s = (if s \<noteq> [] \<and> last s = CHR ''.'' then butlast s else s)"

definition format_number :: "rat \<Rightarrow> nat \<Rightarrow> string" where
  "format_number v maxDecimals =
     (let fixed = num_to_fixed v maxDecimals
      in if CHR ''.'' \<notin> set fixed then fixed
         else let trimmed = drop_point (trim_end (CHR ''0'') fixed)
              in if trimmed = ''-0'' then ''0'' else trimmed)"

definition byte_of :: "rat \<Rightarrow> nat" where
  "byte_of channel = nat (max 0 (min 255 (js_round channel)))"

definition to_hex_pair :: "rat \<Rightarrow> string" where
  "to_hex_pair channel = to_upper (pad_start 2 (CHR ''0'') (to_string16 (byte_of channel)))"

definition rgba_to_hex :: "rgb_color \<Rightarrow> rat \<Rightarrow> string" where
  "rgba_to_hex c alpha =
     (let base = ''#'' @ to_hex_pair (rgb_r c) @ to_hex_pair (rgb_g c) @ to_hex_pair (rgb_b c)
      in if 1 \<le> alpha then base else base @ to_hex_pair (alpha * 255))"

definition show_channel :: "rat \<Rightarrow> string" where
  "show_channel v = show_int (js_round (js_clamp v 0 255))"

definition format_color_value :: "color_format \<Rightarrow> color_parts \<Rightarrow> string" where
  "format_color_value fmt parts =
     (let rgb = cp_rgb parts; hsl = cp_hsl parts; lch = cp_oklch parts
      in case fmt of
           Hex \<Rightarrow> tl (rgba_to_hex rgb 1)
         | Rgb \<Rightarrow> show_channel (rgb_r rgb) @ '' '' @ show_channel (rgb_g rgb) @ '' '' @ show_channel (rgb_b rgb)
         | Hsl \<Rightarrow> format_number (hsl_h hsl) 1 @ [CHR 0xB0] @ '' '' @ format_number (hsl_s hsl) 1 @ ''% '' @
             format_number (hsl_l hsl) 1 @ ''%''
         | Oklch \<Rightarrow> format_number (lch_l lch * 100) 1 @ ''% '' @ format_number (lch_c lch) 3 @ '' '' @ format_number (lch_h lch) 1)"

definition format_css_color :: "color_format \<Rightarrow> color_parts \<Rightarrow> bool option \<Rightarrow> string" where
  "format_css_color fmt parts optAlpha =
     (let includeAlpha = ((case optAlpha of None \<Rightarrow> True | Some b \<Rightarrow> b) \<and> cp_alpha parts < 1);
          alphaNumber = format_number (js_clamp (cp_alpha parts) 0 1) 3;
          rgb = cp_rgb parts; hsl = cp_hsl parts; lch = cp_oklch parts
      in case fmt of
           Hex \<Rightarrow> rgba_to_hex rgb (if includeAlpha then cp_alpha parts else 1)
         | Rgb \<Rightarrow>
             (let channels = show_channel (rgb_r rgb) @ '', '' @ show_channel (rgb_g rgb) @ '', '' @ show_channel (rgb_b rgb)
              in if includeAlpha then ''rgba('' @ channels @ '', '' @ alphaNumber @ '')'' else ''rgb('' @ channels @ '')'')
         | Hsl \<Rightarrow>
             (let channels = format_number (hsl_h hsl) 2 @ '', '' @ format_number (hsl_s hsl) 2 @ ''%, '' @
                    format_number (hsl_l hsl) 2 @ ''%''
              in if includeAlpha then ''hsla('' @ channels @ '', '' @ alphaNumber @ '')'' else ''hsl('' @ channels @ '')'')
         | Oklch \<Rightarrow>
             (let channels = format_number (lch_l lch * 100) 2 @ ''% '' @ format_number (lch_c lch) 4 @ '' '' @
                    format_number (lch_h lch) 2
              in if includeAlpha then ''oklch('' @ channels @ '' / '' @ alphaNumber @ '')'' else ''oklch('' @ channels @ '')''))"

section \<open>Numbers and alpha\<close>

record numeric_token =
  nt_value :: rat
  nt_percent :: bool

text \<open>
  \<open>/^([+-]?\d*\.?\d+)(%|deg|\<degree>)?$/i\<close>, the number and the unit apart. The point belongs to the number only
  when a digit follows it.
\<close>

definition decimal_prefix :: "string \<Rightarrow> (rat \<times> string) option" where
  "decimal_prefix s =
     (let whole = takeWhile is_digit s; rest = dropWhile is_digit s
      in case rest of
           c # others \<Rightarrow>
             if c = CHR ''.'' then
               (let frac = takeWhile is_digit others
                in if frac = [] then None
                   else Some (of_nat (digits_value 10 (whole @ frac)) / 10 ^ length frac, dropWhile is_digit others))
             else if whole = [] then None else Some (of_nat (digits_value 10 whole), rest)
         | [] \<Rightarrow> if whole = [] then None else Some (of_nat (digits_value 10 whole), []))"

definition signed_prefix :: "string \<Rightarrow> (rat \<times> string) option" where
  "signed_prefix s =
     (case s of
        c # others \<Rightarrow>
          if c = CHR ''-'' then map_option (map_prod uminus id) (decimal_prefix others)
          else if c = CHR ''+'' then decimal_prefix others
          else decimal_prefix s
      | [] \<Rightarrow> None)"

text \<open>Doubles reach up to \<open>2 ^ 1024 - 2 ^ 971\<close>; what is not rounded down to that is infinite.\<close>

definition parse_numeric_token :: "string \<Rightarrow> numeric_token option" where
  "parse_numeric_token token =
     (case signed_prefix (js_trim token) of
        None \<Rightarrow> None
      | Some (value, unit) \<Rightarrow>
          if unit \<noteq> [] \<and> unit \<noteq> ''%'' \<and> to_lower unit \<noteq> ''deg'' \<and> unit \<noteq> [CHR 0xB0] then None
          else if \<not> js_finite value then None
          else Some \<lparr>nt_value = value, nt_percent = (unit = ''%'')\<rparr>)"

definition parse_alpha_token :: "string \<Rightarrow> rat option" where
  "parse_alpha_token token =
     (case parse_numeric_token token of
        None \<Rightarrow> None
      | Some p \<Rightarrow>
          Some (js_clamp (if nt_percent p \<or> 1 < nt_value p then nt_value p / 100 else nt_value p) 0 1))"

section \<open>Colours of tokens\<close>

definition rgb_from_tokens :: "numeric_token list \<Rightarrow> bool \<Rightarrow> rgb_color option" where
  "rgb_from_tokens tokens allowUnitScale =
     (if length tokens \<noteq> 3 then None
      else let scaleUnit = (allowUnitScale \<and> (\<forall>t \<in> set tokens. \<not> nt_percent t \<and> 0 \<le> nt_value t \<and> nt_value t \<le> 1));
               channels = map (\<lambda>t. if nt_percent t then nt_value t / 100 * 255
                                   else if scaleUnit then nt_value t * 255 else nt_value t) tokens
           in Some (clamp_rgb \<lparr>rgb_r = channels ! 0, rgb_g = channels ! 1, rgb_b = channels ! 2\<rparr>))"

definition hsl_from_tokens :: "numeric_token list \<Rightarrow> rgb_color option" where
  "hsl_from_tokens tokens =
     (if length tokens \<noteq> 3 then None
      else Some (hsl_to_rgb \<lparr>hsl_h = normalize_hue (nt_value (tokens ! 0)),
             hsl_s = js_clamp (nt_value (tokens ! 1)) 0 100, hsl_l = js_clamp (nt_value (tokens ! 2)) 0 100\<rparr>))"

definition oklch_from_tokens :: "js_math \<Rightarrow> numeric_token list \<Rightarrow> rgb_color option" where
  "oklch_from_tokens m tokens =
     (case tokens of
        [lt, ct, ht] \<Rightarrow>
          (let l = (if nt_percent lt \<or> 1 < nt_value lt then nt_value lt / 100 else nt_value lt);
               c = (if nt_percent ct then nt_value ct / 100 * 0.4 else nt_value ct)
           in Some (oklch_to_rgb m \<lparr>lch_l = js_clamp l 0 1, lch_c = max 0 c, lch_h = normalize_hue (nt_value ht)\<rparr>))
      | _ \<Rightarrow> None)"

text \<open>Main part and alpha; the inner \<open>None\<close> is no alpha, the outer one a malformed text.\<close>

definition split_alpha :: "string \<Rightarrow> (string \<times> rat option) option" where
  "split_alpha body =
     (let slashParts = split_char (CHR ''/'') body
      in if 2 < length slashParts then None
         else if length slashParts = 2 then
           (case parse_alpha_token (slashParts ! 1) of
              None \<Rightarrow> None
            | Some alpha \<Rightarrow> Some (slashParts ! 0, Some alpha))
         else Some (body, None))"

text \<open>Pieces between white space and commas; the empty ones, those inside a run included, are dropped.\<close>

definition is_token_sep :: "char \<Rightarrow> bool" where
  "is_token_sep c \<longleftrightarrow> is_ws c \<or> c = CHR '',''"

fun split_tokens :: "string \<Rightarrow> string list" where
  "split_tokens [] = [[]]"
| "split_tokens (c # s) =
     (if is_token_sep c then [] # split_tokens s
      else case split_tokens s of [] \<Rightarrow> [[c]] | p # ps \<Rightarrow> (c # p) # ps)"

fun parse_all :: "string list \<Rightarrow> numeric_token list option" where
  "parse_all [] = Some []"
| "parse_all (raw # others) =
     (case parse_numeric_token raw of
        None \<Rightarrow> None
      | Some t \<Rightarrow> map_option ((#) t) (parse_all others))"

definition tokenize :: "string \<Rightarrow> numeric_token list option" where
  "tokenize s = parse_all (truthy_strings (map js_trim (split_tokens s)))"

section \<open>Hexadecimal and functional notation\<close>

definition expand_hex :: "string \<Rightarrow> string option" where
  "expand_hex body =
     (if length body = 3 \<or> length body = 4 then Some (concat (map (\<lambda>c. [c, c]) body))
      else if length body = 6 \<or> length body = 8 then Some body else None)"

definition hex_color :: "string \<Rightarrow> parsed_color" where
  "hex_color expanded =
     (let channels = map (\<lambda>p. of_nat (digits_value 16 p)) (chunks 2 expanded)
      in \<lparr>pc_rgb = \<lparr>rgb_r = channels ! 0, rgb_g = channels ! 1, rgb_b = channels ! 2\<rparr>,
          pc_alpha = (if length channels = 4 then Some (channels ! 3 / 255) else None), pc_format = Some Hex\<rparr>)"

definition parse_hex_body :: "string \<Rightarrow> parsed_color option" where
  "parse_hex_body raw =
     (let body = (if starts_with raw ''#'' then tl raw else raw)
      in if body = [] \<or> \<not> list_all is_hex body then None else map_option hex_color (expand_hex body))"

definition component_tokens :: "numeric_token list \<Rightarrow> rat option \<Rightarrow> numeric_token list \<times> rat option" where
  "component_tokens tokens alpha =
     (if length tokens = 4 \<and> alpha = None
      then (take 3 tokens,
            Some (js_clamp (if nt_percent (tokens ! 3) then nt_value (tokens ! 3) / 100 else nt_value (tokens ! 3)) 0 1))
      else (tokens, alpha))"

definition functional_color :: "js_math \<Rightarrow> string \<Rightarrow> numeric_token list \<Rightarrow> rgb_color option \<times> color_format option" where
  "functional_color m name tokens =
     (if name = ''rgb'' \<or> name = ''rgba'' then (rgb_from_tokens tokens False, Some Rgb)
      else if name = ''hsl'' \<or> name = ''hsla'' then (hsl_from_tokens tokens, Some Hsl)
      else if name = ''oklch'' then (oklch_from_tokens m tokens, Some Oklch)
      else (None, None))"

definition parse_functional :: "js_math \<Rightarrow> string \<Rightarrow> string \<Rightarrow> parsed_color option" where
  "parse_functional m name body =
     (case split_alpha body of
        None \<Rightarrow> None
      | Some (main, slashAlpha) \<Rightarrow>
          (case tokenize main of
             None \<Rightarrow> None
           | Some tokens \<Rightarrow>
               (let (componentTokens, alpha) = component_tokens tokens slashAlpha;
                    (rgb, fmt) = functional_color m name componentTokens
                in map_option (\<lambda>c. \<lparr>pc_rgb = c, pc_alpha = alpha, pc_format = fmt\<rparr>) rgb)))"

text \<open>
  \<open>/^([a-z]+)\(\s*(.+?)\s*\)$/i\<close> as name and body. The body is what the parentheses hold without the white space
  around it; it has no line break. Between parentheses that hold white space only, the group takes the last character
  that is no line break.
\<close>

definition is_letter :: "char \<Rightarrow> bool" where
  "is_letter c \<longleftrightarrow> (let n = of_char (lower_char c) :: nat in 97 \<le> n \<and> n \<le> 122)"

definition is_line_break :: "char \<Rightarrow> bool" where
  "is_line_break c \<longleftrightarrow> c \<in> {CHR 0x0A, CHR 0x0D}"

definition functional_body :: "string \<Rightarrow> string option" where
  "functional_body inner =
     (let body = js_trim inner; spaces = filter (\<lambda>c. \<not> is_line_break c) inner
      in if body \<noteq> [] then (if list_ex is_line_break body then None else Some body)
         else if spaces \<noteq> [] then Some [last spaces] else None)"

definition functional_match :: "string \<Rightarrow> (string \<times> string) option" where
  "functional_match raw =
     (let name = takeWhile is_letter raw; rest = dropWhile is_letter raw
      in if name \<noteq> [] \<and> rest \<noteq> [] \<and> hd rest = CHR ''('' \<and> 1 < length rest \<and> last rest = CHR '')''
         then map_option (Pair name) (functional_body (butlast (tl rest))) else None)"

section \<open>Parsing\<close>

type_synonym canvas = "(string \<Rightarrow> string \<Rightarrow> string option) option"

definition sentinels :: "string list" where
  "sentinels = [''#010203'', ''#030201'']"

fun normalize_with :: "(string \<Rightarrow> string \<Rightarrow> string option) \<Rightarrow> string \<Rightarrow> string list \<Rightarrow> string option \<Rightarrow> string option" where
  "normalize_with fill raw [] normalized = normalized"
| "normalize_with fill raw (sentinel # others) normalized =
     (case fill sentinel raw of
        None \<Rightarrow> None
      | Some result \<Rightarrow> if result = sentinel then None else normalize_with fill raw others (Some result))"

definition parse_with_browser :: "js_math \<Rightarrow> canvas \<Rightarrow> string \<Rightarrow> parsed_color option" where
  "parse_with_browser m canvas raw =
     (case canvas of
        None \<Rightarrow> None
      | Some fill \<Rightarrow>
          (case normalize_with fill raw sentinels None of
             None \<Rightarrow> None
           | Some normalized \<Rightarrow>
               if normalized = [] then None
               else if starts_with normalized ''#'' then
                 map_option (\<lambda>hex. hex\<lparr>pc_format := None\<rparr>) (parse_hex_body normalized)
               else (case functional_match normalized of
                       Some (name, body) \<Rightarrow>
                         if to_lower name \<in> {''rgb'', ''rgba''}
                         then map_option (\<lambda>p. p\<lparr>pc_format := None\<rparr>) (parse_functional m (to_lower name) body)
                         else None
                     | None \<Rightarrow> None)))"

definition parse_tokens :: "js_math \<Rightarrow> color_format \<Rightarrow> numeric_token list \<Rightarrow> rgb_color option" where
  "parse_tokens m assumeFormat tokens =
     (if assumeFormat = Hsl then hsl_from_tokens tokens
      else if assumeFormat = Oklch then oklch_from_tokens m tokens
      else rgb_from_tokens tokens True)"

definition is_hex_text :: "string \<Rightarrow> bool" where
  "is_hex_text s \<longleftrightarrow>
     (let body = (if starts_with s ''#'' then tl s else s) in list_all is_hex body \<and> 3 \<le> length body \<and> length body \<le> 8)"

definition parse_bare :: "js_math \<Rightarrow> color_format \<Rightarrow> string \<Rightarrow> rat option \<Rightarrow> parsed_color option" where
  "parse_bare m assumeFormat main alpha =
     (case (if is_hex_text main then parse_hex_body main else None) of
        Some hex \<Rightarrow>
          Some \<lparr>pc_rgb = pc_rgb hex, pc_alpha = (case alpha of None \<Rightarrow> pc_alpha hex | Some a \<Rightarrow> Some a), pc_format = Some Hex\<rparr>
      | None \<Rightarrow>
          (case tokenize main of
             None \<Rightarrow> None
           | Some tokens \<Rightarrow>
               if length tokens = 3
               then map_option (\<lambda>rgb. \<lparr>pc_rgb = rgb, pc_alpha = alpha, pc_format = None\<rparr>) (parse_tokens m assumeFormat tokens)
               else None))"

definition parse_color_input :: "js_math \<Rightarrow> canvas \<Rightarrow> string \<Rightarrow> color_format \<Rightarrow> parsed_color option" where
  "parse_color_input m canvas input assumeFormat =
     (let raw = js_trim input
      in if raw = [] then None
         else case functional_match raw of
                Some (name, body) \<Rightarrow>
                  if to_lower name \<in> {''rgb'', ''rgba'', ''hsl'', ''hsla'', ''oklch''}
                  then parse_functional m (to_lower name) body
                  else parse_with_browser m canvas raw
              | None \<Rightarrow>
                  (case (case split_alpha raw of
                           None \<Rightarrow> None
                         | Some (main, alpha) \<Rightarrow> parse_bare m assumeFormat (js_trim main) alpha) of
                     Some parsed \<Rightarrow> Some parsed
                   | None \<Rightarrow> parse_with_browser m canvas raw))"

definition rgb_tuple_to_hex :: "rat \<times> rat \<times> rat \<Rightarrow> string" where
  "rgb_tuple_to_hex t = (let (r, g, b) = t in rgba_to_hex \<lparr>rgb_r = r, rgb_g = g, rgb_b = b\<rparr> 1)"

definition hex_to_rgb_tuple :: "js_math \<Rightarrow> canvas \<Rightarrow> string \<Rightarrow> (int \<times> int \<times> int) option" where
  "hex_to_rgb_tuple m canvas value =
     map_option (\<lambda>p. (js_round (rgb_r (pc_rgb p)), js_round (rgb_g (pc_rgb p)), js_round (rgb_b (pc_rgb p))))
       (parse_color_input m canvas value Hex)"

section \<open>What a written colour is made of\<close>

definition byte_pair :: "nat \<Rightarrow> string" where
  "byte_pair n = to_upper (pad_start 2 (CHR ''0'') (to_string16 n))"

lemma byte_pair_digits:
  assumes "n \<le> 255"
  shows "byte_pair n = [upper_char (digit_char (n div 16)), upper_char (digit_char (n mod 16))]"
  using assms by (simp add: byte_pair_def to_string16_byte to_upper_def hex_digit_def)

lemma byte_pair_parses:
  assumes "n \<le> 255"
  shows "length (byte_pair n) = 2" "list_all is_hex (byte_pair n)" "digits_value 16 (byte_pair n) = n"
proof -
  have d: "n div 16 < 16" "n mod 16 < 16" using assms by linarith+
  show "length (byte_pair n) = 2" "list_all is_hex (byte_pair n)" using d assms by (simp_all add: byte_pair_digits hex_digit_char)
  show "digits_value 16 (byte_pair n) = n" using d assms by (simp add: byte_pair_digits hex_digit_char digits_value_def)
qed

lemma byte_of_le: "byte_of v \<le> 255"
  by (simp add: byte_of_def)

lemma to_hex_pair_byte: "to_hex_pair v = byte_pair (byte_of v)"
  by (simp add: to_hex_pair_def byte_pair_def)

lemma hex_plain:
  assumes "is_hex c"
  shows "\<not> is_ws c" "c \<noteq> CHR ''/''" "c \<noteq> CHR ''#''"
  using assms by (auto simp: is_hex_def is_ws_def)

lemma digit_plain:
  assumes "is_digit c"
  shows "\<not> is_ws c" "c \<noteq> CHR ''/''" "c \<noteq> CHR ''#''" "c \<noteq> CHR '',''" "c \<noteq> CHR ''.''" "c \<noteq> CHR ''-''" "c \<noteq> CHR ''+''" "\<not> is_letter c"
  using assms by (auto simp: is_digit_def is_ws_def is_letter_def lower_char_def)

lemma functional_match_none: "raw \<noteq> [] \<Longrightarrow> \<not> is_letter (hd raw) \<Longrightarrow> functional_match raw = None"
  by (cases raw) (simp_all add: functional_match_def)

lemma split_alpha_none: "CHR ''/'' \<notin> set raw \<Longrightarrow> split_alpha raw = Some (raw, None)"
  using split_char_one [of "CHR ''/''" raw raw] by (simp add: split_alpha_def)

section \<open>Hexadecimal text\<close>

definition rounded_rgb :: "rgb_color \<Rightarrow> rgb_color" where
  "rounded_rgb c = \<lparr>rgb_r = of_nat (byte_of (rgb_r c)), rgb_g = of_nat (byte_of (rgb_g c)), rgb_b = of_nat (byte_of (rgb_b c))\<rparr>"

lemma byte_pairs_text:
  assumes "\<forall>n \<in> set ns. n \<le> 255"
  shows "length (concat (map byte_pair ns)) = 2 * length ns" "list_all is_hex (concat (map byte_pair ns))"
proof -
  show "length (concat (map byte_pair ns)) = 2 * length ns" using assms by (induction ns) (simp_all add: byte_pair_parses)
  show "list_all is_hex (concat (map byte_pair ns))" using assms byte_pair_parses(2) by (auto simp: list_all_iff)
qed

lemma parse_hex_pairs:
  assumes "\<forall>n \<in> set ns. n \<le> 255" "length ns = 3 \<or> length ns = 4"
  shows "parse_hex_body (CHR ''#'' # concat (map byte_pair ns)) =
    Some \<lparr>pc_rgb = \<lparr>rgb_r = of_nat (ns ! 0), rgb_g = of_nat (ns ! 1), rgb_b = of_nat (ns ! 2)\<rparr>,
          pc_alpha = (if length ns = 4 then Some (of_nat (ns ! 3) / 255) else None), pc_format = Some Hex\<rparr>"
proof -
  define digits where "digits = concat (map byte_pair ns)"
  note len = byte_pairs_text(1) [OF assms(1), folded digits_def] and hex = byte_pairs_text(2) [OF assms(1), folded digits_def]
  have parts: "chunks 2 digits = map byte_pair ns"
    unfolding digits_def using assms(1)
    by (induction ns) (simp_all add: byte_pair_parses chunks_Cons byte_pair_digits)
  have channels: "map (\<lambda>p. of_nat (digits_value 16 p)) (chunks 2 digits) = (map of_nat ns :: rat list)"
    unfolding parts using assms(1) by (induction ns) (simp_all add: byte_pair_parses)
  have count: "length (chunks 2 digits) = length ns" by (simp add: parts)
  have ne: "digits \<noteq> []" using len assms(2) by auto
  have start: "starts_with (CHR ''#'' # digits) ''#''" by (simp add: starts_with_def)
  have nths: "map of_nat ns ! i = (of_nat (ns ! i) :: rat)" if "i < 3" for i using assms(2) that by (intro nth_map) linarith
  have four: "map of_nat ns ! 3 = (of_nat (ns ! 3) :: rat)" if "length ns = 4" using that by simp
  consider "length digits = 6" "length ns = 3" | "length digits = 8" "length ns = 4" using len assms(2) by linarith
  then show ?thesis
  proof cases
    case 1
    then show ?thesis using ne hex start by (simp add: parse_hex_body_def expand_hex_def hex_color_def Let_def channels count nths flip: digits_def)
  next
    case 2
    then show ?thesis using ne hex start by (simp add: parse_hex_body_def expand_hex_def hex_color_def Let_def channels count nths four flip: digits_def)
  qed
qed

lemma hex_text_parses:
  assumes "\<forall>n \<in> set ns. n \<le> 255" "length ns = 3 \<or> length ns = 4"
  shows "parse_color_input m canvas (CHR ''#'' # concat (map byte_pair ns)) fmt =
    Some \<lparr>pc_rgb = \<lparr>rgb_r = of_nat (ns ! 0), rgb_g = of_nat (ns ! 1), rgb_b = of_nat (ns ! 2)\<rparr>,
          pc_alpha = (if length ns = 4 then Some (of_nat (ns ! 3) / 255) else None), pc_format = Some Hex\<rparr>"
proof -
  define digits where "digits = concat (map byte_pair ns)"
  note len = byte_pairs_text(1) [OF assms(1), folded digits_def] and hex = byte_pairs_text(2) [OF assms(1), folded digits_def]
  have ne: "digits \<noteq> []" using len assms(2) by auto
  then have "is_hex (last digits)" using hex by (simp add: list_all_iff)
  then have trim: "js_trim (CHR ''#'' # digits) = CHR ''#'' # digits"
    using ne by (intro js_trim_id) (simp_all add: hex_plain, simp add: is_ws_def)
  have match: "functional_match (CHR ''#'' # digits) = None"
    by (rule functional_match_none) (simp_all add: is_letter_def lower_char_def)
  have "CHR ''/'' \<notin> set digits" using hex hex_plain(2) by (auto simp: list_all_iff)
  then have split: "split_alpha (CHR ''#'' # digits) = Some (CHR ''#'' # digits, None)" by (simp add: split_alpha_none)
  have hexed: "is_hex_text (CHR ''#'' # digits)" using hex len assms(2) by (auto simp: is_hex_text_def starts_with_def)
  show ?thesis
    unfolding parse_color_input_def parse_bare_def digits_def [symmetric] Let_def trim match
    using parse_hex_pairs [OF assms] by (simp add: split trim hexed flip: digits_def)
qed

lemma hex_text_read_back:
  "parse_color_input m canvas (rgba_to_hex c alpha) fmt =
     Some \<lparr>pc_rgb = rounded_rgb c, pc_alpha = (if 1 \<le> alpha then None else Some (of_nat (byte_of (alpha * 255)) / 255)),
          pc_format = Some Hex\<rparr>"
  using hex_text_parses [of "[byte_of (rgb_r c), byte_of (rgb_g c), byte_of (rgb_b c)]" m canvas fmt]
    hex_text_parses [of "[byte_of (rgb_r c), byte_of (rgb_g c), byte_of (rgb_b c), byte_of (alpha * 255)]" m canvas fmt]
  by (simp add: rgba_to_hex_def to_hex_pair_byte byte_of_le rounded_rgb_def)


text \<open>
  C39: A colour written as hexadecimal text is read back as its channels rounded to bytes, with the alpha byte exactly
  when it was written; the format of the field and the browser do not matter.
\<close>
theorem hex_roundtrip:
  "parse_color_input m canvas (rgba_to_hex c alpha) fmt =
     Some \<lparr>pc_rgb = rounded_rgb c, pc_alpha = (if 1 \<le> alpha then None else Some (of_nat (byte_of (alpha * 255)) / 255)),
          pc_format = Some Hex\<rparr>"
  by (rule hex_text_read_back)

section \<open>Channels in decimal\<close>

lemma parse_digits:
  assumes "n \<le> 255"
  shows "parse_numeric_token (show_nat n) = Some \<lparr>nt_value = of_nat n, nt_percent = False\<rparr>" and "js_trim (show_nat n) = show_nat n"
proof -
  note p = show_nat_parses [of n]
  then have d: "is_digit (hd (show_nat n))" "is_digit (last (show_nat n))" by (simp_all add: list_all_iff)
  then show trim: "js_trim (show_nat n) = show_nat n" using p by (intro js_trim_id) (simp_all add: digit_plain)
  have dec: "decimal_prefix (show_nat n) = Some (of_nat n, [])"
    using p by (simp add: decimal_prefix_def takeWhile_digits)
  have "signed_prefix (show_nat n) = Some (of_nat n, [])"
    using p d(1) dec digit_plain [of "hd (show_nat n)"] by (cases "show_nat n") (simp_all add: signed_prefix_def)
  moreover have "js_finite (of_nat n)"
  proof -
    have "(of_nat n :: rat) \<le> of_nat 255" using assms by (simp only: of_nat_le_iff)
    then show ?thesis by (simp add: js_finite_def)
  qed
  ultimately show "parse_numeric_token (show_nat n) = Some \<lparr>nt_value = of_nat n, nt_percent = False\<rparr>"
    by (simp add: parse_numeric_token_def trim)
qed

lemma token_sep_chars: "is_token_sep (CHR '' '')" "is_digit c \<Longrightarrow> \<not> is_token_sep c"
  by (simp_all add: is_token_sep_def digit_plain) (simp add: is_ws_def)

lemma split_tokens_plain: "list_all is_digit s \<Longrightarrow> split_tokens s = [s]"
  by (induction s) (simp_all add: token_sep_chars)

lemma split_tokens_word: "list_all is_digit s \<Longrightarrow> split_tokens (s @ CHR '' '' # t) = s # split_tokens t"
  by (induction s) (simp_all add: token_sep_chars)

definition channel_text :: "nat list \<Rightarrow> string" where
  "channel_text ns = js_join '' '' (map show_nat ns)"

lemma channel_text_three: "channel_text [r, g, b] = show_nat r @ CHR '' '' # show_nat g @ CHR '' '' # show_nat b"
  by (simp add: channel_text_def)

lemma tokenize_channels:
  assumes "r \<le> 255" "g \<le> 255" "b \<le> 255"
  shows "tokenize (channel_text [r, g, b]) =
    Some [\<lparr>nt_value = of_nat r, nt_percent = False\<rparr>, \<lparr>nt_value = of_nat g, nt_percent = False\<rparr>, \<lparr>nt_value = of_nat b, nt_percent = False\<rparr>]"
  using assms show_nat_parses
  by (simp add: tokenize_def channel_text_three split_tokens_word split_tokens_plain parse_digits truthy_strings_def)

lemma parse_channel_text:
  assumes "r \<le> 255" "g \<le> 255" "b \<le> 255"
  shows "parse_color_input m canvas (channel_text [r, g, b]) Rgb =
    Some \<lparr>pc_rgb = (if r \<le> 1 \<and> g \<le> 1 \<and> b \<le> 1 then \<lparr>rgb_r = of_nat r * 255, rgb_g = of_nat g * 255, rgb_b = of_nat b * 255\<rparr>
                     else \<lparr>rgb_r = of_nat r, rgb_g = of_nat g, rgb_b = of_nat b\<rparr>), pc_alpha = None, pc_format = None\<rparr>"
proof -
  define raw where "raw = channel_text [r, g, b]"
  have d: "is_digit (hd raw)" "is_digit (last raw)" "raw \<noteq> []"
    using show_nat_parses [of r] show_nat_parses [of b] by (simp_all add: raw_def channel_text_three list_all_iff)
  have trim: "js_trim raw = raw" using d by (intro js_trim_id) (simp_all add: digit_plain)
  have match: "functional_match raw = None" using d by (intro functional_match_none) (simp_all add: digit_plain)
  have all: "c \<in> set raw \<Longrightarrow> is_digit c \<or> c = CHR '' ''" for c
    using show_nat_parses by (auto simp: raw_def channel_text_three list_all_iff)
  then have "CHR ''/'' \<notin> set raw" using digit_plain(2) by fastforce
  then have split: "split_alpha raw = Some (raw, None)" by (rule split_alpha_none)
  have "hd raw \<noteq> CHR ''#''" using d digit_plain(3) by blast
  then have "\<not> starts_with raw ''#''" using d(3) by (cases raw) (auto simp: starts_with_def)
  moreover have "\<not> is_hex (CHR '' '')" by (simp add: is_hex_def)
  moreover have "CHR '' '' \<in> set raw" by (simp add: raw_def channel_text_three)
  ultimately have hexed: "\<not> is_hex_text raw" by (auto simp: is_hex_text_def list_all_iff)
  have le: "(of_nat n :: rat) \<le> 255" if "n \<le> 255" for n using of_nat_mono [OF that, where ?'a = rat] by simp
  have one: "(of_nat n :: rat) \<le> 1 \<longleftrightarrow> n \<le> 1" for n by (metis of_nat_1 of_nat_le_iff)
  note tok = tokenize_channels [OF assms, folded raw_def]
  have "parse_bare m Rgb raw None =
    Some \<lparr>pc_rgb = (if r \<le> 1 \<and> g \<le> 1 \<and> b \<le> 1 then \<lparr>rgb_r = of_nat r * 255, rgb_g = of_nat g * 255, rgb_b = of_nat b * 255\<rparr>
                     else \<lparr>rgb_r = of_nat r, rgb_g = of_nat g, rgb_b = of_nat b\<rparr>), pc_alpha = None, pc_format = None\<rparr>"
    unfolding parse_bare_def using hexed tok le assms
    by (auto simp: parse_tokens_def rgb_from_tokens_def clamp_rgb_def Let_def one)
  then show ?thesis
    unfolding parse_color_input_def raw_def [symmetric] Let_def trim match by (simp add: split trim d(3))
qed

lemma show_channel_byte: "show_channel v = show_nat (byte_of v)"
proof -
  have "js_round (js_clamp v 0 255) = int (byte_of v)"
  proof -
    consider "v \<le> 0" | "255 \<le> v" | "0 < v" "v < 255" by linarith
    then show ?thesis
    proof cases
      case 3
      then have "0 \<le> js_round v" "js_round v \<le> 255" unfolding js_round_def by linarith+
      then show ?thesis using 3 by (simp add: byte_of_def)
    qed (simp_all add: byte_of_def js_clamp_def js_round_def, linarith+)
  qed
  then show ?thesis by (simp add: show_channel_def show_int_def)
qed

text \<open>
  What the colour field shows in the RGB format is read back as the rounded channels, except for a colour whose
  channels are all 0 or 1: each 1 comes back as 255, since such numbers are taken for fractions.
\<close>
theorem rgb_text_roundtrip:
  "parse_color_input m canvas (format_color_value Rgb parts) Rgb =
     Some \<lparr>pc_rgb = (let c = rounded_rgb (cp_rgb parts)
                     in if rgb_r c \<le> 1 \<and> rgb_g c \<le> 1 \<and> rgb_b c \<le> 1
                        then \<lparr>rgb_r = rgb_r c * 255, rgb_g = rgb_g c * 255, rgb_b = rgb_b c * 255\<rparr> else c),
          pc_alpha = None, pc_format = None\<rparr>"
proof -
  have one: "(of_nat n :: rat) \<le> 1 \<longleftrightarrow> n \<le> 1" for n by (metis of_nat_1 of_nat_le_iff)
  show ?thesis
    using parse_channel_text [OF byte_of_le byte_of_le byte_of_le, of m canvas "rgb_r (cp_rgb parts)" "rgb_g (cp_rgb parts)" "rgb_b (cp_rgb parts)"]
    by (simp add: format_color_value_def show_channel_byte channel_text_three rounded_rgb_def one Let_def)
qed

section \<open>Ranges of what is parsed\<close>

lemma unit_product:
  fixes v x :: rat
  assumes "0 \<le> v" "v \<le> 1" "0 \<le> x" "x \<le> 1"
  shows "0 \<le> v * (1 - x) * 255" "v * (1 - x) * 255 \<le> 255"
proof -
  show "0 \<le> v * (1 - x) * 255" using assms by simp
  have "v * (1 - x) \<le> 1" using assms by (intro mult_le_one) simp_all
  then show "v * (1 - x) * 255 \<le> 255" by linarith
qed

lemma hsv_to_rgb_in_range: "in_rgb (hsv_to_rgb c)"
proof -
  define s where "s = js_clamp (hsv_s c) 0 100 / 100"
  define v where "v = js_clamp (hsv_v c) 0 100 / 100"
  define hue where "hue = normalize_hue (hsv_h c) / 60"
  define f where "f = hue - of_int \<lfloor>hue\<rfloor>"
  have s: "0 \<le> s" "s \<le> 1" and v: "0 \<le> v" "v \<le> 1" by (simp_all add: s_def v_def js_clamp_bounds)
  have f: "0 \<le> f" "f \<le> 1" unfolding f_def by linarith+
  have fs: "0 \<le> f * s" "f * s \<le> 1" "0 \<le> (1 - f) * s" "(1 - f) * s \<le> 1" using f s by (simp_all add: mult_le_one)
  note bounds = unit_product [OF v s] unit_product [OF v fs(1, 2)] unit_product [OF v fs(3, 4)]
  show ?thesis
    unfolding hsv_to_rgb_def Let_def s_def [symmetric] v_def [symmetric] hue_def [symmetric] f_def [symmetric] hsv_pick_def
    using bounds v by (simp add: in_rgb_def)
qed

lemma rgb_from_tokens_range: "rgb_from_tokens ts b = Some c \<Longrightarrow> in_rgb c"
  by (auto simp: rgb_from_tokens_def Let_def split: if_splits)

lemma hsl_from_tokens_range: "hsl_from_tokens ts = Some c \<Longrightarrow> in_rgb c"
  by (auto simp: hsl_from_tokens_def hsl_to_rgb_def hsv_to_rgb_in_range split: if_splits)

lemma oklch_from_tokens_range: "oklch_from_tokens m ts = Some c \<Longrightarrow> in_rgb c"
  by (auto simp: oklch_from_tokens_def Let_def gamut_mapped_in_range split: list.splits)

lemma hex_digit_le: "is_hex c \<Longrightarrow> digit_value c \<le> 15"
  by (auto simp: is_hex_def digit_value_def)

lemma digits_value_pair:
  assumes "list_all is_hex p" "length p \<le> 2"
  shows "digits_value 16 p \<le> 255"
proof -
  consider "p = []" | a where "p = [a]" | a b where "p = [a, b]" using assms(2) by (cases p rule: remdups_adj.cases) auto
  then show ?thesis
  proof cases
    case (3 a b)
    then show ?thesis using assms(1) hex_digit_le [of a] hex_digit_le [of b] by (simp add: digits_value_def)
  qed (use assms(1) hex_digit_le in \<open>force simp: digits_value_def\<close>)+
qed

definition parsed_ok :: "parsed_color \<Rightarrow> bool" where
  "parsed_ok p \<longleftrightarrow> in_rgb (pc_rgb p) \<and> (\<forall>a \<in> set_option (pc_alpha p). 0 \<le> a \<and> a \<le> 1)"

lemma expand_hex_digits:
  assumes "list_all is_hex body" "expand_hex body = Some digits"
  shows "list_all is_hex digits" "length digits = 6 \<or> length digits = 8"
proof -
  have "length (concat (map (\<lambda>c. [c, c]) body)) = 2 * length body" by (induction body) simp_all
  then show "list_all is_hex digits" "length digits = 6 \<or> length digits = 8"
    using assms by (auto simp: expand_hex_def list_all_iff split: if_splits)
qed

lemma parse_hex_range:
  assumes "parse_hex_body raw = Some p"
  shows "parsed_ok p"
proof -
  obtain body digits where "list_all is_hex body" "expand_hex body = Some digits" and p: "p = hex_color digits"
    using assms by (auto simp: parse_hex_body_def Let_def split: if_splits)
  note digits = expand_hex_digits [OF this(1, 2)]
  have count: "length (chunks 2 digits) = 3 \<or> length (chunks 2 digits) = 4" using digits(2) by (auto simp: length_chunks)
  have "digits_value 16 x \<le> 255" if "x \<in> set (chunks 2 digits)" for x
  proof (rule digits_value_pair)
    show "length x \<le> 2" using chunks_sizes [of 2 x digits] that by simp
    have "set x \<subseteq> \<Union> (set ` set (chunks 2 digits))" using that by blast
    also have "\<dots> = set digits" by (metis concat_chunks set_concat zero_less_numeral)
    finally have "set x \<subseteq> set digits" .
    then show "list_all is_hex x" using digits(1) by (auto simp: list_all_iff)
  qed
  then have le: "(of_nat (digits_value 16 (chunks 2 digits ! i)) :: rat) \<le> 255" if "i < length (chunks 2 digits)" for i
    using of_nat_mono [of "digits_value 16 (chunks 2 digits ! i)" 255, where ?'a = rat] nth_mem [OF that] by simp
  then show ?thesis using count by (auto simp: p hex_color_def parsed_ok_def in_rgb_def Let_def)
qed

lemma parse_alpha_range: "parse_alpha_token s = Some a \<Longrightarrow> 0 \<le> a \<and> a \<le> 1"
  by (auto simp: parse_alpha_token_def js_clamp_bounds split: option.splits)

lemma split_alpha_range: "split_alpha s = Some (main, Some a) \<Longrightarrow> 0 \<le> a \<and> a \<le> 1"
  using parse_alpha_range by (auto simp: split_alpha_def Let_def split: if_splits option.splits)

lemma functional_color_range: "functional_color m name tokens = (Some c, fmt) \<Longrightarrow> in_rgb c"
  by (auto simp: functional_color_def split: if_splits
      dest: rgb_from_tokens_range hsl_from_tokens_range oklch_from_tokens_range)

lemma component_alpha_range:
  "component_tokens tokens slash = (parts, Some a) \<Longrightarrow> (\<And>x. slash = Some x \<Longrightarrow> 0 \<le> x \<and> x \<le> 1) \<Longrightarrow> 0 \<le> a \<and> a \<le> 1"
  by (auto simp: component_tokens_def js_clamp_bounds split: if_splits)

lemma parse_functional_range:
  assumes "parse_functional m name body = Some p"
  shows "parsed_ok p"
proof -
  obtain main slash tokens where parts: "split_alpha body = Some (main, slash)" "tokenize main = Some tokens"
    using assms by (auto simp: parse_functional_def split: option.splits)
  obtain comps alpha where comps: "component_tokens tokens slash = (comps, alpha)" by fastforce
  obtain rgb fmt where rgb: "functional_color m name comps = (rgb, fmt)" by fastforce
  have "set_option alpha \<subseteq> {a. 0 \<le> a \<and> a \<le> 1}"
  proof (cases alpha)
    case (Some a)
    show ?thesis using component_alpha_range [OF comps [unfolded Some]] split_alpha_range parts(1) Some by auto
  qed simp
  moreover have "rgb = Some (pc_rgb p)" "pc_alpha p = alpha"
    using assms by (auto simp: parse_functional_def parts comps rgb)
  ultimately show ?thesis using functional_color_range rgb by (auto simp: parsed_ok_def)
qed

lemma parsed_ok_format [simp]: "parsed_ok (q\<lparr>pc_format := fmt\<rparr>) = parsed_ok q"
  by (simp add: parsed_ok_def)

lemma parse_with_browser_range: "parse_with_browser m canvas raw = Some p \<Longrightarrow> parsed_ok p"
  by (auto simp: parse_with_browser_def split: option.splits if_splits intro: parse_hex_range)
    (rule parse_functional_range, assumption)+

lemma parse_bare_range:
  assumes "parse_bare m fmt main alpha = Some p" "\<And>a. alpha = Some a \<Longrightarrow> 0 \<le> a \<and> a \<le> 1"
  shows "parsed_ok p"
proof (cases "if is_hex_text main then parse_hex_body main else None")
  case (Some hex)
  then have "parsed_ok hex" by (auto split: if_splits dest: parse_hex_range)
  then show ?thesis using assms Some by (auto simp: parse_bare_def parsed_ok_def split: option.splits)
next
  case None
  then obtain tokens rgb where "parse_tokens m fmt tokens = Some rgb" "pc_rgb p = rgb" "pc_alpha p = alpha"
    using assms(1) by (auto simp: parse_bare_def split: option.splits if_splits)
  then show ?thesis
    using assms(2) by (auto simp: parsed_ok_def parse_tokens_def split: if_splits
        dest: rgb_from_tokens_range hsl_from_tokens_range oklch_from_tokens_range)
qed

text \<open>
  Whatever the text, the format assumed and the answers of the browser, a colour that is parsed has channels between
  0 and 255 and, when it has an alpha, one between 0 and 1.
\<close>
theorem parsed_color_in_range:
  "parse_color_input m canvas input fmt = Some p \<Longrightarrow>
     in_rgb (pc_rgb p) \<and> (\<forall>a \<in> set_option (pc_alpha p). 0 \<le> a \<and> a \<le> 1)"
  unfolding parsed_ok_def [symmetric]
  using split_alpha_range
  by (auto simp: parse_color_input_def Let_def split: if_splits option.splits
      intro: parse_functional_range parse_with_browser_range parse_bare_range)

theorem parsed_color_in_range_witness:
  "in_rgb \<lparr>rgb_r = 10, rgb_g = 0, rgb_b = 255\<rparr> \<and> (\<forall>a \<in> set_option (Some (128 / 255)). 0 \<le> a \<and> a \<le> (1 :: rat))"
  using parsed_color_in_range [OF hex_text_parses [of "[10, 0, 255, 128]" coarse_math None Hex]]
  by simp

end
