(* ===== verification/ColorPicker.thy ===== *)
theory ColorPicker
  imports ColorText
begin

text \<open>
  The colour picker of the document editors, web/src/components/extend/document-color-picker.tsx: the draft of a
  text field, the alpha scrubber, the plane and the sliders, and the picker itself, a controlled component that has to
  tell the echo of its own changes from a new value.

  A render is a function of the props and the state; the state set while rendering is part of its result. Layout and
  colours of the markup are left out.
\<close>

section \<open>Text fields\<close>

datatype draft_event = DraftFocus string | DraftChange string | DraftBlur | DraftEnter | DraftEscape | DraftStep int bool

datatype draft_call = CommitText string | StepBy int bool

text \<open>The draft of a field that shows \<open>value\<close>, and what a field is asked to do; \<open>None\<close> while there is no draft.\<close>

definition commit_draft :: "string \<Rightarrow> string option \<Rightarrow> draft_call list" where
  "commit_draft value draft =
     (case draft of None \<Rightarrow> [] | Some t \<Rightarrow> if js_trim t \<noteq> value then [CommitText t] else [])"

fun draft_step :: "string \<Rightarrow> string option \<Rightarrow> draft_event \<Rightarrow> string option \<times> draft_call list" where
  "draft_step value draft (DraftFocus shown) = (Some shown, [])"
| "draft_step value draft (DraftChange t) = (Some t, [])"
| "draft_step value draft DraftBlur = (None, commit_draft value draft)"
| "draft_step value draft DraftEnter = (None, commit_draft value draft)"
| "draft_step value draft DraftEscape = (None, [])"
| "draft_step value draft (DraftStep direction big) = (None, [StepBy direction big])"

definition draft_shown :: "string \<Rightarrow> string option \<Rightarrow> string" where
  "draft_shown value draft = (case draft of None \<Rightarrow> value | Some t \<Rightarrow> t)"

definition parse_channel_text :: "string \<Rightarrow> rat option" where
  "parse_channel_text s =
     (case parse_float (js_trim (filter (\<lambda>c. c \<noteq> CHR ''%'' \<and> c \<noteq> CHR 0xB0) s)) of
        None \<Rightarrow> None
      | Some v \<Rightarrow> if js_finite v then Some v else None)"

section \<open>The opacity field\<close>

record scrub =
  startX :: rat
  startPercent :: rat
  scrubbed :: bool

datatype scrub_event = ScrubDown rat | ScrubMove rat bool | ScrubUp | ScrubCancel

datatype scrub_call = CommitPercent rat | FocusInput

text \<open>A press is ignored while the field is disabled or its input has the focus.\<close>

fun scrub_step :: "bool \<Rightarrow> bool \<Rightarrow> rat \<Rightarrow> scrub option \<Rightarrow> scrub_event \<Rightarrow> scrub option \<times> scrub_call list" where
  "scrub_step disabled focused alphaPercent st (ScrubDown x) =
     (if disabled \<or> focused then (st, [])
      else (Some \<lparr>startX = x, startPercent = alphaPercent, scrubbed = False\<rparr>, []))"
| "scrub_step disabled focused alphaPercent st (ScrubMove x pressed) =
     (case st of
        None \<Rightarrow> (st, [])
      | Some sc \<Rightarrow>
          let dx = x - startX sc
          in if \<not> pressed \<or> (\<not> scrubbed sc \<and> \<bar>dx\<bar> < 3) then (st, [])
             else (Some (sc\<lparr>scrubbed := True\<rparr>), [CommitPercent (js_clamp (startPercent sc + dx / 2) 0 100)]))"
| "scrub_step disabled focused alphaPercent st ScrubUp =
     (None, (case st of Some sc \<Rightarrow> if scrubbed sc then [] else [FocusInput] | None \<Rightarrow> []))"
| "scrub_step disabled focused alphaPercent st ScrubCancel = (None, [])"

section \<open>Plane and sliders\<close>

text \<open>Pointer positions are relative to the corner of the control, \<open>clientX - rect.left\<close>.\<close>

definition plane_inset :: rat where "plane_inset = 7"
definition slider_inset :: rat where "slider_inset = 2.5"

definition plane_update :: "rat \<Rightarrow> rat \<Rightarrow> rat \<Rightarrow> rat \<Rightarrow> rat \<times> rat" where
  "plane_update width height x y =
     (js_clamp ((x - plane_inset) / (width - plane_inset * 2) * 100) 0 100,
      js_clamp (100 - (y - plane_inset) / (height - plane_inset * 2) * 100) 0 100)"

definition plane_thumb :: "rat \<Rightarrow> rat \<Rightarrow> rat \<Rightarrow> rat \<Rightarrow> rat \<times> rat" where
  "plane_thumb width height s v =
     (7 + (width - 14) * (js_clamp s 0 100 / 100), 7 + (height - 14) * (js_clamp (100 - v) 0 100 / 100))"

datatype arrow = ArrowLeft | ArrowRight | ArrowUp | ArrowDown

definition plane_key :: "rat \<Rightarrow> rat \<Rightarrow> arrow \<Rightarrow> bool \<Rightarrow> rat \<times> rat" where
  "plane_key s v key shift =
     (let delta = (if shift then 10 else 1);
          (x, y) = (case key of ArrowLeft \<Rightarrow> (s - delta, v) | ArrowRight \<Rightarrow> (s + delta, v)
                    | ArrowUp \<Rightarrow> (s, v + delta) | ArrowDown \<Rightarrow> (s, v - delta))
      in (js_clamp x 0 100, js_clamp y 0 100))"

definition slider_update :: "rat \<Rightarrow> rat \<Rightarrow> rat" where
  "slider_update height y = js_clamp ((y - slider_inset) / (height - slider_inset * 2)) 0 1"

definition slider_thumb :: "rat \<Rightarrow> rat \<Rightarrow> rat" where
  "slider_thumb height fraction = 2.5 + (height - 5) * js_clamp fraction 0 1"

definition slider_key :: "arrow \<Rightarrow> int" where
  "slider_key key = (if key = ArrowUp \<or> key = ArrowRight then 1 else - 1)"

text \<open>The hue the plane is drawn for, in half degrees.\<close>

definition quantized_hue :: "rat \<Rightarrow> rat" where
  "quantized_hue hue = of_int (js_round (normalize_hue hue * 2)) / 2"

section \<open>The picker\<close>

record picked =
  pk_plane :: hsv_color
  pk_rgb :: rgb_color
  pk_a :: rat

record controlled =
  ct_value :: string
  ct_showAlpha :: bool
  ct_pending :: "string list"

record color_picker =
  cp_picker :: picked
  cp_format :: color_format
  cp_controlled :: controlled
  cp_srgbHue :: rat

text \<open>
  The props that matter: the value (the one given or the default), whether alpha is edited, and whether the parent
  controls the value and listens to changes.
\<close>

record picker_props =
  pp_value :: string
  pp_showAlpha :: bool
  pp_controls :: bool
  pp_listens :: bool

definition default_value :: string where "default_value = ''#111827''"

definition picker_props_of :: "string option \<Rightarrow> string option \<Rightarrow> bool \<Rightarrow> bool \<Rightarrow> picker_props" where
  "picker_props_of valueProp color showAlpha listens =
     \<lparr>pp_value = (case valueProp of Some v \<Rightarrow> v | None \<Rightarrow> (case color of Some v \<Rightarrow> v | None \<Rightarrow> default_value)),
      pp_showAlpha = showAlpha, pp_controls = ((valueProp \<noteq> None \<or> color \<noteq> None) \<and> listens), pp_listens = listens\<rparr>"

definition abs_rem_360 :: "rat \<Rightarrow> rat" where
  "abs_rem_360 d = js_rem \<bar>d\<bar> 360"

text \<open>Hue noise of a conversion is ignored: the hue that the new one is close enough to be taken for.\<close>

definition with_hue_continuity :: "rat \<Rightarrow> rat \<Rightarrow> rat \<Rightarrow> rat" where
  "with_hue_continuity h previousHue chromaFraction =
     (let delta = abs_rem_360 (h - previousHue); angular = min delta (360 - delta);
          tolerance = min 10 (1.5 / max chromaFraction 0.15)
      in if angular < tolerance then previousHue else h)"

definition continuous_plane :: "hsv_color \<Rightarrow> rat \<Rightarrow> hsv_color" where
  "continuous_plane derived hue = derived\<lparr>hsv_h := with_hue_continuity (hsv_h derived) hue (hsv_s derived / 100)\<rparr>"

definition initial_picked :: "js_math \<Rightarrow> canvas \<Rightarrow> string \<Rightarrow> bool \<Rightarrow> picked" where
  "initial_picked m cv value showAlpha =
     (case parse_color_input m cv value Hex of
        None \<Rightarrow> \<lparr>pk_plane = \<lparr>hsv_h = 0, hsv_s = 0, hsv_v = 0\<rparr>, pk_rgb = \<lparr>rgb_r = 0, rgb_g = 0, rgb_b = 0\<rparr>, pk_a = 1\<rparr>
      | Some p \<Rightarrow>
          \<lparr>pk_plane = rgb_to_oklch_plane m (pc_rgb p) 0, pk_rgb = pc_rgb p,
           pk_a = (if showAlpha then (case pc_alpha p of None \<Rightarrow> 1 | Some a \<Rightarrow> a) else 1)\<rparr>)"

definition picker_start :: "js_math \<Rightarrow> canvas \<Rightarrow> picker_props \<Rightarrow> color_format \<Rightarrow> color_picker" where
  "picker_start m cv props fmt =
     \<lparr>cp_picker = initial_picked m cv (pp_value props) (pp_showAlpha props), cp_format = fmt,
      cp_controlled = \<lparr>ct_value = pp_value props, ct_showAlpha = pp_showAlpha props, ct_pending = []\<rparr>,
      cp_srgbHue = 0\<rparr>"

definition picked_hex :: "picked \<Rightarrow> string" where
  "picked_hex p = rgba_to_hex (pk_rgb p) (pk_a p)"

text \<open>What a new value is taken for: its colour and alpha, and the place of its echo among the pending changes.\<close>

definition incoming_alpha :: "picked \<Rightarrow> bool \<Rightarrow> parsed_color option \<Rightarrow> rat" where
  "incoming_alpha picker showAlpha parsed =
     (if showAlpha then (case parsed of
        Some p \<Rightarrow> (case pc_alpha p of Some a \<Rightarrow> a | None \<Rightarrow> pk_a picker) | None \<Rightarrow> pk_a picker) else 1)"

definition sync_value :: "js_math \<Rightarrow> canvas \<Rightarrow> picker_props \<Rightarrow> color_picker \<Rightarrow> color_picker" where
  "sync_value m cv props st =
     (let picker = cp_picker st; ct = cp_controlled st; pending = ct_pending ct
      in if ct_value ct = pp_value props \<and> ct_showAlpha ct = pp_showAlpha props then st
         else let parsed = (if pp_value props = [] then None else parse_color_input m cv (pp_value props) Hex);
                  alpha = incoming_alpha picker (pp_showAlpha props) parsed;
                  incoming = map_option (\<lambda>p. rgba_to_hex (pc_rgb p) alpha) parsed;
                  echo = (case incoming of None \<Rightarrow> None | Some hex \<Rightarrow> last_index_of hex pending);
                  ct' = \<lparr>ct_value = pp_value props, ct_showAlpha = pp_showAlpha props,
                         ct_pending = (case echo of None \<Rightarrow> [] | Some i \<Rightarrow> drop (Suc i) pending)\<rparr>;
                  adopt = (echo = None \<or> echo = Some (length pending - 1) \<or> ct_showAlpha ct \<noteq> pp_showAlpha props)
              in (case parsed of
                    Some p \<Rightarrow>
                      if adopt \<and> Some (picked_hex picker) \<noteq> incoming
                      then st\<lparr>cp_controlled := ct',
                              cp_picker := \<lparr>pk_plane = continuous_plane (rgb_to_oklch_plane m (pc_rgb p) (hsv_h (pk_plane picker)))
                                                        (hsv_h (pk_plane picker)),
                                            pk_rgb = pc_rgb p, pk_a = alpha\<rparr>\<rparr>
                      else st\<lparr>cp_controlled := ct'\<rparr>
                  | None \<Rightarrow> st\<lparr>cp_controlled := ct'\<rparr>))"

definition display_hsv :: "color_picker \<Rightarrow> hsv_color" where
  "display_hsv st = rgb_to_hsv (pk_rgb (cp_picker st)) (cp_srgbHue st)"

definition sync_hue :: "color_picker \<Rightarrow> color_picker" where
  "sync_hue st = st\<lparr>cp_srgbHue := hsv_h (display_hsv st)\<rparr>"

definition render_picker :: "js_math \<Rightarrow> canvas \<Rightarrow> picker_props \<Rightarrow> color_picker \<Rightarrow> color_picker" where
  "render_picker m cv props st = sync_hue (sync_value m cv props st)"

definition picker_hsl :: "color_picker \<Rightarrow> hsl_color" where
  "picker_hsl st = hsv_to_hsl (display_hsv st)"

definition picker_oklch :: "js_math \<Rightarrow> color_picker \<Rightarrow> oklch_color" where
  "picker_oklch m st =
     (let raw = rgb_to_oklch m (pk_rgb (cp_picker st)) (hsv_h (pk_plane (cp_picker st)))
      in raw\<lparr>lch_h := with_hue_continuity (lch_h raw) (hsv_h (pk_plane (cp_picker st))) (lch_c raw / 0.33)\<rparr>)"

definition picker_parts :: "js_math \<Rightarrow> color_picker \<Rightarrow> color_parts" where
  "picker_parts m st =
     \<lparr>cp_rgb = pk_rgb (cp_picker st), cp_hsl = picker_hsl st, cp_oklch = picker_oklch m st, cp_alpha = pk_a (cp_picker st)\<rparr>"

section \<open>Changes\<close>

text \<open>A change is remembered as pending when the parent will echo it; it is reported to whoever listens.\<close>

definition apply_state :: "picker_props \<Rightarrow> color_picker \<Rightarrow> picked \<Rightarrow> color_picker \<times> string list" where
  "apply_state props st new =
     (let hex = picked_hex new; ct = cp_controlled st
      in (st\<lparr>cp_picker := new,
             cp_controlled := (if pp_controls props then ct\<lparr>ct_pending := ct_pending ct @ [hex]\<rparr> else ct)\<rparr>,
          if pp_listens props then [hex] else []))"

definition commit_hsva :: "js_math \<Rightarrow> picker_props \<Rightarrow> color_picker \<Rightarrow> hsv_color \<Rightarrow> rat \<Rightarrow> color_picker \<times> string list" where
  "commit_hsva m props st hsv a =
     (let plane = \<lparr>hsv_h = js_clamp (hsv_h hsv) 0 360, hsv_s = js_clamp (hsv_s hsv) 0 100, hsv_v = js_clamp (hsv_v hsv) 0 100\<rparr>
      in apply_state props st
           \<lparr>pk_plane = plane, pk_rgb = oklch_plane_to_rgb m plane, pk_a = (if pp_showAlpha props then js_clamp a 0 1 else 1)\<rparr>)"

definition commit_rgb ::
  "js_math \<Rightarrow> picker_props \<Rightarrow> color_picker \<Rightarrow> rgb_color \<Rightarrow> rat option \<Rightarrow> rat option \<Rightarrow> color_picker \<times> string list" where
  "commit_rgb m props st nextRgb alpha intendedHue =
     (let exact = \<lparr>rgb_r = js_clamp (rgb_r nextRgb) 0 255, rgb_g = js_clamp (rgb_g nextRgb) 0 255, rgb_b = js_clamp (rgb_b nextRgb) 0 255\<rparr>;
          targetHue = (case intendedHue of Some h \<Rightarrow> h | None \<Rightarrow> hsv_h (pk_plane (cp_picker st)));
          derived = rgb_to_oklch_plane m exact targetHue
      in apply_state props st
           \<lparr>pk_plane = continuous_plane derived targetHue, pk_rgb = exact,
            pk_a = (if pp_showAlpha props
                    then js_clamp (case alpha of Some a \<Rightarrow> a | None \<Rightarrow> pk_a (cp_picker st)) 0 1 else 1)\<rparr>)"

definition commit_hsl :: "js_math \<Rightarrow> picker_props \<Rightarrow> color_picker \<Rightarrow> hsl_color \<Rightarrow> color_picker \<times> string list" where
  "commit_hsl m props st next = commit_rgb m props st (hsl_to_rgb next) None None"

definition commit_oklch :: "js_math \<Rightarrow> picker_props \<Rightarrow> color_picker \<Rightarrow> oklch_color \<Rightarrow> color_picker \<times> string list" where
  "commit_oklch m props st next = commit_rgb m props st (oklch_to_rgb m next) None (Some (normalize_hue (lch_h next)))"

definition commit_text :: "js_math \<Rightarrow> canvas \<Rightarrow> picker_props \<Rightarrow> color_picker \<Rightarrow> string \<Rightarrow> color_picker \<times> string list" where
  "commit_text m cv props st input =
     (case parse_color_input m cv input (cp_format st) of
        None \<Rightarrow> (st, [])
      | Some parsed \<Rightarrow>
          commit_rgb m props
            (case pc_format parsed of Some f \<Rightarrow> st\<lparr>cp_format := f\<rparr> | None \<Rightarrow> st)
            (pc_rgb parsed) (pc_alpha parsed) None)"

definition eye_dropper :: "js_math \<Rightarrow> canvas \<Rightarrow> picker_props \<Rightarrow> color_picker \<Rightarrow> string option \<Rightarrow> color_picker \<times> string list" where
  "eye_dropper m cv props st result =
     (case result of
        None \<Rightarrow> (st, [])
      | Some hex \<Rightarrow>
          (case parse_color_input m cv hex Hex of
             None \<Rightarrow> (st, [])
           | Some parsed \<Rightarrow> commit_rgb m props st (pc_rgb parsed) None None))"

datatype channel = OkL | OkC | OkH | HslH | HslS | HslL | ChR | ChG | ChB

definition channel_number :: "js_math \<Rightarrow> color_picker \<Rightarrow> channel \<Rightarrow> rat" where
  "channel_number m st ch =
     (let rgb = pk_rgb (cp_picker st); hsl = picker_hsl st; lch = picker_oklch m st
      in case ch of
           OkL \<Rightarrow> lch_l lch * 100 | OkC \<Rightarrow> lch_c lch | OkH \<Rightarrow> lch_h lch
         | HslH \<Rightarrow> hsl_h hsl | HslS \<Rightarrow> hsl_s hsl | HslL \<Rightarrow> hsl_l hsl
         | ChR \<Rightarrow> rgb_r rgb | ChG \<Rightarrow> rgb_g rgb | ChB \<Rightarrow> rgb_b rgb)"

definition channel_value :: "js_math \<Rightarrow> color_picker \<Rightarrow> channel \<Rightarrow> string" where
  "channel_value m st ch =
     (let n = channel_number m st ch
      in if ch \<in> {ChR, ChG, ChB} then show_int (js_round n)
         else num_to_fixed n (if ch = OkC then 3 else 1))"

definition channel_step :: "channel \<Rightarrow> bool \<Rightarrow> rat" where
  "channel_step ch big = (if ch = OkC then (if big then 0.05 else 0.01) else if big then 10 else 1)"

definition channel_commit :: "js_math \<Rightarrow> picker_props \<Rightarrow> color_picker \<Rightarrow> channel \<Rightarrow> rat \<Rightarrow> color_picker \<times> string list" where
  "channel_commit m props st ch next =
     (let rgb = pk_rgb (cp_picker st); hsl = picker_hsl st; lch = picker_oklch m st
      in case ch of
           OkL \<Rightarrow> commit_oklch m props st (lch\<lparr>lch_l := js_clamp next 0 100 / 100\<rparr>)
         | OkC \<Rightarrow> commit_oklch m props st (lch\<lparr>lch_c := max 0 next\<rparr>)
         | OkH \<Rightarrow> commit_oklch m props st (lch\<lparr>lch_h := normalize_hue next\<rparr>)
         | HslH \<Rightarrow> commit_hsl m props st (hsl\<lparr>hsl_h := normalize_hue next\<rparr>)
         | HslS \<Rightarrow> commit_hsl m props st (hsl\<lparr>hsl_s := js_clamp next 0 100\<rparr>)
         | HslL \<Rightarrow> commit_hsl m props st (hsl\<lparr>hsl_l := js_clamp next 0 100\<rparr>)
         | ChR \<Rightarrow> commit_rgb m props st (rgb\<lparr>rgb_r := js_clamp next 0 255\<rparr>) None None
         | ChG \<Rightarrow> commit_rgb m props st (rgb\<lparr>rgb_g := js_clamp next 0 255\<rparr>) None None
         | ChB \<Rightarrow> commit_rgb m props st (rgb\<lparr>rgb_b := js_clamp next 0 255\<rparr>) None None)"

text \<open>The field of a channel: its text is committed when it is a number, its arrows step from the exact number.\<close>

definition channel_call :: "js_math \<Rightarrow> picker_props \<Rightarrow> color_picker \<Rightarrow> channel \<Rightarrow> draft_call \<Rightarrow> color_picker \<times> string list" where
  "channel_call m props st ch call =
     (case call of
        CommitText s \<Rightarrow> (case parse_channel_text s of None \<Rightarrow> (st, []) | Some n \<Rightarrow> channel_commit m props st ch n)
      | StepBy direction big \<Rightarrow>
          channel_commit m props st ch (channel_number m st ch + of_int direction * channel_step ch big))"

definition alpha_call :: "js_math \<Rightarrow> picker_props \<Rightarrow> color_picker \<Rightarrow> draft_call \<Rightarrow> color_picker \<times> string list" where
  "alpha_call m props st call =
     (let picker = cp_picker st; percent = pk_a picker * 100;
          commit = (\<lambda>p. commit_hsva m props st (pk_plane picker) (js_clamp p 0 100 / 100))
      in case call of
           CommitText s \<Rightarrow> (case parse_channel_text s of None \<Rightarrow> (st, []) | Some n \<Rightarrow> commit n)
         | StepBy direction big \<Rightarrow> commit (percent + of_int direction * (if big then 10 else 1)))"

datatype picker_action =
    MovePlane rat rat
  | SlideHue rat
  | StepHue int bool
  | SlideAlpha rat
  | StepAlpha int bool
  | ScrubAlpha rat
  | AlphaField draft_call
  | ChannelField channel draft_call
  | TextField string
  | PickFormat color_format
  | EyeDrop "string option"

fun picker_step ::
  "js_math \<Rightarrow> canvas \<Rightarrow> picker_props \<Rightarrow> color_picker \<Rightarrow> picker_action \<Rightarrow> color_picker \<times> string list" where
  "picker_step m cv props st (MovePlane s v) =
     commit_hsva m props st ((pk_plane (cp_picker st))\<lparr>hsv_s := s, hsv_v := v\<rparr>) (pk_a (cp_picker st))"
| "picker_step m cv props st (SlideHue fraction) =
     commit_hsva m props st ((pk_plane (cp_picker st))\<lparr>hsv_h := fraction * 360\<rparr>) (pk_a (cp_picker st))"
| "picker_step m cv props st (StepHue direction big) =
     commit_hsva m props st
       ((pk_plane (cp_picker st))\<lparr>hsv_h := js_clamp (hsv_h (pk_plane (cp_picker st)) - of_int direction * (if big then 10 else 1)) 0 360\<rparr>)
       (pk_a (cp_picker st))"
| "picker_step m cv props st (SlideAlpha fraction) = commit_hsva m props st (pk_plane (cp_picker st)) (1 - fraction)"
| "picker_step m cv props st (StepAlpha direction big) =
     commit_hsva m props st (pk_plane (cp_picker st))
       (js_clamp (pk_a (cp_picker st) + of_int direction * (if big then 0.1 else 0.01)) 0 1)"
| "picker_step m cv props st (ScrubAlpha percent) = commit_hsva m props st (pk_plane (cp_picker st)) (percent / 100)"
| "picker_step m cv props st (AlphaField call) = alpha_call m props st call"
| "picker_step m cv props st (ChannelField ch call) = channel_call m props st ch call"
| "picker_step m cv props st (TextField s) = commit_text m cv props st s"
| "picker_step m cv props st (PickFormat f) = (st\<lparr>cp_format := f\<rparr>, [])"
| "picker_step m cv props st (EyeDrop result) = eye_dropper m cv props st result"

section \<open>Ranges\<close>

text \<open>A picked colour: channels, alpha and place in the plane in range; without alpha the colour is opaque.\<close>

definition plane_ok :: "hsv_color \<Rightarrow> bool" where
  "plane_ok c \<longleftrightarrow> 0 \<le> hsv_h c \<and> hsv_h c \<le> 360 \<and> 0 \<le> hsv_s c \<and> hsv_s c \<le> 100 \<and> 0 \<le> hsv_v c \<and> hsv_v c \<le> 100"

definition picked_ok :: "bool \<Rightarrow> picked \<Rightarrow> bool" where
  "picked_ok showAlpha p \<longleftrightarrow>
     in_rgb (pk_rgb p) \<and> plane_ok (pk_plane p) \<and> 0 \<le> pk_a p \<and> pk_a p \<le> 1 \<and> (showAlpha \<or> pk_a p = 1)"

lemma picked_ok_weaken: "picked_ok showAlpha p \<Longrightarrow> picked_ok True p"
  by (auto simp: picked_ok_def)

lemma normalize_hue_closed [simp]: "0 \<le> normalize_hue v" "normalize_hue v \<le> 360"
  using normalize_hue_bounds [of v] by simp_all

lemma rgb_to_oklch_plane_ok: "plane_ok (rgb_to_oklch_plane m rgb fb)"
proof -
  have "0 \<le> lch_h (rgb_to_oklch m rgb fb) \<and> lch_h (rgb_to_oklch m rgb fb) \<le> 360"
    by (simp add: rgb_to_oklch_def Let_def)
  then show ?thesis
    by (simp add: rgb_to_oklch_plane_def plane_ok_def Let_def js_clamp_bounds)
qed

lemma with_hue_continuity_cases: "with_hue_continuity h prev f = h \<or> with_hue_continuity h prev f = prev"
  by (simp add: with_hue_continuity_def Let_def)

lemma continuous_plane_ok:
  assumes "plane_ok c" "0 \<le> hue" "hue \<le> 360"
  shows "plane_ok (continuous_plane c hue)"
  using with_hue_continuity_cases [of "hsv_h c" hue "hsv_s c / 100"] assms
  by (auto simp: continuous_plane_def plane_ok_def)

section \<open>What an action changes\<close>

definition committed :: "picker_props \<Rightarrow> color_picker \<Rightarrow> color_picker \<times> string list \<Rightarrow> bool" where
  "committed props st result \<longleftrightarrow>
     (\<exists>st0 new. cp_picker st0 = cp_picker st \<and> cp_controlled st0 = cp_controlled st \<and>
        (result = (st0, []) \<or> picked_ok (pp_showAlpha props) new \<and> result = apply_state props st0 new))"

lemma committed_none: "cp_picker st0 = cp_picker st \<Longrightarrow> cp_controlled st0 = cp_controlled st \<Longrightarrow> committed props st (st0, [])"
  by (auto simp: committed_def)

lemma committed_apply:
  "cp_picker st0 = cp_picker st \<Longrightarrow> cp_controlled st0 = cp_controlled st \<Longrightarrow> picked_ok (pp_showAlpha props) new \<Longrightarrow>
     committed props st (apply_state props st0 new)"
  by (auto simp: committed_def)

lemma commit_hsva_committed: "committed props st (commit_hsva m props st hsv a)"
  unfolding commit_hsva_def Let_def
  by (rule committed_apply) (simp_all add: picked_ok_def plane_ok_def js_clamp_bounds oklch_plane_to_rgb_def Let_def)

lemma commit_rgb_committed:
  assumes "plane_ok (pk_plane (cp_picker st))" "hue = None \<or> 0 \<le> the hue \<and> the hue \<le> 360"
    and "cp_picker st0 = cp_picker st" "cp_controlled st0 = cp_controlled st"
  shows "committed props st (commit_rgb m props st0 c alpha hue)"
proof -
  have target: "0 \<le> t \<and> t \<le> 360" if "t = (case hue of Some h \<Rightarrow> h | None \<Rightarrow> hsv_h (pk_plane (cp_picker st0)))" for t
    using assms that by (auto simp: plane_ok_def split: option.splits)
  show ?thesis
    unfolding commit_rgb_def Let_def
    using target assms(3, 4)
    by (intro committed_apply)
      (simp_all add: picked_ok_def continuous_plane_ok rgb_to_oklch_plane_ok js_clamp_bounds in_rgb_def)
qed

lemma channel_commit_committed:
  assumes "plane_ok (pk_plane (cp_picker st))"
  shows "committed props st (channel_commit m props st ch next)"
  unfolding channel_commit_def Let_def commit_oklch_def commit_hsl_def
  by (cases ch) (simp_all add: commit_rgb_committed assms)

lemma picker_step_committed:
  assumes "plane_ok (pk_plane (cp_picker st))"
  shows "committed props st (picker_step m cv props st a)"
proof (cases a)
  case (AlphaField call)
  then show ?thesis
    by (cases call) (simp_all add: alpha_call_def Let_def commit_hsva_committed committed_none split: option.splits)
next
  case (ChannelField ch call)
  then show ?thesis
    by (cases call) (simp_all add: channel_call_def channel_commit_committed assms committed_none split: option.splits)
next
  case (TextField s)
  then show ?thesis
    by (auto simp: commit_text_def commit_rgb_committed assms committed_none split: option.splits)
next
  case (EyeDrop r)
  then show ?thesis
    by (auto simp: eye_dropper_def commit_rgb_committed assms committed_none split: option.splits)
qed (simp_all add: commit_hsva_committed committed_none)


section \<open>Every picked colour is in range\<close>

datatype picker_event = Acted picker_props picker_action | Rendered picker_props

fun picker_event_step :: "js_math \<Rightarrow> canvas \<Rightarrow> color_picker \<Rightarrow> picker_event \<Rightarrow> color_picker option" where
  "picker_event_step m cv st (Acted props a) = Some (fst (picker_step m cv props st a))"
| "picker_event_step m cv st (Rendered props) = Some (render_picker m cv props st)"

lemma committed_picked:
  "committed props st result \<Longrightarrow> cp_picker (fst result) = cp_picker st \<or> picked_ok (pp_showAlpha props) (cp_picker (fst result))"
  by (auto simp: committed_def apply_state_def Let_def)

lemma parse_color_range:
  "parse_color_input m canvas input fmt = Some p \<Longrightarrow> parsed_ok p"
  using split_alpha_range
  by (auto simp: parse_color_input_def Let_def split: if_splits option.splits
      intro: parse_functional_range parse_with_browser_range parse_bare_range)

lemma initial_picked_ok: "picked_ok showAlpha (initial_picked m cv value showAlpha)"
proof (cases "parse_color_input m cv value Hex")
  case (Some p)
  then have "parsed_ok p" by (rule parse_color_range)
  then show ?thesis using Some
    by (auto simp: initial_picked_def picked_ok_def parsed_ok_def rgb_to_oklch_plane_ok split: option.splits)
qed (simp add: initial_picked_def picked_ok_def in_rgb_def plane_ok_def)

lemma sync_value_ok:
  assumes "picked_ok True (cp_picker st)"
  shows "picked_ok True (cp_picker (sync_value m cv props st))"
proof -
  have "picked_ok True \<lparr>pk_plane = continuous_plane (rgb_to_oklch_plane m (pc_rgb p) (hsv_h (pk_plane (cp_picker st)))) (hsv_h (pk_plane (cp_picker st))),
      pk_rgb = pc_rgb p, pk_a = incoming_alpha (cp_picker st) (pp_showAlpha props) (Some p)\<rparr>"
    if "parse_color_input m cv (pp_value props) Hex = Some p" for p
  proof -
    have "0 \<le> hsv_h (pk_plane (cp_picker st)) \<and> hsv_h (pk_plane (cp_picker st)) \<le> 360" using assms by (simp add: picked_ok_def plane_ok_def)
    then show ?thesis
      using parse_color_range [OF that] assms
      by (auto simp: picked_ok_def parsed_ok_def continuous_plane_ok rgb_to_oklch_plane_ok incoming_alpha_def split: option.splits)
  qed
  then show ?thesis using assms by (auto simp: sync_value_def Let_def split: option.splits)
qed

interpretation picker: machine "picker_event_step m cv" "picker_start m cv props fmt" "\<lambda>st. picked_ok True (cp_picker st)"
  for m cv props fmt
proof
  show "picked_ok True (cp_picker (picker_start m cv props fmt))"
    by (simp add: picker_start_def picked_ok_weaken [OF initial_picked_ok])
next
  fix st e st' assume st: "picked_ok True (cp_picker st)" and step: "picker_event_step m cv st e = Some st'"
  show "picked_ok True (cp_picker st')"
  proof (cases e)
    case (Acted ps a)
    then show ?thesis
      using committed_picked [OF picker_step_committed [of st ps m cv a]] st step
      by (auto simp: picked_ok_def)
  next
    case (Rendered ps)
    then show ?thesis using st step sync_value_ok [of st m cv ps] by (auto simp: render_picker_def sync_hue_def)
  qed
qed

text \<open>
  C40: Whatever the user does and whatever values, alpha settings and formats the parent passes, in any order, the picked
  colour has channels between 0 and 255, a place in the plane and an alpha between 0 and 1.
\<close>
theorem picker_in_range:
  assumes "exec (picker_event_step m cv) (picker_start m cv props fmt) es = Some st"
  shows "in_rgb (pk_rgb (cp_picker st)) \<and> 0 \<le> pk_a (cp_picker st) \<and> pk_a (cp_picker st) \<le> 1 \<and>
    (let plane = pk_plane (cp_picker st)
     in 0 \<le> hsv_h plane \<and> hsv_h plane \<le> 360 \<and> 0 \<le> hsv_s plane \<and> hsv_s plane \<le> 100 \<and> 0 \<le> hsv_v plane \<and> hsv_v plane \<le> 100)"
  using picker.inv_exec [OF assms] by (simp add: picked_ok_def plane_ok_def)

theorem picker_in_range_witness:
  "let props = picker_props_of (Some ''#336699'') None True True;
       st = fst (picker_step coarse_math None props (picker_start coarse_math None props Rgb) (MovePlane 150 (- 20)))
   in in_rgb (pk_rgb (cp_picker st)) \<and> hsv_s (pk_plane (cp_picker st)) = 100 \<and> hsv_v (pk_plane (cp_picker st)) = 0"
  using picker_in_range [of coarse_math None "picker_props_of (Some ''#336699'') None True True" Rgb
      "[Acted (picker_props_of (Some ''#336699'') None True True) (MovePlane 150 (- 20))]"]
  by (simp add: commit_hsva_def apply_state_def js_clamp_def Let_def)

text \<open>
  What a render sets while rendering settles at once: a second pass with the same props changes nothing, so React
  renders at most twice for a change.
\<close>
theorem picker_render_settles: "render_picker m cv props (render_picker m cv props st) = render_picker m cv props st"
proof -
  define t where "t = sync_value m cv props st"
  have "ct_value (cp_controlled t) = pp_value props \<and> ct_showAlpha (cp_controlled t) = pp_showAlpha props"
    by (auto simp: t_def sync_value_def Let_def split: option.splits)
  then have fixed: "sync_value m cv props (sync_hue t) = sync_hue t"
    by (simp add: sync_value_def sync_hue_def)
  have "hsv_h (rgb_to_hsv c (hsv_h (rgb_to_hsv c h))) = hsv_h (rgb_to_hsv c h)" for c h
    by (simp add: rgb_to_hsv_def Let_def)
  then have "sync_hue (sync_hue t) = sync_hue t" by (simp add: sync_hue_def display_hsv_def)
  with fixed show ?thesis by (simp add: render_picker_def t_def)
qed

section \<open>A parent that echoes changes\<close>

text \<open>
  An opaque picker of a parent that takes every change over: the parent renders with one of the changes it was told, in
  order, and may skip some. \<open>None\<close> where an event cannot happen in such a session. In a fresh session no change goes back to
  the value of the parent or to one that is still on its way; what happens otherwise is shown at the end.
\<close>

datatype session_event = Change picker_action | Echo nat

definition opaque_props :: "string \<Rightarrow> picker_props" where
  "opaque_props value = \<lparr>pp_value = value, pp_showAlpha = False, pp_controls = True, pp_listens = True\<rparr>"

fun session_step ::
  "js_math \<Rightarrow> canvas \<Rightarrow> color_picker \<times> string list \<Rightarrow> session_event \<Rightarrow> (color_picker \<times> string list) option" where
  "session_step m cv (st, queue) (Change a) =
     (let (st', changes) = picker_step m cv (opaque_props (ct_value (cp_controlled st))) st a
      in Some (st', queue @ changes))"
| "session_step m cv (st, queue) (Echo k) =
     (if k < length queue then Some (render_picker m cv (opaque_props (queue ! k)) st, drop (Suc k) queue) else None)"

definition fresh_change :: "js_math \<Rightarrow> canvas \<Rightarrow> color_picker \<times> string list \<Rightarrow> session_event \<Rightarrow> bool" where
  "fresh_change m cv s e =
     (case (s, e) of
        ((st, queue), Change a) \<Rightarrow>
          set (snd (picker_step m cv (opaque_props (ct_value (cp_controlled st))) st a)) \<inter> set (ct_value (cp_controlled st) # queue) = {}
      | _ \<Rightarrow> True)"

definition fresh_session_step ::
  "js_math \<Rightarrow> canvas \<Rightarrow> color_picker \<times> string list \<Rightarrow> session_event \<Rightarrow> (color_picker \<times> string list) option" where
  "fresh_session_step m cv s e = (if fresh_change m cv s e then session_step m cv s e else None)"

definition session_ok :: "color_picker \<times> string list \<Rightarrow> bool" where
  "session_ok s \<longleftrightarrow>
     (let (st, queue) = s; ct = cp_controlled st; p = cp_picker st
      in \<not> ct_showAlpha ct \<and> ct_pending ct = queue \<and> distinct (ct_value ct # queue) \<and> picked_ok False p \<and>
         (queue \<noteq> [] \<longrightarrow> last queue = picked_hex p) \<and> (\<forall>x \<in> set queue. \<exists>c. x = rgba_to_hex c 1))"

lemma byte_of_nat: "n \<le> 255 \<Longrightarrow> byte_of (of_nat n) = n"
proof -
  assume "n \<le> 255"
  moreover have "js_round (of_nat n) = int n" by (simp add: js_round_def floor_eq_iff)
  ultimately show ?thesis by (simp add: byte_of_def)
qed

lemma rounded_hex: "rgba_to_hex (rounded_rgb c) a = rgba_to_hex c a"
  by (simp add: rgba_to_hex_def to_hex_pair_byte rounded_rgb_def byte_of_nat byte_of_le)

lemma rgba_to_hex_not_Nil [simp]: "rgba_to_hex c a \<noteq> []"
  by (simp add: rgba_to_hex_def Let_def)

lemma last_index_of_nth:
  assumes "distinct xs" "k < length xs"
  shows "last_index_of (xs ! k) xs = Some k"
  using assms
proof (induction xs arbitrary: k)
  case (Cons x xs)
  have none: "y \<notin> set ys \<Longrightarrow> last_index_of y ys = None" for y :: 'a and ys by (induction ys) auto
  show ?case using Cons none by (cases k) auto
qed simp

lemma echo_keeps:
  assumes ok: "session_ok (st, queue)" and k: "k < length queue"
  shows "cp_picker (render_picker m cv (opaque_props (queue ! k)) st) = cp_picker st"
    and "cp_controlled (render_picker m cv (opaque_props (queue ! k)) st) =
      \<lparr>ct_value = queue ! k, ct_showAlpha = False, ct_pending = drop (Suc k) queue\<rparr>"
proof -
  define v where "v = queue ! k"
  have inv: "\<not> ct_showAlpha (cp_controlled st)" "ct_pending (cp_controlled st) = queue"
      "distinct (ct_value (cp_controlled st) # queue)" "picked_ok False (cp_picker st)"
      "last queue = picked_hex (cp_picker st)" "\<forall>x \<in> set queue. \<exists>c. x = rgba_to_hex c 1"
    using ok k by (auto simp: session_ok_def Let_def)
  have "v \<in> set queue" using k by (simp add: v_def)
  then obtain c where c: "v = rgba_to_hex c 1" using inv(6) by blast
  have fresh: "ct_value (cp_controlled st) \<noteq> v" using inv(3) \<open>v \<in> set queue\<close> by auto
  have parsed: "parse_color_input m cv v Hex = Some \<lparr>pc_rgb = rounded_rgb c, pc_alpha = None, pc_format = Some Hex\<rparr>"
    by (simp add: c hex_text_read_back)
  have at: "last_index_of v queue = Some k" using inv(3) k by (simp add: v_def last_index_of_nth)
  have same: "k = length queue - 1 \<Longrightarrow> v = picked_hex (cp_picker st)"
    using inv(5) last_conv_nth [of queue] k by (cases "queue = []") (simp_all add: v_def)
  have ne: "v \<noteq> []" and again: "rgba_to_hex (rounded_rgb c) 1 = v" by (simp_all add: c rounded_hex)
  have sync: "cp_picker (sync_value m cv (opaque_props v) st) = cp_picker st \<and>
      cp_controlled (sync_value m cv (opaque_props v) st) = \<lparr>ct_value = v, ct_showAlpha = False, ct_pending = drop (Suc k) queue\<rparr>"
    using fresh inv(1, 2) at same ne
    by (auto simp: sync_value_def opaque_props_def parsed incoming_alpha_def again Let_def)
  then show "cp_picker (render_picker m cv (opaque_props (queue ! k)) st) = cp_picker st"
    and "cp_controlled (render_picker m cv (opaque_props (queue ! k)) st) =
      \<lparr>ct_value = queue ! k, ct_showAlpha = False, ct_pending = drop (Suc k) queue\<rparr>"
    by (simp_all add: render_picker_def sync_hue_def v_def)
qed

lemma change_keeps:
  assumes ok: "session_ok (st, queue)"
    and step: "picker_step m cv (opaque_props v) st a = (st', changes)"
    and fresh: "set changes \<inter> set (ct_value (cp_controlled st) # queue) = {}"
  shows "session_ok (st', queue @ changes)"
proof -
  have inv: "\<not> ct_showAlpha (cp_controlled st)" "ct_pending (cp_controlled st) = queue"
      "distinct (ct_value (cp_controlled st) # queue)" "picked_ok False (cp_picker st)"
      "queue \<noteq> [] \<longrightarrow> last queue = picked_hex (cp_picker st)" "\<forall>x \<in> set queue. \<exists>c. x = rgba_to_hex c 1"
    using ok by (simp_all add: session_ok_def Let_def)
  have "plane_ok (pk_plane (cp_picker st))" using inv(4) by (simp add: picked_ok_def)
  from picker_step_committed [OF this, of "opaque_props v" m cv a] step
  obtain st0 new where st0: "cp_picker st0 = cp_picker st" "cp_controlled st0 = cp_controlled st"
    and result: "(st', changes) = (st0, []) \<or> picked_ok False new \<and> (st', changes) = apply_state (opaque_props v) st0 new"
    by (auto simp: committed_def opaque_props_def)
  from result show ?thesis
  proof
    assume "(st', changes) = (st0, [])"
    then show ?thesis using ok st0 by (simp add: session_ok_def)
  next
    assume r: "picked_ok False new \<and> (st', changes) = apply_state (opaque_props v) st0 new"
    then have "changes = [picked_hex new]" "cp_picker st' = new"
        "cp_controlled st' = (cp_controlled st)\<lparr>ct_pending := queue @ [picked_hex new]\<rparr>"
      using st0 inv(2) by (simp_all add: apply_state_def opaque_props_def Let_def)
    moreover have "\<exists>c. picked_hex new = rgba_to_hex c 1" using r by (auto simp: picked_hex_def picked_ok_def)
    ultimately show ?thesis using inv fresh r by (auto simp: session_ok_def)
  qed
qed

interpretation echoing: machine "fresh_session_step m cv" "(picker_start m cv (opaque_props value) fmt, [])" session_ok
  for m cv "value" fmt
proof
  show "session_ok (picker_start m cv (opaque_props value) fmt, [])"
    using initial_picked_ok [of False m cv "value"] by (simp add: session_ok_def picker_start_def opaque_props_def)
next
  fix s e s' assume ok: "session_ok s" and taken: "fresh_session_step m cv s e = Some s'"
  then have step: "session_step m cv s e = Some s'" and fresh: "fresh_change m cv s e"
    by (simp_all add: fresh_session_step_def split: if_splits)
  obtain st queue where s: "s = (st, queue)" by fastforce
  show "session_ok s'"
  proof (cases e)
    case (Change a)
    obtain st' changes where r: "picker_step m cv (opaque_props (ct_value (cp_controlled st))) st a = (st', changes)" by fastforce
    moreover from r Change s fresh have "set changes \<inter> set (ct_value (cp_controlled st) # queue) = {}" by (simp add: fresh_change_def)
    ultimately show ?thesis using Change step s change_keeps [OF ok [unfolded s] r] by auto
  next
    case (Echo k)
    then have k: "k < length queue" and s': "s' = (render_picker m cv (opaque_props (queue ! k)) st, drop (Suc k) queue)"
      using step s by (auto split: if_splits)
    note ok' = ok [unfolded s]
    have "queue ! k \<notin> set (drop (Suc k) queue)" "set (drop (Suc k) queue) \<subseteq> set queue" "distinct queue"
      using ok' k by (auto simp: session_ok_def Let_def in_set_conv_nth nth_eq_iff_index_eq dest: set_mp [OF set_drop_subset])
    then show ?thesis
      using ok' echo_keeps [OF ok' k, of m cv] k by (auto simp: s' session_ok_def Let_def)
  qed
qed

text \<open>
  In a fresh session of an opaque picker whose parent takes the changes over, an echo of any change on its way leaves the
  picked colour alone, so what was typed or dragged to is not replaced by its rounded echo.
\<close>
lemma picker_ignores_echoes:
  assumes "exec (fresh_session_step m cv) (picker_start m cv (opaque_props value) fmt, []) es = Some (st, queue)" "k < length queue"
  shows "cp_picker (render_picker m cv (opaque_props (queue ! k)) st) = cp_picker st"
  by (rule echo_keeps [OF echoing.inv_exec [OF assms(1)] assms(2)])

text \<open>
  Freshness is needed: after changes to a colour, to another one and back, the first echo clears the list of pending changes, since
  it is taken for the last of them; the second echo then replaces the colour that was picked last.
\<close>

lemma returning_change_overwritten:
  assumes st: "\<not> ct_showAlpha (cp_controlled st)" "ct_pending (cp_controlled st) = []"
      "ct_value (cp_controlled st) \<noteq> picked_hex a"
    and opaque: "pk_a a = 1" "pk_a b = 1" and differ: "picked_hex a \<noteq> picked_hex b"
  shows "let st3 = fst (apply_state (opaque_props v) (fst (apply_state (opaque_props v) (fst (apply_state (opaque_props v) st a)) b)) a);
             st4 = render_picker m cv (opaque_props (picked_hex a)) st3;
             st5 = render_picker m cv (opaque_props (picked_hex b)) st4
         in cp_picker st3 = a \<and> pk_rgb (cp_picker st5) = rounded_rgb (pk_rgb b)"
proof -
  have a: "picked_hex a = rgba_to_hex (pk_rgb a) 1" and b: "picked_hex b = rgba_to_hex (pk_rgb b) 1" using opaque by (simp_all add: picked_hex_def)
  have ne: "picked_hex a \<noteq> []" "picked_hex b \<noteq> []" by (simp_all add: a b)
  have parsed: "parse_color_input m cv (picked_hex a) Hex = Some \<lparr>pc_rgb = rounded_rgb (pk_rgb a), pc_alpha = None, pc_format = Some Hex\<rparr>"
    "parse_color_input m cv (picked_hex b) Hex = Some \<lparr>pc_rgb = rounded_rgb (pk_rgb b), pc_alpha = None, pc_format = Some Hex\<rparr>"
    unfolding a b hex_text_read_back by simp_all
  have again: "rgba_to_hex (rounded_rgb (pk_rgb a)) 1 = picked_hex a" "rgba_to_hex (rounded_rgb (pk_rgb b)) 1 = picked_hex b"
    by (simp_all add: a b rounded_hex)
  have hex: "rgba_to_hex (pk_rgb a) (pk_a a) = picked_hex a" by (simp add: picked_hex_def)
  show ?thesis
    using st differ differ [symmetric] ne
    by (simp add: render_picker_def sync_hue_def sync_value_def apply_state_def opaque_props_def parsed incoming_alpha_def again hex Let_def)
qed

text \<open>
  So is it for the value of the parent: a change and its reversal that reach the parent together leave the value as it was,
  so nothing clears the two pending changes, and a later value equal to the first of them is taken for a late echo: the
  picker goes on showing the old colour.
\<close>

lemma reverted_change_goes_stale:
  assumes st: "ct_value (cp_controlled st) = picked_hex a" "\<not> ct_showAlpha (cp_controlled st)" "ct_pending (cp_controlled st) = []"
    and opaque: "pk_a a = 1" "pk_a b = 1" and differ: "picked_hex a \<noteq> picked_hex b"
  shows "let st1 = fst (apply_state (opaque_props v) st b);
             st2 = fst (apply_state (opaque_props v) st1 a);
             st3 = render_picker m cv (opaque_props (picked_hex a)) st2;
             st4 = render_picker m cv (opaque_props (picked_hex b)) st3
         in cp_picker st4 = a"
proof -
  have b: "picked_hex b = rgba_to_hex (pk_rgb b) 1" using opaque by (simp add: picked_hex_def)
  have ne: "picked_hex b \<noteq> []" by (simp add: b)
  have parsed: "parse_color_input m cv (picked_hex b) Hex = Some \<lparr>pc_rgb = rounded_rgb (pk_rgb b), pc_alpha = None, pc_format = Some Hex\<rparr>"
    unfolding b hex_text_read_back by simp
  have again: "rgba_to_hex (rounded_rgb (pk_rgb b)) 1 = picked_hex b" by (simp add: b rounded_hex)
  show ?thesis
    using st differ differ [symmetric] ne
    by (simp add: render_picker_def sync_hue_def sync_value_def apply_state_def opaque_props_def parsed incoming_alpha_def again Let_def)
qed

section \<open>Thumbs\<close>

text \<open>Pressing the plane where its thumb is shown keeps the place, for every size that leaves room inside the inset.\<close>
theorem plane_thumb_roundtrip:
  assumes "14 < width" "14 < height"
  shows "(let (x, y) = plane_thumb width height s v in plane_update width height x y) = (js_clamp s 0 100, js_clamp v 0 100)"
  using assms
  by (simp add: plane_thumb_def plane_update_def plane_inset_def js_clamp_bounds) (simp add: js_clamp_def)

theorem plane_thumb_roundtrip_witness:
  "(let (x, y) = plane_thumb 212 212 30 120 in plane_update 212 212 x y) = (30, 100)"
  using plane_thumb_roundtrip [of 212 212 30 120] by (simp add: js_clamp_def)

end
