(* ===== verification/DocumentShell.thy ===== *)
theory DocumentShell
  imports ServerJwt EditCommit
begin

text \<open>
  What stands between the pages and a document engine: the probe of a content URL and the panels that wait for it
  (web/src/modules/files/components/document-preview-shell.tsx, pdf-preview-panel.tsx, docx-preview-panel.tsx), the
  capture of an editor's export (web/src/lib/capture-blob-download.ts) and the shared PDF engine with its caches
  (web/src/lib/pdf-thumbnail-utils.ts).

  A React effect runs after the commit of a render in which one of its dependencies changed; a callback is
  known by its identity, a number.
\<close>

section \<open>The probe of a document URL\<close>

datatype probe_state = Probing | ProbeReady | ProbeFailed

record probe_props =
  pb_key :: string
  pb_url :: "string option"
  pb_onExpired :: nat

text \<open>
  The hook: its state and its ref, the props and the state its effects last saw, whether a fetch that is not cancelled
  is out; and what was done: the keys \<open>onExpired\<close> was called for, the URLs fetched and the last answer that counted.
\<close>

record probe_hook =
  ph_probe :: probe_state
  ph_refreshed :: bool
  ph_props :: probe_props
  ph_seen :: probe_state
  ph_live :: bool
  ph_expired :: "string list"
  ph_fetched :: "string list"
  ph_answer :: "(string \<times> bool) option"

definition start_fetch :: "string option \<Rightarrow> probe_hook \<Rightarrow> probe_hook" where
  "start_fetch url st =
     (if falsy url then st\<lparr>ph_probe := Probing, ph_live := False\<rparr>
      else st\<lparr>ph_probe := Probing, ph_live := True, ph_fetched := ph_fetched st @ [the url]\<rparr>)"

definition refresh_once :: "probe_state \<Rightarrow> string \<Rightarrow> probe_hook \<Rightarrow> probe_hook" where
  "refresh_once probe key st =
     (if probe \<noteq> ProbeFailed \<or> ph_refreshed st then st
      else st\<lparr>ph_refreshed := True, ph_expired := ph_expired st @ [key]\<rparr>)"

text \<open>The three effects in order, for a render with these props; the third one uses the state of the render.\<close>

definition probe_commit :: "probe_props \<Rightarrow> probe_hook \<Rightarrow> probe_hook" where
  "probe_commit props st =
     (let old = ph_props st; probe = ph_probe st;
          st1 = (if pb_key props \<noteq> pb_key old then st\<lparr>ph_refreshed := False\<rparr> else st);
          st2 = (if pb_url props \<noteq> pb_url old then start_fetch (pb_url props) st1 else st1);
          st3 = (if probe \<noteq> ph_seen st \<or> pb_onExpired props \<noteq> pb_onExpired old then refresh_once probe (pb_key props) st2 else st2)
      in st3\<lparr>ph_props := props, ph_seen := probe\<rparr>)"

text \<open>A state set by an effect is rendered again with the same props.\<close>

definition probe_render :: "probe_props \<Rightarrow> probe_hook \<Rightarrow> probe_hook" where
  "probe_render props st = probe_commit props (probe_commit props st)"

text \<open>The mount runs every effect.\<close>

definition probe_mount :: "probe_props \<Rightarrow> probe_hook" where
  "probe_mount props =
     probe_render props
       (start_fetch (pb_url props)
         \<lparr>ph_probe = Probing, ph_refreshed = False, ph_props = props, ph_seen = Probing, ph_live = False,
          ph_expired = [], ph_fetched = [], ph_answer = None\<rparr>)"

datatype probe_event = ProbeRendered probe_props | ProbeAnswered bool

fun probe_step :: "probe_hook \<Rightarrow> probe_event \<Rightarrow> probe_hook option" where
  "probe_step st (ProbeRendered props) = Some (probe_render props st)"
| "probe_step st (ProbeAnswered ok) =
     (if ph_live st
      then Some (probe_render (ph_props st)
             (st\<lparr>ph_probe := (if ok then ProbeReady else ProbeFailed), ph_live := False,
                 ph_answer := Some (the (pb_url (ph_props st)), ok)\<rparr>))
      else None)"

text \<open>What a panel shows for a render.\<close>

datatype document_panel = ErrorPanel string | LoadingPanel | ViewerPanel string

definition document_panel :: "string \<Rightarrow> bool \<Rightarrow> string option \<Rightarrow> probe_state \<Rightarrow> document_panel" where
  "document_panel message isError url probe =
     (if isError then ErrorPanel message
      else if falsy url \<or> probe = Probing then LoadingPanel
      else if probe = ProbeFailed then ErrorPanel ''The preview link expired before the document loaded.''
      else ViewerPanel (the url))"

definition pdf_preview_panel :: "bool \<Rightarrow> string option \<Rightarrow> probe_state \<Rightarrow> document_panel" where
  "pdf_preview_panel = document_panel ''This PDF could not be opened for preview.''"

definition docx_preview_panel :: "bool \<Rightarrow> string option \<Rightarrow> probe_state \<Rightarrow> document_panel" where
  "docx_preview_panel = document_panel ''This document could not be opened for preview.''"

section \<open>Capturing an export\<close>

text \<open>
  A browser global is the browser's own function or the patch of a capture around what was installed before. The
  variables of a capture outlive it, since a patch may.
\<close>

datatype hook = Native | Patched nat hook

record blob_capture =
  bc_create :: hook
  bc_click :: hook
  bc_urls :: "string list"
  bc_settled :: "(js_error + byte list) option"
  bc_done :: bool

record browser =
  br_create :: hook
  br_click :: hook
  br_captures :: "blob_capture list"
  br_clicked :: "(string \<times> string) list"

text \<open>\<open>createObjectURL\<close> returns \<open>url\<close>; every patch it passes on the way back notes it, unless the blob is empty.\<close>

definition note_url :: "nat \<Rightarrow> string \<Rightarrow> blob_capture list \<Rightarrow> blob_capture list" where
  "note_url i url cs = cs[i := (cs ! i)\<lparr>bc_urls := js_set_add (bc_urls (cs ! i)) url\<rparr>]"

fun create_object_url :: "hook \<Rightarrow> string \<Rightarrow> bool \<Rightarrow> blob_capture list \<Rightarrow> blob_capture list" where
  "create_object_url Native url nonempty cs = cs"
| "create_object_url (Patched i original) url nonempty cs =
     (let cs' = create_object_url original url nonempty cs in if nonempty then note_url i url cs' else cs')"

text \<open>Whether the click of a link reaches the browser.\<close>

fun click_passes :: "hook \<Rightarrow> string \<Rightarrow> string \<Rightarrow> blob_capture list \<Rightarrow> bool" where
  "click_passes Native download href cs = True"
| "click_passes (Patched i original) download href cs =
     (if download \<noteq> [] \<and> href \<in> set (bc_urls (cs ! i)) then False else click_passes original download href cs)"

datatype capture_event =
    BeginCapture
  | CreateUrl string bool
  | ClickLink string string
  | BlobRead nat string "js_error + byte list"
  | CaptureTimeout nat
  | TriggerThrew nat js_error
  | EndCapture nat

definition capture_timeout_error :: js_error where
  "capture_timeout_error = JsError ''The editor did not produce a file to save.''"

definition settle_capture :: "nat \<Rightarrow> js_error + byte list \<Rightarrow> browser \<Rightarrow> browser" where
  "settle_capture i r b =
     (let c = br_captures b ! i
      in if bc_settled c = None then b\<lparr>br_captures := (br_captures b)[i := c\<lparr>bc_settled := Some r\<rparr>]\<rparr> else b)"

definition begin_capture :: "browser \<Rightarrow> browser" where
  "begin_capture b =
     (let i = length (br_captures b)
      in b\<lparr>br_captures := br_captures b @ [\<lparr>bc_create = br_create b, bc_click = br_click b, bc_urls = [], bc_settled = None, bc_done = False\<rparr>],
           br_create := Patched i (br_create b), br_click := Patched i (br_click b)\<rparr>)"

definition end_capture :: "nat \<Rightarrow> browser \<Rightarrow> browser" where
  "end_capture i b =
     (let c = br_captures b ! i
      in b\<lparr>br_captures := (br_captures b)[i := c\<lparr>bc_done := True\<rparr>], br_create := bc_create c, br_click := bc_click c\<rparr>)"

fun capture_step :: "browser \<Rightarrow> capture_event \<Rightarrow> browser option" where
  "capture_step b BeginCapture = Some (begin_capture b)"
| "capture_step b (CreateUrl url nonempty) =
     Some (b\<lparr>br_captures := create_object_url (br_create b) url nonempty (br_captures b)\<rparr>)"
| "capture_step b (ClickLink download href) =
     Some (if click_passes (br_click b) download href (br_captures b)
           then b\<lparr>br_clicked := br_clicked b @ [(download, href)]\<rparr> else b)"
| "capture_step b (BlobRead i url r) =
     (if i < length (br_captures b) \<and> url \<in> set (bc_urls (br_captures b ! i)) then Some (settle_capture i r b) else None)"
| "capture_step b (CaptureTimeout i) =
     (if i < length (br_captures b) \<and> \<not> bc_done (br_captures b ! i)
      then Some (settle_capture i (Inl capture_timeout_error) b) else None)"
| "capture_step b (TriggerThrew i e) =
     (if i < length (br_captures b) \<and> \<not> bc_done (br_captures b ! i) then Some (settle_capture i (Inl e) b) else None)"
| "capture_step b (EndCapture i) =
     (if i < length (br_captures b) \<and> \<not> bc_done (br_captures b ! i) \<and> bc_settled (br_captures b ! i) \<noteq> None
      then Some (end_capture i b) else None)"

definition browser_start :: browser where
  "browser_start = \<lparr>br_create = Native, br_click = Native, br_captures = [], br_clicked = []\<rparr>"

section \<open>The shared engine and its caches\<close>

text \<open>
  Promises are numbered in the order they are made. A promise in a cache stays there whatever its outcome, so the outcomes
  do not matter to the caches. \<open>pe_opened\<close> lists the URLs an opening was asked for.
\<close>

record pdf_engine =
  pe_engine :: "nat option"
  pe_documents :: "string \<rightharpoonup> nat"
  pe_thumbnails :: "string \<rightharpoonup> nat"
  pe_started :: nat
  pe_imports :: nat
  pe_opened :: "string list"

definition load_shared_pdf_engine :: "pdf_engine \<Rightarrow> pdf_engine \<times> nat" where
  "load_shared_pdf_engine s =
     (case pe_engine s of
        Some p \<Rightarrow> (s, p)
      | None \<Rightarrow> (s\<lparr>pe_engine := Some (pe_started s), pe_started := Suc (pe_started s), pe_imports := Suc (pe_imports s)\<rparr>, pe_started s))"

definition load_pdf_document :: "string \<Rightarrow> pdf_engine \<Rightarrow> pdf_engine \<times> nat" where
  "load_pdf_document url s =
     (case pe_documents s url of
        Some p \<Rightarrow> (s, p)
      | None \<Rightarrow>
          let (s', e) = load_shared_pdf_engine s; p = pe_started s'
          in (s'\<lparr>pe_documents := (pe_documents s')(url \<mapsto> p), pe_started := Suc p, pe_opened := pe_opened s' @ [url]\<rparr>, p))"

definition thumbnail_key :: "(rat \<Rightarrow> string) \<Rightarrow> string \<Rightarrow> nat \<Rightarrow> rat \<Rightarrow> rat \<Rightarrow> string" where
  "thumbnail_key show_num url pageIndex width dpr =
     url @ ''#'' @ show_nat pageIndex @ ''@'' @ show_num width @ ''x'' @ show_num dpr"

definition render_pdf_thumbnail_url :: "string \<Rightarrow> string \<Rightarrow> pdf_engine \<Rightarrow> pdf_engine \<times> nat" where
  "render_pdf_thumbnail_url key url s =
     (case pe_thumbnails s key of
        Some p \<Rightarrow> (s, p)
      | None \<Rightarrow>
          let (s1, e) = load_shared_pdf_engine s; (s2, d) = load_pdf_document url s1; p = pe_started s2
          in (s2\<lparr>pe_thumbnails := (pe_thumbnails s2)(key \<mapsto> p), pe_started := Suc p\<rparr>, p))"

definition pdf_engine_start :: pdf_engine where
  "pdf_engine_start = \<lparr>pe_engine = None, pe_documents = Map.empty, pe_thumbnails = Map.empty, pe_started = 0, pe_imports = 0, pe_opened = []\<rparr>"

section \<open>Lemmas on the probe\<close>

lemma probe_commit_again: "probe_commit props (probe_commit props (probe_commit props st)) = probe_commit props (probe_commit props st)"
  by (auto simp: probe_commit_def start_fetch_def refresh_once_def Let_def)

text \<open>
  Once a render has settled: what is shown as ready answered so, and the silent refreshes of this document are none or one.
\<close>

definition probe_ok :: "string \<Rightarrow> probe_hook \<Rightarrow> bool" where
  "probe_ok key st \<longleftrightarrow>
     pb_key (ph_props st) = key \<and> ph_seen st = ph_probe st \<and>
     (ph_probe st = ProbeReady \<longrightarrow> \<not> falsy (pb_url (ph_props st)) \<and> ph_answer st = Some (the (pb_url (ph_props st)), True)) \<and>
     (ph_live st \<longrightarrow> \<not> falsy (pb_url (ph_props st)) \<and> ph_probe st = Probing \<and> ph_fetched st \<noteq> [] \<and>
        last (ph_fetched st) = the (pb_url (ph_props st))) \<and>
     ph_expired st = (if ph_refreshed st then [key] else [])"

lemma probe_render_ok:
  assumes "probe_ok key st" "pb_key props = key"
  shows "probe_ok key (probe_render props st)"
  using assms
  by (auto simp: probe_ok_def probe_render_def probe_commit_def start_fetch_def refresh_once_def Let_def)

lemma probe_answer_ok:
  assumes "probe_ok key st" "ph_live st"
  shows "probe_ok key (probe_render (ph_props st)
    (st\<lparr>ph_probe := (if ok then ProbeReady else ProbeFailed), ph_live := False, ph_answer := Some (the (pb_url (ph_props st)), ok)\<rparr>))"
  using assms
  by (auto simp: probe_ok_def probe_render_def probe_commit_def start_fetch_def refresh_once_def Let_def)

text \<open>A panel is mounted for one document; another document mounts another panel.\<close>

fun mounted_step :: "string \<Rightarrow> probe_hook \<Rightarrow> probe_event \<Rightarrow> probe_hook option" where
  "mounted_step key st (ProbeRendered props) = (if pb_key props = key then probe_step st (ProbeRendered props) else None)"
| "mounted_step key st (ProbeAnswered ok) = probe_step st (ProbeAnswered ok)"

lemma probe_mount_ok: "probe_ok (pb_key props) (probe_mount props)"
  by (auto simp: probe_ok_def probe_mount_def probe_render_def probe_commit_def start_fetch_def refresh_once_def Let_def)

interpretation probing: machine "mounted_step (pb_key props)" "probe_mount props" "probe_ok (pb_key props)"
  for props
proof
  show "probe_ok (pb_key props) (probe_mount props)" by (rule probe_mount_ok)
next
  fix st e st' assume ok: "probe_ok (pb_key props) st" and step: "mounted_step (pb_key props) st e = Some st'"
  show "probe_ok (pb_key props) st'"
  proof (cases e)
    case (ProbeRendered p)
    then show ?thesis using step probe_render_ok [OF ok, of p] by (auto split: if_splits)
  next
    case (ProbeAnswered b)
    then have live: "ph_live st" using step by (cases "ph_live st") auto
    from probe_answer_ok [OF ok live, of b] show ?thesis using step live ProbeAnswered by (simp only: mounted_step.simps probe_step.simps if_True option.inject)
  qed
qed

text \<open>
  C36: A viewer that stays on the screen shows a URL whose probe answered; and a mounted document refreshes its ticket
  silently at most once, whatever its renders and the answers.
\<close>
theorem probe_guards_viewer:
  assumes "exec (mounted_step (pb_key props)) (probe_mount props) es = Some st"
  shows "length (ph_expired st) \<le> 1 \<and>
    (document_panel message isError (pb_url (ph_props st)) (ph_probe st) = ViewerPanel url \<longrightarrow> ph_answer st = Some (url, True))"
  using probing.inv_exec [OF assms]
  by (auto simp: probe_ok_def document_panel_def split: if_splits) (cases "ph_probe st"; simp)+

theorem probe_guards_viewer_witness:
  "let props = \<lparr>pb_key = ''f1'', pb_url = Some ''https://c/1'', pb_onExpired = 0\<rparr>;
       st = the (exec (mounted_step ''f1'') (probe_mount props)
              [ProbeAnswered False, ProbeRendered (props\<lparr>pb_url := Some ''https://c/2'', pb_onExpired := 1\<rparr>), ProbeAnswered True])
   in ph_expired st = [''f1''] \<and> ph_answer st = Some (''https://c/2'', True)"
  using probe_guards_viewer [of "\<lparr>pb_key = ''f1'', pb_url = Some ''https://c/1'', pb_onExpired = 0\<rparr>"
    "[ProbeAnswered False, ProbeRendered \<lparr>pb_key = ''f1'', pb_url = Some ''https://c/2'', pb_onExpired = 1\<rparr>, ProbeAnswered True]"
    _ "[]" False "''https://c/2''"]
  by (simp add: probe_mount_def probe_render_def probe_commit_def start_fetch_def refresh_once_def falsy_def document_panel_def Let_def)

text \<open>
  A refetch that brings a new URL while the document is shown is rendered with the old answer first: the viewer is
  handed the new URL before it was probed, and is taken down again by the effect.
\<close>

lemma refetched_url_reaches_viewer:
  assumes "ph_probe st = ProbeReady" "u \<noteq> []" "Some u \<noteq> pb_url (ph_props st)" "u \<notin> set (ph_fetched st)"
  shows "pdf_preview_panel False (Some u) (ph_probe st) = ViewerPanel u \<and>
    ph_probe (probe_render ((ph_props st)\<lparr>pb_url := Some u\<rparr>) st) = Probing"
  using assms
  by (auto simp: pdf_preview_panel_def document_panel_def falsy_def probe_render_def probe_commit_def start_fetch_def refresh_once_def Let_def)

section \<open>Captures one at a time\<close>

definition idle_browser :: "browser \<Rightarrow> bool" where
  "idle_browser b \<longleftrightarrow> list_all bc_done (br_captures b)"

fun single_capture_step :: "browser \<Rightarrow> capture_event \<Rightarrow> browser option" where
  "single_capture_step b BeginCapture = (if idle_browser b then capture_step b BeginCapture else None)"
| "single_capture_step b e = capture_step b e"

definition capture_ok :: "browser \<Rightarrow> bool" where
  "capture_ok b \<longleftrightarrow>
     (let cs = br_captures b; i = length cs - 1
      in if idle_browser b then br_create b = Native \<and> br_click b = Native
         else cs \<noteq> [] \<and> list_all bc_done (butlast cs) \<and> \<not> bc_done (last cs) \<and>
              bc_create (last cs) = Native \<and> bc_click (last cs) = Native \<and>
              br_create b = Patched i Native \<and> br_click b = Patched i Native)"

lemma capture_ok_active:
  assumes "capture_ok b" "i < length (br_captures b)" "\<not> bc_done (br_captures b ! i)"
  shows "i = length (br_captures b) - 1" "br_create b = Patched i Native" "br_click b = Patched i Native"
    "bc_create (br_captures b ! i) = Native" "bc_click (br_captures b ! i) = Native"
proof -
  have "\<not> idle_browser b" using assms(2, 3) by (auto simp: idle_browser_def list_all_length)
  then have ok: "br_captures b \<noteq> []" "list_all bc_done (butlast (br_captures b))"
    "bc_create (last (br_captures b)) = Native" "bc_click (last (br_captures b)) = Native"
    "br_create b = Patched (length (br_captures b) - 1) Native" "br_click b = Patched (length (br_captures b) - 1) Native"
    using assms(1) by (simp_all add: capture_ok_def Let_def)
  show i: "i = length (br_captures b) - 1"
  proof (rule ccontr)
    assume "i \<noteq> length (br_captures b) - 1"
    then have "i < length (butlast (br_captures b))" using assms(2) by simp
    then show False using ok(2) assms(3) by (simp add: list_all_length nth_butlast)
  qed
  show "br_create b = Patched i Native" "br_click b = Patched i Native"
    "bc_create (br_captures b ! i) = Native" "bc_click (br_captures b ! i) = Native"
    using ok i by (simp_all add: last_conv_nth)
qed

text \<open>What the invariant reads of a capture; the URLs it noted and its outcome do not matter to it.\<close>

definition capture_frame :: "blob_capture \<Rightarrow> hook \<times> hook \<times> bool" where
  "capture_frame c = (bc_create c, bc_click c, bc_done c)"

lemma capture_ok_frame:
  assumes frames: "map capture_frame (br_captures b') = map capture_frame (br_captures b)"
    and hooks: "br_create b' = br_create b" "br_click b' = br_click b"
  shows "capture_ok b' = capture_ok b" "idle_browser b' = idle_browser b"
proof -
  have len: "length (br_captures b') = length (br_captures b)" using frames by (rule map_eq_imp_length_eq)
  have nth: "capture_frame (br_captures b' ! i) = capture_frame (br_captures b ! i)" if "i < length (br_captures b)" for i
    using frames that len by (metis nth_map)
  show idle: "idle_browser b' = idle_browser b"
    using nth len by (auto simp: idle_browser_def list_all_length capture_frame_def)
  have "list_all bc_done (butlast (br_captures b')) = list_all bc_done (butlast (br_captures b))"
    using nth len by (auto simp: list_all_length nth_butlast capture_frame_def)
  moreover have "capture_frame (last (br_captures b')) = capture_frame (last (br_captures b))" if "br_captures b \<noteq> []"
  proof -
    have "br_captures b' \<noteq> []" using that len by auto
    then show ?thesis using that nth [of "length (br_captures b) - 1"] len by (simp add: last_conv_nth)
  qed
  moreover have "br_captures b' = [] \<longleftrightarrow> br_captures b = []" using len by auto
  ultimately show "capture_ok b' = capture_ok b"
    using len idle hooks by (cases "br_captures b = []") (auto simp: capture_ok_def Let_def capture_frame_def)
qed

lemma create_object_url_frame:
  "map capture_frame (create_object_url h url nonempty cs) = map capture_frame cs"
proof (induction h)
  case (Patched i original)
  have "map capture_frame (note_url i url ds) = map capture_frame ds" for ds
    by (cases "i < length ds") (simp_all add: note_url_def map_update capture_frame_def list_update_beyond list_update_same_conv)
  then show ?case using Patched by (cases nonempty) (simp_all add: Let_def)
qed simp

lemma settle_capture_ok: "capture_ok (settle_capture i r b) = capture_ok b"
proof -
  have "map capture_frame (br_captures (settle_capture i r b)) = map capture_frame (br_captures b)"
    by (cases "i < length (br_captures b)")
       (simp_all add: settle_capture_def Let_def map_update capture_frame_def list_update_beyond list_update_same_conv)
  then show ?thesis by (rule capture_ok_frame) (simp_all add: settle_capture_def Let_def)
qed

lemma begin_capture_ok: "capture_ok b \<Longrightarrow> idle_browser b \<Longrightarrow> capture_ok (begin_capture b)"
  by (simp add: capture_ok_def begin_capture_def idle_browser_def Let_def)

lemma end_capture_ok:
  assumes ok: "capture_ok b" and i: "i < length (br_captures b)" "\<not> bc_done (br_captures b ! i)"
  shows "capture_ok (end_capture i b)"
proof -
  note act = capture_ok_active [OF ok i]
  have "\<not> idle_browser b" using i by (auto simp: idle_browser_def list_all_length)
  then have others: "list_all bc_done (butlast (br_captures b))" using ok by (simp add: capture_ok_def Let_def)
  have "bc_done ((br_captures b)[i := (br_captures b ! i)\<lparr>bc_done := True\<rparr>] ! j)" if "j < length (br_captures b)" for j
    using others act(1) that by (cases "j = i") (auto simp: list_all_length nth_butlast)
  then show ?thesis using act(4, 5) by (simp add: capture_ok_def idle_browser_def end_capture_def Let_def list_all_length)
qed

interpretation capturing: machine single_capture_step browser_start capture_ok
proof
  show "capture_ok browser_start" by (simp add: capture_ok_def browser_start_def idle_browser_def)
next
  fix b e b' assume ok: "capture_ok b" and step: "single_capture_step b e = Some b'"
  have new: "capture_ok (b\<lparr>br_captures := create_object_url (br_create b) url ne (br_captures b)\<rparr>)" for url ne
    using capture_ok_frame(1) [of "b\<lparr>br_captures := create_object_url (br_create b) url ne (br_captures b)\<rparr>" b] ok
    by (simp add: create_object_url_frame)
  have clicked: "capture_ok (b\<lparr>br_clicked := xs\<rparr>)" for xs
    using capture_ok_frame(1) [of "b\<lparr>br_clicked := xs\<rparr>" b] ok by simp
  show "capture_ok b'"
    using ok step new clicked settle_capture_ok begin_capture_ok end_capture_ok
    by (cases e) (auto split: if_splits)
qed

text \<open>What a capture that runs has noted: the URLs of the blobs with content that were made since it began.\<close>

fun ends_capture :: "capture_event \<Rightarrow> bool" where
  "ends_capture (EndCapture _) = True"
| "ends_capture _ = False"

definition noting :: "capture_event list \<Rightarrow> browser \<Rightarrow> bool" where
  "noting during b \<longleftrightarrow>
     capture_ok b \<and> \<not> idle_browser b \<and> set (bc_urls (last (br_captures b))) = {url. CreateUrl url True \<in> set during}"

lemma settle_capture_noting: "noting during (settle_capture i r b) = noting during b"
proof -
  have idle: "idle_browser (settle_capture i r b) = idle_browser b"
    by (cases "i < length (br_captures b)")
      (auto simp: settle_capture_def idle_browser_def Let_def list_all_length nth_list_update list_update_beyond)
  have "bc_urls (last (br_captures (settle_capture i r b))) = bc_urls (last (br_captures b))"
    by (cases "br_captures b = []"; cases "i = length (br_captures b) - 1")
      (auto simp: settle_capture_def Let_def last_list_update last_conv_nth)
  with idle show ?thesis by (simp add: noting_def settle_capture_ok)
qed

lemma noting_step:
  assumes "noting during b" "single_capture_step b e = Some b'" "\<not> ends_capture e"
  shows "noting (during @ [e]) b'"
proof -
  have ok: "capture_ok b" "\<not> idle_browser b" and urls: "set (bc_urls (last (br_captures b))) = {url. CreateUrl url True \<in> set during}"
    using assms(1) by (simp_all add: noting_def)
  have same: "noting (during @ [e]) t = noting during t" if "\<forall>url. e \<noteq> CreateUrl url True" for t
  proof -
    from that have "CreateUrl url True \<in> set (during @ [e]) \<longleftrightarrow> CreateUrl url True \<in> set during" for url by auto
    then show ?thesis by (simp only: noting_def)
  qed
  show ?thesis
  proof (cases e)
    case (CreateUrl url nonempty)
    let ?b = "b\<lparr>br_captures := create_object_url (br_create b) url nonempty (br_captures b)\<rparr>"
    have b': "b' = ?b" using assms(2) CreateUrl by simp
    have cs: "br_captures b \<noteq> []" and create: "br_create b = Patched (length (br_captures b) - 1) Native"
      using ok by (auto simp: capture_ok_def Let_def)
    have frame: "capture_ok ?b = capture_ok b" "idle_browser ?b = idle_browser b"
      using capture_ok_frame [of ?b b] by (simp_all add: create_object_url_frame)
    have "set (bc_urls (last (br_captures ?b))) = set (bc_urls (last (br_captures b))) \<union> (if nonempty then {url} else {})"
      using cs by (auto simp: create note_url_def last_list_update last_conv_nth js_set_add_def Let_def)
    then show ?thesis using ok frame urls CreateUrl by (auto simp: noting_def b')
  next
    case (ClickLink download href)
    have "noting during (b\<lparr>br_clicked := xs\<rparr>) = noting during b" for xs
      using capture_ok_frame [of "b\<lparr>br_clicked := xs\<rparr>" b] by (simp add: noting_def)
    with assms same ClickLink show ?thesis by (auto split: if_splits)
  next
    case BeginCapture
    with assms(2) ok show ?thesis by simp
  next
    case (BlobRead i url r)
    then have "b' = settle_capture i r b" using assms(2) by (simp split: if_splits)
    with BlobRead same assms(1) show ?thesis by (simp add: settle_capture_noting)
  next
    case (CaptureTimeout i)
    then have "b' = settle_capture i (Inl capture_timeout_error) b" using assms(2) by (simp split: if_splits)
    with CaptureTimeout same assms(1) show ?thesis by (simp add: settle_capture_noting)
  next
    case (TriggerThrew i err)
    then have "b' = settle_capture i (Inl err) b" using assms(2) by (simp split: if_splits)
    with TriggerThrew same assms(1) show ?thesis by (simp add: settle_capture_noting)
  next
    case (EndCapture i)
    with assms(3) show ?thesis by simp
  qed
qed

lemma noting_run:
  "noting during b \<Longrightarrow> exec single_capture_step b es = Some b' \<Longrightarrow> list_all (\<lambda>e. \<not> ends_capture e) es \<Longrightarrow> noting (during @ es) b'"
proof (induction es arbitrary: during b)
  case (Cons e es)
  then obtain c where c: "single_capture_step b e = Some c" "exec single_capture_step c es = Some b'" by (auto split: option.splits)
  with Cons.IH [OF noting_step [OF Cons.prems(1) c(1)]] Cons.prems(3) show ?case by simp
qed simp

text \<open>
  C37: A browser whose exports are captured one at a time is left as it was found: whenever no capture runs, both globals are the
  browser's own. While one runs, a click on a link is swallowed exactly when it is a download link of a URL that was made, for a
  blob with content, since that capture began; every other click reaches the browser.
\<close>
theorem export_capture_restores:
  assumes "exec single_capture_step browser_start es = Some b"
  shows "(idle_browser b \<longrightarrow> br_create b = Native \<and> br_click b = Native) \<and>
    (\<forall>before during. es = before @ BeginCapture # during \<and> list_all (\<lambda>e. \<not> ends_capture e) during \<longrightarrow>
      (\<exists>b'. single_capture_step b (ClickLink download href) = Some b' \<and>
        br_clicked b' = br_clicked b @ (if download \<noteq> [] \<and> CreateUrl href True \<in> set during then [] else [(download, href)])))"
proof (intro conjI impI allI)
  have ok: "capture_ok b" by (rule capturing.inv_exec [OF assms])
  then show "br_create b = Native" "br_click b = Native" if "idle_browser b" using that by (simp_all add: capture_ok_def)
  fix before during assume es: "es = before @ BeginCapture # during \<and> list_all (\<lambda>e. \<not> ends_capture e) during"
  then obtain b0 where b0: "exec single_capture_step browser_start before = Some b0" "idle_browser b0"
      "exec single_capture_step (begin_capture b0) during = Some b"
    using assms by (auto simp: exec_append split: option.splits if_splits)
  have "noting [] (begin_capture b0)"
    using begin_capture_ok [OF capturing.inv_exec [OF b0(1)] b0(2)] by (simp add: noting_def begin_capture_def idle_browser_def Let_def)
  from noting_run [OF this b0(3)] es have n: "noting during b" by simp
  then have "br_captures b ! (length (br_captures b) - 1) = last (br_captures b)" "br_click b = Patched (length (br_captures b) - 1) Native"
    using last_conv_nth [of "br_captures b"] by (auto simp: noting_def capture_ok_def Let_def)
  with n show "\<exists>b'. single_capture_step b (ClickLink download href) = Some b' \<and>
      br_clicked b' = br_clicked b @ (if download \<noteq> [] \<and> CreateUrl href True \<in> set during then [] else [(download, href)])"
    by (simp add: noting_def)
qed

theorem export_capture_restores_witness:
  "let es = [CreateUrl ''blob:0'' True, BeginCapture, CreateUrl ''blob:1'' True, ClickLink ''a.pdf'' ''blob:1'', BlobRead 0 ''blob:1'' (Inr [7])];
       b = the (exec single_capture_step browser_start es)
   in br_clicked (the (single_capture_step b (ClickLink ''a.pdf'' ''blob:1''))) = [] \<and>
      br_clicked (the (single_capture_step b (ClickLink ''a.pdf'' ''blob:0''))) = [(''a.pdf'', ''blob:0'')]"
proof -
  let ?during = "[CreateUrl ''blob:1'' True, ClickLink ''a.pdf'' ''blob:1'', BlobRead 0 ''blob:1'' (Inr [7])]"
  let ?es = "[CreateUrl ''blob:0'' True] @ BeginCapture # ?during"
  define b where "b = the (exec single_capture_step browser_start ?es)"
  have run: "exec single_capture_step browser_start ?es = Some b" and clicked: "br_clicked b = []"
    by (simp_all add: b_def browser_start_def begin_capture_def settle_capture_def note_url_def idle_browser_def js_set_add_def Let_def)
  have split: "?es = [CreateUrl ''blob:0'' True] @ BeginCapture # ?during \<and> list_all (\<lambda>e. \<not> ends_capture e) ?during" by simp
  note click = export_capture_restores [OF run, THEN conjunct2, rule_format, OF split]
  from click [of "''a.pdf''" "''blob:1''"] click [of "''a.pdf''" "''blob:0''"] clicked
  show ?thesis unfolding Let_def b_def [simplified, symmetric] by (auto simp: b_def [simplified, symmetric])
qed

text \<open>
  Two captures that overlap: the first one to end takes the second one's patch away, and the second one puts the first
  one's patch back, for good. A later download link of a URL that capture noted does nothing.
\<close>

lemma overlapping_captures_stay_patched:
  "let b = the (exec capture_step browser_start
        [BeginCapture, BeginCapture, CaptureTimeout 0, EndCapture 0, CaptureTimeout 1, EndCapture 1,
         CreateUrl ''blob:1'' True, ClickLink ''a.pdf'' ''blob:1''])
   in idle_browser b \<and> br_create b = Patched 0 Native \<and> br_click b = Patched 0 Native \<and> br_clicked b = []"
  by (simp add: browser_start_def begin_capture_def end_capture_def settle_capture_def note_url_def idle_browser_def
      js_set_add_def Let_def)

section \<open>What the caches share\<close>

datatype pdf_call = LoadEngine | LoadDocument string | RenderThumbnail string string

fun engine_call :: "pdf_call \<Rightarrow> pdf_engine \<Rightarrow> pdf_engine \<times> nat" where
  "engine_call LoadEngine s = load_shared_pdf_engine s"
| "engine_call (LoadDocument url) s = load_pdf_document url s"
| "engine_call (RenderThumbnail key url) s = render_pdf_thumbnail_url key url s"

definition engine_step :: "pdf_engine \<Rightarrow> pdf_call \<Rightarrow> pdf_engine option" where
  "engine_step s c = Some (fst (engine_call c s))"

text \<open>What a call finds in its cache.\<close>

fun cached_call :: "pdf_call \<Rightarrow> pdf_engine \<Rightarrow> nat option" where
  "cached_call LoadEngine s = pe_engine s"
| "cached_call (LoadDocument url) s = pe_documents s url"
| "cached_call (RenderThumbnail key url) s = pe_thumbnails s key"

lemmas engine_defs = load_shared_pdf_engine_def load_pdf_document_def render_pdf_thumbnail_url_def

lemma call_cached: "cached_call c s = Some p \<Longrightarrow> engine_call c s = (s, p)"
  by (cases c) (simp_all add: engine_defs)

lemma call_caches: "cached_call c (fst (engine_call c s)) = Some (snd (engine_call c s))"
  by (cases c) (auto simp: engine_defs Let_def split: option.splits prod.splits)

lemma call_keeps: "cached_call c s = Some p \<Longrightarrow> cached_call c (fst (engine_call d s)) = Some p"
  by (cases c; cases d) (auto simp: engine_defs Let_def split: option.splits prod.splits)

lemma run_keeps: "exec engine_step s cs = Some s' \<Longrightarrow> cached_call c s = Some p \<Longrightarrow> cached_call c s' = Some p"
  by (induction cs arbitrary: s) (auto simp: engine_step_def dest: call_keeps)

definition engine_ok :: "pdf_engine \<Rightarrow> bool" where
  "engine_ok s \<longleftrightarrow> pe_imports s = (if pe_engine s = None then 0 else 1) \<and> distinct (pe_opened s) \<and>
     set (pe_opened s) = dom (pe_documents s)"

lemma engine_call_ok: "engine_ok s \<Longrightarrow> engine_ok (fst (engine_call c s))"
  by (cases c) (auto simp: engine_ok_def engine_defs Let_def split: option.splits prod.splits)

interpretation engine: machine engine_step pdf_engine_start engine_ok
proof
  show "engine_ok pdf_engine_start" by (simp add: engine_ok_def pdf_engine_start_def)
next
  fix s c s' assume "engine_ok s" "engine_step s c = Some s'"
  then show "engine_ok s'" using engine_call_ok by (auto simp: engine_step_def)
qed

text \<open>
  However the previews ask for it, the engine is imported at most once and each URL is opened at most once; and a call
  made before returns the promise it returned then, whatever came of it, and starts nothing.
\<close>
theorem pdf_engine_is_shared:
  assumes "exec engine_step pdf_engine_start es = Some s" "exec engine_step (fst (engine_call c s)) es' = Some s'"
  shows "pe_imports s' \<le> 1 \<and> distinct (pe_opened s') \<and> engine_call c s' = (s', snd (engine_call c s))"
proof -
  have "engine_ok (fst (engine_call c s))" using engine.inv_exec [OF assms(1)] by (rule engine_call_ok)
  then have "engine_ok s'" using assms(2) by (rule engine.inv_exec_from)
  moreover have "engine_call c s' = (s', snd (engine_call c s))"
    using assms(2) by (intro call_cached run_keeps [OF assms(2)] call_caches)
  ultimately show ?thesis by (simp add: engine_ok_def)
qed

theorem pdf_engine_is_shared_witness:
  "let s = the (exec engine_step pdf_engine_start [LoadDocument ''u'', RenderThumbnail ''u#0'' ''u'', RenderThumbnail ''u#1'' ''u''])
   in pe_opened s = [''u''] \<and> pe_started s = 4 \<and> snd (engine_call (RenderThumbnail ''u#0'' ''u'') s) = 2"
  using pdf_engine_is_shared [of "[LoadDocument ''u'']" _ "RenderThumbnail ''u#0'' ''u''" "[RenderThumbnail ''u#1'' ''u'']"]
  by (simp add: engine_step_def engine_defs pdf_engine_start_def)

end
