(* ===== verification/Spreadsheet.thy ===== *)
theory Spreadsheet
  imports Numbers
begin

text \<open>
  Cells, ranges, styles, colours and number formats of the workbook editor
  (web/src/components/extend/xlsx-editor.tsx), with the cell names of the viewer (web/src/components/extend/xlsx-viewer.tsx).

  Rows and columns are natural numbers, as the library that holds the workbook counts them. Styles are plain objects and
  are modelled as such, with the values a foreign object can have.
\<close>

section \<open>Values\<close>

text \<open>A value that came from outside; a number that is not finite is \<open>JsNum None\<close>.\<close>

datatype js_value =
    JsUndefined
  | JsNull
  | JsBool bool
  | JsNum "rat option"
  | JsStr string
  | JsArr "js_value list"
  | JsObj "(string \<times> js_value) list"

fun js_truthy :: "js_value \<Rightarrow> bool" where
  "js_truthy JsUndefined = False"
| "js_truthy JsNull = False"
| "js_truthy (JsBool b) = b"
| "js_truthy (JsNum q) = (q \<noteq> None \<and> q \<noteq> Some 0)"
| "js_truthy (JsStr s) = (s \<noteq> [])"
| "js_truthy (JsArr vs) = True"
| "js_truthy (JsObj fs) = True"

definition js_nullish :: "js_value \<Rightarrow> bool" where
  "js_nullish v \<longleftrightarrow> v = JsUndefined \<or> v = JsNull"

definition js_field :: "(string \<times> js_value) list \<Rightarrow> string \<Rightarrow> js_value" where
  "js_field fs name = (case map_of fs name of None \<Rightarrow> JsUndefined | Some v \<Rightarrow> v)"

text \<open>\<open>{ ...a, ...b }\<close>.\<close>

definition js_spread :: "(string \<times> js_value) list \<Rightarrow> (string \<times> js_value) list \<Rightarrow> (string \<times> js_value) list" where
  "js_spread a b = foldl (\<lambda>m (k, v). AList.update k v m) (js_map_of a) b"

fun as_resolved_style_group :: "js_value \<Rightarrow> (string \<times> js_value) list option" where
  "as_resolved_style_group (JsObj fs) = Some fs"
| "as_resolved_style_group _ = None"

definition group_field :: "(string \<times> js_value) list option \<Rightarrow> string \<Rightarrow> js_value" where
  "group_field g name = (case g of None \<Rightarrow> JsUndefined | Some fs \<Rightarrow> js_field fs name)"

definition js_int :: "int \<Rightarrow> js_value" where
  "js_int i = JsNum (Some (of_int i))"

text \<open>\<open>Math.max(0, Math.trunc(value))\<close> of a finite number.\<close>

definition trunc_nat :: "rat \<Rightarrow> nat" where
  "trunc_nat q = nat \<lfloor>q\<rfloor>"

fun get_numeric_value :: "js_value \<Rightarrow> nat option" where
  "get_numeric_value (JsNum (Some q)) = Some (trunc_nat q)"
| "get_numeric_value _ = None"

section \<open>Cells and ranges\<close>

record cell_address =
  ca_row :: nat
  ca_col :: nat

record cell_range =
  cr_start :: cell_address
  cr_end :: cell_address

definition normalize_cell_range :: "cell_range \<Rightarrow> cell_range" where
  "normalize_cell_range r =
     \<lparr>cr_start = \<lparr>ca_row = min (ca_row (cr_start r)) (ca_row (cr_end r)), ca_col = min (ca_col (cr_start r)) (ca_col (cr_end r))\<rparr>,
      cr_end = \<lparr>ca_row = max (ca_row (cr_start r)) (ca_row (cr_end r)), ca_col = max (ca_col (cr_start r)) (ca_col (cr_end r))\<rparr>\<rparr>"

definition ranges_intersect :: "cell_range \<Rightarrow> cell_range \<Rightarrow> bool" where
  "ranges_intersect a b =
     (let p = normalize_cell_range a; q = normalize_cell_range b
      in ca_row (cr_start p) \<le> ca_row (cr_end q) \<and> ca_row (cr_end p) \<ge> ca_row (cr_start q) \<and>
         ca_col (cr_start p) \<le> ca_col (cr_end q) \<and> ca_col (cr_end p) \<ge> ca_col (cr_start q))"

definition is_single_cell_range :: "cell_range \<Rightarrow> bool" where
  "is_single_cell_range r =
     (let n = normalize_cell_range r
      in ca_row (cr_start n) = ca_row (cr_end n) \<and> ca_col (cr_start n) = ca_col (cr_end n))"

text \<open>The two ways a column is named: the editor's loop over the index, the viewer's over the number one higher.\<close>

definition letter :: "nat \<Rightarrow> char" where
  "letter d = char_of (65 + d)"

fun column_label_loop :: "nat \<Rightarrow> string \<Rightarrow> string" where
  "column_label_loop v label =
     (let label' = letter (v mod 26) # label
      in if v div 26 = 0 then label' else column_label_loop (v div 26 - 1) label')"

declare column_label_loop.simps [simp del]

definition get_cell_column_label :: "nat \<Rightarrow> string" where
  "get_cell_column_label col = column_label_loop col []"

fun column_name_loop :: "nat \<Rightarrow> string \<Rightarrow> string" where
  "column_name_loop n name =
     (if n = 0 then name else column_name_loop ((n - 1) div 26) (letter ((n - 1) mod 26) # name))"

declare column_name_loop.simps [simp del]

definition cell_address_to_a1 :: "cell_address \<Rightarrow> string" where
  "cell_address_to_a1 c = get_cell_column_label (ca_col c) @ show_nat (ca_row c + 1)"

definition viewer_cell_address_to_a1 :: "cell_address \<Rightarrow> string" where
  "viewer_cell_address_to_a1 c = column_name_loop (ca_col c + 1) [] @ show_nat (ca_row c + 1)"

definition range_to_a1 :: "cell_range \<Rightarrow> string" where
  "range_to_a1 r =
     (let n = normalize_cell_range r in cell_address_to_a1 (cr_start n) @ '':'' @ cell_address_to_a1 (cr_end n))"

definition get_range_key :: "cell_range \<Rightarrow> string" where
  "get_range_key r =
     (let n = normalize_cell_range r
      in show_nat (ca_row (cr_start n)) @ '':'' @ show_nat (ca_col (cr_start n)) @ '':'' @
         show_nat (ca_row (cr_end n)) @ '':'' @ show_nat (ca_col (cr_end n)))"

text \<open>The merged regions of a worksheet, whatever shape the library reports them in.\<close>

definition merge_region_entry :: "js_value \<Rightarrow> cell_range list" where
  "merge_region_entry entry =
     (case entry of
        JsObj region \<Rightarrow>
          (let start = as_resolved_style_group (js_field region ''start'');
               finish = as_resolved_style_group (js_field region ''end'');
               pick = (\<lambda>name group field. if js_nullish (js_field region name) then group_field group field else js_field region name)
           in case (get_numeric_value (pick ''startRow'' start ''row''), get_numeric_value (pick ''startCol'' start ''col''),
                    get_numeric_value (pick ''endRow'' finish ''row''), get_numeric_value (pick ''endCol'' finish ''col'')) of
                (Some sr, Some sc, Some er, Some ec) \<Rightarrow>
                  [normalize_cell_range \<lparr>cr_start = \<lparr>ca_row = sr, ca_col = sc\<rparr>, cr_end = \<lparr>ca_row = er, ca_col = ec\<rparr>\<rparr>]
              | _ \<Rightarrow> [])
      | _ \<Rightarrow> [])"

definition get_worksheet_merge_regions :: "js_value \<Rightarrow> cell_range list" where
  "get_worksheet_merge_regions regions =
     (case regions of JsArr entries \<Rightarrow> concat (map merge_region_entry entries) | _ \<Rightarrow> [])"

section \<open>Colours\<close>

definition default_text_color :: string where "default_text_color = ''#111827''"
definition default_fill_color :: string where "default_fill_color = ''#fde68a''"
definition default_border_color :: string where "default_border_color = ''#111827''"

definition normalize_hex_color :: "string \<Rightarrow> string \<Rightarrow> string" where
  "normalize_hex_color value fallback =
     (let trimmed = js_trim value; body = (if starts_with trimmed ''#'' then tl trimmed else trimmed)
      in if length body = 3 \<and> list_all is_hex body
         then to_lower (''#'' @ concat (map (\<lambda>c. [c, c]) body))
         else if length body = 6 \<and> list_all is_hex body then ''#'' @ to_lower body else fallback)"

definition to_xlsx_rgb_color :: "string \<Rightarrow> js_value" where
  "to_xlsx_rgb_color value =
     JsObj [(''colorType'', JsStr ''rgb''), (''hex'', JsStr (to_upper (tl (normalize_hex_color value default_text_color))))]"

section \<open>Styles\<close>

type_synonym style = "(string \<times> js_value) list"

definition merge_resolved_cell_style :: "style option \<Rightarrow> style option \<Rightarrow> style option" where
  "merge_resolved_cell_style base overlay =
     (if base = None \<and> overlay = None then None
      else
        (let b = (case base of None \<Rightarrow> [] | Some fs \<Rightarrow> fs); o' = (case overlay of None \<Rightarrow> [] | Some fs \<Rightarrow> fs);
             next = js_spread b o';
             font = (case as_resolved_style_group (group_field overlay ''font'') of
                       Some f \<Rightarrow> Some f | None \<Rightarrow> as_resolved_style_group (group_field base ''font''))
         in Some (case font of None \<Rightarrow> next | Some f \<Rightarrow> AList.update ''font'' (JsObj f) next)))"

record sheet_styles =
  ss_col_style_ids :: "nat \<rightharpoonup> nat"
  ss_row_style_ids :: "nat \<rightharpoonup> nat"
  ss_style_by_id :: "nat \<rightharpoonup> style"

definition resolve_inherited_cell_style :: "sheet_styles option \<Rightarrow> nat \<Rightarrow> nat \<Rightarrow> style option" where
  "resolve_inherited_cell_style sheet row col =
     (case sheet of
        None \<Rightarrow> None
      | Some s \<Rightarrow>
          merge_resolved_cell_style
            (case ss_col_style_ids s col of None \<Rightarrow> None | Some i \<Rightarrow> ss_style_by_id s i)
            (case ss_row_style_ids s row of None \<Rightarrow> None | Some i \<Rightarrow> ss_style_by_id s i))"

datatype font_toggle = Bold | Italic | Underline | Strikethrough

definition style_group :: "style option \<Rightarrow> string \<Rightarrow> (string \<times> js_value) list option" where
  "style_group st name = as_resolved_style_group (group_field st name)"

definition get_font_toggle_values :: "style option \<Rightarrow> font_toggle list" where
  "get_font_toggle_values st =
     (let font = style_group st ''font''; underline = group_field font ''underline''
      in (if group_field font ''bold'' = JsBool True then [Bold] else []) @
         (if group_field font ''italic'' = JsBool True then [Italic] else []) @
         (if js_truthy underline \<and> underline \<noteq> JsStr ''none'' then [Underline] else []) @
         (if group_field font ''strikethrough'' = JsBool True then [Strikethrough] else []))"

definition get_font_family_value :: "style option \<Rightarrow> string option" where
  "get_font_family_value st =
     (case group_field (style_group st ''font'') ''name'' of
        JsStr s \<Rightarrow> if js_trim s \<noteq> [] then Some (js_trim s) else None
      | _ \<Rightarrow> None)"

definition get_horizontal_alignment_value :: "style option \<Rightarrow> string list" where
  "get_horizontal_alignment_value st =
     (case group_field (style_group st ''alignment'') ''horizontal'' of
        JsStr s \<Rightarrow> if s \<in> {''left'', ''center'', ''right''} then [s] else []
      | _ \<Rightarrow> [])"

definition get_vertical_alignment_value :: "style option \<Rightarrow> string list" where
  "get_vertical_alignment_value st =
     (let vertical = group_field (style_group st ''alignment'') ''vertical''
      in if js_nullish vertical then [''bottom'']
         else case vertical of JsStr s \<Rightarrow> if s \<in> {''top'', ''center'', ''bottom''} then [s] else [] | _ \<Rightarrow> [])"

section \<open>Number formats\<close>

record number_format_option =
  nf_string :: "string option"
  nf_type :: string
  nf_id :: "nat option"
  nf_label :: string
  nf_value :: string

definition number_format_options :: "number_format_option list" where
  "number_format_options =
     [\<lparr>nf_string = None, nf_type = ''general'', nf_id = None, nf_label = ''General'', nf_value = ''General''\<rparr>,
      \<lparr>nf_string = Some ''0.00'', nf_type = ''custom'', nf_id = None, nf_label = ''Number'', nf_value = ''Number''\<rparr>,
      \<lparr>nf_string = Some ''$#,##0.00'', nf_type = ''custom'', nf_id = None, nf_label = ''Currency'', nf_value = ''Currency''\<rparr>,
      \<lparr>nf_string = Some ''0.00%'', nf_type = ''custom'', nf_id = None, nf_label = ''Percent'', nf_value = ''Percent''\<rparr>,
      \<lparr>nf_string = Some ''m/d/yyyy'', nf_type = ''custom'', nf_id = None, nf_label = ''Date'', nf_value = ''Date''\<rparr>]"

definition builtin_prefix :: string where "builtin_prefix = ''builtin:''"

definition get_number_format_value :: "style option \<Rightarrow> string" where
  "get_number_format_value st =
     (case style_group st ''numberFormat'' of
        None \<Rightarrow> ''General''
      | Some numberFormat \<Rightarrow>
          (let formatString = (case js_field numberFormat ''formatString'' of JsStr s \<Rightarrow> js_trim s | _ \<Rightarrow> []);
               id = get_numeric_value (js_field numberFormat ''id'')
           in if formatString \<noteq> [] then
                (case find (\<lambda>option. nf_string option = Some formatString) number_format_options of
                   Some option \<Rightarrow> nf_value option | None \<Rightarrow> formatString)
              else if js_field numberFormat ''formatType'' = JsStr ''builtin'' \<and> id \<noteq> None then
                (case find (\<lambda>option. nf_id option = id) number_format_options of
                   Some option \<Rightarrow> nf_value option | None \<Rightarrow> builtin_prefix @ show_nat (the id))
              else ''General''))"

definition get_number_format_label :: "string \<Rightarrow> string" where
  "get_number_format_label value =
     (if value = ''General'' then ''General''
      else case find (\<lambda>option. nf_value option = value) number_format_options of
             Some option \<Rightarrow> nf_label option
           | None \<Rightarrow> if starts_with value builtin_prefix then ''Builtin '' @ drop (length builtin_prefix) value else value)"

definition js_optional :: "('a \<Rightarrow> js_value) \<Rightarrow> 'a option \<Rightarrow> js_value" where
  "js_optional f x = (case x of None \<Rightarrow> JsUndefined | Some v \<Rightarrow> f v)"

definition create_number_format_style :: "string \<Rightarrow> style" where
  "create_number_format_style value =
     [(''numberFormat'', JsObj
        (case find (\<lambda>option. nf_value option = value) number_format_options of
           Some option \<Rightarrow>
             [(''formatString'', js_optional JsStr (nf_string option)), (''formatType'', JsStr (nf_type option)),
              (''id'', js_optional (\<lambda>n. JsNum (Some (of_nat n))) (nf_id option))]
         | None \<Rightarrow>
             (case (if starts_with value builtin_prefix then js_number (drop (length builtin_prefix) value) else None) of
                Some q \<Rightarrow> [(''formatType'', JsStr ''builtin''), (''id'', JsNum (Some (of_nat (trunc_nat q))))]
              | None \<Rightarrow> [(''formatString'', JsStr value), (''formatType'', JsStr ''custom'')])))]"

section \<open>Names of cells\<close>

lemma letter_code: "d < 26 \<Longrightarrow> of_char (letter d) = (65 + d :: nat)"
  by (simp add: letter_def)

lemma letter_not_digit: "d < 26 \<Longrightarrow> \<not> is_digit (letter d) \<and> letter d \<noteq> CHR '':''"
proof -
  assume d: "d < 26"
  have digits: "of_char c < (58 :: nat)" if "is_digit c" for c using that by (auto simp: is_digit_def)
  have "of_char (letter d) \<noteq> (of_char CHR '':'' :: nat)" using letter_code [OF d] by simp
  then show ?thesis using letter_code [OF d] digits [of "letter d"] by force
qed

lemma column_label_loop_step:
  "column_label_loop v label =
    (if v < 26 then letter v # label else column_label_loop (v div 26 - 1) (letter (v mod 26) # label))"
  by (subst column_label_loop.simps) (auto simp: Let_def div_eq_0_iff)

lemma column_label_loop_acc: "column_label_loop v label = column_label_loop v [] @ label"
proof (induction v arbitrary: label rule: less_induct)
  case (less v)
  show ?case
  proof (cases "v < 26")
    case True
    then show ?thesis by (simp add: column_label_loop_step [of v])
  next
    case False
    then have "v div 26 - 1 < v" by auto
    from less [OF this, of "[letter (v mod 26)]"] less [OF this, of "letter (v mod 26) # label"] False
    show ?thesis by (simp add: column_label_loop_step [of v])
  qed
qed

lemma label_step:
  "get_cell_column_label v = (if v < 26 then [] else get_cell_column_label (v div 26 - 1)) @ [letter (v mod 26)]"
  using column_label_loop_acc [of "v div 26 - 1" "[letter (v mod 26)]"]
  by (simp add: get_cell_column_label_def column_label_loop_step [of v])

text \<open>The column a label stands for, counted from one, in the bijective numeration with 26 digits.\<close>

definition label_value :: "string \<Rightarrow> nat" where
  "label_value s = foldl (\<lambda>n c. n * 26 + (of_char c - 64)) 0 s"

lemma label_column: "label_value (get_cell_column_label v) = v + 1"
proof (induction v rule: less_induct)
  case (less v)
  have digit: "of_char (letter (v mod 26)) - 64 = v mod 26 + 1" using letter_code [of "v mod 26"] by simp
  show ?case
  proof (cases "v < 26")
    case True
    then show ?thesis using digit by (simp add: label_step [of v] label_value_def)
  next
    case False
    then have "0 < v div 26" "v div 26 - 1 < v" by auto
    then have "label_value (get_cell_column_label (v div 26 - 1)) = v div 26" using less by simp
    then have "label_value (get_cell_column_label v) = v div 26 * 26 + (v mod 26 + 1)"
      using False digit by (simp add: label_step [of v] label_value_def)
    then show ?thesis by simp
  qed
qed

lemma label_letters: "c \<in> set (get_cell_column_label v) \<Longrightarrow> \<not> is_digit c \<and> c \<noteq> CHR '':''"
proof (induction v rule: less_induct)
  case (less v)
  have "v div 26 - 1 < v" if "\<not> v < 26" using that by auto
  then show ?case
    using less letter_not_digit [of "v mod 26"] by (cases "v < 26") (auto simp: label_step [of v])
qed

lemma digits_no_colon: "CHR '':'' \<notin> set (show_nat n)"
proof -
  have "\<forall>c\<in>set (show_nat n). is_digit c" using show_nat_parses [of n] unfolding list_all_iff by blast
  moreover have "\<not> is_digit CHR '':''" by (simp add: is_digit_def)
  ultimately show ?thesis by blast
qed

lemma a1_no_colon: "CHR '':'' \<notin> set (cell_address_to_a1 c)"
  using digits_no_colon label_letters by (auto simp: cell_address_to_a1_def)

lemma a1_parts:
  "takeWhile (\<lambda>x. \<not> is_digit x) (cell_address_to_a1 c) = get_cell_column_label (ca_col c)"
  "dropWhile (\<lambda>x. \<not> is_digit x) (cell_address_to_a1 c) = show_nat (ca_row c + 1)"
proof -
  have row: "show_nat (ca_row c + 1) \<noteq> []" "is_digit (hd (show_nat (ca_row c + 1)))"
    using show_nat_parses [of "ca_row c + 1"] show_nat_hd_last(1) [of "ca_row c + 1"] by simp_all
  then have row': "takeWhile (\<lambda>x. \<not> is_digit x) (show_nat (ca_row c + 1)) = []"
    "dropWhile (\<lambda>x. \<not> is_digit x) (show_nat (ca_row c + 1)) = show_nat (ca_row c + 1)"
    by (simp_all only: takeWhile_eq_Nil_iff dropWhile_eq_self_iff simp_thms)
  have cut: "takeWhile P (xs @ ys) = xs @ takeWhile P ys \<and> dropWhile P (xs @ ys) = dropWhile P ys" if "\<forall>x\<in>set xs. P x"
    for P and xs ys :: string using that by simp
  have "\<forall>x\<in>set (get_cell_column_label (ca_col c)). \<not> is_digit x" using label_letters by blast
  from cut [OF this, of "show_nat (ca_row c + 1)"] row'
  show "takeWhile (\<lambda>x. \<not> is_digit x) (cell_address_to_a1 c) = get_cell_column_label (ca_col c)"
    "dropWhile (\<lambda>x. \<not> is_digit x) (cell_address_to_a1 c) = show_nat (ca_row c + 1)"
    by (simp_all only: cell_address_to_a1_def append_Nil2)
qed

lemma a1_inj: "cell_address_to_a1 c = cell_address_to_a1 d \<Longrightarrow> c = d"
proof -
  assume eq: "cell_address_to_a1 c = cell_address_to_a1 d"
  have "get_cell_column_label (ca_col c) = get_cell_column_label (ca_col d)" using a1_parts(1) eq by metis
  then have "ca_col c = ca_col d" using label_column by (metis add_right_cancel)
  moreover have "show_nat (ca_row c + 1) = show_nat (ca_row d + 1)" using a1_parts(2) eq by metis
  then have "ca_row c = ca_row d" using show_nat_inj by fastforce
  ultimately show "c = d" by (cases c; cases d) simp
qed

lemma column_name_loop_label: "column_name_loop (v + 1) name = column_label_loop v name"
proof (induction v arbitrary: name rule: less_induct)
  case (less v)
  have step: "column_name_loop (Suc v) name = column_name_loop (v div 26) (letter (v mod 26) # name)"
    by (simp add: column_name_loop.simps [of "Suc v"])
  show ?case
  proof (cases "v < 26")
    case True
    then show ?thesis by (simp add: step column_label_loop_step [of v] column_name_loop.simps [of 0])
  next
    case False
    then have "v div 26 - 1 < v" "v div 26 - 1 + 1 = v div 26" by auto
    with less [of "v div 26 - 1" "letter (v mod 26) # name"] False show ?thesis
      by (simp add: step column_label_loop_step [of v])
  qed
qed

text \<open>
  The viewer and the editor name every cell alike, by two different loops, and no two cells share a name; the column
  part counts in letters from A.
\<close>
theorem a1_names_cells:
  "viewer_cell_address_to_a1 c = cell_address_to_a1 c \<and>
   (cell_address_to_a1 c = cell_address_to_a1 d \<longleftrightarrow> c = d) \<and>
   label_value (get_cell_column_label col) = col + 1"
  using a1_inj column_name_loop_label
  by (auto simp: viewer_cell_address_to_a1_def cell_address_to_a1_def get_cell_column_label_def label_column [unfolded get_cell_column_label_def])

section \<open>Ranges\<close>

definition in_range :: "cell_address \<Rightarrow> cell_range \<Rightarrow> bool" where
  "in_range c r \<longleftrightarrow>
     (let n = normalize_cell_range r
      in ca_row (cr_start n) \<le> ca_row c \<and> ca_row c \<le> ca_row (cr_end n) \<and>
         ca_col (cr_start n) \<le> ca_col c \<and> ca_col c \<le> ca_col (cr_end n))"

lemma normalize_idem [simp]: "normalize_cell_range (normalize_cell_range r) = normalize_cell_range r"
  by (simp add: normalize_cell_range_def)

lemma normalize_ordered:
  "ca_row (cr_start (normalize_cell_range r)) \<le> ca_row (cr_end (normalize_cell_range r))"
  "ca_col (cr_start (normalize_cell_range r)) \<le> ca_col (cr_end (normalize_cell_range r))"
  by (simp_all add: normalize_cell_range_def)

lemma in_normalized [simp]: "in_range c (normalize_cell_range r) = in_range c r"
  by (simp add: in_range_def)

lemma corners_in: "in_range (cr_start (normalize_cell_range r)) r" "in_range (cr_end (normalize_cell_range r)) r"
  by (simp_all add: in_range_def Let_def normalize_ordered)

lemma in_range_single: "in_range c \<lparr>cr_start = d, cr_end = d\<rparr> \<longleftrightarrow> c = d"
  by (cases c; cases d) (auto simp: in_range_def normalize_cell_range_def)

lemma ranges_intersect_shared: "ranges_intersect a b \<longleftrightarrow> (\<exists>c. in_range c a \<and> in_range c b)"
proof
  assume meet: "ranges_intersect a b"
  define c where "c = \<lparr>ca_row = max (ca_row (cr_start (normalize_cell_range a))) (ca_row (cr_start (normalize_cell_range b))),
    ca_col = max (ca_col (cr_start (normalize_cell_range a))) (ca_col (cr_start (normalize_cell_range b)))\<rparr>"
  have "in_range c a \<and> in_range c b"
    using meet normalize_ordered [of a] normalize_ordered [of b]
    by (simp add: ranges_intersect_def in_range_def c_def Let_def)
  then show "\<exists>c. in_range c a \<and> in_range c b" by blast
qed (auto simp: ranges_intersect_def in_range_def Let_def)

lemma ranges_intersect_sym: "ranges_intersect a b = ranges_intersect b a"
  by (auto simp: ranges_intersect_shared)

lemma range_cells_determine:
  assumes "\<And>c. in_range c a = in_range c b"
  shows "normalize_cell_range a = normalize_cell_range b"
proof -
  have corners: "in_range (cr_start (normalize_cell_range a)) b" "in_range (cr_end (normalize_cell_range a)) b"
    "in_range (cr_start (normalize_cell_range b)) a" "in_range (cr_end (normalize_cell_range b)) a"
    using assms corners_in by auto
  show ?thesis
    using corners by (intro cell_range.equality cell_address.equality) (auto simp: in_range_def Let_def)
qed

lemma single_cell_range: "is_single_cell_range r \<longleftrightarrow> (\<forall>c d. in_range c r \<longrightarrow> in_range d r \<longrightarrow> c = d)"
proof
  assume "is_single_cell_range r"
  then show "\<forall>c d. in_range c r \<longrightarrow> in_range d r \<longrightarrow> c = d"
    by (auto simp: is_single_cell_range_def in_range_def Let_def intro!: cell_address.equality)
next
  assume "\<forall>c d. in_range c r \<longrightarrow> in_range d r \<longrightarrow> c = d"
  then have "cr_start (normalize_cell_range r) = cr_end (normalize_cell_range r)" using corners_in by blast
  then show "is_single_cell_range r" by (simp add: is_single_cell_range_def Let_def)
qed

lemma split_colon: "CHR '':'' \<notin> set a \<Longrightarrow> CHR '':'' \<notin> set b \<Longrightarrow> a @ CHR '':'' # s = b @ CHR '':'' # t \<Longrightarrow> a = b \<and> s = t"
  by (induction a arbitrary: b) (auto simp: Cons_eq_append_conv append_eq_Cons_conv)

lemma range_key_normalized: "get_range_key a = get_range_key b \<longleftrightarrow> normalize_cell_range a = normalize_cell_range b"
proof
  assume eq: "get_range_key a = get_range_key b"
  let ?p = "normalize_cell_range a" and ?q = "normalize_cell_range b"
  note cut = split_colon [OF digits_no_colon digits_no_colon]
  have "show_nat (ca_row (cr_start ?p)) @ CHR '':'' # show_nat (ca_col (cr_start ?p)) @ CHR '':'' #
      show_nat (ca_row (cr_end ?p)) @ CHR '':'' # show_nat (ca_col (cr_end ?p)) =
    show_nat (ca_row (cr_start ?q)) @ CHR '':'' # show_nat (ca_col (cr_start ?q)) @ CHR '':'' #
      show_nat (ca_row (cr_end ?q)) @ CHR '':'' # show_nat (ca_col (cr_end ?q))"
    using eq by (simp add: get_range_key_def Let_def)
  from cut [OF this] have "ca_row (cr_start ?p) = ca_row (cr_start ?q)" and
    rest: "show_nat (ca_col (cr_start ?p)) @ CHR '':'' # show_nat (ca_row (cr_end ?p)) @ CHR '':'' # show_nat (ca_col (cr_end ?p)) =
      show_nat (ca_col (cr_start ?q)) @ CHR '':'' # show_nat (ca_row (cr_end ?q)) @ CHR '':'' # show_nat (ca_col (cr_end ?q))"
    by (auto dest: show_nat_inj)
  moreover from cut [OF rest] have "ca_col (cr_start ?p) = ca_col (cr_start ?q)" and
    rest': "show_nat (ca_row (cr_end ?p)) @ CHR '':'' # show_nat (ca_col (cr_end ?p)) =
      show_nat (ca_row (cr_end ?q)) @ CHR '':'' # show_nat (ca_col (cr_end ?q))"
    by (auto dest: show_nat_inj)
  moreover from cut [OF rest'] have "ca_row (cr_end ?p) = ca_row (cr_end ?q)" "ca_col (cr_end ?p) = ca_col (cr_end ?q)"
    by (auto dest: show_nat_inj)
  ultimately show "?p = ?q" by (intro cell_range.equality cell_address.equality) simp_all
qed (simp add: get_range_key_def)

text \<open>
  Two ranges intersect exactly when they share a cell, whichever corners they are given by; and the key of a range is
  its set of cells.
\<close>
theorem ranges_are_sets_of_cells:
  "(ranges_intersect a b \<longleftrightarrow> (\<exists>c. in_range c a \<and> in_range c b)) \<and>
   (get_range_key a = get_range_key b \<longleftrightarrow> (\<forall>c. in_range c a = in_range c b))"
  using ranges_intersect_shared range_key_normalized range_cells_determine in_normalized by metis

lemma ranges_intersect_normalized [simp]: "ranges_intersect (normalize_cell_range a) b = ranges_intersect a b"
  by (simp add: ranges_intersect_def)

lemma single_of_normalized [simp]: "is_single_cell_range (normalize_cell_range r) = is_single_cell_range r"
  by (simp add: is_single_cell_range_def)

lemma ranges_intersect_self: "ranges_intersect r r"
  using corners_in unfolding ranges_intersect_shared by blast

lemma ranges_intersect_normalized_right [simp]: "ranges_intersect a (normalize_cell_range b) = ranges_intersect a b"
  by (simp add: ranges_intersect_def)

section \<open>Colours as text\<close>

definition hex_color_text :: "string \<Rightarrow> bool" where
  "hex_color_text s \<longleftrightarrow> length s = 7 \<and> hd s = CHR ''#'' \<and> list_all (\<lambda>c. is_hex c \<and> lower_char c = c) (tl s)"

lemma lower_hex: "is_hex c \<Longrightarrow> is_hex (lower_char c) \<and> lower_char (lower_char c) = lower_char c"
  by (auto simp: is_hex_def lower_char_def char_of_def bit_0)

lemma lower_hash: "lower_char CHR ''#'' = CHR ''#''"
  by (simp add: lower_char_def)

lemma to_lower_hex: "list_all is_hex body \<Longrightarrow> list_all (\<lambda>c. is_hex c \<and> lower_char c = c) (to_lower body)"
  using lower_hex by (auto simp: list_all_iff to_lower_def)

lemma length_doubled: "length (concat (map (\<lambda>c. [c, c]) body)) = 2 * length body"
  by (induction body) simp_all

lemma normalize_hex_color_valid:
  assumes "hex_color_text fallback"
  shows "hex_color_text (normalize_hex_color s fallback)"
proof -
  have doubled: "list_all is_hex (concat (map (\<lambda>c. [c, c]) body))" if "list_all is_hex body" for body
    using that by (auto simp: list_all_iff)
  show ?thesis
    using assms to_lower_hex doubled [THEN to_lower_hex]
    by (auto simp: normalize_hex_color_def hex_color_text_def Let_def to_lower_def lower_hash length_doubled)
qed

lemma default_colors_valid:
  "hex_color_text default_text_color" "hex_color_text default_fill_color" "hex_color_text default_border_color"
  by (simp_all add: hex_color_text_def default_text_color_def default_fill_color_def default_border_color_def is_hex_def lower_char_def)

section \<open>Number formats\<close>

text \<open>Facts on the listed options: trimmed format strings, and each option is found by its value and by its format string.\<close>

lemma option_strings:
  assumes "option \<in> set number_format_options"
  shows "nf_string option = Some s \<Longrightarrow> s \<noteq> [] \<and> js_trim s = s"
    "nf_string option = None \<Longrightarrow> nf_value option = ''General'' \<and> nf_type option = ''general''"
    "nf_id option = None"
proof -
  have trims: "js_trim ''0.00'' = ''0.00''" "js_trim ''$#,##0.00'' = ''$#,##0.00''" "js_trim ''0.00%'' = ''0.00%''"
    "js_trim ''m/d/yyyy'' = ''m/d/yyyy''" by (simp_all add: js_trim_id is_ws_def)
  show "nf_string option = Some s \<Longrightarrow> s \<noteq> [] \<and> js_trim s = s"
    using assms trims by (auto simp: number_format_options_def)
  show "nf_string option = None \<Longrightarrow> nf_value option = ''General'' \<and> nf_type option = ''general''" "nf_id option = None"
    using assms by (auto simp: number_format_options_def)
qed

lemma option_cases:
  assumes "option \<in> set number_format_options"
  obtains "option = number_format_options ! 0" | "option = number_format_options ! 1" | "option = number_format_options ! 2"
    | "option = number_format_options ! 3" | "option = number_format_options ! 4"
proof -
  have len: "length number_format_options = 5" by (simp add: number_format_options_def)
  obtain i where i: "i < length number_format_options" "number_format_options ! i = option"
    using assms unfolding in_set_conv_nth by blast
  then have "i = 0 \<or> i = 1 \<or> i = 2 \<or> i = 3 \<or> i = 4" using len by linarith
  then show ?thesis using that i(2) by blast
qed

lemma option_found:
  assumes "option \<in> set number_format_options"
  shows "find (\<lambda>other. nf_value other = nf_value option) number_format_options = Some option"
    "nf_string option = Some s \<Longrightarrow> find (\<lambda>other. nf_string other = Some s) number_format_options = Some option"
proof -
  show "find (\<lambda>other. nf_value other = nf_value option) number_format_options = Some option"
    using assms by (elim option_cases; hypsubst) (simp_all add: number_format_options_def)
  show "find (\<lambda>other. nf_string other = Some s) number_format_options = Some option" if "nf_string option = Some s"
    using assms that [symmetric] by (elim option_cases; hypsubst) (simp_all add: number_format_options_def)
qed

lemma option_value_read_back:
  assumes "option \<in> set number_format_options"
  shows "get_number_format_value (Some (create_number_format_style (nf_value option))) = nf_value option"
proof -
  have created: "create_number_format_style (nf_value option) =
    [(''numberFormat'', JsObj [(''formatString'', js_optional JsStr (nf_string option)), (''formatType'', JsStr (nf_type option)),
      (''id'', JsUndefined)])]"
    using option_found(1) [OF assms] option_strings(3) [OF assms] by (simp add: create_number_format_style_def js_optional_def)
  show ?thesis
  proof (cases "nf_string option")
    case None
    then show ?thesis using option_strings(2) [OF assms None] unfolding created
      by (simp add: get_number_format_value_def style_group_def group_field_def js_field_def js_optional_def Let_def)
  next
    case (Some s)
    then show ?thesis using option_strings(1) [OF assms Some] option_found(2) [OF assms Some] unfolding created
      by (simp add: get_number_format_value_def style_group_def group_field_def js_field_def js_optional_def Let_def)
  qed
qed

lemma no_option_id: "find (\<lambda>option. nf_id option = Some n) number_format_options = None"
  by (simp add: number_format_options_def)

lemma builtin_read_back:
  assumes "n < 2 ^ 53"
  shows "get_number_format_value (Some (create_number_format_style (builtin_prefix @ show_nat n))) = builtin_prefix @ show_nat n"
proof -
  have "find (\<lambda>option. nf_value option = builtin_prefix @ show_nat n) number_format_options = None"
    by (simp add: number_format_options_def builtin_prefix_def)
  moreover have "starts_with (builtin_prefix @ show_nat n) builtin_prefix" by (simp add: starts_with_def)
  moreover have "js_number (show_nat n) = Some (of_nat n)" using assms by (rule js_number_show_nat)
  ultimately show ?thesis
    using no_option_id
    by (simp add: get_number_format_value_def create_number_format_style_def style_group_def group_field_def js_field_def trunc_nat_def Let_def)
qed

lemma custom_read_back:
  assumes "s \<noteq> []" "js_trim s = s" "\<not> starts_with s builtin_prefix"
    "find (\<lambda>option. nf_string option = Some s) number_format_options = None"
    "find (\<lambda>option. nf_value option = s) number_format_options = None"
  shows "get_number_format_value (Some (create_number_format_style s)) = s"
  using assms by (simp add: get_number_format_value_def create_number_format_style_def style_group_def group_field_def js_field_def Let_def)

text \<open>What the menu can show for a cell.\<close>

lemma number_format_values:
  obtains (listed) option where "option \<in> set number_format_options" "get_number_format_value st = nf_value option"
    | (custom) s where "get_number_format_value st = s" "s \<noteq> []" "js_trim s = s"
        "find (\<lambda>option. nf_string option = Some s) number_format_options = None"
    | (builtin) q where "group_field (style_group st ''numberFormat'') ''id'' = JsNum (Some q)"
        "get_number_format_value st = builtin_prefix @ show_nat (trunc_nat q)"
proof (cases "style_group st ''numberFormat''")
  case None
  have "hd number_format_options \<in> set number_format_options" "nf_value (hd number_format_options) = ''General''"
    by (simp_all add: number_format_options_def)
  then show ?thesis using None listed by (simp add: get_number_format_value_def)
next
  case (Some nf)
  define s where "s = (case js_field nf ''formatString'' of JsStr s \<Rightarrow> js_trim s | _ \<Rightarrow> [])"
  have general: "hd number_format_options \<in> set number_format_options" "nf_value (hd number_format_options) = ''General''"
    by (simp_all add: number_format_options_def)
  show ?thesis
  proof (cases "s = []")
    case False
    have trim: "js_trim s = s" using False by (auto simp: s_def split: js_value.splits)
    show ?thesis
    proof (cases "find (\<lambda>option. nf_string option = Some s) number_format_options")
      case None
      then have "get_number_format_value st = s" using Some False by (simp add: get_number_format_value_def Let_def flip: s_def)
      then show ?thesis using custom False trim None by blast
    next
      case (Some option)
      then have "option \<in> set number_format_options" by (auto simp: find_Some_iff)
      moreover have "get_number_format_value st = nf_value option"
        using \<open>style_group st ''numberFormat'' = Some nf\<close> False Some by (simp add: get_number_format_value_def Let_def flip: s_def)
      ultimately show ?thesis using listed by blast
    qed
  next
    case True
    show ?thesis
    proof (cases "js_field nf ''formatType'' = JsStr ''builtin'' \<and> get_numeric_value (js_field nf ''id'') \<noteq> None")
      case True
      then obtain q where q: "js_field nf ''id'' = JsNum (Some q)"
        by (cases "js_field nf ''id''" rule: get_numeric_value.cases) auto
      then have "get_number_format_value st = builtin_prefix @ show_nat (trunc_nat q)"
        using Some \<open>s = []\<close> True no_option_id by (simp add: get_number_format_value_def Let_def flip: s_def)
      then show ?thesis using builtin q Some by (simp add: group_field_def)
    next
      case False
      then have "get_number_format_value st = ''General''"
        using Some \<open>s = []\<close> by (auto simp: get_number_format_value_def Let_def simp flip: s_def)
      then show ?thesis using listed general by metis
    qed
  qed
qed

text \<open>
  Choosing the number format a cell already shows leaves what is shown as it is: a listed format, a custom format string
  and a builtin number are all read back as written. (A custom string that itself begins with builtin: is taken for a number.)
\<close>
theorem number_format_read_back:
  assumes "w = get_number_format_value st"
    and "\<not> starts_with w builtin_prefix \<or> (\<exists>n<2 ^ 53. w = builtin_prefix @ show_nat n)"
  shows "get_number_format_value (Some (create_number_format_style w)) = w"
proof (cases "\<exists>n<2 ^ 53. w = builtin_prefix @ show_nat n")
  case True
  then show ?thesis using builtin_read_back by blast
next
  case False
  then have plain: "\<not> starts_with w builtin_prefix" using assms(2) by blast
  show ?thesis
  proof (rule number_format_values [of st])
    fix option assume "option \<in> set number_format_options" "get_number_format_value st = nf_value option"
    then show ?thesis using assms(1) option_value_read_back by simp
  next
    fix s assume s: "get_number_format_value st = s" "s \<noteq> []" "js_trim s = s"
      "find (\<lambda>option. nf_string option = Some s) number_format_options = None"
    show ?thesis
    proof (cases "find (\<lambda>option. nf_value option = s) number_format_options")
      case None
      then show ?thesis using s plain assms(1) custom_read_back by simp
    next
      case (Some option)
      then have "option \<in> set number_format_options" "s = nf_value option" by (auto simp: find_Some_iff)
      then show ?thesis using assms(1) s(1) option_value_read_back by simp
    qed
  next
    fix q assume "get_number_format_value st = builtin_prefix @ show_nat (trunc_nat q)"
    then show ?thesis using plain assms(1) by (simp add: starts_with_def)
  qed
qed

theorem number_format_read_back_witness:
  "let cell = Some [(''numberFormat'', JsObj [(''formatType'', JsStr ''builtin''), (''id'', JsNum (Some 14))])];
       w = get_number_format_value cell
   in w = builtin_prefix @ show_nat 14 \<and> get_number_format_value (Some (create_number_format_style w)) = w"
proof -
  let ?cell = "Some [(''numberFormat'', JsObj [(''formatType'', JsStr ''builtin''), (''id'', JsNum (Some 14))])]"
  have w: "get_number_format_value ?cell = builtin_prefix @ show_nat 14"
    by (simp add: get_number_format_value_def style_group_def group_field_def js_field_def trunc_nat_def no_option_id Let_def)
  then have "\<exists>n<2 ^ 53. get_number_format_value ?cell = builtin_prefix @ show_nat n" by (intro exI [of _ 14]) simp
  from number_format_read_back [OF refl disjI2 [OF this]] show ?thesis unfolding Let_def using w by blast
qed

end
