(* ===== verification/SheetToolbar.thy ===== *)
theory SheetToolbar
  imports Spreadsheet
begin

text \<open>
  The toolbar of the workbook editor (EditorToolbar of web/src/components/extend/xlsx-editor.tsx): styles, borders, merges and
  the formula field. The workbook itself belongs to a library. What its hooks report to a render is a record
  (\<open>sheet_view\<close>), what the toolbar asks of it is a list of calls (\<open>sheet_call\<close>), and what a call returns is an
  argument of the action that makes it.
\<close>

section \<open>The toolbar\<close>

text \<open>What the hooks of the library report to a render.\<close>

record sheet_view =
  sv_active_cell :: "cell_address option"
  sv_selection :: "cell_range option"
  sv_read_only :: bool
  sv_sheet_index :: nat
  sv_identity :: string
  sv_has_worksheet :: bool
  sv_unmerges_cells :: bool
  sv_merged_regions :: js_value
  sv_formula_at :: "cell_address \<Rightarrow> string option"
  sv_value_at :: "cell_address \<Rightarrow> js_value"
  sv_selected_formula :: string
  sv_selected_value :: string
  sv_active_style :: "style option"

record toolbar =
  tb_applied :: "cell_range list"
  tb_previous_sheet :: nat
  tb_last_target :: "(cell_range \<times> nat \<times> string) option"
  tb_draft :: string
  tb_focused :: bool
  tb_edit_cell :: "cell_address option"
  tb_initial :: string
  tb_font_family :: string
  tb_font_size :: rat
  tb_text_color :: string
  tb_fill_color :: string
  tb_border_color :: string

datatype sheet_call =
    SetRangeStyle cell_range style
  | SetCellStyle cell_address style
  | SetSelectedCellStyle style
  | SetCellFormula cell_address string
  | SetCellValue cell_address string
  | MergeSelection
  | UnmergeSelection
  | UnmergeCells string
  | PasteStructured js_value
  | SelectRange cell_range

definition toolbar_start :: "sheet_view \<Rightarrow> toolbar" where
  "toolbar_start v =
     \<lparr>tb_applied = [], tb_previous_sheet = sv_sheet_index v, tb_last_target = None, tb_draft = [], tb_focused = False,
      tb_edit_cell = None, tb_initial = [], tb_font_family = ''Arial'', tb_font_size = 11, tb_text_color = default_text_color,
      tb_fill_color = default_fill_color, tb_border_color = default_border_color\<rparr>"

definition can_style_selection :: "sheet_view \<Rightarrow> bool" where
  "can_style_selection v \<longleftrightarrow> (sv_selection v \<noteq> None \<or> sv_active_cell v \<noteq> None) \<and> \<not> sv_read_only v"

definition active_range :: "sheet_view \<Rightarrow> cell_range option" where
  "active_range v =
     (case sv_selection v of
        Some r \<Rightarrow> Some (normalize_cell_range r)
      | None \<Rightarrow> map_option (\<lambda>c. \<lparr>cr_start = c, cr_end = c\<rparr>) (sv_active_cell v))"

definition worksheet_merge_regions :: "sheet_view \<Rightarrow> cell_range list" where
  "worksheet_merge_regions v = (if sv_has_worksheet v then get_worksheet_merge_regions (sv_merged_regions v) else [])"

definition merge_regions :: "sheet_view \<Rightarrow> toolbar \<Rightarrow> cell_range list" where
  "merge_regions v st = worksheet_merge_regions v @ tb_applied st"

definition selection_intersects_merge :: "sheet_view \<Rightarrow> toolbar \<Rightarrow> bool" where
  "selection_intersects_merge v st =
     (case active_range v of None \<Rightarrow> False | Some r \<Rightarrow> list_ex (ranges_intersect r) (merge_regions v st))"

definition selection_is_single_cell :: "sheet_view \<Rightarrow> bool" where
  "selection_is_single_cell v = (case active_range v of None \<Rightarrow> True | Some r \<Rightarrow> is_single_cell_range r)"

definition selection_spans_multiple_columns :: "sheet_view \<Rightarrow> bool" where
  "selection_spans_multiple_columns v =
     (case active_range v of None \<Rightarrow> False | Some r \<Rightarrow> ca_col (cr_start r) \<noteq> ca_col (cr_end r))"

definition can_merge_selected_cells :: "sheet_view \<Rightarrow> toolbar \<Rightarrow> bool" where
  "can_merge_selected_cells v st \<longleftrightarrow>
     sv_selection v \<noteq> None \<and> \<not> sv_read_only v \<and> \<not> selection_intersects_merge v st \<and> \<not> selection_is_single_cell v"

definition can_merge_across :: "sheet_view \<Rightarrow> toolbar \<Rightarrow> bool" where
  "can_merge_across v st \<longleftrightarrow>
     sv_selection v \<noteq> None \<and> \<not> sv_read_only v \<and> \<not> selection_intersects_merge v st \<and> selection_spans_multiple_columns v"

definition can_unmerge_selected_cells :: "sheet_view \<Rightarrow> toolbar \<Rightarrow> bool" where
  "can_unmerge_selected_cells v st \<longleftrightarrow> sv_selection v \<noteq> None \<and> \<not> sv_read_only v \<and> selection_intersects_merge v st"

text \<open>
  A render drops the merges the worksheet reports by itself, and all of them when another sheet is shown; its effect
  remembers the range styles go to when nothing is selected any more.
\<close>

definition render_toolbar :: "sheet_view \<Rightarrow> toolbar \<Rightarrow> toolbar" where
  "render_toolbar v st =
     (let pending = filter (\<lambda>r. \<not> list_ex (ranges_intersect r) (worksheet_merge_regions v)) (tb_applied st)
      in st\<lparr>tb_applied := (if tb_previous_sheet st \<noteq> sv_sheet_index v then [] else pending),
            tb_previous_sheet := sv_sheet_index v,
            tb_last_target :=
              (case active_range v of None \<Rightarrow> tb_last_target st | Some r \<Rightarrow> Some (r, sv_sheet_index v, sv_identity v))\<rparr>)"

definition apply_range_style :: "sheet_view \<Rightarrow> toolbar \<Rightarrow> cell_range \<Rightarrow> style \<Rightarrow> sheet_call list" where
  "apply_range_style v st rng style =
     (let normalized = normalize_cell_range rng;
          targets = normalized # filter (ranges_intersect normalized) (merge_regions v st);
          unique = js_map_of (map (\<lambda>t. (get_range_key (normalize_cell_range t), normalize_cell_range t)) targets)
      in map (\<lambda>(k, t). SetRangeStyle t style) unique)"

definition apply_style :: "sheet_view \<Rightarrow> toolbar \<Rightarrow> style \<Rightarrow> bool \<times> sheet_call list" where
  "apply_style v st style =
     (case sv_selection v of
        Some selection \<Rightarrow>
          (let normalized = normalize_cell_range selection
           in if \<not> is_single_cell_range normalized then (True, apply_range_style v st normalized style)
              else if sv_active_cell v \<noteq> None then (True, [SetSelectedCellStyle style])
              else (True, [SetCellStyle (cr_start normalized) style]))
      | None \<Rightarrow>
          if sv_active_cell v \<noteq> None then (True, [SetSelectedCellStyle style])
          else
            (case tb_last_target st of
               Some (rng, sheet, identity) \<Rightarrow>
                 if sheet = sv_sheet_index v \<and> identity = sv_identity v then
                   (True, if is_single_cell_range rng then [SetCellStyle (cr_start (normalize_cell_range rng)) style]
                          else apply_range_style v st rng style)
                 else (False, [])
             | None \<Rightarrow> (False, [])))"

datatype border_edge = TopEdge | BottomEdge | LeftEdge | RightEdge
datatype border_action = AllBorders | OutsideBorder | NoBorder | OneBorder border_edge

fun edge_name :: "border_edge \<Rightarrow> string" where
  "edge_name TopEdge = ''top''"
| "edge_name BottomEdge = ''bottom''"
| "edge_name LeftEdge = ''left''"
| "edge_name RightEdge = ''right''"

definition get_border_edge_range :: "cell_range \<Rightarrow> border_edge \<Rightarrow> cell_range" where
  "get_border_edge_range rng edge =
     (let n = normalize_cell_range rng; s = cr_start n; e = cr_end n
      in case edge of
           TopEdge \<Rightarrow> \<lparr>cr_start = s, cr_end = \<lparr>ca_row = ca_row s, ca_col = ca_col e\<rparr>\<rparr>
         | BottomEdge \<Rightarrow> \<lparr>cr_start = \<lparr>ca_row = ca_row e, ca_col = ca_col s\<rparr>, cr_end = e\<rparr>
         | LeftEdge \<Rightarrow> \<lparr>cr_start = s, cr_end = \<lparr>ca_row = ca_row e, ca_col = ca_col s\<rparr>\<rparr>
         | RightEdge \<Rightarrow> \<lparr>cr_start = \<lparr>ca_row = ca_row s, ca_col = ca_col e\<rparr>, cr_end = e\<rparr>)"

definition create_border_edge :: "string \<Rightarrow> js_value" where
  "create_border_edge color = JsObj [(''color'', to_xlsx_rgb_color color), (''style'', JsStr ''thin'')]"

definition create_border_patch :: "(border_edge \<times> js_value) list \<Rightarrow> style" where
  "create_border_patch entries = [(''border'', JsObj (map (\<lambda>(k, e). (edge_name k, e)) entries))]"

definition create_no_border_patch :: style where
  "create_no_border_patch =
     create_border_patch (map (\<lambda>k. (k, JsObj [(''style'', JsStr ''none'')])) [BottomEdge, LeftEdge, RightEdge, TopEdge])"

definition apply_border_action :: "sheet_view \<Rightarrow> toolbar \<Rightarrow> border_action \<Rightarrow> sheet_call list" where
  "apply_border_action v st action =
     (case active_range v of
        None \<Rightarrow> []
      | Some rng \<Rightarrow>
          (let normalized = normalize_cell_range rng; edge = create_border_edge (tb_border_color st);
               allPatch = create_border_patch (map (\<lambda>k. (k, edge)) [BottomEdge, LeftEdge, RightEdge, TopEdge])
           in case action of
                AllBorders \<Rightarrow> [SetRangeStyle normalized allPatch]
              | NoBorder \<Rightarrow> [SetRangeStyle normalized create_no_border_patch]
              | OutsideBorder \<Rightarrow>
                  if is_single_cell_range normalized then [SetCellStyle (cr_start normalized) allPatch]
                  else map (\<lambda>k. SetRangeStyle (get_border_edge_range normalized k) (create_border_patch [(k, edge)]))
                         [TopEdge, BottomEdge, LeftEdge, RightEdge]
              | OneBorder k \<Rightarrow> [SetRangeStyle (get_border_edge_range normalized k) (create_border_patch [(k, edge)])]))"

definition alignment_style :: "string \<Rightarrow> js_value \<Rightarrow> style" where
  "alignment_style name value = [(''alignment'', JsObj [(name, value)])]"

definition font_style :: "string \<Rightarrow> js_value \<Rightarrow> style" where
  "font_style name value = [(''font'', JsObj [(name, value)])]"

definition fill_style :: "string \<Rightarrow> style" where
  "fill_style color = [(''fill'', JsObj [(''color'', to_xlsx_rgb_color color), (''fillType'', JsStr ''solid'')])]"

definition no_fill_style :: style where
  "no_fill_style = [(''fill'', JsObj [(''fillType'', JsStr ''none'')])]"

fun toggled_style :: "font_toggle \<Rightarrow> bool \<Rightarrow> style" where
  "toggled_style Bold pressed = font_style ''bold'' (JsBool pressed)"
| "toggled_style Italic pressed = font_style ''italic'' (JsBool pressed)"
| "toggled_style Underline pressed = font_style ''underline'' (JsStr (if pressed then ''single'' else ''none''))"
| "toggled_style Strikethrough pressed = font_style ''strikethrough'' (JsBool pressed)"

definition changed_toggle :: "font_toggle list \<Rightarrow> font_toggle list \<Rightarrow> font_toggle option" where
  "changed_toggle previous next =
     (case find (\<lambda>x. x \<notin> set previous) next of
        Some x \<Rightarrow> Some x | None \<Rightarrow> find (\<lambda>x. x \<notin> set next) previous)"

definition apply_font_toggle_values :: "sheet_view \<Rightarrow> toolbar \<Rightarrow> font_toggle list \<Rightarrow> sheet_call list" where
  "apply_font_toggle_values v st next =
     (case changed_toggle (get_font_toggle_values (sv_active_style v)) next of
        None \<Rightarrow> []
      | Some x \<Rightarrow> snd (apply_style v st (toggled_style x (x \<in> set next))))"

text \<open>The regions and the clipboard of a merge row by row; offsets count from the active cell.\<close>

definition merge_rows :: "cell_range \<Rightarrow> cell_range list" where
  "merge_rows rng =
     map (\<lambda>i. normalize_cell_range
             \<lparr>cr_start = \<lparr>ca_row = ca_row (cr_start rng) + i, ca_col = ca_col (cr_start rng)\<rparr>,
              cr_end = \<lparr>ca_row = ca_row (cr_start rng) + i, ca_col = ca_col (cr_end rng)\<rparr>\<rparr>)
         [0..<ca_row (cr_end rng) - ca_row (cr_start rng) + 1]"

definition merge_across_clipboard :: "sheet_view \<Rightarrow> cell_address \<Rightarrow> cell_range \<Rightarrow> js_value" where
  "merge_across_clipboard v cell rng =
     (let rows = ca_row (cr_end rng) - ca_row (cr_start rng) + 1; cols = ca_col (cr_end rng) - ca_col (cr_start rng) + 1;
          content = (if falsy (sv_formula_at v cell)
                     then (''value'', if js_nullish (sv_value_at v cell) then JsStr [] else sv_value_at v cell)
                     else (''formula'', JsStr (the (sv_formula_at v cell))))
      in JsObj
           [(''cells'', JsArr [JsObj [(''colOffset'', js_int 0), content, (''rowOffset'', js_int 0)]]),
            (''cols'', js_int (int cols)),
            (''merges'', JsArr (map (\<lambda>i. JsObj
               [(''colOffset'', js_int (int (ca_col (cr_start rng)) - int (ca_col cell))), (''colSpan'', js_int (int cols)),
                (''rowOffset'', js_int (int (ca_row (cr_start rng)) + int i - int (ca_row cell))), (''rowSpan'', js_int 1)]) [0..<rows])),
            (''rows'', js_int (int rows))])"

definition merge_across :: "sheet_view \<Rightarrow> bool \<Rightarrow> toolbar \<Rightarrow> toolbar \<times> sheet_call list" where
  "merge_across v didPaste st =
     (case (sv_active_cell v, sv_selection v) of
        (Some cell, Some selection) \<Rightarrow>
          if can_merge_across v st \<and> sv_has_worksheet v then
            (let rng = normalize_cell_range selection; paste = PasteStructured (merge_across_clipboard v cell rng)
             in if didPaste then (st\<lparr>tb_applied := merge_rows rng\<rparr>, [paste, SelectRange rng]) else (st, [paste]))
          else (st, [])
      | _ \<Rightarrow> (st, []))"

definition unmerge_targets :: "sheet_view \<Rightarrow> toolbar \<Rightarrow> cell_range \<Rightarrow> cell_range list" where
  "unmerge_targets v st rng =
     map snd (js_map_of (map (\<lambda>r. (get_range_key r, r)) (filter (ranges_intersect rng) (merge_regions v st))))"

definition unmerge :: "sheet_view \<Rightarrow> (string \<Rightarrow> bool) \<Rightarrow> toolbar \<Rightarrow> toolbar \<times> sheet_call list" where
  "unmerge v unmerged st =
     (case active_range v of
        Some rng \<Rightarrow>
          if can_unmerge_selected_cells v st \<and> sv_has_worksheet v \<and> sv_unmerges_cells v then
            (let normalized = normalize_cell_range rng; targets = map range_to_a1 (unmerge_targets v st normalized);
                 calls = map UnmergeCells targets
             in if list_ex unmerged targets
                then (st\<lparr>tb_applied := []\<rparr>, calls @ [SetRangeStyle normalized [], SelectRange normalized])
                else (st, calls @ [UnmergeSelection]))
          else (st, [])
      | None \<Rightarrow> (st, []))"

text \<open>The formula field.\<close>

definition selected_cell_input_value :: "sheet_view \<Rightarrow> string" where
  "selected_cell_input_value v = (if sv_selected_formula v \<noteq> [] then sv_selected_formula v else sv_selected_value v)"

definition formula_shown :: "sheet_view \<Rightarrow> toolbar \<Rightarrow> string" where
  "formula_shown v st = (if tb_focused st then tb_draft st else selected_cell_input_value v)"

definition commit_formula :: "sheet_view \<Rightarrow> toolbar \<Rightarrow> toolbar \<times> sheet_call list" where
  "commit_formula v st =
     (case (case tb_edit_cell st of Some c \<Rightarrow> Some c | None \<Rightarrow> sv_active_cell v) of
        None \<Rightarrow> (st, [])
      | Some cell \<Rightarrow>
          if tb_draft st = tb_initial st then (st, [])
          else (st\<lparr>tb_initial := tb_draft st\<rparr>,
                [if starts_with (js_trim (tb_draft st)) ''='' then SetCellFormula cell (tb_draft st)
                 else SetCellValue cell (tb_draft st)]))"

datatype toolbar_action =
    RenderToolbar
  | PickFontFamily string
  | PickFontSize string
  | ToggleFonts "font_toggle list"
  | PickTextColor string
  | PickFillColor string
  | ClearFill
  | PickHorizontal string
  | PickVertical string
  | WrapText bool
  | ShrinkToFit bool
  | PickNumberFormat string
  | PickBorder border_action
  | PickBorderColor string
  | MergeCells
  | MergeAndCenter
  | MergeAcross bool
  | Unmerge "string \<Rightarrow> bool"
  | FocusFormula
  | TypeFormula string
  | BlurFormula
  | EnterFormula

definition style_selection :: "sheet_view \<Rightarrow> toolbar \<Rightarrow> style \<Rightarrow> (toolbar \<times> sheet_call list) option" where
  "style_selection v st style =
     (if can_style_selection v then Some (st, snd (apply_style v st style)) else None)"

fun toolbar_step :: "sheet_view \<Rightarrow> toolbar \<Rightarrow> toolbar_action \<Rightarrow> (toolbar \<times> sheet_call list) option" where
  "toolbar_step v st RenderToolbar = Some (render_toolbar v st, [])"
| "toolbar_step v st (PickFontFamily name) =
     (if \<not> can_style_selection v then None
      else if name = [] then Some (st, [])
      else (case apply_style v st (font_style ''name'' (JsStr name)) of
              (applied, calls) \<Rightarrow> Some (if applied then st\<lparr>tb_font_family := name\<rparr> else st, calls)))"
| "toolbar_step v st (PickFontSize text) =
     (if \<not> can_style_selection v then None
      else (case js_number text of
              None \<Rightarrow> Some (st, [])
            | Some points \<Rightarrow>
                Some (st\<lparr>tb_font_size := points\<rparr>, snd (apply_style v st (font_style ''size'' (JsNum (Some points)))))))"
| "toolbar_step v st (ToggleFonts next) =
     (if can_style_selection v then Some (st, apply_font_toggle_values v st next) else None)"
| "toolbar_step v st (PickTextColor color) =
     (let next = normalize_hex_color color default_text_color
      in style_selection v (st\<lparr>tb_text_color := next\<rparr>) (font_style ''color'' (to_xlsx_rgb_color next)))"
| "toolbar_step v st (PickFillColor color) =
     (let next = normalize_hex_color color default_fill_color
      in style_selection v (st\<lparr>tb_fill_color := next\<rparr>) (fill_style next))"
| "toolbar_step v st ClearFill = style_selection v st no_fill_style"
| "toolbar_step v st (PickHorizontal h) = style_selection v st (alignment_style ''horizontal'' (JsStr h))"
| "toolbar_step v st (PickVertical h) = style_selection v st (alignment_style ''vertical'' (JsStr h))"
| "toolbar_step v st (WrapText on) = style_selection v st (alignment_style ''wrapText'' (JsBool on))"
| "toolbar_step v st (ShrinkToFit on) = style_selection v st (alignment_style ''shrinkToFit'' (JsBool on))"
| "toolbar_step v st (PickNumberFormat value) =
     (if \<not> can_style_selection v then None
      else if value = [] then Some (st, []) else style_selection v st (create_number_format_style value))"
| "toolbar_step v st (PickBorder action) =
     (if can_style_selection v then Some (st, apply_border_action v st action) else None)"
| "toolbar_step v st (PickBorderColor color) =
     Some (st\<lparr>tb_border_color := normalize_hex_color color default_text_color\<rparr>, [])"
| "toolbar_step v st MergeCells =
     (case sv_selection v of
        Some selection \<Rightarrow>
          if can_merge_selected_cells v st
          then Some (st\<lparr>tb_applied := [normalize_cell_range selection]\<rparr>, [MergeSelection]) else None
      | None \<Rightarrow> None)"
| "toolbar_step v st MergeAndCenter =
     (case sv_selection v of
        Some selection \<Rightarrow>
          if can_merge_selected_cells v st
          then Some (st\<lparr>tb_applied := [normalize_cell_range selection]\<rparr>,
                     [SetRangeStyle selection (alignment_style ''horizontal'' (JsStr ''center'')), MergeSelection]) else None
      | None \<Rightarrow> None)"
| "toolbar_step v st (MergeAcross didPaste) = (if can_merge_across v st then Some (merge_across v didPaste st) else None)"
| "toolbar_step v st (Unmerge unmerged) = (if can_unmerge_selected_cells v st then Some (unmerge v unmerged st) else None)"
| "toolbar_step v st FocusFormula =
     (if sv_active_cell v = None \<or> sv_read_only v then None
      else Some (st\<lparr>tb_edit_cell := sv_active_cell v, tb_initial := selected_cell_input_value v,
                    tb_draft := selected_cell_input_value v, tb_focused := True\<rparr>, []))"
| "toolbar_step v st (TypeFormula text) =
     (if sv_active_cell v = None \<or> sv_read_only v then None else Some (st\<lparr>tb_draft := text\<rparr>, []))"
| "toolbar_step v st BlurFormula = (case commit_formula v st of (st', calls) \<Rightarrow> Some (st'\<lparr>tb_focused := False\<rparr>, calls))"
| "toolbar_step v st EnterFormula =
     (if sv_active_cell v = None \<or> sv_read_only v then None
      else (case commit_formula v st of (st', calls) \<Rightarrow> Some (st'\<lparr>tb_focused := False\<rparr>, calls)))"

section \<open>Where a style goes\<close>

definition style_targets :: "sheet_view \<Rightarrow> toolbar \<Rightarrow> cell_range \<Rightarrow> cell_range list" where
  "style_targets v st rng =
     map snd (js_map_of (map (\<lambda>t. (get_range_key (normalize_cell_range t), normalize_cell_range t))
       (normalize_cell_range rng # filter (ranges_intersect (normalize_cell_range rng)) (merge_regions v st))))"

lemma apply_range_style_targets: "apply_range_style v st rng style = map (\<lambda>t. SetRangeStyle t style) (style_targets v st rng)"
  by (simp add: apply_range_style_def style_targets_def Let_def comp_def case_prod_unfold)

lemma style_targets_exact:
  "set (style_targets v st rng) =
     insert (normalize_cell_range rng) (normalize_cell_range ` {m \<in> set (merge_regions v st). ranges_intersect rng m})"
  "distinct (style_targets v st rng)"
proof -
  let ?ts = "normalize_cell_range rng # filter (ranges_intersect (normalize_cell_range rng)) (merge_regions v st)"
  let ?m = "js_map_of (map (\<lambda>t. (get_range_key (normalize_cell_range t), normalize_cell_range t)) ?ts)"
  have "set ?m = {(get_range_key (normalize_cell_range t), normalize_cell_range t) |t. t \<in> set ?ts}"
    by (rule js_map_of_keyed) (simp add: range_key_normalized)
  then have m: "set ?m = (\<lambda>t. (get_range_key (normalize_cell_range t), normalize_cell_range t)) ` set ?ts" by (simp only: Setcompr_eq_image)
  show "set (style_targets v st rng) =
     insert (normalize_cell_range rng) (normalize_cell_range ` {m \<in> set (merge_regions v st). ranges_intersect rng m})"
    unfolding style_targets_def set_map m by (auto simp: image_iff)
  have "inj_on snd (set ?m)" unfolding m by (auto simp: inj_on_def)
  moreover have "distinct ?m" using js_map_of_keys [of "map (\<lambda>t. (get_range_key (normalize_cell_range t), normalize_cell_range t)) ?ts"]
    by (simp only: distinct_map)
  ultimately show "distinct (style_targets v st rng)" unfolding style_targets_def by (simp only: distinct_map)
qed

text \<open>
  C33: A style applied to a selection of several cells is set once for the selection and once for every merged region that
  meets it, and so reaches exactly the selected cells and the whole of those regions.
\<close>
theorem style_reaches_merges:
  assumes "sv_selection v = Some sel" "\<not> is_single_cell_range sel"
  shows "\<exists>targets. apply_style v st style = (True, map (\<lambda>t. SetRangeStyle t style) targets) \<and> distinct targets \<and>
    (\<forall>c. (\<exists>t\<in>set targets. in_range c t) \<longleftrightarrow>
      in_range c sel \<or> (\<exists>m\<in>set (merge_regions v st). ranges_intersect sel m \<and> in_range c m))"
proof (intro exI conjI allI)
  have single: "is_single_cell_range (normalize_cell_range sel) = is_single_cell_range sel"
    by (simp add: is_single_cell_range_def)
  have targets: "style_targets v st (normalize_cell_range sel) = style_targets v st sel" by (simp add: style_targets_def)
  show "apply_style v st style = (True, map (\<lambda>t. SetRangeStyle t style) (style_targets v st sel))"
    using assms by (simp add: apply_style_def single apply_range_style_targets targets Let_def)
  show "distinct (style_targets v st sel)" by (rule style_targets_exact)
  show "(\<exists>t\<in>set (style_targets v st sel). in_range c t) \<longleftrightarrow>
      in_range c sel \<or> (\<exists>m\<in>set (merge_regions v st). ranges_intersect sel m \<and> in_range c m)" for c
    by (auto simp: style_targets_exact)
qed

text \<open>An example view: four cells selected, the first of them active; one merged region is given by the worksheet.\<close>

definition example_view :: sheet_view where
  "example_view =
     \<lparr>sv_active_cell = Some \<lparr>ca_row = 0, ca_col = 0\<rparr>,
      sv_selection = Some \<lparr>cr_start = \<lparr>ca_row = 1, ca_col = 1\<rparr>, cr_end = \<lparr>ca_row = 0, ca_col = 0\<rparr>\<rparr>,
      sv_read_only = False, sv_sheet_index = 0, sv_identity = ''w'', sv_has_worksheet = True, sv_unmerges_cells = True,
      sv_merged_regions = JsArr [JsObj [(''startRow'', js_int 1), (''startCol'', js_int 1), (''endRow'', js_int 1), (''endCol'', js_int 3)]],
      sv_formula_at = (\<lambda>_. None), sv_value_at = (\<lambda>_. JsNull), sv_selected_formula = [], sv_selected_value = ''7'',
      sv_active_style = None\<rparr>"

lemma example_merge:
  "merge_regions example_view (toolbar_start example_view) =
     [\<lparr>cr_start = \<lparr>ca_row = 1, ca_col = 1\<rparr>, cr_end = \<lparr>ca_row = 1, ca_col = 3\<rparr>\<rparr>]"
  by (simp add: example_view_def toolbar_start_def merge_regions_def worksheet_merge_regions_def get_worksheet_merge_regions_def
      merge_region_entry_def js_field_def js_nullish_def js_int_def trunc_nat_def normalize_cell_range_def)

theorem style_reaches_merges_witness:
  "\<exists>targets. apply_style example_view (toolbar_start example_view) [] = (True, map (\<lambda>t. SetRangeStyle t []) targets) \<and>
     distinct targets \<and> (\<exists>t\<in>set targets. in_range \<lparr>ca_row = 1, ca_col = 3\<rparr> t) \<and> \<not> (\<exists>t\<in>set targets. in_range \<lparr>ca_row = 0, ca_col = 3\<rparr> t)"
proof -
  have sel: "sv_selection example_view = Some \<lparr>cr_start = \<lparr>ca_row = 1, ca_col = 1\<rparr>, cr_end = \<lparr>ca_row = 0, ca_col = 0\<rparr>\<rparr>"
    by (simp add: example_view_def)
  have wide: "\<not> is_single_cell_range \<lparr>cr_start = \<lparr>ca_row = 1, ca_col = 1\<rparr>, cr_end = \<lparr>ca_row = 0, ca_col = 0\<rparr>\<rparr>"
    by (simp add: is_single_cell_range_def normalize_cell_range_def)
  from style_reaches_merges [OF sel wide, of "toolbar_start example_view" "[]"] obtain targets where
    t: "apply_style example_view (toolbar_start example_view) [] = (True, map (\<lambda>t. SetRangeStyle t []) targets)" "distinct targets"
      "\<And>c. (\<exists>t\<in>set targets. in_range c t) \<longleftrightarrow>
        in_range c \<lparr>cr_start = \<lparr>ca_row = 1, ca_col = 1\<rparr>, cr_end = \<lparr>ca_row = 0, ca_col = 0\<rparr>\<rparr> \<or>
        (\<exists>m\<in>set (merge_regions example_view (toolbar_start example_view)).
           ranges_intersect \<lparr>cr_start = \<lparr>ca_row = 1, ca_col = 1\<rparr>, cr_end = \<lparr>ca_row = 0, ca_col = 0\<rparr>\<rparr> m \<and> in_range c m)" by blast
  have "\<exists>t\<in>set targets. in_range \<lparr>ca_row = 1, ca_col = 3\<rparr> t" "\<not> (\<exists>t\<in>set targets. in_range \<lparr>ca_row = 0, ca_col = 3\<rparr> t)"
    unfolding t(3) example_merge by (simp_all add: in_range_def ranges_intersect_def normalize_cell_range_def)
  with t(1, 2) show ?thesis by blast
qed

section \<open>Borders\<close>

text \<open>Whether a cell lies on a side of a range, and whether a call sets that side of the cell.\<close>

fun on_edge :: "cell_range \<Rightarrow> cell_address \<Rightarrow> border_edge \<Rightarrow> bool" where
  "on_edge r c TopEdge = (ca_row c = ca_row (cr_start (normalize_cell_range r)))"
| "on_edge r c BottomEdge = (ca_row c = ca_row (cr_end (normalize_cell_range r)))"
| "on_edge r c LeftEdge = (ca_col c = ca_col (cr_start (normalize_cell_range r)))"
| "on_edge r c RightEdge = (ca_col c = ca_col (cr_end (normalize_cell_range r)))"

definition edge_set_to :: "style \<Rightarrow> border_edge \<Rightarrow> js_value \<Rightarrow> bool" where
  "edge_set_to style k e \<longleftrightarrow>
     (case as_resolved_style_group (js_field style ''border'') of None \<Rightarrow> False | Some fs \<Rightarrow> map_of fs (edge_name k) = Some e)"

fun call_sets_edge :: "cell_address \<Rightarrow> border_edge \<Rightarrow> js_value \<Rightarrow> sheet_call \<Rightarrow> bool" where
  "call_sets_edge c k e (SetRangeStyle r style) = (in_range c r \<and> edge_set_to style k e)"
| "call_sets_edge c k e (SetCellStyle d style) = (c = d \<and> edge_set_to style k e)"
| "call_sets_edge c k e _ = False"

lemma edge_name_eq [simp]: "edge_name j = edge_name k \<longleftrightarrow> j = k"
  by (cases j; cases k) simp_all

lemma one_edge_set: "edge_set_to (create_border_patch [(j, e)]) k e' \<longleftrightarrow> j = k \<and> e = e'"
  by (auto simp: edge_set_to_def create_border_patch_def js_field_def)

lemma all_edges_set:
  "edge_set_to (create_border_patch [(BottomEdge, e), (LeftEdge, e), (RightEdge, e), (TopEdge, e)]) k e' \<longleftrightarrow> e = e'"
  by (cases k) (auto simp: edge_set_to_def create_border_patch_def js_field_def)

lemma edge_range_cells: "in_range c (get_border_edge_range r k) \<longleftrightarrow> in_range c r \<and> on_edge r c k"
  by (cases k) (auto simp: get_border_edge_range_def in_range_def normalize_cell_range_def Let_def)

lemma edge_range_normalized [simp]: "get_border_edge_range (normalize_cell_range r) k = get_border_edge_range r k"
  by (simp add: get_border_edge_range_def)

lemma single_on_edges:
  assumes "is_single_cell_range r" "in_range c r"
  shows "on_edge r c k" "c = cr_start (normalize_cell_range r)"
proof -
  show "c = cr_start (normalize_cell_range r)" using assms corners_in(1) unfolding single_cell_range by blast
  moreover have "cr_start (normalize_cell_range r) = cr_end (normalize_cell_range r)"
    using assms(1) corners_in unfolding single_cell_range by blast
  ultimately show "on_edge r c k" by (cases k) simp_all
qed

lemma drawn_sides:
  assumes "active_range v = Some r" "action \<noteq> NoBorder"
  shows "(\<exists>call\<in>set (apply_border_action v st action). call_sets_edge c k (create_border_edge (tb_border_color st)) call) \<longleftrightarrow>
    in_range c r \<and> (action = AllBorders \<or> on_edge r c k \<and> (action = OutsideBorder \<or> action = OneBorder k))"
proof (cases action)
  case AllBorders
  then show ?thesis using assms by (simp add: apply_border_action_def Let_def all_edges_set)
next
  case OutsideBorder
  have single: "is_single_cell_range (normalize_cell_range r) = is_single_cell_range r"
    by (simp add: is_single_cell_range_def)
  show ?thesis
  proof (cases "is_single_cell_range r")
    case True
    have one: "c = cr_start (normalize_cell_range r) \<longleftrightarrow> in_range c r" using corners_in(1) single_on_edges(2) [OF True] by blast
    show ?thesis using OutsideBorder assms True single_on_edges(1) [OF True, of c k]
      by (simp add: apply_border_action_def Let_def all_edges_set single one del: on_edge.simps) blast
  next
    case False
    then show ?thesis using OutsideBorder assms
      by (cases k) (simp_all add: apply_border_action_def Let_def single one_edge_set edge_range_cells del: on_edge.simps)
  qed
next
  case (OneBorder j)
  then show ?thesis using assms
    by (cases "j = k") (simp_all add: apply_border_action_def Let_def one_edge_set edge_range_cells del: on_edge.simps)
qed (use assms in simp)

text \<open>Whether a call changes anything of a cell.\<close>

fun call_reaches :: "cell_address \<Rightarrow> sheet_call \<Rightarrow> bool" where
  "call_reaches c (SetRangeStyle r style) = in_range c r"
| "call_reaches c (SetCellStyle d style) = (c = d)"
| "call_reaches c _ = False"

lemma border_calls_in_range:
  assumes "active_range v = Some r" "call \<in> set (apply_border_action v st action)" "call_reaches c call"
  shows "in_range c r"
proof -
  have single: "is_single_cell_range (normalize_cell_range r) = is_single_cell_range r"
    by (simp add: is_single_cell_range_def)
  show ?thesis
    using assms corners_in(1) [of r]
    by (cases action) (auto simp: apply_border_action_def single edge_range_cells Let_def split: if_splits)
qed

lemma border_calls_draw:
  assumes "active_range v = Some r" "action \<noteq> NoBorder" "call \<in> set (apply_border_action v st action)" "call_sets_edge c k e call"
  shows "e = create_border_edge (tb_border_color st)"
  using assms by (cases action) (auto simp: apply_border_action_def all_edges_set one_edge_set Let_def split: if_splits)

text \<open>
  C34: A border command draws exactly the lines its name promises: all sides of every cell of the range, only the sides that
  lie on the outline, or one side of the outline. It gives no side anything but that line, and no call of it, not even one that
  would clear a border, reaches a cell outside the range.
\<close>
theorem borders_drawn:
  assumes "active_range v = Some r" "action \<noteq> NoBorder"
  shows "((\<exists>call\<in>set (apply_border_action v st action). call_sets_edge c k (create_border_edge (tb_border_color st)) call) \<longleftrightarrow>
      in_range c r \<and> (action = AllBorders \<or> on_edge r c k \<and> (action = OutsideBorder \<or> action = OneBorder k))) \<and>
    (\<forall>call\<in>set (apply_border_action v st action).
      (call_reaches c call \<longrightarrow> in_range c r) \<and>
      (\<forall>e. call_sets_edge c k e call \<longrightarrow> e = create_border_edge (tb_border_color st)))"
  using drawn_sides [OF assms] border_calls_in_range [OF assms(1)] border_calls_draw [OF assms] by blast

theorem borders_drawn_witness:
  "let calls = apply_border_action example_view (toolbar_start example_view) OutsideBorder; line = create_border_edge default_border_color
   in (\<exists>call\<in>set calls. call_sets_edge \<lparr>ca_row = 0, ca_col = 1\<rparr> TopEdge line call) \<and>
      \<not> (\<exists>call\<in>set calls. call_sets_edge \<lparr>ca_row = 0, ca_col = 1\<rparr> LeftEdge line call)"
proof -
  let ?r = "\<lparr>cr_start = \<lparr>ca_row = 0, ca_col = 0\<rparr>, cr_end = \<lparr>ca_row = 1, ca_col = 1\<rparr>\<rparr>"
  have r: "active_range example_view = Some ?r" by (simp add: active_range_def example_view_def normalize_cell_range_def)
  have color: "tb_border_color (toolbar_start example_view) = default_border_color" by (simp add: toolbar_start_def)
  from borders_drawn [OF r, of OutsideBorder "toolbar_start example_view" "\<lparr>ca_row = 0, ca_col = 1\<rparr>"]
  show ?thesis unfolding Let_def color by (simp add: in_range_def normalize_cell_range_def)
qed

section \<open>Merging\<close>

lemma selection_intersects:
  "sv_selection v = Some sel \<Longrightarrow>
    selection_intersects_merge v st \<longleftrightarrow> (\<exists>m\<in>set (merge_regions v st). ranges_intersect sel m)"
  by (auto simp: selection_intersects_merge_def active_range_def list_ex_iff)

text \<open>
  Once a selection was merged it cannot be merged again but unmerged, in every render of that sheet with that selection:
  while the worksheet does not report the merge yet, and from the moment it reports one.
\<close>
theorem merged_stays_merged:
  assumes step: "toolbar_step v st action = Some (st', calls)" "action = MergeCells \<or> action = MergeAndCenter"
    and sel: "sv_selection v = Some sel" "sv_selection v' = Some sel"
    and same: "tb_previous_sheet st = sv_sheet_index v'" "\<not> sv_read_only v'"
  shows "MergeSelection \<in> set calls \<and> \<not> can_merge_selected_cells v' (render_toolbar v' st') \<and>
    \<not> can_merge_across v' (render_toolbar v' st') \<and> can_unmerge_selected_cells v' (render_toolbar v' st')"
proof -
  have st': "st' = st\<lparr>tb_applied := [normalize_cell_range sel]\<rparr>" "MergeSelection \<in> set calls"
    using step sel by (auto split: if_splits)
  have "\<exists>m\<in>set (merge_regions v' (render_toolbar v' st')). ranges_intersect sel m"
  proof (cases "list_ex (ranges_intersect (normalize_cell_range sel)) (worksheet_merge_regions v')")
    case True
    then show ?thesis by (auto simp: merge_regions_def list_ex_iff)
  next
    case False
    then show ?thesis
      using st' same ranges_intersect_self by (simp add: merge_regions_def render_toolbar_def Let_def)
  qed
  then have "selection_intersects_merge v' (render_toolbar v' st')" using sel by (simp add: selection_intersects)
  then show ?thesis
    using st' sel same by (simp add: can_merge_selected_cells_def can_merge_across_def can_unmerge_selected_cells_def)
qed

theorem merged_stays_merged_witness:
  "let v = example_view\<lparr>sv_merged_regions := JsArr []\<rparr>; st = fst (the (toolbar_step v (toolbar_start v) MergeCells))
   in can_merge_selected_cells v (toolbar_start v) \<and> can_unmerge_selected_cells v (render_toolbar v st)"
proof -
  let ?v = "example_view\<lparr>sv_merged_regions := JsArr []\<rparr>"
  have can: "can_merge_selected_cells ?v (toolbar_start ?v)"
    by (simp add: can_merge_selected_cells_def selection_intersects_merge_def selection_is_single_cell_def active_range_def
        merge_regions_def worksheet_merge_regions_def get_worksheet_merge_regions_def example_view_def toolbar_start_def
        is_single_cell_range_def normalize_cell_range_def)
  have sel: "sv_selection ?v = Some \<lparr>cr_start = \<lparr>ca_row = 1, ca_col = 1\<rparr>, cr_end = \<lparr>ca_row = 0, ca_col = 0\<rparr>\<rparr>"
    and rest: "\<not> sv_read_only ?v" "tb_previous_sheet (toolbar_start ?v) = sv_sheet_index ?v"
    by (simp_all add: example_view_def toolbar_start_def)
  obtain st' calls where step: "toolbar_step ?v (toolbar_start ?v) MergeCells = Some (st', calls)"
    unfolding toolbar_step.simps sel using can by simp
  from merged_stays_merged [OF step disjI1 [OF refl] sel sel rest(2) rest(1)] can show ?thesis by (simp only: step option.sel prod.sel Let_def)
qed

text \<open>A merge row by row cuts the range into its rows.\<close>

lemma in_row:
  "a \<le> b \<Longrightarrow> in_range c \<lparr>cr_start = \<lparr>ca_row = i, ca_col = a\<rparr>, cr_end = \<lparr>ca_row = i, ca_col = b\<rparr>\<rparr> \<longleftrightarrow>
    ca_row c = i \<and> a \<le> ca_col c \<and> ca_col c \<le> b"
  by (auto simp: in_range_def normalize_cell_range_def)

lemma merge_rows_cells:
  "(\<exists>m\<in>set (merge_rows (normalize_cell_range r)). in_range c m) \<longleftrightarrow> in_range c r"
proof -
  let ?n = "normalize_cell_range r"
  have le: "ca_row (cr_start ?n) \<le> ca_row (cr_end ?n)" "ca_col (cr_start ?n) \<le> ca_col (cr_end ?n)" by (rule normalize_ordered)+
  have "(\<exists>m\<in>set (merge_rows ?n). in_range c m) \<longleftrightarrow>
    (\<exists>i<ca_row (cr_end ?n) - ca_row (cr_start ?n) + 1. ca_row c = ca_row (cr_start ?n) + i) \<and>
      ca_col (cr_start ?n) \<le> ca_col c \<and> ca_col c \<le> ca_col (cr_end ?n)"
    unfolding merge_rows_def set_map set_upt by (auto simp: in_row [OF le(2)])
  also have "(\<exists>i<ca_row (cr_end ?n) - ca_row (cr_start ?n) + 1. ca_row c = ca_row (cr_start ?n) + i) \<longleftrightarrow>
    ca_row (cr_start ?n) \<le> ca_row c \<and> ca_row c \<le> ca_row (cr_end ?n)"
    using le by (auto intro!: exI [of _ "ca_row c - ca_row (cr_start ?n)"])
  finally show ?thesis by (simp add: in_range_def Let_def conj_assoc)
qed

definition toolbar_ok :: "toolbar \<Rightarrow> bool" where
  "toolbar_ok st \<longleftrightarrow>
     hex_color_text (tb_text_color st) \<and> hex_color_text (tb_fill_color st) \<and> hex_color_text (tb_border_color st) \<and>
     list_all (\<lambda>r. normalize_cell_range r = r) (tb_applied st)"

definition toolbar_turn :: "toolbar \<Rightarrow> sheet_view \<times> toolbar_action \<Rightarrow> toolbar option" where
  "toolbar_turn st va = map_option fst (toolbar_step (fst va) st (snd va))"

lemma merge_rows_normalized: "list_all (\<lambda>r. normalize_cell_range r = r) (merge_rows rng)"
  by (simp add: merge_rows_def list_all_iff)

lemma commit_formula_frame:
  "commit_formula v st = (st', calls) \<Longrightarrow> tb_text_color st' = tb_text_color st \<and> tb_fill_color st' = tb_fill_color st \<and>
    tb_border_color st' = tb_border_color st \<and> tb_applied st' = tb_applied st"
  by (auto simp: commit_formula_def split: option.splits if_splits)

lemma merge_across_frame:
  "merge_across v didPaste st = (st', calls) \<Longrightarrow> toolbar_ok st \<Longrightarrow> toolbar_ok st'"
  using merge_rows_normalized by (auto simp: merge_across_def toolbar_ok_def Let_def split: option.splits if_splits)

lemma unmerge_frame: "unmerge v unmerged st = (st', calls) \<Longrightarrow> toolbar_ok st \<Longrightarrow> toolbar_ok st'"
  by (auto simp: unmerge_def toolbar_ok_def Let_def split: option.splits if_splits)

lemma render_frame: "toolbar_ok st \<Longrightarrow> toolbar_ok (render_toolbar v st)"
  by (auto simp: toolbar_ok_def render_toolbar_def Let_def list_all_iff)

lemma toolbar_turn_ok:
  assumes ok: "toolbar_ok st" and step: "toolbar_step v st a = Some (st', calls)"
  shows "toolbar_ok st'"
proof -
  have frame: "toolbar_ok st''" if "tb_text_color st'' = tb_text_color st" "tb_fill_color st'' = tb_fill_color st"
    "tb_border_color st'' = tb_border_color st" "tb_applied st'' = tb_applied st" for st''
    using ok that by (simp add: toolbar_ok_def)
  show ?thesis
  proof (cases a)
    case RenderToolbar
    then show ?thesis using step render_frame [OF ok] by auto
  next
    case (MergeAcross d)
    then show ?thesis using step merge_across_frame [OF _ ok] by (cases "merge_across v d st") (auto split: if_splits)
  next
    case (Unmerge f)
    then show ?thesis using step unmerge_frame [OF _ ok] by (cases "unmerge v f st") (auto split: if_splits)
  next
    case BlurFormula
    then show ?thesis using step commit_formula_frame by (cases "commit_formula v st") (auto intro!: frame)
  next
    case EnterFormula
    then show ?thesis using step commit_formula_frame by (cases "commit_formula v st") (auto intro!: frame split: if_splits)
  qed (use ok step normalize_hex_color_valid default_colors_valid in
    \<open>auto simp: toolbar_ok_def style_selection_def Let_def split: if_splits option.splits prod.splits\<close>)
qed

interpretation toolbar: machine toolbar_turn "toolbar_start v" toolbar_ok for v
proof
  show "toolbar_ok (toolbar_start v)" using default_colors_valid by (simp add: toolbar_ok_def toolbar_start_def)
next
  fix st va st' assume "toolbar_ok st" "toolbar_turn st va = Some st'"
  then show "toolbar_ok st'" using toolbar_turn_ok by (auto simp: toolbar_turn_def)
qed

text \<open>
  Whatever text the pickers deliver, the toolbar only ever holds colours of six lower-case hexadecimal digits, and the
  regions it merged itself are kept with their corners in order.
\<close>
theorem toolbar_holds_valid_colors:
  assumes "exec toolbar_turn (toolbar_start v) acts = Some st"
  shows "hex_color_text (tb_text_color st) \<and> hex_color_text (tb_fill_color st) \<and> hex_color_text (tb_border_color st) \<and>
    (\<forall>r\<in>set (tb_applied st). normalize_cell_range r = r)"
  using toolbar.inv_exec [OF assms] by (simp add: toolbar_ok_def list_all_iff)

theorem toolbar_holds_valid_colors_witness:
  "tb_border_color (the (exec toolbar_turn (toolbar_start example_view) [(example_view, PickBorderColor ''no color'')])) = ''#111827'' \<and>
   hex_color_text ''#111827''"
proof -
  have step: "exec toolbar_turn (toolbar_start example_view) [(example_view, PickBorderColor ''no color'')] =
    Some ((toolbar_start example_view)\<lparr>tb_border_color := ''#111827''\<rparr>)"
    by (simp add: toolbar_turn_def normalize_hex_color_def js_trim_def is_ws_def starts_with_def default_text_color_def)
  from toolbar_holds_valid_colors [OF step] show ?thesis unfolding step by simp
qed

section \<open>The formula field\<close>

definition input_call :: "cell_address \<Rightarrow> string \<Rightarrow> sheet_call" where
  "input_call c text = (if starts_with (js_trim text) ''='' then SetCellFormula c text else SetCellValue c text)"

text \<open>
  What is typed is written once, when the field is left with Enter or by a click, to the cell that was active when the
  field was entered, even when another cell is active by then; unchanged text is not written.
\<close>
theorem formula_written_once:
  assumes "toolbar_step v st FocusFormula = Some (st1, calls1)" "toolbar_step v1 st1 (TypeFormula text) = Some (st2, calls2)"
    and "leave = EnterFormula \<or> leave = BlurFormula" "toolbar_step v2 st2 leave = Some (st3, calls3)"
    and "toolbar_step v3 st3 BlurFormula = Some (st4, calls4)"
  shows "\<exists>c. sv_active_cell v = Some c \<and>
    calls1 @ calls2 @ calls3 @ calls4 = (if text = selected_cell_input_value v then [] else [input_call c text])"
  using assms
  by (cases "sv_active_cell v") (auto simp: commit_formula_def input_call_def split: if_splits prod.splits)

theorem formula_written_once_witness:
  "let v = example_view; st2 = (toolbar_start v)\<lparr>tb_edit_cell := sv_active_cell v, tb_initial := ''7'', tb_draft := ''8'', tb_focused := True\<rparr>
   in snd (the (toolbar_step (v\<lparr>sv_active_cell := None\<rparr>) st2 BlurFormula)) = [input_call \<lparr>ca_row = 0, ca_col = 0\<rparr> ''8'']"
proof -
  let ?v = "example_view" and ?w = "example_view\<lparr>sv_active_cell := None\<rparr>"
  let ?st1 = "(toolbar_start ?v)\<lparr>tb_edit_cell := sv_active_cell ?v, tb_initial := ''7'', tb_draft := ''7'', tb_focused := True\<rparr>"
  let ?st2 = "(toolbar_start ?v)\<lparr>tb_edit_cell := sv_active_cell ?v, tb_initial := ''7'', tb_draft := ''8'', tb_focused := True\<rparr>"
  have s: "selected_cell_input_value ?v = ''7''" "sv_active_cell ?v = Some \<lparr>ca_row = 0, ca_col = 0\<rparr>" "\<not> sv_read_only ?v"
    by (simp_all add: selected_cell_input_value_def example_view_def)
  have f: "toolbar_step ?v (toolbar_start ?v) FocusFormula = Some (?st1, [])" using s by simp
  have t: "toolbar_step ?v ?st1 (TypeFormula ''8'') = Some (?st2, [])" using s by simp
  obtain st3 calls3 where b: "toolbar_step ?w ?st2 BlurFormula = Some (st3, calls3)"
    by (cases "commit_formula ?w ?st2") simp
  then have st3: "tb_draft st3 = ''8''" "tb_initial st3 = ''8''" "tb_edit_cell st3 = sv_active_cell ?v"
    using s by (auto simp: commit_formula_def)
  have e: "toolbar_step ?w st3 BlurFormula = Some (st3\<lparr>tb_focused := False\<rparr>, [])"
    using st3 s by (simp add: commit_formula_def)
  from formula_written_once [OF f t disjI2 [OF refl] b e] s b show ?thesis by (simp only: Let_def option.sel prod.sel) auto
qed

text \<open>
  After Enter the field keeps the keyboard but shows the cell again: what is typed then is not shown, and is written
  all the same when the field is left.
\<close>

lemma typing_after_enter_is_hidden:
  assumes "toolbar_step v st EnterFormula = Some (st1, calls1)" "toolbar_step v1 st1 (TypeFormula text) = Some (st2, calls2)"
    and "tb_edit_cell st = Some c" "text \<noteq> tb_draft st"
  shows "formula_shown v2 st2 = selected_cell_input_value v2 \<and>
    snd (the (toolbar_step v2 st2 BlurFormula)) = [input_call c text]"
  using assms by (auto simp: commit_formula_def formula_shown_def input_call_def split: if_splits prod.splits)

end
