(* ===== verification/WorkbookSearch.thy ===== *)
theory WorkbookSearch
  imports Spreadsheet
begin

text \<open>
  Searching a workbook (web/src/components/extend/xlsx-viewer.tsx): the scan of the sheets in batches of rows, the search
  popover with its debounced and overlapping requests, and the scrolling to a result.

  The workbook is a library: a sheet's visible rows and columns, the texts of its cells and the batches it returns are
  arguments. \<open>to_text\<close> stands for \<open>String(value)\<close> of a value that is neither a string nor nullish. A batch that is
  no array counts as an empty one (\<open>Some []\<close>), a falsy one is \<open>None\<close>; a row or column that is no integer is \<open>None\<close>.
\<close>

section \<open>The texts of a cell\<close>

definition normalize_search_text :: "(js_value \<Rightarrow> string) \<Rightarrow> js_value \<Rightarrow> string" where
  "normalize_search_text to_text v = (case v of JsStr s \<Rightarrow> s | _ \<Rightarrow> if js_nullish v then [] else to_text v)"

text \<open>A value of the library with its test fields and its accessors, each of which may be missing or return null.\<close>

record cell_value =
  cv_is_empty :: bool
  cv_is_error :: bool
  cv_is_text :: bool
  cv_is_number :: bool
  cv_is_boolean :: bool
  cv_error :: "string option"
  cv_text :: "string option"
  cv_number :: js_value
  cv_boolean :: "bool option"
  cv_self :: js_value

datatype calculated = PlainValue js_value | CellValue cell_value

definition cell_value_to_search_text :: "(js_value \<Rightarrow> string) \<Rightarrow> calculated \<Rightarrow> string" where
  "cell_value_to_search_text to_text c =
     (case c of
        PlainValue v \<Rightarrow> normalize_search_text to_text v
      | CellValue r \<Rightarrow>
          if cv_is_empty r then []
          else if cv_is_error r then (case cv_error r of Some s \<Rightarrow> s | None \<Rightarrow> [])
          else if cv_is_text r then (case cv_text r of Some s \<Rightarrow> s | None \<Rightarrow> [])
          else if cv_is_number r then normalize_search_text to_text (cv_number r)
          else if cv_is_boolean r then (if cv_boolean r = Some True then ''TRUE'' else ''FALSE'')
          else normalize_search_text to_text (cv_self r))"

definition calculated_is_error :: "calculated \<Rightarrow> bool" where
  "calculated_is_error c = (case c of PlainValue v \<Rightarrow> False | CellValue r \<Rightarrow> cv_is_error r)"

record worksheet =
  ws_formula_at :: "nat \<Rightarrow> nat \<Rightarrow> string option"
  ws_formatted_at :: "nat \<Rightarrow> nat \<Rightarrow> string option"
  ws_calculated_at :: "nat \<Rightarrow> nat \<Rightarrow> calculated"

record sheet_data =
  sd_index :: nat
  sd_name :: string
  sd_min_row :: int
  sd_max_row :: int
  sd_min_col :: int
  sd_max_col :: int
  sd_visible_rows :: "nat list"
  sd_visible_cols :: "nat list"
  sd_cached :: "string \<rightharpoonup> string"
  sd_row_heights :: "rat list"
  sd_col_widths :: "rat list"
  sd_row_height :: rat
  sd_col_width :: rat

definition get_cell_search_text :: "(js_value \<Rightarrow> string) \<Rightarrow> worksheet option \<Rightarrow> sheet_data \<Rightarrow> nat \<Rightarrow> nat \<Rightarrow> string \<times> string" where
  "get_cell_search_text to_text worksheet sheet row col =
     (case worksheet of
        None \<Rightarrow> ([], [])
      | Some w \<Rightarrow>
          (let formula = (case ws_formula_at w row col of Some f \<Rightarrow> f | None \<Rightarrow> []);
               cached = (if formula \<noteq> [] then sd_cached sheet (viewer_cell_address_to_a1 \<lparr>ca_row = row, ca_col = col\<rparr>) else None);
               formatted = ws_formatted_at w row col;
               calculated = ws_calculated_at w row col
           in if \<not> falsy formatted \<and> \<not> (formula \<noteq> [] \<and> cached \<noteq> None \<and> starts_with (the formatted) ''#'')
              then (the formatted, formula)
              else (if formula \<noteq> [] \<and> cached \<noteq> None \<and> calculated_is_error calculated then the cached
                    else cell_value_to_search_text to_text calculated, formula)))"

definition cell_matches_query :: "string \<times> string \<Rightarrow> string \<Rightarrow> bool" where
  "cell_matches_query texts query = (js_includes (to_lower (fst texts)) query \<or> js_includes (to_lower (snd texts)) query)"

section \<open>Scanning the sheets\<close>

record xlsx_search_result =
  xr_cell :: cell_address
  xr_value :: string
  xr_formula :: string
  xr_sheet :: nat
  xr_name :: string
  xr_workbook_sheet :: nat

record batch_cell =
  xb_col :: "nat option"
  xb_value :: js_value
  xb_formula :: js_value

record batch_row =
  xb_row :: "nat option"
  xb_cells :: "batch_cell list"

record xlsx_controller =
  xc_sheets :: "sheet_data list"
  xc_worksheet :: "nat \<Rightarrow> worksheet option"
  xc_rows_batch :: "nat \<Rightarrow> nat \<Rightarrow> nat \<Rightarrow> js_error + batch_row list option"

definition search_batch_row_count :: nat where "search_batch_row_count = 500"

definition sheet_start_row :: "sheet_data \<Rightarrow> nat" where
  "sheet_start_row sheet = nat (max 0 (sd_min_row sheet))"

definition sheet_end_row :: "sheet_data \<Rightarrow> nat" where
  "sheet_end_row sheet = nat (max (int (sheet_start_row sheet)) (sd_max_row sheet))"

definition used_cols :: "sheet_data \<Rightarrow> nat list" where
  "used_cols sheet = filter (\<lambda>col. sd_min_col sheet \<le> int col \<and> int col \<le> sd_max_col sheet) (sd_visible_cols sheet)"

definition search_result :: "nat \<Rightarrow> sheet_data \<Rightarrow> nat \<Rightarrow> nat \<Rightarrow> string \<times> string \<Rightarrow> xlsx_search_result" where
  "search_result i sheet row col texts =
     \<lparr>xr_cell = \<lparr>ca_row = row, ca_col = col\<rparr>, xr_value = fst texts, xr_formula = snd texts, xr_sheet = i,
      xr_name = sd_name sheet, xr_workbook_sheet = sd_index sheet\<rparr>"

definition batch_cell_results :: "(js_value \<Rightarrow> string) \<Rightarrow> string \<Rightarrow> nat \<Rightarrow> sheet_data \<Rightarrow> nat \<Rightarrow> batch_cell \<Rightarrow> xlsx_search_result list" where
  "batch_cell_results to_text query i sheet row cell =
     (case xb_col cell of
        None \<Rightarrow> []
      | Some col \<Rightarrow>
          if col \<notin> set (used_cols sheet) then []
          else (let texts = (normalize_search_text to_text (xb_value cell), normalize_search_text to_text (xb_formula cell))
                in if cell_matches_query texts query then [search_result i sheet row col texts] else []))"

definition batch_row_results :: "(js_value \<Rightarrow> string) \<Rightarrow> string \<Rightarrow> nat \<Rightarrow> sheet_data \<Rightarrow> batch_row \<Rightarrow> xlsx_search_result list" where
  "batch_row_results to_text query i sheet r =
     (case xb_row r of
        None \<Rightarrow> []
      | Some row \<Rightarrow>
          if row \<notin> set (sd_visible_rows sheet) then []
          else concat (map (batch_cell_results to_text query i sheet row) (xb_cells r)))"

definition scan_row :: "(js_value \<Rightarrow> string) \<Rightarrow> string \<Rightarrow> nat \<Rightarrow> sheet_data \<Rightarrow> worksheet option \<Rightarrow> nat \<Rightarrow> xlsx_search_result list" where
  "scan_row to_text query i sheet w row =
     concat (map (\<lambda>col. let texts = get_cell_search_text to_text w sheet row col
                        in if cell_matches_query texts query then [search_result i sheet row col texts] else []) (used_cols sheet))"

text \<open>One batch of \<open>n\<close> rows from \<open>first\<close> on: what the library answers, or the cells one by one.\<close>

definition search_batch ::
  "(js_value \<Rightarrow> string) \<Rightarrow> xlsx_controller \<Rightarrow> string \<Rightarrow> nat \<Rightarrow> sheet_data \<Rightarrow> nat \<Rightarrow> nat \<Rightarrow> js_error + xlsx_search_result list" where
  "search_batch to_text controller query i sheet first n =
     (case xc_rows_batch controller (sd_index sheet) first n of
        Inl e \<Rightarrow> Inl e
      | Inr (Some rows) \<Rightarrow> Inr (concat (map (batch_row_results to_text query i sheet) rows))
      | Inr None \<Rightarrow>
          Inr (case xc_worksheet controller (sd_index sheet) of
                 None \<Rightarrow> []
               | w \<Rightarrow> concat (map (scan_row to_text query i sheet w)
                        (filter (\<lambda>row. first \<le> row \<and> row \<le> first + n - 1) (sd_visible_rows sheet)))))"

function search_rows ::
  "(js_value \<Rightarrow> string) \<Rightarrow> xlsx_controller \<Rightarrow> string \<Rightarrow> nat \<Rightarrow> sheet_data \<Rightarrow> nat \<Rightarrow> nat \<Rightarrow> js_error + xlsx_search_result list" where
  "search_rows to_text controller query i sheet first last_row =
     (if last_row < first then Inr []
      else (case search_batch to_text controller query i sheet first (min search_batch_row_count (last_row - first + 1)) of
              Inl e \<Rightarrow> Inl e
            | Inr found \<Rightarrow>
                map_sum id (\<lambda>rest. found @ rest)
                  (search_rows to_text controller query i sheet (first + search_batch_row_count) last_row)))"
  by pat_completeness auto
termination
  by (relation "measure (\<lambda>(_, _, _, _, _, first, last_row). Suc last_row - first)") (auto simp: search_batch_row_count_def)

declare search_rows.simps [simp del]

definition search_sheet ::
  "(js_value \<Rightarrow> string) \<Rightarrow> xlsx_controller \<Rightarrow> string \<Rightarrow> nat \<Rightarrow> sheet_data \<Rightarrow> js_error + xlsx_search_result list" where
  "search_sheet to_text controller query i sheet =
     (if used_cols sheet = [] \<or> sd_max_row sheet < sd_min_row sheet then Inr []
      else search_rows to_text controller query i sheet (sheet_start_row sheet) (sheet_end_row sheet))"

fun search_sheets ::
  "(js_value \<Rightarrow> string) \<Rightarrow> xlsx_controller \<Rightarrow> string \<Rightarrow> nat \<Rightarrow> sheet_data list \<Rightarrow> js_error + xlsx_search_result list" where
  "search_sheets to_text controller query i [] = Inr []"
| "search_sheets to_text controller query i (sheet # sheets) =
     (case search_sheet to_text controller query i sheet of
        Inl e \<Rightarrow> Inl e
      | Inr found \<Rightarrow> map_sum id (\<lambda>rest. found @ rest) (search_sheets to_text controller query (i + 1) sheets))"

definition find_xlsx_search_results ::
  "(js_value \<Rightarrow> string) \<Rightarrow> xlsx_controller \<Rightarrow> string \<Rightarrow> js_error + xlsx_search_result list" where
  "find_xlsx_search_results to_text controller rawQuery =
     (let query = to_lower (js_trim rawQuery)
      in if query = [] then Inr [] else search_sheets to_text controller query 0 (xc_sheets controller))"

section \<open>Scrolling to a result\<close>

definition sum_axis_before :: "rat list \<Rightarrow> nat \<Rightarrow> rat \<Rightarrow> rat" where
  "sum_axis_before values n zoom = sum_list (map (\<lambda>i. (if i < length values then values ! i else 0) * zoom) [0..<n])"

definition index_of :: "'a \<Rightarrow> 'a list \<Rightarrow> nat option" where
  "index_of x xs = (if x \<in> set xs then Some (length (takeWhile (\<lambda>y. y \<noteq> x) xs)) else None)"

text \<open>One axis: where it is scrolled to, given the header, the start and end of the cell, the position and the size shown.\<close>

definition scroll_axis :: "rat \<Rightarrow> rat \<Rightarrow> rat \<Rightarrow> rat \<Rightarrow> rat \<Rightarrow> rat" where
  "scroll_axis header from to pos shown =
     max 0 (if from < pos + header then from - header else if to > pos + shown then to - shown else pos)"

record scroll_viewport =
  vp_top :: rat
  vp_left :: rat
  vp_height :: rat
  vp_width :: rat

definition scroll_xlsx_cell_into_view ::
  "xlsx_controller \<Rightarrow> rat \<Rightarrow> xlsx_search_result \<Rightarrow> scroll_viewport option \<Rightarrow> (rat \<times> rat) option" where
  "scroll_xlsx_cell_into_view controller zoomScale result viewport =
     (case viewport of
        None \<Rightarrow> None
      | Some vp \<Rightarrow>
          if \<not> xr_sheet result < length (xc_sheets controller) then None
          else
            (let sheet = xc_sheets controller ! xr_sheet result
             in case (index_of (ca_row (xr_cell result)) (sd_visible_rows sheet), index_of (ca_col (xr_cell result)) (sd_visible_cols sheet)) of
                  (Some rowIndex, Some colIndex) \<Rightarrow>
                    (let zoom = max (1 / 10) (zoomScale / 100); headerHeight = 24 * zoom; rowHeaderWidth = 40 * zoom;
                         rowStart = headerHeight + sum_axis_before (sd_row_heights sheet) rowIndex zoom;
                         colStart = rowHeaderWidth + sum_axis_before (sd_col_widths sheet) colIndex zoom;
                         rowHeight = (if rowIndex < length (sd_row_heights sheet) then sd_row_heights sheet ! rowIndex else sd_row_height sheet) * zoom;
                         colWidth = (if colIndex < length (sd_col_widths sheet) then sd_col_widths sheet ! colIndex else sd_col_width sheet) * zoom
                     in Some (scroll_axis rowHeaderWidth colStart (colStart + colWidth) (vp_left vp) (vp_width vp),
                              scroll_axis headerHeight rowStart (rowStart + rowHeight) (vp_top vp) (vp_height vp)))
                | _ \<Rightarrow> None))"

section \<open>The search popover\<close>

text \<open>
  The state of the popover with the timer of its debounce and the requests that are out under their number, each with the
  outcome its scan of the workbook comes to. \<open>seek\<close> is the scan, for a workbook that stays the same.
\<close>

type_synonym search_outcome = "js_error + xlsx_search_result list"

record search_popover =
  sp_draft :: string
  sp_query :: string
  sp_results :: "xlsx_search_result list"
  sp_active :: nat
  sp_searching :: bool
  sp_request :: nat
  sp_timer :: "string option"
  sp_pending :: "(nat \<times> search_outcome) list"

definition search_popover_start :: search_popover where
  "search_popover_start =
     \<lparr>sp_draft = [], sp_query = [], sp_results = [], sp_active = 0, sp_searching = False, sp_request = 0, sp_timer = None,
      sp_pending = []\<rparr>"

definition active_result :: "search_popover \<Rightarrow> xlsx_search_result option" where
  "active_result st = (if sp_active st < length (sp_results st) then Some (sp_results st ! sp_active st) else None)"

definition search_label :: "search_popover \<Rightarrow> string" where
  "search_label st =
     (if sp_results st \<noteq> [] then show_nat (sp_active st + 1) @ '' / '' @ show_nat (length (sp_results st))
      else if sp_searching st then ''Searching''
      else if js_trim (sp_query st) = [] then ''No search''
      else ''No results'')"

definition run_search :: "(string \<Rightarrow> search_outcome) \<Rightarrow> string \<Rightarrow> search_popover \<Rightarrow> search_popover" where
  "run_search seek rawQuery st =
     (let nextQuery = js_trim rawQuery; n = sp_request st + 1;
          st' = st\<lparr>sp_request := n, sp_query := nextQuery, sp_active := 0\<rparr>
      in if nextQuery = [] then st'\<lparr>sp_results := [], sp_searching := False\<rparr>
         else st'\<lparr>sp_searching := True, sp_pending := (n, seek nextQuery) # sp_pending st\<rparr>)"

text \<open>The effect of a changed draft: the old timer goes, a draft with text starts a new one.\<close>

definition draft_effect :: "search_popover \<Rightarrow> search_popover" where
  "draft_effect st = st\<lparr>sp_timer := (if js_trim (sp_draft st) = [] then None else Some (sp_draft st))\<rparr>"

definition change_search_draft :: "(string \<Rightarrow> search_outcome) \<Rightarrow> string \<Rightarrow> search_popover \<Rightarrow> search_popover" where
  "change_search_draft seek nextDraft st =
     (let st' = st\<lparr>sp_request := sp_request st + 1, sp_draft := nextDraft\<rparr>
      in draft_effect (if js_trim nextDraft = [] then run_search seek [] st' else st'\<lparr>sp_searching := True\<rparr>))"

definition clear_search :: "search_popover \<Rightarrow> search_popover" where
  "clear_search st =
     draft_effect (st\<lparr>sp_request := sp_request st + 1, sp_draft := [], sp_query := [], sp_results := [], sp_active := 0,
                     sp_searching := False\<rparr>)"

definition go_to_relative_result :: "int \<Rightarrow> search_popover \<Rightarrow> search_popover" where
  "go_to_relative_result direction st =
     (if sp_results st = [] then st
      else st\<lparr>sp_active := nat ((int (sp_active st) + direction + int (length (sp_results st))) mod int (length (sp_results st)))\<rparr>)"

definition search_settled :: "nat \<Rightarrow> search_popover \<Rightarrow> search_popover option" where
  "search_settled n st =
     (case map_of (sp_pending st) n of
        None \<Rightarrow> None
      | Some outcome \<Rightarrow>
          (let st' = st\<lparr>sp_pending := filter (\<lambda>p. fst p \<noteq> n) (sp_pending st)\<rparr>
           in Some (if sp_request st \<noteq> n then st'
                    else st'\<lparr>sp_results := (case outcome of Inr results \<Rightarrow> results | Inl _ \<Rightarrow> []), sp_searching := False\<rparr>)))"

datatype popover_action =
    ChangeSearch string
  | SearchTimer
  | SearchEnter bool
  | PreviousResult
  | NextResult
  | ClearSearch
  | SearchSettled nat

fun popover_step :: "(string \<Rightarrow> search_outcome) \<Rightarrow> search_popover \<Rightarrow> popover_action \<Rightarrow> search_popover option" where
  "popover_step seek st (ChangeSearch nextDraft) =
     (if nextDraft = sp_draft st then None else Some (change_search_draft seek nextDraft st))"
| "popover_step seek st SearchTimer =
     (case sp_timer st of None \<Rightarrow> None | Some draft \<Rightarrow> Some (run_search seek draft (st\<lparr>sp_timer := None\<rparr>)))"
| "popover_step seek st (SearchEnter shift) =
     Some (if shift \<and> sp_results st \<noteq> [] then go_to_relative_result (- 1) st
           else if sp_results st \<noteq> [] then go_to_relative_result 1 st
           else if js_trim (sp_draft st) \<noteq> [] then run_search seek (sp_draft st) st else st)"
| "popover_step seek st PreviousResult =
     (if sp_searching st \<or> sp_results st = [] then None else Some (go_to_relative_result (- 1) st))"
| "popover_step seek st NextResult =
     (if sp_searching st \<or> sp_results st = [] then None else Some (go_to_relative_result 1 st))"
| "popover_step seek st ClearSearch = Some (clear_search st)"
| "popover_step seek st (SearchSettled n) = search_settled n st"

text \<open>What the effect on the active result asks of the workbook: show its sheet first, then select the cell and scroll to it.\<close>

datatype workbook_call = SetActiveSheet nat | SelectCell cell_address | ScrollTo xlsx_search_result

definition result_key :: "xlsx_search_result option \<Rightarrow> string" where
  "result_key r =
     (case r of
        None \<Rightarrow> []
      | Some x \<Rightarrow> show_nat (xr_workbook_sheet x) @ '':'' @ show_nat (ca_row (xr_cell x)) @ '':'' @ show_nat (ca_col (xr_cell x)))"

definition active_result_effect :: "nat \<Rightarrow> string \<Rightarrow> search_popover \<Rightarrow> string \<times> workbook_call list" where
  "active_result_effect activeSheet appliedKey st =
     (case active_result st of
        None \<Rightarrow> (appliedKey, [])
      | Some r \<Rightarrow>
          if activeSheet \<noteq> xr_sheet r then ([], [SetActiveSheet (xr_sheet r)])
          else if appliedKey = result_key (Some r) then (appliedKey, [])
          else (result_key (Some r), [SelectCell (xr_cell r), ScrollTo r]))"

section \<open>The popover shows the answer of its draft\<close>

definition answer_of :: "(string \<Rightarrow> search_outcome) \<Rightarrow> string \<Rightarrow> xlsx_search_result list" where
  "answer_of seek q = (if q = [] then [] else case seek q of Inr results \<Rightarrow> results | Inl _ \<Rightarrow> [])"

text \<open>A request that is still wanted carries the number the popover is at, and searches for the draft.\<close>

definition request_ok :: "(string \<Rightarrow> search_outcome) \<Rightarrow> search_popover \<Rightarrow> nat \<times> search_outcome \<Rightarrow> bool" where
  "request_ok seek st r \<longleftrightarrow> fst r \<le> sp_request st \<and>
     (fst r = sp_request st \<longrightarrow> sp_searching st \<and> js_trim (sp_draft st) \<noteq> [] \<and> sp_query st = js_trim (sp_draft st) \<and>
                                snd r = seek (js_trim (sp_draft st)))"

definition popover_ok :: "(string \<Rightarrow> search_outcome) \<Rightarrow> search_popover \<Rightarrow> bool" where
  "popover_ok seek st \<longleftrightarrow>
     (\<forall>r\<in>set (sp_pending st). request_ok seek st r) \<and>
     (\<forall>draft. sp_timer st = Some draft \<longrightarrow> draft = sp_draft st \<and> js_trim draft \<noteq> []) \<and>
     (sp_searching st \<longrightarrow> sp_timer st \<noteq> None \<or> sp_request st \<in> fst ` set (sp_pending st)) \<and>
     (\<not> sp_searching st \<longrightarrow> sp_results st = answer_of seek (js_trim (sp_draft st)) \<and> sp_query st = js_trim (sp_draft st))"

lemma request_ok_later: "request_ok seek st r \<Longrightarrow> sp_request st < sp_request st' \<Longrightarrow> request_ok seek st' r"
  by (simp add: request_ok_def)

lemma popover_ok_draft:
  assumes "popover_ok seek st" "js_trim (sp_draft st) \<noteq> []" "t = sp_timer st \<or> t = None"
  shows "popover_ok seek (run_search seek (sp_draft st) (st\<lparr>sp_timer := t\<rparr>))"
proof -
  let ?st = "run_search seek (sp_draft st) (st\<lparr>sp_timer := t\<rparr>)"
  have 1: "sp_pending ?st = (sp_request ?st, seek (js_trim (sp_draft st))) # sp_pending st" "sp_request ?st = sp_request st + 1"
    "sp_draft ?st = sp_draft st" "sp_timer ?st = t" "sp_searching ?st" "sp_query ?st = js_trim (sp_draft st)"
    using assms(2) by (simp_all add: run_search_def Let_def)
  have "\<forall>r\<in>set (sp_pending st). request_ok seek ?st r"
    using assms(1) 1(2) by (auto simp: popover_ok_def intro: request_ok_later)
  with 1 assms show ?thesis by (auto simp: popover_ok_def request_ok_def)
qed

lemma popover_ok_change:
  assumes "popover_ok seek st"
  shows "popover_ok seek (change_search_draft seek nextDraft st)"
proof -
  let ?st = "change_search_draft seek nextDraft st"
  have 1: "sp_pending ?st = sp_pending st" "sp_request st < sp_request ?st" "sp_draft ?st = nextDraft"
    "sp_timer ?st = (if js_trim nextDraft = [] then None else Some nextDraft)" "sp_searching ?st \<longleftrightarrow> js_trim nextDraft \<noteq> []"
    "js_trim nextDraft = [] \<Longrightarrow> sp_results ?st = [] \<and> sp_query ?st = []"
    by (auto simp: change_search_draft_def draft_effect_def run_search_def Let_def)
  have "\<forall>r\<in>set (sp_pending st). request_ok seek ?st r"
    using assms 1(2) by (auto simp: popover_ok_def intro: request_ok_later)
  with 1 show ?thesis by (auto simp: popover_ok_def answer_of_def)
qed

lemma popover_ok_clear:
  assumes "popover_ok seek st"
  shows "popover_ok seek (clear_search st)"
proof -
  have "\<forall>r\<in>set (sp_pending st). request_ok seek (clear_search st) r"
    using assms by (auto simp: popover_ok_def clear_search_def draft_effect_def intro: request_ok_later)
  then show ?thesis by (simp add: popover_ok_def answer_of_def clear_search_def draft_effect_def)
qed

lemma popover_ok_go [simp]: "popover_ok seek (go_to_relative_result d st) = popover_ok seek st"
  by (simp add: popover_ok_def request_ok_def go_to_relative_result_def)

lemma popover_ok_settled:
  assumes "popover_ok seek st" "search_settled n st = Some st'"
  shows "popover_ok seek st'"
proof -
  obtain outcome where o: "map_of (sp_pending st) n = Some outcome"
    using assms(2) by (auto simp: search_settled_def split: option.splits)
  then have "(n, outcome) \<in> set (sp_pending st)" by (rule map_of_SomeD)
  with assms(1) have n: "request_ok seek st (n, outcome)" by (auto simp: popover_ok_def)
  have st': "st' = (let st1 = st\<lparr>sp_pending := filter (\<lambda>p. fst p \<noteq> n) (sp_pending st)\<rparr> in
      if sp_request st \<noteq> n then st1
      else st1\<lparr>sp_results := (case outcome of Inr results \<Rightarrow> results | Inl _ \<Rightarrow> []), sp_searching := False\<rparr>)"
    using assms(2) o by (simp add: search_settled_def Let_def)
  show ?thesis
  proof (cases "sp_request st = n")
    case True
    with n assms(1) show ?thesis unfolding st' popover_ok_def by (auto simp: answer_of_def request_ok_def)
  next
    case False
    then have "sp_request st \<in> fst ` set (filter (\<lambda>p. fst p \<noteq> n) (sp_pending st)) \<longleftrightarrow> sp_request st \<in> fst ` set (sp_pending st)"
      by auto
    moreover from False have "sp_pending st' = filter (\<lambda>p. fst p \<noteq> n) (sp_pending st)" "sp_timer st' = sp_timer st"
      "sp_request st' = sp_request st" "sp_searching st' = sp_searching st" "sp_draft st' = sp_draft st" "sp_query st' = sp_query st"
      "sp_results st' = sp_results st" "request_ok seek st' = request_ok seek st"
      unfolding st' by (auto simp: Let_def request_ok_def fun_eq_iff)
    ultimately show ?thesis using assms(1) unfolding popover_ok_def by auto
  qed
qed

lemma popover_ok_step:
  assumes "popover_ok seek st" "popover_step seek st a = Some st'"
  shows "popover_ok seek st'"
proof (cases a)
  case SearchTimer
  with assms(2) obtain d where d: "sp_timer st = Some d" "st' = run_search seek d (st\<lparr>sp_timer := None\<rparr>)"
    by (auto split: option.splits)
  with assms(1) have "d = sp_draft st" "js_trim (sp_draft st) \<noteq> []" by (auto simp: popover_ok_def)
  with popover_ok_draft [OF assms(1), of None] d show ?thesis by simp
next
  case (SearchEnter shift)
  with assms show ?thesis using popover_ok_draft [of seek st "sp_timer st"] by (auto split: if_splits)
qed (use assms popover_ok_change popover_ok_clear popover_ok_settled in \<open>auto split: if_splits\<close>)

definition popover_work :: "search_popover \<Rightarrow> nat" where
  "popover_work st = (if sp_timer st = None then 0 else 2) + length (sp_pending st)"

definition awaited :: "popover_action \<Rightarrow> bool" where
  "awaited a = (case a of SearchTimer \<Rightarrow> True | SearchSettled _ \<Rightarrow> True | _ \<Rightarrow> False)"

lemma awaited_step:
  assumes "awaited a" "popover_step seek st a = Some st'"
  shows "popover_work st' < popover_work st"
proof (cases a)
  case SearchTimer
  with assms(2) show ?thesis by (auto simp: popover_work_def run_search_def Let_def split: option.splits if_splits)
next
  case (SearchSettled n)
  with assms(2) obtain r where r: "map_of (sp_pending st) n = Some r"
    by (auto simp: search_settled_def split: option.splits)
  then have "length (filter (\<lambda>p. fst p \<noteq> n) (sp_pending st)) < length (sp_pending st)"
    by (intro length_filter_less [of "(n, r)"]) (auto dest: map_of_SomeD)
  with SearchSettled r assms(2) show ?thesis by (auto simp: popover_work_def search_settled_def Let_def)
qed (use assms in \<open>auto simp: awaited_def\<close>)

lemma work_awaited:
  assumes "popover_work st \<noteq> 0"
  shows "\<exists>a st'. awaited a \<and> popover_step seek st a = Some st'"
proof (cases "sp_timer st")
  case None
  with assms obtain p ps where "sp_pending st = p # ps" by (cases "sp_pending st") (auto simp: popover_work_def)
  then have "awaited (SearchSettled (fst p)) \<and> popover_step seek st (SearchSettled (fst p)) \<noteq> None"
    by (cases p) (simp add: search_settled_def awaited_def Let_def)
  then show ?thesis by blast
next
  case (Some d)
  then have "awaited SearchTimer \<and> popover_step seek st SearchTimer \<noteq> None" by (simp add: awaited_def)
  then show ?thesis by blast
qed

interpretation search_machine: resting_machine "popover_step seek" search_popover_start "popover_ok seek" awaited popover_work for seek
proof
  show "popover_ok seek search_popover_start"
    by (simp add: popover_ok_def search_popover_start_def answer_of_def)
qed (rule popover_ok_step awaited_step work_awaited; assumption)+

text \<open>
  Whatever is typed, cleared, stepped through and answered in whatever order: when the popover does not say it is
  searching, the results it shows are the ones a scan of the workbook for the present draft gives, and none when that fails.
\<close>
theorem shown_results_answer_draft:
  assumes "exec (popover_step (find_xlsx_search_results to_text controller)) search_popover_start acts = Some st"
    and "\<not> sp_searching st"
  shows "sp_results st = (case find_xlsx_search_results to_text controller (sp_draft st) of Inr results \<Rightarrow> results | Inl _ \<Rightarrow> [])"
proof -
  have "find_xlsx_search_results to_text controller (js_trim q) = find_xlsx_search_results to_text controller q" for q
    by (simp add: find_xlsx_search_results_def)
  moreover have "find_xlsx_search_results to_text controller q = Inr []" if "js_trim q = []" for q
    using that by (simp add: find_xlsx_search_results_def to_lower_def)
  ultimately show ?thesis
    using search_machine.inv_exec [OF assms(1)] assms(2) by (auto simp: popover_ok_def answer_of_def)
qed

text \<open>
  C27: The search does not spin for ever: once the user leaves the popover alone, the debounce and the answers, in whatever
  order they come, are at most as many as the timer and the requests that are out account for, and when none is left to wait
  for, the popover no longer searches and shows the answer of its draft.
\<close>
theorem search_comes_to_rest:
  assumes "exec (popover_step seek) search_popover_start acts = Some st"
    and "list_all awaited waits" "exec (popover_step seek) st waits = Some st'"
  shows "length waits + popover_work st' \<le> popover_work st \<and>
    ((\<nexists>a st''. awaited a \<and> popover_step seek st' a = Some st'') \<longrightarrow>
       \<not> sp_searching st' \<and> sp_results st' = answer_of seek (js_trim (sp_draft st')))"
proof -
  note r = search_machine.rests [OF assms]
  have "\<not> sp_searching st' \<and> sp_results st' = answer_of seek (js_trim (sp_draft st'))" if "popover_ok seek st' \<and> popover_work st' = 0"
    using that by (auto simp: popover_ok_def popover_work_def split: if_splits)
  with r show ?thesis by blast
qed

theorem search_comes_to_rest_witness:
  "\<exists>st st'. exec (popover_step (\<lambda>_. Inr [])) search_popover_start [ChangeSearch ''a''] = Some st \<and>
    exec (popover_step (\<lambda>_. Inr [])) st [SearchTimer, SearchSettled 2] = Some st' \<and>
    length [SearchTimer, SearchSettled 2] + popover_work st' \<le> popover_work st"
proof -
  let ?step = "popover_step (\<lambda>_. Inr [])"
  have run: "\<exists>st st'. exec ?step search_popover_start [ChangeSearch ''a''] = Some st \<and> exec ?step st [SearchTimer, SearchSettled 2] = Some st'"
    by (simp add: search_popover_start_def change_search_draft_def draft_effect_def run_search_def search_settled_def js_trim_def
        is_ws_def numeral_2_eq_2 Let_def)
  then obtain st st' where r: "exec ?step search_popover_start [ChangeSearch ''a''] = Some st"
      "exec ?step st [SearchTimer, SearchSettled 2] = Some st'" by blast
  from search_comes_to_rest [OF r(1) _ r(2)] r show ?thesis by (auto simp: awaited_def)
qed

theorem shown_results_answer_draft_witness:
  "sp_results search_popover_start =
    (case find_xlsx_search_results (\<lambda>_. []) \<lparr>xc_sheets = [], xc_worksheet = \<lambda>_. None, xc_rows_batch = \<lambda>_ _ _. Inr None\<rparr> [] of
       Inr results \<Rightarrow> results | Inl _ \<Rightarrow> [])"
  using shown_results_answer_draft [of "\<lambda>_. []" "\<lparr>xc_sheets = [], xc_worksheet = \<lambda>_. None, xc_rows_batch = \<lambda>_ _ _. Inr None\<rparr>" "[]"]
  by (simp add: search_popover_start_def)

text \<open>
  Enter moves through the results of the last search even while a new one is out; when the new results are fewer, the
  popover counts a result that does not exist and shows none.
\<close>

lemma enter_while_searching_loses_result:
  fixes r1 r2 :: xlsx_search_result
  defines "seek \<equiv> \<lambda>q. if q = ''a'' then Inr [r1, r2] else Inr [r1]"
  shows "\<exists>st. exec (popover_step seek) search_popover_start
      [ChangeSearch ''a'', SearchTimer, SearchSettled 2, ChangeSearch ''b'', SearchTimer, SearchEnter False, SearchSettled 4] = Some st \<and>
    sp_results st = [r1] \<and> sp_active st = 1 \<and> active_result st = None \<and> \<not> sp_searching st"
  by (simp add: seek_def search_popover_start_def change_search_draft_def draft_effect_def run_search_def search_settled_def
      js_trim_def is_ws_def go_to_relative_result_def active_result_def eval_nat_numeral Let_def)

text \<open>
  What the popover promises, without requests, timers and their order: the draft with the results shown for it, or no
  results while they are looked for.
\<close>

inductive search_spec ::
  "(string \<Rightarrow> search_outcome) \<Rightarrow> string \<times> xlsx_search_result list option \<Rightarrow> string \<times> xlsx_search_result list option \<Rightarrow> bool"
  for seek where
  typed: "js_trim d' \<noteq> [] \<Longrightarrow> search_spec seek (d, v) (d', None)"
| emptied: "js_trim d' = [] \<Longrightarrow> search_spec seek (d, v) (d', Some [])"
| looked_again: "js_trim d \<noteq> [] \<Longrightarrow> search_spec seek (d, Some rs) (d, None)"
| answered: "search_spec seek (d, None) (d, Some (answer_of seek (js_trim d)))"

definition search_view :: "search_popover \<Rightarrow> string \<times> xlsx_search_result list option" where
  "search_view st = (sp_draft st, if sp_searching st then None else Some (sp_results st))"

lemma popover_simulates:
  assumes "popover_ok seek st" "popover_step seek st a = Some st'"
  shows "search_view st' = search_view st \<or> search_spec seek (search_view st) (search_view st')"
proof (cases a)
  case (ChangeSearch d)
  with assms(2) have st': "st' = change_search_draft seek d st" by (auto split: if_splits)
  have "search_view st' = (if js_trim d = [] then (d, Some []) else (d, None))"
    by (auto simp: st' search_view_def change_search_draft_def draft_effect_def run_search_def Let_def)
  then show ?thesis by (auto simp: search_view_def intro: search_spec.intros)
next
  case ClearSearch
  with assms(2) have "search_view st' = ([], Some [])" by (auto simp: search_view_def clear_search_def draft_effect_def)
  then show ?thesis by (auto simp: search_view_def intro: search_spec.intros)
next
  case (SearchSettled n)
  with assms(2) have settled: "search_settled n st = Some st'" by simp
  then have kept: "sp_draft st' = sp_draft st"
    "sp_searching st' = sp_searching st \<and> sp_results st' = sp_results st \<or> \<not> sp_searching st'"
    by (auto simp: search_settled_def Let_def split: option.splits if_splits)
  have shown: "sp_results t = answer_of seek (js_trim (sp_draft t))" if "popover_ok seek t" "\<not> sp_searching t" for t
    using that by (simp add: popover_ok_def)
  have ok: "popover_ok seek st'" using popover_ok_settled [OF assms(1) settled] .
  show ?thesis
  proof (cases "sp_searching st")
    case True
    show ?thesis
    proof (cases "sp_searching st'")
      case False
      with True kept(1) shown [OF ok] show ?thesis by (simp add: search_view_def search_spec.answered)
    qed (use True kept in \<open>simp add: search_view_def\<close>)
  next
    case False
    then have "\<not> sp_searching st'" using kept(2) by auto
    with False kept(1) shown [OF ok] shown [OF assms(1)] show ?thesis by (simp add: search_view_def)
  qed
next
  case SearchTimer
  with assms(2) obtain d where d: "sp_timer st = Some d" "st' = run_search seek d (st\<lparr>sp_timer := None\<rparr>)"
    by (auto split: option.splits)
  moreover from d(1) assms(1) have trimmed: "js_trim d \<noteq> []" "d = sp_draft st" by (auto simp: popover_ok_def)
  ultimately have "search_view st' = (sp_draft st, None)" by (simp add: search_view_def run_search_def Let_def)
  then show ?thesis using trimmed by (auto simp: search_view_def intro: search_spec.intros)
next
  case (SearchEnter shift)
  with assms(2) have "search_view st' = search_view st \<or> js_trim (sp_draft st) \<noteq> [] \<and> search_view st' = (sp_draft st, None)"
    by (auto simp: search_view_def run_search_def go_to_relative_result_def Let_def split: if_splits)
  then show ?thesis by (auto simp: search_view_def intro: search_spec.intros)
qed (use assms(2) in \<open>auto simp: search_view_def go_to_relative_result_def split: if_splits\<close>)

interpretation search_refinement: refinement "popover_step seek" search_popover_start "popover_ok seek" search_view "search_spec seek" for seek
  by unfold_locales (rule popover_simulates; assumption)

text \<open>
  C26: The popover with its debounce, its request numbers and its overlapping answers refines a search without any of them:
  every step of a run leaves what is shown as it is, follows the draft, or shows the one answer of the present draft.
\<close>
theorem popover_refines_search:
  assumes "exec (popover_step seek) search_popover_start acts = Some st" "popover_step seek st a = Some st'"
  shows "search_view st' = search_view st \<or> search_spec seek (search_view st) (search_view st')"
  using search_refinement.refines [OF assms] .

theorem popover_refines_search_witness:
  "\<exists>st st'. exec (popover_step (\<lambda>_. Inr [])) search_popover_start [ChangeSearch ''a''] = Some st \<and>
    popover_step (\<lambda>_. Inr []) st SearchTimer = Some st' \<and>
    (search_view st' = search_view st \<or> search_spec (\<lambda>_. Inr []) (search_view st) (search_view st'))"
proof -
  have "\<exists>st st'. exec (popover_step (\<lambda>_. Inr [])) search_popover_start [ChangeSearch ''a''] = Some st \<and>
      popover_step (\<lambda>_. Inr []) st SearchTimer = Some st'"
    by (simp add: search_popover_start_def change_search_draft_def draft_effect_def js_trim_def is_ws_def Let_def)
  with popover_refines_search show ?thesis by blast
qed

section \<open>What a scan finds\<close>

text \<open>The cells of a sheet that a search looks at, in its order, and the search that visits them one by one.\<close>

definition plain_search_sheet ::
  "(js_value \<Rightarrow> string) \<Rightarrow> xlsx_controller \<Rightarrow> string \<Rightarrow> nat \<Rightarrow> sheet_data \<Rightarrow> xlsx_search_result list" where
  "plain_search_sheet to_text controller query i sheet =
     (case xc_worksheet controller (sd_index sheet) of
        None \<Rightarrow> []
      | w \<Rightarrow> concat (map (scan_row to_text query i sheet w)
               (filter (\<lambda>row. sd_min_row sheet \<le> sd_max_row sheet \<and> sheet_start_row sheet \<le> row \<and> row \<le> sheet_end_row sheet)
                 (sd_visible_rows sheet))))"

lemma filter_split_sorted:
  fixes xs :: "nat list"
  assumes "sorted xs" "a \<le> b" "b \<le> c"
  shows "filter (\<lambda>x. a \<le> x \<and> x < b) xs @ filter (\<lambda>x. b \<le> x \<and> x \<le> c) xs = filter (\<lambda>x. a \<le> x \<and> x \<le> c) xs"
  using assms
proof (induction xs)
  case (Cons x xs)
  show ?case
  proof (cases "x < b")
    case False
    with Cons.prems have "filter (\<lambda>x. a \<le> x \<and> x < b) xs = []" by (auto simp: filter_empty_conv)
    with False Cons show ?thesis by auto
  qed (use Cons in auto)
qed simp

lemma batches_cover_rows:
  assumes "xc_rows_batch controller (sd_index sheet) = (\<lambda>_ _. Inr None)" "sorted (sd_visible_rows sheet)"
  shows "search_rows to_text controller query i sheet first last_row =
    Inr (case xc_worksheet controller (sd_index sheet) of
           None \<Rightarrow> []
         | w \<Rightarrow> concat (map (scan_row to_text query i sheet w) (filter (\<lambda>row. first \<le> row \<and> row \<le> last_row) (sd_visible_rows sheet))))"
  using assms
proof (induction to_text controller query i sheet first last_row rule: search_rows.induct)
  case (1 to_text controller query i sheet first last_row)
  show ?case
  proof (cases "last_row < first")
    case True
    then have none: "filter (\<lambda>row. first \<le> row \<and> row \<le> last_row) xs = []" for xs by (auto simp: filter_empty_conv)
    from True show ?thesis unfolding none by (simp add: search_rows.simps [of _ _ _ _ _ first] split: option.splits)
  next
    case False
    let ?n = "min search_batch_row_count (last_row - first + 1)" and ?next = "first + search_batch_row_count"
    let ?rows = "\<lambda>a b. filter (\<lambda>row. a \<le> row \<and> row \<le> b) (sd_visible_rows sheet)"
    have "?rows first (first + ?n - 1) @ ?rows ?next last_row = ?rows first last_row"
    proof (cases "?next \<le> last_row")
      case True
      then have "first + ?n - 1 = ?next - 1" by (simp add: search_batch_row_count_def)
      moreover have "row \<le> ?next - 1 \<longleftrightarrow> row < ?next" for row by (auto simp: search_batch_row_count_def)
      ultimately show ?thesis using filter_split_sorted [OF 1(3), of first ?next last_row] True by simp
    next
      case after: False
      then have "first + ?n - 1 = last_row" using False by (simp add: search_batch_row_count_def)
      moreover from after have "?rows ?next last_row = []" by (auto simp: filter_empty_conv)
      ultimately show ?thesis by simp
    qed
    note split = this
    have batch: "search_batch to_text controller query i sheet first ?n =
        Inr (case xc_worksheet controller (sd_index sheet) of None \<Rightarrow> []
             | w \<Rightarrow> concat (map (scan_row to_text query i sheet w) (?rows first (first + ?n - 1))))"
      using 1(2) by (simp add: search_batch_def split: option.splits)
    from 1(1) [OF False batch 1(2,3)] False batch show ?thesis
      unfolding split [symmetric] by (simp add: search_rows.simps [of _ _ _ _ _ first] split: option.splits)
  qed
qed

text \<open>
  What the library is asked for: without batches for a sheet it answers with nothing; with them, it answers with the rows of that
  sheet that lie among the rows asked for, in their order. \<open>table\<close> gives a sheet's rows, or nothing.
\<close>

definition row_number :: "batch_row \<Rightarrow> nat" where
  "row_number r = (case xb_row r of Some row \<Rightarrow> row | None \<Rightarrow> 0)"

definition rows_between :: "batch_row list \<Rightarrow> nat \<Rightarrow> nat \<Rightarrow> batch_row list" where
  "rows_between rows first n = filter (\<lambda>r. first \<le> row_number r \<and> row_number r < first + n) rows"

definition answers_from :: "(nat \<Rightarrow> batch_row list option) \<Rightarrow> xlsx_controller \<Rightarrow> sheet_data \<Rightarrow> bool" where
  "answers_from table controller sheet \<longleftrightarrow>
     (case table (sd_index sheet) of
        None \<Rightarrow> xc_rows_batch controller (sd_index sheet) = (\<lambda>_ _. Inr None) \<and> sorted (sd_visible_rows sheet)
      | Some rows \<Rightarrow> xc_rows_batch controller (sd_index sheet) = (\<lambda>first n. Inr (Some (rows_between rows first n))) \<and>
                      sorted (map row_number rows))"

text \<open>One walk over a whole sheet: over its rows when the library gives them, else over its cells.\<close>

definition whole_sheet ::
  "(js_value \<Rightarrow> string) \<Rightarrow> (nat \<Rightarrow> batch_row list option) \<Rightarrow> xlsx_controller \<Rightarrow> string \<Rightarrow> nat \<Rightarrow> sheet_data \<Rightarrow> xlsx_search_result list" where
  "whole_sheet to_text table controller query i sheet =
     (case table (sd_index sheet) of
        None \<Rightarrow> plain_search_sheet to_text controller query i sheet
      | Some rows \<Rightarrow>
          if used_cols sheet = [] \<or> sd_max_row sheet < sd_min_row sheet then []
          else concat (map (batch_row_results to_text query i sheet)
                 (filter (\<lambda>r. sheet_start_row sheet \<le> row_number r \<and> row_number r \<le> sheet_end_row sheet) rows)))"

lemma rows_split:
  assumes "sorted (map row_number rows)" "a \<le> b" "b \<le> c"
  shows "filter (\<lambda>r. a \<le> row_number r \<and> row_number r < b) rows @ filter (\<lambda>r. b \<le> row_number r \<and> row_number r \<le> c) rows =
    filter (\<lambda>r. a \<le> row_number r \<and> row_number r \<le> c) rows"
  using assms
proof (induction rows)
  case (Cons x xs)
  show ?case
  proof (cases "row_number x < b")
    case False
    with Cons.prems have "filter (\<lambda>r. a \<le> row_number r \<and> row_number r < b) xs = []" by (auto simp: filter_empty_conv)
    with False Cons show ?thesis by auto
  qed (use Cons in auto)
qed simp

lemma batches_join:
  assumes "xc_rows_batch controller (sd_index sheet) = (\<lambda>first n. Inr (Some (rows_between rows first n)))" "sorted (map row_number rows)"
  shows "search_rows to_text controller query i sheet first last_row =
    Inr (concat (map (batch_row_results to_text query i sheet)
      (filter (\<lambda>r. first \<le> row_number r \<and> row_number r \<le> last_row) rows)))"
  using assms
proof (induction to_text controller query i sheet first last_row rule: search_rows.induct)
  case (1 to_text controller query i sheet first last_row)
  show ?case
  proof (cases "last_row < first")
    case True
    then have "filter (\<lambda>r. first \<le> row_number r \<and> row_number r \<le> last_row) rows = []" by (auto simp: filter_empty_conv)
    with True show ?thesis by (simp add: search_rows.simps [of _ _ _ _ _ first])
  next
    case False
    let ?n = "min search_batch_row_count (last_row - first + 1)" and ?next = "first + search_batch_row_count"
    let ?rows = "\<lambda>a b. filter (\<lambda>r. a \<le> row_number r \<and> row_number r \<le> b) rows"
    have "rows_between rows first ?n @ ?rows ?next last_row = ?rows first last_row"
    proof (cases "?next \<le> last_row")
      case True
      then have "first + ?n = ?next" by (simp add: search_batch_row_count_def)
      with rows_split [OF 1(3), of first ?next last_row] True show ?thesis by (simp add: rows_between_def)
    next
      case after: False
      then have "first + ?n = Suc last_row" using False by (simp add: search_batch_row_count_def)
      moreover from after have "?rows ?next last_row = []" by (auto simp: filter_empty_conv)
      ultimately show ?thesis by (simp add: rows_between_def less_Suc_eq_le)
    qed
    note split = this
    have batch: "search_batch to_text controller query i sheet first ?n =
        Inr (concat (map (batch_row_results to_text query i sheet) (rows_between rows first ?n)))"
      using 1(2) by (simp add: search_batch_def)
    from 1(1) [OF False batch 1(2,3)] False batch show ?thesis
      unfolding split [symmetric] by (simp add: search_rows.simps [of _ _ _ _ _ first])
  qed
qed

text \<open>
  C28: The search in batches of 500 rows finds what one walk over every sheet finds, in the same order, whether the library gives
  the rows of a sheet in batches or its cells have to be read one by one: every row the library has in the used range, and every
  visible cell of it, is looked at exactly once, no matter where a batch ends.
\<close>
theorem search_scans_every_cell:
  assumes "\<And>sheet. sheet \<in> set (xc_sheets controller) \<Longrightarrow> answers_from table controller sheet" and "js_trim q \<noteq> []"
  shows "find_xlsx_search_results to_text controller q =
    Inr (concat (map (\<lambda>(i, sheet). whole_sheet to_text table controller (to_lower (js_trim q)) i sheet)
      (enumerate 0 (xc_sheets controller))))"
proof -
  let ?q = "to_lower (js_trim q)"
  have sheet: "search_sheet to_text controller ?q i sheet = Inr (whole_sheet to_text table controller ?q i sheet)"
    if "sheet \<in> set (xc_sheets controller)" for i sheet
  proof (cases "table (sd_index sheet)")
    case None
    have "scan_row to_text ?q i sheet w row = []" if "used_cols sheet = []" for w row
      using that by (simp add: scan_row_def)
    then show ?thesis
      using batches_cover_rows [of controller sheet to_text ?q i] assms(1) [OF that] None
      by (auto simp: answers_from_def search_sheet_def whole_sheet_def plain_search_sheet_def not_less split: option.splits)
  next
    case (Some rows)
    then show ?thesis
      using batches_join [of controller sheet rows to_text ?q i] assms(1) [OF that]
      by (simp add: answers_from_def search_sheet_def whole_sheet_def)
  qed
  have "search_sheets to_text controller ?q i sheets =
      Inr (concat (map (\<lambda>(i, sheet). whole_sheet to_text table controller ?q i sheet) (enumerate i sheets)))"
    if "set sheets \<subseteq> set (xc_sheets controller)" for i sheets
    using that by (induction sheets arbitrary: i) (auto simp: sheet)
  moreover have "?q \<noteq> []" using assms(2) by (simp add: to_lower_def)
  ultimately show ?thesis by (simp add: find_xlsx_search_results_def Let_def)
qed

text \<open>A workbook with a sheet that the library gives in batches, matching beyond the first batch, and one whose cells are read.\<close>

definition example_sheet :: "nat \<Rightarrow> int \<Rightarrow> nat list \<Rightarrow> sheet_data" where
  "example_sheet i lastRow rows =
     \<lparr>sd_index = i, sd_name = ''Sheet'', sd_min_row = 0, sd_max_row = lastRow, sd_min_col = 0, sd_max_col = 0,
      sd_visible_rows = rows, sd_visible_cols = [0], sd_cached = Map.empty, sd_row_heights = [], sd_col_widths = [],
      sd_row_height = 20, sd_col_width = 64\<rparr>"

definition example_rows :: "batch_row list" where
  "example_rows = map (\<lambda>(row, value). \<lparr>xb_row = Some row, xb_cells = [\<lparr>xb_col = Some 0, xb_value = JsStr value, xb_formula = JsStr []\<rparr>]\<rparr>)
     [(0, ''a''), (600, ''AB''), (601, ''ab'')]"

definition example_table :: "nat \<Rightarrow> batch_row list option" where
  "example_table i = (if i = 0 then Some example_rows else None)"

definition example_workbook :: xlsx_controller where
  "example_workbook =
     \<lparr>xc_sheets = [example_sheet 0 700 [0, 600], example_sheet 1 1 [0, 1]],
      xc_worksheet = (\<lambda>i. if i = 1 then Some \<lparr>ws_formula_at = \<lambda>_ _. None, ws_formatted_at = \<lambda>row _. if row = 1 then Some ''cab'' else None,
                                               ws_calculated_at = \<lambda>_ _. PlainValue (JsStr [])\<rparr> else None),
      xc_rows_batch = (\<lambda>i first n. Inr (map_option (\<lambda>rows. rows_between rows first n) (example_table i)))\<rparr>"

theorem search_scans_every_cell_witness:
  "find_xlsx_search_results (\<lambda>_. []) example_workbook ''Ab'' =
    Inr [search_result 0 (example_sheet 0 700 [0, 600]) 600 0 (''AB'', []), search_result 1 (example_sheet 1 1 [0, 1]) 1 0 (''cab'', [])]"
proof -
  have answers: "answers_from example_table example_workbook sheet" if "sheet \<in> set (xc_sheets example_workbook)" for sheet
    using that by (auto simp: answers_from_def example_workbook_def example_sheet_def example_table_def example_rows_def row_number_def fun_eq_iff)
  have q: "js_trim ''Ab'' = ''Ab''" by (simp add: js_trim_def is_ws_def)
  have chars: "char_of (97 :: nat) = CHR ''a''" "char_of (98 :: nat) = CHR ''b''" by code_simp+
  show ?thesis
    unfolding search_scans_every_cell [OF answers, of "''Ab''", unfolded q, simplified]
    by (simp add: chars example_workbook_def whole_sheet_def example_table_def example_rows_def example_sheet_def plain_search_sheet_def scan_row_def
        used_cols_def sheet_start_row_def sheet_end_row_def row_number_def batch_row_results_def batch_cell_results_def
        normalize_search_text_def cell_matches_query_def get_cell_search_text_def falsy_def starts_with_def to_lower_def lower_char_def
        cell_value_to_search_text_def js_nullish_def)
qed

text \<open>The batches of the library are not trusted: a result lies in a visible row and column of the used range and matches.\<close>

definition result_ok :: "xlsx_controller \<Rightarrow> string \<Rightarrow> xlsx_search_result \<Rightarrow> bool" where
  "result_ok controller query r \<longleftrightarrow>
     xr_sheet r < length (xc_sheets controller) \<and>
     (let sheet = xc_sheets controller ! xr_sheet r
      in ca_row (xr_cell r) \<in> set (sd_visible_rows sheet) \<and> ca_col (xr_cell r) \<in> set (sd_visible_cols sheet) \<and>
         xr_workbook_sheet r = sd_index sheet \<and> xr_name r = sd_name sheet) \<and>
     cell_matches_query (xr_value r, xr_formula r) query"

lemma search_result_ok:
  assumes "i < length (xc_sheets controller)" "row \<in> set (sd_visible_rows (xc_sheets controller ! i))"
    and "col \<in> set (used_cols (xc_sheets controller ! i))" "cell_matches_query texts query"
  shows "result_ok controller query (search_result i (xc_sheets controller ! i) row col texts)"
  using assms by (simp add: result_ok_def search_result_def used_cols_def Let_def)

lemma search_batch_ok:
  assumes "i < length (xc_sheets controller)" "search_batch to_text controller query i (xc_sheets controller ! i) first n = Inr found"
    and "r \<in> set found"
  shows "result_ok controller query r"
  using assms
  by (auto simp: search_batch_def scan_row_def batch_row_results_def batch_cell_results_def Let_def intro!: search_result_ok
      split: sum.splits option.splits if_splits)

lemma search_rows_ok:
  assumes "i < length (xc_sheets controller)" "search_rows to_text controller query i (xc_sheets controller ! i) first last_row = Inr found"
    and "r \<in> set found"
  shows "result_ok controller query r"
  using assms(2,3)
proof (induction "Suc last_row - first" arbitrary: first found rule: less_induct)
  case less
  show ?case
  proof (cases "last_row < first")
    case True
    with less.prems show ?thesis by (simp add: search_rows.simps [of _ _ _ _ _ first])
  next
    case False
    with less.prems(1) obtain now rest where parts:
      "search_batch to_text controller query i (xc_sheets controller ! i) first (min search_batch_row_count (last_row - first + 1)) = Inr now"
      "search_rows to_text controller query i (xc_sheets controller ! i) (first + search_batch_row_count) last_row = Inr rest"
      "found = now @ rest"
      by (auto simp: search_rows.simps [of _ _ _ _ _ first] map_sum_def split: sum.splits)
    with less.prems(2) search_batch_ok [OF assms(1) parts(1)] show ?thesis
      using less.hyps [OF _ parts(2)] False by (auto simp: search_batch_row_count_def)
  qed
qed

lemma search_sheets_ok:
  assumes "search_sheets to_text controller query i (drop i (xc_sheets controller)) = Inr found" "r \<in> set found"
  shows "result_ok controller query r"
  using assms
proof (induction "length (xc_sheets controller) - i" arbitrary: i found rule: less_induct)
  case less
  show ?case
  proof (cases "i < length (xc_sheets controller)")
    case True
    with less.prems(1) obtain now rest where parts:
      "search_sheet to_text controller query i (xc_sheets controller ! i) = Inr now"
      "search_sheets to_text controller query (Suc i) (drop (Suc i) (xc_sheets controller)) = Inr rest" "found = now @ rest"
      by (auto simp: Cons_nth_drop_Suc [symmetric] map_sum_def split: sum.splits)
    have "result_ok controller query r" if "r \<in> set now"
      using parts(1) that search_rows_ok [OF True] by (auto simp: search_sheet_def split: if_splits)
    with less.prems(2) parts(3) show ?thesis using less.hyps [OF _ parts(2)] True by auto
  qed (use less.prems in auto)
qed

text \<open>
  A result of the search always lies in a visible cell of the sheet it names and holds the query in its text or its
  formula, without regard to case, whatever rows and columns the library's batches report.
\<close>
theorem results_are_visible_matches:
  assumes "find_xlsx_search_results to_text controller q = Inr found" "r \<in> set found"
  shows "result_ok controller (to_lower (js_trim q)) r"
  using assms search_sheets_ok [of to_text controller _ 0]
  by (auto simp: find_xlsx_search_results_def Let_def split: if_splits)

theorem results_are_visible_matches_witness:
  "\<exists>controller r. find_xlsx_search_results (\<lambda>_. []) controller ''ab'' = Inr [r] \<and> result_ok controller (to_lower (js_trim ''ab'')) r"
proof -
  let ?sheet = "\<lparr>sd_index = 0, sd_name = ''Sheet'', sd_min_row = 0, sd_max_row = 0, sd_min_col = 0, sd_max_col = 0,
    sd_visible_rows = [0], sd_visible_cols = [0], sd_cached = Map.empty, sd_row_heights = [], sd_col_widths = [],
    sd_row_height = 20, sd_col_width = 64\<rparr>"
  let ?batch = "[\<lparr>xb_row = Some 0, xb_cells = [\<lparr>xb_col = Some 0, xb_value = JsStr ''ab'', xb_formula = JsStr []\<rparr>]\<rparr>]"
  let ?controller = "\<lparr>xc_sheets = [?sheet], xc_worksheet = \<lambda>_. None, xc_rows_batch = \<lambda>_ _ _. Inr (Some ?batch)\<rparr>"
  let ?r = "search_result 0 ?sheet 0 0 (''ab'', [])"
  have "find_xlsx_search_results (\<lambda>_. []) ?controller ''ab'' = Inr [?r]"
    by (simp add: find_xlsx_search_results_def js_trim_def is_ws_def to_lower_def lower_char_def search_sheet_def used_cols_def
        sheet_start_row_def sheet_end_row_def search_rows.simps search_batch_row_count_def search_batch_def batch_row_results_def
        batch_cell_results_def normalize_search_text_def cell_matches_query_def starts_with_def)
  with results_are_visible_matches [OF this] show ?thesis by (intro exI [of _ ?controller] exI [of _ ?r]) simp
qed

section \<open>Where a result is scrolled to\<close>

text \<open>
  An axis is scrolled only when the cell is not in view; then the cell is in view, below the header, when it fits.
\<close>

lemma scroll_axis_shows:
  assumes "0 \<le> header" "header \<le> from" "from \<le> to" "0 \<le> pos" "to - from \<le> shown - header"
  shows "scroll_axis header from to pos shown + header \<le> from \<and> to \<le> scroll_axis header from to pos shown + shown"
  using assms by (auto simp: scroll_axis_def max_def)

lemma scroll_axis_in_view:
  "0 \<le> pos \<Longrightarrow> pos + header \<le> from \<Longrightarrow> to \<le> pos + shown \<Longrightarrow> scroll_axis header from to pos shown = pos"
  by (simp add: scroll_axis_def)

end
