(* ===== verification/DocumentNames.thy ===== *)
theory DocumentNames
  imports ColorText
begin

text \<open>
  Names, sizes, ages and zoom steps shared by the document viewers and editors of web/src/components/extend: xlsx-viewer.tsx,
  xlsx-editor.tsx, docx-viewer.tsx, docx-editor.tsx, pdf-viewer.tsx and pdf-editor-shared.tsx.

  Text is a list of UTF-8 bytes, so a decoded escape sequence is kept as its bytes. The short date of a locale is an argument.
\<close>

section \<open>Decoding a URL component\<close>

definition escape_byte :: "string \<Rightarrow> (nat \<times> string) option" where
  "escape_byte s =
     (case s of
        p # a # b # rest \<Rightarrow>
          if p = CHR ''%'' \<and> is_hex a \<and> is_hex b then Some (digits_value 16 [a, b], rest) else None
      | _ \<Rightarrow> None)"

fun continuation_bytes :: "nat \<Rightarrow> string \<Rightarrow> (nat list \<times> string) option" where
  "continuation_bytes 0 s = Some ([], s)"
| "continuation_bytes (Suc n) s =
     (case escape_byte s of
        Some (b, rest) \<Rightarrow>
          if 128 \<le> b \<and> b < 192 then map_option (\<lambda>(bs, rest'). (b # bs, rest')) (continuation_bytes n rest) else None
      | None \<Rightarrow> None)"

definition sequence_length :: "nat \<Rightarrow> nat option" where
  "sequence_length b =
     (if 194 \<le> b \<and> b < 224 then Some 1 else if 224 \<le> b \<and> b < 240 then Some 2 else if 240 \<le> b \<and> b < 245 then Some 3 else None)"

text \<open>Neither overlong, nor a surrogate, nor beyond the last code point.\<close>

definition sequence_start_ok :: "nat \<Rightarrow> nat \<Rightarrow> bool" where
  "sequence_start_ok b c \<longleftrightarrow>
     (b = 224 \<longrightarrow> 160 \<le> c) \<and> (b = 237 \<longrightarrow> c < 160) \<and> (b = 240 \<longrightarrow> 144 \<le> c) \<and> (b = 244 \<longrightarrow> c < 144)"

definition decoded_char :: "string \<Rightarrow> (string \<times> string) option" where
  "decoded_char s =
     (case s of
        [] \<Rightarrow> None
      | c # others \<Rightarrow>
          if c \<noteq> CHR ''%'' then Some ([c], others)
          else
            (case escape_byte s of
               None \<Rightarrow> None
             | Some (b, rest) \<Rightarrow>
                 if b < 128 then Some ([char_of b], rest)
                 else
                   (case sequence_length b of
                      None \<Rightarrow> None
                    | Some n \<Rightarrow>
                        (case continuation_bytes n rest of
                           Some (bs, rest') \<Rightarrow>
                             if sequence_start_ok b (hd bs) then Some (map char_of (b # bs), rest') else None
                         | None \<Rightarrow> None))))"

lemma escape_byte_shorter: "escape_byte s = Some (b, rest) \<Longrightarrow> length rest < length s"
  by (auto simp: escape_byte_def split: list.splits if_splits)

lemma continuation_bytes_shorter: "continuation_bytes n s = Some (bs, rest) \<Longrightarrow> length rest \<le> length s"
proof (induction n arbitrary: s bs)
  case (Suc n)
  then show ?case by (force split: option.splits if_splits dest!: escape_byte_shorter)
qed simp

lemma decoded_char_shorter: "decoded_char s = Some (cs, rest) \<Longrightarrow> length rest < length s"
  by (force simp: decoded_char_def split: list.splits if_splits option.splits
      dest!: escape_byte_shorter continuation_bytes_shorter)

function decode_uri_component :: "string \<Rightarrow> string option" where
  "decode_uri_component s =
     (if s = [] then Some []
      else (case decoded_char s of
              None \<Rightarrow> None
            | Some (cs, rest) \<Rightarrow> map_option (\<lambda>t. cs @ t) (decode_uri_component rest)))"
  by pat_completeness auto
termination
  by (relation "measure length") (auto dest: decoded_char_shorter)

declare decode_uri_component.simps [simp del]

section \<open>File names\<close>

definition decoded_or_raw :: "string \<Rightarrow> string" where
  "decoded_or_raw s = (case decode_uri_component s of None \<Rightarrow> s | Some t \<Rightarrow> t)"

definition url_path :: "char set \<Rightarrow> string \<Rightarrow> string" where
  "url_path ends url = takeWhile (\<lambda>c. c \<notin> ends) url"

definition last_segment :: "string \<Rightarrow> string" where
  "last_segment path = last (split_char (CHR ''/'') path)"

definition blank_name :: "string option \<Rightarrow> bool" where
  "blank_name s = (case s of None \<Rightarrow> True | Some t \<Rightarrow> js_trim t = [])"

text \<open>\<open>split("/").pop()\<close> of any text is a text, so \<open>??\<close> never reaches the name behind it.\<close>

definition format_workbook_name :: "string option \<Rightarrow> string \<Rightarrow> string" where
  "format_workbook_name fileName url =
     (if \<not> blank_name fileName then the fileName
      else let rawName = (case Some (last_segment (url_path {CHR ''?''} url)) of None \<Rightarrow> ''workbook.xlsx'' | Some s \<Rightarrow> s)
           in decoded_or_raw rawName)"

definition format_document_name :: "string option \<Rightarrow> string \<Rightarrow> string" where
  "format_document_name fileName url =
     (if \<not> blank_name fileName then the fileName
      else let rawName = (case Some (last_segment (url_path {CHR ''?''} url)) of None \<Rightarrow> ''document.docx'' | Some s \<Rightarrow> s)
           in decoded_or_raw rawName)"

definition with_extension :: "string \<Rightarrow> string \<Rightarrow> string" where
  "with_extension ext fileName = (if ends_with (to_lower fileName) ext then fileName else fileName @ ext)"

definition ensure_workbook_extension :: "string \<Rightarrow> string" where
  "ensure_workbook_extension fileName =
     (let lower = to_lower fileName
      in if ends_with lower ''.xlsx'' \<or> ends_with lower ''.xls'' then fileName else fileName @ ''.xlsx'')"

definition workbook_mime :: "string \<Rightarrow> string" where
  "workbook_mime resolved =
     (if ends_with (to_lower resolved) ''.xls'' then ''application/vnd.ms-excel''
      else ''application/vnd.openxmlformats-officedocument.spreadsheetml.sheet'')"

definition ensure_docx_extension :: "string \<Rightarrow> string" where
  "ensure_docx_extension = with_extension ''.docx''"

definition ensure_pdf_extension :: "string \<Rightarrow> string" where
  "ensure_pdf_extension = with_extension ''.pdf''"

definition get_pdf_download_file_name :: "string option \<Rightarrow> string \<Rightarrow> string" where
  "get_pdf_download_file_name fileName src =
     (if \<not> blank_name fileName then ensure_pdf_extension (js_trim (the fileName))
      else let segment = last_segment (url_path {CHR ''?'', CHR ''#''} src);
               rawName = (if segment = [] then ''document.pdf'' else segment)
           in ensure_pdf_extension (decoded_or_raw rawName))"

definition get_pdf_file_name :: "string option \<Rightarrow> string option \<Rightarrow> string" where
  "get_pdf_file_name fileName src =
     (if \<not> blank_name fileName then ensure_pdf_extension (js_trim (the fileName))
      else if falsy src \<or> starts_with (the src) ''blob:'' \<or> starts_with (the src) ''data:'' then ''document.pdf''
      else let rawName = last_segment (url_path {CHR ''?'', CHR ''#''} (the src))
           in if rawName = [] then ''document.pdf'' else ensure_pdf_extension (decoded_or_raw rawName))"

text \<open>\<open>replace(/\.pdf$/i, ...)\<close>.\<close>

definition replace_pdf_end :: "string \<Rightarrow> string \<Rightarrow> string" where
  "replace_pdf_end ending fileName =
     (if ends_with (to_lower fileName) ''.pdf'' then take (length fileName - 4) fileName @ ending else fileName)"

definition get_rotated_pdf_download_file_name :: "string \<Rightarrow> string" where
  "get_rotated_pdf_download_file_name fileName = replace_pdf_end ''-rotated.pdf'' fileName"

definition with_file_name_suffix :: "string \<Rightarrow> string \<Rightarrow> string" where
  "with_file_name_suffix fileName suffix = ensure_pdf_extension (replace_pdf_end [] fileName @ suffix)"

text \<open>A free name: the base itself or the base with the first number from two that is not taken.\<close>

definition numbered :: "string \<Rightarrow> nat \<Rightarrow> string" where
  "numbered base i = base @ '' '' @ show_nat i"

lemma numbered_inj: "numbered base i = numbered base j \<longleftrightarrow> i = j"
  by (auto simp: numbered_def dest: show_nat_inj)

lemma taken_numbers_finite: "finite {i. numbered base i \<in> set taken}"
proof -
  have "{i. numbered base i \<in> set taken} = numbered base -` set taken" by auto
  moreover have "inj (numbered base)" by (rule injI) (simp add: numbered_inj)
  ultimately show ?thesis by (simp add: finite_vimageI)
qed

function free_index :: "string list \<Rightarrow> string \<Rightarrow> nat \<Rightarrow> nat" where
  "free_index taken base i = (if numbered base i \<in> set taken then free_index taken base (i + 1) else i)"
  by pat_completeness auto
termination
proof (relation "measure (\<lambda>(taken, base, i). card {j. i \<le> j \<and> numbered base j \<in> set taken})")
  fix taken base i assume "numbered base i \<in> set taken"
  then have "i \<in> {j. i \<le> j \<and> numbered base j \<in> set taken}" "i \<notin> {j. i + 1 \<le> j \<and> numbered base j \<in> set taken}"
    and "{j. i + 1 \<le> j \<and> numbered base j \<in> set taken} \<subseteq> {j. i \<le> j \<and> numbered base j \<in> set taken}" by auto
  then have "{j. i + 1 \<le> j \<and> numbered base j \<in> set taken} \<subset> {j. i \<le> j \<and> numbered base j \<in> set taken}" by blast
  moreover have "finite {j. i \<le> j \<and> numbered base j \<in> set taken}"
    by (rule finite_subset [OF _ taken_numbers_finite [of base taken]]) auto
  ultimately show "((taken, base, i + 1), taken, base, i) \<in> measure (\<lambda>(taken, base, i). card {j. i \<le> j \<and> numbered base j \<in> set taken})"
    by (simp add: psubset_card_mono)
qed simp

declare free_index.simps [simp del]

definition unique_name :: "string \<Rightarrow> string list \<Rightarrow> string" where
  "unique_name base taken = (if base \<notin> set taken then base else numbered base (free_index taken base 2))"

section \<open>Sizes and ages\<close>

definition editor_format_bytes :: "nat option \<Rightarrow> string" where
  "editor_format_bytes bytes =
     (case bytes of
        None \<Rightarrow> [CHR 0xE2, CHR 0x80, CHR 0x94]
      | Some n \<Rightarrow>
          if n < 1024 then show_nat n @ '' B''
          else if n < 1024 * 1024 then num_to_fixed (of_nat n / 1024) 1 @ '' KB''
          else num_to_fixed (of_nat n / (1024 * 1024)) 1 @ '' MB'')"

definition format_relative_date :: "(int \<Rightarrow> string) \<Rightarrow> int \<Rightarrow> int option \<Rightarrow> string" where
  "format_relative_date short_date now date =
     (case date of
        None \<Rightarrow> []
      | Some t \<Rightarrow>
          (let minutes = js_round (of_int (now - t) / 60000); hours = js_round (of_int minutes / 60)
           in if minutes < 1 then ''just now''
              else if minutes < 60 then show_int minutes @ ''m ago''
              else if hours < 24 then show_int hours @ ''h ago''
              else short_date t))"

section \<open>Zoom steps\<close>

datatype zoom_direction = ZoomIn | ZoomOut

definition docx_viewer_zooms :: "nat list" where "docx_viewer_zooms = [50, 75, 100, 125, 150, 175, 200]"
definition docx_editor_zooms :: "nat list" where "docx_editor_zooms = [50, 75, 90, 100, 110, 125, 150, 175, 200]"

text \<open>The viewer takes the neighbouring option; the editor takes an index and moves it by one.\<close>

definition docx_viewer_next_zoom :: "rat \<Rightarrow> zoom_direction \<Rightarrow> rat" where
  "docx_viewer_next_zoom current d =
     (case d of
        ZoomIn \<Rightarrow> (case find (\<lambda>v. of_nat v > current) docx_viewer_zooms of Some v \<Rightarrow> of_nat v | None \<Rightarrow> current)
      | ZoomOut \<Rightarrow> (case find (\<lambda>v. of_nat v < current) (rev docx_viewer_zooms) of Some v \<Rightarrow> of_nat v | None \<Rightarrow> current))"

fun find_index :: "('a \<Rightarrow> bool) \<Rightarrow> 'a list \<Rightarrow> nat option" where
  "find_index P [] = None"
| "find_index P (x # xs) = (if P x then Some 0 else map_option Suc (find_index P xs))"

definition docx_editor_next_zoom :: "rat \<Rightarrow> zoom_direction \<Rightarrow> rat" where
  "docx_editor_next_zoom current d =
     (let n = length docx_editor_zooms;
          currentIndex = find_index (\<lambda>v. of_nat v = current) docx_editor_zooms;
          fallbackIndex =
            (case d of
               ZoomIn \<Rightarrow> find_index (\<lambda>v. of_nat v > current) docx_editor_zooms
             | ZoomOut \<Rightarrow> map_option (\<lambda>i. n - 1 - i) (find_index (\<lambda>v. of_nat v < current) (rev docx_editor_zooms)))
      in case (case currentIndex of Some i \<Rightarrow> Some i | None \<Rightarrow> fallbackIndex) of
           None \<Rightarrow> current
         | Some i \<Rightarrow>
             of_nat (docx_editor_zooms ! (case d of ZoomIn \<Rightarrow> min (i + 1) (n - 1) | ZoomOut \<Rightarrow> i - 1)))"

definition normalize_docx_zoom_scale :: "nat option \<Rightarrow> nat" where
  "normalize_docx_zoom_scale v = (case v of Some z \<Rightarrow> if z \<in> set docx_editor_zooms then z else 100 | None \<Rightarrow> 100)"

section \<open>Names are what they promise\<close>

lemma ends_with_append: "ends_with (s @ e) e"
  by (simp add: ends_with_def)

lemma to_lower_append: "to_lower (s @ t) = to_lower s @ to_lower t"
  by (simp add: to_lower_def)

lemma lower_extensions: "to_lower ''.pdf'' = ''.pdf''" "to_lower ''.docx'' = ''.docx''" "to_lower ''.xlsx'' = ''.xlsx''"
  by (simp_all add: to_lower_def lower_char_def)

lemma with_extension_ends: "to_lower ext = ext \<Longrightarrow> ends_with (to_lower (with_extension ext s)) ext"
  using ends_with_append by (simp add: with_extension_def to_lower_append)

lemma with_extension_idem: "to_lower ext = ext \<Longrightarrow> with_extension ext (with_extension ext s) = with_extension ext s"
  using with_extension_ends [of ext s] by (subst with_extension_def) simp

lemma pdf_names_end:
  "ends_with (to_lower (get_pdf_file_name fileName src)) ''.pdf''"
  "ends_with (to_lower (get_pdf_download_file_name fileName url)) ''.pdf''"
  "ends_with (to_lower (with_file_name_suffix name suffix)) ''.pdf''"
proof -
  have doc: "ends_with (to_lower ''document.pdf'') ''.pdf''"
    using lower_extensions(1) ends_with_append [of "to_lower ''document''" "''.pdf''"] to_lower_append [of "''document''" "''.pdf''"] by simp
  note e = with_extension_ends [OF lower_extensions(1)]
  show "ends_with (to_lower (get_pdf_file_name fileName src)) ''.pdf''"
    "ends_with (to_lower (get_pdf_download_file_name fileName url)) ''.pdf''"
    "ends_with (to_lower (with_file_name_suffix name suffix)) ''.pdf''"
    using doc e by (simp_all add: get_pdf_file_name_def get_pdf_download_file_name_def with_file_name_suffix_def ensure_pdf_extension_def Let_def)
qed

lemma workbook_name_end:
  "ends_with (to_lower (ensure_workbook_extension s)) ''.xlsx'' \<or> ends_with (to_lower (ensure_workbook_extension s)) ''.xls''"
  using ends_with_append lower_extensions(3) by (simp add: ensure_workbook_extension_def Let_def to_lower_append)

text \<open>The name of a rotated copy differs from the original's, so neither download replaces the other.\<close>

lemma replace_pdf_end_append:
  assumes "ends_with (to_lower name) ''.pdf''"
  shows "\<exists>stem e. name = stem @ e \<and> length e = 4 \<and> replace_pdf_end ending name = stem @ ending"
proof -
  have "4 \<le> length name" using assms by (auto simp: ends_with_def to_lower_def)
  then show ?thesis using assms
    by (intro exI [of _ "take (length name - 4) name"] exI [of _ "drop (length name - 4) name"]) (simp add: replace_pdf_end_def)
qed

text \<open>
  Every name a document is downloaded under ends with an extension of its kind, whatever the given name and the
  address, and a second pass changes nothing.
\<close>
theorem download_names_end:
  "ends_with (to_lower (get_pdf_file_name fileName src)) ''.pdf'' \<and>
   ends_with (to_lower (get_pdf_download_file_name fileName url)) ''.pdf'' \<and>
   ends_with (to_lower (with_file_name_suffix name suffix)) ''.pdf'' \<and>
   ends_with (to_lower (ensure_docx_extension name)) ''.docx'' \<and>
   (ends_with (to_lower (ensure_workbook_extension name)) ''.xlsx'' \<or> ends_with (to_lower (ensure_workbook_extension name)) ''.xls'') \<and>
   ensure_docx_extension (ensure_docx_extension name) = ensure_docx_extension name \<and>
   ensure_pdf_extension (ensure_pdf_extension name) = ensure_pdf_extension name"
  using pdf_names_end workbook_name_end with_extension_ends lower_extensions with_extension_idem
  by (simp add: ensure_docx_extension_def ensure_pdf_extension_def)

text \<open>An address without a name gives no name: the default behind \<open>??\<close> is never taken.\<close>

lemma default_names_never_used:
  assumes "blank_name fileName"
  shows "format_workbook_name fileName ''https://c/'' = []" "format_document_name fileName ''https://c/'' = []"
  using assms
  by (simp_all add: format_workbook_name_def format_document_name_def decoded_or_raw_def last_segment_def url_path_def decode_uri_component.simps)

text \<open>
  The loop for a free name always ends with a name that is not taken: the base itself when that is free, else the base
  with the smallest free number from two.
\<close>
theorem unique_name_free:
  "unique_name base taken \<notin> set taken \<and>
   (unique_name base taken = base \<or>
    base \<in> set taken \<and> (\<exists>n. 2 \<le> n \<and> unique_name base taken = numbered base n \<and> (\<forall>i. 2 \<le> i \<and> i < n \<longrightarrow> numbered base i \<in> set taken)))"
proof -
  have free: "numbered base (free_index taken base i) \<notin> set taken \<and> i \<le> free_index taken base i \<and>
    (\<forall>j. i \<le> j \<and> j < free_index taken base i \<longrightarrow> numbered base j \<in> set taken)" for i
  proof (induction taken base i rule: free_index.induct)
    case (1 taken base i)
    show ?case
    proof (cases "numbered base i \<in> set taken")
      case True
      then have eq: "free_index taken base i = free_index taken base (i + 1)" by (simp add: free_index.simps [of taken base i])
      have "numbered base j \<in> set taken" if "i \<le> j" "j < free_index taken base (i + 1)" for j
        using 1 [OF True] True that by (cases "j = i") auto
      then show ?thesis using 1 [OF True] unfolding eq by auto
    qed (auto simp: free_index.simps [of taken base i])
  qed
  show ?thesis
  proof (cases "base \<in> set taken")
    case True
    then show ?thesis using free [of 2] by (intro conjI disjI2 exI [of _ "free_index taken base 2"]) (simp_all add: unique_name_def)
  qed (simp add: unique_name_def)
qed

section \<open>Zoom buttons\<close>

lemma viewer_zoom_moves:
  "(case find (\<lambda>v. of_nat v > (c :: rat)) docx_viewer_zooms of Some v \<Rightarrow> c < of_nat v | None \<Rightarrow> \<forall>v\<in>set docx_viewer_zooms. of_nat v \<le> c)"
  by (auto simp: find_None_iff find_Some_iff not_less split: option.splits)

text \<open>On its own options the editor's step is the viewer's rule; off them it leaves one option out.\<close>

lemma editor_zoom_on_options:
  assumes "z \<in> set docx_editor_zooms"
  shows "docx_editor_next_zoom (of_nat z) ZoomIn =
      (case find (\<lambda>v. v > z) docx_editor_zooms of Some v \<Rightarrow> of_nat v | None \<Rightarrow> of_nat z)"
    "docx_editor_next_zoom (of_nat z) ZoomOut =
      (case find (\<lambda>v. v < z) (rev docx_editor_zooms) of Some v \<Rightarrow> of_nat v | None \<Rightarrow> of_nat z)"
  using assms unfolding docx_editor_next_zoom_def Let_def by (auto simp: docx_editor_zooms_def)

lemma editor_zoom_skips: "docx_editor_next_zoom 60 ZoomIn = 90" "docx_viewer_next_zoom 60 ZoomIn = 75"
  by (simp_all add: docx_editor_next_zoom_def docx_editor_zooms_def docx_viewer_next_zoom_def docx_viewer_zooms_def)

end
