(* ===== verification/PdfPages.thy ===== *)
theory PdfPages
  imports DocumentNames
begin

text \<open>
  Pages of the PDF viewer (web/src/components/extend/pdf-viewer.tsx): sets of page indexes, rotations in quarter turns, the
  layout of the thumbnails and the ones that are drawn, the layout of rotated pages, and the rotated download.

  A page's size and its rotation come from the PDF engine. Lengths are rational numbers; a rotation is a number of quarter
  turns, the deltas the viewer keeps are a map from page indexes.
\<close>

section \<open>Page indexes and rotations\<close>

definition get_page_index_range :: "nat \<Rightarrow> nat \<Rightarrow> nat set" where
  "get_page_index_range from to = set [min from to ..< Suc (max from to)]"

definition are_page_index_sets_equal :: "nat set \<Rightarrow> nat set \<Rightarrow> bool" where
  "are_page_index_sets_equal left right \<longleftrightarrow> card left = card right \<and> (\<forall>v\<in>left. v \<in> right)"

text \<open>The remainder of JavaScript has the sign of the dividend.\<close>

definition int_rem :: "int \<Rightarrow> int \<Rightarrow> int" where
  "int_rem a b = sgn a * (\<bar>a\<bar> mod \<bar>b\<bar>)"

definition normalize_rotation :: "int \<Rightarrow> int" where
  "normalize_rotation rotation = int_rem (int_rem rotation 4 + 4) 4"

definition rotation_to_degrees :: "int \<Rightarrow> int" where
  "rotation_to_degrees rotation = rotation * 90"

definition normalize_degrees :: "int \<Rightarrow> int" where
  "normalize_degrees rotation = int_rem (int_rem rotation 360 + 360) 360"

type_synonym rotation_deltas = "nat \<rightharpoonup> int"

record pdf_page =
  pg_width :: rat
  pg_height :: rat
  pg_rotation :: int

definition base_rotations :: "pdf_page list \<Rightarrow> int list" where
  "base_rotations pages = map (\<lambda>p. normalize_rotation (pg_rotation p)) pages"

definition delta_of :: "rotation_deltas \<Rightarrow> nat \<Rightarrow> int" where
  "delta_of deltas i = (case deltas i of Some d \<Rightarrow> d | None \<Rightarrow> 0)"

definition is_quarter_turn :: "int \<Rightarrow> bool" where
  "is_quarter_turn rotation \<longleftrightarrow> int_rem rotation 2 = 1"

definition get_rotated_dimensions :: "rat \<Rightarrow> int \<Rightarrow> rat \<Rightarrow> rat \<times> rat" where
  "get_rotated_dimensions height rotation width = (if is_quarter_turn rotation then (width, height) else (height, width))"

section \<open>Thumbnails\<close>

record thumb_meta =
  th_page_index :: nat
  th_width :: rat
  th_height :: rat
  th_wrapper_height :: rat
  th_top :: rat
  th_label_height :: rat
  th_padding :: rat

definition get_thumbnail_meta_for_page :: "pdf_page \<Rightarrow> nat \<Rightarrow> int \<Rightarrow> rat \<Rightarrow> rat \<Rightarrow> rat \<Rightarrow> rat \<Rightarrow> thumb_meta" where
  "get_thumbnail_meta_for_page page pageIndex rotation width imagePadding labelHeight y0 =
     (let innerWidth = max 1 (width - imagePadding * 2);
          pageWidth = (if int_rem rotation 2 = 1 then pg_height page else pg_width page);
          pageHeight = (if int_rem rotation 2 = 1 then pg_width page else pg_height page);
          imageHeight = of_int (js_round (innerWidth * (pageHeight / pageWidth)))
      in \<lparr>th_page_index = pageIndex, th_width = innerWidth, th_height = imageHeight,
          th_wrapper_height = imagePadding + imageHeight + imagePadding + labelHeight, th_top = y0,
          th_label_height = labelHeight, th_padding = imagePadding\<rparr>)"

record thumb_config =
  tc_width :: rat
  tc_gap :: rat
  tc_image_padding :: rat
  tc_label_height :: rat
  tc_padding_y :: rat

text \<open>The thumbnails from page \<open>i\<close> on, and where the next one would be.\<close>

fun thumbnail_items ::
  "thumb_config \<Rightarrow> int list \<Rightarrow> rotation_deltas \<Rightarrow> nat \<Rightarrow> rat \<Rightarrow> pdf_page list \<Rightarrow> thumb_meta list \<times> rat" where
  "thumbnail_items cfg bases deltas i y0 [] = ([], y0)"
| "thumbnail_items cfg bases deltas i y0 (page # pages) =
     (let basePageRotation = (if i < length bases then bases ! i else normalize_rotation (pg_rotation page));
          pageRotation = normalize_rotation (basePageRotation + delta_of deltas i);
          meta = get_thumbnail_meta_for_page page i pageRotation (tc_width cfg) (tc_image_padding cfg) (tc_label_height cfg) y0;
          rest = thumbnail_items cfg bases deltas (i + 1) (y0 + (th_wrapper_height meta + tc_gap cfg)) pages
      in (meta # fst rest, snd rest))"

definition build_thumbnail_layout ::
  "thumb_config \<Rightarrow> int list \<Rightarrow> rotation_deltas \<Rightarrow> pdf_page list option \<Rightarrow> (thumb_meta list \<times> rat) option" where
  "build_thumbnail_layout cfg bases deltas pdfDocument =
     (case pdfDocument of
        None \<Rightarrow> None
      | Some pages \<Rightarrow>
          (let r = thumbnail_items cfg bases deltas 0 (tc_padding_y cfg) pages
           in Some (fst r, if fst r \<noteq> [] then snd r - tc_gap cfg + tc_padding_y cfg else tc_padding_y cfg * 2)))"

definition get_visible_thumbnail_items :: "nat \<Rightarrow> rat \<Rightarrow> thumb_meta list \<Rightarrow> rat \<Rightarrow> thumb_meta list" where
  "get_visible_thumbnail_items buffer clientHeight items scrollTop =
     (if items = [] then []
      else if clientHeight \<le> 0 then take (min (length items) (buffer * 2)) items
      else
        (let viewportBottom = scrollTop + clientHeight;
             start = (case find_index (\<lambda>item. th_top item + th_wrapper_height item \<ge> scrollTop) items of
                        Some i \<Rightarrow> i | None \<Rightarrow> length items - 1);
             end_index = start + length (takeWhile (\<lambda>item. th_top item \<le> viewportBottom) (drop start items))
         in take (min (length items) (end_index + buffer) - (start - buffer)) (drop (start - buffer) items)))"

section \<open>The layout of rotated pages\<close>

record page_layout =
  pl_index :: nat
  pl_width :: rat
  pl_height :: rat
  pl_rotated_width :: rat
  pl_rotated_height :: rat
  pl_x :: rat
  pl_y :: rat

record virtual_item =
  vi_pages :: "page_layout list"
  vi_x :: rat
  vi_y :: rat
  vi_width :: rat
  vi_height :: rat
  vi_offset :: rat

record scroller_layout =
  sl_horizontal :: bool
  sl_items :: "virtual_item list"
  sl_gap :: rat
  sl_start :: rat
  sl_end :: rat
  sl_total_width :: rat
  sl_total_height :: rat

record item_sums =
  is_offset :: rat
  is_width :: rat
  is_height :: rat

definition rotated_size :: "int list \<Rightarrow> rotation_deltas \<Rightarrow> page_layout \<Rightarrow> rat \<times> rat" where
  "rotated_size bases deltas page =
     (let basePageRotation = (if pl_index page < length bases then bases ! pl_index page else normalize_rotation 0)
      in get_rotated_dimensions (pl_height page) (normalize_rotation (basePageRotation + delta_of deltas (pl_index page))) (pl_width page))"

definition place_page :: "scroller_layout \<Rightarrow> int list \<Rightarrow> rotation_deltas \<Rightarrow> page_layout \<Rightarrow> item_sums \<Rightarrow> page_layout \<times> item_sums" where
  "place_page layout bases deltas page s =
     (let (height, width) = rotated_size bases deltas page; horizontal = sl_horizontal layout
      in (page\<lparr>pl_rotated_height := height, pl_rotated_width := width,
               pl_x := (if horizontal then 0 else is_offset s), pl_y := (if horizontal then is_offset s else 0)\<rparr>,
          \<lparr>is_offset = is_offset s + (if horizontal then height else width) + sl_gap layout,
           is_width = (if horizontal then max (is_width s) width else is_width s + width),
           is_height = (if horizontal then is_height s + height else max (is_height s) height)\<rparr>))"

text \<open>How far the first page has shrunk, when nothing is before it.\<close>

definition spacing_adjustment :: "scroller_layout \<Rightarrow> int list \<Rightarrow> rotation_deltas \<Rightarrow> bool \<Rightarrow> page_layout \<Rightarrow> rat \<Rightarrow> rat \<Rightarrow> rat" where
  "spacing_adjustment layout bases deltas first_item page pageOffset adjustment =
     (let (height, width) = rotated_size bases deltas page;
          old = (if sl_horizontal layout then pl_rotated_width page else pl_rotated_height page);
          new = (if sl_horizontal layout then width else height)
      in if sl_start layout = 0 \<and> first_item \<and> pageOffset = 0 \<and> new < old then max adjustment ((old - new) / 2) else adjustment)"

fun place_pages ::
  "scroller_layout \<Rightarrow> int list \<Rightarrow> rotation_deltas \<Rightarrow> bool \<Rightarrow> page_layout list \<Rightarrow> item_sums \<Rightarrow> rat \<Rightarrow> page_layout list \<times> item_sums \<times> rat" where
  "place_pages layout bases deltas first_item [] s adjustment = ([], s, adjustment)"
| "place_pages layout bases deltas first_item (page # pages) s adjustment =
     (let (page', s') = place_page layout bases deltas page s;
          (pages', s'', a) = place_pages layout bases deltas first_item pages s'
            (spacing_adjustment layout bases deltas first_item page (is_offset s) adjustment)
      in (page' # pages', s'', a))"

definition place_item ::
  "scroller_layout \<Rightarrow> int list \<Rightarrow> rotation_deltas \<Rightarrow> bool \<Rightarrow> virtual_item \<Rightarrow> rat \<Rightarrow> rat \<Rightarrow> virtual_item \<times> rat" where
  "place_item layout bases deltas first_item item offset adjustment =
     (let (pages, s, a) = place_pages layout bases deltas first_item (vi_pages item) \<lparr>is_offset = 0, is_width = 0, is_height = 0\<rparr> adjustment;
          horizontal = sl_horizontal layout; gaps = (if length pages > 1 then sl_gap layout else 0)
      in (item\<lparr>vi_height := is_height s - (if horizontal then gaps else 0), vi_offset := offset, vi_pages := pages,
               vi_width := is_width s - (if horizontal then 0 else gaps),
               vi_x := (if horizontal then offset else vi_x item), vi_y := (if horizontal then vi_y item else offset)\<rparr>, a))"

fun place_items ::
  "scroller_layout \<Rightarrow> int list \<Rightarrow> rotation_deltas \<Rightarrow> bool \<Rightarrow> virtual_item list \<Rightarrow> rat \<Rightarrow> rat \<Rightarrow> virtual_item list \<times> rat \<times> rat" where
  "place_items layout bases deltas first_item [] offset adjustment = ([], offset, adjustment)"
| "place_items layout bases deltas first_item (item # items) offset adjustment =
     (let (item', a) = place_item layout bases deltas first_item item offset adjustment;
          (items', offset', a') = place_items layout bases deltas False items
            (offset + (if sl_horizontal layout then vi_width item' else vi_height item') + sl_gap layout) a
      in (item' # items', offset', a'))"

definition apply_page_rotation_deltas :: "int list \<Rightarrow> rotation_deltas \<Rightarrow> scroller_layout \<Rightarrow> scroller_layout" where
  "apply_page_rotation_deltas bases deltas layout =
     (if dom deltas = {} then layout
      else
        (let (items, after, adjustment) = place_items layout bases deltas True (sl_items layout) 0 0;
             offset = (if items \<noteq> [] then after - sl_gap layout else after);
             along = sl_start layout + adjustment + offset + sl_end layout
         in layout\<lparr>sl_items := items, sl_start := sl_start layout + adjustment,
              sl_total_height := (if sl_horizontal layout then foldr max (map vi_height items) 0 else along),
              sl_total_width := (if sl_horizontal layout then along else foldr max (map vi_width items) 0)\<rparr>))"

section \<open>The rotated download\<close>

definition rotated_angles :: "rotation_deltas \<Rightarrow> int list \<Rightarrow> int list" where
  "rotated_angles deltas angles =
     map (\<lambda>(i, angle). if delta_of deltas i = 0 then angle
                       else normalize_degrees (angle + rotation_to_degrees (delta_of deltas i))) (enumerate 0 angles)"

text \<open>
  The response of the address and the document its bytes hold: the page angles before and the ones of the saved copy. The
  result is the file's name with the angles of its pages.
\<close>

record pdf_response =
  pr_ok :: bool
  pr_status :: nat
  pr_angles :: "js_error + int list"

definition download_pdf_with_page_rotations ::
  "string \<Rightarrow> rotation_deltas \<Rightarrow> js_error + pdf_response \<Rightarrow> js_error + string \<times> (js_error + int list)" where
  "download_pdf_with_page_rotations fileName deltas response =
     (case response of
        Inl e \<Rightarrow> Inl e
      | Inr r \<Rightarrow>
          if \<not> pr_ok r then Inl (JsError (''Failed to download PDF ('' @ show_nat (pr_status r) @ '')''))
          else if dom deltas = {} then Inr (fileName, pr_angles r)
          else (case pr_angles r of
                  Inl e \<Rightarrow> Inl e
                | Inr angles \<Rightarrow> Inr (get_rotated_pdf_download_file_name fileName, Inr (rotated_angles deltas angles))))"

section \<open>Rotations are numbers of quarter turns\<close>

lemma int_rem_pos: "0 \<le> a \<Longrightarrow> 0 < b \<Longrightarrow> int_rem a b = a mod b"
  by (cases "a = 0") (auto simp: int_rem_def)

lemma int_rem_shifted:
  assumes "0 < b"
  shows "int_rem (int_rem a b + b) b = a mod b"
proof (cases "0 \<le> a")
  case True
  with assms have "0 \<le> a mod b + b" by (simp add: add_nonneg_nonneg)
  with True assms show ?thesis by (simp add: int_rem_pos)
next
  case False
  then have rem: "int_rem a b = - (- a mod b)" using assms by (simp add: int_rem_def)
  have "0 \<le> b - (- a mod b)" using assms pos_mod_bound [of b "- a"] by linarith
  then have "int_rem (b - (- a mod b)) b = (b - (- a mod b)) mod b" by (rule int_rem_pos) (rule assms)
  then have "int_rem (int_rem a b + b) b = (- (- a mod b) + b) mod b"
    unfolding rem by simp
  also have "\<dots> = a mod b" by (simp add: mod_minus_eq)
  finally show ?thesis .
qed

lemma normalize_rotation_mod: "normalize_rotation r = r mod 4"
  by (simp add: normalize_rotation_def int_rem_shifted)

lemma normalize_degrees_mod: "normalize_degrees r = r mod 360"
  by (simp add: normalize_degrees_def int_rem_shifted)

lemma are_page_index_sets_equal_iff: "finite right \<Longrightarrow> are_page_index_sets_equal left right \<longleftrightarrow> left = right"
  using card_subset_eq [of right left] by (auto simp: are_page_index_sets_equal_def)

lemma get_page_index_range_iff [simp]: "i \<in> get_page_index_range a b \<longleftrightarrow> min a b \<le> i \<and> i \<le> max a b"
  by (auto simp: get_page_index_range_def)

text \<open>
  C31: The saved copy shows what the viewer shows: when the engine's rotation of a page is the quarter turns of its angle in
  the file, every page of the download is turned by the angle it is displayed with, and a file without rotations is
  downloaded as it is, under its own name.
\<close>
theorem download_turns_as_shown:
  assumes "list_all2 (\<lambda>p angle. angle mod 360 = (pg_rotation p mod 4) * 90) pages angles"
    and "response = Inr \<lparr>pr_ok = True, pr_status = 200, pr_angles = Inr angles\<rparr>"
    and "download_pdf_with_page_rotations fileName deltas response = Inr (name, Inr saved)"
  shows "length saved = length pages \<and>
    (\<forall>i < length pages. saved ! i mod 360 =
       rotation_to_degrees (normalize_rotation (base_rotations pages ! i + delta_of deltas i))) \<and>
    (dom deltas = {} \<longrightarrow> name = fileName \<and> saved = angles)"
proof -
  have len: "length angles = length pages" using assms(1) by (simp add: list_all2_lengthD)
  have saved: "saved = (if dom deltas = {} then angles else rotated_angles deltas angles)"
    and name: "dom deltas = {} \<longrightarrow> name = fileName"
    using assms(2,3) by (auto simp: download_pdf_with_page_rotations_def split: if_splits)
  have same: "rotated_angles deltas angles = angles" if "dom deltas = {}"
  proof -
    from that have "deltas = Map.empty" by (simp add: dom_eq_empty_conv)
    moreover have "(\<lambda>(i :: nat, angle :: int). angle) = snd" by auto
    ultimately show ?thesis by (simp add: rotated_angles_def delta_of_def)
  qed
  have "saved ! i mod 360 = (pg_rotation (pages ! i) mod 4 + delta_of deltas i) mod 4 * 90" if i: "i < length pages" for i
  proof -
    have angle: "angles ! i mod 360 = (pg_rotation (pages ! i) mod 4) * 90"
      using assms(1) i by (simp add: list_all2_conv_all_nth)
    have "saved ! i = (if delta_of deltas i = 0 then angles ! i else normalize_degrees (angles ! i + rotation_to_degrees (delta_of deltas i)))"
      using saved i len by (auto simp: rotated_angles_def nth_enumerate_eq delta_of_def dom_eq_empty_conv)
    then have "saved ! i mod 360 = (angles ! i + delta_of deltas i * 90) mod 360"
      by (simp add: normalize_degrees_mod rotation_to_degrees_def)
    also have "\<dots> = (angles ! i mod 360 + delta_of deltas i * 90) mod 360" by (rule mod_add_left_eq [symmetric])
    also have "\<dots> = ((pg_rotation (pages ! i) mod 4 + delta_of deltas i) * 90) mod (4 * 90)"
      unfolding angle by (simp add: distrib_right)
    also have "\<dots> = (pg_rotation (pages ! i) mod 4 + delta_of deltas i) mod 4 * 90"
      by (simp add: mult_mod_left)
    finally show ?thesis .
  qed
  then show ?thesis using saved len same name
    by (auto simp: rotated_angles_def rotation_to_degrees_def normalize_rotation_mod base_rotations_def)
qed

section \<open>Thumbnails are stacked and the visible ones are drawn\<close>

definition page_ok :: "pdf_page \<Rightarrow> bool" where
  "page_ok p \<longleftrightarrow> 0 < pg_width p \<and> 0 < pg_height p"

definition thumb_config_ok :: "thumb_config \<Rightarrow> bool" where
  "thumb_config_ok cfg \<longleftrightarrow> 0 \<le> tc_gap cfg \<and> 0 \<le> tc_image_padding cfg \<and> 0 \<le> tc_label_height cfg \<and>
     tc_padding_y cfg \<le> tc_gap cfg + 2 * tc_image_padding cfg + tc_label_height cfg"

lemma js_round_nonneg: "0 \<le> q \<Longrightarrow> 0 \<le> js_round q"
  by (simp add: js_round_def)

lemma thumbnail_meta_height:
  fixes meta :: thumb_meta and y :: rat and i :: nat and r :: int
  assumes "page_ok page" "thumb_config_ok cfg"
  defines meta: "meta \<equiv> get_thumbnail_meta_for_page page i r (tc_width cfg) (tc_image_padding cfg) (tc_label_height cfg) y"
  shows "th_top meta = y" "0 \<le> th_wrapper_height meta" "tc_padding_y cfg \<le> tc_gap cfg + th_wrapper_height meta"
    "th_page_index meta = i"
proof -
  have "0 \<le> th_height meta"
    using assms(1) by (auto simp: meta get_thumbnail_meta_for_page_def page_ok_def Let_def intro!: js_round_nonneg mult_nonneg_nonneg)
  moreover have "th_wrapper_height meta = tc_image_padding cfg + th_height meta + tc_image_padding cfg + tc_label_height cfg"
    by (simp add: meta get_thumbnail_meta_for_page_def Let_def)
  ultimately show "0 \<le> th_wrapper_height meta" "tc_padding_y cfg \<le> tc_gap cfg + th_wrapper_height meta"
    using assms(2) by (auto simp: thumb_config_ok_def)
  show "th_top meta = y" "th_page_index meta = i" by (simp_all add: meta get_thumbnail_meta_for_page_def Let_def)
qed

fun stacked :: "rat \<Rightarrow> rat \<Rightarrow> rat \<Rightarrow> thumb_meta list \<Rightarrow> bool" where
  "stacked gap least y [] = True"
| "stacked gap least y (m # ms) \<longleftrightarrow>
     th_top m = y \<and> 0 \<le> th_wrapper_height m \<and> least \<le> gap + th_wrapper_height m \<and> stacked gap least (y + th_wrapper_height m + gap) ms"

lemma thumbnail_items_stacked:
  assumes "thumb_config_ok cfg" "\<forall>p\<in>set pages. page_ok p"
  shows "stacked (tc_gap cfg) (tc_padding_y cfg) y (fst (thumbnail_items cfg bases deltas i y pages))"
    "map th_page_index (fst (thumbnail_items cfg bases deltas i y pages)) = [i..<i + length pages]"
  using assms(2)
proof (induction pages arbitrary: i y)
  case (Cons page pages)
  { case 1
    with Cons.IH(1) show ?case using thumbnail_meta_height [OF _ assms(1)] by (simp add: Let_def add.assoc) }
  { case 2
    with Cons.IH(2) show ?case using thumbnail_meta_height [OF _ assms(1)] by (simp add: Let_def upt_conv_Cons del: upt_Suc) }
qed simp_all

lemma stacked_le:
  assumes "stacked gap least y ms" "0 \<le> gap" "m \<in> set ms"
  shows "y \<le> th_top m"
  using assms
proof (induction ms arbitrary: y)
  case (Cons m' ms)
  then show ?case by fastforce
qed simp

lemma stacked_gap:
  assumes "stacked gap least y ms" "0 \<le> gap" "i < j" "j < length ms"
  shows "th_top (ms ! i) + th_wrapper_height (ms ! i) + gap \<le> th_top (ms ! j)"
  using assms
proof (induction ms arbitrary: y i j)
  case (Cons m ms)
  from Cons.prems obtain j' where j: "j = Suc j'" by (cases j) auto
  show ?case
  proof (cases i)
    case 0
    with Cons.prems j stacked_le [of gap least "y + th_wrapper_height m + gap" ms "ms ! j'"] show ?thesis by simp
  next
    case (Suc i')
    with Cons.prems j Cons.IH [of "y + th_wrapper_height m + gap" i' j'] show ?thesis by simp
  qed
qed simp

lemma stacked_heights:
  "stacked gap least y ms \<Longrightarrow> m \<in> set ms \<Longrightarrow> 0 \<le> th_wrapper_height m \<and> least \<le> gap + th_wrapper_height m"
  by (induction ms arbitrary: y) auto

lemma find_index_SomeD: "find_index P xs = Some i \<Longrightarrow> i < length xs \<and> P (xs ! i) \<and> (\<forall>j < i. \<not> P (xs ! j))"
proof (induction xs arbitrary: i)
  case (Cons x xs)
  then show ?case by (auto split: if_splits simp: nth_Cons split: nat.splits)
qed simp

lemma find_index_None: "find_index P xs = None \<longleftrightarrow> (\<forall>x\<in>set xs. \<not> P x)"
  by (induction xs) auto

lemma takeWhile_longer: "n < length ys \<Longrightarrow> (\<And>j. j \<le> n \<Longrightarrow> P (ys ! j)) \<Longrightarrow> n < length (takeWhile P ys)"
proof (induction ys arbitrary: n)
  case (Cons y ys)
  from Cons.prems(2) [of 0] have "P y" by simp
  moreover have "n' < length (takeWhile P ys)" if "n = Suc n'" for n'
    using Cons.IH [of n'] Cons.prems that by fastforce
  ultimately show ?case by (cases n) auto
qed simp

lemma visible_slice:
  assumes "stacked gap pad y items" "0 \<le> gap" "0 \<le> pad" "1 \<le> buffer" "0 < clientHeight" "k < length items"
    and "scrollTop \<le> th_top (items ! k) + pad + th_wrapper_height (items ! k)"
    and "th_top (items ! k) + pad \<le> scrollTop + clientHeight"
  shows "items ! k \<in> set (get_visible_thumbnail_items buffer clientHeight items scrollTop)"
proof -
  define start where "start = (case find_index (\<lambda>item. th_top item + th_wrapper_height item \<ge> scrollTop) items of
    Some i \<Rightarrow> i | None \<Rightarrow> length items - 1)"
  define last_index where "last_index = start + length (takeWhile (\<lambda>item. th_top item \<le> scrollTop + clientHeight) (drop start items))"
  have "start < length items \<and> (\<forall>j < start. th_top (items ! j) + th_wrapper_height (items ! j) < scrollTop)"
  proof (cases "find_index (\<lambda>item. th_top item + th_wrapper_height item \<ge> scrollTop) items")
    case None
    then have "\<forall>item\<in>set items. th_top item + th_wrapper_height item < scrollTop" by (simp add: find_index_None not_le)
    moreover from None have "start = length items - 1" by (simp add: start_def)
    ultimately show ?thesis using assms(6) by auto
  next
    case (Some i)
    from find_index_SomeD [OF this] Some show ?thesis by (auto simp: start_def not_le)
  qed
  then have start: "start < length items" "\<forall>j < start. th_top (items ! j) + th_wrapper_height (items ! j) < scrollTop"
    by auto
  have visible: "get_visible_thumbnail_items buffer clientHeight items scrollTop =
      take (min (length items) (last_index + buffer) - (start - buffer)) (drop (start - buffer) items)"
    using assms(5,6) by (auto simp: get_visible_thumbnail_items_def Let_def start_def last_index_def)
  have "start \<le> k + 1"
  proof (rule ccontr)
    assume "\<not> start \<le> k + 1"
    then have "th_top (items ! Suc k) + th_wrapper_height (items ! Suc k) < scrollTop" "Suc k < length items"
      using start by auto
    moreover from this(2) have "th_top (items ! k) + th_wrapper_height (items ! k) + gap \<le> th_top (items ! Suc k)"
      using stacked_gap [OF assms(1,2)] by simp
    moreover have "pad \<le> gap + th_wrapper_height (items ! Suc k)"
      using stacked_heights [OF assms(1), of "items ! Suc k"] \<open>Suc k < length items\<close> by simp
    ultimately show False using assms(7) by linarith
  qed
  moreover have "k < last_index" if "start \<le> k"
  proof -
    have "th_top (items ! j) \<le> scrollTop + clientHeight" if "j \<le> k" for j
    proof (cases "j = k")
      case False
      then have "th_top (items ! j) + th_wrapper_height (items ! j) + gap \<le> th_top (items ! k)"
        using stacked_gap [OF assms(1,2), of j k] that assms(6) by simp
      moreover have "0 \<le> th_wrapper_height (items ! j)"
        using stacked_heights [OF assms(1), of "items ! j"] that assms(6) by simp
      ultimately show ?thesis using assms(2,3,8) by linarith
    qed (use assms(3,8) in simp)
    then have "k - start < length (takeWhile (\<lambda>item. th_top item \<le> scrollTop + clientHeight) (drop start items))"
      using that assms(6) by (intro takeWhile_longer) auto
    then show ?thesis using that by (simp add: last_index_def)
  qed
  moreover have "start \<le> last_index" by (simp add: last_index_def)
  ultimately have "start - buffer \<le> k" "k < min (length items) (last_index + buffer)"
    using assms(4,6) by (cases "start \<le> k"; simp)+
  then have "items ! k = take (min (length items) (last_index + buffer) - (start - buffer)) (drop (start - buffer) items) ! (k - (start - buffer))"
    and "k - (start - buffer) < length (take (min (length items) (last_index + buffer) - (start - buffer)) (drop (start - buffer) items))"
    by auto
  then show ?thesis unfolding visible by (metis nth_mem)
qed

text \<open>
  C32: The thumbnails never lie over each other, and whatever part of the list is scrolled into view, every thumbnail that
  meets it is drawn: also where the list is shifted by its padding, which the layout and the window do not agree on.
\<close>
theorem visible_thumbnails_drawn:
  assumes "thumb_config_ok cfg" "0 \<le> tc_padding_y cfg" "\<forall>p\<in>set pages. page_ok p"
    and "build_thumbnail_layout cfg bases deltas (Some pages) = Some (items, height)"
    and "1 \<le> buffer" "0 < clientHeight"
  shows "length items = length pages \<and>
    (\<forall>i j. i < j \<and> j < length items \<longrightarrow> th_top (items ! i) + th_wrapper_height (items ! i) + tc_gap cfg \<le> th_top (items ! j)) \<and>
    (\<forall>item\<in>set items. scrollTop \<le> th_top item + tc_padding_y cfg + th_wrapper_height item \<and>
        th_top item + tc_padding_y cfg \<le> scrollTop + clientHeight \<longrightarrow>
      item \<in> set (get_visible_thumbnail_items buffer clientHeight items scrollTop))"
proof -
  have items: "items = fst (thumbnail_items cfg bases deltas 0 (tc_padding_y cfg) pages)"
    using assms(4) by (simp add: build_thumbnail_layout_def Let_def)
  have s: "stacked (tc_gap cfg) (tc_padding_y cfg) (tc_padding_y cfg) items" "map th_page_index items = [0..<length pages]"
    using thumbnail_items_stacked [OF assms(1,3)] by (simp_all add: items)
  have gap: "0 \<le> tc_gap cfg" using assms(1) by (simp add: thumb_config_ok_def)
  have "length items = length pages" using arg_cong [OF s(2), of length] by simp
  then show ?thesis
    using stacked_gap [OF s(1) gap] visible_slice [OF s(1) gap assms(2,5,6)] by (auto simp: in_set_conv_nth)
qed

definition viewer_thumb_config :: thumb_config where
  "viewer_thumb_config = \<lparr>tc_width = 108, tc_gap = 12, tc_image_padding = 8, tc_label_height = 24, tc_padding_y = 16\<rparr>"

theorem visible_thumbnails_drawn_witness:
  "\<exists>items height. build_thumbnail_layout viewer_thumb_config [0] Map.empty (Some [\<lparr>pg_width = 600, pg_height = 800, pg_rotation = 0\<rparr>]) =
      Some (items, height) \<and> length items = 1 \<and>
    (\<forall>item\<in>set items. 5 \<le> th_top item + 16 + th_wrapper_height item \<and> th_top item + 16 \<le> 5 + 100 \<longrightarrow>
      item \<in> set (get_visible_thumbnail_items 3 100 items 5))"
proof -
  let ?pages = "[\<lparr>pg_width = 600, pg_height = 800, pg_rotation = 0\<rparr>]"
  obtain items height where l: "build_thumbnail_layout viewer_thumb_config [0] Map.empty (Some ?pages) = Some (items, height)"
    by (simp add: build_thumbnail_layout_def Let_def)
  from visible_thumbnails_drawn [OF _ _ _ l, of 3 100 5] show ?thesis
    unfolding l by (auto simp: thumb_config_ok_def viewer_thumb_config_def page_ok_def)
qed

theorem download_turns_as_shown_witness:
  "\<exists>saved. download_pdf_with_page_rotations ''a.pdf'' [0 \<mapsto> 1] (Inr \<lparr>pr_ok = True, pr_status = 200, pr_angles = Inr [90]\<rparr>) =
      Inr (get_rotated_pdf_download_file_name ''a.pdf'', Inr saved) \<and>
    saved ! 0 mod 360 = rotation_to_degrees (normalize_rotation (base_rotations [\<lparr>pg_width = 1, pg_height = 1, pg_rotation = 1\<rparr>] ! 0 + delta_of [0 \<mapsto> 1] 0))"
proof -
  have "download_pdf_with_page_rotations ''a.pdf'' [0 \<mapsto> 1] (Inr \<lparr>pr_ok = True, pr_status = 200, pr_angles = Inr [90]\<rparr>) =
      Inr (get_rotated_pdf_download_file_name ''a.pdf'', Inr (rotated_angles [0 \<mapsto> 1] [90]))"
    by (simp add: download_pdf_with_page_rotations_def)
  from download_turns_as_shown [OF _ refl this, of "[\<lparr>pg_width = 1, pg_height = 1, pg_rotation = 1\<rparr>]"] this show ?thesis by simp
qed

section \<open>Rotated pages are laid out one after another\<close>

fun items_follow :: "bool \<Rightarrow> rat \<Rightarrow> rat \<Rightarrow> virtual_item list \<Rightarrow> bool" where
  "items_follow horizontal gap offset [] = True"
| "items_follow horizontal gap offset (item # items) \<longleftrightarrow>
     vi_offset item = offset \<and> (if horizontal then vi_x item = offset else vi_y item = offset) \<and>
     items_follow horizontal gap (offset + (if horizontal then vi_width item else vi_height item) + gap) items"

lemma place_items_follow:
  "items_follow (sl_horizontal layout) (sl_gap layout) offset (fst (place_items layout bases deltas first_item items offset a))"
proof (induction items arbitrary: first_item offset a)
  case (Cons item items)
  have "vi_offset (fst (place_item layout bases deltas first_item item offset a)) = offset"
    "sl_horizontal layout \<Longrightarrow> vi_x (fst (place_item layout bases deltas first_item item offset a)) = offset"
    "\<not> sl_horizontal layout \<Longrightarrow> vi_y (fst (place_item layout bases deltas first_item item offset a)) = offset"
    by (simp_all add: place_item_def split_beta Let_def)
  with Cons show ?case by (simp add: split_beta)
qed simp

text \<open>A column of single pages: each item is as high as its rotated page, and the heights add up.\<close>

lemma single_page_item:
  assumes "\<not> sl_horizontal layout" "vi_pages item = [page]" "0 \<le> snd (rotated_size bases deltas page)" "0 \<le> fst (rotated_size bases deltas page)"
  shows "vi_height (fst (place_item layout bases deltas first_item item offset a)) = fst (rotated_size bases deltas page)"
    "vi_width (fst (place_item layout bases deltas first_item item offset a)) = snd (rotated_size bases deltas page)"
  using assms by (simp_all add: place_item_def place_page_def split_beta Let_def)

text \<open>
  Two pages side by side: the second is placed a gap behind the first, but the item is a gap narrower than the pages
  together, two gaps less than the space they take.
\<close>

lemma spread_item_too_narrow:
  assumes "\<not> sl_horizontal layout" "vi_pages item = [p, q]"
    and "placed = fst (place_item layout bases deltas first_item item offset a)"
  shows "pl_x (vi_pages placed ! 1) + snd (rotated_size bases deltas q) = vi_width placed + 2 * sl_gap layout"
  using assms by (simp add: place_item_def place_page_def split_beta Let_def)

end
