(* ===== verification/PdfViewer.thy ===== *)
theory PdfViewer
  imports PdfPages
begin

text \<open>
  The PDF viewer itself (web/src/components/extend/pdf-viewer.tsx): the page number field, the zoom buttons, the keys of the
  thumbnail list, and the state of PDFViewerInner with its selection, its rotations and its download.

  The engine reports the document and the page in view as actions; what the viewer asks of it is a list of calls. A
  document's component is mounted anew for each document, so a run is about one document.
\<close>

section \<open>The page number field\<close>

record page_field =
  pf_editing :: bool
  pf_draft :: string

definition display_page :: "nat \<Rightarrow> nat \<Rightarrow> nat" where
  "display_page numPages activePage = (if numPages > 0 then activePage else 1)"

text \<open>The page a text asks for: nothing for a blank text or a number that is not whole.\<close>

definition apply_page_draft :: "nat \<Rightarrow> string \<Rightarrow> nat option" where
  "apply_page_draft numPages text_value =
     (let trimmedValue = js_trim text_value
      in if trimmedValue = [] then None
         else (case js_number trimmedValue of
                 None \<Rightarrow> None
               | Some parsedPage \<Rightarrow>
                   if parsedPage \<in> \<int> then Some (nat (min (max \<lfloor>parsedPage\<rfloor> 1) (int (max numPages 1)))) else None))"

definition start_page_edit :: "nat \<Rightarrow> nat \<Rightarrow> page_field \<Rightarrow> page_field" where
  "start_page_edit numPages activePage f = \<lparr>pf_editing = True, pf_draft = show_nat (display_page numPages activePage)\<rparr>"

definition change_page_draft :: "nat \<Rightarrow> string \<Rightarrow> page_field \<Rightarrow> page_field \<times> nat option" where
  "change_page_draft numPages nextValue f = (f\<lparr>pf_draft := nextValue\<rparr>, apply_page_draft numPages nextValue)"

section \<open>Zoom buttons\<close>

definition zoom_options :: "rat list" where "zoom_options = [1 / 10, 1 / 4, 1 / 2, 3 / 4, 1, 5 / 4, 3 / 2, 2]"

definition two_digits :: "rat \<Rightarrow> rat" where "two_digits z = of_int (js_round (z * 100)) / 100"

definition shown_zoom_options :: "rat \<Rightarrow> rat list" where
  "shown_zoom_options current = (if two_digits current \<in> set zoom_options then zoom_options else insort (two_digits current) zoom_options)"

definition zoom_out :: "rat \<Rightarrow> rat option" where
  "zoom_out current =
     (if current \<le> zoom_options ! 0 then None
      else Some (case find (\<lambda>option. option < current) (rev zoom_options) of Some z \<Rightarrow> z | None \<Rightarrow> zoom_options ! 0))"

definition zoom_in :: "rat \<Rightarrow> rat option" where
  "zoom_in current =
     (if current \<ge> last zoom_options then None
      else Some (case find (\<lambda>option. option > current) zoom_options of Some z \<Rightarrow> z | None \<Rightarrow> last zoom_options))"

section \<open>The thumbnail list's keys\<close>

datatype selection_mode = ReplaceSelection | ToggleSelection | RangeSelection

datatype thumbnail_list_key = ArrowDown | ArrowUp | HomeKey | EndKey | SpaceKey | OtherKey

definition thumbnail_key_page :: "nat \<Rightarrow> nat \<Rightarrow> thumbnail_list_key \<Rightarrow> bool \<Rightarrow> (nat \<times> selection_mode) option" where
  "thumbnail_key_page pageCount activePage key shift =
     (if pageCount < 1 then None
      else
        (let currentPage = (if activePage > 0 then activePage else 1);
             mode = (if shift then RangeSelection else ReplaceSelection)
         in case key of
              ArrowDown \<Rightarrow> Some (min pageCount (currentPage + 1), mode)
            | ArrowUp \<Rightarrow> Some (max 1 (currentPage - 1), mode)
            | HomeKey \<Rightarrow> Some (1, mode)
            | EndKey \<Rightarrow> Some (pageCount, mode)
            | SpaceKey \<Rightarrow> Some (currentPage, ToggleSelection)
            | OtherKey \<Rightarrow> None))"

definition click_mode :: "bool \<Rightarrow> bool \<Rightarrow> selection_mode" where
  "click_mode shift meta = (if shift then RangeSelection else if meta then ToggleSelection else ReplaceSelection)"

section \<open>The state of a viewer\<close>

datatype viewer_call = ScrollToPage nat | RefreshPages "nat list" | ScrollBy rat

record pdf_viewer =
  pv_document :: "pdf_page list option"
  pv_active :: nat
  pv_selected :: "nat set"
  pv_anchor :: "nat option"
  pv_suppressed :: "nat option"
  pv_initialized :: bool
  pv_deltas :: rotation_deltas
  pv_sidebar :: bool
  pv_preparing :: bool
  pv_field :: page_field
  pv_calls :: "viewer_call list"

definition pdf_viewer_start :: pdf_viewer where
  "pdf_viewer_start =
     \<lparr>pv_document = None, pv_active = 0, pv_selected = {}, pv_anchor = None, pv_suppressed = None, pv_initialized = False,
      pv_deltas = Map.empty, pv_sidebar = False, pv_preparing = False, pv_field = \<lparr>pf_editing = False, pf_draft = ''1''\<rparr>,
      pv_calls = []\<rparr>"

definition viewer_pages :: "pdf_viewer \<Rightarrow> pdf_page list" where
  "viewer_pages st = (case pv_document st of Some pages \<Rightarrow> pages | None \<Rightarrow> [])"

definition num_pages :: "pdf_viewer \<Rightarrow> nat" where
  "num_pages st = length (viewer_pages st)"

text \<open>The effects of a change of the page in view or of the number of pages, in their order.\<close>

definition sync_selection :: "pdf_viewer \<Rightarrow> pdf_viewer" where
  "sync_selection st =
     (if pv_active st < 1 \<or> num_pages st < 1 then st
      else
        (let activePageIndex = pv_active st - 1; st' = st\<lparr>pv_suppressed := None\<rparr>
         in if pv_suppressed st = Some activePageIndex then st'
            else st'\<lparr>pv_anchor := Some activePageIndex, pv_selected := {activePageIndex}\<rparr>))"

definition init_selection :: "pdf_viewer \<Rightarrow> pdf_viewer" where
  "init_selection st =
     (if num_pages st < 1 \<or> pv_initialized st then st
      else
        (let initialPageIndex = (if pv_active st > 0 then pv_active st else 1) - 1
         in st\<lparr>pv_initialized := True, pv_anchor := Some initialPageIndex, pv_selected := {initialPageIndex}\<rparr>))"

definition select_thumbnail_page :: "nat \<Rightarrow> selection_mode \<Rightarrow> pdf_viewer \<Rightarrow> pdf_viewer" where
  "select_thumbnail_page pageNumber mode st =
     (if pageNumber < 1 \<or> num_pages st < pageNumber then st
      else
        (let pageIndex = pageNumber - 1;
             anchor = (case pv_anchor st of Some a \<Rightarrow> a | None \<Rightarrow> if pv_active st > 0 then pv_active st - 1 else pageIndex)
         in st\<lparr>pv_suppressed := Some pageIndex,
               pv_selected :=
                 (case mode of
                    RangeSelection \<Rightarrow> get_page_index_range anchor pageIndex
                  | ToggleSelection \<Rightarrow> if pageIndex \<in> pv_selected st then pv_selected st - {pageIndex} else insert pageIndex (pv_selected st)
                  | ReplaceSelection \<Rightarrow> {pageIndex}),
               pv_anchor := (if mode = RangeSelection then pv_anchor st else Some pageIndex),
               pv_calls := pv_calls st @ [ScrollToPage pageNumber]\<rparr>))"

text \<open>The pages a rotation turns: the selected ones, or the page in view when none is selected.\<close>

definition rotation_targets :: "pdf_viewer \<Rightarrow> nat list" where
  "rotation_targets st =
     (let selected = filter (\<lambda>i. i < num_pages st) (sorted_list_of_set (pv_selected st))
      in filter (\<lambda>i. i < num_pages st) (if selected \<noteq> [] then selected else [pv_active st - 1]))"

definition rotate_page ::
  "rat \<Rightarrow> int \<Rightarrow> pdf_page list \<Rightarrow> nat \<Rightarrow> rotation_deltas \<Rightarrow> nat \<Rightarrow> rotation_deltas \<times> rat \<Rightarrow> rotation_deltas \<times> rat" where
  "rotate_page zoom direction pages reference previousDeltas i acc =
     (let page = pages ! i;
          previousDelta = delta_of previousDeltas i;
          nextDelta = normalize_rotation (previousDelta + direction);
          basePageRotation = (if i < length pages then base_rotations pages ! i else normalize_rotation (pg_rotation page));
          size_of = (\<lambda>r. get_rotated_dimensions (pg_height page * zoom) (normalize_rotation (basePageRotation + r)) (pg_width page * zoom));
          heightDelta = fst (size_of nextDelta) - fst (size_of previousDelta)
      in (if nextDelta \<noteq> 0 then (fst acc)(i \<mapsto> nextDelta) else (fst acc)(i := None),
          if i < reference then snd acc + heightDelta
          else if i = reference then snd acc + heightDelta / 2
          else snd acc))"

definition rotate_selected_pages :: "rat \<Rightarrow> int \<Rightarrow> pdf_viewer \<Rightarrow> pdf_viewer" where
  "rotate_selected_pages zoom direction st =
     (case pv_document st of
        None \<Rightarrow> st
      | Some pages \<Rightarrow>
          if pv_active st < 1 then st
          else
            (let targets = rotation_targets st
             in if targets = [] then st
                else
                  (let reference = (if pv_active st - 1 < length pages then pv_active st - 1 else hd targets);
                       (nextDeltas, scrollDelta) =
                         fold (rotate_page zoom direction pages reference (pv_deltas st)) targets (pv_deltas st, 0)
                   in st\<lparr>pv_deltas := nextDeltas,
                         pv_calls := pv_calls st @ [RefreshPages targets] @ (if scrollDelta \<noteq> 0 then [ScrollBy scrollDelta] else [])\<rparr>)))"

datatype viewer_action =
    DocumentLoaded "pdf_page list"
  | PageShown nat
  | ClickThumbnail nat bool bool
  | PressThumbnailKey thumbnail_list_key bool
  | EditPageNumber
  | TypePageNumber string
  | LeavePageNumber
  | RotatePages rat bool
  | ToggleSidebar
  | StartDownload
  | DownloadSettled

definition go_to_page :: "nat option \<Rightarrow> pdf_viewer \<Rightarrow> pdf_viewer" where
  "go_to_page p st = (case p of None \<Rightarrow> st | Some n \<Rightarrow> st\<lparr>pv_calls := pv_calls st @ [ScrollToPage n]\<rparr>)"

fun viewer_step :: "pdf_viewer \<Rightarrow> viewer_action \<Rightarrow> pdf_viewer option" where
  "viewer_step st (DocumentLoaded pages) =
     (if pv_document st \<noteq> None then None
      else (let st' = st\<lparr>pv_document := Some pages\<rparr> in Some (if pages = [] then st' else init_selection (sync_selection st'))))"
| "viewer_step st (PageShown p) =
     (if p = pv_active st \<or> p < 1 \<or> num_pages st < p then None else Some (init_selection (sync_selection (st\<lparr>pv_active := p\<rparr>))))"
| "viewer_step st (ClickThumbnail p shift meta) =
     (if \<not> pv_sidebar st \<or> p < 1 \<or> num_pages st < p then None else Some (select_thumbnail_page p (click_mode shift meta) st))"
| "viewer_step st (PressThumbnailKey key shift) =
     (if \<not> pv_sidebar st \<or> pv_document st = None then None
      else Some (case thumbnail_key_page (num_pages st) (pv_active st) key shift of
                   None \<Rightarrow> st | Some (p, mode) \<Rightarrow> select_thumbnail_page p mode st))"
| "viewer_step st EditPageNumber =
     (if num_pages st = 0 \<or> pf_editing (pv_field st) then None
      else Some (st\<lparr>pv_field := start_page_edit (num_pages st) (pv_active st) (pv_field st)\<rparr>))"
| "viewer_step st (TypePageNumber s) =
     (if \<not> pf_editing (pv_field st) then None
      else (let (f, p) = change_page_draft (num_pages st) s (pv_field st) in Some (go_to_page p (st\<lparr>pv_field := f\<rparr>))))"
| "viewer_step st LeavePageNumber =
     (if \<not> pf_editing (pv_field st) then None else Some (st\<lparr>pv_field := (pv_field st)\<lparr>pf_editing := False\<rparr>\<rparr>))"
| "viewer_step st (RotatePages zoom clockwise) =
     (if num_pages st = 0 then None else Some (rotate_selected_pages zoom (if clockwise then 1 else - 1) st))"
| "viewer_step st ToggleSidebar = (if num_pages st = 0 then None else Some (st\<lparr>pv_sidebar := \<not> pv_sidebar st\<rparr>))"
| "viewer_step st StartDownload = (if num_pages st = 0 \<or> pv_preparing st then None else Some (st\<lparr>pv_preparing := True\<rparr>))"
| "viewer_step st DownloadSettled = (if pv_preparing st then Some (st\<lparr>pv_preparing := False\<rparr>) else None)"

section \<open>What a viewer keeps\<close>

definition viewer_ok :: "pdf_viewer \<Rightarrow> bool" where
  "viewer_ok st \<longleftrightarrow>
     pv_active st \<le> num_pages st \<and> pv_selected st \<subseteq> {..<num_pages st} \<and>
     (\<forall>a. pv_anchor st = Some a \<longrightarrow> a < num_pages st) \<and>
     dom (pv_deltas st) \<subseteq> {..<num_pages st} \<and> ran (pv_deltas st) \<subseteq> {1, 2, 3} \<and>
     (\<forall>p. ScrollToPage p \<in> set (pv_calls st) \<longrightarrow> 1 \<le> p \<and> p \<le> num_pages st)"

lemma viewer_okD:
  assumes "viewer_ok st"
  shows "finite (pv_selected st)" "i \<in> pv_selected st \<Longrightarrow> i < num_pages st"
  using assms finite_subset [of "pv_selected st" "{..<num_pages st}"] by (auto simp: viewer_ok_def)

lemma sync_selection_ok: "viewer_ok st \<Longrightarrow> viewer_ok (sync_selection st)"
  by (auto simp: viewer_ok_def sync_selection_def Let_def num_pages_def viewer_pages_def)

lemma init_selection_ok: "viewer_ok st \<Longrightarrow> viewer_ok (init_selection st)"
  by (auto simp: viewer_ok_def init_selection_def Let_def num_pages_def viewer_pages_def)

lemma select_thumbnail_page_ok:
  assumes "viewer_ok st"
  shows "viewer_ok (select_thumbnail_page p mode st)"
proof (cases "p < 1 \<or> num_pages st < p")
  case False
  let ?a = "case pv_anchor st of Some a \<Rightarrow> a | None \<Rightarrow> if pv_active st > 0 then pv_active st - 1 else p - 1"
  have "?a < num_pages st" using assms False by (auto simp: viewer_ok_def split: option.splits)
  then have "get_page_index_range ?a (p - 1) \<subseteq> {..<num_pages st}" using False by (auto simp: min_def max_def split: if_splits)
  moreover have "num_pages (select_thumbnail_page p mode st) = num_pages st"
    by (simp add: select_thumbnail_page_def Let_def num_pages_def viewer_pages_def)
  moreover have "pv_selected (select_thumbnail_page p mode st) \<subseteq>
      get_page_index_range ?a (p - 1) \<union> pv_selected st \<union> {p - 1}"
    by (cases mode) (auto simp: select_thumbnail_page_def Let_def simp del: get_page_index_range_iff split: option.splits)
  moreover have "p - 1 < num_pages st" using False by auto
  moreover have "pv_selected st \<subseteq> {..<num_pages st}" using assms by (simp add: viewer_ok_def)
  ultimately have "pv_selected (select_thumbnail_page p mode st) \<subseteq> {..<num_pages st}"
    "num_pages (select_thumbnail_page p mode st) = num_pages st" by blast+
  then show ?thesis using assms False
    unfolding viewer_ok_def by (auto simp: select_thumbnail_page_def Let_def num_pages_def viewer_pages_def split: if_splits)
qed (use assms in \<open>auto simp: select_thumbnail_page_def\<close>)

lemma rotation_targets_ok:
  assumes "viewer_ok st" "1 \<le> pv_active st"
  shows "distinct (rotation_targets st)"
    "set (rotation_targets st) = (if pv_selected st \<noteq> {} then pv_selected st else {pv_active st - 1})"
proof -
  have fin: "finite (pv_selected st)" using assms(1) by (rule viewer_okD)
  have all: "filter (\<lambda>i. i < num_pages st) (sorted_list_of_set (pv_selected st)) = sorted_list_of_set (pv_selected st)"
    using viewer_okD [OF assms(1)] fin by (auto intro: filter_True)
  have "pv_active st - 1 < num_pages st" using assms by (auto simp: viewer_ok_def)
  then show "set (rotation_targets st) = (if pv_selected st \<noteq> {} then pv_selected st else {pv_active st - 1})"
    "distinct (rotation_targets st)"
    using fin viewer_okD [OF assms(1)] unfolding rotation_targets_def Let_def all by auto
qed

text \<open>A rotation adds one quarter turn to the delta of each of its pages, keeping none of zero, and leaves the others.\<close>

lemma rotate_fold:
  "distinct targets \<Longrightarrow>
   fst (fold (rotate_page zoom d pages ref prev) targets acc) i =
     (if i \<in> set targets then (let n = normalize_rotation (delta_of prev i + d) in if n = 0 then None else Some n) else fst acc i)"
proof (induction targets arbitrary: acc)
  case (Cons t targets)
  then show ?case by (simp add: rotate_page_def Let_def)
qed simp

lemma rotate_selected_pages_deltas:
  assumes "viewer_ok st" "1 \<le> pv_active st"
  shows "pv_deltas (rotate_selected_pages zoom d st) i =
    (if i \<in> set (rotation_targets st) then (let n = normalize_rotation (delta_of (pv_deltas st) i + d) in if n = 0 then None else Some n)
     else pv_deltas st i)"
proof -
  have "num_pages st \<noteq> 0" using assms by (auto simp: viewer_ok_def)
  then obtain pages where p: "pv_document st = Some pages" by (auto simp: num_pages_def viewer_pages_def split: option.splits)
  show ?thesis
    using rotate_fold [OF rotation_targets_ok(1) [OF assms]] p assms(2)
    by (auto simp: rotate_selected_pages_def Let_def split_beta)
qed

lemma rotate_keeps:
  "pv_document (rotate_selected_pages zoom d st) = pv_document st" "pv_active (rotate_selected_pages zoom d st) = pv_active st"
  "pv_selected (rotate_selected_pages zoom d st) = pv_selected st" "pv_anchor (rotate_selected_pages zoom d st) = pv_anchor st"
  "ScrollToPage p \<in> set (pv_calls (rotate_selected_pages zoom d st)) \<longleftrightarrow> ScrollToPage p \<in> set (pv_calls st)"
  by (auto simp: rotate_selected_pages_def Let_def split_beta split: option.splits)

lemma rotate_selected_pages_ok:
  assumes "viewer_ok st"
  shows "viewer_ok (rotate_selected_pages zoom d st)"
proof (cases "1 \<le> pv_active st")
  case True
  let ?st = "rotate_selected_pages zoom d st"
  have "set (rotation_targets st) \<subseteq> {..<num_pages st}" by (auto simp: rotation_targets_def Let_def)
  moreover have "dom (pv_deltas ?st) \<subseteq> dom (pv_deltas st) \<union> set (rotation_targets st)"
    by (auto simp: rotate_selected_pages_deltas [OF assms True] split: if_splits)
  ultimately have "dom (pv_deltas ?st) \<subseteq> {..<num_pages st}" using assms unfolding viewer_ok_def by blast
  moreover have "ran (pv_deltas ?st) \<subseteq> {1, 2, 3}"
  proof
    fix v assume "v \<in> ran (pv_deltas ?st)"
    then obtain i where "pv_deltas ?st i = Some v" by (auto simp: ran_def)
    then have "v \<in> ran (pv_deltas st) \<or> (v \<noteq> 0 \<and> (\<exists>r. v = r mod 4))"
      by (auto simp: rotate_selected_pages_deltas [OF assms True] normalize_rotation_mod Let_def ran_def split: if_splits)
    then show "v \<in> {1, 2, 3}" using assms pos_mod_bound [of 4] pos_mod_sign [of 4] unfolding viewer_ok_def by fastforce
  qed
  ultimately show ?thesis using assms by (simp add: viewer_ok_def rotate_keeps num_pages_def viewer_pages_def)
qed (use assms in \<open>auto simp: rotate_selected_pages_def split: option.splits\<close>)

lemma apply_page_draft_bounds: "apply_page_draft numPages s = Some p \<Longrightarrow> 1 \<le> p \<and> p \<le> max numPages 1"
  by (auto simp: apply_page_draft_def Let_def split: if_splits option.splits)

lemma go_to_page_ok:
  assumes "viewer_ok st" "\<And>n. p = Some n \<Longrightarrow> 1 \<le> n \<and> n \<le> num_pages st"
  shows "viewer_ok (go_to_page p st)"
  using assms by (cases p) (auto simp: viewer_ok_def go_to_page_def num_pages_def viewer_pages_def)

lemma viewer_ok_fields [simp]:
  "viewer_ok (st\<lparr>pv_field := f\<rparr>) = viewer_ok st" "viewer_ok (st\<lparr>pv_sidebar := b\<rparr>) = viewer_ok st"
  "viewer_ok (st\<lparr>pv_preparing := b\<rparr>) = viewer_ok st"
  by (simp_all add: viewer_ok_def num_pages_def viewer_pages_def)

text \<open>The field is only edited when there are pages, so what it asks for is one of them.\<close>

definition pdf_viewer_ok :: "pdf_viewer \<Rightarrow> bool" where
  "pdf_viewer_ok st \<longleftrightarrow> viewer_ok st \<and> (pf_editing (pv_field st) \<longrightarrow> num_pages st > 0)"

lemma field_kept:
  "pv_field (sync_selection st) = pv_field st" "pv_field (init_selection st) = pv_field st"
  "pv_field (select_thumbnail_page p mode st) = pv_field st" "pv_field (rotate_selected_pages zoom d st) = pv_field st"
  "pv_field (go_to_page q st) = pv_field st"
  "num_pages (sync_selection st) = num_pages st" "num_pages (init_selection st) = num_pages st"
  "num_pages (select_thumbnail_page p mode st) = num_pages st" "num_pages (rotate_selected_pages zoom d st) = num_pages st"
  "num_pages (go_to_page q st) = num_pages st"
  by (auto simp: sync_selection_def init_selection_def select_thumbnail_page_def rotate_selected_pages_def go_to_page_def Let_def
      num_pages_def viewer_pages_def split_beta split: option.splits)

lemma num_pages_fields [simp]:
  "num_pages (st\<lparr>pv_field := f\<rparr>) = num_pages st" "num_pages (st\<lparr>pv_sidebar := b\<rparr>) = num_pages st"
  "num_pages (st\<lparr>pv_preparing := b\<rparr>) = num_pages st" "num_pages (st\<lparr>pv_active := a\<rparr>) = num_pages st"
  by (simp_all add: num_pages_def viewer_pages_def)

lemma viewer_ok_step:
  assumes "pdf_viewer_ok st" "viewer_step st a = Some st'"
  shows "pdf_viewer_ok st'"
proof -
  note ok = sync_selection_ok init_selection_ok select_thumbnail_page_ok rotate_selected_pages_ok
  have st: "viewer_ok st" "pf_editing (pv_field st) \<Longrightarrow> num_pages st > 0" using assms(1) by (auto simp: pdf_viewer_ok_def)
  show ?thesis
  proof (cases a)
    case (DocumentLoaded pages)
    let ?st = "st\<lparr>pv_document := Some pages\<rparr>"
    from assms(2) DocumentLoaded have new: "pv_document st = None"
      "st' = (if pages = [] then ?st else init_selection (sync_selection ?st))" by (auto simp: Let_def split: if_splits)
    then have "num_pages st = 0" by (simp add: num_pages_def viewer_pages_def)
    then have "viewer_ok ?st" "\<not> pf_editing (pv_field ?st)" using st by (auto simp: viewer_ok_def)
    then show ?thesis using ok by (auto simp: new(2) pdf_viewer_ok_def field_kept)
  next
    case (PageShown p)
    with assms(2) have "st' = init_selection (sync_selection (st\<lparr>pv_active := p\<rparr>))" "p \<le> num_pages st"
      by (auto split: if_splits)
    moreover from this st have "viewer_ok (st\<lparr>pv_active := p\<rparr>)" by (auto simp: viewer_ok_def)
    ultimately show ?thesis using ok st by (auto simp: pdf_viewer_ok_def field_kept)
  next
    case (TypePageNumber s)
    with assms(2) st have n: "num_pages st > 0"
      "st' = go_to_page (apply_page_draft (num_pages st) s) (st\<lparr>pv_field := (pv_field st)\<lparr>pf_draft := s\<rparr>\<rparr>)"
      by (auto simp: change_page_draft_def split: if_splits)
    have "viewer_ok st'" unfolding n(2) using st(1) n(1) apply_page_draft_bounds [of "num_pages st" s]
      by (intro go_to_page_ok) auto
    with n show ?thesis by (auto simp: pdf_viewer_ok_def field_kept)
  qed (use assms st ok in \<open>auto simp: pdf_viewer_ok_def field_kept Let_def split: if_splits option.splits\<close>)
qed

interpretation viewing: machine viewer_step pdf_viewer_start pdf_viewer_ok
proof
  show "pdf_viewer_ok pdf_viewer_start"
    by (simp add: pdf_viewer_ok_def viewer_ok_def pdf_viewer_start_def)
qed (rule viewer_ok_step)

definition displayed_rotation :: "pdf_viewer \<Rightarrow> nat \<Rightarrow> int" where
  "displayed_rotation st i = normalize_rotation (base_rotations (viewer_pages st) ! i + delta_of (pv_deltas st) i)"

definition selected_or_active :: "pdf_viewer \<Rightarrow> nat set" where
  "selected_or_active st = (if pv_selected st \<noteq> {} then pv_selected st else {pv_active st - 1})"

text \<open>
  C30: In every state a viewer can come to, the selection, the anchor and the rotated pages are pages of the document, every
  page asked to be scrolled to is one, and a kept rotation is never a full turn.
\<close>
theorem viewer_stays_in_document:
  assumes "exec viewer_step pdf_viewer_start acts = Some st"
  shows "pv_selected st \<subseteq> {..<num_pages st} \<and> dom (pv_deltas st) \<subseteq> {..<num_pages st} \<and> ran (pv_deltas st) \<subseteq> {1, 2, 3} \<and>
    (\<forall>a. pv_anchor st = Some a \<longrightarrow> a < num_pages st) \<and> (\<forall>p. ScrollToPage p \<in> set (pv_calls st) \<longrightarrow> 1 \<le> p \<and> p \<le> num_pages st)"
  using viewing.inv_exec [OF assms] by (simp add: pdf_viewer_ok_def viewer_ok_def)

lemma delta_after:
  assumes "viewer_ok st" "1 \<le> pv_active st"
  shows "delta_of (pv_deltas (rotate_selected_pages zoom d st)) i =
    (if i \<in> selected_or_active st then normalize_rotation (delta_of (pv_deltas st) i + d) else delta_of (pv_deltas st) i)"
  using rotate_selected_pages_deltas [OF assms, of zoom d i] rotation_targets_ok [OF assms]
  by (simp add: delta_of_def selected_or_active_def Let_def)

lemma delta_range: "viewer_ok st \<Longrightarrow> normalize_rotation (delta_of (pv_deltas st) i) = delta_of (pv_deltas st) i"
  by (auto simp: viewer_ok_def delta_of_def normalize_rotation_mod ran_def split: option.splits)

lemma deltas_eqI:
  assumes "viewer_ok s" "viewer_ok t" "\<And>i. delta_of (pv_deltas s) i = delta_of (pv_deltas t) i"
  shows "pv_deltas s = pv_deltas t"
proof
  fix i
  have "pv_deltas u i = (if delta_of (pv_deltas u) i = 0 then None else Some (delta_of (pv_deltas u) i))" if "viewer_ok u" for u
    using that by (auto simp: viewer_ok_def delta_of_def ran_def split: option.splits)
  with assms show "pv_deltas s i = pv_deltas t i" by metis
qed

text \<open>
  C29: A rotation turns exactly the selected pages, or the page in view when none is selected, by one quarter in its
  direction, and the displayed rotation of every other page stays; rotating back the other way restores the deltas exactly,
  whatever the zoom was meanwhile.
\<close>
theorem rotation_turns_selection:
  assumes "exec viewer_step pdf_viewer_start acts = Some st" "1 \<le> pv_active st"
    and "viewer_step st (RotatePages zoom clockwise) = Some st'"
    and "viewer_step st' (RotatePages zoom' (\<not> clockwise)) = Some st''"
  shows "(\<forall>i < num_pages st. displayed_rotation st' i =
      (if i \<in> selected_or_active st then normalize_rotation (displayed_rotation st i + (if clockwise then 1 else - 1))
       else displayed_rotation st i)) \<and> pv_deltas st'' = pv_deltas st"
proof -
  let ?d = "if clockwise then 1 else - 1 :: int"
  have ok: "viewer_ok st" using viewing.inv_exec [OF assms(1)] by (simp add: pdf_viewer_ok_def)
  have st': "st' = rotate_selected_pages zoom ?d st" "st'' = rotate_selected_pages zoom' (- ?d) st'"
    using assms(3,4) by (auto split: if_splits)
  have ok': "viewer_ok st'" "viewer_ok st''" using ok rotate_selected_pages_ok by (simp_all add: st')
  have kept: "viewer_pages st' = viewer_pages st" "1 \<le> pv_active st'" "selected_or_active st' = selected_or_active st"
    using assms(2) by (simp_all add: st'(1) rotate_keeps viewer_pages_def selected_or_active_def)
  have "displayed_rotation st' i = (if i \<in> selected_or_active st then normalize_rotation (displayed_rotation st i + ?d)
      else displayed_rotation st i)" for i
    using delta_after [OF ok assms(2), of zoom ?d i] unfolding displayed_rotation_def kept(1) st'(1) [symmetric]
    by (simp add: normalize_rotation_mod mod_simps algebra_simps)
  moreover have "delta_of (pv_deltas st'') i = delta_of (pv_deltas st) i" for i
    using delta_after [OF ok assms(2), of zoom ?d i] delta_after [OF ok'(1) kept(2), of zoom' "- ?d" i] delta_range [OF ok, of i]
    unfolding kept(3) st' [symmetric] by (auto simp: normalize_rotation_mod mod_simps split: if_splits)
  ultimately show ?thesis using deltas_eqI [OF ok'(2) ok] by simp
qed

lemma one_page_run:
  "\<exists>st st' st''. exec viewer_step pdf_viewer_start [DocumentLoaded [\<lparr>pg_width = 2, pg_height = 3, pg_rotation = 0\<rparr>], PageShown 1] = Some st \<and>
    1 \<le> pv_active st \<and> 0 < num_pages st \<and> viewer_step st (RotatePages 1 True) = Some st' \<and> viewer_step st' (RotatePages 1 (\<not> True)) = Some st''"
proof -
  let ?st0 = "sync_selection (pdf_viewer_start\<lparr>pv_document := Some [\<lparr>pg_width = 2, pg_height = 3, pg_rotation = 0\<rparr>]\<rparr>)"
  let ?st = "init_selection (sync_selection (init_selection ?st0\<lparr>pv_active := 1\<rparr>))"
  have keeps: "pv_active (init_selection s) = pv_active s" "pv_active (sync_selection s) = pv_active s" for s
    by (simp_all add: init_selection_def sync_selection_def Let_def)
  have n: "num_pages ?st = 1" by (simp add: field_kept num_pages_def [of "pdf_viewer_start\<lparr>pv_document := _\<rparr>"] viewer_pages_def)
  have "exec viewer_step pdf_viewer_start [DocumentLoaded [\<lparr>pg_width = 2, pg_height = 3, pg_rotation = 0\<rparr>], PageShown 1] = Some ?st"
    using n by (simp add: keeps field_kept) (simp add: pdf_viewer_start_def)
  moreover have "viewer_step ?st (RotatePages 1 True) = Some (rotate_selected_pages 1 1 ?st)"
    "viewer_step (rotate_selected_pages 1 1 ?st) (RotatePages 1 False) = Some (rotate_selected_pages 1 (- 1) (rotate_selected_pages 1 1 ?st))"
    using n by (simp_all add: field_kept)
  moreover have "1 \<le> pv_active ?st" by (simp add: keeps)
  ultimately show ?thesis using n by auto
qed

theorem rotation_turns_selection_witness:
  "\<exists>acts st st'. exec viewer_step pdf_viewer_start acts = Some st \<and> viewer_step st (RotatePages 1 True) = Some st' \<and> 0 < num_pages st \<and>
    displayed_rotation st' 0 = (if 0 \<in> selected_or_active st then normalize_rotation (displayed_rotation st 0 + 1) else displayed_rotation st 0)"
proof -
  obtain st st' st'' where r: "exec viewer_step pdf_viewer_start [DocumentLoaded [\<lparr>pg_width = 2, pg_height = 3, pg_rotation = 0\<rparr>], PageShown 1] = Some st"
    "1 \<le> pv_active st" "0 < num_pages st" "viewer_step st (RotatePages 1 True) = Some st'" "viewer_step st' (RotatePages 1 (\<not> True)) = Some st''"
    using one_page_run by blast
  from rotation_turns_selection [OF r(1,2,4,5)] r(3) have "displayed_rotation st' 0 =
      (if 0 \<in> selected_or_active st then normalize_rotation (displayed_rotation st 0 + 1) else displayed_rotation st 0)" by simp
  with r show ?thesis by blast
qed

theorem viewer_stays_in_document_witness:
  "\<exists>acts st. exec viewer_step pdf_viewer_start acts = Some st \<and> 0 < num_pages st \<and> pv_selected st \<subseteq> {..<num_pages st}"
proof -
  obtain st where r: "exec viewer_step pdf_viewer_start [DocumentLoaded [\<lparr>pg_width = 2, pg_height = 3, pg_rotation = 0\<rparr>], PageShown 1] = Some st"
    "0 < num_pages st" using one_page_run by blast
  with viewer_stays_in_document [OF r(1)] show ?thesis by blast
qed

text \<open>The zoom buttons take the next option, and one of them is disabled only at its end.\<close>

lemma zoom_in_next: "zoom_in current = Some z \<Longrightarrow> z \<in> set zoom_options \<and> current < z \<and> (\<forall>v\<in>set zoom_options. current < v \<longrightarrow> z \<le> v)"
  by (auto simp: zoom_in_def zoom_options_def split: if_splits)

lemma zoom_out_next: "zoom_out current = Some z \<Longrightarrow> z \<in> set zoom_options \<and> z < current \<and> (\<forall>v\<in>set zoom_options. v < current \<longrightarrow> v \<le> z)"
  by (auto simp: zoom_out_def zoom_options_def split: if_splits)

lemma shown_zoom_options_sorted: "sorted (shown_zoom_options z) \<and> distinct (shown_zoom_options z) \<and> two_digits z \<in> set (shown_zoom_options z)"
proof -
  have "sorted zoom_options" "distinct zoom_options" by (simp_all add: zoom_options_def)
  then show ?thesis by (auto simp: shown_zoom_options_def sorted_insort distinct_insort set_insort_key)
qed

end
