(* ===== verification/PdfSearch.thy ===== *)
theory PdfSearch
  imports PdfPages
begin

text \<open>
  The search popover of the PDF viewer (PDFViewerSearchControl of web/src/components/extend/pdf-viewer.tsx).

  The search itself belongs to the engine: how many results it has and which of them is the active one are reports of it,
  an answer brings the page of its first result, and the popover keeps the calls it made. A popover whose engine has no
  search yet makes no calls.
\<close>

datatype search_call = StartSearch | StopSearch | SearchAllPages string | GoToResult nat | ShowPage nat | NextFound | PreviousFound

record pdf_search =
  ps_draft :: string
  ps_query :: string
  ps_searching :: bool
  ps_request :: nat
  ps_timer :: "string option"
  ps_pending :: "nat list"
  ps_provided :: bool
  ps_total :: nat
  ps_result :: nat
  ps_calls :: "search_call list"

definition pdf_search_start :: pdf_search where
  "pdf_search_start =
     \<lparr>ps_draft = [], ps_query = [], ps_searching = False, ps_request = 0, ps_timer = None, ps_pending = [], ps_provided = False,
      ps_total = 0, ps_result = 0, ps_calls = []\<rparr>"

definition pdf_search_label :: "pdf_search \<Rightarrow> string" where
  "pdf_search_label st =
     (if ps_total st \<noteq> 0 then show_nat (ps_result st + 1) @ '' / '' @ show_nat (ps_total st)
      else if ps_searching st then ''Searching''
      else if js_trim (ps_query st) = [] then ''No search''
      else ''No results'')"

definition calls :: "search_call list \<Rightarrow> pdf_search \<Rightarrow> pdf_search" where
  "calls cs st = st\<lparr>ps_calls := ps_calls st @ cs\<rparr>"

definition run_pdf_search :: "string \<Rightarrow> pdf_search \<Rightarrow> pdf_search" where
  "run_pdf_search rawQuery st =
     (let query = js_trim rawQuery; st' = st\<lparr>ps_request := ps_request st + 1, ps_query := query\<rparr>
      in if \<not> ps_provided st then st'\<lparr>ps_searching := False\<rparr>
         else if query = [] then calls [StopSearch] (st'\<lparr>ps_searching := False\<rparr>)
         else calls [StartSearch, SearchAllPages query]
                (st'\<lparr>ps_searching := True, ps_pending := ps_request st' # ps_pending st\<rparr>))"

definition pdf_draft_effect :: "pdf_search \<Rightarrow> pdf_search" where
  "pdf_draft_effect st = st\<lparr>ps_timer := (if js_trim (ps_draft st) = [] then None else Some (ps_draft st))\<rparr>"

definition stop_if_provided :: "pdf_search \<Rightarrow> pdf_search" where
  "stop_if_provided st = (if ps_provided st then calls [StopSearch] st else st)"

definition change_pdf_draft :: "string \<Rightarrow> pdf_search \<Rightarrow> pdf_search" where
  "change_pdf_draft nextDraft st =
     pdf_draft_effect
       (let st' = st\<lparr>ps_draft := nextDraft\<rparr>
        in if js_trim nextDraft \<noteq> [] then st'\<lparr>ps_searching := True\<rparr>
           else stop_if_provided (st'\<lparr>ps_request := ps_request st + 1, ps_query := [], ps_searching := False\<rparr>))"

definition clear_pdf_search :: "pdf_search \<Rightarrow> pdf_search" where
  "clear_pdf_search st =
     pdf_draft_effect
       (stop_if_provided (st\<lparr>ps_request := ps_request st + 1, ps_draft := [], ps_query := [], ps_searching := False\<rparr>))"

text \<open>Moving to the next or previous result asks the engine for its index and shows that result's page, if it is there.\<close>

definition navigate_results :: "bool \<Rightarrow> nat option \<Rightarrow> pdf_search \<Rightarrow> pdf_search" where
  "navigate_results forward page st =
     (if \<not> ps_provided st \<or> ps_total st = 0 then st
      else calls ((if forward then NextFound else PreviousFound) # (case page of Some p \<Rightarrow> [ShowPage p] | None \<Rightarrow> [])) st)"

text \<open>An answer: the page number of the first result, no result, or an error.\<close>

definition pdf_search_settled :: "nat \<Rightarrow> js_error + nat option \<Rightarrow> pdf_search \<Rightarrow> pdf_search option" where
  "pdf_search_settled n answer st =
     (if n \<notin> set (ps_pending st) then None
      else (let st' = st\<lparr>ps_pending := filter (\<lambda>m. m \<noteq> n) (ps_pending st)\<rparr>
            in Some (if ps_request st \<noteq> n then st'
                     else (case answer of
                             Inr (Some page) \<Rightarrow> calls [GoToResult 0, ShowPage page] st'
                           | _ \<Rightarrow> st')\<lparr>ps_searching := False\<rparr>)))"

datatype pdf_search_action =
    ChangePdfDraft string
  | PdfSearchTimer
  | PdfSearchEnter bool "nat option"
  | PreviousButton "nat option"
  | NextButton "nat option"
  | ClearPdfSearch
  | PdfSearchSettled nat "js_error + nat option"
  | SearchProvided bool
  | EngineReport nat nat

fun pdf_search_step :: "pdf_search \<Rightarrow> pdf_search_action \<Rightarrow> pdf_search option" where
  "pdf_search_step st (ChangePdfDraft nextDraft) = (if nextDraft = ps_draft st then None else Some (change_pdf_draft nextDraft st))"
| "pdf_search_step st PdfSearchTimer =
     (case ps_timer st of None \<Rightarrow> None | Some draft \<Rightarrow> Some (run_pdf_search draft (st\<lparr>ps_timer := None\<rparr>)))"
| "pdf_search_step st (PdfSearchEnter shift page) =
     Some (if shift \<and> ps_total st \<noteq> 0 then navigate_results False page st
           else if ps_total st \<noteq> 0 then navigate_results True page st
           else if js_trim (ps_draft st) \<noteq> [] then run_pdf_search (ps_draft st) st else st)"
| "pdf_search_step st (PreviousButton page) =
     (if ps_searching st \<or> ps_total st = 0 then None else Some (navigate_results False page st))"
| "pdf_search_step st (NextButton page) =
     (if ps_searching st \<or> ps_total st = 0 then None else Some (navigate_results True page st))"
| "pdf_search_step st ClearPdfSearch = Some (clear_pdf_search st)"
| "pdf_search_step st (PdfSearchSettled n answer) = pdf_search_settled n answer st"
| "pdf_search_step st (SearchProvided b) = Some (st\<lparr>ps_provided := b\<rparr>)"
| "pdf_search_step st (EngineReport n i) = Some (st\<lparr>ps_total := n, ps_result := i\<rparr>)"

section \<open>The popover comes to rest with the query it shows\<close>

text \<open>
  The draft is either still to be searched for, with its timer running, or it is the query; a search under way has a timer
  or an answer to come.
\<close>

definition pdf_search_ok :: "pdf_search \<Rightarrow> bool" where
  "pdf_search_ok st \<longleftrightarrow>
     (case ps_timer st of Some draft \<Rightarrow> draft = ps_draft st \<and> js_trim draft \<noteq> [] | None \<Rightarrow> ps_query st = js_trim (ps_draft st)) \<and>
     (ps_searching st \<longrightarrow> ps_timer st \<noteq> None \<or> ps_request st \<in> set (ps_pending st)) \<and>
     (\<forall>n\<in>set (ps_pending st). n \<le> ps_request st)"

lemma calls_fields [simp]:
  "ps_draft (calls cs st) = ps_draft st" "ps_query (calls cs st) = ps_query st" "ps_searching (calls cs st) = ps_searching st"
  "ps_request (calls cs st) = ps_request st" "ps_timer (calls cs st) = ps_timer st" "ps_pending (calls cs st) = ps_pending st"
  "ps_provided (calls cs st) = ps_provided st" "ps_total (calls cs st) = ps_total st"
  by (simp_all add: calls_def)

lemma pdf_search_ok_calls [simp]: "pdf_search_ok (calls cs st) = pdf_search_ok st"
  by (simp add: pdf_search_ok_def split: option.splits)

lemma pdf_search_ok_navigate [simp]: "pdf_search_ok (navigate_results f p st) = pdf_search_ok st"
  by (simp add: navigate_results_def)

lemma pdf_search_ok_run:
  assumes "pdf_search_ok st" "js_trim (ps_draft st) \<noteq> []" "t = ps_timer st \<or> t = None"
  shows "pdf_search_ok (run_pdf_search (ps_draft st) (st\<lparr>ps_timer := t\<rparr>))"
  using assms by (auto simp: pdf_search_ok_def run_pdf_search_def Let_def split: option.splits)

lemma pdf_search_ok_change: "pdf_search_ok st \<Longrightarrow> pdf_search_ok (change_pdf_draft nextDraft st)"
  by (auto simp: pdf_search_ok_def change_pdf_draft_def pdf_draft_effect_def stop_if_provided_def Let_def)

lemma pdf_search_ok_clear: "pdf_search_ok st \<Longrightarrow> pdf_search_ok (clear_pdf_search st)"
  by (auto simp: pdf_search_ok_def clear_pdf_search_def pdf_draft_effect_def stop_if_provided_def)

lemma pdf_search_ok_settled:
  assumes "pdf_search_ok st" "pdf_search_settled n answer st = Some st'"
  shows "pdf_search_ok st'"
  using assms by (auto simp: pdf_search_ok_def pdf_search_settled_def Let_def split: if_splits sum.splits option.splits)

lemma pdf_search_ok_step:
  assumes "pdf_search_ok st" "pdf_search_step st a = Some st'"
  shows "pdf_search_ok st'"
proof (cases a)
  case PdfSearchTimer
  with assms(2) obtain d where d: "ps_timer st = Some d" "st' = run_pdf_search d (st\<lparr>ps_timer := None\<rparr>)"
    by (auto split: option.splits)
  with assms(1) have "d = ps_draft st" "js_trim (ps_draft st) \<noteq> []" by (auto simp: pdf_search_ok_def)
  with pdf_search_ok_run [OF assms(1), of None] d show ?thesis by simp
next
  case (PdfSearchEnter shift page)
  with assms show ?thesis using pdf_search_ok_run [of st "ps_timer st"] by (auto split: if_splits)
next
  case (SearchProvided b)
  with assms show ?thesis by (auto simp: pdf_search_ok_def split: option.splits)
next
  case (EngineReport n i)
  with assms show ?thesis by (auto simp: pdf_search_ok_def split: option.splits)
qed (use assms pdf_search_ok_change pdf_search_ok_clear pdf_search_ok_settled in \<open>auto split: if_splits\<close>)

definition pdf_search_work :: "pdf_search \<Rightarrow> nat" where
  "pdf_search_work st = (if ps_timer st = None then 0 else 2) + length (ps_pending st)"

definition pdf_search_awaited :: "pdf_search_action \<Rightarrow> bool" where
  "pdf_search_awaited a = (case a of PdfSearchTimer \<Rightarrow> True | PdfSearchSettled _ _ \<Rightarrow> True | _ \<Rightarrow> False)"

lemma pdf_search_awaited_step:
  assumes "pdf_search_awaited a" "pdf_search_step st a = Some st'"
  shows "pdf_search_work st' < pdf_search_work st"
proof (cases a)
  case PdfSearchTimer
  with assms(2) show ?thesis by (auto simp: pdf_search_work_def run_pdf_search_def Let_def split: option.splits if_splits)
next
  case (PdfSearchSettled n answer)
  with assms(2) have "n \<in> set (ps_pending st)" by (auto simp: pdf_search_settled_def split: if_splits)
  then have "length (filter (\<lambda>m. m \<noteq> n) (ps_pending st)) < length (ps_pending st)" by (intro length_filter_less [of n]) auto
  with PdfSearchSettled assms(2) show ?thesis
    by (auto simp: pdf_search_work_def pdf_search_settled_def Let_def split: if_splits sum.splits option.splits)
qed (use assms in \<open>auto simp: pdf_search_awaited_def\<close>)

lemma pdf_search_work_awaited:
  assumes "pdf_search_work st \<noteq> 0"
  shows "\<exists>a st'. pdf_search_awaited a \<and> pdf_search_step st a = Some st'"
proof (cases "ps_timer st")
  case None
  with assms obtain n ns where "ps_pending st = n # ns" by (cases "ps_pending st") (auto simp: pdf_search_work_def)
  then have "pdf_search_awaited (PdfSearchSettled n (Inr None)) \<and> pdf_search_step st (PdfSearchSettled n (Inr None)) \<noteq> None"
    by (simp add: pdf_search_settled_def pdf_search_awaited_def Let_def)
  then show ?thesis by blast
next
  case (Some d)
  then have "pdf_search_awaited PdfSearchTimer \<and> pdf_search_step st PdfSearchTimer \<noteq> None" by (simp add: pdf_search_awaited_def)
  then show ?thesis by blast
qed

interpretation pdf_search: resting_machine pdf_search_step pdf_search_start pdf_search_ok pdf_search_awaited pdf_search_work
proof
  show "pdf_search_ok pdf_search_start" by (simp add: pdf_search_ok_def pdf_search_start_def)
qed (rule pdf_search_ok_step pdf_search_awaited_step pdf_search_work_awaited; assumption)+

text \<open>
  Left alone, the search of a PDF comes to rest after as many steps as the timer and the answers that are out account
  for; then the popover does not say it is searching, and the query it speaks of is the text in its field.
\<close>
theorem pdf_search_comes_to_rest:
  assumes "exec pdf_search_step pdf_search_start acts = Some st"
    and "list_all pdf_search_awaited waits" "exec pdf_search_step st waits = Some st'"
  shows "length waits + pdf_search_work st' \<le> pdf_search_work st \<and>
    ((\<nexists>a st''. pdf_search_awaited a \<and> pdf_search_step st' a = Some st'') \<longrightarrow>
       \<not> ps_searching st' \<and> ps_query st' = js_trim (ps_draft st'))"
proof -
  note r = pdf_search.rests [OF assms]
  have "\<not> ps_searching st' \<and> ps_query st' = js_trim (ps_draft st')" if "pdf_search_ok st' \<and> pdf_search_work st' = 0"
    using that by (auto simp: pdf_search_ok_def pdf_search_work_def split: if_splits)
  with r show ?thesis by blast
qed

theorem pdf_search_comes_to_rest_witness:
  "\<exists>acts st st'. exec pdf_search_step pdf_search_start acts = Some st \<and>
    exec pdf_search_step st [PdfSearchTimer, PdfSearchSettled 1 (Inr None)] = Some st' \<and>
    2 + pdf_search_work st' \<le> pdf_search_work st"
proof -
  have "\<exists>st st'. exec pdf_search_step pdf_search_start [SearchProvided True, ChangePdfDraft ''a''] = Some st \<and>
      exec pdf_search_step st [PdfSearchTimer, PdfSearchSettled 1 (Inr None)] = Some st'"
    by (simp add: pdf_search_start_def change_pdf_draft_def pdf_draft_effect_def run_pdf_search_def pdf_search_settled_def
        js_trim_def is_ws_def calls_def Let_def)
  then obtain st st' where r: "exec pdf_search_step pdf_search_start [SearchProvided True, ChangePdfDraft ''a''] = Some st"
      "exec pdf_search_step st [PdfSearchTimer, PdfSearchSettled 1 (Inr None)] = Some st'" by blast
  from pdf_search_comes_to_rest [OF r(1) _ r(2)] r show ?thesis
    by (intro exI [of _ "[SearchProvided True, ChangePdfDraft ''a'']"] exI [of _ st] exI [of _ st']) (simp add: pdf_search_awaited_def)
qed

text \<open>
  Typing on does not turn away the answer of the last search: while the new draft waits for its timer, the old answer ends
  the search and scrolls the document to a result of the query that is no longer there.
\<close>

lemma old_answer_scrolls:
  "\<exists>st. exec pdf_search_step pdf_search_start
      [SearchProvided True, ChangePdfDraft ''a'', PdfSearchTimer, ChangePdfDraft ''ab'', PdfSearchSettled 1 (Inr (Some 7))] = Some st \<and>
    last (ps_calls st) = ShowPage 7 \<and> \<not> ps_searching st \<and> ps_query st \<noteq> js_trim (ps_draft st) \<and> ps_timer st = Some ''ab''"
  by (simp add: pdf_search_start_def change_pdf_draft_def pdf_draft_effect_def run_pdf_search_def pdf_search_settled_def
      js_trim_def is_ws_def calls_def Let_def)

end
