(* ===== verification/PdfSource.thy ===== *)
theory PdfSource
  imports DocumentNames "HOL-Library.Word"
begin

text \<open>
  What the PDF editor is given and gives away (web/src/components/extend/pdf-editor.tsx): the source it edits, which comes
  from its properties, from files that are still being read and from uploads, and the export of annotations with its
  base64 text.

  A file that is read, and an uploaded one, is a pending reading; when and in which order readings end is the run's. A
  value given as \<open>src\<close> carries a number that stands for its identity.
\<close>

section \<open>The source that is edited\<close>

datatype editor_src = NoSrc | SrcUrl string | SrcBytes nat "8 word list" | SrcBlob nat "string option"

record source_input =
  si_src :: editor_src
  si_file_name :: "string option"
  si_version :: nat

datatype source_key = InputKey nat | FreshKey nat

datatype source_content = UrlContent string | BufferContent "8 word list"

record editor_source =
  es_key :: source_key
  es_content :: source_content
  es_name :: string

definition bytes_to_array_buffer :: "8 word list \<Rightarrow> 8 word list" where
  "bytes_to_array_buffer bytes = bytes"

definition immediate_source :: "source_input \<Rightarrow> editor_source option" where
  "immediate_source inp =
     (case si_src inp of
        SrcUrl url \<Rightarrow> Some \<lparr>es_key = InputKey (si_version inp), es_content = UrlContent url, es_name = get_pdf_file_name (si_file_name inp) (Some url)\<rparr>
      | SrcBytes _ bytes \<Rightarrow>
          Some \<lparr>es_key = InputKey (si_version inp), es_content = BufferContent (bytes_to_array_buffer bytes),
                es_name = get_pdf_file_name (si_file_name inp) None\<rparr>
      | _ \<Rightarrow> None)"

text \<open>The input, what was resolved for which input, the blobs being read, the uploads being read, and the key counter.\<close>

record source_state =
  ss_input :: source_input
  ss_resolved :: "(source_input \<times> editor_source) option"
  ss_reads :: "source_input list"
  ss_uploads :: "(source_input \<times> string) list"
  ss_counter :: nat

definition blob_name :: "source_input \<Rightarrow> string option" where
  "blob_name inp = (case si_file_name inp of Some n \<Rightarrow> Some n | None \<Rightarrow> (case si_src inp of SrcBlob _ n \<Rightarrow> n | _ \<Rightarrow> None))"

definition read_blob_effect :: "source_state \<Rightarrow> source_state" where
  "read_blob_effect st = (case si_src (ss_input st) of SrcBlob _ _ \<Rightarrow> st\<lparr>ss_reads := ss_reads st @ [ss_input st]\<rparr> | _ \<Rightarrow> st)"

definition source_start :: "editor_src \<Rightarrow> string option \<Rightarrow> source_state" where
  "source_start src fileName =
     read_blob_effect \<lparr>ss_input = \<lparr>si_src = src, si_file_name = fileName, si_version = 0\<rparr>, ss_resolved = None, ss_reads = [],
       ss_uploads = [], ss_counter = 0\<rparr>"

definition resolve_source :: "source_input \<Rightarrow> 8 word list \<Rightarrow> string \<Rightarrow> source_state \<Rightarrow> source_state" where
  "resolve_source inp buffer name st =
     st\<lparr>ss_counter := ss_counter st + 1,
        ss_resolved := Some (inp, \<lparr>es_key = FreshKey (ss_counter st + 1), es_content = BufferContent buffer, es_name = name\<rparr>)\<rparr>"

definition current_source :: "source_state \<Rightarrow> editor_source option" where
  "current_source st =
     (case ss_resolved st of
        Some (inp, source) \<Rightarrow> if inp = ss_input st then Some source else immediate_source (ss_input st)
      | None \<Rightarrow> immediate_source (ss_input st))"

definition is_blob :: "editor_src \<Rightarrow> bool" where
  "is_blob src = (case src of SrcBlob _ _ \<Rightarrow> True | _ \<Rightarrow> False)"

definition source_loading :: "source_state \<Rightarrow> bool" where
  "source_loading st \<longleftrightarrow> is_blob (si_src (ss_input st)) \<and> current_source st = None"

text \<open>
  An upload keeps the \<open>replace\<close> of the render it was chosen in, and with it that render's input; its end is not checked
  against anything. Flattening replaces the document in the same way.
\<close>

datatype source_action =
    NewProps editor_src "string option"
  | BlobRead nat "8 word list"
  | BlobUnreadable nat
  | UploadChosen string
  | UploadRead nat "8 word list"

definition drop_nth :: "nat \<Rightarrow> 'a list \<Rightarrow> 'a list" where
  "drop_nth i xs = take i xs @ drop (i + 1) xs"

fun source_step :: "source_state \<Rightarrow> source_action \<Rightarrow> source_state option" where
  "source_step st (NewProps src fileName) =
     (if si_src (ss_input st) = src \<and> si_file_name (ss_input st) = fileName then None
      else Some (read_blob_effect (st\<lparr>ss_input := \<lparr>si_src = src, si_file_name = fileName, si_version = si_version (ss_input st) + 1\<rparr>\<rparr>)))"
| "source_step st (BlobRead i buffer) =
     (if i < length (ss_reads st)
      then (let inp = ss_reads st ! i; st' = st\<lparr>ss_reads := drop_nth i (ss_reads st)\<rparr>
            in Some (if inp \<noteq> ss_input st then st' else resolve_source inp buffer (get_pdf_file_name (blob_name inp) None) st'))
      else None)"
| "source_step st (BlobUnreadable i) =
     (if i < length (ss_reads st) then Some (st\<lparr>ss_reads := drop_nth i (ss_reads st)\<rparr>) else None)"
| "source_step st (UploadChosen name) = Some (st\<lparr>ss_uploads := ss_uploads st @ [(ss_input st, name)]\<rparr>)"
| "source_step st (UploadRead i buffer) =
     (if i < length (ss_uploads st)
      then (let (inp, name) = ss_uploads st ! i
            in Some (resolve_source inp buffer (get_pdf_file_name (Some name) None) (st\<lparr>ss_uploads := drop_nth i (ss_uploads st)\<rparr>)))
      else None)"

section \<open>Base64\<close>

definition base64_alphabet :: string where
  "base64_alphabet = ''ABCDEFGHIJKLMNOPQRSTUVWXYZabcdefghijklmnopqrstuvwxyz0123456789+/''"

text \<open>Groups of three bytes as four sextets and back; what is left over has two or three sextets.\<close>

fun sextets :: "nat list \<Rightarrow> nat list" where
  "sextets [] = []"
| "sextets [a] = [a div 4, a mod 4 * 16]"
| "sextets [a, b] = [a div 4, a mod 4 * 16 + b div 16, b mod 16 * 4]"
| "sextets (a # b # c # bs) = a div 4 # (a mod 4 * 16 + b div 16) # (b mod 16 * 4 + c div 64) # c mod 64 # sextets bs"

fun unsextets :: "nat list \<Rightarrow> nat list" where
  "unsextets (a # b # c # d # ss) = (a * 4 + b div 16) # (b mod 16 * 16 + c div 4) # (c mod 4 * 64 + d) # unsextets ss"
| "unsextets [a, b, c] = [a * 4 + b div 16, b mod 16 * 16 + c div 4]"
| "unsextets [a, b] = [a * 4 + b div 16]"
| "unsextets [a] = []"
| "unsextets [] = []"

definition btoa :: "string \<Rightarrow> string" where
  "btoa s =
     map (\<lambda>n. base64_alphabet ! n) (sextets (map of_char s)) @ replicate ((3 - length s mod 3) mod 3) (CHR ''='')"

definition ascii_ws :: "char \<Rightarrow> bool" where
  "ascii_ws c \<longleftrightarrow> (of_char c :: nat) \<in> {9, 10, 12, 13, 32}"

definition strip_padding :: "string \<Rightarrow> string" where
  "strip_padding s =
     (if length s mod 4 \<noteq> 0 then s
      else if ends_with s ''=='' then take (length s - 2) s
      else if ends_with s ''='' then take (length s - 1) s
      else s)"

definition atob :: "string \<Rightarrow> string option" where
  "atob text_value =
     (let s = strip_padding (filter (\<lambda>c. \<not> ascii_ws c) text_value)
      in if length s mod 4 = 1 \<or> \<not> set s \<subseteq> set base64_alphabet then None
         else Some (map char_of (unsextets (map (\<lambda>c. the (find_index (\<lambda>x. x = c) base64_alphabet)) s))))"

definition array_buffer_to_base64 :: "8 word list \<Rightarrow> string" where
  "array_buffer_to_base64 bytes = btoa (concat (map (map (\<lambda>b. char_of (unat b))) (chunks 32768 bytes)))"

definition base64_to_array_buffer :: "string \<Rightarrow> 8 word list option" where
  "base64_to_array_buffer s = map_option (map (\<lambda>c. of_nat (of_char c))) (atob s)"

section \<open>Exported annotations\<close>

text \<open>An annotation is an object of the engine; its context may hold data that is an array buffer and a type.\<close>

record 'a transfer_item =
  ti_annotation :: 'a
  ti_ctx :: "(8 word list option \<times> string option) option"

record 'a serialized_item =
  sz_annotation :: "'a option"
  sz_ctx :: "(string option \<times> string option) option"

definition serialize_annotation_items :: "'a transfer_item list \<Rightarrow> 'a serialized_item list" where
  "serialize_annotation_items items =
     map (\<lambda>item. \<lparr>sz_annotation = Some (ti_annotation item),
            sz_ctx = (case ti_ctx item of
                        Some (Some bytes, mime) \<Rightarrow> Some (Some (array_buffer_to_base64 bytes), mime)
                      | _ \<Rightarrow> None)\<rparr>) items"

text \<open>What the JSON of a file may be: a list, an object whose \<open>annotations\<close> is a list, or neither; an entry may be no object.\<close>

datatype 'a payload = PayloadList "'a serialized_item option list" | PayloadAnnotations "'a serialized_item option list" | PayloadOther

definition unrecognized :: js_error where "unrecognized = JsError ''Unrecognized annotation export.''"

definition deserialize_item :: "'a serialized_item option \<Rightarrow> js_error + 'a transfer_item" where
  "deserialize_item entry =
     (case entry of
        None \<Rightarrow> Inl unrecognized
      | Some item \<Rightarrow>
          (case sz_annotation item of
             None \<Rightarrow> Inl unrecognized
           | Some a \<Rightarrow>
               (case sz_ctx item of
                  Some (data, mime) \<Rightarrow>
                    if falsy data then Inr \<lparr>ti_annotation = a, ti_ctx = None\<rparr>
                    else (case base64_to_array_buffer (the data) of
                            None \<Rightarrow> Inl (JsError ''The string to be decoded is not correctly encoded.'')
                          | Some bytes \<Rightarrow> Inr \<lparr>ti_annotation = a, ti_ctx = Some (Some bytes, mime)\<rparr>)
                | None \<Rightarrow> Inr \<lparr>ti_annotation = a, ti_ctx = None\<rparr>)))"

fun deserialize_entries :: "'a serialized_item option list \<Rightarrow> js_error + 'a transfer_item list" where
  "deserialize_entries [] = Inr []"
| "deserialize_entries (e # es) =
     (case deserialize_item e of Inl err \<Rightarrow> Inl err | Inr item \<Rightarrow> map_sum id ((#) item) (deserialize_entries es))"

definition deserialize_annotation_items :: "'a payload \<Rightarrow> js_error + 'a transfer_item list" where
  "deserialize_annotation_items p =
     (case p of PayloadList es \<Rightarrow> deserialize_entries es | PayloadAnnotations es \<Rightarrow> deserialize_entries es | PayloadOther \<Rightarrow> Inl unrecognized)"

text \<open>What a user is told about an export and an import.\<close>

definition counted_annotations :: "string \<Rightarrow> nat \<Rightarrow> string" where
  "counted_annotations verb n = verb @ '' '' @ show_nat n @ '' annotation'' @ (if n = 1 then [] else ''s'') @ ''.''"

definition import_annotations :: "js_error + 'a payload \<Rightarrow> 'a transfer_item list option \<times> string" where
  "import_annotations file =
     (case (case file of Inl e \<Rightarrow> Inl e | Inr p \<Rightarrow> deserialize_annotation_items p) of
        Inr items \<Rightarrow> (Some items, counted_annotations ''Imported'' (length items))
      | Inl _ \<Rightarrow> (None, ''The file is not a valid annotation export.''))"

section \<open>Base64 round trip\<close>

lemma unsextets_sextets: "list_all (\<lambda>b. b < 256) bs \<Longrightarrow> unsextets (sextets bs) = bs"
  by (induction bs rule: sextets.induct) (auto; presburger)+

lemma sextets_range: "list_all (\<lambda>b. b < 256) bs \<Longrightarrow> list_all (\<lambda>s. s < 64) (sextets bs)"
  by (induction bs rule: sextets.induct) (auto; presburger)+

lemma length_sextets: "length (sextets bs) mod 4 = (if length bs mod 3 = 0 then 0 else length bs mod 3 + 1)"
proof (induction bs rule: sextets.induct)
  case (4 a b c bs)
  moreover have "length bs mod 3 = 0 \<or> length bs mod 3 = 1 \<or> length bs mod 3 = 2" by presburger
  ultimately show ?case by (auto simp: mod_Suc)
qed simp_all

lemma alphabet_facts:
  "length base64_alphabet = 64" "distinct base64_alphabet" "CHR ''='' \<notin> set base64_alphabet" "\<forall>c\<in>set base64_alphabet. \<not> ascii_ws c"
  by (simp add: base64_alphabet_def) (code_simp | simp add: base64_alphabet_def ascii_ws_def)+

lemma find_index_nth: "distinct xs \<Longrightarrow> n < length xs \<Longrightarrow> find_index (\<lambda>x. x = xs ! n) xs = Some n"
proof (induction xs arbitrary: n)
  case (Cons x xs)
  then show ?case by (cases n) auto
qed simp

lemma ends_with_last: "ends_with s [c] \<longleftrightarrow> s \<noteq> [] \<and> last s = c"
  by (cases s rule: rev_cases) (auto simp: ends_with_def)

lemma ends_with_two: "ends_with s [c, c] \<longleftrightarrow> (\<exists>t. s = t @ [c, c])"
  by (auto simp: ends_with_def) (metis append_take_drop_id)

lemma strip_padding_undoes:
  assumes "c \<notin> set t" "c = CHR ''=''" "length t mod 4 = (if k = 0 then 0 else 4 - k)" "k \<le> 2"
  shows "strip_padding (t @ replicate k c) = t"
proof -
  have four: "length (t @ replicate k c) mod 4 = 0" using assms(3,4) by (auto simp: mod_add_eq split: if_splits) presburger+
  have no: "\<not> ends_with t [c]" using assms(1) by (auto simp: ends_with_last)
  consider "k = 0" | "k = 1" | "k = 2" using assms(4) by linarith
  then show ?thesis
  proof cases
    case 1
    have "\<not> ends_with t [c, c]" using assms(1) by (auto simp: ends_with_two)
    with 1 four no assms(2) show ?thesis by (simp add: strip_padding_def)
  next
    case 2
    have "\<not> ends_with (t @ [c]) [c, c]" using assms(1) by (auto simp: ends_with_two append_eq_append_conv2 Cons_eq_append_conv)
    with 2 four assms(2) show ?thesis by (simp add: strip_padding_def ends_with_last)
  next
    case 3
    have "ends_with (t @ [c, c]) [c, c]" by (auto simp: ends_with_two)
    with 3 four assms(2) show ?thesis by (simp add: strip_padding_def numeral_2_eq_2)
  qed
qed

lemma atob_btoa: "atob (btoa s) = Some s"
proof -
  let ?bs = "map of_char s :: nat list" and ?k = "(3 - length s mod 3) mod 3"
  let ?t = "map (\<lambda>n. base64_alphabet ! n) (sextets ?bs)"
  have bytes: "list_all (\<lambda>b. b < 256) ?bs" by (simp add: list_all_iff)
  have range: "list_all (\<lambda>n. n < 64) (sextets ?bs)" using sextets_range [OF bytes] .
  have inside: "set ?t \<subseteq> set base64_alphabet"
    using range alphabet_facts(1) by (auto simp: list_all_iff)
  have "(filter (\<lambda>c. \<not> ascii_ws c) (btoa s)) = btoa s"
    using inside alphabet_facts(4) by (intro filter_True) (auto simp: btoa_def ascii_ws_def)
  moreover have len: "length ?t mod 4 = (if ?k = 0 then 0 else 4 - ?k)"
  proof -
    have "length s mod 3 < 3" by simp
    then consider "length s mod 3 = 0" | "length s mod 3 = 1" | "length s mod 3 = 2" by linarith
    then show ?thesis by cases (simp_all add: length_sextets)
  qed
  moreover have "strip_padding (btoa s) = ?t"
    unfolding btoa_def by (rule strip_padding_undoes [OF _ refl len]) (use inside alphabet_facts(3) in auto)
  moreover have "length ?t mod 4 \<noteq> 1" using len by (auto split: if_splits)
  moreover have "map (\<lambda>c. the (find_index (\<lambda>x. x = c) base64_alphabet)) ?t = sextets ?bs"
    using range alphabet_facts(1,2) by (auto simp: list_all_iff find_index_nth intro: map_idI)
  moreover have "map char_of ?bs = s" by (simp add: o_def)
  ultimately show ?thesis using inside unsextets_sextets [OF bytes] by (simp add: atob_def Let_def)
qed

lemma array_buffer_round_trip: "base64_to_array_buffer (array_buffer_to_base64 bytes) = Some bytes"
proof -
  have "concat (map (map f) (chunks 32768 bytes)) = map f bytes" for f :: "8 word \<Rightarrow> char"
    by (metis concat_chunks map_concat zero_less_numeral)
  moreover have "(of_nat (of_char (char_of (unat b :: nat) :: char)) :: 8 word) = b" for b :: "8 word"
  proof -
    have "unat b < 2 ^ LENGTH(8)" by (rule unsigned_less)
    then show ?thesis by simp
  qed
  ultimately show ?thesis
    by (simp add: base64_to_array_buffer_def array_buffer_to_base64_def atob_btoa o_def)
qed

lemma btoa_empty: "array_buffer_to_base64 bytes = [] \<longleftrightarrow> bytes = []"
proof
  assume "array_buffer_to_base64 bytes = []"
  moreover have "array_buffer_to_base64 [] = []" by (simp add: array_buffer_to_base64_def btoa_def)
  ultimately show "bytes = []" using array_buffer_round_trip [of bytes] array_buffer_round_trip [of "[]"] by simp
qed (simp add: array_buffer_to_base64_def btoa_def)

text \<open>What an export and an import keep of an item: its data unless there is none.\<close>

definition kept_item :: "'a transfer_item \<Rightarrow> 'a transfer_item" where
  "kept_item item =
     item\<lparr>ti_ctx := (case ti_ctx item of Some (Some bytes, mime) \<Rightarrow> if bytes = [] then None else Some (Some bytes, mime) | _ \<Rightarrow> None)\<rparr>"

lemma deserialize_serialized:
  "deserialize_entries (map Some (serialize_annotation_items items)) = Inr (map kept_item items)"
proof (induction items)
  case (Cons item items)
  have "deserialize_item (Some (hd (serialize_annotation_items [item]))) = Inr (kept_item item)"
    by (cases item) (auto simp: deserialize_item_def serialize_annotation_items_def kept_item_def falsy_def btoa_empty array_buffer_round_trip
        split: option.splits)
  with Cons show ?case by (simp add: serialize_annotation_items_def)
qed (simp add: serialize_annotation_items_def)

text \<open>
  Importing an export gives back the annotations, in order and each with its data byte for byte, however long it is;
  only a context without data, or with an empty one, is not carried over. An entry without an annotation refuses the file.
\<close>
theorem annotations_round_trip:
  "deserialize_annotation_items (PayloadAnnotations (map Some (serialize_annotation_items items))) = Inr (map kept_item items) \<and>
   deserialize_annotation_items (PayloadList (map Some (serialize_annotation_items items))) = Inr (map kept_item items) \<and>
   base64_to_array_buffer (array_buffer_to_base64 bytes) = Some bytes \<and>
   deserialize_annotation_items (PayloadAnnotations (map Some (serialize_annotation_items items) @ None # more_entries)) = Inl unrecognized"
proof -
  have "deserialize_entries (map Some (serialize_annotation_items items) @ None # es) = Inl unrecognized" for es
  proof (induction items)
    case (Cons item items)
    have "\<exists>i. deserialize_item (Some (hd (serialize_annotation_items [item]))) = Inr i"
      using deserialize_serialized [of "[item]"] by (auto simp: serialize_annotation_items_def split: sum.splits)
    with Cons show ?case by (auto simp: serialize_annotation_items_def)
  qed (simp add: serialize_annotation_items_def deserialize_item_def)
  then show ?thesis by (simp add: deserialize_annotation_items_def deserialize_serialized array_buffer_round_trip)
qed

section \<open>A key stands for one source\<close>

text \<open>An input of the present version is the present input; a resolved source has a key the counter has passed.\<close>

definition input_known :: "source_state \<Rightarrow> source_input \<Rightarrow> bool" where
  "input_known st inp \<longleftrightarrow> si_version inp \<le> si_version (ss_input st) \<and> (si_version inp = si_version (ss_input st) \<longrightarrow> inp = ss_input st)"

definition source_ok :: "source_state \<Rightarrow> bool" where
  "source_ok st \<longleftrightarrow>
     (\<forall>inp\<in>set (ss_reads st). input_known st inp) \<and> (\<forall>(inp, name)\<in>set (ss_uploads st). input_known st inp) \<and>
     (\<forall>inp source. ss_resolved st = Some (inp, source) \<longrightarrow>
        input_known st inp \<and> (\<exists>k. es_key source = FreshKey k \<and> k \<le> ss_counter st))"

definition source_later :: "source_state \<Rightarrow> source_state \<Rightarrow> bool" where
  "source_later st st' \<longleftrightarrow>
     ss_counter st \<le> ss_counter st' \<and> input_known st' (ss_input st) \<and>
     (ss_resolved st' = ss_resolved st \<or>
      (\<exists>inp source k. ss_resolved st' = Some (inp, source) \<and> es_key source = FreshKey k \<and> ss_counter st < k))"

lemma set_drop_nth: "x \<in> set (drop_nth i xs) \<Longrightarrow> x \<in> set xs"
  by (auto simp: drop_nth_def dest: in_set_takeD in_set_dropD)

lemma resolve_source_ok:
  assumes "source_ok st" "input_known st inp"
  shows "source_ok (resolve_source inp buffer name st)" "source_later st (resolve_source inp buffer name st)"
  using assms by (auto simp: source_ok_def source_later_def resolve_source_def input_known_def)

lemma source_ok_drop:
  assumes "source_ok st" "set rs \<subseteq> set (ss_reads st)" "set us \<subseteq> set (ss_uploads st)"
  shows "source_ok (st\<lparr>ss_reads := rs\<rparr>)" "source_ok (st\<lparr>ss_uploads := us\<rparr>)"
  using assms by (auto simp: source_ok_def input_known_def)

lemma source_later_refl: "source_later st st"
  by (simp add: source_later_def input_known_def)

lemma source_later_frame:
  "source_later (st\<lparr>ss_reads := rs\<rparr>) st' = source_later st st'" "source_later (st\<lparr>ss_uploads := us\<rparr>) st' = source_later st st'"
  "source_later st (st'\<lparr>ss_reads := rs\<rparr>) = source_later st st'" "source_later st (st'\<lparr>ss_uploads := us\<rparr>) = source_later st st'"
  "input_known (st\<lparr>ss_reads := rs\<rparr>) inp = input_known st inp" "input_known (st\<lparr>ss_uploads := us\<rparr>) inp = input_known st inp"
  by (simp_all add: source_later_def input_known_def)

lemma read_blob_effect_ok: "source_ok st \<Longrightarrow> source_ok (read_blob_effect st) \<and> source_later st (read_blob_effect st)"
  by (auto simp: read_blob_effect_def source_later_refl source_later_frame split: editor_src.splits)
     (auto simp: source_ok_def input_known_def)

lemma source_step_ok:
  assumes "source_ok st" "source_step st a = Some st'"
  shows "source_ok st' \<and> source_later st st'"
proof (cases a)
  case (NewProps src fileName)
  let ?st = "st\<lparr>ss_input := \<lparr>si_src = src, si_file_name = fileName, si_version = si_version (ss_input st) + 1\<rparr>\<rparr>"
  have st': "st' = read_blob_effect ?st" using assms(2) NewProps by (auto split: if_splits)
  have older: "input_known ?st inp" if "input_known st inp" for inp using that by (simp add: input_known_def)
  have "source_ok ?st" using assms(1) older by (auto simp: source_ok_def)
  moreover have "source_later st ?st" using older [of "ss_input st"] by (simp add: source_later_def input_known_def)
  moreover have "source_later st (read_blob_effect ?st) = source_later st ?st"
    by (simp add: read_blob_effect_def source_later_frame split: editor_src.splits)
  ultimately show ?thesis unfolding st' using read_blob_effect_ok by blast
next
  case (BlobRead i buffer)
  let ?st = "st\<lparr>ss_reads := drop_nth i (ss_reads st)\<rparr>" and ?inp = "ss_reads st ! i"
  have ok: "source_ok ?st" by (rule source_ok_drop [OF assms(1)]) (auto dest: set_drop_nth)
  from assms(2) BlobRead have i: "i < length (ss_reads st)"
    "st' = (if ?inp \<noteq> ss_input st then ?st else resolve_source ?inp buffer (get_pdf_file_name (blob_name ?inp) None) ?st)"
    by (auto simp: Let_def split: if_splits)
  with assms(1) have "input_known ?st ?inp" by (simp add: source_ok_def source_later_frame)
  from resolve_source_ok [OF ok this] ok show ?thesis unfolding i(2) by (auto simp: source_later_frame source_later_refl)
next
  case (BlobUnreadable i)
  with assms(2) have "st' = st\<lparr>ss_reads := drop_nth i (ss_reads st)\<rparr>" by (auto split: if_splits)
  moreover have "source_ok (st\<lparr>ss_reads := drop_nth i (ss_reads st)\<rparr>)" by (rule source_ok_drop [OF assms(1)]) (auto dest: set_drop_nth)
  ultimately show ?thesis by (simp add: source_later_frame source_later_refl)
next
  case (UploadChosen name)
  with assms show ?thesis by (auto simp: source_ok_def source_later_frame source_later_refl input_known_def)
next
  case (UploadRead i buffer)
  let ?st = "st\<lparr>ss_uploads := drop_nth i (ss_uploads st)\<rparr>"
  have ok: "source_ok ?st" by (rule source_ok_drop [OF assms(1)]) (auto dest: set_drop_nth)
  from assms(2) UploadRead obtain inp name where i: "i < length (ss_uploads st)" "ss_uploads st ! i = (inp, name)"
    "st' = resolve_source inp buffer (get_pdf_file_name (Some name) None) ?st"
    by (auto split: if_splits prod.splits)
  then have "(inp, name) \<in> set (ss_uploads st)" by (metis nth_mem)
  with assms(1) have "input_known ?st inp" by (auto simp: source_ok_def source_later_frame)
  from resolve_source_ok [OF ok this] show ?thesis unfolding i(3) by (simp add: source_later_frame)
qed

lemma source_later_trans:
  assumes "source_later a b" "source_later b c"
  shows "source_later a c"
  using assms unfolding source_later_def input_known_def by (auto; force)

interpretation sourcing: machine source_step "source_start src fileName" source_ok for src fileName
proof
  show "source_ok (source_start src fileName)"
    unfolding source_start_def by (rule conjunct1 [OF read_blob_effect_ok]) (simp add: source_ok_def)
qed (use source_step_ok in blast)

lemma source_later_exec: "source_ok st \<Longrightarrow> exec source_step st as = Some st' \<Longrightarrow> source_later st st'"
proof (induction as arbitrary: st)
  case (Cons a as)
  then obtain t where "source_step st a = Some t" "exec source_step t as = Some st'" by (auto split: option.splits)
  with Cons source_step_ok show ?case by (blast intro: source_later_trans)
qed (simp add: source_later_refl)

lemma current_source_cases:
  assumes "source_ok st" "current_source st = Some source"
  obtains k where "es_key source = FreshKey k" "k \<le> ss_counter st" "ss_resolved st = Some (ss_input st, source)"
  | "immediate_source (ss_input st) = Some source" "es_key source = InputKey (si_version (ss_input st))"
proof -
  have imm: "es_key source = InputKey (si_version (ss_input st))" if "immediate_source (ss_input st) = Some source"
    using that by (auto simp: immediate_source_def split: editor_src.splits)
  show thesis
  proof (cases "ss_resolved st = Some (ss_input st, source)")
    case True
    with assms(1) that(1) show ?thesis by (auto simp: source_ok_def)
  next
    case False
    with assms(2) have "immediate_source (ss_input st) = Some source"
      by (auto simp: current_source_def split: option.splits if_splits prod.splits)
    with imm that(2) show ?thesis by blast
  qed
qed

text \<open>
  The key the loader compares sources by is as good as the source: however properties change, blobs and uploads are
  read and replaced, two sources an editor ever has with the same key are the same bytes, address and name.
\<close>
theorem source_key_identifies:
  assumes "exec source_step (source_start src fileName) acts = Some st" "exec source_step st later = Some st'"
    and "current_source st = Some source" "current_source st' = Some source'" "es_key source = es_key source'"
  shows "source = source'"
proof -
  have ok: "source_ok st" "source_ok st'"
    using sourcing.inv_exec [OF assms(1)] sourcing.inv_exec_from [OF _ assms(2)] by auto
  have later: "source_later st st'" using source_later_exec [OF ok(1) assms(2)] .
  show ?thesis
    using ok(1) assms(3)
  proof (cases rule: current_source_cases)
    case (1 k)
    with assms(5) ok(2) assms(4) have "ss_resolved st' = Some (ss_input st', source')"
      by (auto elim: current_source_cases)
    with 1 later assms(5) show ?thesis by (auto simp: source_later_def)
  next
    case 2
    with assms(5) ok(2) assms(4) have "immediate_source (ss_input st') = Some source'"
      "si_version (ss_input st') = si_version (ss_input st)" by (auto elim: current_source_cases)
    moreover from this(2) later have "ss_input st = ss_input st'" by (simp add: source_later_def input_known_def)
    ultimately show ?thesis using 2(1) by simp
  qed
qed

theorem source_key_identifies_witness:
  "\<exists>st st' s s'. exec source_step (source_start (SrcUrl ''a'') None) [] = Some st \<and> exec source_step st [UploadChosen ''b''] = Some st' \<and>
    current_source st = Some s \<and> current_source st' = Some s' \<and> s = s'"
proof -
  let ?st = "source_start (SrcUrl ''a'') None"
  obtain st' s s' where r: "exec source_step ?st [UploadChosen ''b''] = Some st'" "current_source ?st = Some s"
      "current_source st' = Some s'" "es_key s = es_key s'"
    by (simp add: source_start_def read_blob_effect_def current_source_def immediate_source_def)
  from source_key_identifies [OF _ r(1,2,3,4), of "SrcUrl ''a''" None "[]"] have "s = s'" by simp
  with r show ?thesis by simp
qed

text \<open>
  Uploads end in the order their files are read, not in the order they were chosen: the file chosen first is edited when it
  takes longer. And a file whose reading ends after the properties changed throws away what was read for the new ones; a
  blob is then never read again.
\<close>

lemma slow_upload_wins:
  "\<exists>st source. exec source_step (source_start NoSrc None)
      [UploadChosen ''slow.pdf'', UploadChosen ''new.pdf'', UploadRead 1 [2], UploadRead 0 [1]] = Some st \<and>
    current_source st = Some source \<and> es_content source = BufferContent [1]"
  by (simp add: source_start_def read_blob_effect_def resolve_source_def current_source_def drop_nth_def)

lemma late_upload_loads_forever:
  "\<exists>st. exec source_step (source_start (SrcUrl ''a'') None)
      [UploadChosen ''old.pdf'', NewProps (SrcBlob 1 None) None, BlobRead 0 [2], UploadRead 0 [1]] = Some st \<and>
    source_loading st \<and> ss_reads st = [] \<and> ss_uploads st = []"
  by (simp add: source_start_def read_blob_effect_def resolve_source_def current_source_def drop_nth_def source_loading_def
      is_blob_def immediate_source_def Let_def)

end
