(* ===== verification/PagesPanel.thy ===== *)
theory PagesPanel
  imports PdfPages
begin

text \<open>
  The page organiser of the PDF editor (PdfEditorPagesPanel of web/src/components/extend/pdf-editor-panels.tsx): the
  selection of pages, and the operations that write a changed copy of the document and edit that instead.

  A document is the list of its pages. The PDF library and the engine are read by their documented behaviour on such lists;
  whether they, and saving, succeed is an argument. A panel lives as long as its document: once a copy replaces it, the
  panel starts anew. Clearing the selection is offered for a document that is not encrypted.
\<close>

section \<open>The selection\<close>

record pages_panel =
  pp_selected :: "nat set"
  pp_anchor :: "nat option"
  pp_busy :: "string option"

definition pages_panel_start :: pages_panel where
  "pages_panel_start = \<lparr>pp_selected = {}, pp_anchor = None, pp_busy = None\<rparr>"

datatype select_mode = SelectReplace | SelectToggle | SelectRange

definition select_page :: "nat \<Rightarrow> select_mode \<Rightarrow> pages_panel \<Rightarrow> pages_panel" where
  "select_page pageIndex mode st =
     (if mode = SelectRange \<and> pp_anchor st \<noteq> None then st\<lparr>pp_selected := get_page_index_range (the (pp_anchor st)) pageIndex\<rparr>
      else if mode = SelectToggle then
        st\<lparr>pp_selected := (if pageIndex \<in> pp_selected st then pp_selected st - {pageIndex} else insert pageIndex (pp_selected st)),
           pp_anchor := Some pageIndex\<rparr>
      else st\<lparr>pp_anchor := Some pageIndex, pp_selected := {pageIndex}\<rparr>)"

definition clear_selected :: "pages_panel \<Rightarrow> pages_panel" where
  "clear_selected st = st\<lparr>pp_selected := {}\<rparr>"

definition selected_indices :: "pages_panel \<Rightarrow> nat list" where
  "selected_indices st = sorted_list_of_set (pp_selected st)"

definition is_contiguous :: "nat list \<Rightarrow> bool" where
  "is_contiguous indices \<longleftrightarrow> indices \<noteq> [] \<and> last indices - hd indices = length indices - 1"

text \<open>The document's permissions and whether it is encrypted decide what may be changed.\<close>

record document_rights =
  dr_can_assemble :: bool
  dr_encrypted :: bool

definition can_assemble :: "document_rights \<Rightarrow> pages_panel \<Rightarrow> bool" where
  "can_assemble r st \<longleftrightarrow> dr_can_assemble r \<and> \<not> dr_encrypted r \<and> pp_busy st = None"

definition can_move_up :: "document_rights \<Rightarrow> pages_panel \<Rightarrow> bool" where
  "can_move_up r st \<longleftrightarrow> can_assemble r st \<and> is_contiguous (selected_indices st) \<and> hd (selected_indices st) \<noteq> 0"

definition can_move_down :: "document_rights \<Rightarrow> nat \<Rightarrow> pages_panel \<Rightarrow> bool" where
  "can_move_down r pageCount st \<longleftrightarrow>
     can_assemble r st \<and> is_contiguous (selected_indices st) \<and> last (selected_indices st) \<noteq> pageCount - 1"

definition selection_label :: "nat \<Rightarrow> pages_panel \<Rightarrow> string" where
  "selection_label pageCount st =
     (if selected_indices st \<noteq> [] then show_nat (length (selected_indices st)) @ '' of '' @ show_nat pageCount @ '' selected''
      else show_nat pageCount @ '' page'' @ (if pageCount = 1 then [] else ''s''))"

section \<open>Pages of a document\<close>

record 'c doc_page =
  dp_angle :: int
  dp_width :: rat
  dp_height :: rat
  dp_content :: 'c

type_synonym 'c pages = "'c doc_page list"

definition out_of_range :: js_error where "out_of_range = JsError ''out of range''"

definition get_page :: "'c pages \<Rightarrow> nat \<Rightarrow> js_error + 'c doc_page" where
  "get_page doc i = (if i < length doc then Inr (doc ! i) else Inl out_of_range)"

definition remove_page :: "'c pages \<Rightarrow> nat \<Rightarrow> js_error + 'c pages" where
  "remove_page doc i = (if i < length doc then Inr (take i doc @ drop (i + 1) doc) else Inl out_of_range)"

definition insert_page :: "'c pages \<Rightarrow> nat \<Rightarrow> 'c doc_page \<Rightarrow> js_error + 'c pages" where
  "insert_page doc i page = (if i \<le> length doc then Inr (take i doc @ page # drop i doc) else Inl out_of_range)"

definition then_do :: "js_error + 'a \<Rightarrow> ('a \<Rightarrow> js_error + 'b) \<Rightarrow> js_error + 'b" where
  "then_do r f = (case r of Inl e \<Rightarrow> Inl e | Inr a \<Rightarrow> f a)"

lemma then_do_simps [simp]: "then_do (Inr a) f = f a" "then_do (Inl e) f = Inl e"
  by (simp_all add: then_do_def)

section \<open>The operations\<close>

definition turned :: "int \<Rightarrow> 'c doc_page \<Rightarrow> 'c doc_page" where
  "turned delta page = page\<lparr>dp_angle := int_rem (dp_angle page + delta + 360) 360\<rparr>"

fun rotate_pages :: "int \<Rightarrow> nat list \<Rightarrow> 'c pages \<Rightarrow> js_error + 'c pages" where
  "rotate_pages delta [] doc = Inr doc"
| "rotate_pages delta (i # indices) doc =
     then_do (get_page doc i) (\<lambda>page. rotate_pages delta indices (doc[i := turned delta page]))"

definition move_pages :: "bool \<Rightarrow> nat list \<Rightarrow> 'c pages \<Rightarrow> js_error + 'c pages" where
  "move_pages up indices doc =
     (let first = hd indices; final = last indices
      in if up then then_do (get_page doc (first - 1)) (\<lambda>page. then_do (remove_page doc (first - 1)) (\<lambda>rest. insert_page rest final page))
         else then_do (get_page doc (final + 1)) (\<lambda>page. then_do (remove_page doc (final + 1)) (\<lambda>rest. insert_page rest first page)))"

text \<open>A move at the document's end does nothing.\<close>

definition move_selected :: "bool \<Rightarrow> nat list \<Rightarrow> nat \<Rightarrow> bool" where
  "move_selected up indices pageCount \<longleftrightarrow> \<not> (up \<and> hd indices = 0) \<and> \<not> (\<not> up \<and> last indices = pageCount - 1)"

definition insert_blank_after :: "'c \<Rightarrow> nat list \<Rightarrow> nat \<Rightarrow> 'c pages \<Rightarrow> js_error + 'c pages" where
  "insert_blank_after blank indices activePage doc =
     (let reference = (if indices \<noteq> [] then last indices else activePage - 1)
      in then_do (get_page doc reference)
           (\<lambda>page. insert_page doc (reference + 1) \<lparr>dp_angle = 0, dp_width = dp_width page, dp_height = dp_height page, dp_content = blank\<rparr>))"

fun copy_pages :: "'c pages \<Rightarrow> nat list \<Rightarrow> js_error + 'c pages" where
  "copy_pages doc [] = Inr []"
| "copy_pages doc (i # indices) = then_do (get_page doc i) (\<lambda>page. then_do (copy_pages doc indices) (\<lambda>ps. Inr (page # ps)))"

definition append_pages :: "'c pages \<Rightarrow> 'c pages \<Rightarrow> js_error + 'c pages" where
  "append_pages source doc = then_do (copy_pages source [0..<length source]) (\<lambda>copied. Inr (doc @ copied))"

text \<open>
  Deleting goes through the engine, page by page from the last one on. \<open>fails i\<close> says that deleting page \<open>i\<close> is refused; what the
  engine then holds is the first component.
\<close>

fun delete_each :: "(nat \<Rightarrow> bool) \<Rightarrow> nat list \<Rightarrow> 'c pages \<Rightarrow> 'c pages \<times> bool" where
  "delete_each fails [] doc = (doc, True)"
| "delete_each fails (i # indices) doc =
     (if fails i then (doc, False)
      else case remove_page doc i of Inl e \<Rightarrow> (doc, False) | Inr rest \<Rightarrow> delete_each fails indices rest)"

datatype notice = NoticeSuccess string | NoticeError string

text \<open>\<open>runOperation\<close>: the loaded buffer, the change, the saving; a document to edit instead, and what the user is told.\<close>

definition run_operation ::
  "string \<Rightarrow> js_error + 'c pages \<Rightarrow> ('c pages \<Rightarrow> js_error + 'c pages) \<Rightarrow> js_error option \<Rightarrow> 'c pages option \<times> notice list" where
  "run_operation label buffer mutate save_failure =
     (case then_do buffer mutate of
        Inl e \<Rightarrow> (None, [NoticeError (label @ '' failed.'')])
      | Inr doc \<Rightarrow>
          (case save_failure of
             Some e \<Rightarrow> (None, [NoticeError (label @ '' failed.'')])
           | None \<Rightarrow> (Some doc, [NoticeSuccess (label @ '' applied.'')])))"

text \<open>Extracting replaces nothing; the copy is downloaded under a name of its own.\<close>

definition extract_selected ::
  "string \<Rightarrow> nat list \<Rightarrow> js_error + 'c pages \<Rightarrow> js_error option \<Rightarrow> (string \<times> 'c pages) option \<times> notice list" where
  "extract_selected fileName indices buffer save_failure =
     (case then_do buffer (\<lambda>doc. copy_pages doc indices) of
        Inl e \<Rightarrow> (None, [NoticeError ''Extract pages failed.''])
      | Inr copied \<Rightarrow>
          (case save_failure of
             Some e \<Rightarrow> (None, [NoticeError ''Extract pages failed.''])
           | None \<Rightarrow>
               (Some (with_file_name_suffix fileName ''-pages'', copied),
                [NoticeSuccess (''Extracted '' @ show_nat (length indices) @ '' page'' @ (if length indices = 1 then [] else ''s'') @ ''.'')])))"

text \<open>Deleting: refused for all pages at once, else asked for; then the engine's document is changed and its copy edited.\<close>

definition delete_pages_question :: "nat list \<Rightarrow> nat \<Rightarrow> notice option + string" where
  "delete_pages_question indices pageCount =
     (if pageCount \<le> length indices then Inl (Some (NoticeError ''A document needs at least one page.''))
      else Inr (''Delete '' @ (if length indices = 1 then ''this page'' else show_nat (length indices) @ '' pages'') @ ''?''))"

definition delete_confirmed ::
  "js_error option \<Rightarrow> (nat \<Rightarrow> bool) \<Rightarrow> js_error option \<Rightarrow> nat list \<Rightarrow> 'c pages \<Rightarrow> 'c pages \<times> 'c pages option \<times> notice" where
  "delete_confirmed commit_failure fails save_failure indices doc =
     (if commit_failure \<noteq> None then (doc, None, NoticeError ''Delete pages failed.'')
      else case delete_each fails (rev indices) doc of
             (engine, ok) \<Rightarrow>
               if ok \<and> save_failure = None then (engine, Some engine, NoticeSuccess ''Delete pages applied.'')
               else (engine, None, NoticeError ''Delete pages failed.''))"

section \<open>The selection stays in the document\<close>

datatype panel_action = SelectPage nat bool bool | ClearSelected | Begin string | Ended

fun panel_step :: "nat \<Rightarrow> pages_panel \<Rightarrow> panel_action \<Rightarrow> pages_panel option" where
  "panel_step n st (SelectPage i shift meta) =
     (if n \<le> i then None
      else Some (select_page i (if shift then SelectRange else if meta then SelectToggle else SelectReplace) st))"
| "panel_step n st ClearSelected = (if pp_busy st \<noteq> None \<or> pp_selected st = {} then None else Some (clear_selected st))"
| "panel_step n st (Begin label) = (if pp_busy st = None then Some (st\<lparr>pp_busy := Some label\<rparr>) else None)"
| "panel_step n st Ended = (if pp_busy st = None then None else Some (st\<lparr>pp_busy := None\<rparr>))"

definition panel_ok :: "nat \<Rightarrow> pages_panel \<Rightarrow> bool" where
  "panel_ok n st \<longleftrightarrow> pp_selected st \<subseteq> {..<n} \<and> (\<forall>a. pp_anchor st = Some a \<longrightarrow> a < n)"

lemma select_page_ok:
  assumes "panel_ok n st" "i < n"
  shows "panel_ok n (select_page i mode st)"
proof -
  have range: "get_page_index_range a i \<subseteq> {..<n}" if "a < n" for a using that assms(2) by auto
  consider (span) a where "mode = SelectRange" "pp_anchor st = Some a" | (toggle) "mode = SelectToggle" | (one) "\<not> (mode = SelectRange \<and> pp_anchor st \<noteq> None)" "mode \<noteq> SelectToggle"
    by blast
  then show ?thesis
  proof cases
    case (span a)
    with assms range [of a] show ?thesis by (simp add: panel_ok_def select_page_def)
  next
    case toggle
    with assms show ?thesis by (auto simp: panel_ok_def select_page_def)
  next
    case one
    then have "select_page i mode st = st\<lparr>pp_anchor := Some i, pp_selected := {i}\<rparr>" by (auto simp: select_page_def)
    with assms show ?thesis by (simp add: panel_ok_def)
  qed
qed

interpretation organising: machine "panel_step n" pages_panel_start "panel_ok n" for n
proof
  show "panel_ok n pages_panel_start" by (simp add: panel_ok_def pages_panel_start_def)
  show "panel_ok n st'" if "panel_ok n st" "panel_step n st a = Some st'" for st a st'
  proof (cases a)
    case (SelectPage i shift meta)
    with that(2) have "i < n" "\<exists>mode. st' = select_page i mode st" by (auto split: if_splits)
    with select_page_ok [OF that(1)] show ?thesis by blast
  qed (use that in \<open>auto simp: clear_selected_def panel_ok_def split: if_splits\<close>)
qed

lemma selected_indices_ok:
  assumes "panel_ok n st"
  shows "sorted (selected_indices st)" "distinct (selected_indices st)" "set (selected_indices st) = pp_selected st"
    "\<forall>i\<in>set (selected_indices st). i < n"
proof -
  have "finite (pp_selected st)" using assms finite_subset unfolding panel_ok_def by blast
  then show "sorted (selected_indices st)" "distinct (selected_indices st)" "set (selected_indices st) = pp_selected st"
    by (simp_all add: selected_indices_def)
  then show "\<forall>i\<in>set (selected_indices st). i < n" using assms by (auto simp: panel_ok_def)
qed

section \<open>What the operations do\<close>

lemma rotate_pages_nth:
  assumes "distinct indices" "\<forall>i\<in>set indices. i < length doc"
  shows "\<exists>doc'. rotate_pages delta indices doc = Inr doc' \<and> length doc' = length doc \<and>
    (\<forall>j < length doc. doc' ! j = (if j \<in> set indices then turned delta (doc ! j) else doc ! j))"
  using assms
proof (induction indices arbitrary: doc)
  case (Cons i indices)
  then obtain doc' where d: "rotate_pages delta indices (doc[i := turned delta (doc ! i)]) = Inr doc'" "length doc' = length doc"
    "\<forall>j < length doc. doc' ! j = (if j \<in> set indices then turned delta (doc[i := turned delta (doc ! i)] ! j) else doc[i := turned delta (doc ! i)] ! j)"
    using Cons.IH [of "doc[i := turned delta (doc ! i)]"] by auto
  with Cons.prems show ?case by (auto simp: get_page_def nth_list_update)
qed simp

lemma copy_pages_nth:
  "\<forall>i\<in>set indices. i < length doc \<Longrightarrow> copy_pages doc indices = Inr (map (\<lambda>i. doc ! i) indices)"
  by (induction indices) (auto simp: get_page_def)

lemma append_pages_append: "append_pages source doc = Inr (doc @ source)"
  by (simp add: append_pages_def copy_pages_nth map_nth)

text \<open>Deleting from the last index on leaves exactly the other pages.\<close>

lemma nths_delete_last:
  assumes "i < length doc" "\<forall>j\<in>A. j < i"
  shows "nths (take i doc @ drop (i + 1) doc) (- A) = nths doc (- insert i A)"
proof -
  have split: "doc = take i doc @ [doc ! i] @ drop (i + 1) doc" using assms(1) by (simp add: id_take_nth_drop [symmetric])
  have after: "nths (drop (Suc i) doc) {j. j + i \<notin> A} = drop (Suc i) doc" "nths (drop (Suc i) doc) {j. Suc (j + i) \<notin> A} = drop (Suc i) doc"
    using assms(2) by (force intro: nths_all)+
  have before: "nths (take i doc) (- A) = nths (take i doc) (- insert i A)"
    unfolding nths_def by (intro arg_cong [where f = "map fst"] filter_cong) (auto simp: set_zip)
  have "nths doc (- insert i A) = nths (take i doc) (- insert i A) @ drop (i + 1) doc"
    using assms(1) by (subst split) (simp add: nths_append nths_Cons min_def after(2))
  then show ?thesis using assms(1) by (simp add: nths_append min_def after(1) before)
qed

lemma delete_each_others:
  assumes "sorted_wrt (>) indices" "\<forall>i\<in>set indices. i < length doc"
  shows "delete_each (\<lambda>_. False) indices doc = (nths doc (- set indices), True)"
  using assms
proof (induction indices arbitrary: doc)
  case (Cons i indices)
  then have "delete_each (\<lambda>_. False) (i # indices) doc = delete_each (\<lambda>_. False) indices (take i doc @ drop (i + 1) doc)"
    by (simp add: remove_page_def)
  also have "\<dots> = (nths (take i doc @ drop (i + 1) doc) (- set indices), True)"
    using Cons.prems by (intro Cons.IH) auto
  finally show ?case using nths_delete_last [of i doc "set indices"] Cons.prems by simp
qed (simp add: nths_all)

text \<open>A block and the page before or behind it change places.\<close>

lemma move_up_block:
  "move_pages True [length pre + 1 ..< length pre + 1 + Suc (length block)] (pre @ p # b # block @ post) = Inr (pre @ b # block @ p # post)"
  by (simp add: move_pages_def Let_def get_page_def remove_page_def insert_page_def nth_append del: upt_Suc)

lemma move_down_block:
  "move_pages False [length pre ..< length pre + Suc (length block)] (pre @ b # block @ p # post) = Inr (pre @ p # b # block @ post)"
  by (simp add: move_pages_def Let_def get_page_def remove_page_def insert_page_def nth_append del: upt_Suc)

lemma contiguous_upt:
  assumes "sorted xs" "distinct xs" "is_contiguous xs"
  shows "xs = [hd xs ..< Suc (last xs)]" "hd xs \<le> last xs"
proof -
  have bounds: "hd xs \<le> x \<and> x \<le> last xs" if "x \<in> set xs" for x
  proof
    show "hd xs \<le> x" using assms(1) that by (cases xs) auto
    show "x \<le> last xs" using assms(1) that by (cases xs rule: rev_cases) (auto simp: sorted_append)
  qed
  have ne: "xs \<noteq> []" and gap: "last xs - hd xs = length xs - 1" using assms(3) by (simp_all add: is_contiguous_def)
  show le: "hd xs \<le> last xs" using bounds [of "hd xs"] ne by simp
  have "length xs > 0" using ne by simp
  then have "Suc (last xs) - hd xs = length xs" using gap le by linarith
  then have "card {hd xs..last xs} = length xs" by simp
  then have "card (set xs) = card {hd xs..last xs}" using distinct_card [OF assms(2)] by simp
  moreover have "set xs \<subseteq> {hd xs..last xs}" using bounds by auto
  ultimately have "set xs = {hd xs..last xs}" using card_subset_eq [of "{hd xs..last xs}" "set xs"] by simp
  then have "set xs = set [hd xs ..< Suc (last xs)]" by (simp only: set_upt atLeastLessThanSuc_atLeastAtMost)
  moreover have "sorted [hd xs ..< Suc (last xs)]" "distinct [hd xs ..< Suc (last xs)]" by (rule sorted_upt, rule distinct_upt)
  ultimately show "xs = [hd xs ..< Suc (last xs)]" using assms(1,2) by (intro sorted_distinct_set_unique)
qed

lemma sublist_nths: "sorted indices \<Longrightarrow> distinct indices \<Longrightarrow> \<forall>i\<in>set indices. i < length doc \<Longrightarrow> map (\<lambda>i. doc ! i) indices = nths doc (set indices)"
proof -
  assume a: "sorted indices" "distinct indices" "\<forall>i\<in>set indices. i < length doc"
  have "nths doc (set indices) = map (\<lambda>i. doc ! i) (filter (\<lambda>i. i \<in> set indices) [0..<length doc])"
    by (induction doc rule: rev_induct) (auto simp: nths_append nth_append)
  moreover have "filter (\<lambda>i. i \<in> set indices) [0..<length doc] = indices"
    using a by (intro sorted_distinct_set_unique) (auto simp: sorted_filter [of id, simplified] sorted_upt)
  ultimately show ?thesis by simp
qed

text \<open>
  In every state the organiser can come to, turning turns exactly the selected pages, extracting copies exactly them in
  their order, and deleting leaves exactly the others, at least one of them.
\<close>
theorem operations_reach_selected_pages:
  fixes doc :: "'c pages"
  assumes "exec (panel_step (length doc)) pages_panel_start acts = Some st"
  shows "(\<exists>doc'. rotate_pages delta (selected_indices st) doc = Inr doc' \<and> length doc' = length doc \<and>
      (\<forall>j < length doc. doc' ! j = (if j \<in> pp_selected st then turned delta (doc ! j) else doc ! j))) \<and>
    copy_pages doc (selected_indices st) = Inr (nths doc (pp_selected st)) \<and>
    (\<exists>msg. delete_confirmed None (\<lambda>_. False) None (selected_indices st) doc =
      (nths doc (- pp_selected st), Some (nths doc (- pp_selected st)), msg)) \<and>
    (delete_pages_question (selected_indices st) (length doc) = Inr text_shown \<longrightarrow> nths doc (- pp_selected st) \<noteq> [])"
proof -
  note sel = selected_indices_ok [OF organising.inv_exec [OF assms]]
  have "sorted_wrt (>) (rev (selected_indices st))"
    using sel(1,2) by (simp add: sorted_wrt_rev strict_sorted_iff)
  then have del: "delete_each (\<lambda>_. False) (rev (selected_indices st)) doc = (nths doc (- pp_selected st), True)"
    using delete_each_others [of "rev (selected_indices st)" doc] sel(3,4) by simp
  have "nths doc (- pp_selected st) \<noteq> []" if "length (selected_indices st) < length doc"
  proof -
    have "card (pp_selected st) < card {..<length doc}" using that sel(2,3) distinct_card by fastforce
    then have "\<not> {..<length doc} \<subseteq> pp_selected st" using sel(3) by (metis List.finite_set card_mono not_less)
    then show ?thesis by (auto simp flip: set_empty simp: set_nths)
  qed
  then show ?thesis
    using rotate_pages_nth [OF sel(2,4), of delta] copy_pages_nth [OF sel(4)] sublist_nths [OF sel(1,2,4)] del sel(3)
    by (auto simp: delete_confirmed_def delete_pages_question_def)
qed

theorem operations_reach_selected_pages_witness:
  "\<exists>st. exec (panel_step (length [\<lparr>dp_angle = 0, dp_width = 1, dp_height = 1, dp_content = ''a''\<rparr>])) pages_panel_start [SelectPage 0 False False] = Some st \<and>
    copy_pages [\<lparr>dp_angle = 0, dp_width = 1, dp_height = 1, dp_content = ''a''\<rparr>] (selected_indices st) =
      Inr (nths [\<lparr>dp_angle = 0, dp_width = 1, dp_height = 1, dp_content = ''a''\<rparr>] (pp_selected st))"
proof -
  have "exec (panel_step (length [\<lparr>dp_angle = 0, dp_width = 1, dp_height = 1, dp_content = ''a''\<rparr>])) pages_panel_start [SelectPage 0 False False] =
      Some (select_page 0 SelectReplace pages_panel_start)" by simp
  from operations_reach_selected_pages [OF this] this show ?thesis by blast
qed

text \<open>
  Moving is offered only for a block of pages with a neighbour on that side; then the block and that one page change
  places, every other page keeps its own, and moving the block back gives the document back.
\<close>
theorem moves_shift_block:
  fixes doc :: "'c pages"
  assumes "exec (panel_step (length doc)) pages_panel_start acts = Some st" "can_move_up r st"
  shows "\<exists>pre p block post. doc = pre @ p # block @ post \<and> block = nths doc (pp_selected st) \<and> block \<noteq> [] \<and>
    selected_indices st = [length pre + 1 ..< length pre + 1 + length block] \<and>
    move_pages True (selected_indices st) doc = Inr (pre @ block @ p # post) \<and>
    move_pages False [length pre ..< length pre + length block] (pre @ block @ p # post) = Inr doc"
proof -
  note sel = selected_indices_ok [OF organising.inv_exec [OF assms(1)]]
  let ?is = "selected_indices st"
  have up: "is_contiguous ?is" "hd ?is \<noteq> 0" using assms(2) by (simp_all add: can_move_up_def)
  then have ne: "?is \<noteq> []" by (simp add: is_contiguous_def)
  obtain first where first: "hd ?is = Suc first" using up(2) by (cases "hd ?is") auto
  have upt: "?is = [Suc first ..< Suc (last ?is)]" "Suc first \<le> last ?is" using contiguous_upt [OF sel(1,2) up(1)] first by simp_all
  have "last ?is < length doc" using sel(4) ne last_in_set by blast
  moreover obtain n where n': "last ?is = Suc first + n" using upt(2) le_Suc_ex by blast
  ultimately have n: "?is = [Suc first ..< Suc first + Suc n]" "first + Suc n < length doc" using upt(1) by simp_all
  define pre p block post where "pre = take first doc" and "p = doc ! first" and "block = take (Suc n) (drop (Suc first) doc)"
    and "post = drop (Suc first + Suc n) doc"
  have doc: "doc = pre @ p # block @ post"
    using n(2) by (simp add: pre_def p_def block_def post_def id_take_nth_drop [symmetric])
      (metis Cons_nth_drop_Suc Suc_lessD add_lessD1 append_take_drop_id drop_drop add.commute add_Suc)
  have len: "length pre = first" "length block = Suc n" using n(2) by (auto simp: pre_def block_def)
  then obtain b bs where b: "block = b # bs" "length bs = n" by (cases block) auto
  have "block = map (\<lambda>i. doc ! i) ?is" unfolding n(1) block_def
    by (rule nth_equalityI) (use n(2) in \<open>auto simp del: upt_Suc\<close>)
  then have "block = nths doc (pp_selected st)" using sublist_nths [OF sel(1,2,4)] sel(3) by simp
  moreover have "move_pages True ?is doc = Inr (pre @ block @ p # post)"
    using move_up_block [of pre bs p b post] doc b len unfolding n(1) by simp
  moreover have "move_pages False [length pre ..< length pre + length block] (pre @ block @ p # post) = Inr doc"
    using move_down_block [of pre bs b p post] doc b len by simp
  moreover have "?is = [length pre + 1 ..< length pre + 1 + length block]" unfolding n(1) len by simp
  moreover have "block \<noteq> []" using b(1) by simp
  ultimately show ?thesis using doc by blast
qed

theorem moves_shift_block_witness:
  "\<exists>st. exec (panel_step (length (replicate 2 (\<lparr>dp_angle = 0, dp_width = 1, dp_height = 1, dp_content = ''a''\<rparr>)))) pages_panel_start
      [SelectPage 1 False False] = Some st \<and>
    (\<exists>pre p block post. replicate 2 (\<lparr>dp_angle = 0, dp_width = 1, dp_height = 1, dp_content = ''a''\<rparr>) = pre @ p # block @ post \<and>
      move_pages True (selected_indices st) (replicate 2 (\<lparr>dp_angle = 0, dp_width = 1, dp_height = 1, dp_content = ''a''\<rparr>)) =
        Inr (pre @ block @ p # post))"
proof -
  let ?doc = "replicate 2 (\<lparr>dp_angle = 0, dp_width = 1, dp_height = 1, dp_content = ''a''\<rparr>)"
  let ?st = "select_page 1 SelectReplace pages_panel_start"
  have run: "exec (panel_step (length ?doc)) pages_panel_start [SelectPage 1 False False] = Some ?st" by simp
  have "can_move_up \<lparr>dr_can_assemble = True, dr_encrypted = False\<rparr> ?st"
    by (simp add: can_move_up_def can_assemble_def is_contiguous_def selected_indices_def select_page_def pages_panel_start_def)
  from moves_shift_block [OF run this] run show ?thesis by blast
qed

text \<open>
  When the engine refuses a page in the middle of a deletion, the pages behind it are already gone from its document, while
  the user is told that deleting failed and no copy replaces the document: the next save writes what is left.
\<close>

lemma failed_delete_loses_pages:
  "delete_confirmed None (\<lambda>i. i = 0) None [0, 2] [a, b, c] = ([a, b], None, NoticeError ''Delete pages failed.'')"
  by (simp add: delete_confirmed_def remove_page_def numeral_2_eq_2)

end
