(* ===== verification/DocxDocument.thy ===== *)
theory DocxDocument
  imports DocumentNames
begin

text \<open>
  How the DOCX viewer and the DOCX editor load documents (web/src/components/extend/docx-viewer.tsx and docx-editor.tsx).

  Both keep one editor instance of the DOCX library and import a file into it whenever the file they are to show changes. The
  viewer chains its imports in a queue, so that they never overlap, and an import that was superseded while it waited is
  skipped; the editor starts every import at once. What the instance holds is kept as the file of the last import that
  loaded one. What a refused or failed import leaves in it is the library's affair, so nothing is known of it then.
\<close>

section \<open>Files and the document that is wanted\<close>

record docx_upload =
  du_name :: string
  du_size :: nat
  du_modified :: nat
  du_source :: "string option"

definition docx_identity :: "docx_upload \<Rightarrow> string" where
  "docx_identity u = du_name u @ ''-'' @ show_nat (du_size u) @ ''-'' @ show_nat (du_modified u)"

text \<open>A file is the one the user picked, or the answer of a URL under the name it is shown with.\<close>

datatype docx_file = PickedDocx docx_upload | FetchedDocx string string

text \<open>What the load effect closes over; the effect runs again when any of it changes.\<close>

record docx_want =
  want_upload :: "docx_upload option"
  want_url :: "string option"
  want_name :: string

definition wanted_file :: "docx_want \<Rightarrow> docx_file option" where
  "wanted_file w =
     (case want_upload w of
        Some u \<Rightarrow> Some (PickedDocx u)
      | None \<Rightarrow> if falsy (want_url w) then None else Some (FetchedDocx (the (want_url w)) (want_name w)))"

definition docx_display_name :: "docx_upload option \<Rightarrow> string option \<Rightarrow> string option \<Rightarrow> string" where
  "docx_display_name upload url fileName =
     (case upload of
        Some u \<Rightarrow> du_name u
      | None \<Rightarrow> if \<not> falsy url then format_document_name fileName (the url)
                else (case fileName of Some n \<Rightarrow> n | None \<Rightarrow> ''document.docx''))"

text \<open>
  The answer of \<open>fetch\<close> is a rejection or a status; an answer that is not ok throws, with the status in its message.
\<close>

type_synonym fetch_answer = "js_error + nat"

definition fetch_failure :: "string \<Rightarrow> fetch_answer \<Rightarrow> js_error option" where
  "fetch_failure what answer =
     (case answer of
        Inl e \<Rightarrow> Some e
      | Inr status \<Rightarrow> if 200 \<le> status \<and> status < 300 then None
                      else Some (JsError (''Failed to '' @ what @ '' DOCX ('' @ show_nat status @ '')'')))"

definition load_docx_file :: "string \<Rightarrow> string \<Rightarrow> fetch_answer \<Rightarrow> js_error + docx_file" where
  "load_docx_file url displayFileName answer =
     (case fetch_failure ''fetch'' answer of Some e \<Rightarrow> Inl e | None \<Rightarrow> Inr (FetchedDocx url displayFileName))"

text \<open>What a download saves, and under which name; without a file and without a URL it saves nothing.\<close>

definition download_docx_file ::
  "docx_upload option \<Rightarrow> string \<Rightarrow> string option \<Rightarrow> fetch_answer \<Rightarrow> js_error + (docx_file \<times> string) option" where
  "download_docx_file upload fileName url answer =
     (case upload of
        Some u \<Rightarrow> Inr (Some (PickedDocx u, ensure_docx_extension fileName))
      | None \<Rightarrow> if falsy url then Inr None
                else (case fetch_failure ''download'' answer of
                        Some e \<Rightarrow> Inl e
                      | None \<Rightarrow> Inr (Some (FetchedDocx (the url) fileName, ensure_docx_extension fileName))))"

text \<open>The library ends an import by loading the file, by refusing it (which it tells by its status) or by throwing.\<close>

datatype import_end = ImportLoads | ImportRefuses | ImportThrows js_error

definition held_after :: "docx_want \<Rightarrow> import_end \<Rightarrow> docx_file option" where
  "held_after w e = (if e = ImportLoads then wanted_file w else None)"

datatype import_phase = FetchingDocx | ImportingDocx

type_synonym import_job = "nat \<times> docx_want"

definition job_first_phase :: "docx_want \<Rightarrow> import_phase" where
  "job_first_phase w = (if want_upload w = None then FetchingDocx else ImportingDocx)"

definition status_fails :: "string \<Rightarrow> bool" where
  "status_fails s \<longleftrightarrow> starts_with s ''Failed to load file'' \<or> s = ''Only .docx files are supported''"

lemma wanted_file_None: "wanted_file w = None \<longleftrightarrow> want_upload w = None \<and> falsy (want_url w)"
  by (auto simp: wanted_file_def split: option.splits)

lemma load_docx_file_wanted:
  assumes "want_upload w = None" "\<not> falsy (want_url w)" "load_docx_file (the (want_url w)) (want_name w) answer = Inr f"
  shows "wanted_file w = Some f"
  using assms by (auto simp: load_docx_file_def wanted_file_def split: option.splits)

section \<open>The viewer\<close>

datatype docx_level = DocxFitPage | DocxFitWidth | DocxAutomatic | DocxPercent rat

record docx_zoom =
  dz_key :: string
  dz_level :: docx_level
  dz_resolved :: rat

record docx_viewer =
  dv_url :: "string option"
  dv_file_name :: "string option"
  dv_default_level :: docx_level
  dv_uploaded :: "docx_upload option"
  dv_current :: nat
  dv_queue :: "import_job list"
  dv_running :: "(import_job \<times> import_phase) option"
  dv_loading :: bool
  dv_error :: "string option"
  dv_pages :: nat
  dv_active :: nat
  dv_zoom :: docx_zoom
  dv_status :: string
  dv_frame :: "string option"
  dv_document :: "docx_file option"
  dv_preparing :: "docx_want option"
  dv_saved :: "(docx_file \<times> string) list"

text \<open>An upload is shown as long as the viewer has the URL it was made at.\<close>

definition dv_active_upload :: "docx_viewer \<Rightarrow> docx_upload option" where
  "dv_active_upload st =
     (case dv_uploaded st of Some u \<Rightarrow> if du_source u = dv_url st then Some u else None | None \<Rightarrow> None)"

definition dv_display_name :: "docx_viewer \<Rightarrow> string" where
  "dv_display_name st = docx_display_name (dv_active_upload st) (dv_url st) (dv_file_name st)"

definition dv_want :: "docx_viewer \<Rightarrow> docx_want" where
  "dv_want st = \<lparr>want_upload = dv_active_upload st, want_url = dv_url st, want_name = dv_display_name st\<rparr>"

definition dv_key :: "docx_viewer \<Rightarrow> string" where
  "dv_key st =
     (case dv_active_upload st of
        Some u \<Rightarrow> docx_identity u
      | None \<Rightarrow> (case dv_url st of Some u \<Rightarrow> u | None \<Rightarrow> []))"

definition dv_has_document :: "docx_viewer \<Rightarrow> bool" where
  "dv_has_document st \<longleftrightarrow> \<not> falsy (dv_url st) \<or> dv_active_upload st \<noteq> None"

definition dv_page_count :: "nat \<Rightarrow> docx_viewer \<Rightarrow> nat" where
  "dv_page_count totalPages st =
     (if dv_has_document st \<and> \<not> dv_loading st \<and> falsy (dv_error st)
      then max 1 (if dv_pages st \<noteq> 0 then dv_pages st else totalPages) else 0)"

definition dv_controls_disabled :: "docx_viewer \<Rightarrow> bool" where
  "dv_controls_disabled st \<longleftrightarrow> \<not> dv_has_document st \<or> dv_loading st \<or> \<not> falsy (dv_error st)"

text \<open>The zoom is kept for one document; another one begins with the default.\<close>

definition default_zoom :: "docx_level \<Rightarrow> rat" where
  "default_zoom l = (case l of DocxPercent p \<Rightarrow> p | _ \<Rightarrow> 50)"

definition dv_active_zoom :: "docx_viewer \<Rightarrow> docx_zoom" where
  "dv_active_zoom st =
     (if dz_key (dv_zoom st) = dv_key st then dv_zoom st
      else \<lparr>dz_key = dv_key st, dz_level = dv_default_level st, dz_resolved = default_zoom (dv_default_level st)\<rparr>)"

definition dv_set_zoom_level :: "docx_level \<Rightarrow> docx_viewer \<Rightarrow> docx_viewer" where
  "dv_set_zoom_level level st =
     st\<lparr>dv_zoom := \<lparr>dz_key = dv_key st, dz_level = level,
        dz_resolved = (case level of DocxPercent p \<Rightarrow> p | _ \<Rightarrow> dz_resolved (dv_active_zoom st))\<rparr>\<rparr>"

definition dv_zoom_change :: "docx_level \<Rightarrow> rat \<Rightarrow> docx_viewer \<Rightarrow> docx_viewer" where
  "dv_zoom_change level resolved st = st\<lparr>dv_zoom := \<lparr>dz_key = dv_key st, dz_level = level, dz_resolved = resolved\<rparr>\<rparr>"

text \<open>
  The load effect: it marks the job before it as superseded and appends a job to the chain. A new key also brings the
  viewer back to its first page.
\<close>

definition load_effect :: "docx_viewer \<Rightarrow> docx_viewer" where
  "load_effect st = st\<lparr>dv_current := dv_current st + 1, dv_queue := dv_queue st @ [(dv_current st + 1, dv_want st)]\<rparr>"

definition dv_rendered :: "docx_viewer \<Rightarrow> docx_viewer \<Rightarrow> docx_viewer" where
  "dv_rendered before st =
     (let st' = (if dv_key st = dv_key before then st else st\<lparr>dv_active := 1\<rparr>)
      in if dv_want st = dv_want before then st' else load_effect st')"

definition dv_props :: "string option \<Rightarrow> string option \<Rightarrow> docx_viewer \<Rightarrow> docx_viewer" where
  "dv_props url fileName st = dv_rendered st (st\<lparr>dv_url := url, dv_file_name := fileName\<rparr>)"

text \<open>A file that is picked is a new object, so the effect runs even when it is the file from before.\<close>

definition dv_upload :: "string \<Rightarrow> nat \<Rightarrow> nat \<Rightarrow> docx_viewer \<Rightarrow> docx_viewer" where
  "dv_upload name bytes modified st =
     (let st' = dv_set_zoom_level (dv_default_level st) st
      in load_effect (st'\<lparr>dv_active := 1, dv_pages := 0,
           dv_uploaded := Some \<lparr>du_name = name, du_size = bytes, du_modified = modified, du_source = dv_url st\<rparr>\<rparr>))"

text \<open>The beginning of \<open>load\<close>, once everything queued before it has ended.\<close>

definition job_begins :: "import_job \<Rightarrow> docx_viewer \<Rightarrow> docx_viewer" where
  "job_begins j st =
     (if fst j \<noteq> dv_current st then st
      else if want_upload (snd j) = None \<and> falsy (want_url (snd j))
           then st\<lparr>dv_loading := False, dv_error := None, dv_pages := 0\<rparr>
      else st\<lparr>dv_loading := True, dv_error := None, dv_pages := 0, dv_running := Some (j, job_first_phase (snd j))\<rparr>)"

definition job_fails :: "import_job \<Rightarrow> js_error \<Rightarrow> docx_viewer \<Rightarrow> docx_viewer" where
  "job_fails j e st =
     (if fst j = dv_current st
      then st\<lparr>dv_error := Some (error_message ''Unknown DOCX load error'' e), dv_loading := False, dv_running := None\<rparr>
      else st\<lparr>dv_running := None\<rparr>)"

definition fetch_settles :: "fetch_answer \<Rightarrow> docx_viewer \<Rightarrow> docx_viewer option" where
  "fetch_settles answer st =
     (case dv_running st of
        Some (j, FetchingDocx) \<Rightarrow>
          Some (case load_docx_file (the (want_url (snd j))) (want_name (snd j)) answer of
                  Inl e \<Rightarrow> job_fails j e st
                | Inr f \<Rightarrow> st\<lparr>dv_running := Some (j, ImportingDocx)\<rparr>)
      | _ \<Rightarrow> None)"

definition import_settles :: "import_end \<Rightarrow> docx_viewer \<Rightarrow> docx_viewer option" where
  "import_settles e st =
     (case dv_running st of
        Some (j, ImportingDocx) \<Rightarrow>
          (let st' = st\<lparr>dv_document := held_after (snd j) e\<rparr>
           in Some (case e of
                 ImportThrows err \<Rightarrow> job_fails j err st'
               | _ \<Rightarrow> if fst j = dv_current st
                      then st'\<lparr>dv_loading := False, dv_active := 1, dv_running := None\<rparr> else st'\<lparr>dv_running := None\<rparr>))
      | _ \<Rightarrow> None)"

text \<open>A new status of the library takes the frame of the last one back and asks for another when it tells of a failure.\<close>

definition status_changes :: "string \<Rightarrow> docx_viewer \<Rightarrow> docx_viewer" where
  "status_changes s st = st\<lparr>dv_status := s, dv_frame := (if status_fails s then Some s else None)\<rparr>"

definition download_begins :: "docx_viewer \<Rightarrow> docx_viewer option" where
  "download_begins st =
     (if dv_preparing st \<noteq> None \<or> (dv_active_upload st = None \<and> falsy (dv_url st)) then None
      else Some (st\<lparr>dv_preparing := Some (dv_want st)\<rparr>))"

definition download_settles :: "fetch_answer \<Rightarrow> docx_viewer \<Rightarrow> docx_viewer option" where
  "download_settles answer st =
     (case dv_preparing st of
        None \<Rightarrow> None
      | Some w \<Rightarrow> (let st' = st\<lparr>dv_preparing := None\<rparr>
                  in Some (case download_docx_file (want_upload w) (want_name w) (want_url w) answer of
                             Inr (Some saved) \<Rightarrow> st'\<lparr>dv_saved := dv_saved st @ [saved]\<rparr>
                           | _ \<Rightarrow> st')))"

datatype docx_viewer_action =
    DocxProps "string option" "string option"
  | DocxUpload string nat nat
  | DocxLevel docx_level
  | DocxZoomReport docx_level rat
  | DocxPageCount nat
  | DocxShowPage nat
  | DocxDownload
  | DocxStatus string
  | JobBegins
  | FetchSettles fetch_answer
  | ImportSettles import_end
  | StatusFrame
  | DownloadSettles fetch_answer

fun docx_viewer_step :: "docx_viewer \<Rightarrow> docx_viewer_action \<Rightarrow> docx_viewer option" where
  "docx_viewer_step st (DocxProps url fileName) = Some (dv_props url fileName st)"
| "docx_viewer_step st (DocxUpload name bytes modified) = Some (dv_upload name bytes modified st)"
| "docx_viewer_step st (DocxLevel level) = Some (dv_set_zoom_level level st)"
| "docx_viewer_step st (DocxZoomReport level resolved) = Some (dv_zoom_change level resolved st)"
| "docx_viewer_step st (DocxPageCount n) = Some (st\<lparr>dv_pages := max 1 n\<rparr>)"
| "docx_viewer_step st (DocxShowPage n) = Some (st\<lparr>dv_active := max 1 n\<rparr>)"
| "docx_viewer_step st DocxDownload = download_begins st"
| "docx_viewer_step st (DocxStatus s) = (if s = dv_status st then None else Some (status_changes s st))"
| "docx_viewer_step st JobBegins =
     (case (dv_running st, dv_queue st) of
        (None, j # js) \<Rightarrow> Some (job_begins j (st\<lparr>dv_queue := js\<rparr>))
      | _ \<Rightarrow> None)"
| "docx_viewer_step st (FetchSettles answer) = fetch_settles answer st"
| "docx_viewer_step st (ImportSettles e) = import_settles e st"
| "docx_viewer_step st StatusFrame =
     (case dv_frame st of
        None \<Rightarrow> None
      | Some s \<Rightarrow> Some (st\<lparr>dv_error := Some s, dv_loading := False, dv_frame := None\<rparr>))"
| "docx_viewer_step st (DownloadSettles answer) = download_settles answer st"

text \<open>The viewer just after it was mounted: the load effect has run once.\<close>

definition docx_viewer_start :: "docx_level \<Rightarrow> string option \<Rightarrow> string option \<Rightarrow> docx_viewer" where
  "docx_viewer_start level url fileName = load_effect
     \<lparr>dv_url = url, dv_file_name = fileName, dv_default_level = level, dv_uploaded = None, dv_current = 0, dv_queue = [],
      dv_running = None, dv_loading = True, dv_error = None, dv_pages = 0, dv_active = 1,
      dv_zoom = \<lparr>dz_key = [], dz_level = level, dz_resolved = default_zoom level\<rparr>,
      dv_status = [], dv_frame = None, dv_document = None, dv_preparing = None, dv_saved = []\<rparr>"

section \<open>The viewer comes to rest with the document it is asked for\<close>

text \<open>The jobs that have not ended, in the order in which they will.\<close>

definition dv_jobs :: "docx_viewer \<Rightarrow> import_job list" where
  "dv_jobs st = (case dv_running st of Some (j, _) \<Rightarrow> [j] | None \<Rightarrow> []) @ dv_queue st"

definition dv_settled :: "docx_viewer \<Rightarrow> bool" where
  "dv_settled st \<longleftrightarrow>
     \<not> dv_loading st \<and>
     (dv_error st = None \<longrightarrow> wanted_file (dv_want st) = None \<or> dv_document st = None \<or> dv_document st = wanted_file (dv_want st))"

text \<open>
  The last job is the current one and wants what the viewer is to show; a job that is no longer current belongs to an
  effect before it; and without a job the viewer is settled.
\<close>

definition docx_viewer_ok :: "docx_viewer \<Rightarrow> bool" where
  "docx_viewer_ok st \<longleftrightarrow>
     (\<forall>j\<in>set (dv_jobs st). fst j \<le> dv_current st \<and> (fst j = dv_current st \<longrightarrow> snd j = dv_want st)) \<and>
     (dv_jobs st \<noteq> [] \<longrightarrow> fst (last (dv_jobs st)) = dv_current st) \<and>
     (dv_jobs st = [] \<longrightarrow> dv_settled st) \<and>
     (\<forall>j. dv_running st = Some (j, FetchingDocx) \<longrightarrow> want_upload (snd j) = None \<and> \<not> falsy (want_url (snd j)))"

definition docx_viewer_work :: "docx_viewer \<Rightarrow> nat" where
  "docx_viewer_work st =
     3 * length (dv_queue st) + (case dv_running st of None \<Rightarrow> 0 | Some (_, FetchingDocx) \<Rightarrow> 2 | Some (_, ImportingDocx) \<Rightarrow> 1) +
     (if dv_frame st = None then 0 else 1) + (if dv_preparing st = None then 0 else 1)"

definition docx_awaited :: "docx_viewer_action \<Rightarrow> bool" where
  "docx_awaited a =
     (case a of JobBegins \<Rightarrow> True | FetchSettles _ \<Rightarrow> True | ImportSettles _ \<Rightarrow> True | StatusFrame \<Rightarrow> True
      | DownloadSettles _ \<Rightarrow> True | _ \<Rightarrow> False)"

lemma dv_want_cong:
  assumes "dv_url st' = dv_url st" "dv_file_name st' = dv_file_name st" "dv_uploaded st' = dv_uploaded st"
  shows "dv_want st' = dv_want st" "dv_key st' = dv_key st" "dv_active_upload st' = dv_active_upload st"
proof -
  show upload: "dv_active_upload st' = dv_active_upload st" using assms by (simp add: dv_active_upload_def cong: option.case_cong)
  show "dv_want st' = dv_want st" "dv_key st' = dv_key st"
    using assms upload by (simp_all add: dv_want_def dv_key_def dv_display_name_def cong: option.case_cong)
qed

lemma docx_viewer_ok_fetching:
  "docx_viewer_ok st \<Longrightarrow> dv_running st = Some (j, FetchingDocx) \<Longrightarrow> want_upload (snd j) = None \<and> \<not> falsy (want_url (snd j))"
  unfolding docx_viewer_ok_def by blast

lemma docx_viewer_ok_cong:
  assumes "docx_viewer_ok st" "dv_want st' = dv_want st"
    and "dv_current st' = dv_current st" "dv_queue st' = dv_queue st" "dv_running st' = dv_running st"
    and "dv_loading st' = dv_loading st" "dv_error st' = dv_error st" "dv_document st' = dv_document st"
  shows "docx_viewer_ok st'"
  using assms unfolding docx_viewer_ok_def dv_jobs_def dv_settled_def by simp

lemma docx_viewer_ok_same:
  assumes "docx_viewer_ok st"
    and "dv_url st' = dv_url st" "dv_file_name st' = dv_file_name st" "dv_uploaded st' = dv_uploaded st"
    and "dv_current st' = dv_current st" "dv_queue st' = dv_queue st" "dv_running st' = dv_running st"
    and "dv_loading st' = dv_loading st" "dv_error st' = dv_error st" "dv_document st' = dv_document st"
  shows "docx_viewer_ok st'"
  by (rule docx_viewer_ok_cong [OF assms(1) dv_want_cong(1) [OF assms(2-4)] assms(5-)])

text \<open>A run of the load effect is a new last job; the want of the others no longer matters.\<close>

lemma docx_viewer_ok_effect:
  assumes ok: "docx_viewer_ok st" and same: "dv_current st' = dv_current st" "dv_queue st' = dv_queue st" "dv_running st' = dv_running st"
  shows "docx_viewer_ok (load_effect st')"
proof -
  have want: "dv_want (load_effect st') = dv_want st'" by (rule dv_want_cong) (simp_all add: load_effect_def)
  have jobs: "dv_jobs (load_effect st') = dv_jobs st @ [(dv_current st + 1, dv_want st')]"
    using same by (simp add: dv_jobs_def load_effect_def)
  have old: "fst j \<le> dv_current st" if "j \<in> set (dv_jobs st)" for j using ok that unfolding docx_viewer_ok_def by blast
  have "fst j \<le> dv_current (load_effect st') \<and> (fst j = dv_current (load_effect st') \<longrightarrow> snd j = dv_want (load_effect st'))"
    if "j \<in> set (dv_jobs (load_effect st'))" for j
    using that same old unfolding jobs want by (auto simp: load_effect_def dest: old)
  moreover have "want_upload (snd j) = None \<and> \<not> falsy (want_url (snd j))" if "dv_running (load_effect st') = Some (j, FetchingDocx)" for j
    using docx_viewer_ok_fetching [OF ok, of j] same that by (simp add: load_effect_def)
  ultimately show ?thesis unfolding docx_viewer_ok_def using jobs same by (simp add: load_effect_def)
qed

text \<open>The end of a job: either others are left, or it was the current one and has settled the viewer.\<close>

lemma docx_viewer_ok_end:
  assumes ok: "docx_viewer_ok st" and jobs: "dv_jobs st = j # dv_queue st'" and idle: "dv_running st' = None"
    and same: "dv_current st' = dv_current st" "dv_want st' = dv_want st"
    and last_job: "fst j = dv_current st \<Longrightarrow> snd j = dv_want st \<Longrightarrow> dv_settled st'"
  shows "docx_viewer_ok st'"
proof -
  have all: "fst i \<le> dv_current st \<and> (fst i = dv_current st \<longrightarrow> snd i = dv_want st)" if "i \<in> set (dv_jobs st)" for i
    using ok that unfolding docx_viewer_ok_def by blast
  have final: "fst (last (dv_jobs st)) = dv_current st" using ok jobs unfolding docx_viewer_ok_def by simp
  have left: "dv_jobs st' = dv_queue st'" using idle by (simp add: dv_jobs_def)
  have "dv_settled st'" if "dv_queue st' = []" using last_job all [of j] final jobs that by simp
  moreover have "fst (last (dv_queue st')) = dv_current st" if "dv_queue st' \<noteq> []" using final jobs that by simp
  ultimately show ?thesis unfolding docx_viewer_ok_def left using all jobs idle same by simp
qed

lemma docx_viewer_ok_begins:
  assumes ok: "docx_viewer_ok st" and idle: "dv_running st = None" and q: "dv_queue st = j # js"
  shows "docx_viewer_ok (job_begins j (st\<lparr>dv_queue := js\<rparr>))"
proof -
  let ?st = "job_begins j (st\<lparr>dv_queue := js\<rparr>)"
  have want: "dv_want ?st = dv_want st" by (rule dv_want_cong) (simp_all add: job_begins_def)
  have same: "dv_want ?st = dv_want st" "dv_current ?st = dv_current st" "dv_queue ?st = js"
    using want by (simp_all add: job_begins_def)
  have jobs: "dv_jobs st = j # js" using idle q by (simp add: dv_jobs_def)
  show ?thesis
  proof (cases "fst j = dv_current st \<and> \<not> (want_upload (snd j) = None \<and> falsy (want_url (snd j)))")
    case True
    then have running: "dv_running ?st = Some (j, job_first_phase (snd j))" by (auto simp: job_begins_def)
    then have "dv_jobs ?st = dv_jobs st" using jobs same by (simp add: dv_jobs_def)
    moreover have "want_upload (snd i) = None \<and> \<not> falsy (want_url (snd i))" if "dv_running ?st = Some (i, FetchingDocx)" for i
      using True running that by (auto simp: job_first_phase_def split: if_splits)
    ultimately show ?thesis using ok jobs same unfolding docx_viewer_ok_def by simp
  next
    case False
    then have "dv_running ?st = None" using idle by (simp add: job_begins_def)
    moreover have "dv_settled ?st" if "fst j = dv_current st" "snd j = dv_want st"
      using False that same by (simp add: dv_settled_def job_begins_def wanted_file_None)
    ultimately show ?thesis using docx_viewer_ok_end [OF ok, of j ?st] jobs same by simp
  qed
qed

lemma docx_viewer_ok_fails:
  assumes ok: "docx_viewer_ok st" and running: "dv_running st = Some (j, phase)"
  shows "docx_viewer_ok (job_fails j e (st\<lparr>dv_document := d\<rparr>))"
proof (rule docx_viewer_ok_end [OF ok])
  show "dv_jobs st = j # dv_queue (job_fails j e (st\<lparr>dv_document := d\<rparr>))" using running by (simp add: dv_jobs_def job_fails_def)
  show "dv_want (job_fails j e (st\<lparr>dv_document := d\<rparr>)) = dv_want st" by (rule dv_want_cong) (simp_all add: job_fails_def)
qed (auto simp: job_fails_def dv_settled_def)

lemma docx_viewer_ok_fetched:
  assumes ok: "docx_viewer_ok st" and settled: "fetch_settles answer st = Some st'"
  shows "docx_viewer_ok st'"
proof -
  obtain j where running: "dv_running st = Some (j, FetchingDocx)"
    using settled by (auto simp: fetch_settles_def split: option.splits import_phase.splits)
  show ?thesis
  proof (cases "load_docx_file (the (want_url (snd j))) (want_name (snd j)) answer")
    case (Inl e)
    then show ?thesis using docx_viewer_ok_fails [OF ok running, of e "dv_document st"] settled running by (simp add: fetch_settles_def)
  next
    case (Inr f)
    then have st': "st' = st\<lparr>dv_running := Some (j, ImportingDocx)\<rparr>" using settled running by (simp add: fetch_settles_def)
    then have "dv_jobs st' = dv_jobs st" using running by (simp add: dv_jobs_def)
    moreover have "dv_want st' = dv_want st" by (rule dv_want_cong) (simp_all add: st')
    moreover have "dv_jobs st \<noteq> []" using running by (simp add: dv_jobs_def)
    ultimately show ?thesis using ok st' unfolding docx_viewer_ok_def by simp
  qed
qed

lemma docx_viewer_ok_imported:
  assumes ok: "docx_viewer_ok st" and settled: "import_settles e st = Some st'"
  shows "docx_viewer_ok st'"
proof -
  obtain j where running: "dv_running st = Some (j, ImportingDocx)"
    using settled by (auto simp: import_settles_def split: option.splits import_phase.splits)
  show ?thesis
  proof (cases "\<exists>err. e = ImportThrows err")
    case True
    then show ?thesis
      using docx_viewer_ok_fails [OF ok running] settled running by (auto simp: import_settles_def Let_def)
  next
    case False
    show ?thesis
    proof (rule docx_viewer_ok_end [OF ok])
      show "dv_jobs st = j # dv_queue st'" "dv_running st' = None" "dv_current st' = dv_current st" "dv_want st' = dv_want st"
        using False settled running
        by (auto simp: import_settles_def dv_jobs_def Let_def intro!: dv_want_cong split: import_end.splits if_splits)
      then show "dv_settled st'" if "fst j = dv_current st" "snd j = dv_want st"
        using False settled running that
        by (auto simp: import_settles_def dv_settled_def held_after_def Let_def split: import_end.splits if_splits)
    qed
  qed
qed

lemma docx_viewer_ok_props: "docx_viewer_ok st \<Longrightarrow> docx_viewer_ok (dv_props url fileName st)"
proof -
  assume ok: "docx_viewer_ok st"
  let ?st = "st\<lparr>dv_url := url, dv_file_name := fileName\<rparr>"
  let ?st' = "if dv_key ?st = dv_key st then ?st else ?st\<lparr>dv_active := 1\<rparr>"
  have want: "dv_want ?st' = dv_want ?st" by (rule dv_want_cong) simp_all
  have "docx_viewer_ok (load_effect ?st')" by (rule docx_viewer_ok_effect [OF ok]) simp_all
  moreover have "docx_viewer_ok ?st'" if "dv_want ?st = dv_want st"
    by (rule docx_viewer_ok_cong [OF ok]) (use want that in simp_all)
  ultimately show ?thesis by (simp add: dv_props_def dv_rendered_def Let_def)
qed

lemma docx_viewer_ok_step:
  assumes ok: "docx_viewer_ok st" and step: "docx_viewer_step st a = Some st'"
  shows "docx_viewer_ok st'"
proof (cases a)
  case (DocxProps url fileName)
  with step docx_viewer_ok_props [OF ok] show ?thesis by auto
next
  case (DocxUpload name bytes modified)
  with step show ?thesis by (auto simp: dv_upload_def dv_set_zoom_level_def Let_def intro!: docx_viewer_ok_effect [OF ok])
next
  case JobBegins
  with step docx_viewer_ok_begins [OF ok] show ?thesis by (auto split: option.splits list.splits)
next
  case (FetchSettles answer)
  with step docx_viewer_ok_fetched [OF ok] show ?thesis by simp
next
  case (ImportSettles e)
  with step docx_viewer_ok_imported [OF ok] show ?thesis by simp
next
  case StatusFrame
  with step obtain s where st': "st' = st\<lparr>dv_error := Some s, dv_loading := False, dv_frame := None\<rparr>" by (auto split: option.splits)
  have "dv_jobs st' = dv_jobs st" using st' by (simp add: dv_jobs_def)
  moreover have "dv_want st' = dv_want st" by (rule dv_want_cong) (simp_all add: st')
  ultimately show ?thesis using ok st' unfolding docx_viewer_ok_def by (simp add: dv_settled_def)
next
  case (DocxLevel level)
  with step have st': "st' = dv_set_zoom_level level st" by simp
  show ?thesis unfolding st' by (rule docx_viewer_ok_same [OF ok]) (simp_all add: dv_set_zoom_level_def)
next
  case (DocxZoomReport level resolved)
  with step have st': "st' = dv_zoom_change level resolved st" by simp
  show ?thesis unfolding st' by (rule docx_viewer_ok_same [OF ok]) (simp_all add: dv_zoom_change_def)
next
  case (DocxPageCount n)
  with step have st': "st' = st\<lparr>dv_pages := max 1 n\<rparr>" by simp
  show ?thesis unfolding st' by (rule docx_viewer_ok_same [OF ok]) simp_all
next
  case (DocxShowPage n)
  with step have st': "st' = st\<lparr>dv_active := max 1 n\<rparr>" by simp
  show ?thesis unfolding st' by (rule docx_viewer_ok_same [OF ok]) simp_all
next
  case DocxDownload
  with step have st': "st' = st\<lparr>dv_preparing := Some (dv_want st)\<rparr>" by (simp add: download_begins_def split: if_splits)
  show ?thesis unfolding st' by (rule docx_viewer_ok_same [OF ok]) simp_all
next
  case (DocxStatus s)
  with step have st': "st' = status_changes s st" by (simp split: if_splits)
  show ?thesis unfolding st' by (rule docx_viewer_ok_same [OF ok]) (simp_all add: status_changes_def)
next
  case (DownloadSettles answer)
  with step obtain saved where st': "st' = st\<lparr>dv_preparing := None, dv_saved := saved\<rparr>"
    by (auto simp: download_settles_def Let_def split: option.splits sum.splits intro: that [of "dv_saved st"])
  show ?thesis unfolding st' by (rule docx_viewer_ok_same [OF ok]) simp_all
qed

lemma job_fails_fields [simp]:
  "dv_frame (job_fails j e st) = dv_frame st" "dv_preparing (job_fails j e st) = dv_preparing st"
  "dv_queue (job_fails j e st) = dv_queue st" "dv_running (job_fails j e st) = None"
  by (simp_all add: job_fails_def)

lemma docx_viewer_awaited:
  assumes "docx_viewer_ok st" "docx_awaited a" "docx_viewer_step st a = Some st'"
  shows "docx_viewer_work st' < docx_viewer_work st"
proof (cases a)
  case JobBegins
  with assms(3) obtain j js where q: "dv_running st = None" "dv_queue st = j # js" "st' = job_begins j (st\<lparr>dv_queue := js\<rparr>)"
    by (auto split: option.splits list.splits)
  then show ?thesis by (auto simp: docx_viewer_work_def job_begins_def job_first_phase_def)
next
  case (FetchSettles answer)
  with assms(3) obtain j where running: "dv_running st = Some (j, FetchingDocx)"
    by (auto simp: fetch_settles_def split: option.splits import_phase.splits)
  with assms(3) FetchSettles show ?thesis
    by (auto simp: docx_viewer_work_def fetch_settles_def split: sum.splits)
next
  case (ImportSettles e)
  with assms(3) obtain j where running: "dv_running st = Some (j, ImportingDocx)"
    by (auto simp: import_settles_def split: option.splits import_phase.splits)
  with assms(3) ImportSettles show ?thesis
    by (cases "fst j = dv_current st"; cases e) (auto simp: docx_viewer_work_def import_settles_def Let_def)
next
  case StatusFrame
  with assms(3) show ?thesis by (auto simp: docx_viewer_work_def split: option.splits)
next
  case (DownloadSettles answer)
  with assms(3) obtain w saved where "dv_preparing st = Some w" "st' = st\<lparr>dv_preparing := None, dv_saved := saved\<rparr>"
    by (auto simp: download_settles_def Let_def split: option.splits sum.splits intro: that [of _ "dv_saved st"])
  then show ?thesis by (simp add: docx_viewer_work_def)
qed (use assms(2) in \<open>simp_all add: docx_awaited_def\<close>)

lemma docx_viewer_work_left:
  assumes "docx_viewer_ok st" "docx_viewer_work st \<noteq> 0"
  shows "\<exists>a st'. docx_awaited a \<and> docx_viewer_step st a = Some st'"
proof (cases "dv_preparing st = None \<and> dv_frame st = None")
  case True
  have "\<exists>a\<in>{JobBegins, FetchSettles (Inr 200), ImportSettles ImportLoads}. docx_viewer_step st a \<noteq> None"
  proof (cases "dv_running st")
    case None
    with True assms(2) show ?thesis by (cases "dv_queue st") (auto simp: docx_viewer_work_def)
  next
    case (Some r)
    obtain j phase where "r = (j, phase)" by (cases r)
    with Some show ?thesis by (cases phase) (simp_all add: fetch_settles_def import_settles_def Let_def)
  qed
  then obtain a where "a \<in> {JobBegins, FetchSettles (Inr 200), ImportSettles ImportLoads}" "docx_viewer_step st a \<noteq> None" by blast
  moreover from this have "docx_awaited a" by (auto simp: docx_awaited_def)
  ultimately show ?thesis by blast
next
  case False
  then have "\<exists>a\<in>{StatusFrame, DownloadSettles (Inr 200)}. docx_viewer_step st a \<noteq> None"
    by (auto simp: download_settles_def Let_def)
  then obtain a where "a \<in> {StatusFrame, DownloadSettles (Inr 200)}" "docx_viewer_step st a \<noteq> None" by blast
  moreover from this have "docx_awaited a" by (auto simp: docx_awaited_def)
  ultimately show ?thesis by blast
qed

interpretation docx_viewer: resting_machine docx_viewer_step "docx_viewer_start level url fileName" docx_viewer_ok docx_awaited docx_viewer_work
  for level url fileName
proof
  show "docx_viewer_ok (docx_viewer_start level url fileName)"
    by (simp add: docx_viewer_ok_def docx_viewer_start_def load_effect_def dv_jobs_def dv_want_def dv_display_name_def
        dv_active_upload_def)
qed (rule docx_viewer_ok_step docx_viewer_awaited docx_viewer_work_left; assumption)+

text \<open>
  Whatever is picked and whatever URLs it is given, and in whatever order fetches and imports end, the DOCX viewer comes to
  rest after a bounded number of answers and frames. Then it does not show itself as loading, no job is left, and unless it
  shows an error or the library gave up the last import, its editor holds the file that is to be shown now and not
  one it was to show before.
\<close>
theorem docx_viewer_shows_wanted:
  assumes "exec docx_viewer_step (docx_viewer_start level url fileName) acts = Some st"
    and "list_all docx_awaited waits" "exec docx_viewer_step st waits = Some st'"
  shows "length waits + docx_viewer_work st' \<le> docx_viewer_work st \<and>
    ((\<nexists>a st''. docx_awaited a \<and> docx_viewer_step st' a = Some st'') \<longrightarrow>
       \<not> dv_loading st' \<and> dv_jobs st' = [] \<and>
       (dv_error st' = None \<longrightarrow>
          wanted_file (dv_want st') = None \<or> dv_document st' = None \<or> dv_document st' = wanted_file (dv_want st')))"
proof -
  note r = docx_viewer.rests [OF assms]
  have "\<not> dv_loading st' \<and> dv_jobs st' = [] \<and> (dv_error st' = None \<longrightarrow>
          wanted_file (dv_want st') = None \<or> dv_document st' = None \<or> dv_document st' = wanted_file (dv_want st'))"
    if "docx_viewer_ok st' \<and> docx_viewer_work st' = 0"
  proof -
    have "dv_jobs st' = []" using that by (auto simp: docx_viewer_work_def dv_jobs_def split: option.splits import_phase.splits)
    moreover from this have "dv_settled st'" using that by (simp add: docx_viewer_ok_def)
    ultimately show ?thesis by (simp add: dv_settled_def)
  qed
  with r show ?thesis by blast
qed

lemmas docx_viewer_run = docx_viewer_start_def load_effect_def dv_props_def dv_rendered_def dv_upload_def dv_set_zoom_level_def
  dv_key_def dv_want_def dv_active_upload_def dv_display_name_def docx_display_name_def docx_identity_def job_begins_def
  job_first_phase_def job_fails_def fetch_settles_def import_settles_def held_after_def load_docx_file_def fetch_failure_def
  wanted_file_def falsy_def

text \<open>The viewer is given a second URL while it fetches the first: the answer to the first is imported, then the second.\<close>

theorem docx_viewer_shows_wanted_witness:
  "\<exists>st st'. exec docx_viewer_step (docx_viewer_start DocxFitWidth (Some ''a'') (Some ''x''))
      [JobBegins, DocxProps (Some ''b'') (Some ''x'')] = Some st \<and>
    exec docx_viewer_step st
      [FetchSettles (Inr 200), ImportSettles ImportLoads, JobBegins, FetchSettles (Inr 200), ImportSettles ImportLoads] = Some st' \<and>
    5 + docx_viewer_work st' \<le> docx_viewer_work st"
proof -
  have "\<exists>st st'. exec docx_viewer_step (docx_viewer_start DocxFitWidth (Some ''a'') (Some ''x''))
      [JobBegins, DocxProps (Some ''b'') (Some ''x'')] = Some st \<and>
    exec docx_viewer_step st
      [FetchSettles (Inr 200), ImportSettles ImportLoads, JobBegins, FetchSettles (Inr 200), ImportSettles ImportLoads] = Some st'"
    by (simp add: docx_viewer_run Let_def)
  then obtain st st' where r: "exec docx_viewer_step (docx_viewer_start DocxFitWidth (Some ''a'') (Some ''x''))
      [JobBegins, DocxProps (Some ''b'') (Some ''x'')] = Some st"
    "exec docx_viewer_step st
      [FetchSettles (Inr 200), ImportSettles ImportLoads, JobBegins, FetchSettles (Inr 200), ImportSettles ImportLoads] = Some st'"
    by blast
  have "list_all docx_awaited
      [FetchSettles (Inr 200), ImportSettles ImportLoads, JobBegins, FetchSettles (Inr 200), ImportSettles ImportLoads]"
    by (simp add: docx_awaited_def)
  from docx_viewer_shows_wanted [OF r(1) this r(2)] r show ?thesis
    by (intro exI [of _ st] exI [of _ st']) simp
qed

end
