(* ===== verification/DocxEditor.thy ===== *)
theory DocxEditor
  imports DocxDocument
begin

text \<open>
  The state of the DOCX editor (web/src/components/extend/docx-editor.tsx): how it loads documents, without the queue of the
  viewer, the interception of console messages that both install, and the previews of paragraph styles in its toolbar.
\<close>

section \<open>Loading\<close>

text \<open>
  Imports may overlap here. What an import leaves in the editor instance when another was under way beside it is not known,
  so the instance then holds no known file.
\<close>

record docx_editor =
  de_url :: "string option"
  de_file_name :: "string option"
  de_default_scale :: nat
  de_uploaded :: "docx_upload option"
  de_current :: nat
  de_running :: "(import_job \<times> import_phase) list"
  de_mixed :: bool
  de_loading :: bool
  de_error :: "string option"
  de_pages :: nat
  de_active :: nat
  de_scale :: nat
  de_status :: string
  de_document :: "docx_file option"

definition de_want :: "docx_editor \<Rightarrow> docx_want" where
  "de_want st = \<lparr>want_upload = de_uploaded st, want_url = de_url st, want_name = docx_display_name (de_uploaded st) (de_url st) (de_file_name st)\<rparr>"

definition de_has_document :: "docx_editor \<Rightarrow> bool" where
  "de_has_document st \<longleftrightarrow> \<not> falsy (de_url st) \<or> de_uploaded st \<noteq> None"

definition de_page_count :: "nat \<Rightarrow> docx_editor \<Rightarrow> nat" where
  "de_page_count totalPages st =
     (if de_has_document st \<and> \<not> de_loading st \<and> falsy (de_error st)
      then max 1 (if de_pages st \<noteq> 0 then de_pages st else totalPages) else 0)"

definition importing :: "(import_job \<times> import_phase) list \<Rightarrow> bool" where
  "importing rs \<longleftrightarrow> list_ex (\<lambda>r. snd r = ImportingDocx) rs"

definition begin_job :: "import_job \<Rightarrow> docx_editor \<Rightarrow> docx_editor" where
  "begin_job j st =
     (if wanted_file (snd j) = None then st
      else st\<lparr>de_running := de_running st @ [(j, job_first_phase (snd j))],
             de_mixed := de_mixed st \<or> (importing (de_running st) \<and> job_first_phase (snd j) = ImportingDocx)\<rparr>)"

definition editor_load_effect :: "docx_editor \<Rightarrow> docx_editor" where
  "editor_load_effect st = begin_job (de_current st + 1, de_want st) (st\<lparr>de_current := de_current st + 1\<rparr>)"

text \<open>A new default zoom also takes the editor to its first page, a new URL does not.\<close>

definition de_props :: "string option \<Rightarrow> string option \<Rightarrow> nat option \<Rightarrow> docx_editor \<Rightarrow> docx_editor" where
  "de_props url fileName defaultZoom st =
     (let scale = normalize_docx_zoom_scale defaultZoom;
          st1 = st\<lparr>de_url := url, de_file_name := fileName\<rparr>;
          st2 = (if scale = de_default_scale st then st1
                 else st1\<lparr>de_default_scale := scale, de_scale := scale, de_active := 1\<rparr>)
      in if de_want st2 = de_want st then st2 else editor_load_effect st2)"

definition de_upload :: "string \<Rightarrow> nat \<Rightarrow> nat \<Rightarrow> docx_editor \<Rightarrow> docx_editor" where
  "de_upload name bytes modified st = editor_load_effect
     (st\<lparr>de_scale := de_default_scale st, de_active := 1, de_pages := 0, de_loading := True, de_error := None,
        de_uploaded := Some \<lparr>du_name = name, du_size = bytes, du_modified = modified, du_source = None\<rparr>\<rparr>)"

definition editor_job_fails :: "import_job \<Rightarrow> js_error \<Rightarrow> docx_editor \<Rightarrow> docx_editor" where
  "editor_job_fails j e st =
     (if fst j = de_current st
      then st\<lparr>de_error := Some (error_message ''Unknown DOCX load error'' e), de_loading := False\<rparr> else st)"

definition without_job :: "nat \<Rightarrow> (import_job \<times> import_phase) list \<Rightarrow> (import_job \<times> import_phase) list" where
  "without_job n rs = filter (\<lambda>r. fst (fst r) \<noteq> n) rs"

definition find_job :: "nat \<Rightarrow> import_phase \<Rightarrow> docx_editor \<Rightarrow> import_job option" where
  "find_job n phase st = map_option fst (List.find (\<lambda>r. fst (fst r) = n \<and> snd r = phase) (de_running st))"

definition editor_fetch_settles :: "nat \<Rightarrow> fetch_answer \<Rightarrow> docx_editor \<Rightarrow> docx_editor option" where
  "editor_fetch_settles n answer st =
     (case find_job n FetchingDocx st of
        None \<Rightarrow> None
      | Some j \<Rightarrow>
          (let others = without_job n (de_running st)
           in Some (case load_docx_file (the (want_url (snd j))) (want_name (snd j)) answer of
                      Inl e \<Rightarrow> editor_job_fails j e (st\<lparr>de_running := others\<rparr>)
                    | Inr f \<Rightarrow> st\<lparr>de_running := others @ [(j, ImportingDocx)], de_mixed := de_mixed st \<or> importing others\<rparr>)))"

definition editor_import_settles :: "nat \<Rightarrow> import_end \<Rightarrow> docx_editor \<Rightarrow> docx_editor option" where
  "editor_import_settles n e st =
     (case find_job n ImportingDocx st of
        None \<Rightarrow> None
      | Some j \<Rightarrow>
          (let others = without_job n (de_running st);
               st' = st\<lparr>de_running := others, de_mixed := de_mixed st \<and> importing others,
                        de_document := (if de_mixed st then None else held_after (snd j) e)\<rparr>
           in Some (case e of
                      ImportThrows err \<Rightarrow> editor_job_fails j err st'
                    | _ \<Rightarrow> if fst j = de_current st then st'\<lparr>de_loading := False, de_active := 1\<rparr> else st')))"

definition editor_status_changes :: "string \<Rightarrow> docx_editor \<Rightarrow> docx_editor" where
  "editor_status_changes s st =
     (if status_fails s then st\<lparr>de_status := s, de_error := Some s, de_loading := False\<rparr> else st\<lparr>de_status := s\<rparr>)"

datatype docx_editor_action =
    EditorProps "string option" "string option" "nat option"
  | EditorUpload string nat nat
  | EditorStatus string
  | EditorPageCount nat
  | EditorFetchSettles nat fetch_answer
  | EditorImportSettles nat import_end

fun docx_editor_step :: "docx_editor \<Rightarrow> docx_editor_action \<Rightarrow> docx_editor option" where
  "docx_editor_step st (EditorProps url fileName defaultZoom) = Some (de_props url fileName defaultZoom st)"
| "docx_editor_step st (EditorUpload name bytes modified) = Some (de_upload name bytes modified st)"
| "docx_editor_step st (EditorStatus s) = (if s = de_status st then None else Some (editor_status_changes s st))"
| "docx_editor_step st (EditorPageCount n) = Some (st\<lparr>de_pages := max 1 n\<rparr>)"
| "docx_editor_step st (EditorFetchSettles n answer) = editor_fetch_settles n answer st"
| "docx_editor_step st (EditorImportSettles n e) = editor_import_settles n e st"

definition docx_editor_start :: "nat option \<Rightarrow> string option \<Rightarrow> string option \<Rightarrow> docx_editor" where
  "docx_editor_start defaultZoom url fileName = editor_load_effect
     \<lparr>de_url = url, de_file_name = fileName, de_default_scale = normalize_docx_zoom_scale defaultZoom, de_uploaded = None, de_current = 0,
      de_running = [], de_mixed = False, de_loading = (\<not> falsy url), de_error = None, de_pages = 0, de_active = 1,
      de_scale = normalize_docx_zoom_scale defaultZoom, de_status = [], de_document = None\<rparr>"

lemmas docx_editor_run = docx_editor_start_def editor_load_effect_def begin_job_def de_props_def de_upload_def de_want_def
  docx_display_name_def job_first_phase_def editor_job_fails_def without_job_def find_job_def editor_fetch_settles_def
  editor_import_settles_def held_after_def load_docx_file_def fetch_failure_def wanted_file_def falsy_def importing_def
  editor_status_changes_def normalize_docx_zoom_scale_def docx_editor_zooms_def

text \<open>
  A document that arrives late is imported although another has been asked for since, and stays: the editor holds the old
  document, under the name of the new one, and shows neither a spinner nor an error.
\<close>

lemma late_document_stays:
  "\<exists>st. exec docx_editor_step (docx_editor_start None (Some ''a'') (Some ''x''))
      [EditorProps (Some ''b'') (Some ''y'') None, EditorFetchSettles 2 (Inr 200), EditorImportSettles 2 ImportLoads,
       EditorFetchSettles 1 (Inr 200), EditorImportSettles 1 ImportLoads] = Some st \<and>
    de_running st = [] \<and> \<not> de_loading st \<and> de_error st = None \<and>
    de_document st = Some (FetchedDocx ''a'' ''x'') \<and> wanted_file (de_want st) = Some (FetchedDocx ''b'' ''y'')"
  by (simp add: docx_editor_run Let_def format_document_name_def blank_name_def js_trim_def is_ws_def)

lemma show_404: "show_nat 404 = ''404''"
  by code_simp

text \<open>
  An error is not taken back when another URL is given: the document of that URL is loaded, and the error stays in its place.
\<close>

lemma old_error_stays:
  "\<exists>st. exec docx_editor_step (docx_editor_start None (Some ''a'') (Some ''x''))
      [EditorFetchSettles 1 (Inr 404), EditorProps (Some ''b'') (Some ''y'') None,
       EditorFetchSettles 2 (Inr 200), EditorImportSettles 2 ImportLoads] = Some st \<and>
    de_running st = [] \<and> de_document st = wanted_file (de_want st) \<and>
    de_error st = Some ''Failed to fetch DOCX (404)'' \<and> de_page_count 3 st = 0"
  by (simp add: docx_editor_run Let_def format_document_name_def blank_name_def js_trim_def is_ws_def
      de_page_count_def de_has_document_def show_404)

text \<open>
  A picked file outlives the URL it was picked at: another URL does not change what is wanted, but imports the picked file
  once more, over what was edited in it.
\<close>

lemma picked_file_outlives_url:
  assumes "de_uploaded st = Some u" "url \<noteq> de_url st"
  shows "wanted_file (de_want (de_props url fileName z st)) = Some (PickedDocx u)"
    "map (wanted_file \<circ> snd \<circ> fst) (de_running (de_props url fileName z st)) =
     map (wanted_file \<circ> snd \<circ> fst) (de_running st) @ [Some (PickedDocx u)]"
  using assms by (simp_all add: de_props_def Let_def de_want_def editor_load_effect_def begin_job_def wanted_file_def)

text \<open>
  What the editor does promise: as long as another document is only asked for while none is on its way, it comes to rest
  with the document that is wanted.
\<close>

definition calm_editor_step :: "docx_editor \<Rightarrow> docx_editor_action \<Rightarrow> docx_editor option" where
  "calm_editor_step st a =
     (if de_running st \<noteq> [] \<and> (case a of EditorProps _ _ _ \<Rightarrow> True | EditorUpload _ _ _ \<Rightarrow> True | _ \<Rightarrow> False) then None
      else docx_editor_step st a)"

definition de_settled :: "docx_editor \<Rightarrow> bool" where
  "de_settled st \<longleftrightarrow>
     \<not> de_loading st \<and>
     (de_error st = None \<longrightarrow> wanted_file (de_want st) = None \<or> de_document st = None \<or> de_document st = wanted_file (de_want st))"

definition calm_editor_ok :: "docx_editor \<Rightarrow> bool" where
  "calm_editor_ok st \<longleftrightarrow>
     \<not> de_mixed st \<and>
     (case de_running st of
        [] \<Rightarrow> de_settled st
      | (j, phase) # others \<Rightarrow> others = [] \<and> fst j = de_current st \<and> snd j = de_want st \<and>
          (phase = FetchingDocx \<longrightarrow> want_upload (snd j) = None \<and> \<not> falsy (want_url (snd j))))"

definition editor_work :: "docx_editor \<Rightarrow> nat" where
  "editor_work st = sum_list (map (\<lambda>r. if snd r = FetchingDocx then 2 else 1) (de_running st))"

definition editor_awaited :: "docx_editor_action \<Rightarrow> bool" where
  "editor_awaited a = (case a of EditorFetchSettles _ _ \<Rightarrow> True | EditorImportSettles _ _ \<Rightarrow> True | _ \<Rightarrow> False)"

lemma de_want_cong:
  "de_url st' = de_url st \<Longrightarrow> de_file_name st' = de_file_name st \<Longrightarrow> de_uploaded st' = de_uploaded st \<Longrightarrow> de_want st' = de_want st"
  by (simp add: de_want_def)

lemma calm_editor_effect:
  assumes "de_running st = []" "\<not> de_mixed st" "wanted_file (de_want st) = None \<Longrightarrow> \<not> de_loading st"
  shows "calm_editor_ok (editor_load_effect st)"
proof -
  have "de_want (begin_job j st') = de_want st'" for j st' by (rule de_want_cong) (simp_all add: begin_job_def)
  moreover have "de_want (st\<lparr>de_current := n\<rparr>) = de_want st" for n by (rule de_want_cong) simp_all
  ultimately have want: "de_want (editor_load_effect st) = de_want st" by (simp add: editor_load_effect_def)
  show ?thesis
  proof (cases "wanted_file (de_want st)")
    case None
    then have "de_running (editor_load_effect st) = []" "de_mixed (editor_load_effect st) = de_mixed st"
        "de_loading (editor_load_effect st) = de_loading st"
      using assms(1) by (simp_all add: editor_load_effect_def begin_job_def)
    then show ?thesis using None assms want by (simp add: calm_editor_ok_def de_settled_def)
  next
    case (Some f)
    then have "de_running (editor_load_effect st) = [((de_current st + 1, de_want st), job_first_phase (de_want st))]"
        "\<not> de_mixed (editor_load_effect st)" "de_current (editor_load_effect st) = de_current st + 1"
      using assms(1,2) by (simp_all add: editor_load_effect_def begin_job_def importing_def)
    moreover have "want_upload (de_want st) = None \<longrightarrow> \<not> falsy (want_url (de_want st))"
      using Some wanted_file_None [of "de_want st"] by auto
    ultimately show ?thesis using want by (auto simp: calm_editor_ok_def job_first_phase_def)
  qed
qed

lemma calm_editor_running:
  assumes "calm_editor_ok st" "find_job n phase st = Some j"
  shows "de_running st = [(j, phase)]" "fst j = n" "n = de_current st" "snd j = de_want st" "without_job n (de_running st) = []"
proof -
  have "de_running st \<noteq> []" using assms(2) by (auto simp: find_job_def)
  with assms(1) obtain i p where r: "de_running st = [(i, p)]" "fst i = de_current st" "snd i = de_want st"
    by (auto simp: calm_editor_ok_def split: list.splits)
  then show "de_running st = [(j, phase)]" "fst j = n" "n = de_current st" "snd j = de_want st" "without_job n (de_running st) = []"
    using assms(2) by (auto simp: find_job_def without_job_def split: if_splits)
qed

lemma calm_editor_ok_idle:
  assumes "de_running st' = []" "\<not> de_mixed st'" "de_settled st'"
  shows "calm_editor_ok st'"
  using assms by (simp add: calm_editor_ok_def)

lemma calm_editor_fetched:
  assumes ok: "calm_editor_ok st" and settled: "editor_fetch_settles n answer st = Some st'"
  shows "calm_editor_ok st'"
proof -
  obtain j where j: "find_job n FetchingDocx st = Some j" using settled by (auto simp: editor_fetch_settles_def split: option.splits)
  note r = calm_editor_running [OF ok j]
  have mixed: "\<not> de_mixed st" using ok by (simp add: calm_editor_ok_def)
  show ?thesis
  proof (cases "load_docx_file (the (want_url (snd j))) (want_name (snd j)) answer")
    case (Inl e)
    then show ?thesis using settled j r mixed
      by (intro calm_editor_ok_idle) (auto simp: editor_fetch_settles_def editor_job_fails_def de_settled_def Let_def)
  next
    case (Inr f)
    then have "st' = st\<lparr>de_running := [(j, ImportingDocx)], de_mixed := False\<rparr>"
      using settled j r mixed by (simp add: editor_fetch_settles_def importing_def Let_def)
    then show ?thesis using r by (simp add: calm_editor_ok_def de_want_def)
  qed
qed

lemma calm_editor_imported:
  assumes ok: "calm_editor_ok st" and settled: "editor_import_settles n e st = Some st'"
  shows "calm_editor_ok st'"
proof -
  obtain j where j: "find_job n ImportingDocx st = Some j" using settled by (auto simp: editor_import_settles_def split: option.splits)
  note r = calm_editor_running [OF ok j]
  have mixed: "\<not> de_mixed st" using ok by (simp add: calm_editor_ok_def)
  have st': "de_running st' = []" "\<not> de_mixed st'" "\<not> de_loading st'" "de_document st' = held_after (snd j) e"
      "de_want st' = de_want st"
    using settled j r mixed
    by (auto simp: editor_import_settles_def editor_job_fails_def importing_def Let_def de_want_def split: import_end.splits)
  then have "de_settled st'" using r(4) by (simp add: de_settled_def held_after_def)
  with st' show ?thesis by (intro calm_editor_ok_idle)
qed

lemma calm_editor_props:
  assumes ok: "calm_editor_ok st" and idle: "de_running st = []"
  shows "calm_editor_ok (de_props url fileName z st)"
proof -
  have settled: "de_settled st" "\<not> de_mixed st" using ok idle by (simp_all add: calm_editor_ok_def)
  define st2 where "st2 = (if normalize_docx_zoom_scale z = de_default_scale st then st\<lparr>de_url := url, de_file_name := fileName\<rparr>
      else st\<lparr>de_url := url, de_file_name := fileName, de_default_scale := normalize_docx_zoom_scale z,
        de_scale := normalize_docx_zoom_scale z, de_active := 1\<rparr>)"
  have st2: "de_running st2 = []" "\<not> de_mixed st2" "de_loading st2 = de_loading st" "de_error st2 = de_error st"
      "de_document st2 = de_document st"
    using idle settled(2) by (simp_all add: st2_def)
  have "de_props url fileName z st = (if de_want st2 = de_want st then st2 else editor_load_effect st2)"
    by (simp add: de_props_def st2_def Let_def)
  moreover have "calm_editor_ok st2" if "de_want st2 = de_want st"
    using st2 settled that by (intro calm_editor_ok_idle) (simp_all add: de_settled_def)
  moreover have "calm_editor_ok (editor_load_effect st2)"
    using st2 settled(1) by (intro calm_editor_effect) (simp_all add: de_settled_def)
  ultimately show ?thesis by simp
qed

lemma calm_editor_ok_step:
  assumes ok: "calm_editor_ok st" and step: "calm_editor_step st a = Some st'"
  shows "calm_editor_ok st'"
proof (cases a)
  case (EditorProps url fileName z)
  with step have "de_running st = []" "st' = de_props url fileName z st" by (auto simp: calm_editor_step_def split: if_splits)
  with calm_editor_props [OF ok] show ?thesis by simp
next
  case (EditorUpload name bytes modified)
  with step have "de_running st = []" "st' = de_upload name bytes modified st" by (auto simp: calm_editor_step_def split: if_splits)
  moreover have "\<not> de_mixed st" using ok by (simp add: calm_editor_ok_def)
  ultimately show ?thesis
    by (auto simp: de_upload_def intro!: calm_editor_effect) (simp add: de_want_def wanted_file_def)
next
  case (EditorStatus s)
  with step have "st' = editor_status_changes s st" by (auto simp: calm_editor_step_def split: if_splits)
  with ok show ?thesis
    by (auto simp: editor_status_changes_def calm_editor_ok_def de_settled_def de_want_def split: list.splits)
next
  case (EditorPageCount n)
  with step have "st' = st\<lparr>de_pages := max 1 n\<rparr>" by (simp add: calm_editor_step_def)
  with ok show ?thesis by (auto simp: calm_editor_ok_def de_settled_def de_want_def split: list.splits)
next
  case (EditorFetchSettles n answer)
  with step calm_editor_fetched [OF ok] show ?thesis by (auto simp: calm_editor_step_def)
next
  case (EditorImportSettles n e)
  with step calm_editor_imported [OF ok] show ?thesis by (auto simp: calm_editor_step_def)
qed

lemma calm_editor_awaited:
  assumes "calm_editor_ok st" "editor_awaited a" "calm_editor_step st a = Some st'"
  shows "editor_work st' < editor_work st"
proof (cases a)
  case (EditorFetchSettles n answer)
  with assms(3) have settled: "editor_fetch_settles n answer st = Some st'" by (simp add: calm_editor_step_def)
  then obtain j where j: "find_job n FetchingDocx st = Some j" by (auto simp: editor_fetch_settles_def split: option.splits)
  note r = calm_editor_running [OF assms(1) j]
  with settled j show ?thesis
    by (auto simp: editor_work_def editor_fetch_settles_def editor_job_fails_def Let_def split: sum.splits)
next
  case (EditorImportSettles n e)
  with assms(3) have settled: "editor_import_settles n e st = Some st'" by (simp add: calm_editor_step_def)
  then obtain j where j: "find_job n ImportingDocx st = Some j" by (auto simp: editor_import_settles_def split: option.splits)
  note r = calm_editor_running [OF assms(1) j]
  have "de_running st' = []"
    using settled j r by (cases e) (auto simp: editor_import_settles_def editor_job_fails_def Let_def)
  with r(1) show ?thesis by (simp add: editor_work_def)
qed (use assms(2) in \<open>simp_all add: editor_awaited_def\<close>)

lemma editor_work_0: "editor_work st = 0 \<longleftrightarrow> de_running st = []"
  by (cases "de_running st") (simp_all add: editor_work_def)

lemma calm_editor_work_left:
  assumes "calm_editor_ok st" "editor_work st \<noteq> 0"
  shows "\<exists>a st'. editor_awaited a \<and> calm_editor_step st a = Some st'"
proof -
  obtain j phase where r: "de_running st = [(j, phase)]"
    using assms by (auto simp: calm_editor_ok_def editor_work_0 split: list.splits)
  define a where "a = (if phase = FetchingDocx then EditorFetchSettles (fst j) (Inr 200) else EditorImportSettles (fst j) ImportLoads)"
  have "calm_editor_step st a \<noteq> None"
    using r by (cases phase) (auto simp: a_def calm_editor_step_def editor_fetch_settles_def editor_import_settles_def find_job_def Let_def)
  moreover have "editor_awaited a" by (simp add: a_def editor_awaited_def)
  ultimately show ?thesis by blast
qed

interpretation calm_editor: resting_machine calm_editor_step "docx_editor_start z url fileName" calm_editor_ok editor_awaited editor_work
  for z url fileName
proof
  show "calm_editor_ok (docx_editor_start z url fileName)"
    unfolding docx_editor_start_def
    by (rule calm_editor_effect) (auto simp: de_want_def wanted_file_def split: if_splits)
qed (rule calm_editor_ok_step calm_editor_awaited calm_editor_work_left; assumption)+

text \<open>
  The DOCX editor that is asked for another document only while none is on its way comes to rest, neither loading nor with
  another document than the one that is wanted, unless it shows an error or the library gave the import up.
\<close>
theorem docx_editor_shows_wanted:
  assumes "exec calm_editor_step (docx_editor_start z url fileName) acts = Some st"
    and "list_all editor_awaited waits" "exec calm_editor_step st waits = Some st'"
  shows "length waits + editor_work st' \<le> editor_work st \<and>
    ((\<nexists>a st''. editor_awaited a \<and> calm_editor_step st' a = Some st'') \<longrightarrow>
       \<not> de_loading st' \<and> de_running st' = [] \<and>
       (de_error st' = None \<longrightarrow>
          wanted_file (de_want st') = None \<or> de_document st' = None \<or> de_document st' = wanted_file (de_want st')))"
proof -
  note r = calm_editor.rests [OF assms]
  have "\<not> de_loading st' \<and> de_running st' = [] \<and> (de_error st' = None \<longrightarrow>
          wanted_file (de_want st') = None \<or> de_document st' = None \<or> de_document st' = wanted_file (de_want st'))"
    if "calm_editor_ok st' \<and> editor_work st' = 0"
    using that by (auto simp: calm_editor_ok_def editor_work_0 de_settled_def)
  with r show ?thesis by blast
qed

theorem docx_editor_shows_wanted_witness:
  "\<exists>st st'. exec calm_editor_step (docx_editor_start None (Some ''a'') (Some ''x'')) [] = Some st \<and>
    exec calm_editor_step st [EditorFetchSettles 1 (Inr 200), EditorImportSettles 1 ImportLoads] = Some st' \<and>
    2 + editor_work st' \<le> editor_work st"
proof -
  have "\<exists>st st'. exec calm_editor_step (docx_editor_start None (Some ''a'') (Some ''x'')) [] = Some st \<and>
      exec calm_editor_step st [EditorFetchSettles 1 (Inr 200), EditorImportSettles 1 ImportLoads] = Some st'"
    by (simp add: docx_editor_run calm_editor_step_def Let_def)
  then obtain st st' where r: "exec calm_editor_step (docx_editor_start None (Some ''a'') (Some ''x'')) [] = Some st"
      "exec calm_editor_step st [EditorFetchSettles 1 (Inr 200), EditorImportSettles 1 ImportLoads] = Some st'" by blast
  have "list_all editor_awaited [EditorFetchSettles 1 (Inr 200), EditorImportSettles 1 ImportLoads]" by (simp add: editor_awaited_def)
  from docx_editor_shows_wanted [OF r(1) this r(2)] r show ?thesis
    by (intro exI [of _ st] exI [of _ st']) simp
qed

section \<open>The interception of console messages\<close>

text \<open>
  A viewer or editor that shows a document replaces \<open>console.error\<close> by a function that drops the padding warning and
  passes everything else on to the function it found, and puts that function back when it goes or hides its document.
  A function is the list of the instances that wrapped it, the last one first.
\<close>

definition padding_warning :: "string list \<Rightarrow> bool" where
  "padding_warning args \<longleftrightarrow>
     args \<noteq> [] \<and> js_includes (hd args) ''a style property during rerender'' \<and> list_ex (\<lambda>a. js_includes a ''padding'') args"

fun console_passes :: "nat list \<Rightarrow> string list \<Rightarrow> bool" where
  "console_passes [] args = True"
| "console_passes (i # below) args = (if padding_warning args then False else console_passes below args)"

record console =
  con_error :: "nat list"
  con_saved :: "(nat \<times> nat list) list"

datatype console_action = Suppress nat | Restore nat

fun console_step :: "console \<Rightarrow> console_action \<Rightarrow> console option" where
  "console_step c (Suppress i) =
     (if i \<in> fst ` set (con_saved c) then None
      else Some \<lparr>con_error = i # con_error c, con_saved = (i, con_error c) # con_saved c\<rparr>)"
| "console_step c (Restore i) =
     (case map_of (con_saved c) i of
        None \<Rightarrow> None
      | Some original \<Rightarrow> Some \<lparr>con_error = original, con_saved = filter (\<lambda>e. fst e \<noteq> i) (con_saved c)\<rparr>)"

lemma console_passes_iff: "console_passes below args \<longleftrightarrow> below = [] \<or> \<not> padding_warning args"
  by (induction below) auto

text \<open>Instances that go in the reverse order of their coming leave the console as it was.\<close>

lemma nested_suppression_restores:
  assumes "distinct is" "set is \<inter> fst ` set (con_saved c) = {}"
  shows "exec console_step c (map Suppress is @ map Restore (rev is)) = Some c"
  using assms
proof (induction "is" arbitrary: c)
  case (Cons i "is")
  let ?c = "\<lparr>con_error = i # con_error c, con_saved = (i, con_error c) # con_saved c\<rparr>"
  have "exec console_step ?c (map Suppress is @ map Restore (rev is)) = Some ?c"
    using Cons.prems by (intro Cons.IH) auto
  moreover have "filter (\<lambda>e. fst e \<noteq> i) (con_saved c) = con_saved c" using Cons.prems(2) by (auto simp: filter_id_conv)
  ultimately have "exec console_step ?c ((map Suppress is @ map Restore (rev is)) @ [Restore i]) = Some c"
    by (simp only: exec_append) simp
  then show ?case using Cons.prems(2) by simp
qed simp

text \<open>
  Instances that go in the order of their coming do not: the second puts back the function of the first, and the warning
  stays dropped although no document is shown any more.
\<close>

lemma first_in_first_out_stays_suppressed:
  "exec console_step \<lparr>con_error = [], con_saved = []\<rparr> [Suppress 1, Suppress 2, Restore 1, Restore 2] =
     Some \<lparr>con_error = [1], con_saved = []\<rparr>"
  by simp

end
