(* ===== verification/DocxStyles.thy ===== *)
theory DocxStyles
  imports Spreadsheet
begin

text \<open>
  What the toolbar of the DOCX editor computes from the selection (web/src/components/extend/docx-editor.tsx): colours, the
  preview of a paragraph style, the columns of a section, the nearest line spacing and the toggles of the font.
\<close>

section \<open>Colours\<close>

text \<open>Unlike the workbook's, this normalisation wants the hash.\<close>

definition docx_hex_color :: "string option \<Rightarrow> string \<Rightarrow> string" where
  "docx_hex_color value fallback =
     (if falsy value then fallback
      else (let trimmed = js_trim (the value); body = tl trimmed
            in if trimmed = [] \<or> hd trimmed \<noteq> CHR ''#'' then fallback
               else if length body = 3 \<and> list_all is_hex body then to_lower (''#'' @ concat (map (\<lambda>c. [c, c]) body))
               else if length body = 6 \<and> list_all is_hex body then ''#'' @ to_lower body
               else fallback))"

definition highlight_colors :: "(string \<times> string) list" where
  "highlight_colors =
     [(''yellow'', ''#fff59d''), (''green'', ''#bbf7d0''), (''cyan'', ''#a5f3fc''), (''magenta'', ''#f5d0fe''),
      (''red'', ''#fecaca''), (''blue'', ''#bfdbfe'')]"

definition highlight_preview_colors :: "(string \<times> string) list" where
  "highlight_preview_colors = (''black'', ''#111827'') # (''white'', ''#ffffff'') # highlight_colors"

text \<open>A highlight is a colour or the name of one; the names objects inherit are not looked for.\<close>

definition resolve_highlight_preview :: "string option \<Rightarrow> string option" where
  "resolve_highlight_preview value =
     (if falsy value then None
      else (let normalized = to_lower (js_trim (the value))
            in if normalized = [] then None
               else (let hex = docx_hex_color (Some normalized) []
                     in if hex \<noteq> [] then Some hex else map_of highlight_preview_colors normalized)))"

datatype docx_theme = DarkDocx | LightDocx

definition dark_texts :: "string list" where
  "dark_texts = [''#000'', ''#000000'', ''#111111'', ''#111827'', ''black'', ''rgb(0,0,0)'', ''rgb(0, 0, 0)'']"

definition themed_preview_color :: "string option \<Rightarrow> docx_theme \<Rightarrow> string option" where
  "themed_preview_color color theme =
     (if theme \<noteq> DarkDocx then color
      else if falsy color then Some ''#f3f4f6''
      else if to_lower (js_trim (the color)) \<in> set dark_texts then Some ''#f3f4f6''
      else color)"

section \<open>Heading levels\<close>

text \<open>
  The level is the digit of the first place where the name has \<open>heading\<close> or \<open>h\<close>, white space and a digit from 1 to
  6, between the ends of the name or separators.
\<close>

definition separator :: "char \<Rightarrow> bool" where
  "separator c \<longleftrightarrow> is_ws c \<or> c = CHR ''_'' \<or> c = CHR ''-''"

definition heading_digit :: "string \<Rightarrow> nat option" where
  "heading_digit s =
     (case dropWhile is_ws s of
        d # rest \<Rightarrow>
          if d \<in> set ''123456'' \<and> (rest = [] \<or> separator (hd rest)) then Some (digit_value d) else None
      | [] \<Rightarrow> None)"

definition heading_here :: "string \<Rightarrow> nat option" where
  "heading_here s =
     (case (if starts_with (to_lower s) ''heading'' then heading_digit (drop 7 s) else None) of
        Some n \<Rightarrow> Some n
      | None \<Rightarrow> if starts_with (to_lower s) ''h'' then heading_digit (drop 1 s) else None)"

fun heading_after :: "string \<Rightarrow> nat option" where
  "heading_after [] = None"
| "heading_after (c # s) =
     (case (if separator c then heading_here s else None) of Some n \<Rightarrow> Some n | None \<Rightarrow> heading_after s)"

definition infer_heading_level :: "string option \<Rightarrow> nat option" where
  "infer_heading_level value =
     (if falsy value then None
      else (case heading_here (the value) of Some n \<Rightarrow> Some n | None \<Rightarrow> heading_after (the value)))"

record run_style =
  rs_font :: "string option"
  rs_pt :: "rat option"
  rs_bold :: "bool option"
  rs_italic :: "bool option"
  rs_underline :: "bool option"
  rs_strike :: "bool option"
  rs_color :: "string option"
  rs_highlight :: "string option"

record paragraph_style =
  sty_id :: string
  sty_name :: string
  sty_level :: "rat option"
  sty_align :: "string option"
  sty_run :: "run_style option"

text \<open>A level the style has itself counts when it is from 1 to 6; it need not be a whole number.\<close>

definition resolve_heading_level :: "paragraph_style option \<Rightarrow> rat option" where
  "resolve_heading_level option =
     (case option of
        None \<Rightarrow> None
      | Some s \<Rightarrow>
          (case sty_level s of
             Some l \<Rightarrow> if 1 \<le> l \<and> l \<le> 6 then Some l
                       else map_option of_nat (case infer_heading_level (Some (sty_id s)) of
                              Some n \<Rightarrow> Some n | None \<Rightarrow> infer_heading_level (Some (sty_name s)))
           | None \<Rightarrow> map_option of_nat (case infer_heading_level (Some (sty_id s)) of
                              Some n \<Rightarrow> Some n | None \<Rightarrow> infer_heading_level (Some (sty_name s)))))"

definition plain_run :: run_style where
  "plain_run = \<lparr>rs_font = None, rs_pt = None, rs_bold = None, rs_italic = None, rs_underline = None, rs_strike = None,
     rs_color = None, rs_highlight = None\<rparr>"

definition heading_run :: "rat \<Rightarrow> run_style option" where
  "heading_run l =
     (let style = (\<lambda>font pt color. Some (plain_run\<lparr>rs_font := Some font, rs_pt := Some pt, rs_bold := Some True, rs_color := Some color\<rparr>))
      in if l = 1 then style ''Calibri Light'' 16 ''#2f5496''
         else if l = 2 then style ''Calibri Light'' 13 ''#2f5496''
         else if l = 3 then style ''Calibri'' 12 ''#1f3763''
         else if l \<in> {4, 5, 6} then style ''Calibri'' 11 ''#1f3763''
         else None)"

text \<open>Spreading one style over another: its fields count where it has them.\<close>

definition over :: "'a option \<Rightarrow> 'a option \<Rightarrow> 'a option" where
  "over base top_value = (case top_value of Some v \<Rightarrow> Some v | None \<Rightarrow> base)"

definition spread_run :: "run_style \<Rightarrow> run_style \<Rightarrow> run_style" where
  "spread_run a b =
     \<lparr>rs_font = over (rs_font a) (rs_font b), rs_pt = over (rs_pt a) (rs_pt b), rs_bold = over (rs_bold a) (rs_bold b),
      rs_italic = over (rs_italic a) (rs_italic b), rs_underline = over (rs_underline a) (rs_underline b),
      rs_strike = over (rs_strike a) (rs_strike b), rs_color = over (rs_color a) (rs_color b),
      rs_highlight = over (rs_highlight a) (rs_highlight b)\<rparr>"

definition resolve_run_preview :: "paragraph_style option \<Rightarrow> run_style option" where
  "resolve_run_preview option =
     (case option of
        None \<Rightarrow> None
      | Some s \<Rightarrow>
          (case Option.bind (resolve_heading_level option) heading_run of
             Some h \<Rightarrow> Some (spread_run h (case sty_run s of Some r \<Rightarrow> r | None \<Rightarrow> plain_run))
           | None \<Rightarrow> sty_run s))"

text \<open>The style of a preview: a field that is \<open>None\<close> is left to what surrounds it.\<close>

record preview_style =
  pv_align :: string
  pv_family :: "string option"
  pv_size :: rat
  pv_weight :: "nat option"
  pv_italic :: bool
  pv_decoration :: "string option"
  pv_color :: "string option"
  pv_background :: "string option"

definition paragraph_preview :: "paragraph_style \<Rightarrow> docx_theme \<Rightarrow> preview_style" where
  "paragraph_preview s theme =
     (let r = (case resolve_run_preview (Some s) of Some r \<Rightarrow> r | None \<Rightarrow> plain_run);
          decoration = js_join '' '' (truthy_strings
            [if rs_underline r = Some True then ''underline'' else [], if rs_strike r = Some True then ''line-through'' else []])
      in \<lparr>pv_align = (case sty_align s of Some a \<Rightarrow> a | None \<Rightarrow> ''left''),
          pv_family = rs_font r,
          pv_size = (case rs_pt r of Some p \<Rightarrow> if p = 0 then 11 else p | None \<Rightarrow> 11),
          pv_weight = (case rs_bold r of Some b \<Rightarrow> Some (if b then 700 else 400) | None \<Rightarrow> None),
          pv_italic = (rs_italic r = Some True),
          pv_decoration = (if decoration = [] then None else Some decoration),
          pv_color = (case rs_color r of Some c \<Rightarrow> themed_preview_color (Some (docx_hex_color (Some c) ''#111827'')) theme | None \<Rightarrow> None),
          pv_background = resolve_highlight_preview (rs_highlight r)\<rparr>)"

section \<open>The columns of a section\<close>

text \<open>The section properties are XML text: the first \<open>w:cols\<close> tag that closes, and in it two attributes with digits.\<close>

definition word_char :: "char \<Rightarrow> bool" where
  "word_char c \<longleftrightarrow> c \<in> set ''abcdefghijklmnopqrstuvwxyzABCDEFGHIJKLMNOPQRSTUVWXYZ0123456789_''"

fun columns_tag :: "string \<Rightarrow> string option" where
  "columns_tag [] = None"
| "columns_tag (c # s) =
     (let rest = drop 7 (c # s)
      in if starts_with (to_lower (c # s)) ''<w:cols'' \<and> (rest = [] \<or> \<not> word_char (hd rest)) \<and> CHR ''>'' \<in> set rest
         then Some (take 7 (c # s) @ takeWhile (\<lambda>x. x \<noteq> CHR ''>'') rest @ ''>'')
         else columns_tag s)"

definition attribute_here :: "string \<Rightarrow> string \<Rightarrow> string option" where
  "attribute_here name s =
     (let rest = drop (length name) s; digits = takeWhile is_digit rest
      in if starts_with (to_lower s) name \<and> digits \<noteq> [] \<and> starts_with (drop (length digits) rest) [CHR 34] then Some digits else None)"

fun attribute_digits :: "string \<Rightarrow> bool \<Rightarrow> string \<Rightarrow> string option" where
  "attribute_digits name inside [] = None"
| "attribute_digits name inside (c # s) =
     (case (if inside then None else attribute_here name (c # s)) of
        Some ds \<Rightarrow> Some ds
      | None \<Rightarrow> attribute_digits name (word_char c) s)"

record section_columns =
  cols_count :: nat
  cols_gap :: int

definition parse_section_columns :: "string option \<Rightarrow> section_columns option" where
  "parse_section_columns xml =
     (if falsy xml then None
      else (case columns_tag (the xml) of
              None \<Rightarrow> None
            | Some tag \<Rightarrow>
                (let columns = (case attribute_digits (''w:num='' @ [CHR 34]) False tag of
                                Some ds \<Rightarrow> digits_value 10 ds | None \<Rightarrow> 1)
                 in if \<not> js_finite (of_nat columns) \<or> columns \<le> 1 then None
                    else (let twips = (case attribute_digits (''w:space='' @ [CHR 34]) False tag of
                                         Some ds \<Rightarrow> digits_value 10 ds | None \<Rightarrow> 720)
                          in Some \<lparr>cols_count = max 2 columns, cols_gap = max 0 (js_round (of_nat twips * 96 / 1440))\<rparr>))))"

text \<open>
  The active columns: two beside a letterhead, else those of the last section that begins at or before the selection, else those
  of the document, else those of the page layout.
\<close>

record doc_section =
  sec_start :: nat
  sec_xml :: "string option"

definition active_columns :: "bool \<Rightarrow> doc_section list \<Rightarrow> nat \<Rightarrow> string option \<Rightarrow> section_columns \<Rightarrow> section_columns" where
  "active_columns letterhead sections activeNodeIndex documentXml layoutColumns =
     (if letterhead then \<lparr>cols_count = 2, cols_gap = 28\<rparr>
      else (let before = filter (\<lambda>s. sec_start s \<le> activeNodeIndex) sections
            in case (if before = [] then None else parse_section_columns (sec_xml (last before))) of
                 Some c \<Rightarrow> c
               | None \<Rightarrow> (case parse_section_columns documentXml of Some c \<Rightarrow> c | None \<Rightarrow> layoutColumns)))"

section \<open>Selections of the toolbar\<close>

definition line_spacing_options :: "rat list" where
  "line_spacing_options = [1, 115 / 100, 12 / 10, 3 / 2, 2, 5 / 2, 3]"

text \<open>A multiple that is no finite number counts as single spacing.\<close>

definition nearest_line_spacing :: "rat option \<Rightarrow> rat" where
  "nearest_line_spacing multiple =
     (let current = (case multiple of Some m \<Rightarrow> m | None \<Rightarrow> 1)
      in closest_by (\<lambda>c. \<bar>c - current\<bar>) (hd line_spacing_options) line_spacing_options)"

definition fallback_paragraph_styles :: "(string \<times> string) list" where
  "fallback_paragraph_styles =
     [(''Normal'', ''Body''), (''Heading1'', ''Heading 1''), (''Heading2'', ''Heading 2''), (''Heading3'', ''Heading 3'')]"

text \<open>The value of the style list: what is selected, else the first style that tells whether it is the default, else the first.\<close>

definition selected_paragraph_style :: "string option \<Rightarrow> (string \<times> bool) list \<Rightarrow> string" where
  "selected_paragraph_style selected styles =
     (let options = (if styles = [] then map (\<lambda>p. (fst p, False)) fallback_paragraph_styles else styles)
      in case selected of
           Some i \<Rightarrow> i
         | None \<Rightarrow> (case List.find snd options of Some p \<Rightarrow> fst p | None \<Rightarrow> fst (hd options)))"

datatype docx_font_toggle = ToggleBold | ToggleItalic | ToggleUnderline | ToggleStrike | ToggleSuper | ToggleSub

datatype vertical_align = SuperScript | SubScript

definition font_toggle_values :: "run_style \<Rightarrow> vertical_align option \<Rightarrow> docx_font_toggle list" where
  "font_toggle_values r align =
     (if rs_bold r = Some True then [ToggleBold] else []) @ (if rs_italic r = Some True then [ToggleItalic] else []) @
     (if rs_underline r = Some True then [ToggleUnderline] else []) @ (if rs_strike r = Some True then [ToggleStrike] else []) @
     (if align = Some SuperScript then [ToggleSuper] else []) @ (if align = Some SubScript then [ToggleSub] else [])"

text \<open>A toggle group hands over all its values; the editor is called for the first that came or else the first that went.\<close>

definition docx_changed_toggle :: "docx_font_toggle list \<Rightarrow> docx_font_toggle list \<Rightarrow> docx_font_toggle option" where
  "docx_changed_toggle current nextValues =
     (case List.find (\<lambda>v. v \<notin> set current) nextValues of
        Some v \<Rightarrow> Some v
      | None \<Rightarrow> List.find (\<lambda>v. v \<notin> set nextValues) current)"

section \<open>What the toolbar shows\<close>

lemma docx_hex_color_valid:
  assumes "hex_color_text fallback"
  shows "hex_color_text (docx_hex_color value fallback)"
proof -
  have doubled: "list_all is_hex (concat (map (\<lambda>c. [c, c]) body))" if "list_all is_hex body" for body
    using that by (auto simp: list_all_iff)
  show ?thesis
    using assms to_lower_hex doubled [THEN to_lower_hex]
    by (auto simp: docx_hex_color_def hex_color_text_def Let_def to_lower_def lower_hash length_doubled)
qed

lemma hex_text_trimmed:
  assumes "hex_color_text s"
  shows "to_lower (js_trim s) = s"
proof -
  obtain body where s: "s = CHR ''#'' # body" "length body = 6" "list_all (\<lambda>c. is_hex c \<and> lower_char c = c) body"
    using assms by (cases s) (auto simp: hex_color_text_def)
  have "\<not> is_ws c" if "is_hex c" for c using that by (auto simp: is_hex_def is_ws_def)
  then have "\<not> is_ws (last s)" "\<not> is_ws (hd s)"
    using s by (auto simp: list_all_iff is_ws_def)
  then have "js_trim s = s" using s by (intro js_trim_id) auto
  moreover have "map lower_char body = body" using s(3) by (auto simp: list_all_iff intro: map_idI)
  ultimately show ?thesis using s(1) by (simp add: to_lower_def lower_hash)
qed

text \<open>
  A preview writes its text in a colour that is a hash and six lower-case hex digits; on the dark surface it is never one
  of the near-black colours.
\<close>
theorem preview_text_readable:
  assumes "pv_color (paragraph_preview s theme) = Some c"
  shows "hex_color_text c \<and> (theme = DarkDocx \<longrightarrow> c \<notin> set dark_texts)"
proof -
  define r where "r = (case resolve_run_preview (Some s) of Some r \<Rightarrow> r | None \<Rightarrow> plain_run)"
  define hex where "hex = docx_hex_color (rs_color r) ''#111827''"
  have fallback: "hex_color_text ''#111827''" "hex_color_text ''#f3f4f6''" "''#f3f4f6'' \<notin> set dark_texts"
    by (simp_all add: hex_color_text_def is_hex_def lower_char_def dark_texts_def)
  have valid: "hex_color_text hex" unfolding hex_def by (rule docx_hex_color_valid [OF fallback(1)])
  then have full: "\<not> falsy (Some hex)" by (auto simp: hex_color_text_def falsy_def)
  have "themed_preview_color (Some hex) theme = Some c"
    using assms by (auto simp: paragraph_preview_def Let_def r_def [symmetric] hex_def split: option.splits)
  then have "c = (if theme = DarkDocx \<and> hex \<in> set dark_texts then ''#f3f4f6'' else hex)"
    using full hex_text_trimmed [OF valid] by (auto simp: themed_preview_color_def split: if_splits)
  then show ?thesis using valid fallback by (auto split: if_splits)
qed

theorem preview_text_readable_witness:
  "hex_color_text ''#f3f4f6'' \<and> (DarkDocx = DarkDocx \<longrightarrow> ''#f3f4f6'' \<notin> set dark_texts)"
  by (rule preview_text_readable [of "\<lparr>sty_id = ''x'', sty_name = ''x'', sty_level = None, sty_align = None, sty_run = Some (plain_run\<lparr>rs_color := Some ''#000''\<rparr>)\<rparr>" DarkDocx])
     (simp add: paragraph_preview_def resolve_run_preview_def resolve_heading_level_def infer_heading_level_def heading_here_def
       heading_digit_def separator_def is_ws_def plain_run_def docx_hex_color_def js_trim_def is_hex_def themed_preview_color_def
       falsy_def dark_texts_def to_lower_def lower_char_def starts_with_def Let_def)

text \<open>Levels are in the range of the heading styles, whether they are given or read from a name.\<close>

lemma heading_digit_bounds: "heading_digit s = Some n \<Longrightarrow> 1 \<le> n \<and> n \<le> 6"
  by (auto simp: heading_digit_def digit_value_def Let_def split: list.splits if_splits)

lemma heading_here_bounds: "heading_here s = Some n \<Longrightarrow> 1 \<le> n \<and> n \<le> 6"
  using heading_digit_bounds by (auto simp: heading_here_def split: option.splits if_splits)

lemma heading_after_bounds: "heading_after s = Some n \<Longrightarrow> 1 \<le> n \<and> n \<le> 6"
proof (induction s)
  case (Cons c s)
  then show ?case using heading_here_bounds by (auto split: option.splits if_splits)
qed simp

lemma infer_heading_level_bounds: "infer_heading_level value = Some n \<Longrightarrow> 1 \<le> n \<and> n \<le> 6"
  using heading_here_bounds heading_after_bounds by (auto simp: infer_heading_level_def split: option.splits if_splits)

theorem heading_levels_bounded:
  assumes "resolve_heading_level option = Some l"
  shows "1 \<le> l \<and> l \<le> 6"
proof -
  have inferred: "1 \<le> l \<and> l \<le> 6"
    if read: "map_option of_nat (case infer_heading_level a of Some n \<Rightarrow> Some n | None \<Rightarrow> infer_heading_level b) = Some l" for a b
  proof -
    obtain n where n: "1 \<le> n \<and> n \<le> 6" "l = of_nat n"
      using read by (cases "infer_heading_level a") (auto dest: infer_heading_level_bounds)
    then have "of_nat 1 \<le> l" "l \<le> of_nat 6" by (simp_all only: of_nat_le_iff)
    then show ?thesis by simp
  qed
  obtain s where s: "option = Some s" using assms by (cases option) (auto simp: resolve_heading_level_def)
  show ?thesis
  proof (cases "sty_level s")
    case None
    with assms s show ?thesis by (intro inferred) (simp add: resolve_heading_level_def)
  next
    case (Some m)
    with assms s show ?thesis
      by (cases "1 \<le> m \<and> m \<le> 6") (auto simp: resolve_heading_level_def intro!: inferred)
  qed
qed

lemma heading2_level: "infer_heading_level (Some ''Heading2'') = Some 2"
  by code_simp

theorem heading_levels_bounded_witness: "1 \<le> (2 :: rat) \<and> 2 \<le> (6 :: rat)"
  by (rule heading_levels_bounded [of "Some \<lparr>sty_id = ''Heading2'', sty_name = [], sty_level = None, sty_align = None, sty_run = None\<rparr>"])
     (simp add: resolve_heading_level_def heading2_level)

text \<open>
  The heading level of a name with a word before it: \<open>Custom heading 3\<close> is read as its digit, whatever precedes the
  separator as long as it names no level itself.
\<close>

lemma heading_after_append:
  assumes "separator c" "heading_here heading = Some n"
    and "\<forall>k < length pre. separator (pre ! k) \<longrightarrow> heading_here (drop (Suc k) pre @ c # heading) = None"
  shows "heading_after (pre @ c # heading) = Some n"
  using assms
proof (induction pre)
  case (Cons p pre)
  from Cons.prems(3) have first: "separator p \<longrightarrow> heading_here (pre @ c # heading) = None" by (force dest: spec [of _ 0])
  have "\<forall>k < length pre. separator (pre ! k) \<longrightarrow> heading_here (drop (Suc k) pre @ c # heading) = None"
    using Cons.prems(3) by (force dest: spec [of _ "Suc _"])
  with Cons.IH Cons.prems(1,2) first show ?case by simp
qed simp

text \<open>The nearest spacing of the list, and the toggle that tells two sets of font values apart.\<close>

lemma nearest_line_spacing_minimal:
  "nearest_line_spacing (Some m) \<in> set line_spacing_options \<and>
   (\<forall>c\<in>set line_spacing_options. \<bar>nearest_line_spacing (Some m) - m\<bar> \<le> \<bar>c - m\<bar>)"
  using closest_by_minimal [of "\<lambda>c. \<bar>c - m\<bar>" "hd line_spacing_options" line_spacing_options]
  by (auto simp: nearest_line_spacing_def line_spacing_options_def)

lemma find_first: "List.find P xs = Some x \<Longrightarrow> P x \<and> x \<in> set xs" "List.find P xs = None \<longleftrightarrow> (\<forall>x\<in>set xs. \<not> P x)"
  by (induction xs) (auto split: if_splits)

lemma changed_toggle_one:
  assumes "set nextValues = insert v (set current)" "v \<notin> set current"
  shows "docx_changed_toggle current nextValues = Some v" "docx_changed_toggle nextValues current = Some v"
proof -
  have here: "List.find (\<lambda>x. x \<notin> set current) nextValues = Some v"
    using assms find_first [of "\<lambda>x. x \<notin> set current" nextValues] by (cases "List.find (\<lambda>x. x \<notin> set current) nextValues") auto
  moreover have "List.find (\<lambda>x. x \<notin> set nextValues) current = None"
    using assms(1) find_first(2) [of "\<lambda>x. x \<notin> set nextValues" current] by auto
  ultimately show "docx_changed_toggle current nextValues = Some v" "docx_changed_toggle nextValues current = Some v"
    by (simp_all add: docx_changed_toggle_def)
qed

section \<open>Columns are read as they are written\<close>

definition print_columns :: "nat \<Rightarrow> nat \<Rightarrow> string" where
  "print_columns n gap = ''<w:cols w:num='' @ [CHR 34] @ show_nat n @ [CHR 34] @ '' w:space='' @ [CHR 34] @ show_nat gap @ [CHR 34] @ ''/>''"

lemma attribute_digits_skip:
  assumes "list_all is_digit ds" "name \<noteq> []" "\<not> is_digit (hd name)" "\<forall>x. is_digit x \<longrightarrow> lower_char x = x"
  shows "attribute_digits name inside (ds @ s) = attribute_digits name (inside \<and> ds = [] \<or> ds \<noteq> []) s"
  using assms(1)
proof (induction ds arbitrary: inside)
  case (Cons d ds)
  then have "\<not> starts_with (to_lower (d # ds @ s)) name"
    using assms(2-) by (cases name) (auto simp: starts_with_def to_lower_def)
  moreover have "word_char d" using Cons.prems by (auto simp: word_char_def is_digit_def)
  ultimately show ?case using Cons by (simp add: attribute_here_def Let_def)
qed simp

lemma digit_lower: "is_digit x \<Longrightarrow> lower_char x = x"
  by (auto simp: is_digit_def lower_char_def)

lemma take_digits: "list_all is_digit ds \<Longrightarrow> \<not> is_digit c \<Longrightarrow> takeWhile is_digit (ds @ c # s) = ds"
  by (induction ds) auto

lemma attribute_here_print:
  assumes "list_all is_digit ds" "ds \<noteq> []" "to_lower name = name"
  shows "attribute_here name (name @ ds @ CHR 34 # s) = Some ds"
  using assms take_digits [of ds "CHR 34" s]
  by (simp add: attribute_here_def Let_def starts_with_def to_lower_def is_digit_def)

text \<open>
  The columns of a section written with their number and their distance in twips are read back: from two columns on their
  number, and the distance in pixels of a ninety-sixth of an inch, rounded.
\<close>
theorem columns_read_back:
  assumes "2 \<le> n" "js_finite (of_nat n)"
  shows "parse_section_columns (Some (print_columns n gap @ rest)) =
    Some \<lparr>cols_count = n, cols_gap = js_round (of_nat gap / 15)\<rparr>"
proof -
  note digits = show_nat_parses [of n] show_nat_parses [of gap]
  let ?space = "''w:space='' @ [CHR 34]" and ?num = "''w:num='' @ [CHR 34]"
  have "\<not> is_digit CHR ''>''" by (simp add: is_digit_def)
  then have plain: "CHR ''>'' \<notin> set (show_nat k)" for k
    using show_nat_parses [of k] unfolding list_all_iff by blast
  have tag: "columns_tag (print_columns n gap @ rest) = Some (print_columns n gap)"
    using plain [of n] plain [of gap]
    by (simp add: print_columns_def Let_def starts_with_def to_lower_def lower_char_def word_char_def takeWhile_append)
  have tail_of_num: "attribute_digits ?num False (print_columns n gap) = Some (show_nat n)"
    using attribute_here_print [of "show_nat n" ?num] digits
    by (simp add: print_columns_def attribute_here_def starts_with_def to_lower_def lower_char_def word_char_def)
  have "\<not> is_digit CHR ''w''" "\<not> is_digit (CHR 34)" by (simp_all add: is_digit_def)
  then have skip: "attribute_digits ?space inside (show_nat n @ s) = attribute_digits ?space True s"
    and read: "takeWhile is_digit (show_nat gap @ CHR 34 # s) = show_nat gap" for inside s
    using digits attribute_digits_skip [of "show_nat n" ?space inside s] take_digits [of "show_nat gap" "CHR 34" s] digit_lower
    by simp_all
  have tail_of_space: "attribute_digits ?space False (print_columns n gap) = Some (show_nat gap)"
    using digits skip [simplified] read
    by (simp add: print_columns_def attribute_here_def starts_with_def to_lower_def lower_char_def word_char_def)
  have "of_nat gap * 96 / 1440 = (of_nat gap / 15 :: rat)" by simp
  moreover have "0 \<le> js_round (of_nat gap / 15)" by (simp add: js_round_def le_floor_iff)
  moreover have "\<not> falsy (Some (print_columns n gap @ rest))" by (simp add: falsy_def print_columns_def)
  ultimately show ?thesis using assms digits tag tail_of_num tail_of_space
    by (simp add: parse_section_columns_def Let_def)
qed

theorem columns_read_back_witness:
  "parse_section_columns (Some (print_columns 2 720 @ [])) = Some \<lparr>cols_count = 2, cols_gap = js_round (of_nat 720 / 15)\<rparr>"
  by (rule columns_read_back) (simp_all add: js_finite_def)

end
