(* ===== verification/DocxPages.thy ===== *)
theory DocxPages
  imports DocxDocument PdfViewer
begin

text \<open>
  Pages of the DOCX viewer (web/src/components/extend/docx-viewer.tsx): the store of the active page, the page that scrolling
  makes active, scrolling to a page, the page field, and the thumbnails to draw. Positions and sizes are what the browser
  measures; a subscriber of the store is known by how often it was told of a change.
\<close>

section \<open>The active page\<close>

record active_page_store =
  ap_page :: int
  ap_listeners :: "(nat \<times> nat) list"

definition active_page_store_start :: active_page_store where
  "active_page_store_start = \<lparr>ap_page = 1, ap_listeners = []\<rparr>"

text \<open>A page that is no number (\<open>None\<close>) counts as the first one.\<close>

definition set_active_page :: "(int \<Rightarrow> rat option) \<Rightarrow> active_page_store \<Rightarrow> active_page_store" where
  "set_active_page nextPage st =
     (let asked = (case nextPage (ap_page st) of Some v \<Rightarrow> if v = 0 then 1 else v | None \<Rightarrow> 1);
          page = max 1 (js_round asked)
      in if page = ap_page st then st
         else st\<lparr>ap_page := page, ap_listeners := map (\<lambda>l. (fst l, snd l + 1)) (ap_listeners st)\<rparr>)"

definition subscribe_page :: "nat \<Rightarrow> active_page_store \<Rightarrow> active_page_store" where
  "subscribe_page i st = (if i \<in> fst ` set (ap_listeners st) then st else st\<lparr>ap_listeners := ap_listeners st @ [(i, 0)]\<rparr>)"

definition unsubscribe_page :: "nat \<Rightarrow> active_page_store \<Rightarrow> active_page_store" where
  "unsubscribe_page i st = st\<lparr>ap_listeners := filter (\<lambda>l. fst l \<noteq> i) (ap_listeners st)\<rparr>"

text \<open>The pages that are there, in document order, with the number their index attribute reads as and their edges.\<close>

record page_box =
  pb_index :: "rat option"
  pb_top :: rat
  pb_height :: rat

definition box_distance :: "rat \<Rightarrow> page_box \<Rightarrow> rat" where
  "box_distance center b = \<bar>pb_top b + pb_height b / 2 - center\<bar>"

definition closest_page :: "rat \<Rightarrow> rat \<Rightarrow> page_box list \<Rightarrow> rat" where
  "closest_page viewTop viewHeight boxes =
     (case filter (\<lambda>b. pb_index b \<noteq> None) boxes of
        [] \<Rightarrow> 1
      | b # bs \<Rightarrow> the (pb_index (closest_by (box_distance (viewTop + viewHeight / 2)) b bs)) + 1)"

definition update_active_page :: "nat \<Rightarrow> (rat \<times> rat) option \<Rightarrow> page_box list \<Rightarrow> active_page_store \<Rightarrow> active_page_store" where
  "update_active_page pageCount viewport boxes st =
     (case viewport of
        Some (viewTop, viewHeight) \<Rightarrow>
          if pageCount = 0 then st else set_active_page (\<lambda>_. Some (closest_page viewTop viewHeight boxes)) st
      | None \<Rightarrow> st)"

text \<open>Where the viewport scrolls to: the page if it is drawn, else where it would be with pages of the same height.\<close>

definition scroll_to_page :: "nat \<Rightarrow> rat \<Rightarrow> rat \<Rightarrow> rat \<Rightarrow> (rat \<times> rat) \<Rightarrow> page_box list \<Rightarrow> rat" where
  "scroll_to_page pageNumber pageHeight pageGap resolvedZoom viewport boxes =
     (case List.find (\<lambda>b. pb_index b = Some (of_nat pageNumber - 1)) boxes of
        None \<Rightarrow> max 0 ((of_nat pageNumber - 1) * ((pageHeight + pageGap) * (resolvedZoom / 100)) - 24)
      | Some b \<Rightarrow> pb_top b - fst viewport + snd viewport - 24)"

definition docx_page_draft :: "nat \<Rightarrow> string \<Rightarrow> nat option" where
  "docx_page_draft pageCount text_value =
     (let trimmedValue = js_trim text_value
      in if trimmedValue = [] then None
         else (case js_number trimmedValue of
                 Some parsedPage \<Rightarrow>
                   if parsedPage \<in> \<int> then Some (nat (min (max \<lfloor>parsedPage\<rfloor> 1) (int (max pageCount 1)))) else None
               | None \<Rightarrow> None))"

section \<open>Thumbnails\<close>

text \<open>The keys of the thumbnail list; a list without pages takes none.\<close>

definition docx_thumbnail_key :: "nat \<Rightarrow> nat \<Rightarrow> thumbnail_list_key \<Rightarrow> nat option" where
  "docx_thumbnail_key pageCount activePage key =
     (if pageCount < 1 then None
      else (let currentPage = (if activePage > 0 then activePage else 1)
            in case key of
                 ArrowDown \<Rightarrow> Some (min pageCount (currentPage + 1))
               | ArrowUp \<Rightarrow> Some (max 1 (currentPage - 1))
               | HomeKey \<Rightarrow> Some 1
               | EndKey \<Rightarrow> Some pageCount
               | _ \<Rightarrow> None))"

record render_window =
  rw_visible :: "nat list"
  rw_prefetch :: "nat list"

definition prefetch_rows :: nat where "prefetch_rows = 4"

text \<open>
  The page indexes of the rows the virtual list shows and of those up to four rows around them; rows are positions in the
  list of thumbnails.
\<close>

definition row_pages :: "nat list \<Rightarrow> nat list \<Rightarrow> nat list" where
  "row_pages thumbnails rows = map (\<lambda>r. thumbnails ! r) (filter (\<lambda>r. r < length thumbnails) rows)"

definition thumbnail_window :: "bool \<Rightarrow> bool \<Rightarrow> nat list \<Rightarrow> nat list \<Rightarrow> render_window" where
  "thumbnail_window sidebarOpen isLoading thumbnails rows =
     (if \<not> sidebarOpen \<or> isLoading \<or> thumbnails = [] then \<lparr>rw_visible = [], rw_prefetch = []\<rparr>
      else (let visible = row_pages thumbnails rows;
                first_row = (if rows = [] then 0 else hd rows);
                last_row = (if rows = [] then first_row else last rows);
                first_fetched = first_row - prefetch_rows;
                last_fetched = min (length thumbnails - 1) (last_row + prefetch_rows)
            in \<lparr>rw_visible = visible,
                rw_prefetch = filter (\<lambda>p. p \<notin> set visible) (map (\<lambda>r. thumbnails ! r) [first_fetched..<last_fetched + 1])\<rparr>))"

definition number_arrays_equal :: "nat list \<Rightarrow> nat list \<Rightarrow> bool" where
  "number_arrays_equal left right \<longleftrightarrow>
     (length left = length right \<and> list_all (\<lambda>i. left ! i = right ! i) [0..<length left])"

definition change_render_window :: "render_window \<Rightarrow> render_window \<Rightarrow> render_window" where
  "change_render_window current nextWindow =
     (if number_arrays_equal (rw_visible current) (rw_visible nextWindow) \<and>
         number_arrays_equal (rw_prefetch current) (rw_prefetch nextWindow)
      then current else nextWindow)"

definition sidebar_total_pages :: "nat \<Rightarrow> nat \<Rightarrow> nat" where
  "sidebar_total_pages totalPages reportedPageCount = max totalPages reportedPageCount"

section \<open>Facts\<close>

lemma docx_page_draft_same: "docx_page_draft = apply_page_draft"
  by (intro ext) (simp add: docx_page_draft_def apply_page_draft_def Let_def split: option.splits)

lemma number_arrays_equal_iff [simp]: "number_arrays_equal xs ys \<longleftrightarrow> xs = ys"
  by (auto simp: number_arrays_equal_def list_all_iff intro: nth_equalityI)

lemma change_render_window_next: "change_render_window current nextWindow = nextWindow"
  by (cases current; cases nextWindow) (simp add: change_render_window_def)

lemma set_active_page_positive: "1 \<le> ap_page st \<Longrightarrow> 1 \<le> ap_page (set_active_page f st)"
  by (simp add: set_active_page_def Let_def)

text \<open>Every subscriber is told of each change, and of nothing else.\<close>

lemma set_active_page_tells:
  "ap_listeners (set_active_page f st) =
     (if ap_page (set_active_page f st) = ap_page st then ap_listeners st else map (\<lambda>l. (fst l, snd l + 1)) (ap_listeners st))"
  by (simp add: set_active_page_def Let_def)

text \<open>
  Scrolling makes that page active whose middle is nearest to the middle of the viewport; of several that are
  equally near it is one of the pages drawn.
\<close>
theorem scrolling_finds_nearest_page:
  assumes "pageCount \<noteq> 0" "list_all (\<lambda>b. \<exists>n. pb_index b = Some (of_nat n)) boxes" "boxes \<noteq> []"
  shows "\<exists>b\<in>set boxes. pb_index b = Some (of_int (ap_page (update_active_page pageCount (Some (t, h)) boxes st)) - 1) \<and>
    (\<forall>c\<in>set boxes. box_distance (t + h / 2) b \<le> box_distance (t + h / 2) c)"
proof -
  have all: "filter (\<lambda>b. pb_index b \<noteq> None) boxes = boxes" using assms(2) by (auto simp: list_all_iff filter_id_conv)
  obtain b bs where boxes: "boxes = b # bs" using assms(3) by (cases boxes) auto
  define c where "c = closest_by (box_distance (t + h / 2)) b bs"
  have c: "c \<in> set boxes" "\<forall>d\<in>set boxes. box_distance (t + h / 2) c \<le> box_distance (t + h / 2) d"
    using closest_by_minimal [of "box_distance (t + h / 2)" b bs] boxes by (auto simp: c_def)
  obtain n where n: "pb_index c = Some (of_nat n)" using assms(2) c(1) by (auto simp: list_all_iff)
  have "closest_page t h boxes = of_nat n + 1"
    using all boxes n by (simp add: closest_page_def c_def)
  moreover have "js_round (of_nat n + 1) = int n + 1"
    unfolding js_round_def by (simp add: floor_eq_iff)
  moreover have "of_nat n + 1 \<noteq> (0 :: rat)" by linarith
  ultimately have "ap_page (update_active_page pageCount (Some (t, h)) boxes st) = int n + 1"
    using assms(1) by (auto simp: update_active_page_def set_active_page_def Let_def)
  then have "pb_index c = Some (of_int (ap_page (update_active_page pageCount (Some (t, h)) boxes st)) - 1)" using n by simp
  then show ?thesis using c by blast
qed

theorem scrolling_finds_nearest_page_witness:
  "\<exists>b\<in>set [\<lparr>pb_index = Some 0, pb_top = 0, pb_height = 100\<rparr>, \<lparr>pb_index = Some 1, pb_top = 110, pb_height = 100\<rparr>].
    pb_index b = Some (of_int (ap_page (update_active_page 2 (Some (90, 100))
      [\<lparr>pb_index = Some 0, pb_top = 0, pb_height = 100\<rparr>, \<lparr>pb_index = Some 1, pb_top = 110, pb_height = 100\<rparr>]
      active_page_store_start)) - 1)"
proof -
  have whole: "\<exists>n. (0 :: rat) = of_nat n" "\<exists>n. (1 :: rat) = of_nat n"
    by (rule exI [of _ 0], simp) (rule exI [of _ 1], simp)
  have "list_all (\<lambda>b. \<exists>n. pb_index b = Some (of_nat n))
      [\<lparr>pb_index = Some 0, pb_top = 0, pb_height = 100\<rparr>, \<lparr>pb_index = Some 1, pb_top = 110, pb_height = 100\<rparr>]"
    using whole by simp
  moreover have "(2 :: nat) \<noteq> 0" by simp
  ultimately show ?thesis
    using scrolling_finds_nearest_page [where pageCount = 2 and t = 90 and h = 100 and st = active_page_store_start] by blast
qed

text \<open>
  No page is both drawn and fetched ahead; the rows around those shown, up to four on either side, are drawn or fetched ahead,
  and no other row is fetched.
\<close>
theorem thumbnails_around_window:
  assumes "thumbnails \<noteq> []"
  shows "set (rw_visible (thumbnail_window True False thumbnails rows)) \<inter> set (rw_prefetch (thumbnail_window True False thumbnails rows)) = {} \<and>
    set (rw_visible (thumbnail_window True False thumbnails rows)) \<union> set (rw_prefetch (thumbnail_window True False thumbnails rows)) =
      (!) thumbnails ` {r. r < length thumbnails \<and>
        (r \<in> set rows \<or>
         (if rows = [] then 0 else hd rows) \<le> r + prefetch_rows \<and> r \<le> (if rows = [] then 0 else last rows) + prefetch_rows)}"
proof -
  define lo where "lo = (if rows = [] then 0 else hd rows) - prefetch_rows"
  define hi where "hi = min (length thumbnails - 1) ((if rows = [] then 0 else last rows) + prefetch_rows)"
  have shown: "set (row_pages thumbnails rows) = (!) thumbnails ` {r. r < length thumbnails \<and> r \<in> set rows}"
    by (auto simp: row_pages_def)
  have window: "rw_visible (thumbnail_window True False thumbnails rows) = row_pages thumbnails rows"
    "rw_prefetch (thumbnail_window True False thumbnails rows) =
       filter (\<lambda>p. p \<notin> set (row_pages thumbnails rows)) (map (\<lambda>r. thumbnails ! r) [lo..<hi + 1])"
    using assms by (simp_all add: thumbnail_window_def Let_def lo_def hi_def)
  have around: "{lo..<hi + 1} = {r. r < length thumbnails \<and>
      (if rows = [] then 0 else hd rows) \<le> r + prefetch_rows \<and> r \<le> (if rows = [] then 0 else last rows) + prefetch_rows}"
    using assms by (auto simp: lo_def hi_def less_Suc_eq_le simp flip: length_greater_0_conv)
  have "set (rw_visible (thumbnail_window True False thumbnails rows)) \<union> set (rw_prefetch (thumbnail_window True False thumbnails rows)) =
      set (row_pages thumbnails rows) \<union> (!) thumbnails ` {lo..<hi + 1}"
    unfolding window by (auto simp del: upt_Suc)
  also have "\<dots> = (!) thumbnails ` {r. r < length thumbnails \<and> (r \<in> set rows \<or>
      (if rows = [] then 0 else hd rows) \<le> r + prefetch_rows \<and> r \<le> (if rows = [] then 0 else last rows) + prefetch_rows)}"
    unfolding shown around image_Un [symmetric] by (rule arg_cong [where f = "image _"]) blast
  finally show ?thesis unfolding window by (simp del: upt_Suc) blast
qed

theorem thumbnails_around_window_witness:
  "set (rw_visible (thumbnail_window True False [0, 1, 2] [0])) \<inter> set (rw_prefetch (thumbnail_window True False [0, 1, 2] [0])) = {}"
  using thumbnails_around_window [of "[0, 1, 2]" "[0]"] by (simp only: list.distinct not_False_eq_True True_implies_equals)

end
