(* ===== verification/PdfProperties.thy ===== *)
theory PdfProperties
  imports Spreadsheet
begin

text \<open>
  The properties panel of the PDF editor (web/src/components/extend/pdf-editor-properties.tsx): which properties the selected
  annotations share, the debounced controls, border styles and rotations, and the patches the panel applies.

  An annotation is what the annotation engine keeps of it: its page, its identity, its flags and its properties by name.
  Which tool an annotation belongs to, what a rotation changes in it and whether it is locked are told by the engine and are
  arguments.
\<close>

section \<open>Properties of tools\<close>

datatype property_kind =
    ColorKind | ColorWithTransparent | OpacityKind | StrokeWidthKind | StrokeStyleKind | StrokeStyleWithCloudy | LinkStrokeStyle
  | LineEndingKind | LineEndingsKind | FontFamilyKind | FontSizeKind | FontColorKind | TextAlignKind | VerticalAlignKind
  | BlendModeKind | OverlayTextKind | RotationKind

record property_config =
  pc_key :: string
  pc_kind :: property_kind
  pc_label :: string
  pc_edit_only :: bool

definition property_configs :: "(string \<times> property_config) list" where
  "property_configs =
     [(''color'', \<lparr>pc_key = ''color'', pc_kind = ColorWithTransparent, pc_label = ''Fill'', pc_edit_only = False\<rparr>),
      (''strokeColor'', \<lparr>pc_key = ''strokeColor'', pc_kind = ColorWithTransparent, pc_label = ''Stroke'', pc_edit_only = False\<rparr>),
      (''markupColor'', \<lparr>pc_key = ''strokeColor'', pc_kind = ColorKind, pc_label = ''Color'', pc_edit_only = False\<rparr>),
      (''opacity'', \<lparr>pc_key = ''opacity'', pc_kind = OpacityKind, pc_label = ''Opacity'', pc_edit_only = False\<rparr>),
      (''strokeWidth'', \<lparr>pc_key = ''strokeWidth'', pc_kind = StrokeWidthKind, pc_label = ''Stroke width'', pc_edit_only = False\<rparr>),
      (''strokeStyle'', \<lparr>pc_key = ''strokeStyle'', pc_kind = StrokeStyleKind, pc_label = ''Border style'', pc_edit_only = False\<rparr>),
      (''strokeStyleWithCloudy'', \<lparr>pc_key = ''strokeStyle'', pc_kind = StrokeStyleWithCloudy, pc_label = ''Border style'', pc_edit_only = False\<rparr>),
      (''linkStrokeStyle'', \<lparr>pc_key = ''strokeStyle'', pc_kind = LinkStrokeStyle, pc_label = ''Border style'', pc_edit_only = False\<rparr>),
      (''lineEnding'', \<lparr>pc_key = ''lineEnding'', pc_kind = LineEndingKind, pc_label = ''Line ending'', pc_edit_only = False\<rparr>),
      (''lineEndings'', \<lparr>pc_key = ''lineEndings'', pc_kind = LineEndingsKind, pc_label = ''Line endings'', pc_edit_only = False\<rparr>),
      (''fontFamily'', \<lparr>pc_key = ''fontFamily'', pc_kind = FontFamilyKind, pc_label = ''Font'', pc_edit_only = False\<rparr>),
      (''fontSize'', \<lparr>pc_key = ''fontSize'', pc_kind = FontSizeKind, pc_label = ''Font size'', pc_edit_only = False\<rparr>),
      (''fontColor'', \<lparr>pc_key = ''fontColor'', pc_kind = FontColorKind, pc_label = ''Text color'', pc_edit_only = False\<rparr>),
      (''textAlign'', \<lparr>pc_key = ''textAlign'', pc_kind = TextAlignKind, pc_label = ''Alignment'', pc_edit_only = False\<rparr>),
      (''verticalAlign'', \<lparr>pc_key = ''verticalAlign'', pc_kind = VerticalAlignKind, pc_label = ''Vertical alignment'', pc_edit_only = False\<rparr>),
      (''blendMode'', \<lparr>pc_key = ''blendMode'', pc_kind = BlendModeKind, pc_label = ''Blend mode'', pc_edit_only = False\<rparr>),
      (''overlayText'', \<lparr>pc_key = ''overlayText'', pc_kind = OverlayTextKind, pc_label = ''Overlay text'', pc_edit_only = False\<rparr>),
      (''rotation'', \<lparr>pc_key = ''rotation'', pc_kind = RotationKind, pc_label = ''Rotation'', pc_edit_only = True\<rparr>)]"

definition tool_properties :: "(string \<times> string list) list" where
  "tool_properties =
     [(''highlight'', [''markupColor'', ''opacity'', ''blendMode'']),
      (''underline'', [''markupColor'', ''opacity'', ''blendMode'']),
      (''strikeout'', [''markupColor'', ''opacity'', ''blendMode'']),
      (''squiggly'', [''markupColor'', ''opacity'', ''blendMode'']),
      (''ink'', [''markupColor'', ''opacity'', ''strokeWidth'', ''rotation'']),
      (''inkHighlighter'', [''markupColor'', ''opacity'', ''strokeWidth'', ''blendMode'', ''rotation'']),
      (''signatureInk'', [''markupColor'', ''opacity'', ''strokeWidth'', ''rotation'']),
      (''circle'', [''color'', ''opacity'', ''strokeColor'', ''strokeStyleWithCloudy'', ''strokeWidth'', ''rotation'']),
      (''square'', [''color'', ''opacity'', ''strokeColor'', ''strokeStyleWithCloudy'', ''strokeWidth'', ''rotation'']),
      (''polygon'', [''strokeColor'', ''opacity'', ''strokeStyleWithCloudy'', ''strokeWidth'', ''color'', ''rotation'']),
      (''line'', [''strokeColor'', ''opacity'', ''strokeStyle'', ''strokeWidth'', ''lineEndings'', ''color'', ''rotation'']),
      (''lineArrow'', [''strokeColor'', ''opacity'', ''strokeStyle'', ''strokeWidth'', ''lineEndings'', ''color'', ''rotation'']),
      (''polyline'', [''strokeColor'', ''opacity'', ''strokeStyle'', ''strokeWidth'', ''lineEndings'', ''color'', ''rotation'']),
      (''textComment'', [''markupColor'', ''opacity'']),
      (''insertText'', [''markupColor'', ''opacity'']),
      (''replaceText'', [''markupColor'', ''opacity'']),
      (''freeText'', [''fontFamily'', ''fontSize'', ''fontColor'', ''textAlign'', ''verticalAlign'', ''opacity'', ''color'', ''rotation'']),
      (''freeTextCallout'', [''fontFamily'', ''fontSize'', ''fontColor'', ''textAlign'', ''verticalAlign'', ''opacity'', ''color'', ''markupColor'', ''strokeWidth'', ''lineEnding'']),
      (''stamp'', [''rotation'']),
      (''rubberStamp'', [''rotation'']),
      (''signatureStamp'', [''rotation'']),
      (''redact'', [''strokeColor'', ''color'', ''opacity'', ''overlayText'']),
      (''link'', [''strokeColor'', ''strokeWidth'', ''linkStrokeStyle'']),
      (''formTextField'', [''fontSize'', ''fontColor'', ''strokeColor'', ''strokeWidth'', ''color'']),
      (''formCheckbox'', [''strokeColor'', ''color'', ''strokeWidth'']),
      (''formCombobox'', [''fontSize'', ''fontColor'', ''strokeColor'', ''strokeWidth'', ''color'']),
      (''formListbox'', [''fontFamily'', ''fontSize'', ''fontColor'', ''strokeColor'', ''strokeWidth'', ''color'']),
      (''formRadioButton'', [''strokeColor'', ''color'', ''strokeWidth''])]"

definition properties_of_tool :: "string \<Rightarrow> string list" where
  "properties_of_tool i = (case map_of tool_properties i of Some ps \<Rightarrow> ps | None \<Rightarrow> [])"

text \<open>
  The set of the first tool loses, tool by tool, what the tool does not have; what is left is listed in the order of the
  first tool.
\<close>

definition get_shared_properties :: "string list \<Rightarrow> string list" where
  "get_shared_properties toolIds =
     (case js_set toolIds of
        [] \<Rightarrow> []
      | tool # rest \<Rightarrow>
          (let left = foldl (\<lambda>first i. filter (\<lambda>p. p \<in> set (js_set (properties_of_tool i))) first) (js_set (properties_of_tool tool)) rest
           in filter (\<lambda>p. p \<in> set left) (properties_of_tool tool)))"

definition shown_configs :: "bool \<Rightarrow> string list \<Rightarrow> property_config list" where
  "shown_configs isEditing keys = filter (\<lambda>c. isEditing \<or> \<not> pc_edit_only c) (List.map_filter (map_of property_configs) keys)"

section \<open>Debounced controls\<close>

text \<open>
  A control shows a draft of its value and commits it some time after the last change. The commit goes to whatever the
  control stands for when the time has passed: the last rendering's callback, here named by a number.
\<close>

record 'a debounced =
  db_value :: 'a
  db_draft :: 'a
  db_timer :: "'a option"
  db_target :: nat
  db_commits :: "(nat \<times> 'a) list"

definition debounced_start :: "'a \<Rightarrow> nat \<Rightarrow> 'a debounced" where
  "debounced_start v target = \<lparr>db_value = v, db_draft = v, db_timer = None, db_target = target, db_commits = []\<rparr>"

datatype 'a debounced_action = DbUpdate 'a | DbRender 'a nat | DbTimer | DbUnmount

fun debounced_step :: "'a debounced \<Rightarrow> 'a debounced_action \<Rightarrow> 'a debounced option" where
  "debounced_step st (DbUpdate v) = Some (st\<lparr>db_draft := v, db_timer := Some v\<rparr>)"
| "debounced_step st (DbRender v target) =
     (let st' = st\<lparr>db_target := target\<rparr> in Some (if v = db_value st then st' else st'\<lparr>db_value := v, db_draft := v\<rparr>))"
| "debounced_step st DbTimer =
     (case db_timer st of
        None \<Rightarrow> None
      | Some v \<Rightarrow> Some (st\<lparr>db_timer := None, db_commits := db_commits st @ [(db_target st, v)]\<rparr>))"
| "debounced_step st DbUnmount = Some (st\<lparr>db_timer := None\<rparr>)"

section \<open>Controls\<close>

definition color_control :: "string option \<Rightarrow> bool \<times> string" where
  "color_control v =
     (let current = to_lower (case v of Some c \<Rightarrow> c | None \<Rightarrow> []);
          isTransparent = falsy v \<or> current = ''transparent''
      in (isTransparent, if isTransparent then ''#111827'' else the v))"

definition font_size_presets :: "rat list" where
  "font_size_presets = [8, 9, 10, 11, 12, 14, 16, 18, 20, 24, 28, 32, 36, 48, 72]"

definition font_size_options :: "rat \<Rightarrow> rat list" where
  "font_size_options draft = (if draft \<in> set font_size_presets then font_size_presets else insort draft font_size_presets)"

definition font_size_typed :: "rat option \<Rightarrow> rat option" where
  "font_size_typed next_size = (case next_size of Some n \<Rightarrow> if n > 0 then Some n else None | None \<Rightarrow> None)"

text \<open>The remainder of JavaScript has the sign of the dividend.\<close>

definition rat_rem :: "rat \<Rightarrow> rat \<Rightarrow> rat" where
  "rat_rem a b = (let q = a / b in a - b * of_int (if q < 0 then - \<lfloor>- q\<rfloor> else \<lfloor>q\<rfloor>))"

definition rotation_typed :: "rat \<Rightarrow> rat" where
  "rotation_typed v = rat_rem (rat_rem v 360 + 360) 360"

section \<open>Border styles\<close>

datatype border_style = BorderSolid | BorderDashed | BorderBeveled | BorderInset | BorderUnderline | BorderCloudy

datatype stroke_style =
    StrokeSolid | StrokeDotted | StrokeShortDashed | StrokeDashed | StrokeLongDashed | StrokeDashDot | StrokeLongDashDot
  | StrokeDashDotDot | StrokeCloudy1 | StrokeCloudy2 | StrokeUnderline | StrokeCustom

definition stroke_style_presets :: "(stroke_style \<times> rat list option) list" where
  "stroke_style_presets =
     [(StrokeSolid, None), (StrokeDotted, Some [1, 2]), (StrokeShortDashed, Some [2, 2]), (StrokeDashed, Some [4, 3]),
      (StrokeLongDashed, Some [8, 4]), (StrokeDashDot, Some [6, 3, 1, 3]), (StrokeLongDashDot, Some [10, 4, 1, 4]),
      (StrokeDashDotDot, Some [6, 3, 1, 3, 1, 3])]"

definition get_stroke_dash_array :: "stroke_style \<Rightarrow> rat list option" where
  "get_stroke_dash_array v = Option.bind (List.find (\<lambda>p. fst p = v) stroke_style_presets) snd"

definition same_dashes :: "rat list option \<Rightarrow> rat list option \<Rightarrow> bool" where
  "same_dashes a b =
     (case (a, b) of
        (Some xs, Some ys) \<Rightarrow> length xs = length ys \<and> list_all (\<lambda>i. xs ! i = ys ! i) [0..<length xs]
      | _ \<Rightarrow> False)"

definition get_stroke_style_value :: "border_style option \<Rightarrow> rat option \<Rightarrow> rat list option \<Rightarrow> stroke_style" where
  "get_stroke_style_value strokeStyle intensity dashes =
     (if strokeStyle = Some BorderCloudy \<or> (case intensity of Some i \<Rightarrow> i | None \<Rightarrow> 0) > 0
      then (if (case intensity of Some i \<Rightarrow> i | None \<Rightarrow> 1) \<ge> 2 then StrokeCloudy2 else StrokeCloudy1)
      else if strokeStyle = Some BorderUnderline then StrokeUnderline
      else if strokeStyle = Some BorderDashed
           then (case List.find (\<lambda>p. same_dashes (snd p) dashes) stroke_style_presets of
                   Some p \<Rightarrow> fst p | None \<Rightarrow> StrokeCustom)
      else StrokeSolid)"

record stroke_patch =
  sp_style :: border_style
  sp_dashes :: "rat list option"
  sp_intensity :: rat

definition get_stroke_style_patch :: "stroke_style \<Rightarrow> rat list option \<Rightarrow> stroke_patch" where
  "get_stroke_style_patch v customDashes =
     (let dashes = get_stroke_dash_array v
      in if dashes \<noteq> None \<or> v = StrokeCustom
         then \<lparr>sp_style = BorderDashed,
               sp_dashes = Some (case dashes of Some d \<Rightarrow> d | None \<Rightarrow> (case customDashes of Some d \<Rightarrow> d | None \<Rightarrow> [4, 3])),
               sp_intensity = 0\<rparr>
         else if v = StrokeUnderline then \<lparr>sp_style = BorderUnderline, sp_dashes = None, sp_intensity = 0\<rparr>
         else if v = StrokeCloudy1 then \<lparr>sp_style = BorderCloudy, sp_dashes = None, sp_intensity = 1\<rparr>
         else if v = StrokeCloudy2 then \<lparr>sp_style = BorderCloudy, sp_dashes = None, sp_intensity = 2\<rparr>
         else \<lparr>sp_style = BorderSolid, sp_dashes = None, sp_intensity = 0\<rparr>)"

text \<open>The styles the control offers: a link's underline after solid, clouds at the end, and a custom one only where it is set.\<close>

definition stroke_style_options :: "property_kind \<Rightarrow> stroke_style \<Rightarrow> stroke_style list" where
  "stroke_style_options kind selectedValue =
     (let presets = map fst stroke_style_presets
      in (if kind = LinkStrokeStyle then take 1 presets @ [StrokeUnderline] @ drop 1 presets else presets) @
         (if kind = StrokeStyleWithCloudy then [StrokeCloudy1, StrokeCloudy2] else []) @
         (if selectedValue = StrokeCustom then [StrokeCustom] else []))"

section \<open>The panel\<close>

record pdf_annotation =
  pa_id :: nat
  pa_page :: nat
  pa_flags :: "string list"
  pa_locked :: bool
  pa_modified :: nat
  pa_props :: "(string \<times> js_value) list"

record properties_panel =
  pn_annotations :: "pdf_annotation list"
  pn_selected :: "nat list"
  pn_tool :: "string option"
  pn_defaults :: "(string \<times> (string \<times> js_value) list) list"
  pn_can_modify :: bool

definition selected_annotations :: "properties_panel \<Rightarrow> pdf_annotation list" where
  "selected_annotations st = filter (\<lambda>a. pa_id a \<in> set (pn_selected st)) (pn_annotations st)"

definition is_editing :: "properties_panel \<Rightarrow> bool" where
  "is_editing st \<longleftrightarrow> selected_annotations st \<noteq> []"

text \<open>Annotations no tool is known for do not take part in the choice of the properties.\<close>

definition panel_configs :: "(pdf_annotation \<Rightarrow> string option) \<Rightarrow> properties_panel \<Rightarrow> property_config list" where
  "panel_configs tool_of st =
     shown_configs (is_editing st)
       (if is_editing st then get_shared_properties (List.map_filter tool_of (selected_annotations st))
        else (case pn_tool st of Some t \<Rightarrow> properties_of_tool t | None \<Rightarrow> []))"

definition panel_values :: "properties_panel \<Rightarrow> (string \<times> js_value) list" where
  "panel_values st =
     (if is_editing st then pa_props (hd (selected_annotations st))
      else (case pn_tool st of Some t \<Rightarrow> (case map_of (pn_defaults st) t of Some d \<Rightarrow> d | None \<Rightarrow> []) | None \<Rightarrow> []))"

definition structurally_locked :: "properties_panel \<Rightarrow> bool" where
  "structurally_locked st \<longleftrightarrow> list_ex pa_locked (selected_annotations st)"

definition appearance_disabled :: "properties_panel \<Rightarrow> bool" where
  "appearance_disabled st \<longleftrightarrow> is_editing st \<and> (\<not> pn_can_modify st \<or> structurally_locked st)"

definition panel_title :: "(pdf_annotation \<Rightarrow> string) \<Rightarrow> (string \<Rightarrow> string) \<Rightarrow> properties_panel \<Rightarrow> string" where
  "panel_title label tool_name st =
     (if is_editing st
      then (if length (selected_annotations st) > 1 then show_nat (length (selected_annotations st)) @ '' annotations''
            else label (hd (selected_annotations st)))
      else (case pn_tool st of Some t \<Rightarrow> tool_name t @ '' defaults'' | None \<Rightarrow> ''Properties''))"

definition panel_notice :: "properties_panel \<Rightarrow> string" where
  "panel_notice st =
     (if is_editing st
      then (if structurally_locked st then ''This annotation is locked. Unlock it to make changes.''
            else if pn_can_modify st then ''Changes apply immediately.''
            else ''This document does not allow annotation changes.'')
      else ''New annotations use these settings.'')"

text \<open>The engine merges a patch into every annotation it is given for.\<close>

definition patch_annotation :: "nat \<Rightarrow> (string \<times> js_value) list \<Rightarrow> pdf_annotation \<Rightarrow> pdf_annotation" where
  "patch_annotation now patch a = a\<lparr>pa_props := js_spread (pa_props a) patch, pa_modified := now\<rparr>"

definition update_selected :: "(pdf_annotation \<Rightarrow> pdf_annotation) \<Rightarrow> properties_panel \<Rightarrow> properties_panel" where
  "update_selected f st = st\<lparr>pn_annotations := map (\<lambda>a. if pa_id a \<in> set (pn_selected st) then f a else a) (pn_annotations st)\<rparr>"

definition panel_apply_patch :: "nat \<Rightarrow> (string \<times> js_value) list \<Rightarrow> properties_panel \<Rightarrow> properties_panel" where
  "panel_apply_patch now patch st =
     (if is_editing st then update_selected (patch_annotation now patch) st
      else (case pn_tool st of
              None \<Rightarrow> st
            | Some t \<Rightarrow> st\<lparr>pn_defaults := AList.update t
                (js_spread (case map_of (pn_defaults st) t of Some d \<Rightarrow> d | None \<Rightarrow> []) patch) (pn_defaults st)\<rparr>))"

text \<open>A rotation asks the engine what it changes in each annotation; an engine that throws leaves the angle alone.\<close>

definition panel_apply_rotation ::
  "(pdf_annotation \<Rightarrow> rat \<Rightarrow> js_error + (string \<times> js_value) list) \<Rightarrow> nat \<Rightarrow> rat \<Rightarrow> properties_panel \<Rightarrow> properties_panel" where
  "panel_apply_rotation transform now rotation st =
     update_selected
       (\<lambda>a. patch_annotation now
          (case transform a rotation of Inr patch \<Rightarrow> patch | Inl _ \<Rightarrow> [(''rotation'', JsNum (Some rotation))]) a) st"

definition flag_checked :: "string \<Rightarrow> properties_panel \<Rightarrow> bool" where
  "flag_checked flag st \<longleftrightarrow> list_all (\<lambda>a. flag \<in> set (pa_flags a)) (selected_annotations st)"

definition panel_switch_flag :: "string \<Rightarrow> bool \<Rightarrow> properties_panel \<Rightarrow> properties_panel" where
  "panel_switch_flag flag checked st =
     update_selected
       (\<lambda>a. a\<lparr>pa_flags :=
          (if checked then (if flag \<in> set (pa_flags a) then pa_flags a else pa_flags a @ [flag])
           else filter (\<lambda>f. f \<noteq> flag) (pa_flags a))\<rparr>) st"

text \<open>The note of a single annotation is written when its field is left, if it differs.\<close>

definition note_left :: "nat \<Rightarrow> string \<Rightarrow> string \<Rightarrow> properties_panel \<Rightarrow> properties_panel" where
  "note_left now draft_note old_note st =
     (if length (selected_annotations st) \<noteq> 1 \<or> draft_note = old_note then st
      else update_selected (patch_annotation now [(''contents'', JsStr draft_note)]) st)"

section \<open>Properties that several tools share\<close>

lemma foldl_filter:
  "foldl (\<lambda>first i. filter (\<lambda>p. p \<in> A i) first) xs is = filter (\<lambda>p. \<forall>i\<in>set is. p \<in> A i) xs"
proof (induction "is" arbitrary: xs)
  case (Cons i "is")
  then show ?case by (simp add: conj_commute)
qed simp

lemma js_set_Cons: "\<exists>rest. js_set (x # xs) = x # rest"
proof -
  have "\<exists>rest. foldl js_set_add (x # ys) xs = x # rest" for ys
    by (induction xs arbitrary: ys) (auto simp: js_set_add_def)
  from this [of "[]"] show ?thesis by (simp add: js_set_def js_set_add_def)
qed

lemma table_complete: "list_all (\<lambda>e. list_all (\<lambda>p. p \<in> set (map fst property_configs)) (snd e)) tool_properties"
  by code_simp

lemma properties_known: "set (properties_of_tool i) \<subseteq> fst ` set property_configs"
proof (cases "map_of tool_properties i")
  case (Some ps)
  then have "(i, ps) \<in> set tool_properties" by (rule map_of_SomeD)
  then have "list_all (\<lambda>p. p \<in> set (map fst property_configs)) ps" using table_complete by (force simp: list_all_iff)
  then show ?thesis using Some by (auto simp: properties_of_tool_def list_all_iff)
qed (simp add: properties_of_tool_def)

text \<open>
  The properties of a selection are those every tool in it has, in the order of the first one's; the table knows a
  configuration for each of them.
\<close>
theorem shared_properties_exact:
  "get_shared_properties toolIds =
     (case toolIds of [] \<Rightarrow> [] | tool # rest \<Rightarrow> filter (\<lambda>p. list_all (\<lambda>i. p \<in> set (properties_of_tool i)) toolIds) (properties_of_tool tool)) \<and>
   set (get_shared_properties toolIds) \<subseteq> fst ` set property_configs"
proof (cases toolIds)
  case (Cons tool others)
  obtain rest where rest: "js_set toolIds = tool # rest" using js_set_Cons [of tool others] Cons by blast
  then have tools: "set toolIds = insert tool (set rest)" using set_js_set [of toolIds] by simp
  have "get_shared_properties toolIds = filter (\<lambda>p. list_all (\<lambda>i. p \<in> set (properties_of_tool i)) toolIds) (properties_of_tool tool)"
    using rest tools by (auto simp: get_shared_properties_def foldl_filter Let_def list_all_iff intro: filter_cong)
  then show ?thesis using Cons properties_known [of tool] by auto
qed (simp add: get_shared_properties_def js_set_def)

section \<open>A border style is read as it was chosen\<close>

lemma same_dashes_iff: "same_dashes a b \<longleftrightarrow> a = b \<and> a \<noteq> None"
  by (auto simp: same_dashes_def list_all_iff split: option.splits intro: nth_equalityI)

text \<open>
  Whatever border style is chosen, the patch it makes is read back as that style; a custom one keeps its dashes, and is read
  as the preset that has the same ones if there is such a preset.
\<close>
theorem stroke_style_read_back:
  "get_stroke_style_value (Some (sp_style (get_stroke_style_patch v dashes))) (Some (sp_intensity (get_stroke_style_patch v dashes)))
     (sp_dashes (get_stroke_style_patch v dashes)) =
   (if v = StrokeCustom
    then (case List.find (\<lambda>p. snd p = Some (case dashes of Some d \<Rightarrow> d | None \<Rightarrow> [4, 3])) stroke_style_presets of
            Some p \<Rightarrow> fst p | None \<Rightarrow> StrokeCustom)
    else v)"
  by (cases v)
    (simp_all add: get_stroke_style_value_def get_stroke_style_patch_def get_stroke_dash_array_def stroke_style_presets_def
      same_dashes_iff Let_def split: option.splits)

text \<open>The style a control shows is always among those it offers, for the styles the kind of property stands for.\<close>

lemma custom_style_offered: "StrokeCustom \<in> set (stroke_style_options kind StrokeCustom)"
  by (simp add: stroke_style_options_def Let_def)

text \<open>A cloud drawn elsewhere, read by a control without clouds, is not.\<close>

lemma cloud_not_offered:
  "get_stroke_style_value (Some BorderCloudy) None None \<notin> set (stroke_style_options StrokeStyleKind
     (get_stroke_style_value (Some BorderCloudy) None None))"
  by (simp add: get_stroke_style_value_def stroke_style_options_def stroke_style_presets_def Let_def)

section \<open>Rotations and sizes\<close>

lemma rat_rem_eq: "0 < b \<Longrightarrow> 0 \<le> a \<Longrightarrow> rat_rem a b = a - b * of_int \<lfloor>a / b\<rfloor>"
  by (simp add: rat_rem_def Let_def divide_less_0_iff)

lemma rat_rem_bounds:
  assumes "0 < b"
  shows "\<bar>rat_rem a b\<bar> < b" "0 \<le> a \<Longrightarrow> 0 \<le> rat_rem a b" "\<exists>k. a = rat_rem a b + b * of_int k"
proof -
  have floor_part: "0 \<le> x - of_int \<lfloor>x\<rfloor> \<and> x - of_int \<lfloor>x\<rfloor> < 1" for x :: rat by linarith
  define k where "k = (if a / b < 0 then - \<lfloor>- (a / b)\<rfloor> else \<lfloor>a / b\<rfloor>)"
  have rem: "rat_rem a b = b * (a / b - of_int k)" using assms by (simp add: rat_rem_def k_def Let_def right_diff_distrib)
  have near: "\<bar>a / b - of_int k\<bar> < 1" 
    using floor_part [of "a / b"] floor_part [of "- (a / b)"] unfolding k_def abs_less_iff by (cases "a / b < 0") (simp_all, linarith+)
  then show "\<bar>rat_rem a b\<bar> < b" using assms by (simp add: rem abs_mult)
  show "0 \<le> rat_rem a b" if "0 \<le> a"
  proof -
    have "0 \<le> a / b" using that assms by simp
    then have "0 \<le> a / b - of_int k" using floor_part [of "a / b"] by (simp add: k_def)
    then show ?thesis using assms by (simp add: rem)
  qed
  have "a = rat_rem a b + b * of_int k" using assms by (simp add: rem right_diff_distrib)
  then show "\<exists>k. a = rat_rem a b + b * of_int k" by blast
qed

text \<open>An angle that is typed is turned into the angle from 0 to below 360 degrees that differs from it by whole turns.\<close>
theorem rotation_typed_normal:
  "0 \<le> rotation_typed v \<and> rotation_typed v < 360 \<and> (\<exists>turns. v = rotation_typed v + 360 * of_int turns)"
proof -
  have inner: "\<bar>rat_rem v 360\<bar> < 360" by (rule rat_rem_bounds) simp
  then have "0 \<le> rat_rem v 360 + 360" by linarith
  then have "0 \<le> rotation_typed v" "rotation_typed v < 360"
    using rat_rem_bounds(1,2) [of 360 "rat_rem v 360 + 360"] by (auto simp: rotation_typed_def)
  moreover obtain j where j: "v = rat_rem v 360 + 360 * of_int j" using rat_rem_bounds(3) [of 360 v] by auto
  obtain k where k: "rat_rem v 360 + 360 = rotation_typed v + 360 * of_int k"
    using rat_rem_bounds(3) [of 360 "rat_rem v 360 + 360"] by (auto simp: rotation_typed_def)
  have "v = rotation_typed v + 360 * of_int (j + k - 1)" using j k by (simp add: algebra_simps)
  ultimately show ?thesis by blast
qed

section \<open>Debounced commits\<close>

text \<open>
  However often a control is changed and drawn again for the same annotation, with whatever values, what is committed when it
  rests is the last change, once.
\<close>

definition same_target :: "nat \<Rightarrow> 'a debounced_action \<Rightarrow> bool" where
  "same_target t a = (case a of DbUpdate _ \<Rightarrow> True | DbRender _ u \<Rightarrow> u = t | _ \<Rightarrow> False)"

lemma debounced_waits:
  assumes "exec debounced_step st as = Some st'" "list_all (same_target (db_target st)) as"
  shows "db_commits st' = db_commits st \<and> db_target st' = db_target st \<and> (db_timer st \<noteq> None \<longrightarrow> db_timer st' \<noteq> None)"
  using assms
proof (induction as arbitrary: st)
  case (Cons a as)
  then obtain mid where mid: "debounced_step st a = Some mid" "exec debounced_step mid as = Some st'" by (auto split: option.splits)
  have "db_commits mid = db_commits st \<and> db_target mid = db_target st \<and> (db_timer st \<noteq> None \<longrightarrow> db_timer mid \<noteq> None)"
    using mid(1) Cons.prems(2) by (cases a) (auto simp: same_target_def Let_def split: if_splits)
  with Cons.IH [OF mid(2)] Cons.prems(2) show ?case by auto
qed simp

lemma debounced_renders:
  assumes "exec debounced_step st as = Some st'" "list_all (\<lambda>a. \<exists>v. a = DbRender v (db_target st)) as"
  shows "db_timer st' = db_timer st \<and> db_commits st' = db_commits st \<and> db_target st' = db_target st"
  using assms
proof (induction as arbitrary: st)
  case (Cons a as)
  then obtain v where "a = DbRender v (db_target st)" by auto
  moreover from this Cons.prems obtain mid where mid: "debounced_step st a = Some mid" "exec debounced_step mid as = Some st'"
    by (auto split: option.splits)
  ultimately have "db_timer mid = db_timer st \<and> db_commits mid = db_commits st \<and> db_target mid = db_target st"
    by (auto simp: Let_def split: if_splits)
  with Cons.IH [OF mid(2)] Cons.prems(2) show ?case by auto
qed simp

theorem debounce_commits_last:
  assumes "exec debounced_step st (changes @ DbUpdate v # redraws @ [DbTimer]) = Some st'"
    and "list_all (same_target (db_target st)) changes" "list_all (\<lambda>a. \<exists>w. a = DbRender w (db_target st)) redraws"
  shows "db_commits st' = db_commits st @ [(db_target st, v)] \<and> db_timer st' = None"
proof -
  from assms(1) obtain s1 where s1: "exec debounced_step st changes = Some s1"
      "exec debounced_step s1 (DbUpdate v # redraws @ [DbTimer]) = Some st'"
    by (auto simp: exec_append split: option.splits)
  then obtain s2 where s2: "exec debounced_step (s1\<lparr>db_draft := v, db_timer := Some v\<rparr>) redraws = Some s2"
      "debounced_step s2 DbTimer = Some st'"
    by (auto simp: exec_append split: option.splits)
  have "db_commits s1 = db_commits st" "db_target s1 = db_target st" using debounced_waits [OF s1(1) assms(2)] by simp_all
  with debounced_renders [OF s2(1)] assms(3) s2(2) show ?thesis by auto
qed

theorem debounce_commits_last_witness:
  "\<exists>st'. exec debounced_step (debounced_start 0 1) ([DbUpdate 1] @ DbUpdate (2 :: nat) # [DbRender 0 1] @ [DbTimer]) = Some st' \<and>
    db_commits st' = [(1, 2)]"
proof -
  obtain st' where st': "exec debounced_step (debounced_start 0 1) ([DbUpdate 1] @ DbUpdate (2 :: nat) # [DbRender 0 1] @ [DbTimer]) = Some st'"
    by (simp add: debounced_start_def Let_def)
  have "db_commits st' = db_commits (debounced_start (0 :: nat) 1) @ [(db_target (debounced_start (0 :: nat) 1), 2)] \<and> db_timer st' = None"
    by (rule debounce_commits_last [OF st']) (simp_all add: same_target_def debounced_start_def)
  with st' show ?thesis by (simp add: debounced_start_def)
qed

text \<open>
  Selecting another annotation before the time has passed sends the change of the first to the second: the control is the
  same one, drawn for another target.
\<close>

lemma debounce_changes_target:
  "\<exists>st'. exec debounced_step (debounced_start 1 1) [DbUpdate (5 :: nat), DbRender 3 2, DbTimer] = Some st' \<and>
    db_commits st' = [(2, 5)] \<and> db_draft st' = 3"
  by (simp add: debounced_start_def Let_def)

section \<open>What the panel changes\<close>

lemma map_of_update_fold:
  "map_of (foldl (\<lambda>m (k, v). AList.update k v m) base es) k = (case map_of (rev es) k of Some v \<Rightarrow> Some v | None \<Rightarrow> map_of base k)"
proof (induction es arbitrary: base)
  case (Cons e es)
  obtain k' v where e: "e = (k', v)" by (cases e)
  show ?case using Cons [of "AList.update k' v base"] e
    by (auto simp: update_conv' map_of_append map_add_def split: option.splits)
qed simp

lemma js_field_spread_one: "js_field (js_spread fs [(k, v)]) k' = (if k' = k then v else js_field (js_map_of fs) k')"
  by (simp add: js_spread_def js_field_def update_conv')

lemma js_field_map_of: "distinct (map fst fs) \<Longrightarrow> js_field (js_map_of fs) k = js_field fs k"
  using map_of_update_fold [of "[]" fs k] map_of_inject_set [of "rev fs" fs]
  by (simp add: js_map_of_def js_field_def rev_map [symmetric] split: option.splits)

lemma selected_update:
  assumes "\<And>a. pa_id (f a) = pa_id a"
  shows "selected_annotations (update_selected f st) = map f (selected_annotations st)"
proof -
  have "filter (\<lambda>a. pa_id a \<in> S) (map (\<lambda>a. if pa_id a \<in> S then f a else a) xs) = map f (filter (\<lambda>a. pa_id a \<in> S) xs)" for S xs
    using assms by (induction xs) auto
  then show ?thesis by (simp add: selected_annotations_def update_selected_def)
qed

text \<open>
  A property that is set reaches every selected annotation and no other: each selected one has the new value and
  keeps its other properties, each other one stays as it is, and the control of the panel shows the new value.
\<close>
theorem panel_sets_selected:
  assumes "is_editing st" "list_all (\<lambda>a. distinct (map fst (pa_props a))) (pn_annotations st)"
  shows "js_field (panel_values (panel_apply_patch now [(key, v)] st)) key = v \<and>
    list_all2 (\<lambda>a b. pa_id b = pa_id a \<and>
        (if pa_id a \<in> set (pn_selected st)
         then list_all (\<lambda>k. js_field (pa_props b) k = (if k = key then v else js_field (pa_props a) k)) keys \<and> pa_modified b = now
         else b = a))
      (pn_annotations st) (pn_annotations (panel_apply_patch now [(key, v)] st))"
proof -
  let ?f = "\<lambda>a. if pa_id a \<in> set (pn_selected st) then patch_annotation now [(key, v)] a else a"
  let ?st = "panel_apply_patch now [(key, v)] st"
  have after: "pn_annotations ?st = map ?f (pn_annotations st)" "pn_selected ?st = pn_selected st"
    using assms(1) by (simp_all add: panel_apply_patch_def update_selected_def)
  have field: "js_field (pa_props (patch_annotation now [(key, v)] a)) k = (if k = key then v else js_field (pa_props a) k)"
    if "a \<in> set (pn_annotations st)" for a k
    using that assms(2) by (simp add: patch_annotation_def js_field_spread_one js_field_map_of list_all_iff)
  have sel: "selected_annotations ?st = map (patch_annotation now [(key, v)]) (selected_annotations st)"
    using assms(1) selected_update [of "patch_annotation now [(key, v)]" st] by (simp add: panel_apply_patch_def patch_annotation_def)
  show ?thesis
  proof
    obtain a rest where a: "selected_annotations st = a # rest" using assms(1) by (cases "selected_annotations st") (auto simp: is_editing_def)
    then have "a \<in> set (pn_annotations st)" 
      by (metis selected_annotations_def filter_is_subset list.set_intros(1) subsetD)
    then show "js_field (panel_values ?st) key = v"
      using sel a field by (simp add: panel_values_def is_editing_def)
  qed (use field in \<open>auto simp: after list_all2_map2 list_all_iff patch_annotation_def intro!: list.rel_refl_strong\<close>)
qed

text \<open>A flag that is switched shows the way it was switched, for any selection, and only selected annotations change.\<close>

lemma flag_switch_shown:
  assumes "is_editing st"
  shows "flag_checked flag (panel_switch_flag flag checked st) = checked"
    "a \<in> set (selected_annotations st) \<Longrightarrow> g \<noteq> flag \<Longrightarrow>
      \<exists>b\<in>set (selected_annotations (panel_switch_flag flag checked st)). pa_id b = pa_id a \<and> (g \<in> set (pa_flags b) \<longleftrightarrow> g \<in> set (pa_flags a))"
proof -
  define f where "f a = a\<lparr>pa_flags := (if checked then (if flag \<in> set (pa_flags a) then pa_flags a else pa_flags a @ [flag])
      else filter (\<lambda>f. f \<noteq> flag) (pa_flags a))\<rparr>" for a :: pdf_annotation
  have sel: "selected_annotations (panel_switch_flag flag checked st) = map f (selected_annotations st)"
    using selected_update [of f st] by (simp add: panel_switch_flag_def f_def [abs_def])
  have "flag \<in> set (pa_flags (f a)) \<longleftrightarrow> checked" for a by (simp add: f_def)
  then show "flag_checked flag (panel_switch_flag flag checked st) = checked"
    using assms sel by (cases "selected_annotations st") (auto simp: flag_checked_def is_editing_def list_all_iff)
  show "\<exists>b\<in>set (selected_annotations (panel_switch_flag flag checked st)). pa_id b = pa_id a \<and> (g \<in> set (pa_flags b) \<longleftrightarrow> g \<in> set (pa_flags a))"
    if "a \<in> set (selected_annotations st)" "g \<noteq> flag"
    using that sel by (intro bexI [of _ "f a"]) (auto simp: f_def)
qed

theorem panel_sets_selected_witness:
  "js_field (panel_values (panel_apply_patch 9 [(''opacity'', JsNum (Some 1))]
      \<lparr>pn_annotations = [\<lparr>pa_id = 1, pa_page = 0, pa_flags = [], pa_locked = False, pa_modified = 0, pa_props = [(''opacity'', JsNum (Some 0))]\<rparr>],
       pn_selected = [1], pn_tool = None, pn_defaults = [], pn_can_modify = True\<rparr>)) ''opacity'' = JsNum (Some 1)"
proof -
  let ?st = "\<lparr>pn_annotations = [\<lparr>pa_id = 1, pa_page = 0, pa_flags = [], pa_locked = False, pa_modified = 0, pa_props = [(''opacity'', JsNum (Some 0))]\<rparr>],
       pn_selected = [1], pn_tool = None, pn_defaults = [], pn_can_modify = True\<rparr>"
  have "is_editing ?st" "list_all (\<lambda>a. distinct (map fst (pa_props a))) (pn_annotations ?st)"
    by (simp_all add: is_editing_def selected_annotations_def)
  from panel_sets_selected [OF this] show ?thesis by blast
qed

end
