(* ===== verification/PdfFields.thy ===== *)
theory PdfFields
  imports Numbers
begin

unbundle bit_operations_syntax

text \<open>
  The settings of a form field in the PDF editor (WidgetProperties of web/src/components/extend/pdf-editor-properties.tsx).

  The panel draws the field as the engine had it when it was last drawn; what it writes goes to the engine and is drawn at
  the next rendering. The engine, which renames and shares fields, answers later; its answers are arguments, and so are the
  bits that stand for the flags.
\<close>

section \<open>Fields\<close>

datatype field_type = TextField | CheckboxField | RadioField | ComboField | ListField | ButtonField | SignatureField | OtherField

definition form_field_type_label :: "field_type \<Rightarrow> string" where
  "form_field_type_label t =
     (case t of TextField \<Rightarrow> ''Text field'' | CheckboxField \<Rightarrow> ''Checkbox'' | RadioField \<Rightarrow> ''Radio button''
      | ComboField \<Rightarrow> ''Dropdown'' | ListField \<Rightarrow> ''List box'' | ButtonField \<Rightarrow> ''Button''
      | SignatureField \<Rightarrow> ''Signature field'' | OtherField \<Rightarrow> ''Form field'')"

record form_field =
  ff_name :: string
  ff_type :: field_type
  ff_flag :: "32 word"
  ff_value :: string
  ff_max :: "nat option"
  ff_options :: "(string \<times> bool) list"

datatype field_flag = FlagReadonly | FlagRequired | FlagMultiline | FlagComb | FlagMultiSelect

text \<open>An answer to a rename: done, or the widget that already has the name; a failure has a message.\<close>

datatype rename_end = RenameDone | RenameConflict string nat | RenameFails string

record widget_panel =
  wp_widget :: nat
  wp_field :: form_field
  wp_draft :: string
  wp_error :: "string option"
  wp_engine :: "nat \<Rightarrow> form_field"
  wp_renames :: "(nat \<times> string \<times> string) list"
  wp_dialog :: "(nat \<times> nat \<times> string) option"
  wp_shares :: "(nat \<times> nat \<times> string) list"
  wp_notices :: "string list"
  wp_asked :: "(nat \<times> string) list"

definition widget_panel_start :: "nat \<Rightarrow> (nat \<Rightarrow> form_field) \<Rightarrow> widget_panel" where
  "widget_panel_start i engine =
     \<lparr>wp_widget = i, wp_field = engine i, wp_draft = ff_name (engine i), wp_error = None, wp_engine = engine, wp_renames = [],
      wp_dialog = None, wp_shares = [], wp_notices = [], wp_asked = []\<rparr>"

text \<open>Drawing another widget, or the same one under another name, begins with its name and no error.\<close>

definition widget_drawn :: "nat \<Rightarrow> widget_panel \<Rightarrow> widget_panel" where
  "widget_drawn i st =
     (let field = wp_engine st i; st' = st\<lparr>wp_widget := i, wp_field := field\<rparr>
      in if i \<noteq> wp_widget st \<or> ff_name field \<noteq> ff_name (wp_field st) then st'\<lparr>wp_draft := ff_name field, wp_error := None\<rparr> else st')"

definition update_field :: "(form_field \<Rightarrow> form_field) \<Rightarrow> widget_panel \<Rightarrow> widget_panel" where
  "update_field patch st = st\<lparr>wp_engine := (wp_engine st)(wp_widget st := patch (wp_field st))\<rparr>"

definition flagged :: "32 word \<Rightarrow> 32 word \<Rightarrow> bool \<Rightarrow> 32 word" where
  "flagged current flag enabled = (if enabled then current OR flag else current AND NOT flag)"

definition toggle_flag :: "32 word \<Rightarrow> bool \<Rightarrow> widget_panel \<Rightarrow> widget_panel" where
  "toggle_flag flag enabled st = update_field (\<lambda>f. f\<lparr>ff_flag := flagged (ff_flag (wp_field st)) flag enabled\<rparr>) st"

definition has_flag :: "32 word \<Rightarrow> form_field \<Rightarrow> bool" where
  "has_flag flag f \<longleftrightarrow> ff_flag f AND flag \<noteq> 0"

section \<open>The name\<close>

definition commit_name :: "bool \<Rightarrow> widget_panel \<Rightarrow> widget_panel" where
  "commit_name provided st =
     (let nextName = js_trim (wp_draft st)
      in if \<not> provided \<or> nextName = [] \<or> nextName = ff_name (wp_field st) then st\<lparr>wp_draft := ff_name (wp_field st)\<rparr>
         else st\<lparr>wp_renames := wp_renames st @ [(wp_widget st, nextName, ff_name (wp_field st))],
                wp_asked := wp_asked st @ [(wp_widget st, nextName)]\<rparr>)"

text \<open>The answer finds the panel as it is then, with the name from before the rename.\<close>

definition rename_settles :: "nat \<times> string \<times> string \<Rightarrow> rename_end \<Rightarrow> widget_panel \<Rightarrow> widget_panel option" where
  "rename_settles r answer st =
     (if r \<notin> set (wp_renames st) then None
      else (let st' = st\<lparr>wp_renames := remove1 r (wp_renames st)\<rparr>; (i, name, old) = r
            in Some (case answer of
                 RenameDone \<Rightarrow> st'\<lparr>wp_error := None, wp_engine := (wp_engine st)(i := (wp_engine st i)\<lparr>ff_name := name\<rparr>)\<rparr>
               | RenameConflict taken other \<Rightarrow> st'\<lparr>wp_error := None, wp_dialog := Some (i, other, old)\<rparr>
               | RenameFails message \<Rightarrow> st'\<lparr>wp_error := Some message, wp_draft := old\<rparr>)))"

definition conflict_question :: "field_type \<Rightarrow> string \<Rightarrow> string" where
  "conflict_question t name =
     ''A '' @ to_lower (form_field_type_label t) @ '' named '' @ [CHR 34] @ name @ [CHR 34] @
     '' already exists. Sharing makes both widgets show the same value.''"

definition share_confirmed :: "widget_panel \<Rightarrow> widget_panel option" where
  "share_confirmed st = map_option (\<lambda>d. st\<lparr>wp_dialog := None, wp_shares := wp_shares st @ [d]\<rparr>) (wp_dialog st)"

definition share_settles :: "nat \<times> nat \<times> string \<Rightarrow> string option \<Rightarrow> widget_panel \<Rightarrow> widget_panel option" where
  "share_settles d failure st =
     (if d \<notin> set (wp_shares st) then None
      else (let st' = st\<lparr>wp_shares := remove1 d (wp_shares st)\<rparr>; (i, other, old) = d
            in Some (case failure of
                 None \<Rightarrow> st'\<lparr>wp_notices := wp_notices st @ [''Field shared.''],
                          wp_engine := (wp_engine st)(i := (wp_engine st i)\<lparr>ff_name := ff_name (wp_engine st other)\<rparr>)\<rparr>
               | Some message \<Rightarrow> st'\<lparr>wp_error := Some message, wp_draft := old\<rparr>)))"

section \<open>Lengths and options\<close>

text \<open>\<open>Number.parseInt\<close> in base ten; nothing stands for NaN.\<close>

definition parse_int :: "string \<Rightarrow> int option" where
  "parse_int s =
     (let t = dropWhile is_ws s;
          negative = starts_with t ''-'';
          digits = takeWhile is_digit (if negative \<or> starts_with t ''+'' then tl t else t)
      in if digits = [] then None else Some ((if negative then -1 else 1) * int (digits_value 10 digits)))"

definition typed_length :: "string \<Rightarrow> nat option" where
  "typed_length s = (case parse_int s of Some n \<Rightarrow> if n \<le> 0 then None else Some (nat n) | None \<Rightarrow> None)"

definition max_length_typed :: "32 word \<Rightarrow> string \<Rightarrow> widget_panel \<Rightarrow> widget_panel" where
  "max_length_typed comb s st =
     (let st' = update_field (\<lambda>f. f\<lparr>ff_max := typed_length s\<rparr>) st
      in if typed_length s = None \<and> has_flag comb (wp_field st) then toggle_flag comb False st' else st')"

definition comb_disabled :: "form_field \<Rightarrow> bool" where
  "comb_disabled f \<longleftrightarrow> ff_max f = None \<or> ff_max f = Some 0"

definition widget_options :: "form_field \<Rightarrow> (string \<times> bool) list" where
  "widget_options f = (if ff_type f \<in> {ComboField, ListField} then ff_options f else [])"

definition option_labelled :: "nat \<Rightarrow> string \<Rightarrow> widget_panel \<Rightarrow> widget_panel" where
  "option_labelled index nextLabel st =
     (if index < length (widget_options (wp_field st)) \<and> nextLabel = fst (widget_options (wp_field st) ! index) then st
      else update_field (\<lambda>f. f\<lparr>ff_options := map (\<lambda>(i, p). if i = index then (nextLabel, snd p) else p)
             (enumerate 0 (widget_options (wp_field st)))\<rparr>) st)"

definition option_removed :: "nat \<Rightarrow> widget_panel \<Rightarrow> widget_panel" where
  "option_removed index st =
     update_field (\<lambda>f. f\<lparr>ff_options := map snd (filter (\<lambda>(i, p). i \<noteq> index) (enumerate 0 (widget_options (wp_field st))))\<rparr>) st"

definition option_added :: "widget_panel \<Rightarrow> widget_panel" where
  "option_added st =
     update_field (\<lambda>f. f\<lparr>ff_options := widget_options (wp_field st) @
       [(''Option '' @ show_nat (length (widget_options (wp_field st)) + 1), False)]\<rparr>) st"

section \<open>The panel as a machine\<close>

datatype widget_action =
    WidgetDrawn nat
  | NameTyped string
  | NameLeft bool
  | RenameSettles "nat \<times> string \<times> string" rename_end
  | ShareConfirmed
  | ShareCancelled
  | ShareSettles "nat \<times> nat \<times> string" "string option"
  | ValueCommitted string
  | LengthTyped string
  | FlagSwitched field_flag bool
  | OptionLabelled nat string
  | OptionRemoved nat
  | OptionAdded

fun widget_step :: "(field_flag \<Rightarrow> 32 word) \<Rightarrow> widget_panel \<Rightarrow> widget_action \<Rightarrow> widget_panel option" where
  "widget_step bits st (WidgetDrawn i) = Some (widget_drawn i st)"
| "widget_step bits st (NameTyped s) = Some (st\<lparr>wp_draft := s\<rparr>)"
| "widget_step bits st (NameLeft provided) = Some (commit_name provided st)"
| "widget_step bits st (RenameSettles r answer) = rename_settles r answer st"
| "widget_step bits st ShareConfirmed = share_confirmed st"
| "widget_step bits st ShareCancelled = map_option (\<lambda>d. st\<lparr>wp_dialog := None\<rparr>) (wp_dialog st)"
| "widget_step bits st (ShareSettles d failure) = share_settles d failure st"
| "widget_step bits st (ValueCommitted s) =
     (if ff_type (wp_field st) \<noteq> TextField then None else Some (update_field (\<lambda>f. f\<lparr>ff_value := s\<rparr>) st))"
| "widget_step bits st (LengthTyped s) =
     (if ff_type (wp_field st) \<noteq> TextField then None else Some (max_length_typed (bits FlagComb) s st))"
| "widget_step bits st (FlagSwitched flag enabled) =
     (if (flag \<in> {FlagMultiline, FlagComb} \<and> ff_type (wp_field st) \<noteq> TextField) \<or>
         (flag = FlagComb \<and> comb_disabled (wp_field st)) \<or> (flag = FlagMultiSelect \<and> ff_type (wp_field st) \<noteq> ListField) then None
      else Some (toggle_flag (bits flag) enabled st))"
| "widget_step bits st (OptionLabelled index nextLabel) =
     (if index < length (widget_options (wp_field st)) then Some (option_labelled index nextLabel st) else None)"
| "widget_step bits st (OptionRemoved index) =
     (if index < length (widget_options (wp_field st)) then Some (option_removed index st) else None)"
| "widget_step bits st OptionAdded =
     (if ff_type (wp_field st) \<in> {ComboField, ListField} then Some (option_added st) else None)"

section \<open>Facts\<close>

lemma bit_flagged: "bit (flagged w f enabled) n \<longleftrightarrow> (if bit f n then enabled else bit w n)"
  by (auto simp: flagged_def bit_simps dest: bit_imp_le_length)

lemma has_flag_bits: "has_flag flag f \<longleftrightarrow> (\<exists>n. bit (ff_flag f) n \<and> bit flag n)"
proof -
  have "w \<noteq> 0 \<longleftrightarrow> (\<exists>n. bit w n)" for w :: "32 word" by (auto intro: bit_word_eqI)
  then show ?thesis by (simp add: has_flag_def bit_and_iff)
qed

text \<open>
  A flag that is switched is, once drawn, the way it was switched, and flags of other bits, the name, the value, the length and
  the options of the field are as they were drawn before.
\<close>
theorem flag_switch_exact:
  assumes "widget_step bits st (FlagSwitched flag enabled) = Some st'" "bits flag \<noteq> 0"
  shows "has_flag (bits flag) (wp_field (widget_drawn (wp_widget st) st')) = enabled \<and>
    (bits flag AND bits other = 0 \<longrightarrow>
       has_flag (bits other) (wp_field (widget_drawn (wp_widget st) st')) = has_flag (bits other) (wp_field st)) \<and>
    wp_field (widget_drawn (wp_widget st) st') = (wp_field st)\<lparr>ff_flag := ff_flag (wp_field (widget_drawn (wp_widget st) st'))\<rparr>"
proof -
  have "st' = toggle_flag (bits flag) enabled st" using assms(1) by (auto split: if_splits)
  then have field: "wp_field (widget_drawn (wp_widget st) st') = (wp_field st)\<lparr>ff_flag := flagged (ff_flag (wp_field st)) (bits flag) enabled\<rparr>"
    by (simp add: widget_drawn_def toggle_flag_def update_field_def Let_def)
  obtain n where n: "bit (bits flag) n" using assms(2) by (auto simp: bit_eq_iff)
  have "has_flag (bits flag) (wp_field (widget_drawn (wp_widget st) st')) = enabled"
    using n by (auto simp: has_flag_bits field bit_flagged)
  moreover have "has_flag (bits other) (wp_field (widget_drawn (wp_widget st) st')) = has_flag (bits other) (wp_field st)"
    if "bits flag AND bits other = 0"
  proof -
    have "bit (bits flag AND bits other) m \<longleftrightarrow> bit (bits flag) m \<and> bit (bits other) m" for m by (rule bit_and_iff)
    then have "\<not> (bit (bits flag) m \<and> bit (bits other) m)" for m using that by simp
    then show ?thesis by (auto simp: has_flag_bits field bit_flagged split: if_splits)
  qed
  ultimately show ?thesis using field by simp
qed

definition spec_bits :: "field_flag \<Rightarrow> 32 word" where
  "spec_bits f = (case f of FlagReadonly \<Rightarrow> 1 | FlagRequired \<Rightarrow> 2 | FlagMultiline \<Rightarrow> 4096 | FlagMultiSelect \<Rightarrow> 2097152 | FlagComb \<Rightarrow> 16777216)"

definition sample_field :: form_field where
  "sample_field = \<lparr>ff_name = ''a'', ff_type = TextField, ff_flag = 16777216, ff_value = [], ff_max = Some 5, ff_options = []\<rparr>"

theorem flag_switch_exact_witness:
  "\<exists>st'. widget_step spec_bits (widget_panel_start 1 (\<lambda>_. sample_field)) (FlagSwitched FlagRequired True) = Some st' \<and>
    has_flag (spec_bits FlagRequired) (wp_field (widget_drawn 1 st'))"
proof -
  have "\<exists>st'. widget_step spec_bits (widget_panel_start 1 (\<lambda>_. sample_field)) (FlagSwitched FlagRequired True) = Some st'" by simp
  then obtain st' where st': "widget_step spec_bits (widget_panel_start 1 (\<lambda>_. sample_field)) (FlagSwitched FlagRequired True) = Some st'" by blast
  have "spec_bits FlagRequired \<noteq> 0" by (simp add: spec_bits_def)
  from flag_switch_exact [OF st' this] st' show ?thesis by (simp add: widget_panel_start_def)
qed

text \<open>The options after an edit.\<close>

lemma relabelled: "map (\<lambda>(i, p). if i = k then (l, snd p) else p) (enumerate 0 xs) = (if k < length xs then xs[k := (l, snd (xs ! k))] else xs)"
  by (rule nth_equalityI) (auto simp: nth_enumerate_eq nth_list_update)

lemma without_option:
  "k < n + length xs \<Longrightarrow> n \<le> k \<Longrightarrow> map snd (filter (\<lambda>(i, p). i \<noteq> k) (enumerate n xs)) = take (k - n) xs @ drop (Suc k - n) xs"
proof (induction xs arbitrary: n)
  case (Cons x xs)
  have later: "filter (\<lambda>(i, p). i \<noteq> k) (enumerate m ys) = enumerate m ys" if "k < m" for m and ys :: "'a list"
    using that by (intro filter_True) (auto dest: in_set_enumerate_eq [THEN iffD1])
  show ?case
  proof (cases "k = n")
    case True
    then show ?thesis using later [of "Suc n" xs] by simp
  next
    case False
    then obtain d where "k = Suc (n + d)" using Cons.prems(2) less_iff_Suc_add by (metis le_neq_implies_less)
    then show ?thesis using Cons.IH [of "Suc n"] Cons.prems by simp
  qed
qed simp

lemma option_edits_exact:
  assumes "ff_type (wp_field st) \<in> {ComboField, ListField}" "k < length (ff_options (wp_field st))"
  shows "widget_step bits st (OptionRemoved k) =
      Some (update_field (\<lambda>f. f\<lparr>ff_options := take k (ff_options (wp_field st)) @ drop (Suc k) (ff_options (wp_field st))\<rparr>) st) \<and>
    (l \<noteq> fst (ff_options (wp_field st) ! k) \<longrightarrow>
      widget_step bits st (OptionLabelled k l) =
        Some (update_field (\<lambda>f. f\<lparr>ff_options := (ff_options (wp_field st))[k := (l, snd (ff_options (wp_field st) ! k))]\<rparr>) st))"
proof -
  have "widget_options (wp_field st) = ff_options (wp_field st)" using assms(1) by (auto simp: widget_options_def)
  then show ?thesis using assms(2) without_option [of k 0 "ff_options (wp_field st)"] relabelled [of k l "ff_options (wp_field st)"]
    by (simp add: option_removed_def option_labelled_def)
qed

text \<open>A field is only ever asked to take a name that is trimmed, not empty and not the name it was drawn with.\<close>

lemma commit_name_asks:
  "wp_asked (commit_name provided st) = wp_asked st \<or>
   (\<exists>name. wp_asked (commit_name provided st) = wp_asked st @ [(wp_widget st, name)] \<and> name \<noteq> [] \<and> js_trim name = name \<and>
      name \<noteq> ff_name (wp_field st))"
  by (auto simp: commit_name_def Let_def)

text \<open>
  Emptying the length of a comb field takes the comb away and gives the old length back: the second of the two updates was
  made from the field as it was drawn.
\<close>

lemma emptied_length_returns:
  "\<exists>st. exec (widget_step spec_bits) (widget_panel_start 1 (\<lambda>_. sample_field)) [LengthTyped [], WidgetDrawn 1] = Some st \<and>
    ff_max (wp_field st) = Some 5 \<and> \<not> has_flag (spec_bits FlagComb) (wp_field st)"
  by (simp add: max_length_typed_def typed_length_def parse_int_def starts_with_def update_field_def toggle_flag_def has_flag_def
      flagged_def widget_drawn_def widget_panel_start_def sample_field_def spec_bits_def Let_def)

text \<open>
  A rename that fails after another widget was selected puts its error and the old name of the first widget into the panel of
  the second, and leaving the field there asks for that name.
\<close>

lemma late_failure_renames_other:
  "\<exists>st. exec (widget_step spec_bits) (widget_panel_start 1 (\<lambda>i. sample_field\<lparr>ff_name := if i = 1 then ''a'' else ''b''\<rparr>))
      [NameTyped ''c'', NameLeft True, WidgetDrawn 2, RenameSettles (1, ''c'', ''a'') (RenameFails ''no''), NameLeft True] = Some st \<and>
    wp_widget st = 2 \<and> wp_error st = Some ''no'' \<and> last (wp_asked st) = (2, ''a'')"
  by (simp add: commit_name_def js_trim_def is_ws_def rename_settles_def widget_drawn_def widget_panel_start_def sample_field_def Let_def)

end
