(* ===== verification/PdfSecurity.thy ===== *)
theory PdfSecurity
  imports Numbers
begin

unbundle bit_operations_syntax

text \<open>
  The security dialog of the PDF editor, its print dialog and its password prompt (PdfEditorSecurityDialog,
  PdfEditorPrintDialog and PdfEditorPasswordPrompt of web/src/components/extend/pdf-editor-dialogs.tsx).

  A dialog is opened and closed by its parent and keeps its state while it is closed. What it asks of the engine is answered
  later, perhaps when the dialog has been closed and opened again. The bits that stand for the permissions are the engine's
  and an argument.
\<close>

section \<open>Protection\<close>

datatype permission =
    PermPrint | PermPrintHighQuality | PermModifyContents | PermCopyContents | PermModifyAnnotations | PermFillForms
  | PermExtractForAccessibility | PermAssembleDocument

definition permission_options :: "(permission \<times> string) list" where
  "permission_options =
     [(PermPrint, ''Print''), (PermPrintHighQuality, ''Print in high quality''), (PermModifyContents, ''Modify contents''),
      (PermCopyContents, ''Copy text and images''), (PermModifyAnnotations, ''Annotate''), (PermFillForms, ''Fill forms''),
      (PermExtractForAccessibility, ''Extract for accessibility''), (PermAssembleDocument, ''Assemble pages'')]"

record encryption =
  en_user :: string
  en_owner :: string
  en_flags :: "32 word"

datatype security_call = UnlockCall string | EncryptCall encryption | RemoveCall

text \<open>A task of the engine ends with its verdict, or fails with the message of its reason, if it has one.\<close>

datatype task_end = TaskVerdict bool | TaskFailure "string option"

record security_dialog =
  sd_open :: bool
  sd_manager :: bool
  sd_encrypted :: bool
  sd_unlocked :: bool
  sd_unlock :: string
  sd_unlocking :: bool
  sd_require :: bool
  sd_password :: string
  sd_confirm :: string
  sd_restrict :: bool
  sd_owner :: string
  sd_confirm_owner :: string
  sd_allowed :: "permission list"
  sd_applying :: bool
  sd_error :: "string option"
  sd_calls :: "security_call list"
  sd_sent :: "security_call list"
  sd_notices :: "string list"

definition all_permissions :: "permission list" where
  "all_permissions = map fst permission_options"

definition security_start :: security_dialog where
  "security_start =
     \<lparr>sd_open = False, sd_manager = False, sd_encrypted = False, sd_unlocked = False, sd_unlock = [], sd_unlocking = False,
      sd_require = False, sd_password = [], sd_confirm = [], sd_restrict = False, sd_owner = [], sd_confirm_owner = [],
      sd_allowed = all_permissions, sd_applying = False, sd_error = None, sd_calls = [], sd_sent = [], sd_notices = []\<rparr>"

definition needs_owner_unlock :: "security_dialog \<Rightarrow> bool" where
  "needs_owner_unlock st \<longleftrightarrow> sd_encrypted st \<and> \<not> sd_unlocked st"

text \<open>Opening the dialog empties it; closing it leaves everything as it is.\<close>

definition security_shown :: "bool \<Rightarrow> security_dialog \<Rightarrow> security_dialog" where
  "security_shown shown st =
     (if shown = sd_open st then st
      else if shown then
        st\<lparr>sd_open := True, sd_unlock := [], sd_unlocking := False, sd_require := False, sd_password := [], sd_confirm := [],
           sd_restrict := False, sd_owner := [], sd_confirm_owner := [], sd_allowed := all_permissions, sd_applying := False,
           sd_error := None\<rparr>
      else st\<lparr>sd_open := False\<rparr>)"

definition open_password_valid :: "security_dialog \<Rightarrow> bool" where
  "open_password_valid st \<longleftrightarrow> \<not> sd_require st \<or> (sd_password st \<noteq> [] \<and> sd_password st = sd_confirm st)"

definition owner_password_valid :: "security_dialog \<Rightarrow> bool" where
  "owner_password_valid st \<longleftrightarrow> \<not> sd_restrict st \<or> (sd_owner st \<noteq> [] \<and> sd_owner st = sd_confirm_owner st)"

definition can_apply :: "security_dialog \<Rightarrow> bool" where
  "can_apply st \<longleftrightarrow> \<not> sd_applying st \<and> (sd_require st \<or> sd_restrict st) \<and> open_password_valid st \<and> owner_password_valid st"

definition security_sends :: "security_call \<Rightarrow> security_dialog \<Rightarrow> security_dialog" where
  "security_sends c st = st\<lparr>sd_calls := sd_calls st @ [c], sd_sent := sd_sent st @ [c], sd_error := None\<rparr>"

definition handle_unlock :: "security_dialog \<Rightarrow> security_dialog" where
  "handle_unlock st =
     (if \<not> sd_manager st \<or> js_trim (sd_unlock st) = [] then st
      else security_sends (UnlockCall (sd_unlock st)) (st\<lparr>sd_unlocking := True\<rparr>))"

definition granted_flags :: "(permission \<Rightarrow> 32 word) \<Rightarrow> permission list \<Rightarrow> 32 word" where
  "granted_flags bits allowed = foldl (\<lambda>flags f. flags OR bits f) 0 allowed"

definition chosen_encryption :: "(permission \<Rightarrow> 32 word) \<Rightarrow> 32 word \<Rightarrow> security_dialog \<Rightarrow> encryption" where
  "chosen_encryption bits allow_all st =
     \<lparr>en_user = (if sd_require st then sd_password st else []),
      en_owner = (if sd_restrict st then sd_owner st else if sd_require st then sd_password st else []),
      en_flags = (if sd_restrict st then granted_flags bits (sd_allowed st) else allow_all)\<rparr>"

definition handle_apply :: "(permission \<Rightarrow> 32 word) \<Rightarrow> 32 word \<Rightarrow> security_dialog \<Rightarrow> security_dialog" where
  "handle_apply bits allow_all st =
     (if \<not> sd_manager st \<or> \<not> can_apply st then st
      else security_sends (EncryptCall (chosen_encryption bits allow_all st)) (st\<lparr>sd_applying := True\<rparr>))"

definition handle_remove :: "security_dialog \<Rightarrow> security_dialog" where
  "handle_remove st = (if \<not> sd_manager st then st else security_sends RemoveCall (st\<lparr>sd_applying := True\<rparr>))"

definition failed_text :: "string \<Rightarrow> string option \<Rightarrow> string" where
  "failed_text fallback reason = (case reason of Some m \<Rightarrow> m | None \<Rightarrow> fallback)"

definition security_answered :: "security_call \<Rightarrow> task_end \<Rightarrow> security_dialog \<Rightarrow> security_dialog" where
  "security_answered c answer st =
     (case c of
        UnlockCall p \<Rightarrow>
          (let st = st\<lparr>sd_unlocking := False\<rparr>
           in case answer of
                TaskVerdict True \<Rightarrow> st\<lparr>sd_unlock := [], sd_notices := sd_notices st @ [''Owner permissions unlocked.'']\<rparr>
              | TaskVerdict False \<Rightarrow> st\<lparr>sd_error := Some ''The owner password is incorrect.''\<rparr>
              | TaskFailure reason \<Rightarrow> st\<lparr>sd_error := Some (failed_text ''The document could not be unlocked.'' reason)\<rparr>)
      | EncryptCall e \<Rightarrow>
          (let st = st\<lparr>sd_applying := False\<rparr>
           in case answer of
                TaskVerdict True \<Rightarrow>
                  st\<lparr>sd_notices := sd_notices st @ [''Protection is applied the next time you download the document.''],
                     sd_open := False\<rparr>
              | TaskVerdict False \<Rightarrow> st\<lparr>sd_error := Some ''The protection settings could not be applied.''\<rparr>
              | TaskFailure reason \<Rightarrow>
                  st\<lparr>sd_error := Some (failed_text ''The protection settings could not be applied.'' reason)\<rparr>)
      | RemoveCall \<Rightarrow>
          (let st = st\<lparr>sd_applying := False\<rparr>
           in case answer of
                TaskVerdict True \<Rightarrow>
                  st\<lparr>sd_notices := sd_notices st @ [''Protection is removed the next time you download the document.''],
                     sd_open := False\<rparr>
              | TaskVerdict False \<Rightarrow> st\<lparr>sd_error := Some ''The protection could not be removed.''\<rparr>
              | TaskFailure reason \<Rightarrow> st\<lparr>sd_error := Some (failed_text ''The protection could not be removed.'' reason)\<rparr>))"

definition flag_switched :: "permission \<Rightarrow> bool \<Rightarrow> permission list \<Rightarrow> permission list" where
  "flag_switched f checked allowed = (if checked then js_set_add allowed f else filter (\<lambda>g. g \<noteq> f) allowed)"

text \<open>
  What happens to the dialog. A control acts while the dialog is open and the control is there and not disabled; the parent
  closes the dialog at any time, also while something is being applied.
\<close>

datatype security_action =
    DialogShown bool
  | DocumentSeen bool bool bool
  | UnlockTyped string
  | UnlockEntered
  | UnlockPressed
  | RequireSwitched bool
  | PasswordTyped string
  | ConfirmTyped string
  | RestrictSwitched bool
  | OwnerTyped string
  | ConfirmOwnerTyped string
  | PermissionSwitched permission bool
  | ApplyPressed
  | RemovePressed
  | SecurityCancelled
  | SecurityAnswered security_call task_end

definition when_control :: "bool \<Rightarrow> security_dialog \<Rightarrow> (security_dialog \<Rightarrow> security_dialog) \<Rightarrow> security_dialog option" where
  "when_control usable st f = (if sd_open st \<and> usable then Some (f st) else None)"

fun security_step ::
  "(permission \<Rightarrow> 32 word) \<Rightarrow> 32 word \<Rightarrow> security_dialog \<Rightarrow> security_action \<Rightarrow> security_dialog option" where
  "security_step bits allow_all st (DialogShown shown) = Some (security_shown shown st)"
| "security_step bits allow_all st (DocumentSeen manager encrypted unlocked) =
     Some (st\<lparr>sd_manager := manager, sd_encrypted := encrypted, sd_unlocked := unlocked\<rparr>)"
| "security_step bits allow_all st (UnlockTyped s) = when_control (needs_owner_unlock st) st (\<lambda>st. st\<lparr>sd_unlock := s\<rparr>)"
| "security_step bits allow_all st UnlockEntered = when_control (needs_owner_unlock st) st handle_unlock"
| "security_step bits allow_all st UnlockPressed =
     when_control (needs_owner_unlock st \<and> js_trim (sd_unlock st) \<noteq> [] \<and> \<not> sd_unlocking st) st handle_unlock"
| "security_step bits allow_all st (RequireSwitched b) = when_control (\<not> needs_owner_unlock st) st (\<lambda>st. st\<lparr>sd_require := b\<rparr>)"
| "security_step bits allow_all st (PasswordTyped s) = when_control (sd_require st) st (\<lambda>st. st\<lparr>sd_password := s\<rparr>)"
| "security_step bits allow_all st (ConfirmTyped s) = when_control (sd_require st) st (\<lambda>st. st\<lparr>sd_confirm := s\<rparr>)"
| "security_step bits allow_all st (RestrictSwitched b) = when_control (\<not> needs_owner_unlock st) st (\<lambda>st. st\<lparr>sd_restrict := b\<rparr>)"
| "security_step bits allow_all st (OwnerTyped s) = when_control (sd_restrict st) st (\<lambda>st. st\<lparr>sd_owner := s\<rparr>)"
| "security_step bits allow_all st (ConfirmOwnerTyped s) = when_control (sd_restrict st) st (\<lambda>st. st\<lparr>sd_confirm_owner := s\<rparr>)"
| "security_step bits allow_all st (PermissionSwitched f checked) =
     when_control (sd_restrict st) st (\<lambda>st. st\<lparr>sd_allowed := flag_switched f checked (sd_allowed st)\<rparr>)"
| "security_step bits allow_all st ApplyPressed =
     when_control (can_apply st \<and> \<not> needs_owner_unlock st) st (handle_apply bits allow_all)"
| "security_step bits allow_all st RemovePressed =
     when_control (sd_encrypted st \<and> \<not> needs_owner_unlock st \<and> \<not> sd_applying st) st handle_remove"
| "security_step bits allow_all st SecurityCancelled = when_control (\<not> sd_applying st) st (security_shown False)"
| "security_step bits allow_all st (SecurityAnswered c answer) =
     (if c \<in> set (sd_calls st) then Some (security_answered c answer (st\<lparr>sd_calls := remove1 c (sd_calls st)\<rparr>)) else None)"


section \<open>What is applied\<close>

lemma bit_granted_flags: "bit (granted_flags bits allowed) n \<longleftrightarrow> (\<exists>f\<in>set allowed. bit (bits f) n)"
proof -
  have "bit (foldl (\<lambda>flags f. flags OR bits f) w allowed) n \<longleftrightarrow> bit w n \<or> (\<exists>f\<in>set allowed. bit (bits f) n)" for w
    by (induction allowed arbitrary: w) (auto simp: bit_or_iff)
  then show ?thesis by (simp add: granted_flags_def)
qed

text \<open>Whether the events since the last opening, latest first, leave a permission ticked.\<close>

fun last_tick :: "permission \<Rightarrow> security_action list \<Rightarrow> bool option" where
  "last_tick f [] = None"
| "last_tick f (PermissionSwitched g checked # as) = (if f = g then Some checked else last_tick f as)"
| "last_tick f (a # as) = last_tick f as"

definition opens_or_closes :: "security_action \<Rightarrow> bool" where
  "opens_or_closes a \<longleftrightarrow> (case a of DialogShown b \<Rightarrow> True | _ \<Rightarrow> False)"

lemma set_all_permissions: "f \<in> set all_permissions"
  by (cases f) (simp_all add: all_permissions_def permission_options_def)

lemma security_answered_keeps:
  "sd_allowed (security_answered c answer st) = sd_allowed st" "sd_sent (security_answered c answer st) = sd_sent st"
  "sd_open (security_answered c answer st) \<Longrightarrow> sd_open st"
  by (cases answer; cases c; auto simp: security_answered_def Let_def split: bool.splits)+

lemma handlers_keep:
  "sd_allowed (handle_apply bits allow_all st) = sd_allowed st" "sd_allowed (handle_unlock st) = sd_allowed st"
  "sd_allowed (handle_remove st) = sd_allowed st" "sd_allowed (security_sends c st) = sd_allowed st"
  by (simp_all add: handle_apply_def handle_unlock_def handle_remove_def security_sends_def)

lemma in_flag_switched: "f \<in> set (flag_switched g checked allowed) \<longleftrightarrow> (if f = g then checked else f \<in> set allowed)"
  by (auto simp: flag_switched_def js_set_add_def)

text \<open>An invariant: nothing is ever sent without an owner password, nor a password that is not typed twice.\<close>

definition security_inv :: "security_dialog \<Rightarrow> bool" where
  "security_inv st \<longleftrightarrow>
     (\<forall>e. EncryptCall e \<in> set (sd_sent st) \<longrightarrow> en_owner e \<noteq> []) \<and>
     (\<forall>p. UnlockCall p \<in> set (sd_sent st) \<longrightarrow> js_trim p \<noteq> []) \<and> set (sd_calls st) \<subseteq> set (sd_sent st)"

lemma chosen_owner: "can_apply st \<Longrightarrow> en_owner (chosen_encryption bits allow_all st) \<noteq> []"
  by (auto simp: can_apply_def chosen_encryption_def open_password_valid_def owner_password_valid_def)

lemma security_inv_same:
  "sd_sent st' = sd_sent st \<Longrightarrow> sd_calls st' = sd_calls st \<Longrightarrow> security_inv st \<Longrightarrow> security_inv st'"
  by (simp add: security_inv_def)

lemma security_inv_sends:
  assumes "security_inv st" "sd_sent st' = sd_sent st" "sd_calls st' = sd_calls st"
    "\<And>e. c = EncryptCall e \<Longrightarrow> en_owner e \<noteq> []" "\<And>p. c = UnlockCall p \<Longrightarrow> js_trim p \<noteq> []"
  shows "security_inv (security_sends c st')"
  using assms by (auto simp: security_inv_def security_sends_def)

lemma security_inv_answered:
  assumes "security_inv st" "c \<in> set (sd_calls st)"
  shows "security_inv (security_answered c answer (st\<lparr>sd_calls := remove1 c (sd_calls st)\<rparr>))"
proof -
  have "sd_calls (security_answered c answer (st\<lparr>sd_calls := remove1 c (sd_calls st)\<rparr>)) = remove1 c (sd_calls st)"
    by (cases answer; cases c; auto simp: security_answered_def Let_def split: bool.splits)
  then show ?thesis using assms(1) set_remove1_subset [of c "sd_calls st"]
    by (auto simp: security_inv_def security_answered_keeps)
qed

lemma security_inv_step:
  assumes "security_inv st" "security_step bits allow_all st a = Some st'"
  shows "security_inv st'"
proof (cases a)
  case (SecurityAnswered c answer)
  then show ?thesis using assms security_inv_answered by (auto split: if_splits)
next
  case ApplyPressed
  then have st': "st' = handle_apply bits allow_all st" "can_apply st" using assms(2) by (auto simp: when_control_def split: if_splits)
  show ?thesis unfolding st' handle_apply_def
    using assms(1) chosen_owner [OF st'(2)] by (auto intro: security_inv_sends)
next
  case UnlockEntered
  then show ?thesis using assms by (auto simp: when_control_def handle_unlock_def intro: security_inv_sends split: if_splits)
next
  case UnlockPressed
  then show ?thesis using assms by (auto simp: when_control_def handle_unlock_def intro: security_inv_sends split: if_splits)
next
  case RemovePressed
  then show ?thesis using assms by (auto simp: when_control_def handle_remove_def intro: security_inv_sends split: if_splits)
qed (use assms in \<open>auto simp: when_control_def security_shown_def intro: security_inv_same split: if_splits\<close>)

interpretation security: machine "security_step bits allow_all" security_start security_inv
  by unfold_locales (simp add: security_inv_def security_start_def, rule security_inv_step)

text \<open>The ticks: a permission is ticked as it was last switched since the dialog was opened.\<close>

lemma ticks_without_opening:
  assumes "exec (security_step bits allow_all) st as = Some st'" "\<not> list_ex opens_or_closes as"
  shows "f \<in> set (sd_allowed st') \<longleftrightarrow> (case last_tick f (rev as) of Some checked \<Rightarrow> checked | None \<Rightarrow> f \<in> set (sd_allowed st))"
  using assms
proof (induction as arbitrary: st' rule: rev_induct)
  case (snoc a as)
  then obtain t where t: "exec (security_step bits allow_all) st as = Some t" "security_step bits allow_all t a = Some st'"
    by (auto simp: exec_append split: option.splits)
  with snoc have IH: "f \<in> set (sd_allowed t) \<longleftrightarrow> (case last_tick f (rev as) of Some checked \<Rightarrow> checked | None \<Rightarrow> f \<in> set (sd_allowed st))"
    by simp
  show ?case
  proof (cases a)
    case (PermissionSwitched g checked)
    then show ?thesis using t(2) IH by (auto simp: when_control_def in_flag_switched split: if_splits)
  next
    case (DialogShown b)
    then show ?thesis using snoc.prems(2) by (simp add: opens_or_closes_def)
  qed (use t(2) IH in \<open>auto simp: when_control_def security_answered_keeps handlers_keep security_shown_def split: if_splits\<close>)
qed simp

text \<open>
  Protection is applied as it was chosen. From the opening of the dialog on, applying sends exactly one encryption: it asks for
  a password to open exactly when that was required, it has an owner password, each password was typed twice, and where
  the readers are restricted the bits of a permission are set exactly when its last switch since the opening, if it had one, ticked it;
  otherwise everything is allowed. Nothing is applied while the owner's password is still needed.
\<close>
theorem protection_as_chosen:
  assumes "exec (security_step bits allow_all) security_start as = Some before" "\<not> sd_open before"
    "exec (security_step bits allow_all) (security_shown True before) bs = Some st" "\<not> list_ex opens_or_closes bs"
    "security_step bits allow_all st ApplyPressed = Some st'" "sd_manager st"
    "\<And>f g. f \<noteq> g \<Longrightarrow> bits f AND bits g = 0" "\<And>f. bits f \<noteq> 0"
  shows "\<exists>e. sd_sent st' = sd_sent st @ [EncryptCall e] \<and> \<not> needs_owner_unlock st \<and> en_owner e \<noteq> [] \<and>
    (en_user e \<noteq> [] \<longleftrightarrow> sd_require st) \<and>
    (sd_require st \<longrightarrow> en_user e = sd_password st \<and> en_user e = sd_confirm st) \<and>
    (sd_restrict st \<longrightarrow> en_owner e = sd_owner st \<and> en_owner e = sd_confirm_owner st \<and>
       (\<forall>f. (en_flags e AND bits f \<noteq> 0) = (last_tick f (rev bs) \<noteq> Some False))) \<and>
    (\<not> sd_restrict st \<longrightarrow> en_owner e = en_user e \<and> en_flags e = allow_all)"
proof -
  let ?e = "chosen_encryption bits allow_all st"
  have can: "can_apply st" "\<not> needs_owner_unlock st" and st': "st' = handle_apply bits allow_all st"
    using assms(5) by (auto simp: when_control_def split: if_splits)
  have sent: "sd_sent st' = sd_sent st @ [EncryptCall ?e]"
    using st' can assms(6) by (simp add: handle_apply_def security_sends_def)
  have start: "sd_allowed (security_shown True before) = all_permissions"
    using assms(2) by (simp add: security_shown_def)
  have disjoint: "\<not> (bit (bits f) n \<and> bit (bits g) n)" if "f \<noteq> g" for f g n
  proof -
    have "bit (bits f AND bits g) n \<longleftrightarrow> bit (bits f) n \<and> bit (bits g) n" by (rule bit_and_iff)
    then show ?thesis using assms(7) [OF that] by simp
  qed
  have "(granted_flags bits (sd_allowed st) AND bits f \<noteq> 0) = (last_tick f (rev bs) \<noteq> Some False)" for f
  proof -
    obtain n where n: "bit (bits f) n" using assms(8) [of f] by (auto simp: bit_eq_iff)
    have "(granted_flags bits (sd_allowed st) AND bits f \<noteq> 0) \<longleftrightarrow> (\<exists>m. bit (granted_flags bits (sd_allowed st) AND bits f) m)"
      by (auto intro: bit_word_eqI)
    also have "\<dots> \<longleftrightarrow> f \<in> set (sd_allowed st)"
      using n disjoint by (auto simp: bit_and_iff bit_granted_flags) metis
    also have "\<dots> \<longleftrightarrow> last_tick f (rev bs) \<noteq> Some False"
      unfolding ticks_without_opening [OF assms(3,4)] start by (auto simp: set_all_permissions split: option.splits)
    finally show ?thesis .
  qed
  then show ?thesis
    using sent can chosen_owner [OF can(1), of bits allow_all]
    by (auto simp: chosen_encryption_def can_apply_def open_password_valid_def owner_password_valid_def)
qed

definition spec_permission_bits :: "permission \<Rightarrow> 32 word" where
  "spec_permission_bits f =
     (case f of PermPrint \<Rightarrow> 4 | PermModifyContents \<Rightarrow> 8 | PermCopyContents \<Rightarrow> 16 | PermModifyAnnotations \<Rightarrow> 32 | PermFillForms \<Rightarrow> 256
      | PermExtractForAccessibility \<Rightarrow> 512 | PermAssembleDocument \<Rightarrow> 1024 | PermPrintHighQuality \<Rightarrow> 2048)"

definition sample_choice :: "security_action list" where
  "sample_choice = [RestrictSwitched True, OwnerTyped ''o'', ConfirmOwnerTyped ''o'', PermissionSwitched PermPrint False]"

theorem protection_as_chosen_witness:
  "\<exists>st st' e. exec (security_step spec_permission_bits 3900)
      (security_shown True (security_start\<lparr>sd_manager := True\<rparr>)) sample_choice = Some st \<and>
    security_step spec_permission_bits 3900 st ApplyPressed = Some st' \<and> sd_sent st' = [EncryptCall e] \<and>
    en_flags e AND spec_permission_bits PermPrint = 0"
proof -
  let ?step = "security_step spec_permission_bits 3900"
  let ?before = "security_start\<lparr>sd_manager := True\<rparr>"
  have 1: "exec ?step security_start [DocumentSeen True False False] = Some ?before" "\<not> sd_open ?before"
    by (simp_all add: security_start_def)
  obtain st where st: "exec ?step (security_shown True ?before) sample_choice = Some st" "sd_manager st" "sd_restrict st" "sd_sent st = []"
      "can_apply st" "\<not> needs_owner_unlock st" "sd_open st"
    by (simp add: sample_choice_def security_shown_def security_start_def when_control_def needs_owner_unlock_def can_apply_def
        open_password_valid_def owner_password_valid_def)
  obtain st' where st': "?step st ApplyPressed = Some st'" using st by (simp add: when_control_def)
  have "spec_permission_bits f AND spec_permission_bits g = 0" if "f \<noteq> g" for f g
    using that by (cases f; cases g) (simp_all add: spec_permission_bits_def)
  moreover have "spec_permission_bits f \<noteq> 0" for f by (cases f) (simp_all add: spec_permission_bits_def)
  moreover have "\<not> list_ex opens_or_closes sample_choice" by (simp add: sample_choice_def opens_or_closes_def)
  ultimately obtain e where e: "sd_sent st' = sd_sent st @ [EncryptCall e]"
      "\<forall>f. (en_flags e AND spec_permission_bits f \<noteq> 0) = (last_tick f (rev sample_choice) \<noteq> Some False)"
    using protection_as_chosen [OF 1 st(1) _ st' st(2)] st(3) by blast
  have "last_tick PermPrint (rev sample_choice) = Some False" by (simp add: sample_choice_def)
  then have "en_flags e AND spec_permission_bits PermPrint = 0" using e(2) by blast
  then show ?thesis using st st' e(1) by auto
qed

text \<open>Whatever happens, no encryption is sent that has no owner password.\<close>

lemma always_an_owner:
  "exec (security_step bits allow_all) security_start as = Some st \<Longrightarrow> EncryptCall e \<in> set (sd_sent st) \<Longrightarrow> en_owner e \<noteq> []"
  using security.inv_exec by (auto simp: security_inv_def)

text \<open>
  The owner's password may be the password to open the document: whoever can open it can then lift the restrictions, which are said
  to need the owner's password.
\<close>

lemma owner_password_may_be_shared:
  "\<exists>st. exec (security_step spec_permission_bits 3900) security_start
      [DocumentSeen True False False, DialogShown True, RequireSwitched True, PasswordTyped ''p'', ConfirmTyped ''p'',
       RestrictSwitched True, OwnerTyped ''p'', ConfirmOwnerTyped ''p'', ApplyPressed] = Some st \<and>
    (\<exists>e. sd_sent st = [EncryptCall e] \<and> en_user e = en_owner e \<and> sd_restrict st)"
  by (simp add: security_shown_def security_start_def when_control_def needs_owner_unlock_def can_apply_def
      open_password_valid_def owner_password_valid_def handle_apply_def security_sends_def chosen_encryption_def)

text \<open>
  A dialog that is closed while protection is being applied and opened again is closed under the user by the answer to the earlier
  request, with what was typed since; two requests may then be under way.
\<close>

lemma earlier_answer_closes_dialog:
  "\<exists>st c. exec (security_step spec_permission_bits 3900) security_start
      [DocumentSeen True False False, DialogShown True, RequireSwitched True, PasswordTyped ''p'', ConfirmTyped ''p'', ApplyPressed,
       DialogShown False, DialogShown True, RequireSwitched True, PasswordTyped ''q''] = Some st \<and>
    sd_open st \<and> sd_calls st = [c] \<and> \<not> sd_open (security_answered c (TaskVerdict True) st)"
  by (simp add: security_shown_def security_start_def when_control_def needs_owner_unlock_def can_apply_def
      open_password_valid_def owner_password_valid_def handle_apply_def security_sends_def chosen_encryption_def security_answered_def)

text \<open>A wrong password sent by a second press of the enter key leaves its error beside the success of the first.\<close>

lemma entered_twice:
  "\<exists>st. exec (security_step spec_permission_bits 3900) security_start
      [DocumentSeen True True False, DialogShown True, UnlockTyped ''p'', UnlockEntered, UnlockEntered] = Some st \<and>
    sd_calls st = [UnlockCall ''p'', UnlockCall ''p'']"
  by (simp add: security_shown_def security_start_def when_control_def needs_owner_unlock_def handle_unlock_def security_sends_def
      js_trim_def is_ws_def)

section \<open>Printing\<close>

datatype print_selection = PrintAll | PrintCurrent | PrintCustom

record print_request =
  po_annotations :: bool
  po_range :: "string option"

record print_dialog =
  pr_open :: bool
  pr_print :: bool
  pr_page :: nat
  pr_selection :: print_selection
  pr_custom :: string
  pr_annotations :: bool
  pr_printing :: bool
  pr_error :: "string option"
  pr_calls :: "print_request list"
  pr_sent :: "print_request list"
  pr_notices :: "string list"

definition print_start :: print_dialog where
  "print_start = \<lparr>pr_open = False, pr_print = False, pr_page = 1, pr_selection = PrintAll, pr_custom = [], pr_annotations = True,
     pr_printing = False, pr_error = None, pr_calls = [], pr_sent = [], pr_notices = []\<rparr>"

text \<open>This dialog is emptied when it is closed.\<close>

definition print_shown :: "bool \<Rightarrow> print_dialog \<Rightarrow> print_dialog" where
  "print_shown shown st =
     (if shown = pr_open st then st
      else if shown then st\<lparr>pr_open := True\<rparr>
      else st\<lparr>pr_open := False, pr_selection := PrintAll, pr_custom := [], pr_annotations := True, pr_printing := False, pr_error := None\<rparr>)"

definition print_can_submit :: "print_dialog \<Rightarrow> bool" where
  "print_can_submit st \<longleftrightarrow> \<not> pr_printing st \<and> (pr_selection st \<noteq> PrintCustom \<or> js_trim (pr_custom st) \<noteq> [])"

definition print_range :: "print_dialog \<Rightarrow> string option" where
  "print_range st =
     (case pr_selection st of PrintCurrent \<Rightarrow> Some (show_nat (pr_page st)) | PrintCustom \<Rightarrow> Some (js_trim (pr_custom st)) | PrintAll \<Rightarrow> None)"

definition handle_print :: "print_dialog \<Rightarrow> print_dialog" where
  "handle_print st =
     (if \<not> pr_print st \<or> \<not> print_can_submit st then st
      else (let options = \<lparr>po_annotations = pr_annotations st, po_range = print_range st\<rparr>
            in st\<lparr>pr_printing := True, pr_error := None, pr_calls := pr_calls st @ [options], pr_sent := pr_sent st @ [options]\<rparr>))"

definition print_answered :: "string option option \<Rightarrow> print_dialog \<Rightarrow> print_dialog" where
  "print_answered failure st =
     (case failure of
        None \<Rightarrow> print_shown False (st\<lparr>pr_printing := False\<rparr>)
      | Some reason \<Rightarrow>
          (let message = failed_text ''The document could not be printed.'' reason
           in st\<lparr>pr_printing := False, pr_error := Some message, pr_notices := pr_notices st @ [message]\<rparr>))"

datatype print_action =
    PrintShown bool
  | PrintSeen bool nat
  | SelectionPicked print_selection
  | RangeFocused
  | RangeTyped string
  | AnnotationsSwitched bool
  | PrintCancelled
  | PrintPressed
  | PrintAnswered print_request "string option option"

fun print_step :: "print_dialog \<Rightarrow> print_action \<Rightarrow> print_dialog option" where
  "print_step st (PrintShown shown) = Some (print_shown shown st)"
| "print_step st (PrintSeen provided page) = Some (st\<lparr>pr_print := provided, pr_page := page\<rparr>)"
| "print_step st (SelectionPicked s) = (if pr_open st then Some (st\<lparr>pr_selection := s\<rparr>) else None)"
| "print_step st RangeFocused =
     (if pr_open st \<and> pr_selection st = PrintCustom then Some (st\<lparr>pr_selection := PrintCustom\<rparr>) else None)"
| "print_step st (RangeTyped s) = (if pr_open st \<and> pr_selection st = PrintCustom then Some (st\<lparr>pr_custom := s\<rparr>) else None)"
| "print_step st (AnnotationsSwitched b) = (if pr_open st then Some (st\<lparr>pr_annotations := b\<rparr>) else None)"
| "print_step st PrintCancelled = (if pr_open st \<and> \<not> pr_printing st then Some (print_shown False st) else None)"
| "print_step st PrintPressed =
     (if pr_open st \<and> print_can_submit st \<and> pr_print st then Some (handle_print st) else None)"
| "print_step st (PrintAnswered options failure) =
     (if options \<in> set (pr_calls st) then Some (print_answered failure (st\<lparr>pr_calls := remove1 options (pr_calls st)\<rparr>)) else None)"

text \<open>A closed print dialog is empty, and a page range that is sent is trimmed and not empty.\<close>

definition print_inv :: "print_dialog \<Rightarrow> bool" where
  "print_inv st \<longleftrightarrow>
     (\<not> pr_open st \<longrightarrow> pr_selection st = PrintAll \<and> pr_custom st = [] \<and> pr_annotations st) \<and>
     (\<forall>req\<in>set (pr_sent st). \<forall>s. po_range req = Some s \<longrightarrow> s \<noteq> [] \<and> js_trim s = s)"

lemma print_range_inv: "print_can_submit st \<Longrightarrow> print_range st = Some s \<Longrightarrow> s \<noteq> [] \<and> js_trim s = s"
  by (auto simp: print_range_def print_can_submit_def js_trim_show_nat show_nat_parses split: print_selection.splits)

lemma print_inv_step:
  assumes "print_inv st" "print_step st a = Some st'"
  shows "print_inv st'"
proof (cases a)
  case PrintPressed
  then show ?thesis using assms print_range_inv [of st] by (auto simp: print_inv_def handle_print_def Let_def split: if_splits)
qed (use assms in \<open>auto simp: print_inv_def print_shown_def print_answered_def Let_def split: if_splits option.splits\<close>)

interpretation printing: machine print_step print_start print_inv
  by unfold_locales (simp add: print_inv_def print_start_def, rule print_inv_step)

text \<open>
  A print request has the selection of the dialog: no range for all pages, the page in view for the current page, and else the
  trimmed text, which is not empty; and annotations as they are ticked.
\<close>
theorem print_request_exact:
  assumes "exec print_step print_start as = Some st" "print_step st PrintPressed = Some st'"
  shows "\<exists>req. pr_sent st' = pr_sent st @ [req] \<and> po_annotations req = pr_annotations st \<and>
    (po_range req = None) = (pr_selection st = PrintAll) \<and>
    (\<forall>s. po_range req = Some s \<longrightarrow> s \<noteq> [] \<and> js_trim s = s \<and> (s = show_nat (pr_page st) \<or> s = js_trim (pr_custom st)))"
proof -
  have can: "print_can_submit st" "st' = handle_print st" "pr_print st" using assms(2) by (auto split: if_splits)
  then have "pr_sent st' = pr_sent st @ [\<lparr>po_annotations = pr_annotations st, po_range = print_range st\<rparr>]"
    by (simp add: handle_print_def Let_def)
  moreover have "(print_range st = None) = (pr_selection st = PrintAll)"
    "\<forall>s. print_range st = Some s \<longrightarrow> s = show_nat (pr_page st) \<or> s = js_trim (pr_custom st)"
    by (auto simp: print_range_def split: print_selection.splits)
  ultimately show ?thesis using print_range_inv [OF can(1)] by auto
qed

theorem print_request_exact_witness:
  "\<exists>st. exec print_step print_start [PrintShown True, PrintSeen True 3, SelectionPicked PrintCurrent, PrintPressed] = Some st \<and>
    (\<exists>req. pr_sent st = [req] \<and> po_range req \<noteq> None)"
proof -
  let ?as = "[PrintShown True, PrintSeen True 3, SelectionPicked PrintCurrent]"
  obtain st where st: "exec print_step print_start ?as = Some st" "pr_selection st = PrintCurrent" "pr_sent st = []" "pr_open st"
      "pr_print st" "\<not> pr_printing st"
    by (simp add: print_start_def print_shown_def)
  obtain st' where st': "print_step st PrintPressed = Some st'" using st by (simp add: print_can_submit_def)
  from print_request_exact [OF st(1) st'] st(2,3) obtain req where "pr_sent st' = [req]" "po_range req \<noteq> None" by auto
  moreover have "exec print_step print_start (?as @ [PrintPressed]) = Some st'" using st(1) st' by (simp only: exec_append) simp
  ultimately show ?thesis by auto
qed

section \<open>The password of a document\<close>

record password_prompt =
  pw_password :: string
  pw_retrying :: bool
  pw_sent :: "string list"
  pw_calls :: nat

definition prompt_start :: password_prompt where
  "prompt_start = \<lparr>pw_password = [], pw_retrying = False, pw_sent = [], pw_calls = 0\<rparr>"

text \<open>The line under the heading: whether the document asks for a password, and whether one was given.\<close>

definition prompt_text :: "bool \<Rightarrow> bool \<Rightarrow> string option \<Rightarrow> string" where
  "prompt_text is_password_error provided message =
     (if is_password_error then
        if provided then ''The password was incorrect. Try again.'' else ''This document is protected. Enter the password to open it.''
      else (case message of Some m \<Rightarrow> m | None \<Rightarrow> ''An unknown error occurred.''))"

definition handle_retry :: "bool \<Rightarrow> password_prompt \<Rightarrow> password_prompt" where
  "handle_retry manager st =
     (if \<not> manager \<or> js_trim (pw_password st) = [] then st
      else st\<lparr>pw_retrying := True, pw_sent := pw_sent st @ [pw_password st], pw_calls := Suc (pw_calls st)\<rparr>)"

datatype prompt_action = PromptTyped string | PromptEntered bool | PromptPressed bool | PromptAnswered bool

fun prompt_step :: "password_prompt \<Rightarrow> prompt_action \<Rightarrow> password_prompt option" where
  "prompt_step st (PromptTyped s) = Some (st\<lparr>pw_password := s\<rparr>)"
| "prompt_step st (PromptEntered manager) = Some (handle_retry manager st)"
| "prompt_step st (PromptPressed manager) =
     (if js_trim (pw_password st) \<noteq> [] \<and> \<not> pw_retrying st then Some (handle_retry manager st) else None)"
| "prompt_step st (PromptAnswered success) =
     (if pw_calls st = 0 then None
      else let st' = st\<lparr>pw_calls := pw_calls st - 1, pw_retrying := False\<rparr>
           in Some (if success then st'\<lparr>pw_password := []\<rparr> else st'))"

interpretation prompt: machine prompt_step prompt_start "\<lambda>st. \<forall>p\<in>set (pw_sent st). js_trim p \<noteq> []"
proof (unfold_locales, goal_cases)
  case (2 st a st')
  then show ?case by (cases a) (auto simp: handle_retry_def Let_def split: if_splits)
qed (simp add: prompt_start_def)

lemma passwords_not_blank:
  "exec prompt_step prompt_start as = Some st \<Longrightarrow> p \<in> set (pw_sent st) \<Longrightarrow> js_trim p \<noteq> []"
  using prompt.inv_exec by blast

end
