(* ===== verification/PdfLinks.thy ===== *)
theory PdfLinks
  imports Numbers
begin

text \<open>
  The link dialog of the PDF editor (readLinkTarget and PdfEditorLinkDialog of
  web/src/components/extend/pdf-editor-dialogs.tsx).

  Rectangles are the annotation engine's and stand for themselves, an annotation is named by a number, and the fresh names
  of new annotations are counted. The answer with the selected text comes later.
\<close>

section \<open>Targets\<close>

datatype link_action = UriAction string | GotoAction rat | RemoteGotoAction rat | OtherAction

datatype link_target = ActionTarget link_action | DestinationTarget rat

datatype link_tab = UrlTab | PageTab

definition read_link_target :: "link_target option \<Rightarrow> link_tab \<times> string \<times> rat option" where
  "read_link_target target =
     (case target of
        None \<Rightarrow> (UrlTab, [], None)
      | Some (ActionTarget act) \<Rightarrow>
          (case act of
             UriAction uri \<Rightarrow> (UrlTab, uri, None)
           | GotoAction i \<Rightarrow> (PageTab, [], Some (i + 1))
           | RemoteGotoAction i \<Rightarrow> (PageTab, [], Some (i + 1))
           | OtherAction \<Rightarrow> (UrlTab, [], None))
      | Some (DestinationTarget i) \<Rightarrow> (PageTab, [], Some (i + 1)))"

text \<open>The test \<open>/^[a-z][a-z0-9+.-]*:/i\<close>.\<close>

definition scheme_letter :: "char \<Rightarrow> bool" where
  "scheme_letter c \<longleftrightarrow> lower_char c \<in> set ''abcdefghijklmnopqrstuvwxyz''"

definition has_scheme :: "string \<Rightarrow> bool" where
  "has_scheme s \<longleftrightarrow>
     s \<noteq> [] \<and> scheme_letter (hd s) \<and>
     (let rest = dropWhile (\<lambda>c. scheme_letter c \<or> is_digit c \<or> c \<in> {CHR ''+'', CHR ''.'', CHR ''-''}) (tl s)
      in rest \<noteq> [] \<and> hd rest = CHR '':'')"

definition normalized_url :: "string \<Rightarrow> string" where
  "normalized_url trimmed = (if has_scheme trimmed then trimmed else ''https://'' @ trimmed)"

definition build_target :: "nat \<Rightarrow> link_tab \<Rightarrow> string \<Rightarrow> rat \<Rightarrow> link_target option" where
  "build_target totalPages tab url pageNumber =
     (case tab of
        UrlTab \<Rightarrow> (let trimmed = js_trim url in if trimmed = [] then None else Some (ActionTarget (UriAction (normalized_url trimmed))))
      | PageTab \<Rightarrow> Some (DestinationTarget (min (max pageNumber 1) (of_nat totalPages) - 1)))"

text \<open>\<open>Number(value) || 1\<close>.\<close>

definition page_typed :: "string \<Rightarrow> rat" where
  "page_typed s = (case js_number s of Some n \<Rightarrow> if n = 0 then 1 else n | None \<Rightarrow> 1)"

section \<open>The dialog\<close>

record 'r selected_annotation =
  sa_page :: nat
  sa_id :: nat
  sa_link :: "link_target option option"
  sa_rect :: 'r
  sa_segments :: "'r list"

record 'r selected_text =
  st_page :: nat
  st_rect :: 'r
  st_segments :: "'r list"

datatype 'r link_call =
    UpdateLink nat nat link_target
  | CreateLink nat 'r nat link_target
  | CreateHighlight nat nat 'r "'r list" string
  | ClearSelection

datatype link_source = FromAnnotation | FromSelection

record 'r link_dialog =
  ld_open :: bool
  ld_source :: link_source
  ld_scope :: bool
  ld_tab :: link_tab
  ld_url :: string
  ld_page :: rat
  ld_total :: nat
  ld_selected :: "'r selected_annotation option"
  ld_formatted :: "'r selected_text list option"
  ld_next :: nat
  ld_calls :: "'r link_call list"
  ld_waiting :: "('r selected_text list \<times> link_target) list"
  ld_notices :: "string list"

definition link_start :: "'r link_dialog" where
  "link_start =
     \<lparr>ld_open = False, ld_source = FromAnnotation, ld_scope = False, ld_tab = UrlTab, ld_url = [], ld_page = 1, ld_total = 1,
      ld_selected = None, ld_formatted = None, ld_next = 0, ld_calls = [], ld_waiting = [], ld_notices = []\<rparr>"

text \<open>What the parent gives: whether the dialog is open and for what, and whether there is an annotation engine.\<close>

definition link_shown :: "bool \<Rightarrow> link_source \<Rightarrow> bool \<Rightarrow> 'r link_dialog \<Rightarrow> 'r link_dialog" where
  "link_shown shown source scope st =
     (if shown = ld_open st \<and> source = ld_source st \<and> scope = ld_scope st then st
      else let st' = st\<lparr>ld_open := shown, ld_source := source, ld_scope := scope\<rparr>
           in if \<not> shown then st'
              else let selected = (if source = FromAnnotation \<and> scope then ld_selected st else None);
                       (tab, url, page) = (case selected of
                          Some a \<Rightarrow> (case sa_link a of Some target \<Rightarrow> read_link_target target | None \<Rightarrow> (UrlTab, [], Some 1))
                        | None \<Rightarrow> (UrlTab, [], Some 1))
                   in st'\<lparr>ld_tab := tab, ld_url := url, ld_page := (case page of Some n \<Rightarrow> n | None \<Rightarrow> 1)\<rparr>)"

definition link_can_submit :: "'r link_dialog \<Rightarrow> bool" where
  "link_can_submit st \<longleftrightarrow> (case ld_tab st of UrlTab \<Rightarrow> js_trim (ld_url st) \<noteq> [] | PageTab \<Rightarrow> 1 \<le> ld_page st)"

text \<open>The links over one page of the selected text hang on a highlight that cannot be seen.\<close>

definition page_links :: "link_target \<Rightarrow> string list \<Rightarrow> nat \<Rightarrow> 'r selected_text \<Rightarrow> 'r link_call list" where
  "page_links target texts highlight page =
     CreateHighlight highlight (st_page page) (st_rect page) (st_segments page) (js_join [CHR 10] texts) #
     map (\<lambda>rect. CreateLink (st_page page) rect highlight target) (st_segments page)"

fun text_links :: "link_target \<Rightarrow> string list \<Rightarrow> nat \<Rightarrow> 'r selected_text list \<Rightarrow> 'r link_call list" where
  "text_links target texts k [] = []"
| "text_links target texts k (page # pages) = page_links target texts k page @ text_links target texts (Suc k) pages"

definition apply_links :: "'r selected_text list \<Rightarrow> link_target \<Rightarrow> string list \<Rightarrow> 'r link_dialog \<Rightarrow> 'r link_dialog" where
  "apply_links pages target texts st =
     st\<lparr>ld_calls := ld_calls st @ text_links target texts (ld_next st) pages @ [ClearSelection], ld_next := ld_next st + length pages,
        ld_notices := ld_notices st @ [''Link added.''], ld_open := False\<rparr>"

definition linked_rects :: "'r selected_annotation \<Rightarrow> 'r list" where
  "linked_rects a = (if sa_segments a \<noteq> [] then sa_segments a else [sa_rect a])"

text \<open>The selection engine may be missing; then there is no selected text.\<close>

definition link_handle_submit :: "'r link_dialog \<Rightarrow> 'r link_dialog" where
  "link_handle_submit st =
     (case build_target (ld_total st) (ld_tab st) (ld_url st) (ld_page st) of
        None \<Rightarrow> st
      | Some target \<Rightarrow>
          if \<not> ld_scope st then st
          else case (if ld_source st = FromAnnotation then ld_selected st else None) of
            Some a \<Rightarrow>
              if sa_link a \<noteq> None then
                st\<lparr>ld_calls := ld_calls st @ [UpdateLink (sa_page a) (sa_id a) target],
                   ld_notices := ld_notices st @ [''Link updated.''], ld_open := False\<rparr>
              else
                st\<lparr>ld_calls := ld_calls st @ map (\<lambda>rect. CreateLink (sa_page a) rect (sa_id a) target) (linked_rects a),
                   ld_notices := ld_notices st @ [''Link added.''], ld_open := False\<rparr>
          | None \<Rightarrow>
              (case ld_formatted st of
                 None \<Rightarrow> st\<lparr>ld_notices := ld_notices st @ [''Select text or an annotation first.'']\<rparr>
               | Some [] \<Rightarrow> st\<lparr>ld_notices := ld_notices st @ [''Select text or an annotation first.'']\<rparr>
               | Some pages \<Rightarrow> st\<lparr>ld_waiting := ld_waiting st @ [(pages, target)]\<rparr>))"

datatype 'r link_event =
    LinkShown bool link_source bool
  | SelectionChanged "'r selected_annotation option" "'r selected_text list option" nat
  | LinkTabPicked link_tab
  | UrlTyped string
  | PageTyped string
  | UrlEntered
  | LinkSubmitted
  | LinkClosed
  | TextAnswered "'r selected_text list \<times> link_target" "string list option"

fun link_step :: "'r link_dialog \<Rightarrow> 'r link_event \<Rightarrow> 'r link_dialog option" where
  "link_step st (LinkShown shown source scope) = Some (link_shown shown source scope st)"
| "link_step st (SelectionChanged selected formatted pages) =
     Some (st\<lparr>ld_selected := selected, ld_formatted := formatted, ld_total := max pages 1\<rparr>)"
| "link_step st (LinkTabPicked tab) = (if ld_open st then Some (st\<lparr>ld_tab := tab\<rparr>) else None)"
| "link_step st (UrlTyped s) = (if ld_open st \<and> ld_tab st = UrlTab then Some (st\<lparr>ld_url := s\<rparr>) else None)"
| "link_step st (PageTyped s) = (if ld_open st \<and> ld_tab st = PageTab then Some (st\<lparr>ld_page := page_typed s\<rparr>) else None)"
| "link_step st UrlEntered =
     (if ld_open st \<and> ld_tab st = UrlTab \<and> link_can_submit st then Some (link_handle_submit st) else None)"
| "link_step st LinkSubmitted = (if ld_open st \<and> link_can_submit st then Some (link_handle_submit st) else None)"
| "link_step st LinkClosed = (if ld_open st then Some (st\<lparr>ld_open := False\<rparr>) else None)"
| "link_step st (TextAnswered w texts) =
     (if w \<in> set (ld_waiting st)
      then Some (apply_links (fst w) (snd w) (case texts of Some ts \<Rightarrow> ts | None \<Rightarrow> []) (st\<lparr>ld_waiting := remove1 w (ld_waiting st)\<rparr>))
      else None)"

section \<open>What the links are\<close>

lemma https_scheme: "has_scheme (''https://'' @ s)"
  by (simp add: has_scheme_def scheme_letter_def lower_char_def is_digit_def)

lemma js_trim_suffix: "js_trim s \<noteq> [] \<Longrightarrow> js_trim (''https://'' @ js_trim s) = ''https://'' @ js_trim s"
proof -
  assume ne: "js_trim s \<noteq> []"
  have idem: "js_trim (js_trim s) = js_trim s" by simp
  have "\<not> is_ws (last (js_trim s))"
  proof -
    have "rev (js_trim s) = dropWhile is_ws (rev (dropWhile is_ws s))" by (simp add: js_trim_def)
    then have "\<not> is_ws (hd (rev (js_trim s)))" using ne by (metis hd_dropWhile rev_is_Nil_conv)
    then show ?thesis by (simp add: hd_rev)
  qed
  then show ?thesis using ne by (intro js_trim_id) (simp_all add: is_ws_def)
qed

text \<open>
  A target that the dialog has built and shows again is built as it was, and its page is one of the document.
\<close>
theorem link_target_read_back:
  assumes "build_target totalPages tab url pageNumber = Some target" "1 \<le> totalPages" "read_link_target (Some target) = (tab', url', page')"
  shows "tab' = tab \<and> build_target totalPages tab' url' (case page' of Some n \<Rightarrow> n | None \<Rightarrow> 1) = Some target \<and>
    (\<forall>i. target = DestinationTarget i \<longrightarrow> 0 \<le> i \<and> i < of_nat totalPages)"
proof (cases tab)
  case UrlTab
  then have ne: "js_trim url \<noteq> []" and target: "target = ActionTarget (UriAction (normalized_url (js_trim url)))"
    using assms(1) by (auto simp: build_target_def Let_def split: if_splits)
  have "js_trim (normalized_url (js_trim url)) = normalized_url (js_trim url)"
    using js_trim_suffix [OF ne] by (simp add: normalized_url_def)
  moreover have "normalized_url (normalized_url t) = normalized_url t" for t
    by (simp add: normalized_url_def https_scheme [unfolded append.simps])
  moreover have "normalized_url t \<noteq> []" if "t \<noteq> []" for t using that by (simp add: normalized_url_def)
  ultimately show ?thesis using assms(3) UrlTab ne by (auto simp: target read_link_target_def build_target_def Let_def)
next
  case PageTab
  then show ?thesis using assms by (auto simp: build_target_def read_link_target_def)
qed

theorem link_target_read_back_witness:
  "build_target 5 PageTab [] 9 = Some (DestinationTarget 4) \<and> build_target 5 PageTab [] 5 = Some (DestinationTarget 4)"
proof -
  have 1: "build_target 5 PageTab [] 9 = Some (DestinationTarget 4)" by (simp add: build_target_def)
  have "read_link_target (Some (DestinationTarget 4)) = (PageTab, [], Some 5)" by (simp add: read_link_target_def)
  from link_target_read_back [OF 1 _ this] 1 show ?thesis by simp
qed

text \<open>
  The links over a selected text: one for every segment of every page, in order, with the target; and each hangs on a highlight of its own page
  that was created before it.
\<close>

fun links_of :: "'r link_call list \<Rightarrow> (nat \<times> 'r \<times> link_target) list" where
  "links_of [] = []"
| "links_of (CreateLink page rect parent target # cs) = (page, rect, target) # links_of cs"
| "links_of (c # cs) = links_of cs"

fun parents_known :: "(nat \<times> nat) set \<Rightarrow> 'r link_call list \<Rightarrow> bool" where
  "parents_known known [] \<longleftrightarrow> True"
| "parents_known known (CreateHighlight k page rect segments t # cs) \<longleftrightarrow> parents_known (insert (k, page) known) cs"
| "parents_known known (CreateLink page rect parent target # cs) \<longleftrightarrow> (parent, page) \<in> known \<and> parents_known known cs"
| "parents_known known (c # cs) \<longleftrightarrow> parents_known known cs"

lemma links_of_append: "links_of (as @ bs) = links_of as @ links_of bs"
  by (induction as rule: links_of.induct) simp_all

lemma links_of_segments: "links_of (map (\<lambda>r. CreateLink q r h target) rs) = map (\<lambda>r. (q, r, target)) rs"
  by (induction rs) simp_all

lemma links_of_pages:
  "links_of (text_links target texts k pages) = concat (map (\<lambda>p. map (\<lambda>r. (st_page p, r, target)) (st_segments p)) pages)"
  by (induction pages arbitrary: k) (simp_all add: page_links_def links_of_append links_of_segments)

lemma parents_known_segments:
  "(k, q) \<in> known \<Longrightarrow> parents_known known (map (\<lambda>r. CreateLink q r k target) rs @ cs) = parents_known known cs"
  by (induction rs) simp_all

lemma text_links_parents: "parents_known known (text_links target texts k pages @ [ClearSelection])"
  by (induction pages arbitrary: k known) (simp_all add: page_links_def parents_known_segments)

theorem text_is_linked:
  assumes "link_step st (TextAnswered (pages, target) texts) = Some st'"
  shows "\<exists>calls. ld_calls st' = ld_calls st @ calls \<and>
    links_of calls = concat (map (\<lambda>p. map (\<lambda>r. (st_page p, r, target)) (st_segments p)) pages) \<and>
    parents_known {} calls \<and> last calls = ClearSelection \<and> \<not> ld_open st'"
proof -
  have "ld_calls st' = ld_calls st @ text_links target (case texts of Some ts \<Rightarrow> ts | None \<Rightarrow> []) (ld_next st) pages @ [ClearSelection]"
    "\<not> ld_open st'"
    using assms by (auto simp: apply_links_def split: if_splits)
  then show ?thesis
    by (intro exI [of _ "text_links target (case texts of Some ts \<Rightarrow> ts | None \<Rightarrow> []) (ld_next st) pages @ [ClearSelection]"])
      (simp add: links_of_append links_of_pages text_links_parents)
qed

definition sample_text :: "nat selected_text list" where
  "sample_text = [\<lparr>st_page = 0, st_rect = 1, st_segments = [2, 3]\<rparr>, \<lparr>st_page = 1, st_rect = 4, st_segments = [5]\<rparr>]"

theorem text_is_linked_witness:
  "\<exists>st st'. exec link_step link_start
      [LinkShown True FromSelection True, SelectionChanged None (Some sample_text) 2, UrlTyped ''a.b'', LinkSubmitted] = Some st \<and>
    link_step st (TextAnswered (sample_text, ActionTarget (UriAction ''https://a.b'')) None) = Some st' \<and>
    links_of (ld_calls st') = map (\<lambda>(p, r). (p, r, ActionTarget (UriAction ''https://a.b''))) [(0, 2), (0, 3), (1, 5)]"
proof -
  let ?target = "ActionTarget (UriAction ''https://a.b'')"
  obtain st where st: "exec link_step link_start
      [LinkShown True FromSelection True, SelectionChanged None (Some sample_text) 2, UrlTyped ''a.b'', LinkSubmitted] = Some st"
      "ld_waiting st = [(sample_text, ?target)]" "ld_calls st = []"
    by (simp add: link_start_def link_shown_def link_can_submit_def link_handle_submit_def build_target_def js_trim_def is_ws_def
        normalized_url_def has_scheme_def scheme_letter_def lower_char_def is_digit_def sample_text_def)
  obtain st' where st': "link_step st (TextAnswered (sample_text, ?target) None) = Some st'" using st by simp
  from text_is_linked [OF st'] st(3)
  have "links_of (ld_calls st') = concat (map (\<lambda>p. map (\<lambda>r. (st_page p, r, ?target)) (st_segments p)) sample_text)" by auto
  then show ?thesis using st(1) st' by (auto simp: sample_text_def)
qed

text \<open>
  While the selected text is being read the dialog stays open with its button, so a second press links the text twice.
\<close>

lemma pressed_twice_links_twice:
  "\<exists>st. exec link_step link_start
      [LinkShown True FromSelection True, SelectionChanged None (Some sample_text) 2, UrlTyped ''a.b'', LinkSubmitted, UrlEntered,
       TextAnswered (sample_text, ActionTarget (UriAction ''https://a.b'')) None,
       TextAnswered (sample_text, ActionTarget (UriAction ''https://a.b'')) None] = Some st \<and> length (links_of (ld_calls st)) = 6"
  by (simp add: link_start_def link_shown_def link_can_submit_def link_handle_submit_def build_target_def js_trim_def is_ws_def
      normalized_url_def has_scheme_def scheme_letter_def lower_char_def is_digit_def sample_text_def apply_links_def page_links_def)

text \<open>A host with a port counts as a scheme and is not completed; and a page number may be a fraction.\<close>

lemma port_is_no_scheme: "normalized_url ''localhost:3000'' = ''localhost:3000'' \<and> normalized_url ''example.com:8080/a'' = ''example.com:8080/a''"
  by (simp add: normalized_url_def has_scheme_def scheme_letter_def lower_char_def is_digit_def)

lemma fraction_of_a_page: "build_target 9 PageTab [] (page_typed ''2.5'') = Some (DestinationTarget (3 / 2))"
  by (simp add: build_target_def page_typed_def js_number_def js_trim_def is_ws_def unsigned_literal_def is_digit_def digits_value_def
      digit_value_def scaled_def exponent_part_def js_finite_def to_lower_def lower_char_def Let_def)

end
