(* ===== verification/PdfDialogs.thy ===== *)
theory PdfDialogs
  imports DocumentNames
begin

text \<open>
  The document properties, the signature and the capture dialogs of the PDF editor (PdfEditorPropertiesDialog,
  PdfEditorSignatureDialog and PdfEditorCaptureDialog of web/src/components/extend/pdf-editor-dialogs.tsx).

  Documents, read requests and the addresses of blobs are numbered; a drawn, typed or uploaded signature stands for itself.
\<close>

section \<open>Document properties\<close>

datatype metadata_key = MetaTitle | MetaAuthor | MetaSubject | MetaKeywords | MetaCreator | MetaProducer

type_synonym metadata = "metadata_key \<Rightarrow> string"

definition empty_metadata :: metadata where
  "empty_metadata = (\<lambda>_. [])"

definition read_metadata :: "(metadata_key \<Rightarrow> string option) \<Rightarrow> metadata" where
  "read_metadata result = (\<lambda>k. case result k of Some s \<Rightarrow> s | None \<Rightarrow> [])"

record metadata_dialog =
  md_open :: bool
  md_registry :: bool
  md_document :: "nat option"
  md_can_modify :: bool
  md_values :: metadata
  md_dates :: "int option \<times> int option"
  md_loading :: bool
  md_saving :: bool
  md_error :: "string option"
  md_reads :: "nat list"
  md_current :: "nat option"
  md_waiting :: "nat list"
  md_saves :: "(nat \<times> metadata) list"
  md_sent :: "(nat \<times> metadata) list"
  md_notices :: "string list"

definition metadata_start :: metadata_dialog where
  "metadata_start =
     \<lparr>md_open = False, md_registry = False, md_document = None, md_can_modify = False, md_values = empty_metadata, md_dates = (None, None),
      md_loading = False, md_saving = False, md_error = None, md_reads = [], md_current = None, md_waiting = [], md_saves = [],
      md_sent = [], md_notices = []\<rparr>"

text \<open>
  A rendering with another document, another registry, or open where it was closed, begins anew: the read before is
  superseded and, when there is something to read, the next one sent. Read requests are numbered by their place in
  the list of the documents read.
\<close>

definition metadata_seen :: "bool \<Rightarrow> bool \<Rightarrow> nat option \<Rightarrow> metadata_dialog \<Rightarrow> metadata_dialog" where
  "metadata_seen shown registry document st =
     (if shown = md_open st \<and> registry = md_registry st \<and> document = md_document st then st
      else
        let st' = st\<lparr>md_open := shown, md_registry := registry, md_document := document, md_error := None,
                     md_loading := (shown \<and> registry \<and> document \<noteq> None), md_current := None\<rparr>
        in case document of
             Some d \<Rightarrow> if shown \<and> registry
               then st'\<lparr>md_reads := md_reads st @ [d], md_current := Some (length (md_reads st)),
                        md_waiting := md_waiting st @ [length (md_reads st)]\<rparr>
               else st'
           | None \<Rightarrow> st')"

type_synonym metadata_answer = "string option + (metadata_key \<Rightarrow> string option) \<times> int option \<times> int option"

definition metadata_read_settles :: "nat \<Rightarrow> metadata_answer \<Rightarrow> metadata_dialog \<Rightarrow> metadata_dialog option" where
  "metadata_read_settles r answer st =
     (if r \<notin> set (md_waiting st) then None
      else let st' = st\<lparr>md_waiting := remove1 r (md_waiting st)\<rparr>
           in Some (if md_current st \<noteq> Some r then st'
              else case answer of
                Inr (result, dates) \<Rightarrow> st'\<lparr>md_values := read_metadata result, md_dates := dates, md_loading := False\<rparr>
              | Inl reason \<Rightarrow>
                  st'\<lparr>md_error := Some (case reason of Some m \<Rightarrow> m | None \<Rightarrow> ''The document metadata could not be read.''),
                      md_loading := False\<rparr>))"

definition handle_metadata_save :: "metadata_dialog \<Rightarrow> metadata_dialog" where
  "handle_metadata_save st =
     (case md_document st of
        Some d \<Rightarrow> if md_registry st
          then st\<lparr>md_saving := True, md_error := None, md_saves := md_saves st @ [(d, md_values st)], md_sent := md_sent st @ [(d, md_values st)]\<rparr>
          else st
      | None \<Rightarrow> st)"

definition metadata_save_settles :: "nat \<times> metadata \<Rightarrow> string option option \<Rightarrow> metadata_dialog \<Rightarrow> metadata_dialog" where
  "metadata_save_settles w failure st =
     (let st' = st\<lparr>md_saves := remove1 w (md_saves st), md_saving := False\<rparr>
      in case failure of
           None \<Rightarrow> metadata_seen False (md_registry st') (md_document st') (st'\<lparr>md_notices := md_notices st' @ [''Document properties saved.'']\<rparr>)
         | Some reason \<Rightarrow> st'\<lparr>md_error := Some (case reason of Some m \<Rightarrow> m | None \<Rightarrow> ''The document metadata could not be saved.'')\<rparr>)"

datatype metadata_action =
    MetadataSeen bool bool "nat option" bool
  | MetadataRead nat metadata_answer
  | MetadataTyped metadata_key string
  | MetadataSaved
  | MetadataCancelled
  | MetadataSaveEnds "nat \<times> metadata" "string option option"

text \<open>The fields are drawn, and the button pressed, while nothing is loaded and the document may be changed.\<close>

fun metadata_step :: "metadata_dialog \<Rightarrow> metadata_action \<Rightarrow> metadata_dialog option" where
  "metadata_step st (MetadataSeen shown registry document can) = Some ((metadata_seen shown registry document st)\<lparr>md_can_modify := can\<rparr>)"
| "metadata_step st (MetadataRead r answer) = metadata_read_settles r answer st"
| "metadata_step st (MetadataTyped k s) =
     (if md_open st \<and> \<not> md_loading st \<and> md_can_modify st then Some (st\<lparr>md_values := (md_values st)(k := s)\<rparr>) else None)"
| "metadata_step st MetadataSaved =
     (if md_open st \<and> \<not> md_loading st \<and> md_can_modify st \<and> \<not> md_saving st then Some (handle_metadata_save st) else None)"
| "metadata_step st MetadataCancelled =
     (if md_open st \<and> \<not> md_saving st then Some (metadata_seen False (md_registry st) (md_document st) st) else None)"
| "metadata_step st (MetadataSaveEnds w failure) = (if w \<in> set (md_saves st) then Some (metadata_save_settles w failure st) else None)"

text \<open>Every read that can still have an effect is one of the document shown.\<close>

definition metadata_inv :: "metadata_dialog \<Rightarrow> bool" where
  "metadata_inv st \<longleftrightarrow>
     (\<forall>r. md_current st = Some r \<longrightarrow> r < length (md_reads st) \<and> md_document st = Some (md_reads st ! r) \<and> md_open st \<and> md_registry st)"

lemma metadata_seen_inv: "metadata_inv st \<Longrightarrow> metadata_inv (metadata_seen shown registry document st)"
  by (auto simp: metadata_inv_def metadata_seen_def Let_def nth_append split: option.splits)

lemma metadata_inv_step:
  assumes "metadata_inv st" "metadata_step st a = Some st'"
  shows "metadata_inv st'"
proof (cases a)
  case (MetadataSeen shown registry document can)
  then show ?thesis using assms metadata_seen_inv [OF assms(1), of shown registry document] by (auto simp: metadata_inv_def)
next
  case (MetadataSaveEnds w failure)
  have "metadata_inv (st\<lparr>md_saves := remove1 w (md_saves st), md_saving := False, md_notices := md_notices st @ [''Document properties saved.'']\<rparr>)"
    using assms(1) by (simp add: metadata_inv_def)
  then show ?thesis using assms MetadataSaveEnds
    by (cases failure) (auto simp: metadata_save_settles_def Let_def metadata_seen_inv split: if_splits, simp_all add: metadata_inv_def)
next
  case MetadataCancelled
  then show ?thesis using assms metadata_seen_inv by (auto split: if_splits)
qed (use assms in \<open>auto simp: metadata_inv_def metadata_read_settles_def handle_metadata_save_def Let_def split: if_splits option.splits sum.splits\<close>)

interpretation metadata: machine metadata_step metadata_start metadata_inv
  by unfold_locales (simp add: metadata_inv_def metadata_start_def, rule metadata_inv_step)

lemma exec_typed:
  assumes "exec metadata_step st (map (\<lambda>(k, s). MetadataTyped k s) typed) = Some st'"
  shows "md_values st' = foldl (\<lambda>m (k, s). m(k := s)) (md_values st) typed \<and> md_sent st' = md_sent st \<and>
    md_document st' = md_document st \<and> md_registry st' = md_registry st"
  using assms
proof (induction typed arbitrary: st)
  case (Cons p typed)
  obtain k s where p: "p = (k, s)" by (cases p)
  with Cons.prems have "exec metadata_step (st\<lparr>md_values := (md_values st)(k := s)\<rparr>) (map (\<lambda>(k, s). MetadataTyped k s) typed) = Some st'"
    by (simp split: if_splits)
  from Cons.IH [OF this] p show ?case by simp
qed simp

text \<open>
  What is saved after a read that had an effect goes to the document that was read, and is what was read, with nothing in place of
  what is missing, changed where something was typed since.
\<close>
theorem metadata_saved_where_read:
  assumes "exec metadata_step metadata_start as = Some st" "md_current st = Some r"
    "metadata_step st (MetadataRead r (Inr (result, dates))) = Some st1"
    "exec metadata_step st1 (map (\<lambda>(k, s). MetadataTyped k s) typed) = Some st2" "metadata_step st2 MetadataSaved = Some st3"
  shows "md_sent st3 = md_sent st @ [(md_reads st ! r, foldl (\<lambda>m (k, s). m(k := s)) (read_metadata result) typed)] \<and>
    md_document st = Some (md_reads st ! r)"
proof -
  have inv: "md_document st = Some (md_reads st ! r)" "md_registry st"
    using metadata.inv_exec [OF assms(1)] assms(2) by (auto simp: metadata_inv_def)
  have st1: "md_values st1 = read_metadata result" "md_document st1 = md_document st" "md_registry st1 = md_registry st"
    "md_sent st1 = md_sent st"
    using assms(2,3) by (auto simp: metadata_read_settles_def Let_def split: if_splits)
  have "st3 = handle_metadata_save st2" using assms(5) by (auto split: if_splits)
  then show ?thesis using exec_typed [OF assms(4)] st1 inv by (simp add: handle_metadata_save_def)
qed

definition metadata_answer_of :: "string \<Rightarrow> metadata_answer" where
  "metadata_answer_of title = Inr ((\<lambda>k. if k = MetaTitle then Some title else None), None, None)"

theorem metadata_saved_where_read_witness:
  "\<exists>st m. exec metadata_step metadata_start
      [MetadataSeen True True (Some 7) True, MetadataRead 0 (metadata_answer_of ''t''), MetadataTyped MetaAuthor ''a'', MetadataSaved] = Some st \<and>
    md_sent st = [(7, m)] \<and> m MetaTitle = ''t'' \<and> m MetaAuthor = ''a'' \<and> m MetaSubject = []"
proof -
  let ?result = "\<lambda>k. if k = MetaTitle then Some ''t'' else None"
  let ?a1 = "[MetadataSeen True True (Some 7) True]" and ?typed = "[(MetaAuthor, ''a'')]"
  obtain st where st: "exec metadata_step metadata_start ?a1 = Some st" "md_current st = Some 0" "md_waiting st = [0]" "md_sent st = []"
      "md_reads st = [7]" "md_open st" "md_can_modify st" "\<not> md_saving st"
    by (simp add: metadata_start_def metadata_seen_def)
  obtain st1 where st1: "metadata_step st (MetadataRead 0 (Inr (?result, None, None))) = Some st1"
      "md_open st1" "md_can_modify st1" "\<not> md_loading st1" "\<not> md_saving st1"
    using st by (simp add: metadata_read_settles_def)
  obtain st2 where st2: "exec metadata_step st1 (map (\<lambda>(k, s). MetadataTyped k s) ?typed) = Some st2"
      "md_open st2" "md_can_modify st2" "\<not> md_loading st2" "\<not> md_saving st2"
    using st1 by simp
  obtain st3 where st3: "metadata_step st2 MetadataSaved = Some st3" using st2 by simp
  from metadata_saved_where_read [OF st(1,2) st1(1) st2(1) st3] st(4,5)
  have sent: "md_sent st3 = [(7, (read_metadata ?result)(MetaAuthor := ''a''))]" by simp
  have "exec metadata_step metadata_start (?a1 @ [MetadataRead 0 (metadata_answer_of ''t'')] @ map (\<lambda>(k, s). MetadataTyped k s) ?typed @ [MetadataSaved]) = Some st3"
    unfolding exec_append st(1) using st1(1) st2(1) st3 by (simp add: exec_append metadata_answer_of_def del: metadata_step.simps)
  then have "exec metadata_step metadata_start
      [MetadataSeen True True (Some 7) True, MetadataRead 0 (metadata_answer_of ''t''), MetadataTyped MetaAuthor ''a'', MetadataSaved] = Some st3"
    by (simp only: append_Cons append_Nil list.map prod.case)
  with sent show ?thesis by (auto simp: read_metadata_def)
qed

text \<open>
  A read that fails leaves the fields as they were, with what was read or typed for another document before, and the button enabled:
  saving then writes that into the document shown.
\<close>

lemma failed_read_saves_other_values:
  "\<exists>st m. exec metadata_step metadata_start
      [MetadataSeen True True (Some 1) True, MetadataRead 0 (metadata_answer_of ''first''), MetadataSeen True True (Some 2) True,
       MetadataRead 1 (Inl None), MetadataSaved] = Some st \<and> md_sent st = [(2, m)] \<and> m MetaTitle = ''first''"
  by (simp add: metadata_start_def metadata_seen_def metadata_read_settles_def metadata_answer_of_def read_metadata_def
      handle_metadata_save_def)

text \<open>A save that ends after the dialog was closed and opened again closes it with what was typed since.\<close>

lemma earlier_save_closes_dialog:
  "\<exists>st w. exec metadata_step metadata_start
      [MetadataSeen True True (Some 1) True, MetadataRead 0 (metadata_answer_of ''t''), MetadataSaved, MetadataSeen False True (Some 1) True,
       MetadataSeen True True (Some 1) True, MetadataRead 1 (metadata_answer_of ''t''), MetadataTyped MetaTitle ''u''] = Some st \<and>
    md_open st \<and> md_saves st = [w] \<and> \<not> md_open (metadata_save_settles w None st)"
  by (simp add: metadata_start_def metadata_seen_def metadata_read_settles_def metadata_answer_of_def read_metadata_def
      handle_metadata_save_def metadata_save_settles_def)

section \<open>Signatures\<close>

datatype signature_tab = DrawTab | TypeTab | UploadTab

datatype signature_target = SignatureTarget | InitialsTarget

definition signature_colors :: "(string \<times> string) list" where
  "signature_colors = [(''Black'', ''#111827''), (''Blue'', ''#1d4ed8''), (''Red'', ''#dc2626'')]"

record 'f signature_dialog =
  sg_open :: bool
  sg_tab :: signature_tab
  sg_color :: string
  sg_font :: string
  sg_signature :: "'f option"
  sg_initials :: "'f option"
  sg_target :: signature_target
  sg_entries :: "('f \<times> 'f option) list"
  sg_notices :: "string list"

definition signature_start :: "string \<Rightarrow> 'f signature_dialog" where
  "signature_start first_font =
     \<lparr>sg_open = False, sg_tab = DrawTab, sg_color = snd (hd signature_colors), sg_font = first_font, sg_signature = None,
      sg_initials = None, sg_target = SignatureTarget, sg_entries = [], sg_notices = []\<rparr>"

definition signature_shown :: "string \<Rightarrow> bool \<Rightarrow> 'f signature_dialog \<Rightarrow> 'f signature_dialog" where
  "signature_shown first_font shown st =
     (if shown = sg_open st then st
      else if shown then st\<lparr>sg_open := True\<rparr>
      else st\<lparr>sg_open := False, sg_tab := DrawTab, sg_color := snd (hd signature_colors), sg_font := first_font,
              sg_target := SignatureTarget, sg_signature := None, sg_initials := None\<rparr>)"

definition clear_all_signatures :: "'f signature_dialog \<Rightarrow> 'f signature_dialog" where
  "clear_all_signatures st = st\<lparr>sg_signature := None, sg_initials := None\<rparr>"

definition handle_tab_change :: "signature_tab \<Rightarrow> 'f signature_dialog \<Rightarrow> 'f signature_dialog" where
  "handle_tab_change tab st = (clear_all_signatures st)\<lparr>sg_tab := tab\<rparr>"

definition signature_cleared :: "'f signature_dialog \<Rightarrow> 'f signature_dialog" where
  "signature_cleared st = (case sg_target st of SignatureTarget \<Rightarrow> st\<lparr>sg_signature := None\<rparr> | InitialsTarget \<Rightarrow> st\<lparr>sg_initials := None\<rparr>)"

definition handle_signature_save :: "string \<Rightarrow> bool \<Rightarrow> 'f signature_dialog \<Rightarrow> 'f signature_dialog" where
  "handle_signature_save first_font provided st =
     (case (case sg_signature st of Some s \<Rightarrow> Some s | None \<Rightarrow> sg_initials st) of
        Some entry \<Rightarrow> if provided
          then signature_shown first_font False
            (st\<lparr>sg_entries := sg_entries st @ [(entry, sg_initials st)],
                sg_notices := sg_notices st @ [if sg_signature st \<noteq> None then ''Signature saved.'' else ''Initials saved.'']\<rparr>)
          else st
      | None \<Rightarrow> st)"

datatype 'f signature_action =
    SignatureShown bool
  | SignatureTabPicked signature_tab
  | TargetPicked signature_target
  | PadResult signature_target "'f option"
  | SignatureCleared
  | SignatureColored string
  | FontPicked string
  | SignatureSaved bool
  | SignatureClosed

text \<open>The pads report what is drawn, typed or uploaded; initials have a pad when the engine keeps initials.\<close>

fun signature_step :: "string \<Rightarrow> bool \<Rightarrow> 'f signature_dialog \<Rightarrow> 'f signature_action \<Rightarrow> 'f signature_dialog option" where
  "signature_step first_font initials st (SignatureShown shown) = Some (signature_shown first_font shown st)"
| "signature_step first_font initials st (SignatureTabPicked tab) = (if sg_open st then Some (handle_tab_change tab st) else None)"
| "signature_step first_font initials st (TargetPicked target) = (if sg_open st \<and> initials then Some (st\<lparr>sg_target := target\<rparr>) else None)"
| "signature_step first_font initials st (PadResult target result) =
     (if \<not> sg_open st \<or> (target = InitialsTarget \<and> \<not> initials) then None
      else Some (case target of SignatureTarget \<Rightarrow> st\<lparr>sg_signature := result\<rparr> | InitialsTarget \<Rightarrow> st\<lparr>sg_initials := result\<rparr>))"
| "signature_step first_font initials st SignatureCleared = (if sg_open st then Some (signature_cleared st) else None)"
| "signature_step first_font initials st (SignatureColored color) = (if sg_open st \<and> sg_tab st \<noteq> UploadTab then Some (st\<lparr>sg_color := color\<rparr>) else None)"
| "signature_step first_font initials st (FontPicked font) = (if sg_open st \<and> sg_tab st = TypeTab then Some (st\<lparr>sg_font := font\<rparr>) else None)"
| "signature_step first_font initials st (SignatureSaved provided) =
     (if sg_open st \<and> (sg_signature st \<noteq> None \<or> sg_initials st \<noteq> None) then Some (handle_signature_save first_font provided st) else None)"
| "signature_step first_font initials st SignatureClosed = (if sg_open st then Some (signature_shown first_font False st) else None)"

definition signature_inv :: "bool \<Rightarrow> 'f signature_dialog \<Rightarrow> bool" where
  "signature_inv initials st \<longleftrightarrow>
     (\<not> sg_open st \<longrightarrow> sg_signature st = None \<and> sg_initials st = None \<and> sg_target st = SignatureTarget) \<and>
     (\<not> initials \<longrightarrow> sg_initials st = None \<and> (\<forall>e\<in>set (sg_entries st). snd e = None))"

lemma signature_inv_step:
  "signature_inv initials st \<Longrightarrow> signature_step first_font initials st a = Some st' \<Longrightarrow> signature_inv initials st'"
  by (cases a)
    (auto simp: signature_inv_def signature_shown_def handle_tab_change_def clear_all_signatures_def signature_cleared_def
      handle_signature_save_def split: if_splits option.splits signature_target.splits)

interpretation signatures: machine "signature_step first_font initials" "signature_start first_font" "signature_inv initials"
  by unfold_locales (simp add: signature_inv_def signature_start_def, rule signature_inv_step)

text \<open>
  Without initials no entry has any; what was drawn before another tab was picked is never saved; and a dialog that
  is opened again holds nothing.
\<close>

lemma entries_without_initials:
  "exec (signature_step first_font False) (signature_start first_font) as = Some st \<Longrightarrow> e \<in> set (sg_entries st) \<Longrightarrow> snd e = None"
  using signatures.inv_exec [of first_font False as st] by (auto simp: signature_inv_def)

lemma other_tab_forgets: "signature_step first_font initials (handle_tab_change tab st) (SignatureSaved provided) = None"
  by (simp add: handle_tab_change_def clear_all_signatures_def)

section \<open>Captured areas\<close>

record capture_result =
  cp_page :: nat
  cp_size :: nat
  cp_type :: string
  cp_url :: nat

record capture_dialog =
  cd_result :: "capture_result option"
  cd_live :: "nat set"
  cd_next :: nat
  cd_downloads :: "(nat \<times> string) list"

definition capture_start :: capture_dialog where
  "capture_start = \<lparr>cd_result = None, cd_live = {}, cd_next = 0, cd_downloads = []\<rparr>"

definition release_result :: "capture_dialog \<Rightarrow> nat set" where
  "release_result st = (case cd_result st of Some r \<Rightarrow> cd_live st - {cp_url r} | None \<Rightarrow> cd_live st)"

text \<open>An area that is captured replaces the one before, whose address is released; so does closing.\<close>

definition area_captured :: "nat \<Rightarrow> nat \<Rightarrow> string \<Rightarrow> capture_dialog \<Rightarrow> capture_dialog" where
  "area_captured page bytes image_type st =
     st\<lparr>cd_result := Some \<lparr>cp_page = page, cp_size = bytes, cp_type = image_type, cp_url = cd_next st\<rparr>,
        cd_live := insert (cd_next st) (release_result st), cd_next := Suc (cd_next st)\<rparr>"

definition capture_closed :: "capture_dialog \<Rightarrow> capture_dialog" where
  "capture_closed st = st\<lparr>cd_result := None, cd_live := release_result st\<rparr>"

definition capture_extension :: "capture_result option \<Rightarrow> string" where
  "capture_extension result =
     (case result of Some r \<Rightarrow> (case split_char CHR ''/'' (cp_type r) of _ # e # _ \<Rightarrow> e | _ \<Rightarrow> ''png'') | None \<Rightarrow> ''png'')"

definition capture_file_name :: "string \<Rightarrow> capture_result option \<Rightarrow> string" where
  "capture_file_name fileName result =
     replace_pdf_end [] fileName @ ''-page-'' @ show_nat ((case result of Some r \<Rightarrow> cp_page r | None \<Rightarrow> 0) + 1) @ ''.'' @ capture_extension result"

datatype capture_dialog_action = AreaCaptured nat nat string | CaptureClosed | CaptureDownloaded string

fun capture_dialog_step :: "capture_dialog \<Rightarrow> capture_dialog_action \<Rightarrow> capture_dialog option" where
  "capture_dialog_step st (AreaCaptured page bytes image_type) = Some (area_captured page bytes image_type st)"
| "capture_dialog_step st CaptureClosed = (if cd_result st = None then None else Some (capture_closed st))"
| "capture_dialog_step st (CaptureDownloaded fileName) =
     (case cd_result st of
        None \<Rightarrow> None
      | Some r \<Rightarrow> Some (capture_closed (st\<lparr>cd_downloads := cd_downloads st @ [(cp_url r, capture_file_name fileName (Some r))]\<rparr>)))"

interpretation captures: machine capture_dialog_step capture_start
  "\<lambda>st. cd_live st = cp_url ` set_option (cd_result st) \<and> (\<forall>r. cd_result st = Some r \<longrightarrow> cp_url r < cd_next st)"
proof (unfold_locales, goal_cases)
  case (2 st a st')
  then show ?case
    by (cases a) (auto simp: area_captured_def capture_closed_def release_result_def split: if_splits option.splits)
qed (simp add: capture_start_def)

text \<open>No address of a captured area outlives its dialog: the only one that is not released is the one shown.\<close>
theorem captures_released:
  assumes "exec capture_dialog_step capture_start as = Some st"
  shows "cd_live st = cp_url ` set_option (cd_result st)"
  using captures.inv_exec [OF assms] by blast

theorem captures_released_witness:
  "\<exists>st. exec capture_dialog_step capture_start [AreaCaptured 0 9 ''image/png'', AreaCaptured 1 5 ''image/jpeg'', CaptureDownloaded ''a.pdf''] = Some st \<and>
    cd_live st = {} \<and> cd_downloads st = [(1, ''a-page-2.jpeg'')]"
proof -
  let ?as = "[AreaCaptured 0 9 ''image/png'', AreaCaptured 1 5 ''image/jpeg'', CaptureDownloaded ''a.pdf'']"
  have two: "show_nat 2 = ''2''" by (simp add: show_nat.simps digit_char_def) code_simp
  obtain st where st: "exec capture_dialog_step capture_start ?as = Some st" "cd_result st = None" "cd_downloads st = [(1, ''a-page-2.jpeg'')]"
    by (simp add: capture_start_def area_captured_def capture_closed_def release_result_def capture_file_name_def capture_extension_def
        replace_pdf_end_def ends_with_def to_lower_def lower_char_def two numeral_2_eq_2 [symmetric])
  from captures_released [OF st(1)] st show ?thesis by auto
qed

end
