(* ===== verification/PdfLoader.thy ===== *)
theory PdfLoader
  imports PdfSource
begin

text \<open>
  The document loader of the PDF editor (PdfEditorDocumentLoader of web/src/components/extend/pdf-editor.tsx): it opens the
  source it is given through the engine's document manager, makes the document active once it has loaded, closes those that
  were open before, and says what the editor shows.

  The documents of the manager, and which of them is active, are the manager's: what it answers is an argument. Documents are
  numbered by it.
\<close>

section \<open>State\<close>

datatype manager_call = OpenDocument editor_source bool | SetActiveDocument nat | CloseDocument nat

text \<open>A request to open: the source it is for and the documents that were open when it was sent.\<close>

record open_request =
  or_source :: editor_source
  or_previous :: "nat list"

record loader =
  dl_manager :: bool
  dl_source :: "editor_source option"
  dl_opened :: "source_key option"
  dl_error :: "(source_key \<times> string) option"
  dl_requested :: "(source_key \<times> nat) option"
  dl_requests :: "open_request list"
  dl_opening :: "nat list"
  dl_tasks :: "(nat \<times> nat) list"
  dl_calls :: "manager_call list"
  dl_loaded :: "(nat \<times> nat \<times> string) list"
  dl_failed :: "string list"

definition loader_start :: loader where
  "loader_start =
     \<lparr>dl_manager = False, dl_source = None, dl_opened = None, dl_error = None, dl_requested = None, dl_requests = [], dl_opening = [],
      dl_tasks = [], dl_calls = [], dl_loaded = [], dl_failed = []\<rparr>"

definition could_not_load :: string where "could_not_load = ''The PDF could not be loaded.''"

section \<open>Opening\<close>

text \<open>The effect opens a source whose key is not the one opened last.\<close>

definition open_effect :: "nat list \<Rightarrow> loader \<Rightarrow> loader" where
  "open_effect open_documents st =
     (case dl_source st of
        None \<Rightarrow> st
      | Some source \<Rightarrow>
          if \<not> dl_manager st \<or> dl_opened st = Some (es_key source) then st
          else st\<lparr>dl_opened := Some (es_key source), dl_error := None,
                  dl_opening := dl_opening st @ [length (dl_requests st)],
                  dl_requests := dl_requests st @ [\<lparr>or_source = source, or_previous = open_documents\<rparr>],
                  dl_calls := dl_calls st @ [OpenDocument source (open_documents = [])]\<rparr>)"

definition still_wanted :: "nat \<Rightarrow> loader \<Rightarrow> bool" where
  "still_wanted n st \<longleftrightarrow> dl_opened st = Some (es_key (or_source (dl_requests st ! n)))"

definition load_failed :: "nat \<Rightarrow> string option \<Rightarrow> loader \<Rightarrow> loader" where
  "load_failed n reason st =
     (let message = (case reason of Some m \<Rightarrow> m | None \<Rightarrow> could_not_load)
      in if \<not> still_wanted n st then st
         else st\<lparr>dl_error := Some (es_key (or_source (dl_requests st ! n)), message), dl_failed := dl_failed st @ [message]\<rparr>)"

text \<open>The request is answered with the number of the document, whose loading goes on as a task of its own.\<close>

definition open_answered :: "nat \<Rightarrow> string option + nat \<Rightarrow> loader \<Rightarrow> loader" where
  "open_answered n answer st =
     (case answer of
        Inl reason \<Rightarrow> load_failed n reason st
      | Inr d \<Rightarrow>
          if \<not> still_wanted n st then st
          else st\<lparr>dl_requested := Some (es_key (or_source (dl_requests st ! n)), d), dl_tasks := dl_tasks st @ [(n, d)]\<rparr>)"

datatype load_end = Loaded nat | PasswordNeeded | LoadFailure "string option"

definition task_settled :: "nat \<times> nat \<Rightarrow> load_end \<Rightarrow> loader \<Rightarrow> loader" where
  "task_settled t answer st =
     (case (t, answer) of
        ((n, d), Loaded pages) \<Rightarrow>
          if \<not> still_wanted n st then st
          else st\<lparr>dl_calls := dl_calls st @ SetActiveDocument d #
                    map CloseDocument (filter (\<lambda>i. i \<noteq> d) (or_previous (dl_requests st ! n))),
                  dl_loaded := dl_loaded st @ [(pages, d, es_name (or_source (dl_requests st ! n)))]\<rparr>
      | ((n, d), PasswordNeeded) \<Rightarrow> st\<lparr>dl_calls := dl_calls st @ [SetActiveDocument d]\<rparr>
      | ((n, d), LoadFailure reason) \<Rightarrow> load_failed n reason st)"

datatype loader_action =
    SourceSeen bool "editor_source option" "nat list"
  | OpenAnswered nat "string option + nat"
  | TaskSettled "nat \<times> nat" load_end

fun loader_step :: "loader \<Rightarrow> loader_action \<Rightarrow> loader option" where
  "loader_step st (SourceSeen manager source open_documents) =
     Some (open_effect open_documents (st\<lparr>dl_manager := manager, dl_source := source\<rparr>))"
| "loader_step st (OpenAnswered n answer) =
     (if n \<in> set (dl_opening st) then Some (open_answered n answer (st\<lparr>dl_opening := remove1 n (dl_opening st)\<rparr>)) else None)"
| "loader_step st (TaskSettled t answer) =
     (if t \<in> set (dl_tasks st) then Some (task_settled t answer (st\<lparr>dl_tasks := remove1 t (dl_tasks st)\<rparr>)) else None)"

section \<open>What is shown\<close>

datatype document_status = DocumentLoading | DocumentLoaded | DocumentError bool

record active_document =
  ad_id :: nat
  ad_status :: document_status
  ad_error :: "string option"

definition is_requested_document :: "active_document option \<Rightarrow> loader \<Rightarrow> bool" where
  "is_requested_document active st \<longleftrightarrow>
     active \<noteq> None \<and> map_option fst (dl_requested st) = map_option es_key (dl_source st) \<and>
     map_option snd (dl_requested st) = map_option ad_id active"

definition current_error :: "loader \<Rightarrow> string option" where
  "current_error st =
     (if map_option fst (dl_error st) = map_option es_key (dl_source st) then map_option snd (dl_error st) else None)"

definition password_required :: "active_document option \<Rightarrow> loader \<Rightarrow> bool" where
  "password_required active st \<longleftrightarrow> is_requested_document active st \<and> map_option ad_status active = Some (DocumentError True)"

definition document_failed :: "active_document option \<Rightarrow> loader \<Rightarrow> bool" where
  "document_failed active st \<longleftrightarrow>
     current_error st \<noteq> None \<or>
     (is_requested_document active st \<and> map_option ad_status active \<in> {Some (DocumentError True), Some (DocumentError False)} \<and>
      \<not> password_required active st)"

definition loader_document :: "bool \<Rightarrow> string option \<Rightarrow> active_document option \<Rightarrow> loader \<Rightarrow> nat option" where
  "loader_document loading_source engine_error active st =
     (if \<not> loading_source \<and> \<not> document_failed active st \<and> falsy engine_error \<and> is_requested_document active st \<and>
         map_option ad_status active = Some DocumentLoaded
      then map_option ad_id active else None)"

datatype editor_state = EditorReady nat | EditorPassword | EditorError | EditorEmpty | EditorLoading

definition editor_state :: "bool \<Rightarrow> string option \<Rightarrow> active_document option \<Rightarrow> loader \<Rightarrow> editor_state" where
  "editor_state loading_source engine_error active st =
     (case loader_document loading_source engine_error active st of
        Some d \<Rightarrow> EditorReady d
      | None \<Rightarrow>
          if password_required active st then EditorPassword
          else if \<not> falsy engine_error \<or> document_failed active st then EditorError
          else if dl_source st = None \<and> \<not> loading_source then EditorEmpty
          else EditorLoading)"

definition shown_error :: "string option \<Rightarrow> active_document option \<Rightarrow> loader \<Rightarrow> string" where
  "shown_error engine_error active st =
     (case engine_error of
        Some m \<Rightarrow> m
      | None \<Rightarrow> (case current_error st of
          Some m \<Rightarrow> m
        | None \<Rightarrow> (case active of Some a \<Rightarrow> (case ad_error a of Some m \<Rightarrow> m | None \<Rightarrow> could_not_load) | None \<Rightarrow> could_not_load)))"

section \<open>Facts\<close>

text \<open>The document made active last, and what was closed since.\<close>

fun last_active :: "manager_call list \<Rightarrow> (nat \<times> nat list) option" where
  "last_active [] = None"
| "last_active (c # cs) =
     (case last_active cs of
        Some a \<Rightarrow> Some a
      | None \<Rightarrow> (case c of SetActiveDocument d \<Rightarrow> Some (d, concat (map (\<lambda>c. case c of CloseDocument i \<Rightarrow> [i] | _ \<Rightarrow> []) cs)) | _ \<Rightarrow> None))"

definition closed_in :: "manager_call list \<Rightarrow> nat list" where
  "closed_in cs = concat (map (\<lambda>c. case c of CloseDocument i \<Rightarrow> [i] | _ \<Rightarrow> []) cs)"

lemma last_active_append:
  "last_active (as @ bs) =
     (case last_active bs of
        Some a \<Rightarrow> Some a
      | None \<Rightarrow> (case last_active as of Some (d, gone) \<Rightarrow> Some (d, gone @ closed_in bs) | None \<Rightarrow> None))"
  by (induction as) (auto simp: closed_in_def split: option.splits manager_call.splits)

lemma last_active_closes: "last_active (map CloseDocument ids) = None" "closed_in (map CloseDocument ids) = ids"
  by (induction ids) (auto simp: closed_in_def)

definition loader_inv :: "loader \<Rightarrow> bool" where
  "loader_inv st \<longleftrightarrow>
     (\<forall>n\<in>set (dl_opening st). n < length (dl_requests st)) \<and> (\<forall>n d. (n, d) \<in> set (dl_tasks st) \<longrightarrow> n < length (dl_requests st)) \<and>
     (\<forall>d gone. last_active (dl_calls st) = Some (d, gone) \<longrightarrow> d \<notin> set gone)"

lemma load_failed_frame:
  "dl_opening (load_failed n reason st) = dl_opening st" "dl_tasks (load_failed n reason st) = dl_tasks st"
  "dl_requests (load_failed n reason st) = dl_requests st" "dl_calls (load_failed n reason st) = dl_calls st"
  "dl_requested (load_failed n reason st) = dl_requested st" "dl_loaded (load_failed n reason st) = dl_loaded st"
  "dl_source (load_failed n reason st) = dl_source st" "dl_opened (load_failed n reason st) = dl_opened st"
  by (simp_all add: load_failed_def Let_def)

lemma loader_calls_step:
  assumes "loader_step st a = Some st'" "\<forall>d gone. last_active (dl_calls st) = Some (d, gone) \<longrightarrow> d \<notin> set gone"
  shows "\<forall>d gone. last_active (dl_calls st') = Some (d, gone) \<longrightarrow> d \<notin> set gone"
proof -
  have "dl_calls st' = dl_calls st \<or> (\<exists>source b. dl_calls st' = dl_calls st @ [OpenDocument source b]) \<or>
    (\<exists>d ids. dl_calls st' = dl_calls st @ SetActiveDocument d # map CloseDocument (filter (\<lambda>i. i \<noteq> d) ids))"
  proof (cases a)
    case (SourceSeen manager source ids)
    then show ?thesis using assms(1) by (auto simp: open_effect_def split: option.splits if_splits)
  next
    case (OpenAnswered n answer)
    then show ?thesis using assms(1) by (auto simp: open_answered_def load_failed_frame split: sum.splits if_splits)
  next
    case (TaskSettled t answer)
    obtain n d where t: "t = (n, d)" by (cases t)
    show ?thesis
    proof (cases answer)
      case (Loaded pages)
      then show ?thesis using assms(1) TaskSettled t by (auto simp: task_settled_def split: if_splits)
    next
      case PasswordNeeded
      then have "dl_calls st' = dl_calls st @ SetActiveDocument d # map CloseDocument (filter (\<lambda>i. i \<noteq> d) [])"
        using assms(1) TaskSettled t by (auto simp: task_settled_def split: if_splits)
      then show ?thesis by blast
    next
      case (LoadFailure reason)
      then show ?thesis using assms(1) TaskSettled t by (auto simp: task_settled_def load_failed_frame split: if_splits)
    qed
  qed
  then consider "dl_calls st' = dl_calls st" | source b where "dl_calls st' = dl_calls st @ [OpenDocument source b]"
    | d ids where "dl_calls st' = dl_calls st @ SetActiveDocument d # map CloseDocument (filter (\<lambda>i. i \<noteq> d) ids)" by blast
  then show ?thesis
  proof cases
    case 3
    have "last_active (SetActiveDocument d # map CloseDocument (filter (\<lambda>i. i \<noteq> d) ids)) = Some (d, filter (\<lambda>i. i \<noteq> d) ids)"
      using last_active_closes [of "filter (\<lambda>i. i \<noteq> d) ids"] by (simp add: closed_in_def)
    then show ?thesis by (auto simp: 3 last_active_append)
  qed (use assms(2) in \<open>auto simp: last_active_append closed_in_def split: option.splits\<close>)
qed

lemma loader_inv_step:
  assumes "loader_inv st" "loader_step st a = Some st'"
  shows "loader_inv st'"
proof -
  have calls: "\<forall>d gone. last_active (dl_calls st') = Some (d, gone) \<longrightarrow> d \<notin> set gone"
    using loader_calls_step [OF assms(2)] assms(1) unfolding loader_inv_def by blast
  have bounds: "\<forall>n\<in>set (dl_opening st). n < length (dl_requests st)" "\<forall>n d. (n, d) \<in> set (dl_tasks st) \<longrightarrow> n < length (dl_requests st)"
    using assms(1) by (simp_all add: loader_inv_def)
  have "(\<forall>n\<in>set (dl_opening st'). n < length (dl_requests st')) \<and> (\<forall>n d. (n, d) \<in> set (dl_tasks st') \<longrightarrow> n < length (dl_requests st'))"
  proof (cases a)
    case (SourceSeen manager source ids)
    then show ?thesis using assms(2) bounds by (auto simp: open_effect_def less_Suc_eq split: option.splits if_splits; blast)
  next
    case (OpenAnswered n answer)
    then show ?thesis using assms(2) bounds
      by (auto simp: open_answered_def load_failed_frame split: sum.splits if_splits dest: notin_set_remove1; blast)
  next
    case (TaskSettled t answer)
    then have t: "t \<in> set (dl_tasks st)" "st' = task_settled t answer (st\<lparr>dl_tasks := remove1 t (dl_tasks st)\<rparr>)"
      using assms(2) by (auto split: if_splits)
    have frame: "dl_opening st' = dl_opening st" "dl_tasks st' = remove1 t (dl_tasks st)" "dl_requests st' = dl_requests st"
      unfolding t(2) by (cases t; cases answer; simp add: task_settled_def load_failed_frame)+
    show ?thesis using bounds set_remove1_subset [of t "dl_tasks st"] unfolding frame by blast
  qed
  then show ?thesis using calls by (simp add: loader_inv_def)
qed

interpretation loading: machine loader_step loader_start loader_inv
  by unfold_locales (simp add: loader_inv_def loader_start_def, rule loader_inv_step)

text \<open>
  The document made active last is never among those closed since; and when the document of the source wanted has loaded, it is made active and
  every other document that was open when its source was opened is closed.
\<close>
theorem active_document_stays_open:
  assumes "exec loader_step loader_start as = Some st" "last_active (dl_calls st) = Some (d, gone)"
  shows "d \<notin> set gone \<and>
    (\<forall>n e pages st'. still_wanted n st \<longrightarrow> loader_step st (TaskSettled (n, e) (Loaded pages)) = Some st' \<longrightarrow>
       last_active (dl_calls st') = Some (e, filter (\<lambda>i. i \<noteq> e) (or_previous (dl_requests st ! n))))"
proof -
  have "last_active (SetActiveDocument e # map CloseDocument ids) = Some (e, ids)" for e ids
    using last_active_closes [of ids] by (simp add: closed_in_def)
  then show ?thesis using loading.inv_exec [OF assms(1)] assms(2)
    by (auto simp: loader_inv_def task_settled_def still_wanted_def last_active_append split: if_splits)
qed

definition source_number :: "nat \<Rightarrow> editor_source" where
  "source_number n = \<lparr>es_key = FreshKey n, es_content = BufferContent [], es_name = ''a.pdf''\<rparr>"

theorem active_document_stays_open_witness:
  "\<exists>st. exec loader_step loader_start
      [SourceSeen True (Some (source_number 1)) [], OpenAnswered 0 (Inr 5), TaskSettled (0, 5) (Loaded 3),
       SourceSeen True (Some (source_number 2)) [5], OpenAnswered 1 (Inr 6), TaskSettled (1, 6) (Loaded 4)] = Some st \<and>
    last_active (dl_calls st) = Some (6, [5]) \<and> 6 \<notin> set [5::nat]"
proof -
  let ?as = "[SourceSeen True (Some (source_number 1)) [], OpenAnswered 0 (Inr 5), TaskSettled (0, 5) (Loaded 3),
       SourceSeen True (Some (source_number 2)) [5], OpenAnswered 1 (Inr 6), TaskSettled (1, 6) (Loaded 4)]"
  obtain st where st: "exec loader_step loader_start ?as = Some st" "last_active (dl_calls st) = Some (6, [5])"
    by (simp add: loader_start_def open_effect_def open_answered_def task_settled_def still_wanted_def source_number_def)
  from active_document_stays_open [OF st] st show ?thesis by auto
qed

text \<open>What a request is answered with, read off the events.\<close>

definition loader_log_ok :: "loader_action list \<Rightarrow> loader \<Rightarrow> bool" where
  "loader_log_ok as st \<longleftrightarrow>
     (\<forall>k d. dl_requested st = Some (k, d) \<longrightarrow>
        (\<exists>n < length (dl_requests st). es_key (or_source (dl_requests st ! n)) = k \<and> OpenAnswered n (Inr d) \<in> set as)) \<and>
     (\<forall>r\<in>set (dl_requests st). \<exists>manager ids. SourceSeen manager (Some (or_source r)) ids \<in> set as)"

lemma loader_log_step:
  assumes "loader_log_ok as st" "loader_inv st" "loader_step st a = Some st'"
  shows "loader_log_ok (as @ [a]) st'"
proof (cases a)
  case (SourceSeen manager source ids)
  have "loader_log_ok (as @ [a]) st" using assms(1) by (fastforce simp: loader_log_ok_def)
  then show ?thesis using assms(3) SourceSeen
    by (auto simp: loader_log_ok_def open_effect_def nth_append less_Suc_eq split: option.splits if_splits; fastforce)
next
  case (OpenAnswered n answer)
  have n: "n < length (dl_requests st)" using assms(2,3) OpenAnswered by (auto simp: loader_inv_def split: if_splits)
  have "loader_log_ok (as @ [a]) st" using assms(1) by (fastforce simp: loader_log_ok_def)
  then show ?thesis using assms(3) OpenAnswered n
    by (auto simp: loader_log_ok_def open_answered_def load_failed_frame split: sum.splits if_splits)
next
  case (TaskSettled t answer)
  have "loader_log_ok (as @ [a]) st" using assms(1) by (fastforce simp: loader_log_ok_def)
  then show ?thesis using assms(3) TaskSettled
    by (cases t; cases answer) (auto simp: loader_log_ok_def task_settled_def load_failed_frame split: if_splits)
qed

lemma loader_log: "exec loader_step loader_start as = Some st \<Longrightarrow> loader_log_ok as st"
proof (induction as arbitrary: st rule: rev_induct)
  case Nil
  then show ?case by (auto simp: loader_log_ok_def loader_start_def)
next
  case (snoc a as)
  then obtain t where t: "exec loader_step loader_start as = Some t" "loader_step t a = Some st"
    by (auto simp: exec_append split: option.splits)
  then show ?case using loader_log_step [OF snoc.IH [OF t(1)] loading.inv_exec [OF t(1)] t(2)] by blast
qed

text \<open>
  The editor edits a document only when there is a source, and then the document the manager gave for a source of the same key:
  while a newer source loads, has failed or asks for a password, the old document is not shown.
\<close>
theorem ready_document_is_of_source:
  assumes "exec loader_step loader_start as = Some st" "editor_state loading_source engine_error active st = EditorReady d"
  shows "\<exists>source n source' manager ids. dl_source st = Some source \<and> OpenAnswered n (Inr d) \<in> set as \<and>
    SourceSeen manager (Some source') ids \<in> set as \<and> es_key source' = es_key source \<and> source' = or_source (dl_requests st ! n) \<and>
    current_error st = None \<and> \<not> loading_source"
proof -
  have shown: "loader_document loading_source engine_error active st = Some d"
    using assms(2) by (auto simp: editor_state_def split: option.splits if_splits)
  then have doc: "\<not> loading_source" "\<not> document_failed active st" "is_requested_document active st" "map_option ad_id active = Some d"
    by (auto simp: loader_document_def split: if_splits)
  then obtain k where k: "dl_requested st = Some (k, d)" "map_option es_key (dl_source st) = Some k"
    by (cases "dl_requested st"; cases "dl_source st") (auto simp: is_requested_document_def)
  then obtain source where source: "dl_source st = Some source" "es_key source = k" by auto
  obtain n where n: "n < length (dl_requests st)" "es_key (or_source (dl_requests st ! n)) = k" "OpenAnswered n (Inr d) \<in> set as"
    using loader_log [OF assms(1)] k(1) by (auto simp: loader_log_ok_def)
  then obtain manager ids where "SourceSeen manager (Some (or_source (dl_requests st ! n))) ids \<in> set as"
    using loader_log [OF assms(1)] nth_mem [OF n(1)] unfolding loader_log_ok_def by blast
  then show ?thesis using source n doc by (auto simp: document_failed_def)
qed

theorem ready_document_is_of_source_witness:
  "\<exists>st. exec loader_step loader_start [SourceSeen True (Some (source_number 1)) [], OpenAnswered 0 (Inr 5), TaskSettled (0, 5) (Loaded 3)] = Some st \<and>
    dl_source st = Some (source_number 1) \<and>
    editor_state False None (Some \<lparr>ad_id = 5, ad_status = DocumentLoaded, ad_error = None\<rparr>) st = EditorReady 5 \<and> current_error st = None"
proof -
  let ?as = "[SourceSeen True (Some (source_number 1)) [], OpenAnswered 0 (Inr 5), TaskSettled (0, 5) (Loaded 3)]"
  let ?a = "Some \<lparr>ad_id = 5, ad_status = DocumentLoaded, ad_error = None\<rparr>"
  obtain st where st: "exec loader_step loader_start ?as = Some st" "editor_state False None ?a st = EditorReady 5"
      "dl_source st = Some (source_number 1)"
    by (simp add: loader_start_def open_effect_def open_answered_def task_settled_def still_wanted_def source_number_def editor_state_def
        loader_document_def document_failed_def is_requested_document_def current_error_def falsy_def)
  from ready_document_is_of_source [OF st(1,2)] st show ?thesis by auto
qed

text \<open>
  A document opened with a password is never reported as loaded, and the documents before it stay open: the loading that is
  watched ends where the password is asked for.
\<close>

lemma password_document_unreported:
  "\<exists>st. exec loader_step loader_start
      [SourceSeen True (Some (source_number 1)) [], OpenAnswered 0 (Inr 5), TaskSettled (0, 5) (Loaded 3),
       SourceSeen True (Some (source_number 2)) [5], OpenAnswered 1 (Inr 6), TaskSettled (1, 6) PasswordNeeded] = Some st \<and>
    dl_loaded st = [(3, 5, ''a.pdf'')] \<and> CloseDocument 5 \<notin> set (dl_calls st) \<and> dl_opening st = [] \<and> dl_tasks st = [] \<and>
    editor_state False None (Some \<lparr>ad_id = 6, ad_status = DocumentLoaded, ad_error = None\<rparr>) st = EditorReady 6"
  by (simp add: loader_start_def open_effect_def open_answered_def task_settled_def still_wanted_def source_number_def editor_state_def
      loader_document_def document_failed_def is_requested_document_def current_error_def falsy_def)

text \<open>
  The password of a document that is no longer wanted is asked for all the same: the request makes it active although another source
  was opened since.
\<close>

lemma unwanted_password_activates:
  "\<exists>st. exec loader_step loader_start
      [SourceSeen True (Some (source_number 1)) [], OpenAnswered 0 (Inr 5), SourceSeen True (Some (source_number 2)) [5],
       OpenAnswered 1 (Inr 6), TaskSettled (1, 6) (Loaded 4), TaskSettled (0, 5) PasswordNeeded] = Some st \<and>
    last_active (dl_calls st) = Some (5, []) \<and>
    editor_state False None (Some \<lparr>ad_id = 5, ad_status = DocumentError True, ad_error = None\<rparr>) st = EditorLoading"
  by (simp add: loader_start_def open_effect_def open_answered_def task_settled_def still_wanted_def source_number_def editor_state_def
      loader_document_def document_failed_def is_requested_document_def current_error_def falsy_def password_required_def)

text \<open>A document that the manager gives after its source was replaced is neither shown nor closed.\<close>

lemma superseded_document_left_open:
  "\<exists>st. exec loader_step loader_start
      [SourceSeen True (Some (source_number 1)) [], SourceSeen True (Some (source_number 2)) [], OpenAnswered 0 (Inr 5),
       OpenAnswered 1 (Inr 6), TaskSettled (1, 6) (Loaded 4)] = Some st \<and>
    last_active (dl_calls st) = Some (6, []) \<and> closed_in (dl_calls st) = []"
  by (simp add: loader_start_def open_effect_def open_answered_def task_settled_def still_wanted_def source_number_def closed_in_def)

end
