(* ===== verification/PdfActions.thy ===== *)
theory PdfActions
  imports PagesPanel PdfSearch
begin

text \<open>
  The editor of a loaded PDF (PdfEditorInner, PdfEditorSearchControl of web/src/components/extend/pdf-editor.tsx, the
  table of its shortcuts in pdf-editor-dialogs.tsx): tools, modes and side panels, keys, saving and flattening, the reports of
  changed annotations, and the search popover of the toolbar.

  What the editor does to the engine is the list of its calls; the engine's own state - the active tool, what is selected,
  the annotations of a page - is what it was when the editor was last drawn. A part of the engine that is not there takes no call.
\<close>

section \<open>Tools\<close>

datatype editor_mode = ViewMode | AnnotateMode | SignMode | FormsMode | RedactMode

datatype right_panel = PropertiesPanel | CommentsPanel | RedactionsPanel | StampsPanel | SignaturesPanel | FormsPanel

datatype left_panel = ThumbnailsPanel | OutlinePanel | AttachmentsPanel | OrganizePanel

datatype editor_dialog = PrintDialog | SecurityDialog | PropertiesDialog | ShortcutsDialog | SignatureDialog | ConfirmDialog string

datatype editor_call =
    SetTool "string option" | EndRedact | DisablePan | TogglePan | DisableCapture | DisableZoomArea
  | DeselectAnnotation | ClearTextSelection | DeleteAnnotations "(nat \<times> nat) list" | SelectAnnotations "nat list"
  | Undo | Redo | ZoomInCall | ZoomOutCall | FitPage | StartDownload | LockForms bool | BlurField

record tool_state =
  tl_annotation :: bool
  tl_redaction :: bool
  tl_pan :: bool
  tl_capture :: bool
  tl_zoom :: bool
  tl_history :: bool
  tl_tool :: "string option"
  tl_redacting :: bool
  tl_panning :: bool
  tl_capturing :: bool
  tl_zooming :: bool

definition call_if :: "bool \<Rightarrow> editor_call \<Rightarrow> editor_call list" where
  "call_if b c = (if b then [c] else [])"

definition end_areas :: "tool_state \<Rightarrow> editor_call list" where
  "end_areas t =
     call_if (tl_panning t \<and> tl_pan t) DisablePan @ call_if (tl_capturing t \<and> tl_capture t) DisableCapture @
     call_if (tl_zooming t \<and> tl_zoom t) DisableZoomArea"

definition deactivate_tools :: "tool_state \<Rightarrow> editor_call list" where
  "deactivate_tools t =
     call_if (tl_annotation t) (SetTool None) @ call_if (tl_redacting t \<and> tl_redaction t) EndRedact @ end_areas t"

definition editor_set_active_tool :: "string option \<Rightarrow> tool_state \<Rightarrow> editor_call list" where
  "editor_set_active_tool tool t =
     (if \<not> tl_annotation t then []
      else end_areas t @ call_if (tl_redacting t \<and> tl_redaction t) EndRedact @
           [SetTool (if tool \<noteq> None \<and> tl_tool t = tool then None else tool)])"

definition select_tool_active :: "tool_state \<Rightarrow> bool" where
  "select_tool_active t \<longleftrightarrow> falsy (tl_tool t) \<and> \<not> tl_panning t \<and> \<not> tl_capturing t \<and> \<not> tl_zooming t \<and> \<not> tl_redacting t"

section \<open>Modes and panels\<close>

record pdf_editor =
  ed_mode :: editor_mode
  ed_right :: "right_panel option"
  ed_left :: "left_panel option"
  ed_design :: bool
  ed_dialog :: "editor_dialog option"
  ed_search :: bool
  ed_calls :: "editor_call list"
  ed_modes :: "editor_mode list"

definition default_panel :: "editor_mode \<Rightarrow> right_panel option" where
  "default_panel m =
     (case m of ViewMode \<Rightarrow> None | AnnotateMode \<Rightarrow> Some PropertiesPanel | SignMode \<Rightarrow> Some SignaturesPanel | FormsMode \<Rightarrow> Some FormsPanel
      | RedactMode \<Rightarrow> Some RedactionsPanel)"

definition lock_call :: "bool \<Rightarrow> editor_mode \<Rightarrow> bool \<Rightarrow> editor_call list" where
  "lock_call annotation m design = call_if annotation (LockForms (\<not> (m = FormsMode \<and> design)))"

text \<open>
  After a rendering whose mode or design switch changed: a changed mode ends the tools and the selection; the form fields are
  locked unless they are being designed; and outside the mode for forms the design switch is turned off, which locks once more.
\<close>

definition mode_effects :: "tool_state \<Rightarrow> pdf_editor \<Rightarrow> pdf_editor \<Rightarrow> pdf_editor" where
  "mode_effects t old st =
     (let ended = (if ed_mode st \<noteq> ed_mode old then deactivate_tools t @ call_if (tl_annotation t) DeselectAnnotation else []);
          locked = (if ed_mode st \<noteq> ed_mode old \<or> ed_design st \<noteq> ed_design old then lock_call (tl_annotation t) (ed_mode st) (ed_design st) else []);
          reset = (ed_mode st \<noteq> FormsMode \<and> ed_design st)
      in st\<lparr>ed_calls := ed_calls st @ ended @ locked @ (if reset then lock_call (tl_annotation t) (ed_mode st) False else []),
            ed_design := (ed_design st \<and> \<not> reset)\<rparr>)"

definition set_mode :: "tool_state \<Rightarrow> editor_mode \<Rightarrow> pdf_editor \<Rightarrow> pdf_editor" where
  "set_mode t nextMode st =
     mode_effects t st
       (st\<lparr>ed_mode := nextMode, ed_right := default_panel nextMode,
           ed_modes := ed_modes st @ (if nextMode = ed_mode st then [] else [nextMode])\<rparr>)"

definition editor_opens :: "tool_state \<Rightarrow> editor_mode \<Rightarrow> pdf_editor" where
  "editor_opens t m =
     \<lparr>ed_mode = m, ed_right = None, ed_left = None, ed_design = False, ed_dialog = None, ed_search = False,
      ed_calls = deactivate_tools t @ call_if (tl_annotation t) DeselectAnnotation @ lock_call (tl_annotation t) m False, ed_modes = []\<rparr>"

definition toggle_panel :: "'p \<Rightarrow> 'p option \<Rightarrow> 'p option" where
  "toggle_panel panel previous = (if previous = Some panel then None else Some panel)"

datatype editor_action =
    ModePicked tool_state editor_mode
  | RightToggled right_panel
  | LeftToggled left_panel
  | DesignSwitched tool_state bool
  | DialogOpened editor_dialog
  | DialogDismissed

fun editor_step :: "pdf_editor \<Rightarrow> editor_action \<Rightarrow> pdf_editor option" where
  "editor_step st (ModePicked t m) = Some (set_mode t m st)"
| "editor_step st (RightToggled p) = Some (st\<lparr>ed_right := toggle_panel p (ed_right st)\<rparr>)"
| "editor_step st (LeftToggled p) = Some (st\<lparr>ed_left := toggle_panel p (ed_left st)\<rparr>)"
| "editor_step st (DesignSwitched t b) = Some (mode_effects t st (st\<lparr>ed_design := b\<rparr>))"
| "editor_step st (DialogOpened d) = Some (st\<lparr>ed_dialog := Some d\<rparr>)"
| "editor_step st DialogDismissed = Some (st\<lparr>ed_dialog := None\<rparr>)"

section \<open>Keys\<close>

record key_event =
  ke_key :: string
  ke_mod :: bool
  ke_shift :: bool
  ke_alt :: bool
  ke_typing :: bool

text \<open>What the keys look at: the engine, what is selected and whether it is locked, the annotations of the page in view.\<close>

record key_context =
  kc_disabled :: bool
  kc_tools :: tool_state
  kc_selected :: "(nat \<times> nat \<times> bool) list"
  kc_text :: bool
  kc_page_ids :: "nat list"
  kc_print :: bool
  kc_download :: bool

definition delete_selected_annotations :: "key_context \<Rightarrow> editor_call list" where
  "delete_selected_annotations c =
     (if \<not> tl_annotation (kc_tools c) \<or> kc_selected c = [] then []
      else let deletable = filter (\<lambda>(page, i, locked). \<not> locked) (kc_selected c)
           in if deletable = [] then [] else [DeleteAnnotations (map (\<lambda>(page, i, locked). (page, i)) deletable)])"

text \<open>The calls, the editor after the key, and whether the key is taken from the browser.\<close>

definition editor_key_down :: "key_context \<Rightarrow> key_event \<Rightarrow> pdf_editor \<Rightarrow> editor_call list \<times> pdf_editor \<times> bool" where
  "editor_key_down c e st =
     (let key = ke_key e; lower = to_lower key; t = kc_tools c; m = ke_mod e
      in if kc_disabled c then ([], st, False)
         else if ke_typing e then (call_if (key = ''Escape'') BlurField, st, False)
         else if key = ''Escape'' then
           (deactivate_tools t @ call_if (tl_annotation t) DeselectAnnotation @ call_if (kc_text c) ClearTextSelection,
            st\<lparr>ed_search := False\<rparr>, True)
         else if (key = ''Delete'' \<or> key = ''Backspace'') \<and> kc_selected c \<noteq> [] then (delete_selected_annotations c, st, True)
         else if m \<and> lower = ''z'' then (call_if (tl_history t) (if ke_shift e then Redo else Undo), st, True)
         else if m \<and> lower = ''y'' then (call_if (tl_history t) Redo, st, True)
         else if m \<and> (key = ''='' \<or> key = ''+'') then (call_if (tl_zoom t) ZoomInCall, st, True)
         else if m \<and> key = ''-'' then (call_if (tl_zoom t) ZoomOutCall, st, True)
         else if m \<and> key = ''0'' then (call_if (tl_zoom t) FitPage, st, True)
         else if m \<and> lower = ''p'' \<and> kc_print c then ([], st\<lparr>ed_dialog := Some PrintDialog\<rparr>, True)
         else if m \<and> lower = ''s'' \<and> kc_download c then ([StartDownload], st, True)
         else if m \<and> lower = ''f'' then ([], st\<lparr>ed_search := True\<rparr>, True)
         else if m \<and> lower = ''a'' \<and> tl_annotation t \<and> ed_mode st \<noteq> ViewMode then
           (if kc_page_ids c \<noteq> [] then ([SelectAnnotations (kc_page_ids c)], st, True) else ([], st, False))
         else if \<not> m \<and> \<not> ke_alt e \<and> lower = ''h'' then (call_if (tl_pan t) TogglePan, st, True)
         else if \<not> m \<and> \<not> ke_alt e \<and> lower = ''v'' then (deactivate_tools t, st, True)
         else ([], st, False))"

text \<open>The table of shortcuts, and the key event that a shortcut of it names.\<close>

definition pdf_editor_shortcuts :: "(string \<times> (string \<times> string) list) list" where
  "pdf_editor_shortcuts =
     [(''Document'', [(''mod+S'', ''Download''), (''mod+P'', ''Print''), (''mod+F'', ''Search''), (''mod+Z'', ''Undo''), (''mod+shift+Z'', ''Redo'')]),
      (''View'', [(''mod+='', ''Zoom in''), (''mod+-'', ''Zoom out''), (''mod+0'', ''Fit page''), (''H'', ''Hand tool''), (''V'', ''Select tool'')]),
      (''Editing'', [(''Esc'', ''Cancel tool / clear selection''), (''Delete'', ''Delete selected annotations''),
                     (''mod+A'', ''Select all annotations on the page'')])]"

definition shortcut_event :: "string \<Rightarrow> key_event" where
  "shortcut_event s =
     (let parts = split_char CHR ''+'' s; key = last parts
      in \<lparr>ke_key = (if key = ''Esc'' then ''Escape'' else if ''shift'' \<in> set parts \<or> length key > 1 then key else to_lower key),
         ke_mod = (''mod'' \<in> set parts), ke_shift = (''shift'' \<in> set parts), ke_alt = False, ke_typing = False\<rparr>)"

definition takes_focus :: "bool \<Rightarrow> bool \<Rightarrow> bool \<Rightarrow> bool \<Rightarrow> bool" where
  "takes_focus has_root focus_inside target_inside typing \<longleftrightarrow> has_root \<and> \<not> focus_inside \<and> target_inside \<and> \<not> typing"

section \<open>Saving and flattening\<close>

text \<open>Pending changes are committed, whether or not that succeeds, and the engine makes the copy that is the answer.\<close>

datatype copy_call = CommitPending | SaveCopy

definition get_document_buffer ::
  "bool \<Rightarrow> bool \<Rightarrow> js_error option \<Rightarrow> js_error + 8 word list \<Rightarrow> copy_call list \<times> (js_error + 8 word list)" where
  "get_document_buffer ready pending commit_failure copy =
     (if \<not> ready then ([], Inl (JsError ''The document is not ready.''))
      else if pending then
        (case commit_failure of
           Some e \<Rightarrow> ([CommitPending, SaveCopy], copy)
         | None \<Rightarrow> ([CommitPending, SaveCopy], copy))
      else ([SaveCopy], copy))"

definition download_document ::
  "string \<Rightarrow> js_error + 8 word list \<Rightarrow> (8 word list \<times> string) option \<times> notice option" where
  "download_document fileName buffer =
     (let targetName = get_pdf_file_name (Some fileName) None
      in case buffer of
           Inr bytes \<Rightarrow> (Some (bytes, targetName), None)
         | Inl e \<Rightarrow> (None, Some (NoticeError ''The document could not be saved.'')))"

text \<open>Flattening stops at the first page that fails; the pages before it are flattened by then.\<close>

fun flatten_pages :: "(nat \<Rightarrow> bool) \<Rightarrow> nat list \<Rightarrow> nat list \<times> bool" where
  "flatten_pages fails [] = ([], True)"
| "flatten_pages fails (p # ps) =
     (if fails p then ([], False) else (let (flat, ok) = flatten_pages fails ps in (p # flat, ok)))"

definition flatten_confirmed ::
  "bool \<Rightarrow> bool \<Rightarrow> js_error option \<Rightarrow> (nat \<Rightarrow> bool) \<Rightarrow> js_error + 8 word list \<Rightarrow> nat list \<Rightarrow>
   nat list \<times> 8 word list option \<times> notice option" where
  "flatten_confirmed ready pending commit_failure fails copy pages =
     (if \<not> ready then ([], None, None)
      else if pending \<and> commit_failure \<noteq> None then ([], None, Some (NoticeError ''The document could not be flattened.''))
      else case flatten_pages fails pages of
        (flat, False) \<Rightarrow> (flat, None, Some (NoticeError ''The document could not be flattened.''))
      | (flat, True) \<Rightarrow>
          (case copy of
             Inr bytes \<Rightarrow> (flat, Some bytes, Some (NoticeSuccess ''Annotations flattened into the page content.''))
           | Inl e \<Rightarrow> (flat, None, Some (NoticeError ''The document could not be flattened.''))))"

definition redaction_question :: "nat \<Rightarrow> string" where
  "redaction_question n = ''Apply '' @ show_nat n @ '' redaction'' @ (if n = 1 then [] else ''s'') @ ''?''"

definition apply_all_redactions :: "bool \<Rightarrow> nat \<Rightarrow> pdf_editor \<Rightarrow> pdf_editor" where
  "apply_all_redactions redaction pendingCount st =
     (if \<not> redaction \<or> pendingCount = 0 then st else st\<lparr>ed_dialog := Some (ConfirmDialog (redaction_question pendingCount))\<rparr>)"

section \<open>Reports of changed annotations\<close>

record change_reports =
  cr_listening :: bool
  cr_timer :: bool
  cr_exports :: "nat list"
  cr_started :: nat
  cr_delivered :: "nat list"

datatype report_action = AnnotationEvent bool bool | ListenerChanged bool | ReportTimer | ExportAnswered nat bool | ReportsEnd

fun report_step :: "change_reports \<Rightarrow> report_action \<Rightarrow> change_reports option" where
  "report_step st (AnnotationEvent is_loaded committed) =
     Some (if \<not> cr_listening st \<or> is_loaded \<or> \<not> committed then st else st\<lparr>cr_timer := True\<rparr>)"
| "report_step st (ListenerChanged b) = Some (st\<lparr>cr_listening := b\<rparr>)"
| "report_step st ReportTimer =
     (if cr_timer st
      then Some (st\<lparr>cr_timer := False, cr_exports := cr_exports st @ [cr_started st], cr_started := Suc (cr_started st)\<rparr>) else None)"
| "report_step st (ExportAnswered n success) =
     (if n \<in> set (cr_exports st)
      then Some (st\<lparr>cr_exports := remove1 n (cr_exports st),
                    cr_delivered := cr_delivered st @ (if success \<and> cr_listening st then [n] else [])\<rparr>) else None)"
| "report_step st ReportsEnd = Some (st\<lparr>cr_timer := False\<rparr>)"

definition reports_start :: change_reports where
  "reports_start = \<lparr>cr_listening = True, cr_timer = False, cr_exports = [], cr_started = 0, cr_delivered = []\<rparr>"

section \<open>The search popover of the editor\<close>

text \<open>It is the viewer's popover but for its label and for what blank text does: that empties the field as the button does.\<close>

definition editor_run_search :: "string \<Rightarrow> pdf_search \<Rightarrow> pdf_search" where
  "editor_run_search rawQuery st = run_pdf_search rawQuery st"

definition editor_clear_search :: "pdf_search \<Rightarrow> pdf_search" where
  "editor_clear_search st = clear_pdf_search st"

definition editor_change_draft :: "string \<Rightarrow> pdf_search \<Rightarrow> pdf_search" where
  "editor_change_draft nextDraft st =
     (if js_trim nextDraft \<noteq> [] then pdf_draft_effect (st\<lparr>ps_draft := nextDraft, ps_searching := True\<rparr>)
      else editor_clear_search (st\<lparr>ps_draft := nextDraft\<rparr>))"

definition editor_search_label :: "pdf_search \<Rightarrow> string" where
  "editor_search_label st =
     (if ps_searching st then ''Searching'' @ [CHR 0xE2, CHR 0x80, CHR 0xA6]
      else if ps_query st = [] then ''Type to search''
      else if ps_total st \<noteq> 0 then show_nat (ps_result st + 1) @ '' / '' @ show_nat (ps_total st)
      else ''No results'')"

fun editor_search_step :: "pdf_search \<Rightarrow> pdf_search_action \<Rightarrow> pdf_search option" where
  "editor_search_step st (ChangePdfDraft nextDraft) = (if nextDraft = ps_draft st then None else Some (editor_change_draft nextDraft st))"
| "editor_search_step st PdfSearchTimer =
     (case ps_timer st of None \<Rightarrow> None | Some draft \<Rightarrow> Some (editor_run_search draft (st\<lparr>ps_timer := None\<rparr>)))"
| "editor_search_step st (PdfSearchEnter shift page) =
     Some (if ps_total st \<noteq> 0 then navigate_results (\<not> shift) page st
           else if js_trim (ps_draft st) \<noteq> [] then editor_run_search (ps_draft st) st else st)"
| "editor_search_step st (PreviousButton page) =
     (if ps_searching st \<or> ps_total st = 0 then None else Some (navigate_results False page st))"
| "editor_search_step st (NextButton page) =
     (if ps_searching st \<or> ps_total st = 0 then None else Some (navigate_results True page st))"
| "editor_search_step st ClearPdfSearch = Some (editor_clear_search st)"
| "editor_search_step st (PdfSearchSettled n answer) = pdf_search_settled n answer st"
| "editor_search_step st (SearchProvided b) = Some (st\<lparr>ps_provided := b\<rparr>)"
| "editor_search_step st (EngineReport n i) = Some (st\<lparr>ps_total := n, ps_result := i\<rparr>)"

section \<open>Keys do what they say\<close>

text \<open>What a shortcut is listed as.\<close>

definition shortcut_does :: "string \<Rightarrow> key_context \<Rightarrow> pdf_editor \<Rightarrow> editor_call list \<times> pdf_editor" where
  "shortcut_does label c st =
     (if label = ''Download'' then ([StartDownload], st)
      else if label = ''Print'' then ([], st\<lparr>ed_dialog := Some PrintDialog\<rparr>)
      else if label = ''Search'' then ([], st\<lparr>ed_search := True\<rparr>)
      else if label = ''Undo'' then ([Undo], st) else if label = ''Redo'' then ([Redo], st)
      else if label = ''Zoom in'' then ([ZoomInCall], st) else if label = ''Zoom out'' then ([ZoomOutCall], st)
      else if label = ''Fit page'' then ([FitPage], st) else if label = ''Hand tool'' then ([TogglePan], st)
      else if label = ''Select tool'' then (deactivate_tools (kc_tools c), st)
      else if label = ''Delete selected annotations'' then (delete_selected_annotations c, st)
      else if label = ''Select all annotations on the page'' then ([SelectAnnotations (kc_page_ids c)], st)
      else (deactivate_tools (kc_tools c) @ [DeselectAnnotation, ClearTextSelection], st\<lparr>ed_search := False\<rparr>))"

text \<open>Everything is there: a document, the engine, printing and downloading, something selected and something to select.\<close>

definition all_available :: "key_context \<Rightarrow> bool" where
  "all_available c \<longleftrightarrow>
     \<not> kc_disabled c \<and> tl_annotation (kc_tools c) \<and> tl_pan (kc_tools c) \<and> tl_zoom (kc_tools c) \<and> tl_history (kc_tools c) \<and>
     kc_text c \<and> kc_print c \<and> kc_download c \<and> kc_selected c \<noteq> [] \<and> kc_page_ids c \<noteq> []"

definition event_of :: "string \<Rightarrow> bool \<Rightarrow> bool \<Rightarrow> key_event" where
  "event_of key m shift = \<lparr>ke_key = key, ke_mod = m, ke_shift = shift, ke_alt = False, ke_typing = False\<rparr>"

lemma shortcut_events:
  "shortcut_event ''mod+S'' = event_of ''s'' True False" "shortcut_event ''mod+P'' = event_of ''p'' True False"
  "shortcut_event ''mod+F'' = event_of ''f'' True False" "shortcut_event ''mod+Z'' = event_of ''z'' True False"
  "shortcut_event ''mod+shift+Z'' = event_of ''Z'' True True" "shortcut_event ''mod+='' = event_of ''='' True False"
  "shortcut_event ''mod+-'' = event_of ''-'' True False" "shortcut_event ''mod+0'' = event_of ''0'' True False"
  "shortcut_event ''H'' = event_of ''h'' False False" "shortcut_event ''V'' = event_of ''v'' False False"
  "shortcut_event ''Esc'' = event_of ''Escape'' False False" "shortcut_event ''Delete'' = event_of ''Delete'' False False"
  "shortcut_event ''mod+A'' = event_of ''a'' True False"
  by code_simp+

lemma char_z: "char_of (122 :: nat) = CHR ''z''" by code_simp

lemmas key_down_simps = char_z editor_key_down_def event_of_def call_if_def to_lower_def lower_char_def shortcut_does_def

definition shortcut_done :: "key_context \<Rightarrow> pdf_editor \<Rightarrow> string \<Rightarrow> string \<Rightarrow> bool" where
  "shortcut_done c st k label \<longleftrightarrow>
     editor_key_down c (shortcut_event k) st = (fst (shortcut_does label c st), snd (shortcut_does label c st), True)"

lemma shortcuts_done:
  assumes "all_available c" "ed_mode st \<noteq> ViewMode"
  shows "shortcut_done c st ''mod+S'' ''Download''"
    "shortcut_done c st ''mod+P'' ''Print''"
    "shortcut_done c st ''mod+F'' ''Search''"
    "shortcut_done c st ''mod+Z'' ''Undo''"
    "shortcut_done c st ''mod+shift+Z'' ''Redo''"
    "shortcut_done c st ''mod+='' ''Zoom in''"
    "shortcut_done c st ''mod+-'' ''Zoom out''"
    "shortcut_done c st ''mod+0'' ''Fit page''"
    "shortcut_done c st ''H'' ''Hand tool''"
    "shortcut_done c st ''V'' ''Select tool''"
    "shortcut_done c st ''Esc'' ''Cancel tool / clear selection''"
    "shortcut_done c st ''Delete'' ''Delete selected annotations''"
    "shortcut_done c st ''mod+A'' ''Select all annotations on the page''"
  using assms by (simp_all add: shortcut_done_def shortcut_events all_available_def key_down_simps Let_def)

text \<open>
  Every shortcut of the table does what the table says, when everything it may need is there; and it is taken from the browser.
\<close>
theorem listed_shortcuts_work:
  assumes "all_available c" "ed_mode st \<noteq> ViewMode"
  shows "\<forall>(group, items)\<in>set pdf_editor_shortcuts. \<forall>(k, label)\<in>set items.
    editor_key_down c (shortcut_event k) st = (fst (shortcut_does label c st), snd (shortcut_does label c st), True)"
  using shortcuts_done [OF assms] unfolding shortcut_done_def by (simp add: pdf_editor_shortcuts_def)

definition full_tools :: tool_state where
  "full_tools = \<lparr>tl_annotation = True, tl_redaction = True, tl_pan = True, tl_capture = True, tl_zoom = True, tl_history = True,
     tl_tool = None, tl_redacting = False, tl_panning = False, tl_capturing = False, tl_zooming = False\<rparr>"

definition full_context :: key_context where
  "full_context = \<lparr>kc_disabled = False, kc_tools = full_tools, kc_selected = [(0, 7, False), (0, 8, True)], kc_text = True,
     kc_page_ids = [7, 8, 9], kc_print = True, kc_download = True\<rparr>"

theorem listed_shortcuts_work_witness:
  "fst (editor_key_down full_context (shortcut_event ''mod+A'') (editor_opens full_tools AnnotateMode)) = [SelectAnnotations [7, 8, 9]]"
proof -
  have "all_available full_context" by (simp add: all_available_def full_context_def full_tools_def)
  moreover have "ed_mode (editor_opens full_tools AnnotateMode) \<noteq> ViewMode" by (simp add: editor_opens_def)
  ultimately have all: "\<forall>(group, items)\<in>set pdf_editor_shortcuts. \<forall>(k, label)\<in>set items.
      editor_key_down full_context (shortcut_event k) (editor_opens full_tools AnnotateMode) =
      (fst (shortcut_does label full_context (editor_opens full_tools AnnotateMode)),
       snd (shortcut_does label full_context (editor_opens full_tools AnnotateMode)), True)"
    by (rule listed_shortcuts_work)
  have "(''mod+A'', ''Select all annotations on the page'') \<in> set (snd (pdf_editor_shortcuts ! 2))" "pdf_editor_shortcuts ! 2 \<in> set pdf_editor_shortcuts"
    by (simp_all add: pdf_editor_shortcuts_def)
  with all have "editor_key_down full_context (shortcut_event ''mod+A'') (editor_opens full_tools AnnotateMode) =
      (fst (shortcut_does ''Select all annotations on the page'' full_context (editor_opens full_tools AnnotateMode)),
       snd (shortcut_does ''Select all annotations on the page'' full_context (editor_opens full_tools AnnotateMode)), True)"
    by fastforce
  then show ?thesis by (simp add: shortcut_does_def full_context_def)
qed

text \<open>In the mode for viewing, selecting all annotations, though listed, does nothing and leaves the key to the browser.\<close>

lemma view_mode_selects_nothing: "editor_key_down full_context (shortcut_event ''mod+A'') (editor_opens full_tools ViewMode) = ([], editor_opens full_tools ViewMode, False)"
  by (simp add: shortcut_events key_down_simps editor_opens_def full_context_def)

text \<open>
  A key in a field does nothing to the document; and a key deletes annotations only when it is one of the two for that, and then
  exactly the selected ones that are not locked.
\<close>
theorem keys_delete_selected:
  assumes "editor_key_down c e st = (calls', st', taken)"
  shows "(ke_typing e \<longrightarrow> st' = st \<and> \<not> taken \<and> set calls' \<subseteq> {BlurField}) \<and>
    (\<forall>ids. DeleteAnnotations ids \<in> set calls' \<longrightarrow>
       ke_key e \<in> {''Delete'', ''Backspace''} \<and> ids \<noteq> [] \<and> set ids = {(p, i). (p, i, False) \<in> set (kc_selected c)})"
proof -
  have "set (deactivate_tools t) \<subseteq> {SetTool None, EndRedact, DisablePan, DisableCapture, DisableZoomArea}" for t
    by (auto simp: deactivate_tools_def end_areas_def call_if_def)
  then have none: "DeleteAnnotations ids \<notin> set (deactivate_tools t)" for t ids by blast
  have del: "ids \<noteq> [] \<and> set ids = {(p, i). (p, i, False) \<in> set (kc_selected c)}"
    if "DeleteAnnotations ids \<in> set (delete_selected_annotations c)" for ids
    using that by (force simp: delete_selected_annotations_def Let_def split: if_splits)
  have typing: "st' = st \<and> \<not> taken \<and> set calls' \<subseteq> {BlurField}" if "ke_typing e"
    using assms that by (auto simp: editor_key_down_def call_if_def Let_def split: if_splits)
  show ?thesis
  proof (cases "(ke_key e = ''Delete'' \<or> ke_key e = ''Backspace'') \<and> kc_selected c \<noteq> [] \<and> \<not> kc_disabled c \<and> \<not> ke_typing e")
    case True
    then have "calls' = delete_selected_annotations c" using assms by (auto simp: editor_key_down_def Let_def)
    then show ?thesis using True typing del by auto
  next
    case False
    then have "DeleteAnnotations ids \<notin> set calls'" for ids
      using assms none by (auto simp: editor_key_down_def call_if_def Let_def split: if_splits)
    then show ?thesis using typing by blast
  qed
qed

theorem keys_delete_selected_witness:
  "editor_key_down full_context (event_of ''Delete'' False False) (editor_opens full_tools ViewMode) =
     ([DeleteAnnotations [(0, 7)]], editor_opens full_tools ViewMode, True) \<and> [(0, 7)] \<noteq> []"
proof -
  have r: "editor_key_down full_context (event_of ''Delete'' False False) (editor_opens full_tools ViewMode) =
     ([DeleteAnnotations [(0, 7)]], editor_opens full_tools ViewMode, True)"
    by (simp add: key_down_simps full_context_def full_tools_def delete_selected_annotations_def)
  from keys_delete_selected [OF r] r show ?thesis by simp
qed

section \<open>Form fields are locked unless they are designed\<close>

fun last_lock :: "editor_call list \<Rightarrow> bool option" where
  "last_lock [] = None"
| "last_lock (c # cs) = (case last_lock cs of Some b \<Rightarrow> Some b | None \<Rightarrow> (case c of LockForms b \<Rightarrow> Some b | _ \<Rightarrow> None))"

definition has_engine :: "editor_action \<Rightarrow> bool" where
  "has_engine a = (case a of ModePicked t m \<Rightarrow> tl_annotation t | DesignSwitched t b \<Rightarrow> tl_annotation t | _ \<Rightarrow> True)"

definition equipped_step :: "pdf_editor \<Rightarrow> editor_action \<Rightarrow> pdf_editor option" where
  "equipped_step st a = (if has_engine a then editor_step st a else None)"

definition editor_inv :: "editor_mode \<Rightarrow> pdf_editor \<Rightarrow> bool" where
  "editor_inv first st \<longleftrightarrow>
     (ed_design st \<longrightarrow> ed_mode st = FormsMode) \<and> last_lock (ed_calls st) = Some (\<not> (ed_mode st = FormsMode \<and> ed_design st)) \<and>
     ed_mode st = last (first # ed_modes st) \<and> successively (\<noteq>) (first # ed_modes st)"

lemma last_lock_append: "last_lock (as @ bs) = (case last_lock bs of Some b \<Rightarrow> Some b | None \<Rightarrow> last_lock as)"
  by (induction as) (auto split: option.splits)

lemma last_lock_tools: "last_lock (deactivate_tools t) = None" "last_lock (call_if b DeselectAnnotation) = None"
  by (simp_all add: deactivate_tools_def end_areas_def call_if_def)

lemma last_lock_call: "last_lock (lock_call a m design) = (if a then Some (\<not> (m = FormsMode \<and> design)) else None)"
  by (simp add: lock_call_def call_if_def)

lemmas lock_simps = last_lock_append last_lock_tools last_lock_call

lemma mode_effects_lock:
  assumes "tl_annotation t" "last_lock (ed_calls st) = Some (\<not> (ed_mode old = FormsMode \<and> ed_design old))"
  shows "last_lock (ed_calls (mode_effects t old st)) = Some (\<not> (ed_mode st = FormsMode \<and> ed_design (mode_effects t old st))) \<and>
    (ed_design (mode_effects t old st) \<longrightarrow> ed_mode st = FormsMode)"
  using assms by (auto simp: mode_effects_def Let_def lock_simps split: option.splits)

lemma mode_effects_frame: "ed_mode (mode_effects t old st) = ed_mode st" "ed_modes (mode_effects t old st) = ed_modes st"
  by (simp_all add: mode_effects_def Let_def)

lemma editor_inv_step:
  assumes "editor_inv first st" "equipped_step st a = Some st'"
  shows "editor_inv first st'"
proof (cases a)
  case (ModePicked t m)
  then have t: "tl_annotation t" "st' = set_mode t m st" using assms(2) by (auto simp: equipped_step_def has_engine_def split: if_splits)
  let ?st = "st\<lparr>ed_mode := m, ed_right := default_panel m, ed_modes := ed_modes st @ (if m = ed_mode st then [] else [m])\<rparr>"
  have inv: "last_lock (ed_calls st) = Some (\<not> (ed_mode st = FormsMode \<and> ed_design st))" "ed_mode st = last (first # ed_modes st)"
    "successively (\<noteq>) (first # ed_modes st)" using assms(1) by (simp_all add: editor_inv_def)
  have "successively (\<noteq>) ((first # ed_modes st) @ (if m = ed_mode st then [] else [m]))"
    using inv(2,3) by (simp add: successively_append_iff del: append_Cons)
  moreover have "m = last ((first # ed_modes st) @ (if m = ed_mode st then [] else [m]))" using inv(2) by simp
  moreover have "last_lock (ed_calls ?st) = Some (\<not> (ed_mode st = FormsMode \<and> ed_design st))" using inv(1) by simp
  ultimately show ?thesis unfolding t(2) set_mode_def using mode_effects_lock [OF t(1), of ?st st]
    unfolding editor_inv_def mode_effects_frame by simp
next
  case (DesignSwitched t b)
  then have t: "tl_annotation t" "st' = mode_effects t st (st\<lparr>ed_design := b\<rparr>)"
    using assms(2) by (auto simp: equipped_step_def has_engine_def split: if_splits)
  show ?thesis unfolding t(2) using assms(1) mode_effects_lock [OF t(1), of "st\<lparr>ed_design := b\<rparr>" st]
    by (auto simp: editor_inv_def mode_effects_frame)
qed (use assms in \<open>auto simp: editor_inv_def equipped_step_def has_engine_def\<close>)

lemma editor_inv_opens: "tl_annotation t \<Longrightarrow> editor_inv m (editor_opens t m)"
  by (simp add: editor_inv_def editor_opens_def lock_simps)

interpretation editing: machine equipped_step "editor_opens full_tools m" "editor_inv m"
  by unfold_locales (simp add: editor_inv_opens full_tools_def, rule editor_inv_step)

text \<open>
  Form fields can be moved and changed exactly while forms are designed, in the mode for forms: the last thing the engine was told
  of their lock says so after every run; and the modes reported are the changes of the mode, one after the other.
\<close>
theorem forms_locked_unless_designed:
  assumes "tl_annotation t" "exec equipped_step (editor_opens t m) as = Some st"
  shows "last_lock (ed_calls st) = Some (\<not> (ed_mode st = FormsMode \<and> ed_design st)) \<and> (ed_design st \<longrightarrow> ed_mode st = FormsMode) \<and>
    ed_mode st = last (m # ed_modes st) \<and> successively (\<noteq>) (m # ed_modes st)"
  using editing.inv_exec_from [OF editor_inv_opens [OF assms(1)] assms(2)] unfolding editor_inv_def by blast

theorem forms_locked_unless_designed_witness:
  "\<exists>st. exec equipped_step (editor_opens full_tools ViewMode)
      [ModePicked full_tools FormsMode, DesignSwitched full_tools True, ModePicked full_tools SignMode] = Some st \<and>
    last_lock (ed_calls st) = Some True \<and> ed_modes st = [FormsMode, SignMode]"
proof -
  have e: "tl_annotation full_tools" by (simp add: full_tools_def)
  obtain st where st: "exec equipped_step (editor_opens full_tools ViewMode)
      [ModePicked full_tools FormsMode, DesignSwitched full_tools True, ModePicked full_tools SignMode] = Some st"
      "ed_mode st = SignMode" "ed_modes st = [FormsMode, SignMode]"
    by (simp add: equipped_step_def has_engine_def full_tools_def set_mode_def mode_effects_def editor_opens_def Let_def)
  from forms_locked_unless_designed [OF e st(1)] st show ?thesis by auto
qed

section \<open>Saving\<close>

text \<open>
  A document is replaced by its flattened copy only when the pending changes were committed, every page was flattened and the copy was
  made; whenever flattening begins and the document is not replaced, the user is told that it failed.
\<close>
lemma flatten_pages_all: "flatten_pages fails ps = (flat, ok) \<Longrightarrow> flat = takeWhile (\<lambda>p. \<not> fails p) ps \<and> (ok \<longleftrightarrow> (\<forall>p\<in>set ps. \<not> fails p))"
  by (induction ps arbitrary: flat) (auto split: if_splits prod.splits)

theorem flattened_only_whole:
  "case flatten_confirmed True pending commit_failure fails copy pages of
     (flat, Some bytes, note) \<Rightarrow> flat = pages \<and> copy = Inr bytes \<and> (\<nexists>p. p \<in> set pages \<and> fails p) \<and> (\<exists>m. note = Some (NoticeSuccess m)) \<and>
       \<not> (pending \<and> commit_failure \<noteq> None)
   | (flat, None, note) \<Rightarrow> \<exists>m. note = Some (NoticeError m)"
proof (cases "pending \<and> commit_failure \<noteq> None")
  case False
  obtain flat ok where f: "flatten_pages fails pages = (flat, ok)" by fastforce
  note all = flatten_pages_all [OF f]
  show ?thesis
  proof (cases ok)
    case True
    then have "flat = pages" using all by (simp add: takeWhile_eq_all_conv)
    then show ?thesis using f False True all by (auto simp: flatten_confirmed_def split: sum.splits)
  qed (use f False in \<open>auto simp: flatten_confirmed_def\<close>)
qed (simp add: flatten_confirmed_def)

text \<open>A page that fails leaves those before it flattened in the document that is said not to be flattened.\<close>

lemma partially_flattened:
  "flatten_confirmed True False None (\<lambda>p. p = 2) (Inr []) [0, 1, 2, 3] = ([0, 1], None, Some (NoticeError ''The document could not be flattened.''))"
  by (simp add: flatten_confirmed_def)

text \<open>A download succeeds although the changes that were pending could not be committed: the user is not told that the file lacks them.\<close>

lemma uncommitted_changes_downloaded:
  "get_document_buffer True True (Some e) (Inr bytes) = ([CommitPending, SaveCopy], Inr bytes) \<and>
   snd (download_document name (Inr bytes)) = None"
  by (simp add: get_document_buffer_def download_document_def)

text \<open>Exports are delivered as they are answered: a slow one delivers the older annotations last.\<close>

lemma older_report_delivered_last:
  "\<exists>st. exec report_step reports_start
      [AnnotationEvent False True, ReportTimer, AnnotationEvent False True, ReportTimer, ExportAnswered 1 True, ExportAnswered 0 True] = Some st \<and>
    cr_delivered st = [1, 0]"
  by (simp add: reports_start_def)

section \<open>The search popover of the editor comes to rest\<close>

lemma editor_change_ok: "pdf_search_ok st \<Longrightarrow> pdf_search_ok (editor_change_draft nextDraft st)"
  by (auto simp: pdf_search_ok_def editor_change_draft_def editor_clear_search_def clear_pdf_search_def pdf_draft_effect_def stop_if_provided_def)

lemma editor_search_same:
  "(\<nexists>d. a = ChangePdfDraft d) \<Longrightarrow> editor_search_step st a = Some st' \<Longrightarrow>
   pdf_search_step st a = Some st' \<or> (\<exists>shift page. a = PdfSearchEnter shift page)"
  by (cases a) (auto simp: editor_run_search_def editor_clear_search_def split: option.splits)

lemma editor_search_ok_step: "pdf_search_ok st \<Longrightarrow> editor_search_step st a = Some st' \<Longrightarrow> pdf_search_ok st'"
proof (cases a)
  case (ChangePdfDraft d)
  then show "pdf_search_ok st \<Longrightarrow> editor_search_step st a = Some st' \<Longrightarrow> ?thesis" using editor_change_ok by (auto split: if_splits)
next
  case (PdfSearchEnter shift page)
  then show "pdf_search_ok st \<Longrightarrow> editor_search_step st a = Some st' \<Longrightarrow> ?thesis"
    using pdf_search_ok_run [of st "ps_timer st"] by (auto simp: editor_run_search_def split: if_splits)
qed (use editor_search_same pdf_search_ok_step in blast)+

lemma editor_search_awaited:
  "pdf_search_awaited a \<Longrightarrow> editor_search_step st a = pdf_search_step st a"
  by (cases a) (auto simp: pdf_search_awaited_def editor_run_search_def split: option.splits)

interpretation editor_search: resting_machine editor_search_step pdf_search_start pdf_search_ok pdf_search_awaited pdf_search_work
proof
  show "pdf_search_ok pdf_search_start" by (simp add: pdf_search_ok_def pdf_search_start_def)
  show "pdf_search_ok st'" if "pdf_search_ok st" "editor_search_step st a = Some st'" for st a st' using editor_search_ok_step that .
  show "pdf_search_work st' < pdf_search_work st" if "pdf_search_awaited a" "editor_search_step st a = Some st'" for st a st'
    using pdf_search_awaited_step that editor_search_awaited by simp
  show "\<exists>a st'. pdf_search_awaited a \<and> editor_search_step st a = Some st'" if "pdf_search_work st \<noteq> 0" for st
    using pdf_search_work_awaited [OF that] editor_search_awaited by metis
qed

text \<open>
  Left alone, the search of the editor comes to rest within the work that is left, with the query of its field and no search under way.
\<close>
theorem editor_search_comes_to_rest:
  assumes "exec editor_search_step pdf_search_start acts = Some st"
    and "list_all pdf_search_awaited waits" "exec editor_search_step st waits = Some st'"
  shows "length waits + pdf_search_work st' \<le> pdf_search_work st \<and>
    ((\<nexists>a st''. pdf_search_awaited a \<and> editor_search_step st' a = Some st'') \<longrightarrow>
       \<not> ps_searching st' \<and> ps_query st' = js_trim (ps_draft st'))"
proof -
  note r = editor_search.rests [OF assms]
  have "\<not> ps_searching st' \<and> ps_query st' = js_trim (ps_draft st')" if "pdf_search_ok st' \<and> pdf_search_work st' = 0"
    using that by (auto simp: pdf_search_ok_def pdf_search_work_def split: if_splits)
  with r show ?thesis by blast
qed

theorem editor_search_comes_to_rest_witness:
  "\<exists>st st'. exec editor_search_step pdf_search_start [SearchProvided True, ChangePdfDraft ''a''] = Some st \<and>
    exec editor_search_step st [PdfSearchTimer, PdfSearchSettled 1 (Inr None)] = Some st' \<and> 2 + pdf_search_work st' \<le> pdf_search_work st"
proof -
  have "\<exists>st st'. exec editor_search_step pdf_search_start [SearchProvided True, ChangePdfDraft ''a''] = Some st \<and>
      exec editor_search_step st [PdfSearchTimer, PdfSearchSettled 1 (Inr None)] = Some st'"
    by (simp add: pdf_search_start_def editor_change_draft_def pdf_draft_effect_def editor_run_search_def run_pdf_search_def pdf_search_settled_def
        js_trim_def is_ws_def calls_def Let_def)
  then obtain st st' where r: "exec editor_search_step pdf_search_start [SearchProvided True, ChangePdfDraft ''a''] = Some st"
      "exec editor_search_step st [PdfSearchTimer, PdfSearchSettled 1 (Inr None)] = Some st'" by blast
  from editor_search_comes_to_rest [OF r(1) _ r(2)] r show ?thesis by (auto simp: pdf_search_awaited_def)
qed

end
