(* ===== verification/PdfOutline.thy ===== *)
theory PdfOutline
  imports Numbers
begin

text \<open>
  The outline, the attachments and the thumbnails beside an edited PDF (PdfEditorOutlinePanel, PdfEditorAttachmentsPanel
  and PdfEditorThumbnailsPanel of web/src/components/extend/pdf-editor-panels.tsx).

  Bookmarks and attachments are read from the engine, which answers later; what it answers is an argument.
\<close>

section \<open>The outline\<close>

datatype destination_zoom = ZoomXYZ rat rat | ZoomOther

record bookmark_destination =
  bd_page :: nat
  bd_zoom :: destination_zoom

datatype bookmark_target =
    ToDestination bookmark_destination
  | GotoTarget bookmark_destination
  | RemoteGotoTarget bookmark_destination
  | UriTarget string
  | OtherTarget

datatype bookmark = Bookmark (bm_title: string) (bm_target: "bookmark_target option") (bm_children: "bookmark list")

definition resolve_bookmark_destination :: "bookmark \<Rightarrow> bookmark_destination option \<times> string option" where
  "resolve_bookmark_destination b =
     (case bm_target b of
        None \<Rightarrow> (None, None)
      | Some (ToDestination d) \<Rightarrow> (Some d, None)
      | Some (GotoTarget d) \<Rightarrow> (Some d, None)
      | Some (RemoteGotoTarget d) \<Rightarrow> (Some d, None)
      | Some (UriTarget uri) \<Rightarrow> (None, Some uri)
      | Some OtherTarget \<Rightarrow> (None, None))"

datatype outline_call = OpenWindow string | ScrollToPoint nat rat rat | ScrollToStart nat

text \<open>The heights of the pages are the document's; a page that is not there has no coordinates to scroll to.\<close>

definition outline_navigate :: "rat list \<Rightarrow> bool \<Rightarrow> bookmark \<Rightarrow> outline_call option" where
  "outline_navigate heights scroll b =
     (let (destination, uri) = resolve_bookmark_destination b
      in if \<not> falsy uri then Some (OpenWindow (the uri))
         else case destination of
           None \<Rightarrow> None
         | Some d \<Rightarrow>
             if \<not> scroll then None
             else case bd_zoom d of
               ZoomXYZ x y \<Rightarrow>
                 if bd_page d < length heights then Some (ScrollToPoint (bd_page d + 1) x (heights ! bd_page d - y))
                 else Some (ScrollToStart (bd_page d + 1))
             | ZoomOther \<Rightarrow> Some (ScrollToStart (bd_page d + 1)))"

record outline_row =
  ol_id :: string
  ol_level :: nat
  ol_text :: string
  ol_toggle :: "bool option"

text \<open>A bookmark is a row, and the rows of its children where it has some and is expanded.\<close>

fun render_bookmark :: "string set \<Rightarrow> bookmark \<Rightarrow> string \<Rightarrow> nat \<Rightarrow> outline_row list"
  and render_bookmarks :: "string set \<Rightarrow> bookmark list \<Rightarrow> string \<Rightarrow> nat \<Rightarrow> nat \<Rightarrow> outline_row list" where
  "render_bookmark expanded (Bookmark title target children) i level =
     \<lparr>ol_id = i, ol_level = level, ol_text = (if title = [] then ''Untitled'' else title),
      ol_toggle = (if children \<noteq> [] then Some (i \<in> expanded) else None)\<rparr> #
     (if children \<noteq> [] \<and> i \<in> expanded then render_bookmarks expanded children i 0 (level + 1) else [])"
| "render_bookmarks expanded [] i n level = []"
| "render_bookmarks expanded (b # bs) i n level =
     render_bookmark expanded b (i @ ''-'' @ show_nat n) level @ render_bookmarks expanded bs i (Suc n) level"

definition outline_rows :: "string set \<Rightarrow> bookmark list \<Rightarrow> outline_row list" where
  "outline_rows expanded bookmarks = render_bookmarks expanded bookmarks ''bookmark'' 0 0"

definition toggle_expanded :: "string \<Rightarrow> string set \<Rightarrow> string set" where
  "toggle_expanded i expanded = (if i \<in> expanded then expanded - {i} else insert i expanded)"

record outline =
  ot_bookmarks :: "bookmark list option"
  ot_expanded :: "string set"
  ot_reads :: nat
  ot_current :: "nat option"
  ot_waiting :: "nat list"

definition outline_start :: outline where
  "outline_start = \<lparr>ot_bookmarks = None, ot_expanded = {}, ot_reads = 0, ot_current = None, ot_waiting = []\<rparr>"

text \<open>A changed document cancels the reading and, when there is one, begins another; the reads are numbered.\<close>

datatype outline_action = OutlineDocument bool | BookmarksRead nat "bookmark list option" | OutlineToggled string

fun outline_step :: "outline \<Rightarrow> outline_action \<Rightarrow> outline option" where
  "outline_step st (OutlineDocument present) =
     Some (if present then st\<lparr>ot_reads := Suc (ot_reads st), ot_current := Some (ot_reads st), ot_waiting := ot_reads st # ot_waiting st\<rparr>
           else st\<lparr>ot_current := None\<rparr>)"
| "outline_step st (BookmarksRead n result) =
     (if n \<notin> set (ot_waiting st) then None
      else let st' = st\<lparr>ot_waiting := remove1 n (ot_waiting st)\<rparr>
           in Some (if ot_current st \<noteq> Some n then st'
              else case result of
                Some bs \<Rightarrow> st'\<lparr>ot_bookmarks := Some bs, ot_expanded := (\<lambda>i. ''bookmark-'' @ show_nat i) ` {0..<length bs}\<rparr>
              | None \<Rightarrow> st'\<lparr>ot_bookmarks := Some []\<rparr>))"
| "outline_step st (OutlineToggled i) =
     (case ot_bookmarks st of
        Some bs \<Rightarrow> if \<exists>r\<in>set (outline_rows (ot_expanded st) bs). ol_id r = i \<and> ol_toggle r \<noteq> None
          then Some (st\<lparr>ot_expanded := toggle_expanded i (ot_expanded st)\<rparr>) else None
      | None \<Rightarrow> None)"

section \<open>The rows of an outline\<close>

text \<open>A place in the outline is the list of the indices that lead to it.\<close>

fun path_id :: "string \<Rightarrow> nat list \<Rightarrow> string" where
  "path_id i [] = i"
| "path_id i (n # p) = path_id (i @ ''-'' @ show_nat n) p"

fun bookmark_at :: "bookmark list \<Rightarrow> nat list \<Rightarrow> bookmark option" where
  "bookmark_at bs [] = None"
| "bookmark_at bs [n] = (if n < length bs then Some (bs ! n) else None)"
| "bookmark_at bs (n # p) = (if n < length bs then bookmark_at (bm_children (bs ! n)) p else None)"

text \<open>All the bookmarks that a place hangs on are expanded.\<close>

definition reached :: "string set \<Rightarrow> string \<Rightarrow> nat list \<Rightarrow> bool" where
  "reached expanded i p \<longleftrightarrow> (\<forall>k. 0 < k \<and> k < length p \<longrightarrow> path_id i (take k p) \<in> expanded)"

lemma path_id_append: "path_id i p = i @ path_id [] p"
proof (induction p arbitrary: i)
  case (Cons n p)
  have "path_id i (n # p) = path_id (i @ ''-'' @ show_nat n) p" by simp
  also have "\<dots> = (i @ ''-'' @ show_nat n) @ path_id [] p" by (rule Cons.IH)
  also have "\<dots> = i @ path_id (''-'' @ show_nat n) p" using Cons.IH [of "''-'' @ show_nat n"] by simp
  finally show ?case by simp
qed simp

lemma path_id_Cons: "path_id [] (n # p) = CHR ''-'' # show_nat n @ path_id [] p"
  using path_id_append [of "''-'' @ show_nat n" p] by simp

lemma path_id_head: "p \<noteq> [] \<Longrightarrow> \<exists>s. path_id [] p = CHR ''-'' # s"
  by (cases p) (auto simp del: path_id.simps simp: path_id_Cons)

lemma digit_dash: "list_all is_digit s \<Longrightarrow> CHR ''-'' \<notin> set s"
proof -
  have "\<not> is_digit CHR ''-''" by (simp add: is_digit_def)
  then show "list_all is_digit s \<Longrightarrow> CHR ''-'' \<notin> set s" by (metis list_all_iff)
qed

lemma path_id_inj: "path_id [] p = path_id [] q \<Longrightarrow> p = q"
proof (induction p arbitrary: q)
  case Nil
  then show ?case by (cases q) (auto simp del: path_id.simps simp: path_id_Cons, simp)
next
  case (Cons n p)
  then obtain m q' where q: "q = m # q'" by (cases q) (auto simp del: path_id.simps(2) simp: path_id_Cons)
  have eq: "show_nat n @ path_id [] p = show_nat m @ path_id [] q'"
    using Cons.prems unfolding q path_id_Cons by simp
  have cut: "takeWhile (\<lambda>c. c \<noteq> CHR ''-'') (show_nat k @ path_id [] r) = show_nat k" for k r
  proof -
    have "\<forall>c\<in>set (show_nat k). c \<noteq> CHR ''-''" using digit_dash [of "show_nat k"] show_nat_parses [of k] by blast
    then have "takeWhile (\<lambda>c. c \<noteq> CHR ''-'') (show_nat k @ path_id [] r) = show_nat k @ takeWhile (\<lambda>c. c \<noteq> CHR ''-'') (path_id [] r)"
      by (simp add: takeWhile_append2)
    moreover have "takeWhile (\<lambda>c. c \<noteq> CHR ''-'') (path_id [] r) = []" using path_id_head [of r] by (cases r) auto
    ultimately show ?thesis by simp
  qed
  have "show_nat n = show_nat m" using eq cut [of n p] cut [of m q'] by simp
  then have "n = m" "path_id [] p = path_id [] q'" using eq show_nat_inj by auto
  then show ?case using Cons.IH q by simp
qed

lemma path_id_eq: "path_id i p = path_id i q \<longleftrightarrow> p = q"
  using path_id_inj [of p q] by (auto simp: path_id_append [of i])

lemma reached_one: "reached expanded i [n]" by (simp add: reached_def)

lemma reached_Cons:
  "p \<noteq> [] \<Longrightarrow> reached expanded i (n # p) \<longleftrightarrow> i @ ''-'' @ show_nat n \<in> expanded \<and> reached expanded (i @ ''-'' @ show_nat n) p"
proof -
  assume "p \<noteq> []"
  then have p: "0 < length p" by simp
  have split_first: "(\<forall>k. k < m \<longrightarrow> X k) \<longleftrightarrow> X 0 \<and> (\<forall>k. 0 < k \<and> k < m \<longrightarrow> X k)" if "0 < m" for m and X :: "nat \<Rightarrow> bool"
    using that by (metis neq0_conv)
  have "reached expanded i (n # p) \<longleftrightarrow> (\<forall>k. k < length p \<longrightarrow> path_id (i @ ''-'' @ show_nat n) (take k p) \<in> expanded)"
    unfolding reached_def
  proof (intro iffI allI impI)
    fix k assume all: "\<forall>k. 0 < k \<and> k < length (n # p) \<longrightarrow> path_id i (take k (n # p)) \<in> expanded" and k: "k < length p"
    from all [rule_format, of "Suc k"] k show "path_id (i @ ''-'' @ show_nat n) (take k p) \<in> expanded" by simp
  next
    fix k assume all: "\<forall>k. k < length p \<longrightarrow> path_id (i @ ''-'' @ show_nat n) (take k p) \<in> expanded" and k: "0 < k \<and> k < length (n # p)"
    then obtain j where "k = Suc j" by (cases k) auto
    with all k show "path_id i (take k (n # p)) \<in> expanded" by simp
  qed
  also have "\<dots> \<longleftrightarrow> path_id (i @ ''-'' @ show_nat n) (take 0 p) \<in> expanded \<and> reached expanded (i @ ''-'' @ show_nat n) p"
    unfolding reached_def by (rule split_first [OF p])
  finally show ?thesis by simp
qed

definition places :: "string set \<Rightarrow> bookmark list \<Rightarrow> string \<Rightarrow> nat list set" where
  "places expanded bs i = {p. bookmark_at bs p \<noteq> None \<and> reached expanded i p}"

definition below :: "string set \<Rightarrow> bookmark \<Rightarrow> string \<Rightarrow> nat list set" where
  "below expanded b i = insert [] (if i \<in> expanded then places expanded (bm_children b) i else {})"

lemma place_Cons:
  "(n # p) \<in> places expanded bs i \<longleftrightarrow> n < length bs \<and> p \<in> below expanded (bs ! n) (i @ ''-'' @ show_nat n)"
  by (cases p) (auto simp: places_def below_def reached_one reached_Cons split: if_splits)

lemma place_not_Nil: "p \<in> places expanded bs i \<Longrightarrow> p \<noteq> []"
  by (auto simp: places_def)

lemma rows_ids:
  "ol_id ` set (render_bookmark expanded b i level) = path_id i ` below expanded b i"
  "ol_id ` set (render_bookmarks expanded bs i n level) =
     {path_id i ((n + j) # p) |j p. j < length bs \<and> p \<in> below expanded (bs ! j) (i @ ''-'' @ show_nat (n + j))}"
proof (induction expanded b i level and expanded bs i n level rule: render_bookmark_render_bookmarks.induct)
  case (1 expanded title target children i level)
  show ?case
  proof (cases "children \<noteq> [] \<and> i \<in> expanded")
    case True
    have "ol_id ` set (render_bookmarks expanded children i 0 (level + 1)) = path_id i ` places expanded children i"
    proof -
      have "path_id i ` places expanded children i = {path_id i (j # p) |j p. (j # p) \<in> places expanded children i}"
      proof (intro set_eqI iffI)
        fix x assume "x \<in> path_id i ` places expanded children i"
        then obtain q where q: "x = path_id i q" "q \<in> places expanded children i" by blast
        then obtain j p where "q = j # p" using place_not_Nil by (cases q) auto
        then show "x \<in> {path_id i (j # p) |j p. (j # p) \<in> places expanded children i}" using q by blast
      qed blast
      then show ?thesis using 1 [OF True] by (simp add: place_Cons)
    qed
    then show ?thesis using True by (simp add: below_def)
  next
    case False
    have "places expanded [] i = {}" using place_not_Nil by (fastforce simp: places_def elim: bookmark_at.elims)
    then show ?thesis using False by (auto simp: below_def)
  qed
next
  case (2 expanded i n level)
  then show ?case by simp
next
  case (3 expanded b bs i n level)
  have "{path_id i ((n + j) # p) |j p. j < length (b # bs) \<and> p \<in> below expanded ((b # bs) ! j) (i @ ''-'' @ show_nat (n + j))} =
      {path_id i (n # p) |p. p \<in> below expanded b (i @ ''-'' @ show_nat n)} \<union>
      {path_id i ((Suc n + j) # p) |j p. j < length bs \<and> p \<in> below expanded (bs ! j) (i @ ''-'' @ show_nat (Suc n + j))}"
    (is "?all = ?first \<union> ?rest")
  proof (intro set_eqI iffI)
    fix x assume "x \<in> ?all"
    then obtain j p where x: "x = path_id i ((n + j) # p)" "j < length (b # bs)" "p \<in> below expanded ((b # bs) ! j) (i @ ''-'' @ show_nat (n + j))"
      by blast
    then show "x \<in> ?first \<union> ?rest" by (cases j) auto
  next
    fix x assume "x \<in> ?first \<union> ?rest"
    then show "x \<in> ?all"
    proof
      assume "x \<in> ?first"
      then show ?thesis by (auto intro!: exI [of _ 0])
    next
      assume "x \<in> ?rest"
      then obtain j p where "x = path_id i ((Suc n + j) # p)" "j < length bs" "p \<in> below expanded (bs ! j) (i @ ''-'' @ show_nat (Suc n + j))"
        by blast
      then show ?thesis by (auto intro!: exI [of _ "Suc j"])
    qed
  qed
  moreover have "?first = path_id (i @ ''-'' @ show_nat n) ` below expanded b (i @ ''-'' @ show_nat n)"
    by auto
  ultimately show ?case using 3 by (simp add: image_Un)
qed

lemma rows_distinct:
  "distinct (map ol_id (render_bookmark expanded b i level))"
  "distinct (map ol_id (render_bookmarks expanded bs i n level))"
proof (induction expanded b i level and expanded bs i n level rule: render_bookmark_render_bookmarks.induct)
  case (1 expanded title target children i level)
  have "i \<notin> ol_id ` set (render_bookmarks expanded children i 0 (level + 1))"
    using path_id_eq [of i "[]"] unfolding rows_ids by (auto simp del: path_id.simps(2))
  then show ?case using 1 by auto
next
  case (3 expanded b bs i n level)
  have "ol_id ` set (render_bookmark expanded b (i @ ''-'' @ show_nat n) level) \<inter> ol_id ` set (render_bookmarks expanded bs i (Suc n) level) = {}"
    unfolding rows_ids
  proof (intro equals0I)
    fix x assume "x \<in> path_id (i @ ''-'' @ show_nat n) ` below expanded b (i @ ''-'' @ show_nat n) \<inter>
      {path_id i ((Suc n + j) # p) |j p. j < length bs \<and> p \<in> below expanded (bs ! j) (i @ ''-'' @ show_nat (Suc n + j))}"
    then obtain p j q where "x = path_id (i @ ''-'' @ show_nat n) p" and x: "x = path_id i ((Suc n + j) # q)" by blast
    then have "x = path_id i (n # p)" by simp
    with x have "n # p = (Suc n + j) # q" using path_id_eq by metis
    then show False by simp
  qed
  then show ?case using 3 by simp
qed simp

text \<open>
  The rows have ids of their own; a bookmark has a row exactly when every bookmark above it is expanded, under the id that its
  place makes.
\<close>
theorem outline_rows_exact:
  "distinct (map ol_id (outline_rows expanded bookmarks)) \<and>
   ol_id ` set (outline_rows expanded bookmarks) =
     {path_id ''bookmark'' p |p. bookmark_at bookmarks p \<noteq> None \<and> reached expanded ''bookmark'' p}"
proof -
  have "ol_id ` set (outline_rows expanded bookmarks) = {path_id ''bookmark'' (j # p) |j p. (j # p) \<in> places expanded bookmarks ''bookmark''}"
    unfolding outline_rows_def rows_ids by (simp add: place_Cons)
  also have "\<dots> = {path_id ''bookmark'' p |p. p \<in> places expanded bookmarks ''bookmark''}"
  proof (intro set_eqI iffI)
    fix x assume "x \<in> {path_id ''bookmark'' p |p. p \<in> places expanded bookmarks ''bookmark''}"
    then obtain q where q: "x = path_id ''bookmark'' q" "q \<in> places expanded bookmarks ''bookmark''" by blast
    then obtain j p where "q = j # p" using place_not_Nil by (cases q) auto
    then show "x \<in> {path_id ''bookmark'' (j # p) |j p. (j # p) \<in> places expanded bookmarks ''bookmark''}" using q by blast
  qed blast
  finally show ?thesis using rows_distinct(2) by (simp add: outline_rows_def places_def)
qed

text \<open>Toggling twice is no change.\<close>

lemma toggle_expanded_twice: "toggle_expanded i (toggle_expanded i expanded) = expanded"
  by (auto simp: toggle_expanded_def)

section \<open>Attachments\<close>

text \<open>An attachment as it was read: of which document, in which reading, and where in its list.\<close>

record attachment =
  at_document :: nat
  at_index :: nat
  at_name :: string
  at_mime :: string
  at_description :: string

datatype attachment_call = AddAttachment nat string string | RemoveAttachment nat attachment

record attachments_panel =
  ap_document :: "nat option"
  ap_registry :: bool
  ap_can_modify :: bool
  ap_items :: "attachment list option"
  ap_version :: nat
  ap_busy :: bool
  ap_reads :: nat
  ap_current :: "nat option"
  ap_waiting :: "nat list"
  ap_files :: "(nat \<times> string \<times> string) list"
  ap_calls :: "attachment_call list"
  ap_sent :: "attachment_call list"
  ap_notices :: "string list"

definition attachments_start :: attachments_panel where
  "attachments_start =
     \<lparr>ap_document = None, ap_registry = False, ap_can_modify = False, ap_items = None, ap_version = 0, ap_busy = False, ap_reads = 0,
      ap_current = None, ap_waiting = [], ap_files = [], ap_calls = [], ap_sent = [], ap_notices = []\<rparr>"

definition read_attachments_effect :: "attachments_panel \<Rightarrow> attachments_panel" where
  "read_attachments_effect st =
     (if ap_document st = None then st\<lparr>ap_current := None\<rparr>
      else st\<lparr>ap_reads := Suc (ap_reads st), ap_current := Some (ap_reads st), ap_waiting := ap_reads st # ap_waiting st\<rparr>)"

definition attachments_refresh :: "attachments_panel \<Rightarrow> attachments_panel" where
  "attachments_refresh st = read_attachments_effect (st\<lparr>ap_version := Suc (ap_version st)\<rparr>)"

definition attachments_can_modify :: "attachments_panel \<Rightarrow> bool" where
  "attachments_can_modify st \<longleftrightarrow> ap_can_modify st \<and> \<not> ap_busy st"

definition handle_attachment_remove :: "attachment \<Rightarrow> attachments_panel \<Rightarrow> attachments_panel" where
  "handle_attachment_remove item st =
     (case ap_document st of
        Some d \<Rightarrow> if ap_registry st
          then st\<lparr>ap_busy := True, ap_calls := ap_calls st @ [RemoveAttachment d item], ap_sent := ap_sent st @ [RemoveAttachment d item]\<rparr>
          else st
      | None \<Rightarrow> st)"

definition handle_attachment_add :: "string \<Rightarrow> string \<Rightarrow> attachments_panel \<Rightarrow> attachments_panel" where
  "handle_attachment_add name mime st =
     (case ap_document st of
        Some d \<Rightarrow> if ap_registry st
          then st\<lparr>ap_busy := True, ap_files := ap_files st @ [(d, name, if mime = [] then ''application/octet-stream'' else mime)]\<rparr> else st
      | None \<Rightarrow> st)"

text \<open>The file that was picked is read before it is added.\<close>

definition attachment_file_read :: "nat \<times> string \<times> string \<Rightarrow> bool \<Rightarrow> attachments_panel \<Rightarrow> attachments_panel" where
  "attachment_file_read f success st =
     (let (d, name, mime) = f; st' = st\<lparr>ap_files := remove1 f (ap_files st)\<rparr>
      in if success
         then st'\<lparr>ap_calls := ap_calls st @ [AddAttachment d name mime], ap_sent := ap_sent st @ [AddAttachment d name mime]\<rparr>
         else st'\<lparr>ap_busy := False, ap_notices := ap_notices st @ [''The file could not be read.'']\<rparr>)"

definition attachment_call_settled :: "attachment_call \<Rightarrow> bool \<Rightarrow> attachments_panel \<Rightarrow> attachments_panel" where
  "attachment_call_settled c success st =
     (let st' = st\<lparr>ap_calls := remove1 c (ap_calls st), ap_busy := False\<rparr>; adds = (case c of AddAttachment d n m \<Rightarrow> True | _ \<Rightarrow> False)
      in if success
         then attachments_refresh (st'\<lparr>ap_notices := ap_notices st @ [if adds then ''Attachment added.'' else ''Attachment removed.'']\<rparr>)
         else st'\<lparr>ap_notices := ap_notices st @
                [if adds then ''The attachment could not be added.'' else ''The attachment could not be removed.'']\<rparr>)"

definition attachment_line :: "(nat \<Rightarrow> string) \<Rightarrow> nat \<Rightarrow> attachment \<Rightarrow> string" where
  "attachment_line format_bytes bytes item =
     js_join ('' '' @ [CHR 0xC2, CHR 0xB7] @ '' '') (truthy_strings [at_mime item, format_bytes bytes, at_description item])"

datatype attachment_action =
    AttachmentDocument "nat option" bool bool
  | AttachmentsRead nat "attachment list option"
  | AttachmentRemoved attachment
  | AttachmentPicked string string
  | AttachmentFileRead "nat \<times> string \<times> string" bool
  | AttachmentSettled attachment_call bool

fun attachments_step :: "attachments_panel \<Rightarrow> attachment_action \<Rightarrow> attachments_panel option" where
  "attachments_step st (AttachmentDocument d registry can) =
     Some ((if d = ap_document st then st else read_attachments_effect (st\<lparr>ap_document := d\<rparr>))\<lparr>ap_registry := registry, ap_can_modify := can\<rparr>)"
| "attachments_step st (AttachmentsRead n result) =
     (if n \<notin> set (ap_waiting st) then None
      else let st' = st\<lparr>ap_waiting := remove1 n (ap_waiting st)\<rparr>
           in Some (if ap_current st \<noteq> Some n then st'
                    else st'\<lparr>ap_items := Some (case result of Some xs \<Rightarrow> xs | None \<Rightarrow> [])\<rparr>))"
| "attachments_step st (AttachmentRemoved item) =
     (if attachments_can_modify st \<and> item \<in> set (case ap_items st of Some xs \<Rightarrow> xs | None \<Rightarrow> [])
      then Some (handle_attachment_remove item st) else None)"
| "attachments_step st (AttachmentPicked name mime) = (if attachments_can_modify st then Some (handle_attachment_add name mime st) else None)"
| "attachments_step st (AttachmentFileRead f success) = (if f \<in> set (ap_files st) then Some (attachment_file_read f success st) else None)"
| "attachments_step st (AttachmentSettled c success) = (if c \<in> set (ap_calls st) then Some (attachment_call_settled c success st) else None)"

text \<open>One change of the attachments is under way at a time, and the panel is busy exactly then.\<close>

definition attachments_inv :: "attachments_panel \<Rightarrow> bool" where
  "attachments_inv st \<longleftrightarrow> length (ap_files st) + length (ap_calls st) = (if ap_busy st then 1 else 0)"

lemma read_effect_frame:
  "ap_files (read_attachments_effect st) = ap_files st" "ap_calls (read_attachments_effect st) = ap_calls st"
  "ap_busy (read_attachments_effect st) = ap_busy st"
  by (simp_all add: read_attachments_effect_def)

lemma one_left: "c \<in> set xs \<Longrightarrow> length xs + n = 1 \<Longrightarrow> remove1 c xs = [] \<and> n = 0 \<and> length xs = 1"
  by (cases xs) auto

lemma attachments_inv_step:
  assumes "attachments_inv st" "attachments_step st a = Some st'"
  shows "attachments_inv st'"
proof (cases a)
  case (AttachmentFileRead f success)
  then have f: "f \<in> set (ap_files st)" "st' = attachment_file_read f success st" using assms(2) by (auto split: if_splits)
  then have busy: "ap_busy st" "length (ap_files st) + length (ap_calls st) = 1" using assms(1) by (auto simp: attachments_inv_def split: if_splits)
  with one_left [OF f(1)] show ?thesis unfolding f(2)
    by (cases f) (auto simp: attachments_inv_def attachment_file_read_def Let_def)
next
  case (AttachmentSettled c success)
  then have c: "c \<in> set (ap_calls st)" "st' = attachment_call_settled c success st" using assms(2) by (auto split: if_splits)
  then have "length (ap_calls st) + length (ap_files st) = 1" using assms(1) by (auto simp: attachments_inv_def split: if_splits)
  with one_left [OF c(1)] show ?thesis unfolding c(2)
    by (auto simp: attachments_inv_def attachment_call_settled_def attachments_refresh_def read_effect_frame Let_def)
qed (use assms in \<open>auto simp: attachments_inv_def attachments_can_modify_def handle_attachment_remove_def handle_attachment_add_def
      read_effect_frame Let_def split: if_splits option.splits\<close>)

interpretation attachments: machine attachments_step attachments_start attachments_inv
  by unfold_locales (simp add: attachments_inv_def attachments_start_def, rule attachments_inv_step)

theorem one_attachment_change:
  assumes "exec attachments_step attachments_start as = Some st"
  shows "length (ap_files st) + length (ap_calls st) = (if ap_busy st then 1 else 0)"
  using attachments.inv_exec [OF assms] by (simp add: attachments_inv_def)

definition sample_attachment :: "nat \<Rightarrow> attachment" where
  "sample_attachment d = \<lparr>at_document = d, at_index = 0, at_name = ''a'', at_mime = [], at_description = []\<rparr>"

theorem one_attachment_change_witness:
  "\<exists>st. exec attachments_step attachments_start
      [AttachmentDocument (Some 1) True True, AttachmentPicked ''a'' [], AttachmentFileRead (1, ''a'', ''application/octet-stream'') True] = Some st \<and>
    ap_busy st \<and> length (ap_calls st) = 1"
proof -
  obtain st where st: "exec attachments_step attachments_start
      [AttachmentDocument (Some 1) True True, AttachmentPicked ''a'' [], AttachmentFileRead (1, ''a'', ''application/octet-stream'') True] = Some st"
      "ap_busy st" "ap_files st = []"
    by (simp add: attachments_start_def read_attachments_effect_def attachments_can_modify_def handle_attachment_add_def attachment_file_read_def)
  from one_attachment_change [OF st(1)] st show ?thesis by auto
qed

text \<open>
  The list of the document before stays, and can be acted on, while that of the next one is read: an attachment of the one is
  then removed from the other.
\<close>

lemma attachment_of_other_document_removed:
  "\<exists>st. exec attachments_step attachments_start
      [AttachmentDocument (Some 1) True True, AttachmentsRead 0 (Some [sample_attachment 1]), AttachmentDocument (Some 2) True True,
       AttachmentRemoved (sample_attachment 1)] = Some st \<and> ap_sent st = [RemoveAttachment 2 (sample_attachment 1)]"
  by (simp add: attachments_start_def read_attachments_effect_def attachments_can_modify_def handle_attachment_remove_def sample_attachment_def)

text \<open>After a removal the old list can be acted on until the new one is read, so the same attachment is removed twice.\<close>

lemma attachment_removed_twice:
  "\<exists>st. exec attachments_step attachments_start
      [AttachmentDocument (Some 1) True True, AttachmentsRead 0 (Some [sample_attachment 1]), AttachmentRemoved (sample_attachment 1),
       AttachmentSettled (RemoveAttachment 1 (sample_attachment 1)) True, AttachmentRemoved (sample_attachment 1)] = Some st \<and>
    ap_sent st = [RemoveAttachment 1 (sample_attachment 1), RemoveAttachment 1 (sample_attachment 1)]"
  by (simp add: attachments_start_def read_attachments_effect_def attachments_can_modify_def handle_attachment_remove_def sample_attachment_def
      attachment_call_settled_def attachments_refresh_def)

section \<open>Thumbnails\<close>

definition editor_thumbnail_key :: "nat \<Rightarrow> nat \<Rightarrow> string \<Rightarrow> nat option" where
  "editor_thumbnail_key pageCount activePage key =
     (let currentPage = (if 0 < activePage then activePage else 1)
      in if pageCount < 1 then None
         else if key = ''ArrowDown'' then Some (min pageCount (currentPage + 1))
         else if key = ''ArrowUp'' then Some (max 1 (currentPage - 1))
         else if key = ''Home'' then Some 1
         else if key = ''End'' then Some pageCount
         else None)"

lemma thumbnail_key_in_document:
  "editor_thumbnail_key pageCount activePage key = Some n \<Longrightarrow> activePage \<le> pageCount \<Longrightarrow> 1 \<le> n \<and> n \<le> pageCount"
  by (auto simp: editor_thumbnail_key_def Let_def split: if_splits)

end
