(* ===== verification/PdfComments.thy ===== *)
theory PdfComments
  imports DocumentNames
begin

text \<open>
  The comments and the redactions beside an edited PDF (CommentComposer, CommentCard, PdfEditorCommentsPanel and
  PdfEditorRedactionsPanel of web/src/components/extend/pdf-editor-panels.tsx).

  Annotations, their grouping by page and their replies are the engine's; a panel sends it calls.
\<close>

section \<open>The composer\<close>

record composer =
  co_value :: string

datatype composer_event = ComposerTyped string | ComposerEnter bool | ComposerEscape | ComposerSubmitted | ComposerCancelled

datatype composer_end = ComposerStays composer | ComposerSubmits string | ComposerCancels

text \<open>
  A composer hands over its text, trimmed, when there is some; without a cancel handler, escape does nothing.
\<close>

fun composer_handles :: "bool \<Rightarrow> composer \<Rightarrow> composer_event \<Rightarrow> composer_end option" where
  "composer_handles cancellable c (ComposerTyped s) = Some (ComposerStays (c\<lparr>co_value := s\<rparr>))"
| "composer_handles cancellable c (ComposerEnter m) =
     Some (if m \<and> js_trim (co_value c) \<noteq> [] then ComposerSubmits (js_trim (co_value c)) else ComposerStays c)"
| "composer_handles cancellable c ComposerEscape = Some (if cancellable then ComposerCancels else ComposerStays c)"
| "composer_handles cancellable c ComposerSubmitted =
     (if js_trim (co_value c) = [] then None else Some (ComposerSubmits (js_trim (co_value c))))"
| "composer_handles cancellable c ComposerCancelled = (if cancellable then Some ComposerCancels else None)"

section \<open>A comment\<close>

record comment_annotation =
  ca_page :: nat
  ca_id :: nat
  ca_contents :: "string option"
  ca_rect :: "rat \<times> rat"

record comment_entry =
  ce_annotation :: comment_annotation
  ce_replies :: "comment_annotation list"

datatype comment_call =
    SelectComment nat nat
  | ScrollToComment nat
  | UpdateComment nat nat string
  | DeleteComment nat nat
  | CreateReply nat "rat \<times> rat" string nat string

record comment_card =
  cc_editing :: "composer option"
  cc_replying :: "composer option"

definition comment_card_start :: comment_card where
  "comment_card_start = \<lparr>cc_editing = None, cc_replying = None\<rparr>"

definition comment_contents :: "comment_annotation \<Rightarrow> string" where
  "comment_contents a = (case ca_contents a of Some s \<Rightarrow> s | None \<Rightarrow> [])"

definition comment_text :: "comment_annotation \<Rightarrow> string" where
  "comment_text a = (if comment_contents a = [] then ''No comment yet.'' else comment_contents a)"

definition edit_label :: "comment_annotation \<Rightarrow> string" where
  "edit_label a = (if comment_contents a = [] then ''Add comment'' else ''Edit comment'')"

definition select_comment :: "comment_annotation \<Rightarrow> comment_call list" where
  "select_comment a = [SelectComment (ca_page a) (ca_id a), ScrollToComment (ca_id a)]"

definition reply_to :: "string \<Rightarrow> comment_annotation \<Rightarrow> string \<Rightarrow> comment_call" where
  "reply_to author parent contents = CreateReply (ca_page parent) (ca_rect parent) contents (ca_id parent) author"

text \<open>
  What happens on a card. A click in a composer or on a button stays there; a key goes on to the card, which takes the enter
  key as a click.
\<close>

datatype card_event =
    CardClicked
  | CardEnter
  | EditPressed
  | DeletePressed
  | ReplyDeleted comment_annotation
  | ReplyPressed
  | EditEvent composer_event
  | ReplyEvent composer_event

definition enters :: "composer_event \<Rightarrow> bool" where
  "enters e \<longleftrightarrow> (case e of ComposerEnter m \<Rightarrow> True | _ \<Rightarrow> False)"

fun card_handles :: "string \<Rightarrow> bool \<Rightarrow> comment_entry \<Rightarrow> comment_card \<Rightarrow> card_event \<Rightarrow> (comment_call list \<times> comment_card) option" where
  "card_handles author readOnly e st CardClicked = Some (select_comment (ce_annotation e), st)"
| "card_handles author readOnly e st CardEnter = Some (select_comment (ce_annotation e), st)"
| "card_handles author readOnly e st EditPressed =
     (if readOnly then None
      else Some ([], if cc_editing st = None then st\<lparr>cc_editing := Some \<lparr>co_value = comment_contents (ce_annotation e)\<rparr>\<rparr> else st))"
| "card_handles author readOnly e st DeletePressed =
     (if readOnly then None else Some ([DeleteComment (ca_page (ce_annotation e)) (ca_id (ce_annotation e))], st))"
| "card_handles author readOnly e st (ReplyDeleted r) =
     (if readOnly \<or> r \<notin> set (ce_replies e) then None else Some ([DeleteComment (ca_page r) (ca_id r)], st))"
| "card_handles author readOnly e st ReplyPressed =
     (if readOnly \<or> cc_replying st \<noteq> None then None else Some ([], st\<lparr>cc_replying := Some \<lparr>co_value = []\<rparr>\<rparr>))"
| "card_handles author readOnly e st (EditEvent ev) =
     (case cc_editing st of
        None \<Rightarrow> None
      | Some c \<Rightarrow>
          (case composer_handles True c ev of
             None \<Rightarrow> None
           | Some outcome \<Rightarrow>
               (let bubbled = (if enters ev then select_comment (ce_annotation e) else [])
                in Some (case outcome of
                     ComposerStays c' \<Rightarrow> (bubbled, st\<lparr>cc_editing := Some c'\<rparr>)
                   | ComposerSubmits s \<Rightarrow>
                       (UpdateComment (ca_page (ce_annotation e)) (ca_id (ce_annotation e)) s # bubbled, st\<lparr>cc_editing := None\<rparr>)
                   | ComposerCancels \<Rightarrow> (bubbled, st\<lparr>cc_editing := None\<rparr>)))))"
| "card_handles author readOnly e st (ReplyEvent ev) =
     (case (if readOnly then None else cc_replying st) of
        None \<Rightarrow> None
      | Some c \<Rightarrow>
          (case composer_handles True c ev of
             None \<Rightarrow> None
           | Some outcome \<Rightarrow>
               (let bubbled = (if enters ev then select_comment (ce_annotation e) else [])
                in Some (case outcome of
                     ComposerStays c' \<Rightarrow> (bubbled, st\<lparr>cc_replying := Some c'\<rparr>)
                   | ComposerSubmits s \<Rightarrow> (reply_to author (ce_annotation e) s # bubbled, st\<lparr>cc_replying := None\<rparr>)
                   | ComposerCancels \<Rightarrow> (bubbled, st\<lparr>cc_replying := None\<rparr>)))))"

text \<open>
  What a card writes: texts that are trimmed and not empty, to its own annotation; replies on its page, hanging on it; and what it deletes is
  its annotation or one of its replies. A card that is only read writes nothing but what its open editor still submits.
\<close>

definition writes_own :: "comment_entry \<Rightarrow> comment_call \<Rightarrow> bool" where
  "writes_own e c \<longleftrightarrow>
     (case c of
        UpdateComment page i s \<Rightarrow> page = ca_page (ce_annotation e) \<and> i = ca_id (ce_annotation e) \<and> s \<noteq> [] \<and> js_trim s = s
      | CreateReply page rect s parent author \<Rightarrow>
          page = ca_page (ce_annotation e) \<and> parent = ca_id (ce_annotation e) \<and> s \<noteq> [] \<and> js_trim s = s
      | DeleteComment page i \<Rightarrow> \<exists>a\<in>set (ce_annotation e # ce_replies e). page = ca_page a \<and> i = ca_id a
      | SelectComment page i \<Rightarrow> i = ca_id (ce_annotation e)
      | ScrollToComment i \<Rightarrow> i = ca_id (ce_annotation e))"

lemma composer_submits: "composer_handles b c ev = Some (ComposerSubmits s) \<Longrightarrow> s \<noteq> [] \<and> js_trim s = s"
  by (cases ev) (auto split: if_splits)

lemma select_own: "list_all (writes_own e) (select_comment (ce_annotation e))"
  by (simp add: select_comment_def writes_own_def)

theorem card_writes_own:
  assumes "card_handles author readOnly e st ev = Some (calls, st')"
  shows "list_all (writes_own e) calls \<and>
    (readOnly \<longrightarrow> calls = [] \<or> (\<exists>s. ev = EditEvent s) \<or> calls = select_comment (ce_annotation e))"
proof (cases ev)
  case (EditEvent ev')
  then obtain c where c: "cc_editing st = Some c" using assms by (cases "cc_editing st") auto
  then obtain outcome where "composer_handles True c ev' = Some outcome" using assms EditEvent by (cases "composer_handles True c ev'") auto
  then show ?thesis using assms EditEvent c select_own [of e] composer_submits [of True c ev']
    by (cases outcome) (auto simp: writes_own_def Let_def split: if_splits)
next
  case (ReplyEvent ev')
  then obtain c where c: "\<not> readOnly" "cc_replying st = Some c" using assms by (auto split: option.splits if_splits)
  then obtain outcome where "composer_handles True c ev' = Some outcome" using assms ReplyEvent by (cases "composer_handles True c ev'") auto
  then show ?thesis using assms ReplyEvent c select_own [of e] composer_submits [of True c ev']
    by (cases outcome) (auto simp: writes_own_def reply_to_def Let_def split: if_splits)
qed (use assms select_own [of e] in \<open>auto simp: writes_own_def split: if_splits\<close>)

definition sample_comment :: comment_entry where
  "sample_comment = \<lparr>ce_annotation = \<lparr>ca_page = 2, ca_id = 7, ca_contents = None, ca_rect = (1, 1)\<rparr>, ce_replies = []\<rparr>"

theorem card_writes_own_witness:
  "\<exists>calls st. card_handles ''me'' False sample_comment \<lparr>cc_editing = None, cc_replying = Some \<lparr>co_value = '' yes ''\<rparr>\<rparr> (ReplyEvent ComposerSubmitted) = Some (calls, st) \<and>
    list_all (writes_own sample_comment) calls \<and> calls = [CreateReply 2 (1, 1) ''yes'' 7 ''me'']"
proof -
  let ?st = "\<lparr>cc_editing = None, cc_replying = Some \<lparr>co_value = '' yes ''\<rparr>\<rparr>"
  obtain st where st: "card_handles ''me'' False sample_comment ?st (ReplyEvent ComposerSubmitted) = Some ([CreateReply 2 (1, 1) ''yes'' 7 ''me''], st)"
    by (simp add: js_trim_def is_ws_def reply_to_def sample_comment_def enters_def)
  from card_writes_own [OF st] st show ?thesis by blast
qed

text \<open>The enter key in a composer, for a new line, selects the comment and scrolls the document to it.\<close>

lemma new_line_scrolls:
  "card_handles author False sample_comment \<lparr>cc_editing = Some \<lparr>co_value = ''a''\<rparr>, cc_replying = None\<rparr> (EditEvent (ComposerEnter False)) =
     Some ([SelectComment 2 7, ScrollToComment 7], \<lparr>cc_editing = Some \<lparr>co_value = ''a''\<rparr>, cc_replying = None\<rparr>)"
  by (simp add: enters_def select_comment_def sample_comment_def)

text \<open>A comment cannot be emptied: the composer hands over no blank text.\<close>

lemma comment_not_emptied:
  "js_trim s = [] \<Longrightarrow> composer_handles b \<lparr>co_value = s\<rparr> ComposerSubmitted = None \<and>
    composer_handles b \<lparr>co_value = s\<rparr> (ComposerEnter True) = Some (ComposerStays \<lparr>co_value = s\<rparr>)"
  by simp

section \<open>The panel of comments\<close>

text \<open>The pages that have comments, in order; the groups are the engine's, under the text of the page index.\<close>

definition comment_pages :: "(nat \<times> comment_entry list) list \<Rightarrow> nat list" where
  "comment_pages grouped = sort (map fst grouped)"

definition page_heading :: "nat \<Rightarrow> string" where
  "page_heading pageIndex = ''Page '' @ show_nat (pageIndex + 1)"

text \<open>The cards in their order, and the comments a selection stands for: the leader of a group for its members.\<close>

definition comment_cards :: "(nat \<times> comment_entry list) list \<Rightarrow> comment_entry list" where
  "comment_cards grouped = concat (map (\<lambda>page. case map_of grouped page of Some es \<Rightarrow> es | None \<Rightarrow> []) (comment_pages grouped))"

definition selected_leader_ids :: "(nat \<Rightarrow> nat option) \<Rightarrow> nat list \<Rightarrow> nat list" where
  "selected_leader_ids leader selected = js_set (map (\<lambda>i. case leader i of Some l \<Rightarrow> l | None \<Rightarrow> i) selected)"

definition scrolled_card :: "(nat \<Rightarrow> nat option) \<Rightarrow> nat list \<Rightarrow> comment_entry list \<Rightarrow> nat option" where
  "scrolled_card leader selected cards =
     (case selected_leader_ids leader selected of
        [] \<Rightarrow> None
      | i # rest \<Rightarrow> if i \<in> set (map (ca_id \<circ> ce_annotation) cards) then Some i else None)"

lemma sorted_pages: "sorted (comment_pages grouped)" by (simp add: comment_pages_def)

lemma comment_cards_set:
  "distinct (map fst grouped) \<Longrightarrow> set (comment_cards grouped) = (\<Union>(page, es)\<in>set grouped. set es)"
  by (force simp: comment_cards_def comment_pages_def split: option.splits dest: map_of_SomeD)

text \<open>
  The panel has a card for every comment of the document and none besides, page by page in ascending order.
\<close>
theorem every_comment_has_card:
  assumes "distinct (map fst grouped)" "\<forall>(page, es)\<in>set grouped. \<forall>e\<in>set es. ca_page (ce_annotation e) = page"
  shows "set (comment_cards grouped) = (\<Union>(page, es)\<in>set grouped. set es) \<and> sorted (map (ca_page \<circ> ce_annotation) (comment_cards grouped))"
proof -
  have on_page: "ca_page (ce_annotation e) = page" if "map_of grouped page = Some es" "e \<in> set es" for page es e
    using assms(2) map_of_SomeD [OF that(1)] that(2) by fastforce
  define g :: "comment_entry \<Rightarrow> nat" where "g = ca_page \<circ> ce_annotation"
  define cards where "cards = (\<lambda>page. case map_of grouped page of Some es \<Rightarrow> es | None \<Rightarrow> [])"
  have here: "g e = page" if "e \<in> set (cards page)" for e page
    using that on_page by (cases "map_of grouped page") (auto simp: cards_def g_def)
  have const: "sorted (map f xs)" if "\<forall>x\<in>set xs. f x = c" for f :: "comment_entry \<Rightarrow> nat" and xs c using that by (induction xs) auto
  have "sorted (map g (concat (map cards pages)))" if "sorted pages" for pages
    using that
  proof (induction pages)
    case (Cons page pages)
    have "sorted (map g (cards page))" using here by (intro const) auto
    moreover have "\<forall>x\<in>set (map g (cards page)). x = page" using here by auto
    moreover have "page \<le> x" if x: "x \<in> set (map g (concat (map cards pages)))" for x
    proof -
      from x obtain q e where "q \<in> set pages" "e \<in> set (cards q)" "x = g e" by auto
      with here [of e q] Cons.prems show ?thesis by simp
    qed
    moreover have "sorted (map g (concat (map cards pages)))" using Cons by simp
    ultimately show ?case unfolding list.map concat.simps map_append sorted_append by metis
  qed simp
  from this [OF sorted_pages] have "sorted (map (ca_page \<circ> ce_annotation) (comment_cards grouped))"
    unfolding comment_cards_def g_def cards_def .
  then show ?thesis using comment_cards_set [OF assms(1)] by blast
qed

theorem every_comment_has_card_witness:
  "set (comment_cards [(5, [sample_comment\<lparr>ce_annotation := (ce_annotation sample_comment)\<lparr>ca_page := 5\<rparr>\<rparr>]), (2, [sample_comment])]) =
     {sample_comment, sample_comment\<lparr>ce_annotation := (ce_annotation sample_comment)\<lparr>ca_page := 5\<rparr>\<rparr>}"
proof -
  let ?g = "[(5 :: nat, [sample_comment\<lparr>ce_annotation := (ce_annotation sample_comment)\<lparr>ca_page := 5\<rparr>\<rparr>]), (2, [sample_comment])]"
  have "distinct (map fst ?g)" "\<forall>(page, es)\<in>set ?g. \<forall>e\<in>set es. ca_page (ce_annotation e) = page" by (simp_all add: sample_comment_def)
  from every_comment_has_card [OF this] show ?thesis by auto
qed

section \<open>Redactions\<close>

record redaction_item =
  ri_page :: nat
  ri_id :: nat
  ri_text :: "string option"

datatype redaction_call = SelectPending nat nat | ShowRedaction nat | CommitAllPending | CommitPending nat nat | RemovePending nat nat | ClearPending

definition redaction_items :: "(nat \<times> redaction_item list) list \<Rightarrow> (redaction_item \<times> nat) list" where
  "redaction_items pending = sort_key snd (concat (map (\<lambda>(page, items). map (\<lambda>item. (item, page + 1)) items) pending))"

record redactions_panel =
  rp_items :: "(redaction_item \<times> nat) list"
  rp_provided :: bool
  rp_permitted :: bool
  rp_applying :: bool
  rp_dialog :: "redaction_item option option"
  rp_calls :: "redaction_call list"
  rp_waiting :: "redaction_call list"
  rp_notices :: "string list"

definition redactions_start :: redactions_panel where
  "redactions_start = \<lparr>rp_items = [], rp_provided = False, rp_permitted = False, rp_applying = False, rp_dialog = None, rp_calls = [],
     rp_waiting = [], rp_notices = []\<rparr>"

definition redactions_can_apply :: "redactions_panel \<Rightarrow> bool" where
  "redactions_can_apply st \<longleftrightarrow> rp_permitted st \<and> \<not> rp_applying st"

definition sends_redaction :: "redaction_call list \<Rightarrow> redactions_panel \<Rightarrow> redactions_panel" where
  "sends_redaction cs st = (if rp_provided st then st\<lparr>rp_calls := rp_calls st @ cs\<rparr> else st)"

text \<open>Applying asks first; nothing is removed from the document before the question is answered.\<close>

definition redaction_confirmed :: "redactions_panel \<Rightarrow> redactions_panel" where
  "redaction_confirmed st =
     (case rp_dialog st of
        None \<Rightarrow> st
      | Some target \<Rightarrow>
          (let st' = st\<lparr>rp_dialog := None\<rparr>;
               c = (case target of None \<Rightarrow> CommitAllPending | Some item \<Rightarrow> CommitPending (ri_page item) (ri_id item))
           in if \<not> rp_provided st then st'
              else st'\<lparr>rp_applying := (rp_applying st \<or> target = None), rp_calls := rp_calls st @ [c], rp_waiting := rp_waiting st @ [c]\<rparr>))"

definition redaction_settled :: "redaction_call \<Rightarrow> bool \<Rightarrow> redactions_panel \<Rightarrow> redactions_panel" where
  "redaction_settled c success st =
     (let st' = st\<lparr>rp_waiting := remove1 c (rp_waiting st), rp_applying := (if c = CommitAllPending then False else rp_applying st)\<rparr>
      in if success then st'
         else st'\<lparr>rp_notices := rp_notices st @
                [if c = CommitAllPending then ''The redactions could not be applied.'' else ''The redaction could not be applied.'']\<rparr>)"

datatype redaction_action =
    RedactionsSeen "(nat \<times> redaction_item list) list" bool bool
  | RedactionClicked redaction_item
  | ApplyOnePressed redaction_item
  | RemoveMarkPressed redaction_item
  | ClearAllPressed
  | ApplyAllPressed
  | RedactionConfirmed
  | RedactionCancelled
  | RedactionSettled redaction_call bool

fun redaction_step :: "redactions_panel \<Rightarrow> redaction_action \<Rightarrow> redactions_panel option" where
  "redaction_step st (RedactionsSeen pending provided permitted) =
     Some (st\<lparr>rp_items := redaction_items pending, rp_provided := provided, rp_permitted := permitted\<rparr>)"
| "redaction_step st (RedactionClicked item) =
     (if item \<in> fst ` set (rp_items st)
      then Some (sends_redaction [SelectPending (ri_page item) (ri_id item), ShowRedaction (ri_page item + 1)] st) else None)"
| "redaction_step st (ApplyOnePressed item) =
     (if item \<in> fst ` set (rp_items st) \<and> redactions_can_apply st then Some (st\<lparr>rp_dialog := Some (Some item)\<rparr>) else None)"
| "redaction_step st (RemoveMarkPressed item) =
     (if item \<in> fst ` set (rp_items st) then Some (sends_redaction [RemovePending (ri_page item) (ri_id item)] st) else None)"
| "redaction_step st ClearAllPressed =
     (if rp_items st \<noteq> [] \<and> \<not> rp_applying st then Some (sends_redaction [ClearPending] st) else None)"
| "redaction_step st ApplyAllPressed =
     (if rp_items st \<noteq> [] \<and> redactions_can_apply st then Some (st\<lparr>rp_dialog := Some None\<rparr>) else None)"
| "redaction_step st RedactionConfirmed = (if rp_dialog st = None then None else Some (redaction_confirmed st))"
| "redaction_step st RedactionCancelled = (if rp_dialog st = None then None else Some (st\<lparr>rp_dialog := None\<rparr>))"
| "redaction_step st (RedactionSettled c success) =
     (if c \<in> set (rp_waiting st) then Some (redaction_settled c success st) else None)"

definition applies_marks :: "redaction_call \<Rightarrow> bool" where
  "applies_marks c \<longleftrightarrow> (case c of CommitAllPending \<Rightarrow> True | CommitPending _ _ \<Rightarrow> True | _ \<Rightarrow> False)"

text \<open>How often something was applied for, and how often that was confirmed.\<close>

definition asked_to_apply :: "redaction_action \<Rightarrow> bool" where
  "asked_to_apply a \<longleftrightarrow> (case a of ApplyOnePressed item \<Rightarrow> True | ApplyAllPressed \<Rightarrow> True | _ \<Rightarrow> False)"

lemma applies_step:
  "redaction_step st a = Some st' \<Longrightarrow>
   length (filter applies_marks (rp_calls st')) \<le> length (filter applies_marks (rp_calls st)) + (if a = RedactionConfirmed then 1 else 0) \<and>
   (rp_dialog st' \<noteq> None \<longrightarrow> rp_dialog st \<noteq> None \<or> asked_to_apply a) \<and>
   (a = RedactionConfirmed \<longrightarrow> rp_dialog st \<noteq> None \<and> rp_dialog st' = None)"
  by (cases a) (auto simp: sends_redaction_def redaction_confirmed_def redaction_settled_def applies_marks_def asked_to_apply_def Let_def
      split: if_splits option.splits)

text \<open>
  The marked content is removed only after it was asked for and confirmed, once for each question: along any run
  there are no more removals than confirmations, and no more confirmations than questions asked.
\<close>
theorem redactions_confirmed_first:
  assumes "exec redaction_step redactions_start as = Some st"
  shows "length (filter applies_marks (rp_calls st)) \<le> count_list as RedactionConfirmed \<and>
    count_list as RedactionConfirmed + (if rp_dialog st \<noteq> None then 1 else 0) \<le> length (filter asked_to_apply as)"
  using assms
proof (induction as arbitrary: st rule: rev_induct)
  case (snoc a as)
  then obtain t where t: "exec redaction_step redactions_start as = Some t" "redaction_step t a = Some st"
    by (auto simp: exec_append split: option.splits)
  have "count_list (as @ [a]) RedactionConfirmed = count_list as RedactionConfirmed + (if a = RedactionConfirmed then 1 else 0)"
    by (induction as) auto
  moreover have "length (filter asked_to_apply (as @ [a])) = length (filter asked_to_apply as) + (if asked_to_apply a then 1 else 0)"
    by simp
  moreover have "\<not> asked_to_apply RedactionConfirmed" by (simp add: asked_to_apply_def)
  ultimately show ?case using snoc.IH [OF t(1)] applies_step [OF t(2)] by (auto split: if_splits)
qed (simp add: redactions_start_def)

definition sample_redaction :: redaction_item where
  "sample_redaction = \<lparr>ri_page = 0, ri_id = 4, ri_text = None\<rparr>"

theorem redactions_confirmed_first_witness:
  "\<exists>st. exec redaction_step redactions_start
      [RedactionsSeen [(0, [sample_redaction])] True True, ApplyOnePressed sample_redaction, RedactionConfirmed] = Some st \<and>
    length (filter applies_marks (rp_calls st)) \<le> 1 \<and> rp_calls st = [CommitPending 0 4]"
proof -
  obtain st where st: "exec redaction_step redactions_start
      [RedactionsSeen [(0, [sample_redaction])] True True, ApplyOnePressed sample_redaction, RedactionConfirmed] = Some st"
      "rp_calls st = [CommitPending 0 4]"
    by (simp add: redactions_start_def redaction_items_def redactions_can_apply_def redaction_confirmed_def sample_redaction_def Let_def)
  from redactions_confirmed_first [OF st(1)] st show ?thesis by simp
qed

text \<open>The list of redactions has every pending one, page by page.\<close>

lemma redaction_items_sorted:
  "sorted (map snd (redaction_items pending)) \<and>
   set (redaction_items pending) = {(item, page + 1) |item page. \<exists>items. (page, items) \<in> set pending \<and> item \<in> set items}"
  by (force simp: redaction_items_def)

text \<open>Applying one redaction does not make the panel busy, so it can be asked for and applied again before it ends.\<close>

lemma redaction_applied_twice:
  "\<exists>st. exec redaction_step redactions_start
      [RedactionsSeen [(0, [sample_redaction])] True True, ApplyOnePressed sample_redaction, RedactionConfirmed,
       ApplyOnePressed sample_redaction, RedactionConfirmed] = Some st \<and> rp_waiting st = [CommitPending 0 4, CommitPending 0 4]"
  by (simp add: redactions_start_def redaction_items_def redactions_can_apply_def redaction_confirmed_def sample_redaction_def Let_def)

end
