(* ===== verification/PdfStamps.thy ===== *)
theory PdfStamps
  imports PdfFields DocumentNames
begin

text \<open>
  The stamps, the signatures and the form fields beside an edited PDF (PdfEditorStampsPanel, PdfEditorSignaturesPanel and
  PdfEditorFormsPanel of web/src/components/extend/pdf-editor-panels.tsx), and the signatures kept in the browser
  (PdfEditorSignaturePersistence of pdf-editor.tsx).

  Libraries, entries and fields are the engine's; libraries and stamps are numbered by it.
\<close>

section \<open>Stamps\<close>

record stamp =
  sp_id :: string
  sp_page :: nat
  sp_subject :: string

record stamp_library =
  sl_id :: string
  sl_name :: string
  sl_readonly :: bool
  sl_stamps :: "stamp list"

datatype annotation_kind =
    RedactKind | HighlightKind | SquigglyKind | UnderlineKind | StrikeoutKind | CaretKind | WidgetKind | LinkKind | OtherKind

definition unsupported_stamp_sources :: "annotation_kind list" where
  "unsupported_stamp_sources =
     [RedactKind, HighlightKind, SquigglyKind, UnderlineKind, StrikeoutKind, CaretKind, WidgetKind, LinkKind]"

datatype stamp_call =
    ActivateStamp string stamp
  | EndStampTool
  | CreateStamp annotation_kind string
  | ExportLibrary string
  | LoadLibrary string "stamp list"
  | RemoveStamp string string

record stamps_panel =
  sm_capability :: bool
  sm_annotation :: bool
  sm_permitted :: bool
  sm_libraries :: "stamp_library list"
  sm_library :: string
  sm_active :: "(string \<times> string) option"
  sm_selected :: "annotation_kind list"
  sm_busy :: bool
  sm_files :: "string list"
  sm_waiting :: "stamp_call list"
  sm_calls :: "stamp_call list"
  sm_notices :: "string list"

definition stamps_start :: stamps_panel where
  "stamps_start =
     \<lparr>sm_capability = False, sm_annotation = False, sm_permitted = False, sm_libraries = [], sm_library = ''all'', sm_active = None,
      sm_selected = [], sm_busy = False, sm_files = [], sm_waiting = [], sm_calls = [], sm_notices = []\<rparr>"

definition can_create_from_selection :: "stamps_panel \<Rightarrow> bool" where
  "can_create_from_selection st \<longleftrightarrow>
     length (sm_selected st) = 1 \<and> sm_selected st ! 0 \<notin> set unsupported_stamp_sources"

definition custom_count :: "stamps_panel \<Rightarrow> nat" where
  "custom_count st = (case filter (\<lambda>l. sl_id l = ''custom'') (sm_libraries st) of l # ls \<Rightarrow> length (sl_stamps l) | [] \<Rightarrow> 0)"

definition library_options :: "stamps_panel \<Rightarrow> (string \<times> string) list" where
  "library_options st = (''All libraries'', ''all'') # map (\<lambda>l. (sl_name l, sl_id l)) (sm_libraries st)"

text \<open>A library that is not there any more is left for all of them, at every rendering.\<close>

definition known_library :: "stamps_panel \<Rightarrow> stamps_panel" where
  "known_library st =
     (if sm_library st \<noteq> ''all'' \<and> sm_library st \<notin> sl_id ` set (sm_libraries st) then st\<lparr>sm_library := ''all''\<rparr> else st)"

definition send_stamp :: "stamp_call \<Rightarrow> stamps_panel \<Rightarrow> stamps_panel" where
  "send_stamp c st = st\<lparr>sm_calls := sm_calls st @ [c], sm_waiting := sm_waiting st @ [c]\<rparr>"

definition place_stamp :: "string \<Rightarrow> stamp \<Rightarrow> stamps_panel \<Rightarrow> stamps_panel" where
  "place_stamp library s st =
     (if \<not> sm_capability st then st
      else if sm_active st = Some (library, sp_id s) then
        (if sm_annotation st then st\<lparr>sm_calls := sm_calls st @ [EndStampTool]\<rparr> else st)
      else send_stamp (ActivateStamp library s) st)"

definition create_from_selection :: "stamps_panel \<Rightarrow> stamps_panel" where
  "create_from_selection st =
     (if \<not> sm_capability st \<or> \<not> can_create_from_selection st then st
      else send_stamp (CreateStamp (sm_selected st ! 0) (''Custom stamp '' @ show_nat (custom_count st + 1))) (st\<lparr>sm_busy := True\<rparr>))"

definition export_targets :: "stamps_panel \<Rightarrow> string list" where
  "export_targets st = (if sm_library st = ''all'' then map sl_id (sm_libraries st) else [sm_library st])"

definition export_libraries :: "stamps_panel \<Rightarrow> stamps_panel" where
  "export_libraries st = (if sm_capability st then foldl (\<lambda>st l. send_stamp (ExportLibrary l) st) st (export_targets st) else st)"

definition export_disabled :: "stamps_panel \<Rightarrow> bool" where
  "export_disabled st \<longleftrightarrow>
     sm_busy st \<or> (if sm_library st = ''all'' then sm_libraries st = [] else sm_library st \<notin> sl_id ` set (sm_libraries st))"

definition imported_name :: "string \<Rightarrow> string" where
  "imported_name fileName = (let name = replace_pdf_end [] fileName in if name = [] then ''Imported stamps'' else name)"

definition imported_stamps :: "string \<Rightarrow> nat \<Rightarrow> stamp list" where
  "imported_stamps name pageCount =
     map (\<lambda>i. \<lparr>sp_id = ''page-'' @ show_nat (i + 1), sp_page = i, sp_subject = name @ '' '' @ show_nat (i + 1)\<rparr>) [0..<pageCount]"

definition import_library :: "string \<Rightarrow> stamps_panel \<Rightarrow> stamps_panel" where
  "import_library fileName st = (if \<not> sm_capability st then st else st\<lparr>sm_busy := True, sm_files := sm_files st @ [fileName]\<rparr>)"

text \<open>The file is read and its pages are counted; it may be no PDF.\<close>

definition library_file_read :: "string \<Rightarrow> nat option \<Rightarrow> stamps_panel \<Rightarrow> stamps_panel" where
  "library_file_read fileName pages st =
     (let st' = st\<lparr>sm_files := remove1 fileName (sm_files st)\<rparr>
      in case pages of
           Some n \<Rightarrow> send_stamp (LoadLibrary (imported_name fileName) (imported_stamps (imported_name fileName) n)) st'
         | None \<Rightarrow> st'\<lparr>sm_busy := False, sm_notices := sm_notices st @ [''The file could not be read as a PDF.'']\<rparr>)"

definition stamps_imported_text :: "nat \<Rightarrow> string" where
  "stamps_imported_text n = ''Imported '' @ show_nat n @ '' stamp'' @ (if n = 1 then [] else ''s'') @ ''.''"

text \<open>The answer to a call: the library that was loaded, or just an end; a failure has its notice.\<close>

definition stamp_answered :: "stamp_call \<Rightarrow> string option \<Rightarrow> stamps_panel \<Rightarrow> stamps_panel" where
  "stamp_answered c result st =
     (let st' = st\<lparr>sm_waiting := remove1 c (sm_waiting st)\<rparr>;
          say = (\<lambda>m st. st\<lparr>sm_notices := sm_notices st @ [m]\<rparr>)
      in case (c, result) of
           (CreateStamp kind subject, Some _) \<Rightarrow>
             say ''Stamp saved to your custom library.'' (known_library (st'\<lparr>sm_busy := False, sm_library := ''custom''\<rparr>))
         | (CreateStamp kind subject, None) \<Rightarrow> say ''The stamp could not be created from the selection.'' (st'\<lparr>sm_busy := False\<rparr>)
         | (LoadLibrary name stamps, Some i) \<Rightarrow>
             say (stamps_imported_text (length stamps)) (known_library (st'\<lparr>sm_busy := False, sm_library := i\<rparr>))
         | (LoadLibrary name stamps, None) \<Rightarrow> say ''The stamp library could not be imported.'' (st'\<lparr>sm_busy := False\<rparr>)
         | (ExportLibrary l, None) \<Rightarrow> say ''The library could not be exported.'' st'
         | (ActivateStamp l s, None) \<Rightarrow> say ''The stamp could not be activated.'' st'
         | (RemoveStamp l s, None) \<Rightarrow> say ''The stamp could not be removed.'' st'
         | _ \<Rightarrow> st')"

datatype stamps_action =
    StampsSeen bool bool bool "stamp_library list" "(string \<times> string) option" "annotation_kind list"
  | LibraryPicked string
  | StampPressed string stamp
  | StampRemoved string stamp
  | SelectionSaved
  | ExportPressed
  | LibraryFilePicked string
  | LibraryFileRead string "nat option"
  | StampAnswered stamp_call "string option"

fun stamps_step :: "stamps_panel \<Rightarrow> stamps_action \<Rightarrow> stamps_panel option" where
  "stamps_step st (StampsSeen capability annotation permitted libraries active selected) =
     Some (known_library (st\<lparr>sm_capability := capability, sm_annotation := annotation, sm_permitted := permitted, sm_libraries := libraries,
       sm_active := active, sm_selected := selected\<rparr>))"
| "stamps_step st (LibraryPicked i) = (if i \<in> snd ` set (library_options st) then Some (known_library (st\<lparr>sm_library := i\<rparr>)) else None)"
| "stamps_step st (StampPressed library s) =
     (if sm_permitted st \<and> (\<exists>l\<in>set (sm_libraries st). sl_id l = library \<and> s \<in> set (sl_stamps l)) then Some (place_stamp library s st) else None)"
| "stamps_step st (StampRemoved library s) =
     (if \<exists>l\<in>set (sm_libraries st). sl_id l = library \<and> \<not> sl_readonly l \<and> s \<in> set (sl_stamps l)
      then Some (if sm_capability st then send_stamp (RemoveStamp library (sp_id s)) st else st) else None)"
| "stamps_step st SelectionSaved =
     (if can_create_from_selection st \<and> \<not> sm_busy st \<and> sm_permitted st then Some (create_from_selection st) else None)"
| "stamps_step st ExportPressed = (if export_disabled st then None else Some (export_libraries st))"
| "stamps_step st (LibraryFilePicked fileName) = (if sm_busy st then None else Some (import_library fileName st))"
| "stamps_step st (LibraryFileRead fileName pages) =
     (if fileName \<in> set (sm_files st) then Some (library_file_read fileName pages st) else None)"
| "stamps_step st (StampAnswered c result) = (if c \<in> set (sm_waiting st) then Some (stamp_answered c result st) else None)"

text \<open>The library that is shown is all of them or one that there is; and one change of the libraries is under way at a time.\<close>

definition changes_library :: "stamp_call \<Rightarrow> bool" where
  "changes_library c \<longleftrightarrow> (case c of CreateStamp _ _ \<Rightarrow> True | LoadLibrary _ _ \<Rightarrow> True | _ \<Rightarrow> False)"

definition stamps_inv :: "stamps_panel \<Rightarrow> bool" where
  "stamps_inv st \<longleftrightarrow>
     (sm_library st = ''all'' \<or> sm_library st \<in> sl_id ` set (sm_libraries st)) \<and>
     length (sm_files st) + length (filter changes_library (sm_waiting st)) = (if sm_busy st then 1 else 0)"

lemma known_library_inv:
  "length (sm_files st) + length (filter changes_library (sm_waiting st)) = (if sm_busy st then 1 else 0) \<Longrightarrow> stamps_inv (known_library st)"
  by (auto simp: stamps_inv_def known_library_def split: if_splits)

lemma export_frame:
  "sm_libraries (foldl (\<lambda>st l. send_stamp (ExportLibrary l) st) st ls) = sm_libraries st \<and>
   sm_files (foldl (\<lambda>st l. send_stamp (ExportLibrary l) st) st ls) = sm_files st \<and>
   sm_library (foldl (\<lambda>st l. send_stamp (ExportLibrary l) st) st ls) = sm_library st \<and>
   sm_busy (foldl (\<lambda>st l. send_stamp (ExportLibrary l) st) st ls) = sm_busy st \<and>
   filter changes_library (sm_waiting (foldl (\<lambda>st l. send_stamp (ExportLibrary l) st) st ls)) = filter changes_library (sm_waiting st)"
  by (induction ls arbitrary: st) (simp_all add: send_stamp_def changes_library_def)

lemma filter_remove1: "\<not> P c \<Longrightarrow> filter P (remove1 c xs) = filter P xs"
  by (induction xs) auto

lemma length_filter_remove1: "P c \<Longrightarrow> c \<in> set xs \<Longrightarrow> length (filter P xs) = Suc (length (filter P (remove1 c xs)))"
  by (induction xs) auto

lemma length_remove1_in: "x \<in> set xs \<Longrightarrow> length xs = Suc (length (remove1 x xs))"
  by (induction xs) auto

lemma stamp_answered_inv:
  assumes "stamps_inv st" "c \<in> set (sm_waiting st)"
  shows "stamps_inv (stamp_answered c result st)"
proof (cases "changes_library c")
  case True
  note left = length_filter_remove1 [of changes_library, OF True assms(2)]
  then have "sm_busy st" "sm_files st = []" "filter changes_library (remove1 c (sm_waiting st)) = []"
    using assms(1) by (auto simp: stamps_inv_def split: if_splits)
  then show ?thesis using assms(1) True
    by (cases c; cases result) (auto simp: stamps_inv_def stamp_answered_def changes_library_def known_library_def Let_def)
next
  case False
  note same = filter_remove1 [of changes_library, OF False]
  show ?thesis using assms(1) False same
    by (cases c; cases result) (auto simp: stamps_inv_def stamp_answered_def changes_library_def Let_def)
qed

lemma stamps_inv_step:
  assumes "stamps_inv st" "stamps_step st a = Some st'"
  shows "stamps_inv st'"
proof (cases a)
  case (StampAnswered c result)
  then show ?thesis using assms stamp_answered_inv by (auto split: if_splits)
next
  case ExportPressed
  then have "st' = export_libraries st" using assms(2) by (auto split: if_splits)
  then show ?thesis using assms(1) export_frame [of st "export_targets st"]
    by (cases "sm_capability st") (simp_all add: stamps_inv_def export_libraries_def)
next
  case (LibraryFileRead fileName pages)
  then have f: "fileName \<in> set (sm_files st)" "st' = library_file_read fileName pages st" using assms(2) by (auto split: if_splits)
  then have "length (sm_files st) = Suc (length (remove1 fileName (sm_files st)))" using length_remove1_in by fast
  then show ?thesis using assms(1) unfolding f(2)
    by (auto simp: stamps_inv_def library_file_read_def send_stamp_def changes_library_def Let_def split: option.splits if_splits)
next
  case (StampsSeen capability annotation permitted libraries active selected)
  then show ?thesis using assms by (auto simp: stamps_inv_def [of st] intro!: known_library_inv)
next
  case (LibraryPicked i)
  then show ?thesis using assms by (auto simp: stamps_inv_def [of st] intro!: known_library_inv split: if_splits)
qed (use assms in \<open>auto simp: stamps_inv_def place_stamp_def create_from_selection_def import_library_def send_stamp_def changes_library_def
      split: if_splits\<close>)

interpretation stamps: machine stamps_step stamps_start stamps_inv
  by unfold_locales (simp add: stamps_inv_def stamps_start_def, rule stamps_inv_step)

text \<open>
  After every run the panel shows all libraries or one that exists, it is busy exactly while one library is being changed, and at most one is.
\<close>
theorem stamps_library_known:
  assumes "exec stamps_step stamps_start as = Some st"
  shows "(sm_library st = ''all'' \<or> sm_library st \<in> sl_id ` set (sm_libraries st)) \<and>
    length (sm_files st) + length (filter changes_library (sm_waiting st)) = (if sm_busy st then 1 else 0)"
  using stamps.inv_exec [OF assms] unfolding stamps_inv_def .

definition sample_library :: stamp_library where
  "sample_library = \<lparr>sl_id = ''custom'', sl_name = ''Custom'', sl_readonly = False,
     sl_stamps = [\<lparr>sp_id = ''b'', sp_page = 0, sp_subject = ''Custom stamp 2''\<rparr>]\<rparr>"

theorem stamps_library_known_witness:
  "\<exists>st. exec stamps_step stamps_start
      [StampsSeen True True True [sample_library] None [OtherKind], LibraryPicked ''custom'', StampsSeen True True True [] None [OtherKind]] = Some st \<and>
    sm_library st = ''all'' \<and> \<not> sm_busy st"
proof -
  obtain st where st: "exec stamps_step stamps_start
      [StampsSeen True True True [sample_library] None [OtherKind], LibraryPicked ''custom'', StampsSeen True True True [] None [OtherKind]] = Some st"
      "sm_libraries st = []" "\<not> sm_busy st"
    by (simp add: stamps_start_def known_library_def library_options_def sample_library_def)
  from stamps_library_known [OF st(1)] st show ?thesis by auto
qed

text \<open>The stamps of an imported file: one for each page, under ids of their own.\<close>

lemma imported_stamps_exact:
  "map sp_page (imported_stamps name n) = [0..<n] \<and> distinct (map sp_id (imported_stamps name n))"
  by (simp add: imported_stamps_def comp_def distinct_map inj_on_def, auto dest: show_nat_inj)

text \<open>
  A library that answers before it is listed is not shown: the panel goes back to all libraries at once.
\<close>

lemma new_library_not_shown:
  "\<exists>st. exec stamps_step stamps_start
      [StampsSeen True True True [] None [], LibraryFilePicked ''a.pdf'', LibraryFileRead ''a.pdf'' (Some 0), StampAnswered (LoadLibrary ''a'' []) (Some ''lib'')] = Some st \<and>
    sm_library st = ''all''"
  by (simp add: stamps_start_def known_library_def import_library_def library_file_read_def send_stamp_def imported_name_def imported_stamps_def
      replace_pdf_end_def ends_with_def to_lower_def lower_char_def stamp_answered_def Let_def)

text \<open>New stamps are named after how many there are, so that after a removal two have the same name.\<close>

lemma custom_stamp_named_twice:
  "\<exists>st. exec stamps_step stamps_start [StampsSeen True True True [sample_library] None [OtherKind], SelectionSaved] = Some st \<and>
    sm_calls st = [CreateStamp OtherKind (sp_subject (sl_stamps sample_library ! 0))]"
proof -
  have two: "show_nat (Suc (Suc 0)) = ''2''" by (simp add: show_nat.simps digit_char_def) code_simp
  show ?thesis
    by (simp add: stamps_start_def known_library_def can_create_from_selection_def unsupported_stamp_sources_def create_from_selection_def
        send_stamp_def custom_count_def sample_library_def two)
qed

section \<open>Signatures\<close>

datatype signature_kind = SignatureKind | InitialsKind

datatype placement_call = DeactivatePlacement | ActivateInitials string | ActivateSignature string

definition placement_active :: "(string \<times> signature_kind) option \<Rightarrow> string \<Rightarrow> signature_kind \<Rightarrow> bool" where
  "placement_active active entry kind \<longleftrightarrow> active = Some (entry, kind)"

definition toggle_placement :: "bool \<Rightarrow> (string \<times> signature_kind) option \<Rightarrow> string \<Rightarrow> signature_kind \<Rightarrow> placement_call option" where
  "toggle_placement provided active entry kind =
     (if \<not> provided then None
      else if placement_active active entry kind then Some DeactivatePlacement
      else case kind of InitialsKind \<Rightarrow> Some (ActivateInitials entry) | SignatureKind \<Rightarrow> Some (ActivateSignature entry))"

text \<open>
  The signatures in the browser's storage: read once, when the engine has none, and written at every change; a storage that fails
  or holds something else is ignored. What the text of the entries is, is the engine's.
\<close>

definition restore_signatures :: "(string \<Rightarrow> 'e list option) \<Rightarrow> string option option \<Rightarrow> 'e list \<Rightarrow> 'e list" where
  "restore_signatures parse stored entries =
     (case stored of
        Some (Some raw) \<Rightarrow> if raw \<noteq> [] \<and> entries = [] then (case parse raw of Some es \<Rightarrow> es | None \<Rightarrow> entries) else entries
      | _ \<Rightarrow> entries)"

definition store_signatures :: "('e list \<Rightarrow> string) \<Rightarrow> bool \<Rightarrow> 'e list \<Rightarrow> string option option \<Rightarrow> string option option" where
  "store_signatures unparse works entries stored = (if works then Some (Some (unparse entries)) else stored)"

text \<open>Signatures that were kept come back in the next session.\<close>
theorem signatures_come_back:
  assumes "\<And>es. parse (unparse es) = Some es" "\<And>es. unparse es \<noteq> []"
  shows "restore_signatures parse (store_signatures unparse True entries stored) [] = entries"
  using assms by (simp add: restore_signatures_def store_signatures_def)

definition unparse_numbers :: "nat list \<Rightarrow> string" where
  "unparse_numbers ns = CHR ''['' # map (\<lambda>n. if n = 0 then CHR ''0'' else CHR ''1'') (concat (map (\<lambda>n. replicate n (1 :: nat) @ [0]) ns))"

fun parse_ones :: "nat \<Rightarrow> string \<Rightarrow> nat list" where
  "parse_ones k [] = []"
| "parse_ones k (c # cs) = (if c = CHR ''1'' then parse_ones (Suc k) cs else k # parse_ones 0 cs)"

lemma parse_ones_numbers:
  "parse_ones 0 (map (\<lambda>n. if n = 0 then CHR ''0'' else CHR ''1'') (concat (map (\<lambda>n. replicate n (1 :: nat) @ [0]) ns))) = ns"
proof (induction ns)
  case (Cons n ns)
  have "parse_ones k (replicate n CHR ''1'' @ s) = parse_ones (k + n) s" for k n s
    by (induction n arbitrary: k) auto
  then show ?case using Cons by simp
qed simp

theorem signatures_come_back_witness:
  "restore_signatures (\<lambda>s. Some (parse_ones 0 (tl s))) (store_signatures unparse_numbers True [2, 0, 1] None) [] = [2, 0, 1]"
  by (rule signatures_come_back) (simp_all add: unparse_numbers_def parse_ones_numbers [simplified])

section \<open>Form fields\<close>

datatype json = JNull | JBool bool | JNumber rat | JString string | JArray "json list" | JObject "(string \<times> json) list"

text \<open>\<open>String(value ?? "")\<close>; the text of a number is an argument, null stands for nothing also inside an array.\<close>

fun json_string :: "(rat \<Rightarrow> string) \<Rightarrow> json \<Rightarrow> string" where
  "json_string num JNull = []"
| "json_string num (JBool b) = (if b then ''true'' else ''false'')"
| "json_string num (JNumber n) = num n"
| "json_string num (JString s) = s"
| "json_string num (JArray vs) = js_join '','' (map (json_string num) vs)"
| "json_string num (JObject kvs) = ''[object Object]''"

text \<open>\<open>Object.entries\<close>: of an object its entries, of an array and of a text those of its places; of null it throws.\<close>

definition json_entries :: "json \<Rightarrow> (string \<times> json) list option" where
  "json_entries v =
     (case v of
        JObject kvs \<Rightarrow> Some kvs
      | JArray vs \<Rightarrow> Some (map (\<lambda>(i, v). (show_nat i, v)) (enumerate 0 vs))
      | JString s \<Rightarrow> Some (map (\<lambda>(i, c). (show_nat i, JString [c])) (enumerate 0 s))
      | JNull \<Rightarrow> None
      | _ \<Rightarrow> Some [])"

definition import_form_values :: "(rat \<Rightarrow> string) \<Rightarrow> json option \<Rightarrow> string + (string \<times> string) list" where
  "import_form_values num parsed =
     (case parsed of
        None \<Rightarrow> Inl ''The file is not valid JSON.''
      | Some v \<Rightarrow> (case json_entries v of
          None \<Rightarrow> Inl ''The file is not valid JSON.''
        | Some es \<Rightarrow> Inr (js_map_of (map (\<lambda>(k, v). (k, json_string num v)) es))))"

definition export_form_values :: "(string \<times> string) list \<Rightarrow> json" where
  "export_form_values vals = JObject (map (\<lambda>(k, v). (k, JString v)) vals)"

definition form_values_name :: "string \<Rightarrow> string" where
  "form_values_name fileName = replace_pdf_end [] fileName @ ''-form-values.json''"

record field_info =
  fi_name :: string
  fi_type :: field_type
  fi_read_only :: bool
  fi_value :: string

definition cleared_values :: "field_info list \<Rightarrow> (string \<times> string) list" where
  "cleared_values fs =
     js_map_of (map (\<lambda>f. (fi_name f, if fi_type f \<in> {CheckboxField, RadioField} then ''Off'' else [])) fs)"

text \<open>The first widget of each name.\<close>

definition widgets_by_name :: "(string \<times> nat) list \<Rightarrow> (string \<times> nat) list" where
  "widgets_by_name widgets = foldl (\<lambda>m (name, w). if name \<in> fst ` set m then m else m @ [(name, w)]) [] widgets"

datatype field_call = SelectWidget nat | SelectField nat | ShowWidget nat

definition focus_field :: "bool \<Rightarrow> (string \<times> nat) list \<Rightarrow> string \<Rightarrow> field_call list" where
  "focus_field design widgets name =
     (case map_of (widgets_by_name widgets) name of
        None \<Rightarrow> []
      | Some w \<Rightarrow> [if design then SelectWidget w else SelectField w, ShowWidget w])"

lemma js_map_of_distinct: "distinct (map fst es) \<Longrightarrow> js_map_of es = es"
proof -
  have "distinct (map fst (m @ es)) \<Longrightarrow> foldl (\<lambda>m (k, v). AList.update k v m) m es = m @ es" for m :: "('a \<times> 'b) list"
  proof (induction es arbitrary: m)
    case (Cons e es)
    obtain k v where e: "e = (k, v)" by (cases e)
    have "k \<notin> fst ` set m" using Cons.prems e by auto
    then have "AList.update k v m = m @ [(k, v)]" by (induction m) auto
    then show ?case using Cons.IH [of "m @ [(k, v)]"] Cons.prems e by simp
  qed simp
  from this [of "[]"] show "distinct (map fst es) \<Longrightarrow> js_map_of es = es" by (simp add: js_map_of_def)
qed

text \<open>Values that were exported are imported as they were.\<close>
theorem form_values_round_trip:
  assumes "distinct (map fst vals)"
  shows "import_form_values num (Some (export_form_values vals)) = Inr vals"
proof -
  have "map (\<lambda>(k, v). (k, json_string num v)) (map (\<lambda>(k, v). (k, JString v)) vals) = vals"
    by (induction vals) auto
  then show ?thesis using js_map_of_distinct [OF assms] by (simp add: import_form_values_def export_form_values_def json_entries_def)
qed

theorem form_values_round_trip_witness:
  "import_form_values (\<lambda>_. []) (Some (export_form_values [(''a'', ''1''), (''b'', [])])) = Inr [(''a'', ''1''), (''b'', [])]"
  by (rule form_values_round_trip) simp

text \<open>A cleared form has every field, each off or empty; also the fields that may only be read are written.\<close>

lemma cleared_values_exact:
  "fst ` set (cleared_values fs) = fi_name ` set fs \<and> snd ` set (cleared_values fs) \<subseteq> {''Off'', []}"
proof -
  let ?es = "map (\<lambda>f. (fi_name f, if fi_type f \<in> {CheckboxField, RadioField} then ''Off'' else [])) fs"
  have in_map: "(k, v) \<in> set (js_map_of ?es) \<longleftrightarrow> map_of (rev ?es) k = Some v" for k v
    using map_of_eq_Some_iff [OF js_map_of_keys [of ?es], of k v] map_of_foldl_update [of "[]" ?es] by (simp add: js_map_of_def)
  then have "fst ` set (js_map_of ?es) = dom (map_of (rev ?es))" by (force simp: dom_def)
  moreover have "(k, v) \<in> set ?es" if "(k, v) \<in> set (js_map_of ?es)" for k v
    using that map_of_SomeD [of "rev ?es" k v] unfolding in_map by (simp only: set_rev)
  then have "set (js_map_of ?es) \<subseteq> set ?es" by auto
  ultimately show ?thesis by (force simp: cleared_values_def dom_map_of_conv_image_fst)
qed

lemma read_only_cleared: "(fi_name f, []) \<in> set (cleared_values [f])" if "fi_read_only f" "fi_type f = TextField"
  using that by (simp add: cleared_values_def js_map_of_def)

text \<open>The widget that is shown for a name is the first of it.\<close>

lemma widgets_by_name_first: "map_of (widgets_by_name widgets) = map_of widgets"
proof -
  have "map_of (foldl (\<lambda>m (name, w). if name \<in> fst ` set m then m else m @ [(name, w)]) m widgets) = map_of widgets ++ map_of m" for m :: "(string \<times> nat) list"
  proof (induction widgets arbitrary: m)
    case (Cons e ws)
    obtain k w where e: "e = (k, w)" by (cases e)
    have "map_of m k \<noteq> None \<longleftrightarrow> k \<in> fst ` set m" by (auto simp: map_of_eq_None_iff)
    then show ?case unfolding e using Cons.IH by (auto simp: fun_eq_iff map_add_def split: option.splits)
  qed simp
  from this [of "[]"] show ?thesis by (simp add: widgets_by_name_def)
qed

end
