(* ===== verification/Spec2Isabelle.thy ===== *)
theory Spec2Isabelle
  imports Uploader AuthProxy TokenManager FileView NativeFiles EditView Forms ColorPicker DocumentShell SheetToolbar WorkbookSearch PdfViewer PdfSearch PdfSource PagesPanel DocxEditor DocxStyles DocxPages PdfProperties PdfFields PdfSecurity PdfLinks PdfDialogs PdfLoader PdfActions PdfOutline PdfComments PdfStamps
begin

text \<open>
  The clients of the file service: the web application (web/src, Next.js) and the mobile application
  (native/src, Expo). Both talk to the auth, metadata and upload services by generated RPC clients; the services
  themselves are written in Go and are not part of this development.

  HOW THE PARTS INTERACT. Files reach the service on two ways. New files go through Uppy: the upload hook adds them, the
  uploader plugin hashes their chunks, asks which of them the service lacks and sends those. Edited files go through
  \<open>saveEditedFile\<close>, which does the same with blocks and commits a new version against the version the edit began
  from; the edit view runs it, shows its progress and reacts to its verdict. Files are listed by query hooks; the grid,
  the trash and the mobile browser select, move, delete and restore them by mutations that invalidate those
  queries. Every page of the web application is guarded by a middleware that validates the refresh token and
  renews the access token; RPCs of the browser pass a proxy that puts the access token into their headers. The mobile
  application keeps the refresh token in the keychain and the access token in memory, and renews it before and after
  calls. Documents are shown and edited in the browser: a probe of the content URL decides whether a viewer is mounted, the PDF
  engine is shared by all of them, and an editor's export is captured from its download and handed to the save. The PDF editor is
  one machine over the engine with a loader before it and panels, dialogs and a search beside it; what they do to the document are
  calls of the engine, whose answers come later as actions. The editors of workbooks and DOCX files are toolbars over a library in
  the same way.

  THEORIES AND WHAT THEY MODEL.
  Prelude: errors as thrown by TypeScript, the strings, sets, maps and slices of JavaScript the code uses, the
    interfaces (locales) of a single flight and of a machine with an invariant or a rank, and the bookkeeping of
    runs (exec).
  WorkerPool: runWithWorkers of web/src/modules/files/lib/edit-commit.ts as a machine whose actions are the turns
    of the workers and the settlements of their tasks.
  EditCommit: the rest of edit-commit.ts - splitting, hashing, prepare, the upload of a block with its retries and
    backoff, progress, commit and the verdict - for arbitrary RPC outcomes and arbitrary schedules of the pool.
  Uploader: web/src/lib/uppy-connectrpc-uploader.ts, web/src/modules/files/hooks/use-uppy-file-upload.ts and the
    state of web/src/modules/files/components/upload-drawer.tsx.
  ServerJwt: web/src/lib/server-jwt.ts with its key cache, jwt-utils.ts and auth-cookie.ts.
  AuthProxy: web/src/proxy.ts, web/src/actions/auth.ts, web/src/lib/csrf.ts, create-rpc-proxy.ts, the thumbnail
    route and the auth context.
  TokenManager: native/src/auth (token manager, session store), sign-in and sign-out, the interceptor and the route
    guards; every await is a point where other activities run.
  FilesApi: web/src/modules/files/api and native/src/modules/files/api: keys, pages, batches, mutations, downloads.
  FileView: web/src/modules/files/views/file-view.tsx, its drag and drop and deleted-files-view.tsx.
  FileDisplay: sizes, ages, kinds and icons of files on both clients.
  NativeFiles: the folder browser of native/src/modules/files/views/files-view.tsx and the home view.
  EditView: web/src/modules/files/views/file-edit-view.tsx, use-edit-session.ts, the preview drawer and url-preview.tsx.
  Forms: sign-in, sign-up, rename, create-folder and the create sheet; service addresses and initials.
  Color and ColorText: web/src/lib/color-picker-utils.ts, conversions and text.
  ColorPicker: the state of web/src/components/extend/document-color-picker.tsx.
  Numbers: how JavaScript rounds numbers and reads them from text.
  DocumentShell: the preview panels and their probe, the capture of an export (web/src/lib/capture-blob-download.ts) and the
    shared PDF engine with its caches.
  DocumentNames: names, sizes, ages and zoom steps of the viewers and editors of web/src/components/extend.
  Spreadsheet, SheetToolbar, WorkbookSearch: cells, ranges and styles, the toolbar of xlsx-editor.tsx, and the search of
    xlsx-viewer.tsx in batches of rows.
  PdfPages, PdfViewer, PdfSearch: pages, rotations and thumbnails, the state and the search popover of pdf-viewer.tsx.
  DocxDocument, DocxPages, DocxEditor, DocxStyles: docx-viewer.tsx and docx-editor.tsx - how both load documents, the pages of the
    viewer, the state of the editor and what its toolbar computes.
  PdfSource, PdfLoader, PdfActions: pdf-editor.tsx - what it is given and gives away, the opening and closing of documents over the
    manager, and the editor of a loaded document with its tools, modes, keys, saving and search.
  PagesPanel, PdfOutline, PdfComments, PdfStamps: the panels of pdf-editor-panels.tsx - pages, outline and attachments, comments and
    redactions, stamps, signatures and form values.
  PdfProperties, PdfFields: the properties of annotations and of form fields of pdf-editor-properties.tsx.
  PdfSecurity, PdfLinks, PdfDialogs: the dialogs of pdf-editor-dialogs.tsx.
  A record of a theory is the state a module, a hook or a component keeps; a definition is one function or handler
  of the source under its name in snake case; an action is one event, one settlement or one await of it.

  WHAT THE LEMMAS SHOW. The pool: each item is started once and at most the limit run at a time, nothing is started
  after a failure, every run is finite and can end, and the outcome is success only when every task succeeded. The save: it uploads
  exactly the missing blocks, commits only what the file holds, reports the verdict and always ends. The uploader sends
  every missing chunk and succeeds exactly when all of them were accepted; no two uploads run at a time. Tokens: a token that
  validates was verified with a key that the service published under its key id within the last eight days; a fetch of keys that
  fails in any way leaves the cache as it is; refreshes on the web share one request and on the phone run one after another, each
  presenting one token; a sign-out that no new token crosses leaves none behind, and the ways a rejected refresh ends are listed with
  the keychain's failures. Proxies forward no cookie and set protected cookies. The views: selections, moves,
  deletes and previews reach exactly the items meant, and the places where they do not are lemmas of their own. The edit view: at most one save, and a missing unsaved mark means everything typed before is
  committed. Forms: what is asked for validates. Colours: conversions and texts round trip, every parsed or picked colour is in
  range, and in a session without returning changes the picker ignores the echo of its own changes. Captures swallow exactly the links their
  export made. A workbook search in batches is one walk over every sheet; a border command draws its lines and touches nothing else.
  Viewers: selections and rotations turn what they say, the view stays in the document, searches come to rest with the last query.
  PDF editor: only the document wanted is edited, marks are removed only after a confirmation, protection and metadata are saved as
  chosen, form fields are locked unless they are designed.

  BOUNDS, FUEL AND SCHEDULES. Loops whose end depends on the input are partial_function (option), with theorems that
  say when they return (a block size that is not positive diverges, as the source does). The backoff and the batches
  recurse on lists or numbers. The gamut search of a colour recurses on an interval; its measure is the number of
  epsilons the interval holds, which a halving lowers. Concurrency is a list of actions: exec gives None when an
  action is not enabled, and the theorems quantify over every list, so no fuel bounds a run. Rational numbers stand for doubles where
  the code computes fractions; integers are int or nat, bytes are 8 word. A request reads the clock once, where the source may read it
  again after an await; a value read from the keychain is that of the moment the read ends; the effects of parallel block uploads
  are listed in the order they settle. Strings are lists of 8-bit characters, so
  text beyond U+00FF is left out.

  NOT MODELLED. Generated protocol code and the Go services: RPC outcomes are arguments. Libraries - Uppy, TanStack
  Query, jose, the schema and drag-and-drop libraries, React itself, Web Crypto, the keychain, Math's powers and trigonometry, the
  canvas - are parameters with the documented behaviour that a theorem needs as its hypothesis. The engines
  behind the viewers and editors of PDF, DOCX and XLSX files are not in the repository; of the components around them
  (web/src/components/extend) the markup, the icons, the menus over selected text and annotations, scroll areas and virtual
  lists, and drawing on a canvas are left out. Markup, styling, layout, logging and timers that only animate are left out everywhere; so are the route
  files, the navigation and the construction of clients, which have no behaviour of their own.
\<close>

end
